(* ===== verification/Prelude.thy ===== *)
theory Prelude
  imports Complex_Main "HOL-Library.Word"
begin

text \<open>
  Shared vocabulary of the development: the machine integers of the LP64 target, the C++ standard
  exceptions as values, the sequencing of operations that may throw, and generic facts on words,
  lists and chains of half-open ranges that the component theories use.
\<close>

section \<open>Machine integers and exceptions\<close>

type_synonym u8 = "8 word"
type_synonym u16 = "16 word"
type_synonym u32 = "32 word"
type_synonym u64 = "64 word"

text \<open>The target is LP64: \<open>std::size_t\<close> and \<open>unsigned long\<close> have 64 bits.\<close>

type_synonym size_t = "64 word"

text \<open>
  A thrown exception: its standard class and its message.  \<open>Terminated\<close> is no exception: the program ends
  at once because an exception tried to leave a \<open>noexcept\<close> function.
\<close>

datatype cpp_error =
    Invalid_argument string
  | Overflow_error string
  | Domain_error string
  | Runtime_error string
  | Logic_error string
  | Out_of_range string
  | Length_error string
  | System_error string
  | Terminated string

type_synonym 'a result = "cpp_error + 'a"

text \<open>Sequencing: the continuation runs only when the first operation did not throw.\<close>

definition res_bind :: "'a result \<Rightarrow> ('a \<Rightarrow> 'b result) \<Rightarrow> 'b result" where
  "res_bind r f = (case r of Inl e \<Rightarrow> Inl e | Inr x \<Rightarrow> f x)"

lemma res_bind_Inl [simp]: "res_bind (Inl e) f = Inl e"
  by (simp add: res_bind_def)

lemma res_bind_Inr [simp]: "res_bind (Inr x) f = f x"
  by (simp add: res_bind_def)

lemma res_bind_eq_Inr_iff: "res_bind r f = Inr y \<longleftrightarrow> (\<exists>x. r = Inr x \<and> f x = Inr y)"
  by (cases r) auto

lemma res_bind_assoc: "res_bind (res_bind r f) h = res_bind r (\<lambda>x. res_bind (f x) h)"
  by (cases r) auto

lemma res_bind_cong [fundef_cong]:
  "r = r' \<Longrightarrow> (\<And>x. r' = Inr x \<Longrightarrow> f x = f' x) \<Longrightarrow> res_bind r f = res_bind r' f'"
  by (cases r') auto

text \<open>A guard that throws when its condition holds.\<close>

definition throw_if :: "bool \<Rightarrow> cpp_error \<Rightarrow> unit result" where
  "throw_if c e = (if c then Inl e else Inr ())"

lemma throw_if_True [simp]: "throw_if True e = Inl e"
  by (simp add: throw_if_def)

lemma throw_if_False [simp]: "throw_if False e = Inr ()"
  by (simp add: throw_if_def)

lemma throw_if_eq_Inr_iff [simp]: "throw_if c e = Inr u \<longleftrightarrow> \<not> c"
  by (simp add: throw_if_def)

lemma res_bind_throw_if: "res_bind (throw_if c e) f = (if c then Inl e else f ())"
  by (simp add: throw_if_def)

text \<open>
  \<open>res_elim\<close> collects the inversions of a successful sequence of operations.
\<close>

named_theorems res_elim

declare res_bind_eq_Inr_iff [res_elim] throw_if_eq_Inr_iff [res_elim]

text \<open>The message of an exception, \<open>std::exception::what\<close>.\<close>

fun what :: "cpp_error \<Rightarrow> string" where
  "what (Invalid_argument m) = m"
| "what (Overflow_error m) = m"
| "what (Domain_error m) = m"
| "what (Runtime_error m) = m"
| "what (Logic_error m) = m"
| "what (Out_of_range m) = m"
| "what (Length_error m) = m"
| "what (System_error m) = m"
| "what (Terminated m) = m"

text \<open>
  Operations that change a state and may throw: the state at the throw is kept, as C++ keeps the
  effects of the statements before it.
\<close>

type_synonym ('s, 'a) action = "'s \<Rightarrow> 'a result \<times> 's"

definition st_bind :: "('s, 'a) action \<Rightarrow> ('a \<Rightarrow> ('s, 'b) action) \<Rightarrow> ('s, 'b) action" where
  "st_bind m f s = (case m s of (Inl e, s') \<Rightarrow> (Inl e, s') | (Inr x, s') \<Rightarrow> f x s')"

definition st_return :: "'a \<Rightarrow> ('s, 'a) action" where
  "st_return x s = (Inr x, s)"

definition st_throw :: "cpp_error \<Rightarrow> ('s, 'a) action" where
  "st_throw e s = (Inl e, s)"

definition st_lift :: "'a result \<Rightarrow> ('s, 'a) action" where
  "st_lift r s = (r, s)"

definition st_throw_if :: "bool \<Rightarrow> cpp_error \<Rightarrow> ('s, unit) action" where
  "st_throw_if c e s = (throw_if c e, s)"

lemma st_bind_eq_Inr:
  "st_bind m f s = (Inr y, t) \<longleftrightarrow> (\<exists>x s'. m s = (Inr x, s') \<and> f x s' = (Inr y, t))"
  by (auto simp: st_bind_def split: prod.splits sum.splits)

lemma st_bind_Inr: "m s = (Inr x, s') \<Longrightarrow> st_bind m f s = f x s'"
  by (simp add: st_bind_def)

lemma st_bind_Inl: "m s = (Inl e, s') \<Longrightarrow> st_bind m f s = (Inl e, s')"
  by (simp add: st_bind_def)

lemma st_basic [simp]:
  "st_return x s = (Inr x, s)" "st_throw e s = (Inl e, s)" "st_lift r s = (r, s)"
  "st_throw_if c e s = (throw_if c e, s)"
  by (simp_all add: st_return_def st_throw_def st_lift_def st_throw_if_def)

text \<open>The same with a computation that may not return, which is \<open>None\<close>.\<close>

type_synonym ('s, 'a) paction = "'s \<Rightarrow> ('a result \<times> 's) option"

definition p_bind :: "('s, 'a) paction \<Rightarrow> ('a \<Rightarrow> ('s, 'b) paction) \<Rightarrow> ('s, 'b) paction" where
  "p_bind m f s =
     (case m s of None \<Rightarrow> None
      | Some (r, s') \<Rightarrow> (case r of Inl e \<Rightarrow> Some (Inl e, s') | Inr x \<Rightarrow> f x s'))"

definition p_lift :: "('s, 'a) action \<Rightarrow> ('s, 'a) paction" where
  "p_lift m s = Some (m s)"

lemma p_bind_eq_Inr:
  "p_bind m f s = Some (Inr y, t) \<longleftrightarrow> (\<exists>x s'. m s = Some (Inr x, s') \<and> f x s' = Some (Inr y, t))"
  by (auto simp: p_bind_def split: option.splits prod.splits sum.splits)

lemma p_bind_Inr: "m s = Some (Inr x, s') \<Longrightarrow> p_bind m f s = f x s'"
  by (simp add: p_bind_def)

lemma p_lift_eq [simp]: "p_lift m s = Some (m s)"
  by (simp add: p_lift_def)

text \<open>
  Total correctness of an operation that may throw: it returns, an exception is one of the allowed
  ones, and a result satisfies the postcondition.
\<close>

definition st_ok :: "(cpp_error \<Rightarrow> bool) \<Rightarrow> ('s, 'a) action \<Rightarrow> 's \<Rightarrow> ('a \<Rightarrow> 's \<Rightarrow> bool) \<Rightarrow> bool" where
  "st_ok thr m s Q = (case m s of (Inl e, s') \<Rightarrow> thr e | (Inr x, s') \<Rightarrow> Q x s')"

definition p_ok :: "(cpp_error \<Rightarrow> bool) \<Rightarrow> ('s, 'a) paction \<Rightarrow> 's \<Rightarrow> ('a \<Rightarrow> 's \<Rightarrow> bool) \<Rightarrow> bool" where
  "p_ok thr m s Q =
     (case m s of None \<Rightarrow> False | Some (r, s') \<Rightarrow> (case r of Inl e \<Rightarrow> thr e | Inr x \<Rightarrow> Q x s'))"

lemma st_ok_bind [simp]: "st_ok thr (st_bind m f) s Q = st_ok thr m s (\<lambda>x s'. st_ok thr (f x) s' Q)"
  by (auto simp: st_ok_def st_bind_def split: prod.splits sum.splits)

lemma st_ok_return [simp]: "st_ok thr (st_return x) s Q = Q x s"
  by (simp add: st_ok_def)

lemma st_ok_lift [simp]: "st_ok thr (st_lift (Inr x)) s Q = Q x s"
  by (simp add: st_ok_def)

lemma st_ok_throw_if [simp]: "\<not> c \<Longrightarrow> st_ok thr (st_throw_if c e) s Q = Q () s"
  by (simp add: st_ok_def)

lemma st_ok_mono: "st_ok thr m s Q \<Longrightarrow> (\<And>x s'. Q x s' \<Longrightarrow> R x s') \<Longrightarrow> st_ok thr m s R"
  by (auto simp: st_ok_def split: prod.splits sum.splits)

lemma p_ok_bind [simp]: "p_ok thr (p_bind m f) s Q = p_ok thr m s (\<lambda>x s'. p_ok thr (f x) s' Q)"
  by (auto simp: p_ok_def p_bind_def split: prod.splits sum.splits option.splits)

lemma p_ok_lift [simp]: "p_ok thr (p_lift m) s Q = st_ok thr m s Q"
  by (auto simp: p_ok_def st_ok_def split: prod.splits)

lemma p_ok_mono: "p_ok thr m s Q \<Longrightarrow> (\<And>x s'. Q x s' \<Longrightarrow> R x s') \<Longrightarrow> p_ok thr m s R"
  by (cases "m s") (auto simp: p_ok_def split: sum.splits)

lemma p_ok_const [simp]: "p_ok thr (\<lambda>s. Some (Inr (f s), h s)) s Q = Q (f s) (h s)"
  by (simp add: p_ok_def)

lemma p_ok_Some: "m s = Some (Inr x, s') \<Longrightarrow> Q x s' \<Longrightarrow> p_ok thr m s Q"
  by (simp add: p_ok_def)

lemma p_okD:
  "p_ok thr m s Q \<Longrightarrow> \<exists>r s'. m s = Some (r, s') \<and> (\<forall>e. r = Inl e \<longrightarrow> thr e) \<and> (\<forall>x. r = Inr x \<longrightarrow> Q x s')"
  by (cases "m s") (auto simp: p_ok_def split: sum.splits)

section \<open>Word arithmetic without wrap-around\<close>

lemma unat_sub_le: "b \<le> a \<Longrightarrow> unat (a - b :: 'a::len word) = unat a - unat b"
  by (simp add: unat_sub word_le_nat_alt)

lemma unat_add_no_wrap:
  "unat a + unat b < 2 ^ LENGTH('a) \<Longrightarrow> unat (a + b :: 'a::len word) = unat a + unat b"
  by (simp add: unat_add_lem)

lemma unat_mult_no_wrap:
  "unat a * unat b < 2 ^ LENGTH('a) \<Longrightarrow> unat (a * b :: 'a::len word) = unat a * unat b"
  by (simp add: unat_mult_lem)

lemma unat_max_word: "unat (- 1 :: 'a::len word) = 2 ^ LENGTH('a) - 1"
  by (simp add: unsigned_minus_1_eq_mask mask_eq_exp_minus_1)

lemma max_word_not_less [simp]: "\<not> (- 1 :: 'a::len word) < w"
  by (simp add: not_less)

lemma unat_u64_less: "unat (w :: u64) < 2 ^ 64"
  using unsigned_less [of w] by simp

lemma unat_u64_le: "unat (w :: u64) \<le> 2 ^ 64 - 1"
  using unat_u64_less [of w] by simp

lemma unat_of_nat_u64: "n < 2 ^ 64 \<Longrightarrow> unat (of_nat n :: u64) = n"
  by (simp add: unat_of_nat)

lemma unat_ucast_u32_u64 [simp]: "unat (ucast (w :: u32) :: u64) = unat w"
  using unsigned_less [of w, where ?'a = nat] by (simp add: unsigned_ucast_eq take_bit_nat_eq_self)

lemma ex_unat_u64: "n < 2 ^ 64 \<Longrightarrow> \<exists>w :: u64. unat w = n"
  using unat_of_nat_u64 by blast

section \<open>Decimal text and big-endian bytes\<close>

text \<open>Decimal digits of a number, as \<open>std::to_string\<close> prints an unsigned value.\<close>

definition digit_char :: "nat \<Rightarrow> char" where
  "digit_char d = char_of (48 + d)"

lemma digit_char_3: "digit_char 3 = CHR ''3''"
  by code_simp

fun dec_string :: "nat \<Rightarrow> string" where
  "dec_string n =
     (if n < 10 then [digit_char n] else dec_string (n div 10) @ [digit_char (n mod 10)])"

declare dec_string.simps [simp del]

lemma dec_string_nonempty: "dec_string n \<noteq> []"
  by (subst dec_string.simps) simp

lemma dec_string_width:
  "10 ^ d \<le> n \<Longrightarrow> n < 10 ^ Suc d \<Longrightarrow>
   length (dec_string n) = Suc d \<and> hd (dec_string n) = digit_char (n div 10 ^ d)"
proof (induction d arbitrary: n)
  case 0
  then show ?case by (simp add: dec_string.simps)
next
  case (Suc d)
  have le: "10 ^ d \<le> n div 10" "n div 10 < 10 ^ Suc d"
    using Suc.prems by auto
  have "10 \<le> n"
    using Suc.prems by (metis le(1) div_less le_0_eq not_le power_not_zero zero_neq_numeral)
  moreover have "length (dec_string (n div 10)) = Suc d \<and>
      hd (dec_string (n div 10)) = digit_char (n div 10 div 10 ^ d)"
    using le by (rule Suc.IH)
  ultimately show ?case
    by (subst (1 2) dec_string.simps) (simp add: dec_string_nonempty div_mult2_eq)
qed

text \<open>The value of a byte sequence read most significant byte first.\<close>

definition be_value :: "u8 list \<Rightarrow> nat" where
  "be_value bs = foldl (\<lambda>v b. v * 256 + unat b) 0 bs"

lemma be_value_Nil [simp]: "be_value [] = 0"
  by (simp add: be_value_def)

lemma be_value_snoc [simp]: "be_value (bs @ [b]) = be_value bs * 256 + unat b"
  by (simp add: be_value_def)

lemma be_value_less: "be_value bs < 256 ^ length bs"
proof (induction bs rule: rev_induct)
  case Nil
  show ?case by simp
next
  case (snoc b bs)
  have "unat b < 256"
    using unsigned_less [of b] by simp
  moreover have "be_value bs + 1 \<le> 256 ^ length bs"
    using snoc.IH by simp
  then have "(be_value bs + 1) * 256 \<le> 256 ^ length bs * 256"
    by (rule mult_le_mono1)
  ultimately show ?case by simp
qed

lemma be_value_append: "be_value (xs @ ys) = be_value xs * 256 ^ length ys + be_value ys"
proof (induction ys rule: rev_induct)
  case Nil
  show ?case by simp
next
  case (snoc y ys)
  have "be_value (xs @ ys @ [y]) = be_value (xs @ ys) * 256 + unat y"
    using be_value_snoc [of "xs @ ys" y] by simp
  then show ?case
    by (simp add: snoc.IH algebra_simps)
qed

lemma be_value_Cons: "be_value (b # bs) = unat b * 256 ^ length bs + be_value bs"
  using be_value_append [of "[b]" bs] be_value_snoc [of "[]" b] by simp

lemma be_value_lower: "bs \<noteq> [] \<Longrightarrow> hd bs \<noteq> 0 \<Longrightarrow> 256 ^ (length bs - 1) \<le> be_value bs"
proof -
  assume bs: "bs \<noteq> []" "hd bs \<noteq> 0"
  then obtain b rest where eq: "bs = b # rest" by (cases bs) auto
  have "unat b \<noteq> 0"
    using bs eq by (simp add: unat_eq_zero)
  then have "1 * 256 ^ length rest \<le> unat b * 256 ^ length rest"
    by (intro mult_le_mono1) simp
  also have "\<dots> \<le> be_value bs"
    by (simp add: eq be_value_Cons)
  finally show ?thesis
    by (simp add: eq)
qed

text \<open>The shortest byte sequence of a number, most significant byte first; empty for zero.\<close>

fun be_bytes :: "nat \<Rightarrow> u8 list" where
  "be_bytes n = (if n = 0 then [] else be_bytes (n div 256) @ [of_nat (n mod 256)])"

declare be_bytes.simps [simp del]

lemma be_bytes_0 [simp]: "be_bytes 0 = []"
  by (simp add: be_bytes.simps)

lemma unat_of_nat_mod_256: "unat (of_nat (n mod 256) :: u8) = n mod 256"
  by (simp add: unat_of_nat)

lemma be_value_be_bytes [simp]: "be_value (be_bytes n) = n"
proof (induction n rule: be_bytes.induct)
  case (1 n)
  then show ?case
    by (cases "n = 0") (simp_all add: be_bytes.simps [of n] unat_of_nat_mod_256)
qed

lemma hd_be_bytes: "n \<noteq> 0 \<Longrightarrow> be_bytes n \<noteq> [] \<and> hd (be_bytes n) \<noteq> 0"
proof (induction n rule: be_bytes.induct)
  case (1 n)
  show ?case
  proof (cases "n div 256 = 0")
    case True
    with "1.prems" have "n mod 256 = n" "n < 256" by auto
    then have "unat (of_nat (n mod 256) :: u8) \<noteq> 0"
      using "1.prems" unat_of_nat_mod_256 [of n] by simp
    then show ?thesis
      using True "1.prems" by (auto simp: be_bytes.simps [of n])
  next
    case False
    then show ?thesis
      using "1.IH" "1.prems" by (auto simp: be_bytes.simps [of n])
  qed
qed

section \<open>Midpoint recursion over word ranges\<close>

text \<open>
  The midpoint \<open>start + (end - start) / 2\<close> of a word range, as the splitting recursions compute it.
\<close>

definition word_mid :: "u64 \<Rightarrow> u64 \<Rightarrow> u64" where
  "word_mid s e = s + (e - s) div 2"

lemma unat_word_mid:
  assumes "s < e"
  shows "unat (word_mid s e) = unat s + (unat e - unat s) div 2"
proof -
  have d: "unat (e - s) = unat e - unat s"
    using assms by (intro unat_sub_le) simp
  have "unat ((e - s) div 2) = (unat e - unat s) div 2"
    by (simp add: unat_div d)
  moreover have "unat s < unat e" "unat e < 2 ^ 64"
    using assms unsigned_less [of e] by (simp_all add: word_less_nat_alt)
  ultimately show ?thesis
    unfolding word_mid_def by (subst unat_add_no_wrap) auto
qed

lemma unat_diff_eq_1_iff: "s < e \<Longrightarrow> e - s = (1 :: u64) \<longleftrightarrow> unat e = Suc (unat s)"
  using unat_sub_le [of s e]
  by (auto simp: word_less_nat_alt word_le_nat_alt word_unat_eq_iff)

lemma word_mid_between:
  assumes "s < e" and "e - s \<noteq> 1"
  shows "s < word_mid s e" and "word_mid s e < e"
  using assms unat_diff_eq_1_iff [of s e]
  by (simp_all add: word_less_nat_alt unat_word_mid)

lemma word_mid_induct [consumes 1, case_names leaf split]:
  assumes "s < e"
    and leaf: "\<And>s e. s < e \<Longrightarrow> e - s = 1 \<Longrightarrow> P s e"
    and split: "\<And>s e. s < e \<Longrightarrow> e - s \<noteq> 1 \<Longrightarrow> P s (word_mid s e) \<Longrightarrow> P (word_mid s e) e \<Longrightarrow> P s e"
  shows "P s e"
  using assms(1)
proof (induction "unat e - unat s" arbitrary: s e rule: less_induct)
  case less
  show ?case
  proof (cases "e - s = 1")
    case True
    with less.prems show ?thesis by (rule leaf)
  next
    case False
    note mid = word_mid_between [OF less.prems False]
    have "P s (word_mid s e)" "P (word_mid s e) e"
      using mid less.prems by (auto intro!: less.hyps simp: word_less_nat_alt)
    with less.prems False show ?thesis by (rule split)
  qed
qed

end
