(* ===== verification/Gmp_Integer.thy ===== *)
theory Gmp_Integer
  imports Prelude "HOL-Library.Log_Nat"
begin

text \<open>
  \<open>GMPInteger\<close> (src/src/bigint/GMPInteger.cpp) and the part of GMP it calls.  An \<open>mpz_t\<close> is the
  integer it holds.  The GMP functions are not part of the repository: they are a parameter \<open>g\<close> of
  every definition that calls them, and the locale \<open>gmp_library\<close> states their documented
  behaviour.  \<open>mpz_export_be\<close> and \<open>mpz_import_be\<close> are \<open>mpz_export\<close> and \<open>mpz_import\<close> at the
  arguments the program passes (order 1, size 1, endian 1, no nails), \<open>mpz_sizeinbase_2\<close> and
  \<open>mpz_get_str_10\<close> the functions at bases 2 and 10.
\<close>

section \<open>The GMP functions the program calls\<close>

record gmp =
  mpz_init_set_ui :: "u64 \<Rightarrow> int"
  mpz_add :: "int \<Rightarrow> int \<Rightarrow> int"
  mpz_sub :: "int \<Rightarrow> int \<Rightarrow> int"
  mpz_mul :: "int \<Rightarrow> int \<Rightarrow> int"
  mpz_ui_pow_ui :: "u64 \<Rightarrow> u64 \<Rightarrow> int"
  mpz_sqrt :: "int \<Rightarrow> int"
  mpz_fdiv_q :: "int \<Rightarrow> int \<Rightarrow> int"
  mpz_neg :: "int \<Rightarrow> int"
  mpz_cmp :: "int \<Rightarrow> int \<Rightarrow> int"
  mpz_sgn :: "int \<Rightarrow> int"
  mpz_get_str_10 :: "int \<Rightarrow> string"
  mpz_sizeinbase_2 :: "int \<Rightarrow> size_t"
  mpz_export_be :: "int \<Rightarrow> u8 list"
  mpz_import_be :: "u8 list \<Rightarrow> int"
  mpz_fdiv_ui :: "int \<Rightarrow> u64 \<Rightarrow> u64"

text \<open>The documented behaviour of these functions, as far as the program relies on it.\<close>

locale gmp_library =
  fixes g :: gmp
  assumes mpz_init_set_ui: "mpz_init_set_ui g v = uint v"
    and mpz_add: "mpz_add g a b = a + b"
    and mpz_sub: "mpz_sub g a b = a - b"
    and mpz_mul: "mpz_mul g a b = a * b"
    and mpz_ui_pow_ui: "mpz_ui_pow_ui g base e = uint base ^ unat e"
    and mpz_sqrt_nonneg: "0 \<le> a \<Longrightarrow> 0 \<le> mpz_sqrt g a"
    and mpz_sqrt_lower: "0 \<le> a \<Longrightarrow> mpz_sqrt g a * mpz_sqrt g a \<le> a"
    and mpz_sqrt_upper: "0 \<le> a \<Longrightarrow> a < (mpz_sqrt g a + 1) * (mpz_sqrt g a + 1)"
    and mpz_fdiv_q: "b \<noteq> 0 \<Longrightarrow> mpz_fdiv_q g a b = a div b"
    and mpz_neg: "mpz_neg g a = - a"
    and mpz_cmp_less: "(mpz_cmp g a b < 0) = (a < b)"
    and mpz_cmp_greater: "(0 < mpz_cmp g a b) = (b < a)"
    and mpz_sgn: "mpz_sgn g a = sgn a"
    and mpz_get_str_nonneg: "0 \<le> a \<Longrightarrow> mpz_get_str_10 g a = dec_string (nat a)"
    and mpz_get_str_neg: "a < 0 \<Longrightarrow> mpz_get_str_10 g a = CHR ''-'' # dec_string (nat (- a))"
    and mpz_sizeinbase:
      "a \<noteq> 0 \<Longrightarrow> bitlen \<bar>a\<bar> < 2 ^ 64 \<Longrightarrow> uint (mpz_sizeinbase_2 g a) = bitlen \<bar>a\<bar>"
    and mpz_export_value: "int (be_value (mpz_export_be g a)) = \<bar>a\<bar>"
    and mpz_export_leading: "a \<noteq> 0 \<Longrightarrow> mpz_export_be g a \<noteq> [] \<and> hd (mpz_export_be g a) \<noteq> 0"
    and mpz_export_zero: "mpz_export_be g 0 = []"
    and mpz_import: "mpz_import_be g bs = int (be_value bs)"
    and mpz_fdiv_ui: "d \<noteq> 0 \<Longrightarrow> uint (mpz_fdiv_ui g a d) = a mod uint d"
begin

lemmas gmp_arith =
  mpz_init_set_ui mpz_add mpz_sub mpz_mul mpz_ui_pow_ui mpz_neg mpz_sgn

lemma mpz_sqrt_floor: "0 \<le> a \<Longrightarrow> mpz_sqrt g a = \<lfloor>sqrt (real_of_int a)\<rfloor>"
proof -
  assume a: "0 \<le> a"
  let ?s = "mpz_sqrt g a"
  have "real_of_int (?s * ?s) \<le> real_of_int a" "real_of_int a < real_of_int ((?s + 1) * (?s + 1))"
    using mpz_sqrt_lower [OF a] mpz_sqrt_upper [OF a] by (simp_all only: of_int_le_iff of_int_less_iff)
  then have "real_of_int ?s \<le> sqrt a" "sqrt a < real_of_int ?s + 1"
    using mpz_sqrt_nonneg [OF a]
    by (auto intro: real_le_rsqrt real_less_lsqrt simp: power2_eq_square)
  then show ?thesis
    by linarith
qed

end

section \<open>A reference instance\<close>

text \<open>
  Exact integer arithmetic satisfies the documented behaviour; the concrete instances of the
  development are evaluated with it.
\<close>

fun isqrt :: "nat \<Rightarrow> nat" where
  "isqrt n =
     (if n = 0 then 0
      else let r = 2 * isqrt (n div 4) in if (r + 1) * (r + 1) \<le> n then r + 1 else r)"

declare isqrt.simps [simp del]

lemma isqrt_bounds: "isqrt n * isqrt n \<le> n \<and> n < (isqrt n + 1) * (isqrt n + 1)"
proof (induction n rule: isqrt.induct)
  case (1 n)
  show ?case
  proof (cases "n = 0")
    case True
    then show ?thesis by (simp add: isqrt.simps)
  next
    case False
    define q where "q = isqrt (n div 4)"
    have q: "q * q \<le> n div 4" "n div 4 < (q + 1) * (q + 1)"
      using "1.IH" [OF False] by (simp_all add: q_def)
    then have q': "4 * (q * q) \<le> n" "n < 4 * ((q + 1) * (q + 1))"
      by auto
    have eq: "isqrt n = (if (2 * q + 1) * (2 * q + 1) \<le> n then 2 * q + 1 else 2 * q)"
      using False by (simp add: isqrt.simps [of n] q_def Let_def)
    show ?thesis
      unfolding eq using q' by (auto simp: algebra_simps)
  qed
qed

definition gmp_ref :: gmp where
  "gmp_ref = \<lparr>
     mpz_init_set_ui = uint,
     mpz_add = (+),
     mpz_sub = (-),
     mpz_mul = (*),
     mpz_ui_pow_ui = (\<lambda>b e. uint b ^ unat e),
     mpz_sqrt = (\<lambda>a. int (isqrt (nat a))),
     mpz_fdiv_q = (div),
     mpz_neg = uminus,
     mpz_cmp = (\<lambda>a b. sgn (a - b)),
     mpz_sgn = sgn,
     mpz_get_str_10 = (\<lambda>a. if 0 \<le> a then dec_string (nat a)
                          else CHR ''-'' # dec_string (nat (- a))),
     mpz_sizeinbase_2 = (\<lambda>a. word_of_int (bitlen \<bar>a\<bar>)),
     mpz_export_be = (\<lambda>a. be_bytes (nat \<bar>a\<bar>)),
     mpz_import_be = (\<lambda>bs. int (be_value bs)),
     mpz_fdiv_ui = (\<lambda>a d. word_of_int (a mod uint d)) \<rparr>"

lemma isqrt_int_bounds:
  "0 \<le> a \<Longrightarrow> int (isqrt (nat a)) * int (isqrt (nat a)) \<le> a \<and>
   a < (int (isqrt (nat a)) + 1) * (int (isqrt (nat a)) + 1)"
proof -
  assume a: "0 \<le> a"
  let ?s = "isqrt (nat a)"
  have "int (?s * ?s) \<le> int (nat a)" "int (nat a) < int ((?s + 1) * (?s + 1))"
    using isqrt_bounds [of "nat a"] by (simp_all only: of_nat_le_iff of_nat_less_iff)
  then show ?thesis
    using a by (simp add: algebra_simps)
qed

lemma uint_word_of_int_mod:
  "(d :: u64) \<noteq> 0 \<Longrightarrow> uint (word_of_int (a mod uint d) :: u64) = a mod uint d"
proof -
  assume d: "d \<noteq> 0"
  then have d0: "0 < uint d"
    by (simp add: word_neq_0_conv word_less_def)
  have r: "0 \<le> a mod uint d" "a mod uint d < uint d"
    using d0 by simp_all
  have "uint d < 2 ^ 64"
    using uint_lt2p [of d] by simp
  then have "(a mod uint d) mod 2 ^ 64 = a mod uint d"
    using r by (intro mod_pos_pos_trivial) linarith+
  then show ?thesis
    by (simp add: uint_word_of_int)
qed

interpretation gmp_ref: gmp_library gmp_ref
proof (unfold_locales, goal_cases)
  case (16 a)
  moreover have "0 \<le> bitlen \<bar>a\<bar>"
    by (simp add: bitlen_nonneg)
  ultimately show ?case
    by (simp add: gmp_ref_def uint_word_of_int mod_pos_pos_trivial)
qed (auto simp: gmp_ref_def isqrt_int_bounds hd_be_bytes uint_word_of_int_mod sgn_if)

section \<open>The wrapper class\<close>

text \<open>
  A method that changes its object returns the new value; a method that changes a second object
  too (move, swap) returns both values.
\<close>

definition GMPInteger_default :: int where
  "GMPInteger_default = 0"

definition GMPInteger_of_u64 :: "gmp \<Rightarrow> u64 \<Rightarrow> int" where
  "GMPInteger_of_u64 g value = mpz_init_set_ui g value"

definition GMPInteger_copy :: "int \<Rightarrow> int" where
  "GMPInteger_copy other = other"

definition GMPInteger_swap :: "int \<Rightarrow> int \<Rightarrow> int \<times> int" where
  "GMPInteger_swap self other = (other, self)"

definition GMPInteger_move :: "int \<Rightarrow> int \<times> int" where
  "GMPInteger_move other = GMPInteger_swap GMPInteger_default other"

definition GMPInteger_assign :: "int \<Rightarrow> int \<Rightarrow> int" where
  "GMPInteger_assign self other = other"

definition GMPInteger_move_assign :: "int \<Rightarrow> int \<Rightarrow> int \<times> int" where
  "GMPInteger_move_assign self other = GMPInteger_swap self other"

definition GMPInteger_add :: "gmp \<Rightarrow> int \<Rightarrow> int \<Rightarrow> int" where
  "GMPInteger_add g self other = mpz_add g self other"

definition GMPInteger_sub :: "gmp \<Rightarrow> int \<Rightarrow> int \<Rightarrow> int" where
  "GMPInteger_sub g self other = mpz_sub g self other"

definition GMPInteger_mul :: "gmp \<Rightarrow> int \<Rightarrow> int \<Rightarrow> int" where
  "GMPInteger_mul g self other = mpz_mul g self other"

definition GMPInteger_setPowerOfTen :: "gmp \<Rightarrow> u64 \<Rightarrow> int result" where
  "GMPInteger_setPowerOfTen g exponent =
     (if exponent > (- 1 :: u64)
      then Inl (Overflow_error ''Power-of-ten exponent is unsupported by GMP'')
      else Inr (mpz_ui_pow_ui g 10 exponent))"

definition GMPInteger_floorSquareRoot :: "gmp \<Rightarrow> int \<Rightarrow> int result" where
  "GMPInteger_floorSquareRoot g self =
     (if mpz_sgn g self < 0
      then Inl (Domain_error ''Integer square root requires a non-negative value'')
      else Inr (mpz_sqrt g self))"

definition GMPInteger_isZero :: "gmp \<Rightarrow> int \<Rightarrow> bool" where
  "GMPInteger_isZero g self \<longleftrightarrow> mpz_sgn g self = 0"

definition GMPInteger_floorDivide :: "gmp \<Rightarrow> int \<Rightarrow> int \<Rightarrow> int result" where
  "GMPInteger_floorDivide g self divisor =
     (if GMPInteger_isZero g divisor
      then Inl (Domain_error ''Integer division by zero'')
      else Inr (mpz_fdiv_q g self divisor))"

definition GMPInteger_negate :: "gmp \<Rightarrow> int \<Rightarrow> int" where
  "GMPInteger_negate g self = mpz_neg g self"

definition GMPInteger_set :: "int \<Rightarrow> int \<Rightarrow> int" where
  "GMPInteger_set self other = other"

definition GMPInteger_compare :: "gmp \<Rightarrow> int \<Rightarrow> int \<Rightarrow> int" where
  "GMPInteger_compare g self other = mpz_cmp g self other"

definition GMPInteger_toString :: "gmp \<Rightarrow> int \<Rightarrow> string" where
  "GMPInteger_toString g self = mpz_get_str_10 g self"

lemmas GMPInteger_defs =
  GMPInteger_default_def GMPInteger_of_u64_def GMPInteger_copy_def GMPInteger_swap_def
  GMPInteger_move_def GMPInteger_assign_def GMPInteger_move_assign_def GMPInteger_add_def
  GMPInteger_sub_def GMPInteger_mul_def GMPInteger_negate_def GMPInteger_set_def
  GMPInteger_isZero_def GMPInteger_compare_def

context gmp_library begin

lemma setPowerOfTen_eq: "GMPInteger_setPowerOfTen g e = Inr (10 ^ unat e)"
  by (simp add: GMPInteger_setPowerOfTen_def mpz_ui_pow_ui)

lemma floorDivide_eq: "d \<noteq> 0 \<Longrightarrow> GMPInteger_floorDivide g a d = Inr (a div d)"
  by (simp add: GMPInteger_floorDivide_def GMPInteger_isZero_def mpz_sgn mpz_fdiv_q sgn_eq_0_iff)

lemma isZero_iff: "GMPInteger_isZero g a \<longleftrightarrow> a = 0"
  by (simp add: GMPInteger_isZero_def mpz_sgn sgn_eq_0_iff)

lemma floorSquareRoot_eq: "0 \<le> a \<Longrightarrow> GMPInteger_floorSquareRoot g a = Inr \<lfloor>sqrt (real_of_int a)\<rfloor>"
  by (simp add: GMPInteger_floorSquareRoot_def mpz_sgn mpz_sqrt_floor sgn_if)

end

end
