(* ===== verification/Binary_Node.thy ===== *)
theory Binary_Node
  imports Gmp_Integer
begin

text \<open>
  \<open>BinaryNode\<close> (src/include/binary/BinaryNode.hpp, src/src/binary/BinaryNode.cpp): a half-open
  range of series terms with its P, Q and T payload.
\<close>

record BinaryNode =
  node_start :: size_t
  node_end :: size_t
  node_P :: int
  node_Q :: int
  node_T :: int

definition BinaryNode_default :: BinaryNode where
  "BinaryNode_default =
     \<lparr>node_start = 0, node_end = 0, node_P = GMPInteger_default, node_Q = GMPInteger_default,
      node_T = GMPInteger_default\<rparr>"

definition BinaryNode_make :: "size_t \<Rightarrow> size_t \<Rightarrow> BinaryNode" where
  "BinaryNode_make s e = BinaryNode_default\<lparr>node_start := s, node_end := e\<rparr>"

definition clearValues :: "BinaryNode \<Rightarrow> BinaryNode" where
  "clearValues n =
     n\<lparr>node_P := fst (GMPInteger_move_assign (node_P n) GMPInteger_default),
       node_Q := fst (GMPInteger_move_assign (node_Q n) GMPInteger_default),
       node_T := fst (GMPInteger_move_assign (node_T n) GMPInteger_default)\<rparr>"

definition hasValues :: "gmp \<Rightarrow> BinaryNode \<Rightarrow> bool" where
  "hasValues g n \<longleftrightarrow>
     \<not> GMPInteger_isZero g (node_P n) \<or> \<not> GMPInteger_isZero g (node_Q n)
     \<or> \<not> GMPInteger_isZero g (node_T n)"

lemma BinaryNode_make_simps [simp]:
  "node_start (BinaryNode_make s e) = s" "node_end (BinaryNode_make s e) = e"
  by (simp_all add: BinaryNode_make_def)

lemma clearValues_range [simp]:
  "node_start (clearValues n) = node_start n" "node_end (clearValues n) = node_end n"
  by (simp_all add: clearValues_def)

context gmp_library begin

lemma hasValues_iff: "hasValues g n \<longleftrightarrow> node_P n \<noteq> 0 \<or> node_Q n \<noteq> 0 \<or> node_T n \<noteq> 0"
  by (simp add: hasValues_def isZero_iff)

lemma not_hasValues_clear: "\<not> hasValues g (clearValues n)"
  by (simp add: hasValues_iff clearValues_def GMPInteger_defs)

end

end
