(* ===== verification/Binary_Splitter.thy ===== *)
theory Binary_Splitter
  imports Binary_Node Split_Scheme
begin

text \<open>
  The sequential half of \<open>BinarySplitter\<close> (src/src/binary/BinarySplitter.cpp): the Chudnovsky
  leaf, the merge of adjacent nodes and the recursive split, with their closed forms.
\<close>

section \<open>Operations\<close>

definition makeChudnovskyLeaf :: "gmp \<Rightarrow> size_t \<Rightarrow> size_t \<Rightarrow> BinaryNode" where
  "makeChudnovskyLeaf g term_index end_index =
     (let node = BinaryNode_make term_index end_index
      in if term_index = 0 then
           node\<lparr>node_P := GMPInteger_of_u64 g 1, node_Q := GMPInteger_of_u64 g 1,
                node_T := GMPInteger_of_u64 g 13591409\<rparr>
         else
           let k = GMPInteger_of_u64 g term_index;
               firstFactor = GMPInteger_sub g (GMPInteger_mul g k (GMPInteger_of_u64 g 6))
                               (GMPInteger_of_u64 g 5);
               secondFactor = GMPInteger_sub g (GMPInteger_mul g k (GMPInteger_of_u64 g 2))
                               (GMPInteger_of_u64 g 1);
               thirdFactor = GMPInteger_sub g (GMPInteger_mul g k (GMPInteger_of_u64 g 6))
                               (GMPInteger_of_u64 g 1);
               p = GMPInteger_mul g (GMPInteger_mul g (GMPInteger_set (node_P node) firstFactor)
                     secondFactor) thirdFactor;
               q = GMPInteger_mul g (GMPInteger_mul g (GMPInteger_mul g
                     (GMPInteger_set (node_Q node) k) k) k)
                     (GMPInteger_of_u64 g 10939058860032000);
               t = GMPInteger_mul g (GMPInteger_add g (GMPInteger_mul g
                     (GMPInteger_set (node_T node) k) (GMPInteger_of_u64 g 545140134))
                     (GMPInteger_of_u64 g 13591409)) p
           in node\<lparr>node_P := p, node_Q := q,
                   node_T := (if term_index mod 2 \<noteq> 0 then GMPInteger_negate g t else t)\<rparr>)"

definition validateRange :: "size_t \<Rightarrow> size_t \<Rightarrow> unit result" where
  "validateRange s e =
     throw_if (s \<ge> e) (Invalid_argument ''Binary Splitting requires start < end'')"

definition merge :: "gmp \<Rightarrow> BinaryNode \<Rightarrow> BinaryNode \<Rightarrow> BinaryNode result" where
  "merge g left right =
     (if node_end left \<noteq> node_start right then
        Inl (Invalid_argument ''Binary Splitting merge requires adjacent nodes'')
      else
        let result = BinaryNode_make (node_start left) (node_end right);
            p = GMPInteger_mul g (GMPInteger_set (node_P result) (node_P left)) (node_P right);
            q = GMPInteger_mul g (GMPInteger_set (node_Q result) (node_Q left)) (node_Q right);
            temp = GMPInteger_mul g (GMPInteger_copy (node_T left)) (node_Q right);
            t = GMPInteger_mul g (GMPInteger_set (node_T result) (node_P left)) (node_T right);
            temp2 = GMPInteger_add g temp t
        in Inr (result\<lparr>node_P := p, node_Q := q, node_T := fst (GMPInteger_swap t temp2)\<rparr>))"

text \<open>
  The recursion does not return on an empty range; its callers validate the range first.  Not
  returning is \<open>None\<close>.
\<close>

partial_function (option) splitSequentialValidated ::
  "gmp \<Rightarrow> size_t \<Rightarrow> size_t \<Rightarrow> BinaryNode result option" where
  "splitSequentialValidated g s e =
     (if e - s = 1 then Some (Inr (makeChudnovskyLeaf g s e))
      else
        Option.bind (splitSequentialValidated g s (s + (e - s) div 2)) (\<lambda>left.
          case left of Inl err \<Rightarrow> Some (Inl err)
          | Inr left_node \<Rightarrow>
              Option.bind (splitSequentialValidated g (s + (e - s) div 2) e) (\<lambda>right.
                case right of Inl err \<Rightarrow> Some (Inl err)
                | Inr right_node \<Rightarrow> Some (merge g left_node right_node))))"

definition splitSequential :: "gmp \<Rightarrow> size_t \<Rightarrow> size_t \<Rightarrow> BinaryNode result option" where
  "splitSequential g s e =
     (case validateRange s e of Inl err \<Rightarrow> Some (Inl err)
      | Inr _ \<Rightarrow> splitSequentialValidated g s e)"

definition split_range :: "gmp \<Rightarrow> size_t \<Rightarrow> size_t \<Rightarrow> BinaryNode result option" where
  "split_range g s e = splitSequential g s e"

section \<open>Closed forms\<close>

text \<open>The three factors of term \<open>k\<close> of the Chudnovsky series, as integers.\<close>

definition term_P :: "nat \<Rightarrow> int" where
  "term_P k = (if k = 0 then 1 else (6 * int k - 5) * (2 * int k - 1) * (6 * int k - 1))"

definition term_Q :: "nat \<Rightarrow> int" where
  "term_Q k = (if k = 0 then 1 else int k ^ 3 * 10939058860032000)"

definition term_T :: "nat \<Rightarrow> int" where
  "term_T k = (- 1) ^ k * (545140134 * int k + 13591409) * term_P k"

definition range_P :: "nat \<Rightarrow> nat \<Rightarrow> int" where
  "range_P a b = (\<Prod>k = a..<b. term_P k)"

definition range_Q :: "nat \<Rightarrow> nat \<Rightarrow> int" where
  "range_Q a b = (\<Prod>k = a..<b. term_Q k)"

definition range_T :: "nat \<Rightarrow> nat \<Rightarrow> int" where
  "range_T a b = (\<Sum>k = a..<b. range_P a k * term_T k * range_Q (Suc k) b)"

definition pqt_node :: "nat \<Rightarrow> nat \<Rightarrow> BinaryNode" where
  "pqt_node a b =
     \<lparr>node_start = of_nat a, node_end = of_nat b, node_P = range_P a b, node_Q = range_Q a b,
      node_T = range_T a b\<rparr>"

lemma range_P_single [simp]: "range_P k (Suc k) = term_P k"
  by (simp add: range_P_def)

lemma range_Q_single [simp]: "range_Q k (Suc k) = term_Q k"
  by (simp add: range_Q_def)

lemma range_P_empty [simp]: "range_P k k = 1"
  by (simp add: range_P_def)

lemma range_Q_empty [simp]: "range_Q k k = 1"
  by (simp add: range_Q_def)

lemma range_T_single [simp]: "range_T k (Suc k) = term_T k"
  by (simp add: range_T_def)

lemma range_P_concat: "a \<le> b \<Longrightarrow> b \<le> c \<Longrightarrow> range_P a b * range_P b c = range_P a c"
  by (simp add: range_P_def prod.atLeastLessThan_concat)

lemma range_Q_concat: "a \<le> b \<Longrightarrow> b \<le> c \<Longrightarrow> range_Q a b * range_Q b c = range_Q a c"
  by (simp add: range_Q_def prod.atLeastLessThan_concat)

lemma range_T_concat:
  assumes "a \<le> b" and "b \<le> c"
  shows "range_T a b * range_Q b c + range_P a b * range_T b c = range_T a c"
proof -
  have "range_T a b * range_Q b c = (\<Sum>k = a..<b. range_P a k * term_T k * range_Q (Suc k) c)"
    unfolding range_T_def sum_distrib_right
    using assms by (intro sum.cong) (auto simp: mult.assoc range_Q_concat)
  moreover have "range_P a b * range_T b c = (\<Sum>k = b..<c. range_P a k * term_T k * range_Q (Suc k) c)"
    unfolding range_T_def sum_distrib_left
    using assms by (intro sum.cong) (auto simp: mult.assoc [symmetric] range_P_concat)
  ultimately show ?thesis
    using assms by (simp add: range_T_def sum.atLeastLessThan_concat)
qed

lemma term_P_pos: "0 < term_P k"
  by (auto simp: term_P_def intro!: mult_pos_pos)

lemma term_Q_pos: "0 < term_Q k"
  by (auto simp: term_Q_def)

lemma range_Q_pos: "0 < range_Q a b"
  by (auto simp: range_Q_def intro!: prod_pos term_Q_pos)

lemma range_P_pos: "0 < range_P a b"
  by (auto simp: range_P_def intro!: prod_pos term_P_pos)

section \<open>The model meets the closed forms\<close>

context gmp_library begin

lemma leaf_constants:
  "GMPInteger_of_u64 g 1 = 1" "GMPInteger_of_u64 g 2 = 2" "GMPInteger_of_u64 g 5 = 5"
  "GMPInteger_of_u64 g 6 = 6" "GMPInteger_of_u64 g 13591409 = 13591409"
  "GMPInteger_of_u64 g 545140134 = 545140134"
  "GMPInteger_of_u64 g 10939058860032000 = 10939058860032000"
  by (simp_all add: GMPInteger_of_u64_def mpz_init_set_ui)

lemma makeChudnovskyLeaf_eq:
  "makeChudnovskyLeaf g k e = \<lparr>node_start = k, node_end = e, node_P = term_P (unat k),
     node_Q = term_Q (unat k), node_T = term_T (unat k)\<rparr>"
proof (cases "k = 0")
  case True
  then show ?thesis
    by (simp add: makeChudnovskyLeaf_def BinaryNode_make_def BinaryNode_default_def leaf_constants
        term_P_def term_Q_def term_T_def)
next
  case False
  then have nz: "unat k \<noteq> 0" by (simp add: unat_eq_zero)
  have par: "k mod 2 \<noteq> 0 \<longleftrightarrow> odd (unat k)"
    by (simp add: word_unat_eq_iff unat_mod odd_iff_mod_2_eq_one)
  have k: "GMPInteger_of_u64 g k = int (unat k)"
    by (simp add: GMPInteger_of_u64_def mpz_init_set_ui)
  show ?thesis
    using False nz
    unfolding makeChudnovskyLeaf_def BinaryNode_make_def BinaryNode_default_def Let_def par k
      leaf_constants GMPInteger_add_def GMPInteger_sub_def GMPInteger_mul_def GMPInteger_set_def
      GMPInteger_negate_def mpz_add mpz_sub mpz_mul mpz_neg term_P_def term_Q_def term_T_def
    by (cases "even (unat k)") (simp_all add: power3_eq_cube algebra_simps)
qed

lemma merge_eq:
  "node_end l = node_start r \<Longrightarrow>
   merge g l r = Inr \<lparr>node_start = node_start l, node_end = node_end r,
     node_P = node_P l * node_P r, node_Q = node_Q l * node_Q r,
     node_T = node_T l * node_Q r + node_P l * node_T r\<rparr>"
  by (simp add: merge_def BinaryNode_make_def BinaryNode_default_def GMPInteger_defs gmp_arith Let_def)

end

sublocale gmp_library \<subseteq> pqt: split_scheme "2 ^ 64 - 1" "\<lambda>k. makeChudnovskyLeaf g (of_nat k) (of_nat (Suc k))"
  "merge g" pqt_node
proof
  fix k :: nat
  assume "k < 2 ^ 64 - 1"
  then show "makeChudnovskyLeaf g (of_nat k) (of_nat (Suc k)) = pqt_node k (Suc k)"
    by (simp add: makeChudnovskyLeaf_eq pqt_node_def unat_of_nat)
next
  fix a b c :: nat
  assume "a < b" "b < c" "c \<le> 2 ^ 64 - 1"
  then show "merge g (pqt_node a b) (pqt_node b c) = Inr (pqt_node a c)"
    by (simp add: merge_eq pqt_node_def range_P_concat range_Q_concat range_T_concat)
qed

context gmp_library begin

lemma splitSequentialValidated_eq:
  assumes "s < e"
  shows "splitSequentialValidated g s e = Some (Inr (pqt_node (unat s) (unat e)))"
  using assms
proof (induction s e rule: word_mid_induct)
  case (leaf s e)
  then have e: "unat e = Suc (unat s)"
    by (simp add: unat_diff_eq_1_iff)
  have "range_P (unat s) (unat e) = term_P (unat s)" "range_Q (unat s) (unat e) = term_Q (unat s)"
    "range_T (unat s) (unat e) = term_T (unat s)"
    by (simp_all only: e range_P_single range_Q_single range_T_single)
  with leaf show ?case
    by (simp add: splitSequentialValidated.simps makeChudnovskyLeaf_eq pqt_node_def)
next
  case (split s e)
  let ?m = "word_mid s e"
  have between: "unat s < unat ?m" "unat ?m < unat e" "unat e \<le> 2 ^ 64 - 1"
    using word_mid_between [OF split.hyps] by (simp_all only: word_less_nat_alt unat_u64_le)
  have "merge g (pqt_node (unat s) (unat ?m)) (pqt_node (unat ?m) (unat e))
        = Inr (pqt_node (unat s) (unat e))"
    using between by (rule pqt.merge_node)
  then show ?case
    using split by (subst splitSequentialValidated.simps) (simp add: word_mid_def)
qed

lemma splitSequential_eq:
  "splitSequential g s e =
     Some (if s < e then Inr (pqt_node (unat s) (unat e))
           else Inl (Invalid_argument ''Binary Splitting requires start < end''))"
  by (simp add: splitSequential_def validateRange_def splitSequentialValidated_eq throw_if_def not_less)

end

end
