(* ===== verification/Chudnovsky_Series.thy ===== *)
theory Chudnovsky_Series
  imports Binary_Splitter
begin

text \<open>
  The meaning of the P/Q/T closed forms: \<open>T(0,n) / Q(0,n)\<close> is the partial sum of the Chudnovsky
  series, the series converges, and one term contributes at least 14.181647 decimal digits, which
  is the constant the precision policy relies on.
\<close>

section \<open>The series\<close>

text \<open>The absolute value of term \<open>k\<close>, without the constant factor of the series.\<close>

definition chud_abs :: "nat \<Rightarrow> real" where
  "chud_abs k = fact (6 * k) * (545140134 * real k + 13591409)
                / (fact (3 * k) * fact k ^ 3 * 640320 ^ (3 * k))"

definition chud_term :: "nat \<Rightarrow> real" where
  "chud_term k = (- 1) ^ k * chud_abs k"

definition chud_partial :: "nat \<Rightarrow> real" where
  "chud_partial n = (\<Sum>k<n. chud_term k)"

definition chud_sum :: real where
  "chud_sum = (\<Sum>k. chud_term k)"

text \<open>The value the program approximates: \<open>426880 \<surd>10005\<close> over the sum of the series.\<close>

definition chud_pi :: real where
  "chud_pi = 426880 * sqrt 10005 / chud_sum"

lemma fact_6_Suc:
  "(fact (6 * Suc k) :: real) =
     fact (6 * k) * ((6 * real k + 1) * (6 * real k + 2) * (6 * real k + 3) * (6 * real k + 4)
       * (6 * real k + 5) * (6 * real k + 6))"
proof -
  have "6 * Suc k = Suc (Suc (Suc (Suc (Suc (Suc (6 * k))))))" by simp
  then show ?thesis
    by (simp only: fact_Suc) (simp add: algebra_simps)
qed

lemma fact_3_Suc:
  "(fact (3 * Suc k) :: real) =
     fact (3 * k) * ((3 * real k + 1) * (3 * real k + 2) * (3 * real k + 3))"
proof -
  have "3 * Suc k = Suc (Suc (Suc (3 * k)))" by simp
  then show ?thesis
    by (simp only: fact_Suc) (simp add: algebra_simps)
qed

lemma coefficient_Suc:
  "(fact (6 * Suc k) :: real) / (fact (3 * Suc k) * fact (Suc k) ^ 3 * 640320 ^ (3 * Suc k))
   = fact (6 * k) / (fact (3 * k) * fact k ^ 3 * 640320 ^ (3 * k))
     * (term_P (Suc k) / term_Q (Suc k))"
proof -
  let ?x = "real k + 1"
  have f: "(fact (Suc k) :: real) ^ 3 = fact k ^ 3 * ?x ^ 3"
    by (simp add: power_mult_distrib mult.commute add.commute)
  have p: "(640320 :: real) ^ (3 * Suc k) = 640320 ^ (3 * k) * 262537412640768000"
    by (simp add: power_add)
  have P: "real_of_int (term_P (Suc k)) = (6 * ?x - 5) * (2 * ?x - 1) * (6 * ?x - 1)"
    by (simp add: term_P_def)
  have Q: "real_of_int (term_Q (Suc k)) = ?x ^ 3 * 10939058860032000"
    by (simp add: term_Q_def add.commute)
  have num: "(6 * real k + 1) * (6 * real k + 2) * (6 * real k + 3) * (6 * real k + 4)
       * (6 * real k + 5) * (6 * real k + 6)
     = 24 * ((3 * real k + 1) * (3 * real k + 2) * (3 * real k + 3))
       * ((6 * ?x - 5) * (2 * ?x - 1) * (6 * ?x - 1))"
    by algebra
  let ?d = "(3 * real k + 1) * (3 * real k + 2) * (3 * real k + 3)"
  have d: "?d \<noteq> 0"
    by (simp add: add_nonneg_eq_0_iff)
  have cancel: "F * (24 * d * N) / (G * d * (H * X) * (R * 262537412640768000))
                = F / (G * H * R) * (N / (X * 10939058860032000))"
    if "d \<noteq> 0" for F G H R d X N :: real
    using that by (simp add: field_simps)
  show ?thesis
    unfolding fact_6_Suc fact_3_Suc f p P Q num using d by (rule cancel)
qed

lemma coefficient_eq:
  "(fact (6 * k) :: real) / (fact (3 * k) * fact k ^ 3 * 640320 ^ (3 * k))
   = range_P 0 (Suc k) / range_Q 0 (Suc k)"
proof (induction k)
  case 0
  show ?case by (simp add: term_P_def term_Q_def)
next
  case (Suc k)
  have "range_P 0 (Suc (Suc k)) = range_P 0 (Suc k) * term_P (Suc k)"
    "range_Q 0 (Suc (Suc k)) = range_Q 0 (Suc k) * term_Q (Suc k)"
    by (simp_all add: range_P_def range_Q_def)
  then show ?case
    unfolding coefficient_Suc Suc.IH by simp
qed

lemma chud_term_eq:
  "chud_term k = (- 1) ^ k * (545140134 * real k + 13591409) * (range_P 0 (Suc k) / range_Q 0 (Suc k))"
  by (simp add: chud_term_def chud_abs_def coefficient_eq [symmetric])

lemma partial_sum_eq: "real_of_int (range_T 0 n) / real_of_int (range_Q 0 n) = chud_partial n"
proof -
  have "real_of_int (range_P 0 k * term_T k * range_Q (Suc k) n) / real_of_int (range_Q 0 n) = chud_term k"
    if "k < n" for k
  proof -
    have Q: "range_Q 0 n = range_Q 0 (Suc k) * range_Q (Suc k) n"
      using that by (simp add: range_Q_concat)
    have P: "range_P 0 (Suc k) = range_P 0 k * term_P k"
      using range_P_concat [of 0 k "Suc k"] by simp
    have nz: "real_of_int (range_Q (Suc k) n) \<noteq> 0"
      using range_Q_pos [of "Suc k" n] by simp
    show ?thesis
      unfolding Q of_int_mult chud_term_eq P term_T_def using nz
      by (simp add: mult_ac)
  qed
  then show ?thesis
    by (simp add: range_T_def chud_partial_def sum_divide_distrib atLeast0LessThan)
qed

section \<open>The digits one term contributes\<close>

abbreviation digits_base :: real where
  "digits_base \<equiv> 151931373056000"

lemma chud_abs_eq:
  "chud_abs k = (545140134 * real k + 13591409) * (range_P 0 (Suc k) / range_Q 0 (Suc k))"
  by (simp add: chud_abs_def coefficient_eq [symmetric])

lemma chud_abs_pos: "0 < chud_abs k"
  by (simp add: chud_abs_def)

lemma chud_abs_0 [simp]: "chud_abs 0 = 13591409"
  by (simp add: chud_abs_def)

lemma ratio_polynomial:
  assumes "2 \<le> (x :: real)"
  shows "(6 * x - 5) * (2 * x - 1) * (6 * x - 1) * (545140134 * x + 13591409)
         \<le> 72 * x ^ 3 * (545140134 * (x - 1) + 13591409)"
proof -
  define y where "y = x - 2"
  have "0 \<le> y" and x: "x = y + 2"
    using assms by (simp_all add: y_def)
  have "72 * x ^ 3 * (545140134 * (x - 1) + 13591409)
        - (6 * x - 5) * (2 * x - 1) * (6 * x - 1) * (545140134 * x + 13591409)
      = 19625044824 * y ^ 3 + 94141694952 * y ^ 2 + 143166737776 * y + 66835011381"
    unfolding x by (simp add: algebra_simps power2_eq_square power3_eq_cube)
  moreover have "0 \<le> 19625044824 * y ^ 3 + 94141694952 * y ^ 2 + 143166737776 * y + 66835011381"
    using \<open>0 \<le> y\<close> by simp
  ultimately show ?thesis by linarith
qed

lemma chud_abs_Suc:
  assumes x: "x = real k + 1"
  shows "chud_abs (Suc k) * digits_base * (72 * x ^ 3 * (545140134 * (x - 1) + 13591409))
   = chud_abs k * ((6 * x - 5) * (2 * x - 1) * (6 * x - 1) * (545140134 * x + 13591409))"
proof -
  let ?c = "real_of_int (range_P 0 (Suc k)) / real_of_int (range_Q 0 (Suc k))"
  have "range_P 0 (Suc (Suc k)) = range_P 0 (Suc k) * term_P (Suc k)"
    "range_Q 0 (Suc (Suc k)) = range_Q 0 (Suc k) * term_Q (Suc k)"
    by (simp_all add: range_P_def range_Q_def)
  then have "real_of_int (range_P 0 (Suc (Suc k))) / real_of_int (range_Q 0 (Suc (Suc k)))
             = ?c * (real_of_int (term_P (Suc k)) / real_of_int (term_Q (Suc k)))"
    by simp
  moreover have "real_of_int (term_P (Suc k)) / real_of_int (term_Q (Suc k))
      = ((6 * x - 5) * (2 * x - 1) * (6 * x - 1)) / (x ^ 3 * 10939058860032000)"
    by (simp add: term_P_def term_Q_def x add.commute)
  ultimately have abs_Suc: "chud_abs (Suc k) = (545140134 * x + 13591409)
      * (?c * (((6 * x - 5) * (2 * x - 1) * (6 * x - 1)) / (x ^ 3 * 10939058860032000)))"
    unfolding chud_abs_eq x by (simp add: add.commute)
  have abs_k: "chud_abs k = (545140134 * (x - 1) + 13591409) * ?c"
    by (simp add: chud_abs_eq x)
  have cancel: "M * (c * (N / (X * 10939058860032000))) * digits_base * (72 * X * L) = L * c * (N * M)"
    if "X \<noteq> 0" for M c N X L :: real
    using that by (simp add: field_simps)
  show ?thesis
    unfolding abs_Suc abs_k by (rule cancel) (simp add: x)
qed

lemma chud_abs_Suc_le: "chud_abs (Suc k) \<le> (if k = 0 then 3 else 1) / digits_base * chud_abs k"
proof -
  define x where "x = real k + 1"
  define num where "num = (6 * x - 5) * (2 * x - 1) * (6 * x - 1) * (545140134 * x + 13591409)"
  define den where "den = 72 * x ^ 3 * (545140134 * (x - 1) + 13591409)"
  define c where "c = (if k = 0 then 3 else 1 :: real)"
  have den: "0 < den" by (simp add: den_def x_def)
  have "num \<le> c * den"
    using ratio_polynomial [of x] by (cases "k = 0") (auto simp: num_def den_def c_def x_def)
  then have "chud_abs k * num \<le> chud_abs k * (c * den)"
    using chud_abs_pos [of k] by (intro mult_left_mono) auto
  moreover have "chud_abs (Suc k) * digits_base * den = chud_abs k * num"
    unfolding num_def den_def by (rule chud_abs_Suc) (simp add: x_def)
  ultimately have "chud_abs (Suc k) * digits_base * den \<le> chud_abs k * c * den"
    by (simp add: mult.assoc)
  then have "chud_abs (Suc k) * digits_base \<le> chud_abs k * c"
    using den by (rule mult_right_le_imp_le)
  then show ?thesis
    by (simp add: c_def field_simps)
qed

lemma chud_abs_le: "chud_abs k \<le> 3 * 13591409 / digits_base ^ k"
proof (induction k)
  case 0
  show ?case by simp
next
  case (Suc k)
  show ?case
  proof (cases "k = 0")
    case True
    then show ?thesis using chud_abs_Suc_le [of 0] by simp
  next
    case False
    then have "chud_abs (Suc k) \<le> chud_abs k / digits_base"
      using chud_abs_Suc_le [of k] by simp
    also have "\<dots> \<le> (3 * 13591409 / digits_base ^ k) / digits_base"
      using Suc.IH by (rule divide_right_mono) simp
    finally show ?thesis by (simp add: mult.commute)
  qed
qed

lemma chud_abs_decseq: "chud_abs (Suc k) \<le> chud_abs k"
proof -
  have "(if k = 0 then 3 else 1) / digits_base * chud_abs k \<le> 1 * chud_abs k"
    using chud_abs_pos [of k] by (intro mult_right_mono) auto
  then show ?thesis
    using chud_abs_Suc_le [of k] by simp
qed

lemma chud_abs_tendsto: "chud_abs \<longlonglongrightarrow> 0"
proof (rule tendsto_sandwich)
  show "\<forall>\<^sub>F k in sequentially. 0 \<le> chud_abs k"
    using chud_abs_pos by (simp add: less_imp_le)
  show "\<forall>\<^sub>F k in sequentially. chud_abs k \<le> 3 * 13591409 * (1 / digits_base) ^ k"
    using chud_abs_le by (simp add: power_divide)
  show "(\<lambda>k. 3 * 13591409 * (1 / digits_base) ^ k) \<longlonglongrightarrow> 0"
    by (intro tendsto_mult_right_zero LIMSEQ_realpow_zero) simp_all
qed simp

lemma chud_bracket:
  "(\<Sum>k<2 * n. chud_term k) \<le> chud_sum" "chud_sum \<le> (\<Sum>k<2 * n + 1. chud_term k)"
  unfolding chud_sum_def chud_term_def
  using summable_Leibniz' (2,4) [OF chud_abs_tendsto less_imp_le [OF chud_abs_pos] chud_abs_decseq]
  by blast+

lemma chud_summable: "summable chud_term"
  unfolding chud_term_def [abs_def]
  using summable_Leibniz' (1) [OF chud_abs_tendsto less_imp_le [OF chud_abs_pos] chud_abs_decseq] .

text \<open>The truncation error of the series is at most its first omitted term.\<close>

lemma chud_truncation: "\<bar>chud_sum - chud_partial n\<bar> \<le> chud_abs n"
proof (cases "even n")
  case True
  then obtain m where n: "n = 2 * m" by (elim evenE)
  have "chud_partial n \<le> chud_sum" "chud_sum \<le> chud_partial (Suc n)"
    using chud_bracket [of m] by (simp_all add: chud_partial_def n)
  moreover have "chud_partial (Suc n) = chud_partial n + chud_abs n"
    using True by (simp add: chud_partial_def chud_term_def)
  ultimately show ?thesis by linarith
next
  case False
  then obtain m where n: "n = 2 * m + 1" by (elim oddE)
  have "chud_sum \<le> chud_partial n"
    using chud_bracket(2) [of m] by (simp add: chud_partial_def n)
  moreover have "chud_partial (Suc n) \<le> chud_sum"
    using chud_bracket(1) [of "Suc m"] by (simp add: chud_partial_def n)
  moreover have "chud_partial (Suc n) = chud_partial n - chud_abs n"
    using False by (simp add: chud_partial_def chud_term_def)
  ultimately show ?thesis by linarith
qed

lemma chud_abs_1_le: "n \<noteq> 0 \<Longrightarrow> chud_abs n \<le> 1 / 1000000"
proof -
  assume "n \<noteq> 0"
  then obtain m where "n = Suc m" by (cases n) auto
  moreover have "chud_abs (Suc m) \<le> chud_abs (Suc 0)"
    by (induction m) (auto intro: order_trans chud_abs_decseq)
  moreover have "chud_abs (Suc 0) \<le> 1 / 1000000"
    using chud_abs_le [of "Suc 0"] by simp
  ultimately show ?thesis by simp
qed

lemma chud_sum_bounds: "13591408999999 / 1000000 \<le> chud_sum" "chud_sum \<le> 13591409"
proof -
  have "chud_partial 2 = 13591409 - chud_abs 1" "chud_partial 1 = 13591409"
    by (simp_all add: chud_partial_def chud_term_def numeral_2_eq_2)
  then show "13591408999999 / 1000000 \<le> chud_sum" "chud_sum \<le> 13591409"
    using chud_bracket [of 1] chud_bracket [of 0] chud_abs_1_le [of 1]
    by (simp_all add: chud_partial_def)
qed

lemma chud_partial_bounds:
  assumes "n \<noteq> 0"
  shows "13591408999998 / 1000000 \<le> chud_partial n" "chud_partial n \<le> 13591409000001 / 1000000"
  using chud_truncation [of n] chud_abs_1_le [OF assms] chud_sum_bounds by linarith+

text \<open>
  One term contributes more than 14.181647 digits: \<open>digits_base\<close> to the power 2125 exceeds
  \<open>10 ^ 30136\<close>, and \<open>30136 / 2125 > 14.181647\<close>.
\<close>

lemma digits_base_ln: "30136 * ln 10 \<le> 2125 * ln digits_base"
proof -
  have a: "80953813816743 * 10 ^ 57 \<le> digits_base ^ 5" by simp
  have b: "34768549123197 * 10 ^ 56 \<le> (80953813816743 :: real) ^ 5" by simp
  have c: "50808086684040 * 10 ^ 54 \<le> (34768549123197 :: real) ^ 5" by simp
  have d: "10 ^ 233 \<le> (50808086684040 :: real) ^ 17" by simp
  have step: "y * 10 ^ (e * k + f) \<le> X ^ k" if "y * 10 ^ f \<le> x ^ k" "x * 10 ^ e \<le> X" "0 \<le> x"
    for x y X :: real and e f k :: nat
  proof -
    have "y * 10 ^ (e * k + f) = (y * 10 ^ f) * (10 ^ e) ^ k"
      by (simp add: power_add power_mult)
    also have "\<dots> \<le> x ^ k * (10 ^ e) ^ k"
      using that(1) by (rule mult_right_mono) simp
    also have "\<dots> = (x * 10 ^ e) ^ k"
      by (simp add: power_mult_distrib)
    also have "\<dots> \<le> X ^ k"
      using that(2,3) by (intro power_mono) auto
    finally show ?thesis .
  qed
  have e5: "80953813816743 * 10 ^ 57 \<le> digits_base ^ 5"
    by (rule a)
  have e25: "34768549123197 * 10 ^ (57 * 5 + 56) \<le> (digits_base ^ 5) ^ 5"
    by (rule step [OF b e5]) simp
  have e125: "50808086684040 * 10 ^ ((57 * 5 + 56) * 5 + 54) \<le> ((digits_base ^ 5) ^ 5) ^ 5"
    by (rule step [OF c e25]) simp
  have "1 * 10 ^ (((57 * 5 + 56) * 5 + 54) * 17 + 233) \<le> (((digits_base ^ 5) ^ 5) ^ 5) ^ 17"
    by (rule step [OF _ e125]) (use d in simp_all)
  then have "ln ((10 :: real) ^ (((57 * 5 + 56) * 5 + 54) * 17 + 233)) \<le> ln ((((digits_base ^ 5) ^ 5) ^ 5) ^ 17)"
    unfolding mult_1 by (subst ln_le_cancel_iff) (simp_all only: zero_less_power zero_less_numeral)
  then have "real (((57 * 5 + 56) * 5 + 54) * 17 + 233) * ln 10 \<le> real 17 * (real 5 * (real 5 * (real 5 * ln digits_base)))"
    by (simp only: ln_realpow zero_less_power zero_less_numeral)
  then show ?thesis by simp
qed

lemma digits_per_term: "10 powr (14181647 / 1000000 * real m) \<le> digits_base ^ m"
proof -
  have "14181647 / 1000000 * ln 10 \<le> 30136 / 2125 * ln (10 :: real)"
    by (intro mult_right_mono) auto
  then have "14181647 / 1000000 * ln 10 \<le> ln digits_base"
    using digits_base_ln by linarith
  then have "real m * (14181647 / 1000000 * ln 10) \<le> real m * ln digits_base"
    by (intro mult_left_mono) simp_all
  then have "10 powr (14181647 / 1000000 * real m) \<le> digits_base powr real m"
    by (simp add: powr_def mult_ac)
  then show ?thesis
    by (simp add: powr_realpow)
qed

end
