(* ===== verification/Precision_Policy.thy ===== *)
theory Precision_Policy
  imports Prelude
begin

text \<open>
  \<open>PrecisionPolicy\<close> (src/src/chudnovsky/PrecisionPolicy.cpp): the integer-only plan of guard
  digits, series terms and bits for a requested number of decimal digits, on 64-bit values with
  every overflow check of the code.
\<close>

section \<open>Operations\<close>

record PrecisionPlan =
  requestedDigits :: u64
  guardDigits :: u32
  workingDigits :: u64
  termCount :: size_t
  estimatedBits :: u64

definition minimumGuardDigits :: u32 where
  "minimumGuardDigits = 16"

definition defaultGuardDigits :: u32 where
  "defaultGuardDigits = 32"

definition checkedAdd :: "u64 \<Rightarrow> u64 \<Rightarrow> u64 result" where
  "checkedAdd left right =
     (if right > - 1 - left then Inl (Overflow_error ''Precision plan addition overflow'')
      else Inr (left + right))"

definition multiplyDivideCeil :: "u64 \<Rightarrow> u64 \<Rightarrow> u64 \<Rightarrow> u64 result" where
  "multiplyDivideCeil value multiplier divisor =
     (let quotient = value div divisor;
          remainder = value mod divisor
      in if quotient > (- 1) div multiplier
         then Inl (Overflow_error ''Precision plan multiplication overflow'')
         else
           let whole = quotient * multiplier;
               remainderProduct = remainder * multiplier;
               fraction = remainderProduct div divisor
                 + (if remainderProduct mod divisor \<noteq> 0 then 1 else 0)
           in checkedAdd whole fraction)"

definition PrecisionPolicy_create :: "u64 \<Rightarrow> u32 \<Rightarrow> PrecisionPlan result" where
  "PrecisionPolicy_create requested guards =
     res_bind (throw_if (requested = 0)
       (Invalid_argument ''Requested pi digits must be greater than zero'')) (\<lambda>_.
     res_bind (throw_if (guards < minimumGuardDigits)
       (Invalid_argument ''Guard digits are below the supported minimum'')) (\<lambda>_.
     res_bind (checkedAdd requested (ucast guards)) (\<lambda>working.
     res_bind (res_bind (multiplyDivideCeil working 1000000 14181647) (\<lambda>n. checkedAdd n 1))
       (\<lambda>termCount64.
     res_bind (throw_if (termCount64 > (- 1 :: size_t))
       (Overflow_error ''Chudnovsky term count does not fit size_t'')) (\<lambda>_.
     res_bind (checkedAdd working 2) (\<lambda>scaled.
     res_bind (res_bind (multiplyDivideCeil scaled 3322 1000) (\<lambda>b. checkedAdd b 64))
       (\<lambda>bits.
     Inr \<lparr>requestedDigits = requested, guardDigits = guards, workingDigits = working,
          termCount = termCount64, estimatedBits = bits\<rparr>)))))))"

section \<open>Exactness and overflow\<close>

definition ceil_div :: "nat \<Rightarrow> nat \<Rightarrow> nat" where
  "ceil_div a b = a div b + (if a mod b \<noteq> 0 then 1 else 0)"

lemma ceil_div_upper: "0 < b \<Longrightarrow> a \<le> b * ceil_div a b"
proof -
  assume "0 < b"
  then have "a mod b \<le> (if a mod b \<noteq> 0 then b else 0)"
    by (simp add: less_imp_le)
  moreover have "b * ceil_div a b = b * (a div b) + (if a mod b \<noteq> 0 then b else 0)"
    by (simp add: ceil_div_def distrib_left)
  ultimately show ?thesis
    using mult_div_mod_eq [of b a] by linarith
qed

lemma ceil_div_least: "0 < b \<Longrightarrow> a \<le> b * c \<Longrightarrow> ceil_div a b \<le> c"
proof -
  assume b: "0 < b" and "a \<le> b * c"
  have "a div b \<le> c"
    using div_le_mono [OF \<open>a \<le> b * c\<close>, of b] b by simp
  moreover have "a div b < c" if "a mod b \<noteq> 0"
  proof (rule ccontr)
    assume "\<not> a div b < c"
    then have "b * c \<le> b * (a div b)" by simp
    also have "\<dots> < a"
      using that minus_mod_eq_mult_div [of a b] b by (metis add_cancel_right_right
          mult_div_mod_eq nat_less_le le_add1)
    finally show False using \<open>a \<le> b * c\<close> by simp
  qed
  ultimately show ?thesis by (auto simp: ceil_div_def)
qed

lemma checkedAdd_eq:
  "checkedAdd l r =
     (if unat l + unat r < 2 ^ 64 then Inr (l + r)
      else Inl (Overflow_error ''Precision plan addition overflow''))"
proof -
  have "unat (- 1 - l) = 2 ^ 64 - 1 - unat l"
    by (subst unat_sub_le) (simp_all add: unat_max_word)
  then show ?thesis
    using unat_u64_less [of l]
    by (auto simp: checkedAdd_def word_less_nat_alt)
qed

lemma checkedAdd_Inr:
  "checkedAdd l r = Inr s \<longleftrightarrow> unat l + unat r < 2 ^ 64 \<and> unat s = unat l + unat r"
  by (auto simp: checkedAdd_eq unat_add_no_wrap word_unat_eq_iff)

text \<open>Splitting off the quotient computes the ceiling without forming the whole product.\<close>

lemma ceil_split:
  assumes "0 < d"
  shows "v div d * m + ceil_div (v mod d * m) d = ceil_div (v * m) d"
proof -
  have vm: "v * m = v mod d * m + d * (v div d * m)"
    using mult_div_mod_eq [of d v] by (metis add.commute add_mult_distrib mult.assoc)
  show ?thesis
    unfolding ceil_div_def vm using assms by simp
qed

lemma multiplyDivideCeil_eq:
  assumes d: "d \<noteq> 0" and m: "m \<noteq> 0" and fits: "unat d * unat m < 2 ^ 64"
  shows "multiplyDivideCeil v m d = Inr r \<longleftrightarrow>
           ceil_div (unat v * unat m) (unat d) < 2 ^ 64
           \<and> unat r = ceil_div (unat v * unat m) (unat d)"
proof -
  have d0: "0 < unat d" and m0: "0 < unat m"
    using d m by (simp_all add: unat_gt_0)
  have q: "unat (v div d) = unat v div unat d" and rem: "unat (v mod d) = unat v mod unat d"
    by (simp_all add: unat_div unat_mod)
  have "unat (v mod d) * unat m < unat d * unat m"
    using d0 m0 by (simp add: rem)
  then have "unat (v mod d) * unat m < 2 ^ 64"
    using fits by linarith
  then have rp: "unat (v mod d * m) = unat v mod unat d * unat m"
    by (subst unat_mult_no_wrap) (simp_all add: rem)
  define c where "c = ceil_div (unat v mod unat d * unat m) (unat d)"
  have c_le: "c \<le> unat m"
    unfolding c_def using d0 by (intro ceil_div_least) (auto simp: less_imp_le)
  have m64: "unat m < 2 ^ 64" by (rule unat_u64_less)
  have frac: "unat ((v mod d * m) div d + (if (v mod d * m) mod d \<noteq> 0 then 1 else 0)) = c"
  proof -
    have nz: "(v mod d * m) mod d \<noteq> 0 \<longleftrightarrow> unat v mod unat d * unat m mod unat d \<noteq> 0"
      by (simp add: word_unat_eq_iff unat_mod rp)
    have "unat ((v mod d * m) div d) + unat (if (v mod d * m) mod d \<noteq> 0 then 1 else 0 :: u64) = c"
      by (simp add: unat_div rp c_def ceil_div_def nz)
    then show ?thesis
      using c_le m64 by (subst unat_add_no_wrap) simp_all
  qed
  have guard: "v div d > (- 1) div m \<longleftrightarrow> 2 ^ 64 \<le> unat v div unat d * unat m"
  proof -
    have "unat ((- 1 :: u64) div m) = (2 ^ 64 - 1) div unat m"
      by (simp add: unat_div unat_max_word)
    then have "v div d > (- 1) div m \<longleftrightarrow> (2 ^ 64 - 1) div unat m < unat v div unat d"
      by (simp add: word_less_nat_alt q)
    also have "\<dots> \<longleftrightarrow> 2 ^ 64 - 1 < unat v div unat d * unat m"
      using m0 by (rule div_less_iff_less_mult)
    finally show ?thesis by auto
  qed
  have total: "unat v div unat d * unat m + c = ceil_div (unat v * unat m) (unat d)"
    unfolding c_def using d0 by (rule ceil_split)
  show ?thesis
  proof (cases "2 ^ 64 \<le> unat v div unat d * unat m")
    case True
    then show ?thesis
      using guard total by (auto simp: multiplyDivideCeil_def Let_def)
  next
    case False
    then have "unat (v div d * m) = unat v div unat d * unat m"
      by (subst unat_mult_no_wrap) (simp_all add: q)
    then show ?thesis
      using False guard total frac by (simp add: multiplyDivideCeil_def Let_def checkedAdd_Inr)
  qed
qed

lemma ceil_div_le_self: "0 < b \<Longrightarrow> m \<le> b \<Longrightarrow> ceil_div (a * m) b \<le> a"
  by (intro ceil_div_least) (simp_all add: mult.commute)

lemma mdc_then_add:
  assumes "d \<noteq> 0" "m \<noteq> 0" "unat d * unat m < 2 ^ 64"
  shows "res_bind (multiplyDivideCeil v m d) (\<lambda>n. checkedAdd n k) = Inr r \<longleftrightarrow>
    ceil_div (unat v * unat m) (unat d) + unat k < 2 ^ 64
    \<and> unat r = ceil_div (unat v * unat m) (unat d) + unat k"
proof -
  define c where "c = ceil_div (unat v * unat m) (unat d)"
  have mdc: "multiplyDivideCeil v m d = Inr n \<longleftrightarrow> c < 2 ^ 64 \<and> unat n = c" for n
    unfolding c_def by (rule multiplyDivideCeil_eq [OF assms])
  have "\<exists>n :: u64. unat n = c" if "c + unat k < 2 ^ 64"
    using that ex_unat_u64 [of c] by simp
  then show ?thesis
    unfolding c_def [symmetric] res_bind_eq_Inr_iff mdc checkedAdd_Inr by auto
qed

text \<open>
  The plan exists exactly for a non-zero request with enough guard digits whose bit estimate fits
  64 bits, and then every field has its exact mathematical value.
\<close>

definition plan_bits :: "nat \<Rightarrow> nat" where
  "plan_bits working = ceil_div ((working + 2) * 3322) 1000 + 64"

definition plan_terms :: "nat \<Rightarrow> nat" where
  "plan_terms working = ceil_div (working * 1000000) 14181647 + 1"

lemma plan_terms_le: "plan_terms w \<le> w + 1"
  using ceil_div_le_self [of 14181647 1000000 w] by (simp add: plan_terms_def)

lemma plan_bits_ge: "w + 66 \<le> plan_bits w"
  using ceil_div_upper [of 1000 "(w + 2) * 3322"] by (simp add: plan_bits_def)

lemma term_count_step:
  "res_bind (multiplyDivideCeil w 1000000 14181647) (\<lambda>n. checkedAdd n 1) = Inr t \<longleftrightarrow>
     plan_terms (unat w) < 2 ^ 64 \<and> unat t = plan_terms (unat w)"
  by (subst mdc_then_add) (simp_all add: plan_terms_def)

lemma bits_step:
  assumes "unat sc = w + 2"
  shows "res_bind (multiplyDivideCeil sc 3322 1000) (\<lambda>b. checkedAdd b 64) = Inr t \<longleftrightarrow>
     plan_bits w < 2 ^ 64 \<and> unat t = plan_bits w"
  by (subst mdc_then_add) (simp_all add: plan_bits_def assms)

lemma create_Inr_iff:
  "PrecisionPolicy_create d gd = Inr plan \<longleftrightarrow>
     d \<noteq> 0 \<and> 16 \<le> gd \<and> plan_bits (unat d + unat gd) < 2 ^ 64 \<and>
     requestedDigits plan = d \<and> guardDigits plan = gd \<and>
     unat (workingDigits plan) = unat d + unat gd \<and>
     unat (termCount plan) = plan_terms (unat d + unat gd) \<and>
     unat (estimatedBits plan) = plan_bits (unat d + unat gd)"
  (is "?L \<longleftrightarrow> ?R")
proof
  have gd: "unat (ucast gd :: u64) = unat gd"
    by simp
  assume ?L
  then obtain w t sc b where "d \<noteq> 0" "16 \<le> gd"
    and w: "checkedAdd d (ucast gd) = Inr w"
    and t: "res_bind (multiplyDivideCeil w 1000000 14181647) (\<lambda>n. checkedAdd n 1) = Inr t"
    and sc: "checkedAdd w 2 = Inr sc"
    and b: "res_bind (multiplyDivideCeil sc 3322 1000) (\<lambda>b. checkedAdd b 64) = Inr b"
    and plan: "plan = \<lparr>requestedDigits = d, guardDigits = gd, workingDigits = w, termCount = t,
      estimatedBits = b\<rparr>"
    unfolding PrecisionPolicy_create_def minimumGuardDigits_def
    by (simp only: res_bind_eq_Inr_iff throw_if_eq_Inr_iff) (auto simp: not_less)
  have uw: "unat w = unat d + unat gd"
    using w by (simp add: checkedAdd_Inr gd)
  have "unat sc = unat w + 2"
    using sc by (simp add: checkedAdd_Inr)
  then show ?R
    using t b \<open>d \<noteq> 0\<close> \<open>16 \<le> gd\<close> uw unfolding term_count_step by (simp add: bits_step plan)
next
  have gd: "unat (ucast gd :: u64) = unat gd"
    by simp
  assume R: ?R
  define w where "w = workingDigits plan"
  have uw: "unat w = unat d + unat gd" and bits: "plan_bits (unat w) < 2 ^ 64"
    using R by (simp_all add: w_def)
  have fits: "unat w + 66 < 2 ^ 64"
    using plan_bits_ge [of "unat w"] bits by linarith
  have "checkedAdd d (ucast gd) = Inr w"
    using uw fits by (simp add: checkedAdd_Inr gd)
  moreover have "res_bind (multiplyDivideCeil w 1000000 14181647) (\<lambda>n. checkedAdd n 1) = Inr (termCount plan)"
    using R fits plan_terms_le [of "unat w"] by (simp add: term_count_step uw)
  moreover have sc: "checkedAdd w 2 = Inr (w + 2)" and "unat (w + 2) = unat w + 2"
    using fits by (simp_all add: checkedAdd_Inr unat_add_no_wrap)
  moreover from this have "res_bind (multiplyDivideCeil (w + 2) 3322 1000) (\<lambda>b. checkedAdd b 64) = Inr (estimatedBits plan)"
    using R by (simp add: bits_step uw)
  ultimately show ?L
    using R unfolding PrecisionPolicy_create_def minimumGuardDigits_def
    by (simp add: w_def throw_if_def not_less)
qed

section \<open>Properties\<close>

text \<open>
  C5: The policy accepts a request exactly when it asks for at least one digit and at least 16 guard
  digits and the bit estimate fits 64 bits; every number of the plan is then the exact integer
  formula, although each is computed in wrapping 64-bit arithmetic.
\<close>

theorem PrecisionPolicy_create_exact:
  "((\<exists>plan. PrecisionPolicy_create d gd = Inr plan) \<longleftrightarrow>
     d \<noteq> 0 \<and> 16 \<le> gd \<and> ceil_div ((unat d + unat gd + 2) * 3322) 1000 + 64 < 2 ^ 64)
   \<and> (\<forall>plan. PrecisionPolicy_create d gd = Inr plan \<longrightarrow>
     requestedDigits plan = d \<and> guardDigits plan = gd
     \<and> unat (workingDigits plan) = unat d + unat gd
     \<and> unat (termCount plan) = ceil_div ((unat d + unat gd) * 1000000) 14181647 + 1
     \<and> unat (estimatedBits plan) = ceil_div ((unat d + unat gd + 2) * 3322) 1000 + 64)"
proof -
  let ?w = "unat d + unat gd"
  have "\<exists>plan. PrecisionPolicy_create d gd = Inr plan"
    if ok: "d \<noteq> 0" "16 \<le> gd" and bits: "plan_bits ?w < 2 ^ 64"
  proof -
    have "?w < 2 ^ 64" "plan_terms ?w < 2 ^ 64"
      using bits plan_bits_ge [of ?w] plan_terms_le [of ?w] by linarith+
    then obtain w t b :: u64 where "unat w = ?w" "unat t = plan_terms ?w" "unat b = plan_bits ?w"
      using ex_unat_u64 bits by metis
    then have "PrecisionPolicy_create d gd = Inr \<lparr>requestedDigits = d, guardDigits = gd,
        workingDigits = w, termCount = t, estimatedBits = b\<rparr>"
      using ok bits by (simp add: create_Inr_iff)
    then show ?thesis by blast
  qed
  then show ?thesis
    by (auto simp: create_Inr_iff plan_bits_def plan_terms_def)
qed

theorem PrecisionPolicy_create_exact_witness:
  "\<exists>plan. PrecisionPolicy_create 1000 32 = Inr plan \<and> unat (workingDigits plan) = 1032
     \<and> unat (termCount plan) = 74 \<and> unat (estimatedBits plan) = 3499"
proof -
  have "\<exists>plan. PrecisionPolicy_create 1000 32 = Inr plan"
    using PrecisionPolicy_create_exact [of 1000 32] by (simp add: ceil_div_def)
  then obtain plan where "PrecisionPolicy_create 1000 32 = Inr plan" ..
  with PrecisionPolicy_create_exact [of 1000 32] show ?thesis
    by (auto simp: ceil_div_def)
qed

end
