(* ===== verification/Progress_Tracker.thy ===== *)
theory Progress_Tracker
  imports Prelude
begin

text \<open>
  The progress state machine and its tracker (src/src/progress/ProgressState.cpp,
  ProgressTracker.cpp, ProgressSnapshot.cpp).  Every public method of the tracker is one atomic
  operation here: compound metadata is written under a mutex, counters by single atomic
  operations.  A method that reads the steady clock takes the reading, in nanoseconds, as an
  argument.
\<close>

section \<open>Phases\<close>

datatype ProgressPhase =
    initializing | validatingCheckpoints | splitting | merging | finalizing
  | writingOutput | verifyingOutput | completed | failed

datatype ProgressTerminalState = Terminal_running | Terminal_completed | Terminal_failed

fun terminalState :: "ProgressPhase \<Rightarrow> ProgressTerminalState" where
  "terminalState completed = Terminal_completed"
| "terminalState failed = Terminal_failed"
| "terminalState _ = Terminal_running"

definition isTerminal :: "ProgressPhase \<Rightarrow> bool" where
  "isTerminal phase \<longleftrightarrow> terminalState phase \<noteq> Terminal_running"

definition isValidTransition :: "ProgressPhase \<Rightarrow> ProgressPhase \<Rightarrow> bool" where
  "isValidTransition source target =
     (if source = target then True
      else if isTerminal source then False
      else if target = failed then True
      else case source of
          initializing \<Rightarrow> target = validatingCheckpoints \<or> target = splitting
        | validatingCheckpoints \<Rightarrow> target = splitting
        | splitting \<Rightarrow> target = merging \<or> target = finalizing
        | merging \<Rightarrow> target = finalizing
        | finalizing \<Rightarrow> target = writingOutput \<or> target = completed
        | writingOutput \<Rightarrow> target = verifyingOutput \<or> target = completed
        | verifyingOutput \<Rightarrow> target = completed
        | completed \<Rightarrow> False
        | failed \<Rightarrow> False)"

fun ProgressPhase_toString :: "ProgressPhase \<Rightarrow> string" where
  "ProgressPhase_toString initializing = ''initializing''"
| "ProgressPhase_toString validatingCheckpoints = ''validating_checkpoints''"
| "ProgressPhase_toString splitting = ''splitting''"
| "ProgressPhase_toString merging = ''merging''"
| "ProgressPhase_toString finalizing = ''finalizing''"
| "ProgressPhase_toString writingOutput = ''writing_output''"
| "ProgressPhase_toString verifyingOutput = ''verifying_output''"
| "ProgressPhase_toString completed = ''completed''"
| "ProgressPhase_toString failed = ''failed''"

fun ProgressTerminalState_toString :: "ProgressTerminalState \<Rightarrow> string" where
  "ProgressTerminalState_toString Terminal_running = ''running''"
| "ProgressTerminalState_toString Terminal_completed = ''completed''"
| "ProgressTerminalState_toString Terminal_failed = ''failed''"

section \<open>The tracker\<close>

record CheckpointRangeProgress =
  startTerm :: u64
  endTerm :: u64
  rangeTreeLevel :: u32

record ProgressWorkPlan =
  plan_targetDigits :: u64
  plan_totalTerms :: u64
  plan_totalCheckpointBlocks :: u64

record CheckpointProgressUpdate =
  update_completedBlocks :: u64
  update_durableBlocks :: u64
  update_checkpointBytes :: u64
  update_lastCommitted :: "CheckpointRangeProgress option"

record ProgressTracker =
  tr_plan :: ProgressWorkPlan
  tr_startedAt :: int
  tr_phase :: ProgressPhase
  tr_completedTerms :: u64
  tr_activeTasks :: u64
  tr_queuedTasks :: u64
  tr_memoryBytes :: u64
  tr_storageResidentBytes :: u64
  tr_storageStoredBytes :: u64
  tr_storageChunkCount :: u64
  tr_storageQueuedWrites :: u64
  tr_storageActiveWrites :: u64
  tr_storageCompletedWrites :: u64
  tr_storageFailedWrites :: u64
  tr_storageQueuedReads :: u64
  tr_storageActiveReads :: u64
  tr_storageCompletedReads :: u64
  tr_storageFailedReads :: u64
  tr_currentMergeLevel :: "u32 option"
  tr_completedCheckpointBlocks :: u64
  tr_durableCheckpointBlocks :: u64
  tr_checkpointBytes :: u64
  tr_lastValidatedCheckpoint :: "CheckpointRangeProgress option"
  tr_lastCommittedCheckpoint :: "CheckpointRangeProgress option"
  tr_failureDetail :: "string option"
  tr_finishedAt :: "int option"

definition ProgressTracker_create :: "ProgressWorkPlan \<Rightarrow> int \<Rightarrow> ProgressTracker result" where
  "ProgressTracker_create plan now =
     res_bind (throw_if (plan_targetDigits plan = 0)
       (Invalid_argument ''Target digits must be greater than zero'')) (\<lambda>_.
     res_bind (throw_if (plan_totalTerms plan = 0)
       (Invalid_argument ''Total terms must be greater than zero'')) (\<lambda>_.
     Inr \<lparr>tr_plan = plan, tr_startedAt = now, tr_phase = initializing, tr_completedTerms = 0,
       tr_activeTasks = 0, tr_queuedTasks = 0, tr_memoryBytes = 0, tr_storageResidentBytes = 0,
       tr_storageStoredBytes = 0, tr_storageChunkCount = 0, tr_storageQueuedWrites = 0,
       tr_storageActiveWrites = 0, tr_storageCompletedWrites = 0, tr_storageFailedWrites = 0,
       tr_storageQueuedReads = 0, tr_storageActiveReads = 0, tr_storageCompletedReads = 0,
       tr_storageFailedReads = 0, tr_currentMergeLevel = None, tr_completedCheckpointBlocks = 0,
       tr_durableCheckpointBlocks = 0, tr_checkpointBytes = 0, tr_lastValidatedCheckpoint = None,
       tr_lastCommittedCheckpoint = None, tr_failureDetail = None, tr_finishedAt = None\<rparr>))"

definition isRunning :: "ProgressTracker \<Rightarrow> bool" where
  "isRunning tr \<longleftrightarrow> \<not> isTerminal (tr_phase tr)"

definition transitionTo :: "ProgressPhase \<Rightarrow> int \<Rightarrow> ProgressTracker \<Rightarrow> bool \<times> ProgressTracker" where
  "transitionTo next now tr =
     (if \<not> isValidTransition (tr_phase tr) next then (False, tr)
      else
        let tr = tr\<lparr>tr_phase := next\<rparr>
        in (True, if isTerminal next \<and> tr_finishedAt tr = None
                  then tr\<lparr>tr_finishedAt := Some now\<rparr> else tr))"

text \<open>
  The compare-exchange loop retries while another thread changes the counter; its one successful
  exchange is the atomic step modelled here.
\<close>

definition addWithinLimit :: "u64 \<Rightarrow> u64 \<Rightarrow> u64 \<Rightarrow> bool \<times> u64" where
  "addWithinLimit current count limit =
     (if count \<le> limit - current then (True, current + count) else (False, current))"

definition addCompletedTerms :: "u64 \<Rightarrow> ProgressTracker \<Rightarrow> bool \<times> ProgressTracker" where
  "addCompletedTerms count tr =
     (if isRunning tr
      then let (ok, terms) = addWithinLimit (tr_completedTerms tr) count (plan_totalTerms (tr_plan tr))
           in (ok, tr\<lparr>tr_completedTerms := terms\<rparr>)
      else (False, tr))"

definition range_invalid :: "ProgressTracker \<Rightarrow> CheckpointRangeProgress \<Rightarrow> bool" where
  "range_invalid tr r \<longleftrightarrow> startTerm r \<ge> endTerm r \<or> endTerm r > plan_totalTerms (tr_plan tr)"

definition publishCheckpointProgress ::
  "CheckpointProgressUpdate \<Rightarrow> ProgressTracker \<Rightarrow> bool \<times> ProgressTracker" where
  "publishCheckpointProgress upd tr =
     (if (case update_lastCommitted upd of None \<Rightarrow> False | Some r \<Rightarrow> range_invalid tr r)
      then (False, tr)
      else if isTerminal (tr_phase tr) then (False, tr)
      else
        let remaining = plan_totalCheckpointBlocks (tr_plan tr) - tr_completedCheckpointBlocks tr;
            tr = tr\<lparr>tr_completedCheckpointBlocks :=
                     tr_completedCheckpointBlocks tr + min (update_completedBlocks upd) remaining,
                   tr_durableCheckpointBlocks := update_durableBlocks upd,
                   tr_checkpointBytes := update_checkpointBytes upd\<rparr>
        in (True, case update_lastCommitted upd of None \<Rightarrow> tr
                  | Some r \<Rightarrow> tr\<lparr>tr_lastCommittedCheckpoint := Some r\<rparr>))"

definition setTaskCounts :: "u64 \<Rightarrow> u64 \<Rightarrow> ProgressTracker \<Rightarrow> ProgressTracker" where
  "setTaskCounts active queued tr =
     (if \<not> isRunning tr then tr else tr\<lparr>tr_activeTasks := active, tr_queuedTasks := queued\<rparr>)"

definition setMemoryBytes :: "u64 \<Rightarrow> ProgressTracker \<Rightarrow> ProgressTracker" where
  "setMemoryBytes bytes tr = (if isRunning tr then tr\<lparr>tr_memoryBytes := bytes\<rparr> else tr)"

definition setStorageProgress :: "u64 \<Rightarrow> u64 \<Rightarrow> u64 \<Rightarrow> ProgressTracker \<Rightarrow> ProgressTracker" where
  "setStorageProgress resident stored chunks tr =
     (if \<not> isRunning tr then tr
      else tr\<lparr>tr_storageResidentBytes := resident, tr_storageStoredBytes := stored,
              tr_storageChunkCount := chunks\<rparr>)"

definition setStorageIoProgress ::
  "u64 \<Rightarrow> u64 \<Rightarrow> u64 \<Rightarrow> u64 \<Rightarrow> u64 \<Rightarrow> u64 \<Rightarrow> u64 \<Rightarrow> u64 \<Rightarrow> ProgressTracker \<Rightarrow> ProgressTracker" where
  "setStorageIoProgress queuedWrites activeWrites completedWrites failedWrites
       queuedReads activeReads completedReads failedReads tr =
     (if \<not> isRunning tr then tr
      else tr\<lparr>tr_storageQueuedWrites := queuedWrites, tr_storageActiveWrites := activeWrites,
              tr_storageCompletedWrites := completedWrites, tr_storageFailedWrites := failedWrites,
              tr_storageQueuedReads := queuedReads, tr_storageActiveReads := activeReads,
              tr_storageCompletedReads := completedReads, tr_storageFailedReads := failedReads\<rparr>)"

definition setCurrentMergeLevel :: "u32 \<Rightarrow> ProgressTracker \<Rightarrow> bool \<times> ProgressTracker" where
  "setCurrentMergeLevel level tr =
     (if isTerminal (tr_phase tr) then (False, tr)
      else (True, tr\<lparr>tr_currentMergeLevel := Some level\<rparr>))"

definition clearCurrentMergeLevel :: "ProgressTracker \<Rightarrow> bool \<times> ProgressTracker" where
  "clearCurrentMergeLevel tr =
     (if isTerminal (tr_phase tr) then (False, tr)
      else (True, tr\<lparr>tr_currentMergeLevel := None\<rparr>))"

definition recordValidatedCheckpoint ::
  "CheckpointRangeProgress \<Rightarrow> ProgressTracker \<Rightarrow> bool \<times> ProgressTracker" where
  "recordValidatedCheckpoint checkpoint tr =
     (if range_invalid tr checkpoint then (False, tr)
      else if isTerminal (tr_phase tr) then (False, tr)
      else (True, tr\<lparr>tr_lastValidatedCheckpoint := Some checkpoint\<rparr>))"

definition markFailed :: "string \<Rightarrow> int \<Rightarrow> ProgressTracker \<Rightarrow> bool \<times> ProgressTracker" where
  "markFailed detail now tr =
     (if isTerminal (tr_phase tr) then (False, tr)
      else (True, tr\<lparr>tr_failureDetail := Some detail, tr_phase := failed,
                    tr_finishedAt := Some now\<rparr>))"

text \<open>
  A snapshot copies the state and the elapsed time; its constructor checks the copied values.
\<close>

definition tr_elapsed :: "int \<Rightarrow> ProgressTracker \<Rightarrow> int" where
  "tr_elapsed now tr = (case tr_finishedAt tr of None \<Rightarrow> now | Some t \<Rightarrow> t) - tr_startedAt tr"

definition emptyRange :: "CheckpointRangeProgress option \<Rightarrow> bool" where
  "emptyRange r = (case r of None \<Rightarrow> False | Some c \<Rightarrow> startTerm c \<ge> endTerm c)"

definition ProgressSnapshot_make :: "ProgressTracker \<Rightarrow> int \<Rightarrow> (ProgressTracker \<times> int) result" where
  "ProgressSnapshot_make data elapsed =
     res_bind (throw_if (tr_completedTerms data > plan_totalTerms (tr_plan data))
       (Invalid_argument ''Completed terms cannot exceed total terms'')) (\<lambda>_.
     res_bind (throw_if (tr_completedCheckpointBlocks data > plan_totalCheckpointBlocks (tr_plan data))
       (Invalid_argument ''Completed checkpoint blocks cannot exceed total blocks'')) (\<lambda>_.
     res_bind (throw_if (elapsed < 0)
       (Invalid_argument ''Elapsed time cannot be negative'')) (\<lambda>_.
     res_bind (throw_if (emptyRange (tr_lastValidatedCheckpoint data)
         \<or> emptyRange (tr_lastCommittedCheckpoint data))
       (Invalid_argument ''Checkpoint range must be non-empty'')) (\<lambda>_.
     res_bind (throw_if (tr_phase data \<noteq> failed \<and> tr_failureDetail data \<noteq> None)
       (Invalid_argument ''Failure detail is valid only in the failed phase'')) (\<lambda>_.
     Inr (data, elapsed))))))"

definition ProgressTracker_snapshot :: "int \<Rightarrow> ProgressTracker \<Rightarrow> (ProgressTracker \<times> int) result" where
  "ProgressTracker_snapshot now tr = ProgressSnapshot_make tr (tr_elapsed now tr)"

section \<open>Every reachable state\<close>

text \<open>
  A step is one call of a public method by any thread; the steady clock never reads less than at
  the start.
\<close>

inductive tracker_step :: "ProgressTracker \<Rightarrow> ProgressTracker \<Rightarrow> bool" where
  step_transition: "tr_startedAt tr \<le> now \<Longrightarrow> tracker_step tr (snd (transitionTo next now tr))"
| step_terms: "tracker_step tr (snd (addCompletedTerms count tr))"
| step_publish: "tracker_step tr (snd (publishCheckpointProgress upd tr))"
| step_tasks: "tracker_step tr (setTaskCounts active queued tr)"
| step_memory: "tracker_step tr (setMemoryBytes bytes tr)"
| step_storage: "tracker_step tr (setStorageProgress resident stored chunks tr)"
| step_io: "tracker_step tr (setStorageIoProgress a b c d e f h i tr)"
| step_level: "tracker_step tr (snd (setCurrentMergeLevel level tr))"
| step_clear: "tracker_step tr (snd (clearCurrentMergeLevel tr))"
| step_validated: "tracker_step tr (snd (recordValidatedCheckpoint checkpoint tr))"
| step_failed: "tr_startedAt tr \<le> now \<Longrightarrow> tracker_step tr (snd (markFailed detail now tr))"

inductive tracker_reachable :: "ProgressWorkPlan \<Rightarrow> int \<Rightarrow> ProgressTracker \<Rightarrow> bool" where
  reach_start: "ProgressTracker_create plan t = Inr tr \<Longrightarrow> tracker_reachable plan t tr"
| reach_step: "tracker_reachable plan t tr \<Longrightarrow> tracker_step tr tr' \<Longrightarrow> tracker_reachable plan t tr'"

lemmas tracker_op_defs =
  transitionTo_def addCompletedTerms_def publishCheckpointProgress_def setTaskCounts_def
  setMemoryBytes_def setStorageProgress_def setStorageIoProgress_def setCurrentMergeLevel_def
  clearCurrentMergeLevel_def recordValidatedCheckpoint_def markFailed_def isRunning_def

definition tracker_inv :: "ProgressTracker \<Rightarrow> bool" where
  "tracker_inv tr \<longleftrightarrow>
     tr_completedTerms tr \<le> plan_totalTerms (tr_plan tr)
     \<and> tr_completedCheckpointBlocks tr \<le> plan_totalCheckpointBlocks (tr_plan tr)
     \<and> \<not> emptyRange (tr_lastValidatedCheckpoint tr)
     \<and> \<not> emptyRange (tr_lastCommittedCheckpoint tr)
     \<and> (tr_failureDetail tr \<noteq> None \<longrightarrow> tr_phase tr = failed)
     \<and> (tr_finishedAt tr \<noteq> None \<longleftrightarrow> isTerminal (tr_phase tr))
     \<and> (\<forall>t. tr_finishedAt tr = Some t \<longrightarrow> tr_startedAt tr \<le> t)"

text \<open>The phases in the order the lifecycle passes them.\<close>

fun phase_rank :: "ProgressPhase \<Rightarrow> nat" where
  "phase_rank initializing = 0"
| "phase_rank validatingCheckpoints = 1"
| "phase_rank splitting = 2"
| "phase_rank merging = 3"
| "phase_rank finalizing = 4"
| "phase_rank writingOutput = 5"
| "phase_rank verifyingOutput = 6"
| "phase_rank completed = 7"
| "phase_rank failed = 8"

lemma isTerminal_iff: "isTerminal p \<longleftrightarrow> p = completed \<or> p = failed"
  by (cases p) (simp_all add: isTerminal_def)

lemma isValidTransition_rank: "isValidTransition p q \<Longrightarrow> phase_rank p \<le> phase_rank q"
  by (cases p; cases q) (simp_all add: isValidTransition_def isTerminal_def)

lemma isValidTransition_terminal: "isTerminal p \<Longrightarrow> isValidTransition p q \<longleftrightarrow> q = p"
  by (auto simp: isValidTransition_def)

text \<open>A limited addition stays in the limit and never wraps around.\<close>

lemma addWithinLimit_bounds:
  assumes "current \<le> limit" and "addWithinLimit current count limit = (ok, r)"
  shows "current \<le> r" "r \<le> limit" "unat r = unat current + (if ok then unat count else 0)"
proof -
  have d: "unat (limit - current) = unat limit - unat current"
    using assms(1) by (rule unat_sub_le)
  have "unat (current + count) = unat current + unat count" if "count \<le> limit - current"
    using that assms(1) d unat_u64_less [of limit]
    by (subst unat_add_no_wrap) (auto simp: word_le_nat_alt)
  then show "current \<le> r" "r \<le> limit" "unat r = unat current + (if ok then unat count else 0)"
    using assms d by (auto simp: addWithinLimit_def word_le_nat_alt split: if_splits)
qed

lemma min_remaining_bounds:
  assumes "(current :: u64) \<le> limit"
  shows "current \<le> current + min c (limit - current)" "current + min c (limit - current) \<le> limit"
proof -
  have "addWithinLimit current (min c (limit - current)) limit = (True, current + min c (limit - current))"
    by (simp add: addWithinLimit_def)
  from addWithinLimit_bounds(1,2) [OF assms this]
  show "current \<le> current + min c (limit - current)" "current + min c (limit - current) \<le> limit" .
qed

lemma addCompletedTerms_cases:
  assumes "tracker_inv tr"
  obtains terms where "snd (addCompletedTerms c tr) = tr\<lparr>tr_completedTerms := terms\<rparr>"
    "tr_completedTerms tr \<le> terms" "terms \<le> plan_totalTerms (tr_plan tr)"
proof -
  obtain ok r where r: "addWithinLimit (tr_completedTerms tr) c (plan_totalTerms (tr_plan tr)) = (ok, r)"
    by fastforce
  have le: "tr_completedTerms tr \<le> plan_totalTerms (tr_plan tr)"
    using assms by (simp add: tracker_inv_def)
  show thesis
  proof (cases "isRunning tr")
    case True
    then show ?thesis
      using addWithinLimit_bounds(1,2) [OF le r] r by (intro that [of r]) (auto simp: addCompletedTerms_def)
  next
    case False
    then show ?thesis
      using le by (intro that [of "tr_completedTerms tr"]) (auto simp: addCompletedTerms_def)
  qed
qed

lemma tracker_inv_terms: "tracker_inv tr \<Longrightarrow> tracker_inv (snd (addCompletedTerms c tr))"
proof -
  assume inv: "tracker_inv tr"
  then obtain terms where "snd (addCompletedTerms c tr) = tr\<lparr>tr_completedTerms := terms\<rparr>"
    "terms \<le> plan_totalTerms (tr_plan tr)"
    by (rule addCompletedTerms_cases)
  then show ?thesis
    using inv by (simp add: tracker_inv_def)
qed

lemma tracker_inv_publish: "tracker_inv tr \<Longrightarrow> tracker_inv (snd (publishCheckpointProgress upd tr))"
  using min_remaining_bounds(2) [of "tr_completedCheckpointBlocks tr" "plan_totalCheckpointBlocks (tr_plan tr)"]
  by (auto simp: tracker_inv_def publishCheckpointProgress_def Let_def range_invalid_def emptyRange_def
      split: option.splits)

lemma tracker_inv_step: "tracker_step tr tr' \<Longrightarrow> tracker_inv tr \<Longrightarrow> tracker_inv tr'"
proof (induction rule: tracker_step.induct)
  case (step_transition tr now "next")
  then show ?case
    by (auto simp: tracker_inv_def transitionTo_def Let_def isTerminal_iff isValidTransition_terminal
        split: option.splits)
next
  case (step_terms tr count)
  then show ?case by (intro tracker_inv_terms)
next
  case (step_publish tr upd)
  then show ?case by (intro tracker_inv_publish)
next
  case (step_validated tr checkpoint)
  then show ?case
    by (auto simp: tracker_inv_def recordValidatedCheckpoint_def range_invalid_def emptyRange_def)
next
  case (step_failed tr now detail)
  then show ?case
    by (auto simp: tracker_inv_def markFailed_def isTerminal_iff)
qed (simp_all add: tracker_inv_def tracker_op_defs)

lemma tracker_reachable_inv:
  "tracker_reachable plan t tr \<Longrightarrow> tracker_inv tr \<and> tr_plan tr = plan \<and> tr_startedAt tr = t"
proof (induction rule: tracker_reachable.induct)
  case (reach_start plan t tr)
  then show ?case
    by (auto simp: ProgressTracker_create_def res_elim tracker_inv_def emptyRange_def isTerminal_iff)
next
  case (reach_step plan t tr tr')
  moreover have "tr_plan tr' = tr_plan tr \<and> tr_startedAt tr' = tr_startedAt tr"
    using reach_step(2)
    by (cases rule: tracker_step.cases)
      (auto simp: tracker_op_defs Let_def split: option.splits prod.splits)
  ultimately show ?case
    using tracker_inv_step by auto
qed

lemma snapshot_ok:
  "tracker_inv tr \<Longrightarrow> tr_startedAt tr \<le> now \<Longrightarrow>
   ProgressTracker_snapshot now tr = Inr (tr, tr_elapsed now tr)"
  by (auto simp: ProgressTracker_snapshot_def ProgressSnapshot_make_def tracker_inv_def tr_elapsed_def
      res_bind_throw_if leD split: option.splits)

lemma tracker_step_monotone:
  assumes "tracker_step tr tr'" and "tracker_inv tr"
  shows "phase_rank (tr_phase tr) \<le> phase_rank (tr_phase tr')
    \<and> tr_completedTerms tr \<le> tr_completedTerms tr'
    \<and> tr_completedCheckpointBlocks tr \<le> tr_completedCheckpointBlocks tr'"
  using assms
proof (cases rule: tracker_step.cases)
  case (step_terms count)
  obtain terms where "snd (addCompletedTerms count tr) = tr\<lparr>tr_completedTerms := terms\<rparr>"
    "tr_completedTerms tr \<le> terms"
    using assms(2) by (rule addCompletedTerms_cases)
  with step_terms show ?thesis by simp
next
  case (step_publish upd)
  then show ?thesis
    using min_remaining_bounds(1) [of "tr_completedCheckpointBlocks tr" "plan_totalCheckpointBlocks (tr_plan tr)"] assms(2)
    by (auto simp: tracker_inv_def publishCheckpointProgress_def Let_def split: option.splits)
next
  case (step_transition now "next")
  then show ?thesis
    by (auto simp: transitionTo_def Let_def isValidTransition_rank)
next
  case (step_failed now detail)
  then show ?thesis
    by (cases "tr_phase tr") (auto simp: markFailed_def)
qed (auto simp: tracker_op_defs)

section \<open>Properties\<close>

text \<open>
  C8: In every state the public methods can reach, in any order and from any threads, the counters
  are within the work plan, a recorded range is non-empty, a failure detail belongs to the failed
  phase and the end time to a terminal phase, so taking a snapshot never throws.
\<close>

theorem tracker_snapshot_never_throws:
  assumes "tracker_reachable plan t tr" and "t \<le> now"
  shows "ProgressTracker_snapshot now tr = Inr (tr, tr_elapsed now tr)
    \<and> tr_plan tr = plan \<and> tr_completedTerms tr \<le> plan_totalTerms plan
    \<and> tr_completedCheckpointBlocks tr \<le> plan_totalCheckpointBlocks plan
    \<and> (tr_finishedAt tr \<noteq> None \<longleftrightarrow> isTerminal (tr_phase tr)) \<and> 0 \<le> tr_elapsed now tr"
proof -
  have inv: "tracker_inv tr" "tr_plan tr = plan" "tr_startedAt tr = t"
    using tracker_reachable_inv [OF assms(1)] by auto
  then have "ProgressTracker_snapshot now tr = Inr (tr, tr_elapsed now tr)"
    using assms(2) by (simp add: snapshot_ok)
  moreover have "0 \<le> tr_elapsed now tr"
    using inv assms(2) by (auto simp: tr_elapsed_def tracker_inv_def split: option.splits)
  ultimately show ?thesis
    using inv by (auto simp: tracker_inv_def)
qed

theorem tracker_snapshot_never_throws_witness:
  "\<exists>tr. tracker_reachable \<lparr>plan_targetDigits = 10, plan_totalTerms = 4, plan_totalCheckpointBlocks = 2\<rparr> 5 tr
    \<and> tr_completedTerms tr = 3 \<and> ProgressTracker_snapshot 9 tr = Inr (tr, tr_elapsed 9 tr)"
proof -
  let ?plan = "\<lparr>plan_targetDigits = 10, plan_totalTerms = 4, plan_totalCheckpointBlocks = 2\<rparr>"
  obtain tr where tr: "ProgressTracker_create ?plan 5 = Inr tr"
    by (auto simp: ProgressTracker_create_def)
  then have r: "tracker_reachable ?plan 5 (snd (addCompletedTerms 3 tr))"
    by (rule reach_step [OF reach_start step_terms])
  moreover have "tr_completedTerms (snd (addCompletedTerms 3 tr)) = 3"
    using tr by (auto simp: ProgressTracker_create_def addCompletedTerms_def addWithinLimit_def
        isRunning_def isTerminal_def)
  ultimately show ?thesis
    using tracker_snapshot_never_throws [OF r, of 9] by auto
qed

text \<open>
  C9: No call ever moves progress backwards: the phase only advances along the lifecycle, the
  completed terms and the completed checkpoint blocks never decrease, and a terminal phase is never
  left.
\<close>

theorem tracker_monotone:
  assumes "tracker_reachable plan t tr" and "tracker_step tr tr'"
  shows "phase_rank (tr_phase tr) \<le> phase_rank (tr_phase tr')
    \<and> tr_completedTerms tr \<le> tr_completedTerms tr'
    \<and> tr_completedCheckpointBlocks tr \<le> tr_completedCheckpointBlocks tr'
    \<and> (isTerminal (tr_phase tr) \<longrightarrow> tr_phase tr' = tr_phase tr)"
proof -
  have inv: "tracker_inv tr"
    using tracker_reachable_inv [OF assms(1)] by simp
  have "tr_phase tr' = tr_phase tr" if "isTerminal (tr_phase tr)"
    using assms(2) that
    by (cases rule: tracker_step.cases)
      (auto simp: tracker_op_defs isValidTransition_terminal Let_def split: option.splits prod.splits)
  with tracker_step_monotone [OF assms(2) inv] show ?thesis
    by blast
qed

theorem tracker_monotone_witness:
  "\<exists>tr tr'. tracker_step tr tr' \<and> tr_completedTerms tr = 0 \<and> tr_completedTerms tr' = 3
    \<and> tr_completedTerms tr \<le> tr_completedTerms tr'"
proof -
  let ?plan = "\<lparr>plan_targetDigits = 10, plan_totalTerms = 4, plan_totalCheckpointBlocks = 2\<rparr>"
  obtain tr where tr: "ProgressTracker_create ?plan 5 = Inr tr"
    by (auto simp: ProgressTracker_create_def)
  have "tr_completedTerms tr = 0" "tr_completedTerms (snd (addCompletedTerms 3 tr)) = 3"
    using tr by (auto simp: ProgressTracker_create_def addCompletedTerms_def addWithinLimit_def
        isRunning_def isTerminal_def)
  then show ?thesis
    using tracker_monotone [OF reach_start [OF tr] step_terms [of tr 3]] step_terms [of tr 3] by blast
qed

end
