(* ===== verification/Chudnovsky_Calculator.thy ===== *)
theory Chudnovsky_Calculator
  imports Chudnovsky_Series Precision_Policy Progress_Tracker
begin

text \<open>
  \<open>ChudnovskyCalculator\<close> (src/src/chudnovsky/ChudnovskyCalculator.cpp): the fixed-point
  finalization of a P/Q/T node, the decimal format, the progress lifecycle around a calculation
  and the sequential calculation.  The clock readings of one call are values of \<open>clk\<close>: 0 the
  snapshot of \<open>beginProgress\<close>, 1 and 2 the start and end of the split, 3 the snapshot of
  \<open>completeTerms\<close>, 4 to 6 the start and end of the finalization and the end of the format, 7 the
  end of the lifecycle, 8 the time of a failure.
\<close>

section \<open>Operations\<close>

record PiCalculationRequest =
  req_digits :: u64
  req_guardDigits :: u32
  deferProgressCompletion :: bool

record Timings =
  time_split :: int
  time_finalize :: int
  time_format :: int

record PiCalculationResult =
  res_precision :: PrecisionPlan
  res_decimal :: string
  res_timings :: Timings

definition Timings_total :: "Timings \<Rightarrow> int" where
  "Timings_total t = time_split t + time_finalize t + time_format t"

text \<open>The observer that forwards split events to a tracker.\<close>

record TrackerSplitObserver =
  obs_tracker :: "ProgressTracker option"
  obs_merging :: bool

definition observer_termsCompleted :: "size_t \<Rightarrow> TrackerSplitObserver \<Rightarrow> TrackerSplitObserver" where
  "observer_termsCompleted count ob =
     (case obs_tracker ob of None \<Rightarrow> ob
      | Some tr \<Rightarrow> ob\<lparr>obs_tracker := Some (snd (addCompletedTerms count tr))\<rparr>)"

definition observer_mergeLevelStarted :: "int \<Rightarrow> u32 \<Rightarrow> TrackerSplitObserver \<Rightarrow> TrackerSplitObserver" where
  "observer_mergeLevelStarted now level ob =
     (case obs_tracker ob of None \<Rightarrow> ob
      | Some tr \<Rightarrow>
          let (entered, tr) = (if obs_merging ob then (True, tr) else transitionTo merging now tr)
          in ob\<lparr>obs_merging := entered,
                obs_tracker := Some (if entered then snd (setCurrentMergeLevel level tr) else tr)\<rparr>)"

definition finalizeFixedPoint :: "gmp \<Rightarrow> BinaryNode \<Rightarrow> PrecisionPlan \<Rightarrow> int result" where
  "finalizeFixedPoint g node precision =
     res_bind (throw_if (workingDigits precision > (- 1) div 2)
       (Overflow_error ''Fixed-point square-root scale exponent overflow'')) (\<lambda>_.
     let squareRootScaleExponent = workingDigits precision * 2 in
     res_bind (GMPInteger_setPowerOfTen g squareRootScaleExponent) (\<lambda>scale.
     res_bind (GMPInteger_floorSquareRoot g (GMPInteger_mul g scale (GMPInteger_of_u64 g 10005)))
       (\<lambda>squareRootScale.
     let scaledPi = GMPInteger_mul g (GMPInteger_mul g (GMPInteger_copy squareRootScale)
                      (GMPInteger_of_u64 g 426880)) (node_Q node) in
     res_bind (GMPInteger_floorDivide g scaledPi (node_T node)) (\<lambda>scaledPi.
     res_bind (GMPInteger_setPowerOfTen g (ucast (guardDigits precision - 1))) (\<lambda>increment.
     let roundingIncrement = GMPInteger_mul g increment (GMPInteger_of_u64 g 5);
         scaledPi = GMPInteger_add g scaledPi roundingIncrement in
     res_bind (GMPInteger_setPowerOfTen g (ucast (guardDigits precision))) (\<lambda>guardScale.
     GMPInteger_floorDivide g scaledPi guardScale))))))"

definition formatDecimal :: "gmp \<Rightarrow> int \<Rightarrow> PrecisionPlan \<Rightarrow> string result" where
  "formatDecimal g scaledPi precision =
     (let digits = GMPInteger_toString g scaledPi in
     res_bind (throw_if (requestedDigits precision > - 1 - 1)
       (Overflow_error ''Requested decimal output does not fit size_t'')) (\<lambda>_.
     let expectedDigits = requestedDigits precision + 1 in
     if length digits \<noteq> unat expectedDigits \<or> hd digits \<noteq> CHR ''3''
     then Inl (Runtime_error ''Final pi fixed-point value has an unexpected width'')
     else Inr (take 1 digits @ ''.'' @ drop 1 digits)))"

text \<open>\<open>if (progress != nullptr && !progress->transitionTo(next)) throw std::logic_error(message)\<close>\<close>

definition enter_phase ::
  "ProgressPhase \<Rightarrow> int \<Rightarrow> string \<Rightarrow> (ProgressTracker option, unit) action" where
  "enter_phase next now message tracker =
     (case tracker of None \<Rightarrow> (Inr (), None)
      | Some tr \<Rightarrow> let (ok, tr) = transitionTo next now tr
                  in (throw_if (\<not> ok) (Logic_error message), Some tr))"

definition makeResult ::
  "gmp \<Rightarrow> (nat \<Rightarrow> int) \<Rightarrow> PrecisionPlan \<Rightarrow> BinaryNode \<Rightarrow> int \<Rightarrow> bool
   \<Rightarrow> (ProgressTracker option, PiCalculationResult) action" where
  "makeResult g clk precision node splitTime deferCompletion =
     st_bind (enter_phase finalizing (clk 4) ''Cannot enter progress finalization phase'') (\<lambda>_.
     st_bind (\<lambda>tracker. (Inr (), map_option (\<lambda>tr. snd (clearCurrentMergeLevel tr)) tracker)) (\<lambda>_.
     st_bind (st_lift (finalizeFixedPoint g node precision)) (\<lambda>scaledPi.
     st_bind (st_lift (formatDecimal g scaledPi precision)) (\<lambda>decimal.
     let result = \<lparr>res_precision = precision, res_decimal = decimal,
           res_timings = \<lparr>time_split = splitTime, time_finalize = clk 5 - clk 4,
                          time_format = clk 6 - clk 5\<rparr>\<rparr> in
     st_bind (if deferCompletion then st_return ()
              else st_bind (enter_phase writingOutput (clk 7) ''Cannot complete progress lifecycle'')
                (\<lambda>_. enter_phase completed (clk 7) ''Cannot complete progress lifecycle'')) (\<lambda>_.
     st_return result)))))"

definition beginProgress :: "int \<Rightarrow> PrecisionPlan \<Rightarrow> (ProgressTracker option, unit) action" where
  "beginProgress now precision tracker =
     (case tracker of None \<Rightarrow> (Inr (), None)
      | Some tr \<Rightarrow>
          st_bind (st_lift (ProgressTracker_snapshot now tr)) (\<lambda>_.
          st_bind (st_throw_if (plan_targetDigits (tr_plan tr) \<noteq> requestedDigits precision
              \<or> plan_totalTerms (tr_plan tr) \<noteq> termCount precision)
            (Invalid_argument ''Progress tracker work plan does not match calculation precision''))
          (\<lambda>_. enter_phase splitting now ''Cannot enter progress splitting phase'')) (Some tr))"

definition completeTerms :: "int \<Rightarrow> u64 \<Rightarrow> (ProgressTracker option, unit) action" where
  "completeTerms now totalTerms tracker =
     (case tracker of None \<Rightarrow> (Inr (), None)
      | Some tr \<Rightarrow>
          st_bind (st_lift (ProgressTracker_snapshot now tr)) (\<lambda>_ tracker.
          let done = tr_completedTerms tr;
              (ok, tr) = (if done > totalTerms then (False, tr)
                          else addCompletedTerms (totalTerms - done) tr)
          in if \<not> ok then (Inl (Logic_error ''Cannot publish completed calculation terms''), Some tr)
             else (Inr (), Some (setTaskCounts 0 0 tr))) (Some tr))"

definition failProgress :: "int \<Rightarrow> string \<Rightarrow> ProgressTracker option \<Rightarrow> ProgressTracker option" where
  "failProgress now detail tracker = map_option (\<lambda>tr. snd (markFailed detail now tr)) tracker"

text \<open>The handler around a calculation: an escaping exception marks the tracker failed.\<close>

definition fail_on_throw ::
  "int \<Rightarrow> (ProgressTracker option, 'a) action \<Rightarrow> (ProgressTracker option, 'a) action" where
  "fail_on_throw now m tracker =
     (case m tracker of (Inl e, tracker') \<Rightarrow> (Inl e, failProgress now (what e) tracker')
      | (Inr x, tracker') \<Rightarrow> (Inr x, tracker'))"

text \<open>
  The statements of a calculation before and after its split, each inside the handler: the plan and
  the start of the lifecycle; the completed terms and the result.
\<close>

definition startCalculation ::
  "(nat \<Rightarrow> int) \<Rightarrow> PiCalculationRequest \<Rightarrow> (ProgressTracker option, PrecisionPlan) action" where
  "startCalculation clk request =
     fail_on_throw (clk 8)
       (st_bind (st_lift (PrecisionPolicy_create (req_digits request) (req_guardDigits request)))
         (\<lambda>precision. st_bind (beginProgress (clk 0) precision) (\<lambda>_. st_return precision)))"

definition finishCalculation ::
  "gmp \<Rightarrow> (nat \<Rightarrow> int) \<Rightarrow> PiCalculationRequest \<Rightarrow> PrecisionPlan \<Rightarrow> BinaryNode result
   \<Rightarrow> (ProgressTracker option, PiCalculationResult) action" where
  "finishCalculation g clk request precision split =
     fail_on_throw (clk 8)
       (st_bind (st_lift split) (\<lambda>node.
        st_bind (completeTerms (clk 3) (termCount precision)) (\<lambda>_.
        makeResult g clk precision node (clk 2 - clk 1) (deferProgressCompletion request))))"

definition calculateSequential ::
  "gmp \<Rightarrow> (nat \<Rightarrow> int) \<Rightarrow> PiCalculationRequest \<Rightarrow> (ProgressTracker option, PiCalculationResult) paction" where
  "calculateSequential g clk request =
     p_bind (p_lift (startCalculation clk request)) (\<lambda>precision tracker.
       Option.bind (splitSequential g 0 (termCount precision)) (\<lambda>node.
         Some (finishCalculation g clk request precision node tracker)))"

section \<open>Accuracy of the fixed-point value\<close>

lemma sqrt_10005_bounds: "10002 / 100 < sqrt 10005" "sqrt 10005 < 10003 / 100"
  by (rule real_less_rsqrt, simp add: power2_eq_square)
    (rule real_less_lsqrt, simp_all add: power2_eq_square)

lemma chud_pi_bounds: "314 / 100 < chud_pi" "chud_pi < 315 / 100"
proof -
  have S: "0 < chud_sum" using chud_sum_bounds by simp
  have "314 / 100 * chud_sum < 426880 * sqrt 10005"
    using chud_sum_bounds sqrt_10005_bounds by linarith
  then show "314 / 100 < chud_pi"
    using S by (simp add: chud_pi_def less_divide_eq)
  have "426880 * sqrt 10005 < 315 / 100 * chud_sum"
    using chud_sum_bounds sqrt_10005_bounds by linarith
  then show "chud_pi < 315 / 100"
    using S by (simp add: chud_pi_def divide_less_eq)
qed

text \<open>The planned number of terms leaves a truncation error below a hundredth of a working digit.\<close>

lemma plan_terms_digits: "10 ^ w \<le> digits_base ^ (plan_terms w - 1)"
proof -
  define m where "m = plan_terms w - 1"
  have "w * 1000000 \<le> 14181647 * m"
    using ceil_div_upper [of 14181647 "w * 1000000"] by (simp add: m_def plan_terms_def)
  then have "real (w * 1000000) \<le> real (14181647 * m)"
    by (simp only: of_nat_le_iff)
  then have "real w \<le> 14181647 / 1000000 * real m"
    by simp
  then have "10 powr real w \<le> 10 powr (14181647 / 1000000 * real m)"
    by (intro powr_mono) auto
  also have "\<dots> \<le> digits_base ^ m"
    by (rule digits_per_term)
  finally show ?thesis
    by (simp add: powr_realpow m_def)
qed

lemma truncation_error:
  assumes n: "n = plan_terms w"
  shows "\<bar>10 ^ w * (426880 * sqrt 10005 / chud_partial n) - 10 ^ w * chud_pi\<bar> \<le> 1 / 100"
proof -
  define S where "S = chud_sum"
  define Sn where "Sn = chud_partial n"
  define K where "K = 426880 * sqrt 10005"
  have n0: "n \<noteq> 0" using n by (simp add: plan_terms_def)
  have S: "13591408 \<le> S" and Sn: "13591408 \<le> Sn"
    using chud_sum_bounds chud_partial_bounds [OF n0] by (simp_all add: S_def Sn_def)
  have K: "0 < K" "K \<le> 42700807" 
    using sqrt_10005_bounds by (simp_all add: K_def)
  have "chud_abs n \<le> 40774227 / digits_base ^ n"
    using chud_abs_le [of n] by simp
  also have "digits_base ^ n = digits_base * digits_base ^ (n - 1)"
    using n0 by (cases n) simp_all
  also have "40774227 / (digits_base * digits_base ^ (n - 1)) \<le> 40774227 / (digits_base * 10 ^ w)"
    using plan_terms_digits [of w] n by (intro divide_left_mono) auto
  finally have an: "10 ^ w * chud_abs n \<le> 40774227 / digits_base"
    by (simp add: field_simps)
  have "10 ^ w * (K / Sn) - 10 ^ w * (K / S) = 10 ^ w * (S - Sn) * K / (S * Sn)"
    using S Sn by (simp add: field_simps)
  then have "\<bar>10 ^ w * (K / Sn) - 10 ^ w * (K / S)\<bar> = 10 ^ w * \<bar>S - Sn\<bar> * K / (S * Sn)"
    using S Sn K by (simp add: abs_mult)
  also have "\<dots> \<le> 10 ^ w * chud_abs n * K / (S * Sn)"
    using chud_truncation [of n] S Sn K
    by (intro divide_right_mono mult_right_mono mult_left_mono) (simp_all add: S_def Sn_def)
  also have "\<dots> \<le> 40774227 / digits_base * K / (S * Sn)"
    using an S Sn K by (intro divide_right_mono mult_right_mono) auto
  also have "\<dots> \<le> 40774227 / digits_base * 42700807 / (S * Sn)"
    using S Sn K by (intro divide_right_mono mult_left_mono) auto
  also have "\<dots> \<le> 40774227 / digits_base * 42700807 / (13591408 * 13591408)"
    using S Sn by (intro divide_left_mono mult_mono mult_pos_pos) auto
  also have "\<dots> \<le> 1 / 100" by simp
  finally show ?thesis
    by (simp add: K_def Sn_def S_def chud_pi_def)
qed

lemma range_T_pos: "n \<noteq> 0 \<Longrightarrow> 0 < range_T 0 n"
proof -
  assume "n \<noteq> 0"
  then have "0 < real_of_int (range_T 0 n) / real_of_int (range_Q 0 n)"
    using chud_partial_bounds(1) [of n] by (simp add: partial_sum_eq)
  then show ?thesis
    using range_Q_pos [of 0 n] by (simp add: zero_less_divide_iff)
qed

text \<open>The scaled quotient before rounding.\<close>

lemma scaled_quotient:
  assumes n: "n = plan_terms w"
    and R: "R = \<lfloor>sqrt (real_of_int (10 ^ (2 * w) * 10005))\<rfloor>"
    and x: "x = R * 426880 * range_Q 0 n div range_T 0 n"
  shows "\<bar>real_of_int x - 10 ^ w * chud_pi\<bar> \<le> 3 / 2"
proof -
  define Sn where "Sn = chud_partial n"
  have n0: "n \<noteq> 0" using n by (simp add: plan_terms_def)
  have Sn: "13591408 \<le> Sn" using chud_partial_bounds [OF n0] by (simp add: Sn_def)
  have "real_of_int (10 ^ (2 * w) * 10005) = (10 ^ w)\<^sup>2 * 10005"
    by (simp only: power_even_eq of_int_mult of_int_power of_int_numeral)
  then have R': "R = \<lfloor>10 ^ w * sqrt 10005\<rfloor>"
    by (simp only: R real_sqrt_mult real_sqrt_abs) simp
  have frac: "0 \<le> 10 ^ w * sqrt 10005 - real_of_int R" "10 ^ w * sqrt 10005 - real_of_int R \<le> 1"
    unfolding R' by linarith+
  define v where "v = real_of_int R * 426880 / Sn"
  have "real_of_int x = \<lfloor>real_of_int (R * 426880 * range_Q 0 n) / real_of_int (range_T 0 n)\<rfloor>"
    by (simp only: x floor_divide_of_int_eq)
  also have "real_of_int (R * 426880 * range_Q 0 n) / real_of_int (range_T 0 n) = v"
    using partial_sum_eq [of n] range_Q_pos [of 0 n] range_T_pos [OF n0]
    by (simp add: v_def Sn_def [symmetric] field_simps)
  finally have xv: "real_of_int x \<le> v" "v < real_of_int x + 1" by linarith+
  have "10 ^ w * (426880 * sqrt 10005 / Sn) - v = (10 ^ w * sqrt 10005 - real_of_int R) * (426880 / Sn)"
    using Sn by (simp add: v_def field_simps)
  moreover have "0 \<le> 426880 / Sn" "426880 / Sn \<le> 1 / 25"
    using Sn by (simp_all add: field_simps)
  moreover have "(10 ^ w * sqrt 10005 - real_of_int R) * (426880 / Sn) \<le> 1 * (1 / 25)"
    using frac calculation(2,3) by (intro mult_mono) auto
  moreover have "0 \<le> (10 ^ w * sqrt 10005 - real_of_int R) * (426880 / Sn)"
    using frac(1) calculation(2) by (rule mult_nonneg_nonneg)
  ultimately have "0 \<le> 10 ^ w * (426880 * sqrt 10005 / Sn) - v"
    "10 ^ w * (426880 * sqrt 10005 / Sn) - v \<le> 1 / 25"
    by linarith+
  then show ?thesis
    using truncation_error [OF n] xv unfolding Sn_def by linarith
qed

text \<open>Rounding half up by the guard digits.\<close>

lemma rounding_error:
  assumes g: "1 \<le> gd" and r: "r = (x + 10 ^ (gd - 1) * 5) div 10 ^ gd"
    and x: "\<bar>real_of_int x - 10 ^ (d + gd) * c\<bar> \<le> 3 / 2"
  shows "\<bar>real_of_int r - 10 ^ d * c\<bar> \<le> 1 / 2 + 2 / 10 ^ gd"
proof -
  define G where "G = (10 :: int) ^ gd"
  have G: "0 < G" and half: "10 ^ (gd - 1) * 5 * 2 = G"
    using g by (cases gd; simp add: G_def)+
  define h where "h = (10 :: int) ^ (gd - 1) * 5"
  have "r * G + (x + h) mod G = x + h"
    unfolding r h_def G_def by (rule div_mult_mod_eq)
  then have "r * G \<le> x + h" "x + h < r * G + G"
    using pos_mod_bound [OF G, of "x + h"] pos_mod_sign [OF G, of "x + h"] by linarith+
  then have "2 * (r * G) \<le> 2 * x + G" "2 * x < 2 * (r * G) + G"
    using half by (simp_all add: h_def)
  then have "real_of_int (2 * (r * G)) \<le> real_of_int (2 * x + G)" "real_of_int (2 * x) < real_of_int (2 * (r * G) + G)"
    by (simp_all only: of_int_le_iff of_int_less_iff)
  then have "\<bar>real_of_int r * real_of_int G - real_of_int x\<bar> \<le> real_of_int G / 2"
    unfolding of_int_add of_int_mult of_int_numeral by linarith
  moreover have GR: "real_of_int G = 10 ^ gd" by (simp add: G_def)
  ultimately have "\<bar>real_of_int r * 10 ^ gd - 10 ^ (d + gd) * c\<bar> \<le> 10 ^ gd / 2 + 3 / 2"
    using x unfolding GR by linarith
  moreover have "real_of_int r * 10 ^ gd - 10 ^ (d + gd) * c = (real_of_int r - 10 ^ d * c) * 10 ^ gd"
    by (simp add: power_add algebra_simps)
  ultimately have "\<bar>(real_of_int r - 10 ^ d * c) * 10 ^ gd\<bar> \<le> 10 ^ gd / 2 + 3 / 2"
    by (simp only:)
  then have "\<bar>real_of_int r - 10 ^ d * c\<bar> * 10 ^ gd \<le> 10 ^ gd / 2 + 2"
    by (simp add: abs_mult)
  then have "\<bar>real_of_int r - 10 ^ d * c\<bar> * 10 ^ gd \<le> (1 / 2 + 2 / 10 ^ gd) * 10 ^ gd"
    by (simp add: distrib_right)
  then show ?thesis
    by (rule mult_right_le_imp_le) simp
qed

context gmp_library begin

lemma finalize_constants:
  "GMPInteger_of_u64 g 10005 = 10005" "GMPInteger_of_u64 g 426880 = 426880"
  by (simp_all add: GMPInteger_of_u64_def mpz_init_set_ui)

lemma finalize_accurate:
  assumes plan: "PrecisionPolicy_create d gd = Inr plan"
  shows "\<exists>r. finalizeFixedPoint g (pqt_node 0 (unat (termCount plan))) plan = Inr r
    \<and> \<bar>real_of_int r - 10 ^ unat d * chud_pi\<bar> \<le> 1 / 2 + 2 / 10 ^ unat gd"
proof -
  define w where "w = unat d + unat gd"
  define n where "n = plan_terms w"
  have w: "unat (workingDigits plan) = w" and bits: "plan_bits w < 2 ^ 64"
    and n: "unat (termCount plan) = n" and gd: "guardDigits plan = gd" "16 \<le> gd"
    using plan by (simp_all add: create_Inr_iff w_def n_def)
  have w63: "w < 2 ^ 63"
    using ceil_div_upper [of 1000 "(w + 2) * 3322"] bits by (simp add: plan_bits_def)
  have "unat ((- 1 :: u64) div 2) = 2 ^ 63 - 1"
    by (simp add: unat_div unat_max_word)
  then have c1: "\<not> workingDigits plan > (- 1) div 2"
    using w w63 by (simp add: word_less_nat_alt)
  have e: "unat (workingDigits plan * 2) = 2 * w"
    using w w63 by (subst unat_mult_no_wrap) simp_all
  have g16: "16 \<le> unat gd"
    using gd(2) by (simp add: word_le_nat_alt)
  have "(1 :: u32) \<le> gd"
    using g16 by (simp add: word_le_nat_alt)
  then have g1: "unat (gd - 1) = unat gd - 1"
    by (simp add: unat_sub_le)
  define R where "R = \<lfloor>sqrt (real_of_int (10 ^ (2 * w) * 10005))\<rfloor>"
  define x where "x = R * 426880 * range_Q 0 n div range_T 0 n"
  define r where "r = (x + 10 ^ (unat gd - 1) * 5) div 10 ^ unat gd"
  have T: "range_T 0 n \<noteq> 0"
    using range_T_pos [of n] by (simp add: n_def plan_terms_def)
  have root: "GMPInteger_floorSquareRoot g (10 ^ (2 * w) * 10005) = Inr R"
    unfolding R_def by (rule floorSquareRoot_eq) simp
  have "finalizeFixedPoint g (pqt_node 0 n) plan = Inr r"
    unfolding finalizeFixedPoint_def Let_def setPowerOfTen_eq e gd(1)
      GMPInteger_mul_def GMPInteger_add_def GMPInteger_copy_def mpz_mul mpz_add
      finalize_constants leaf_constants
    using c1 T by (simp add: root pqt_node_def floorDivide_eq g1 x_def r_def)
  moreover have "\<bar>real_of_int x - 10 ^ (unat d + unat gd) * chud_pi\<bar> \<le> 3 / 2"
    using scaled_quotient [OF n_def R_def x_def] by (simp add: w_def)
  then have "\<bar>real_of_int r - 10 ^ unat d * chud_pi\<bar> \<le> 1 / 2 + 2 / 10 ^ unat gd"
    using g16 by (intro rounding_error [OF _ r_def]) simp_all
  ultimately show ?thesis
    by (auto simp: n)
qed

lemma format_ok:
  assumes d: "d \<noteq> 0" "unat d + 1 < 2 ^ 64" and plan: "requestedDigits plan = d"
    and r: "\<bar>real_of_int r - 10 ^ unat d * chud_pi\<bar> \<le> 3 / 4"
  obtains rest where "formatDecimal g r plan = Inr (''3.'' @ rest)"
    "length rest = unat d" "CHR ''3'' # rest = dec_string (nat r)" "0 \<le> r"
proof -
  have d1: "1 \<le> unat d"
    using d(1) by (simp add: Suc_leI unat_gt_0)
  then have p10: "10 \<le> (10 :: real) ^ unat d"
    using power_increasing [of 1 "unat d" "10 :: real"] by simp
  have "10 ^ unat d * (314 / 100) < 10 ^ unat d * chud_pi" "10 ^ unat d * chud_pi < 10 ^ unat d * (315 / 100)"
    using chud_pi_bounds by (simp_all only: mult_less_cancel_left_pos zero_less_power zero_less_numeral)
  then have "real_of_int (3 * 10 ^ unat d) < real_of_int r" "real_of_int r < real_of_int (4 * 10 ^ unat d)"
    using r p10 unfolding of_int_mult of_int_power of_int_numeral abs_le_iff by linarith+
  then have r34: "3 * 10 ^ unat d < r" "r < 4 * 10 ^ unat d"
    by (simp_all only: of_int_less_iff)
  define m where "m = nat r"
  have "int (3 * 10 ^ unat d) \<le> int m" "int m < int (4 * 10 ^ unat d)"
    using r34 by (simp_all add: m_def)
  then have m: "3 * 10 ^ unat d \<le> m" "m < 4 * 10 ^ unat d"
    by (simp_all only: of_nat_le_iff of_nat_less_iff)
  then have "m div 10 ^ unat d = 3"
    by (intro div_nat_eqI) (simp_all add: mult.commute)
  moreover have "length (dec_string m) = Suc (unat d) \<and> hd (dec_string m) = digit_char (m div 10 ^ unat d)"
    using m by (intro dec_string_width) simp_all
  ultimately have w: "length (dec_string m) = Suc (unat d)" "hd (dec_string m) = CHR ''3''"
    by (simp_all add: digit_char_3)
  then obtain rest where rest: "dec_string m = CHR ''3'' # rest" "length rest = unat d"
    by (cases "dec_string m") auto
  have "unat (- 1 - 1 :: u64) = 2 ^ 64 - 2"
    by (subst unat_sub_le) (simp_all add: unat_max_word)
  then have c: "\<not> d > - 1 - 1"
    using d(2) by (simp add: word_less_nat_alt)
  have r0: "0 \<le> r"
    using r34(1) by (rule order.trans [rotated, OF less_imp_le]) simp
  have "unat (d + 1) = unat d + 1"
    using d(2) by (subst unat_add_no_wrap) simp_all
  then have "formatDecimal g r plan = Inr (''3.'' @ rest)"
    using w rest c by (simp add: formatDecimal_def plan GMPInteger_toString_def mpz_get_str_nonneg [OF r0]
        m_def [symmetric] Let_def)
  then show thesis
    using rest r0 by (intro that [of rest]) (simp_all add: m_def)
qed

lemma finalize_and_format:
  assumes plan: "PrecisionPolicy_create d gd = Inr plan"
  obtains r rest where
    "finalizeFixedPoint g (pqt_node 0 (unat (termCount plan))) plan = Inr r"
    "formatDecimal g r plan = Inr (''3.'' @ rest)" "length rest = unat d"
    "CHR ''3'' # rest = dec_string (nat r)" "0 \<le> r"
    "\<bar>real_of_int r - 10 ^ unat d * chud_pi\<bar> \<le> 1 / 2 + 2 / 10 ^ unat gd"
proof -
  obtain r where r: "finalizeFixedPoint g (pqt_node 0 (unat (termCount plan))) plan = Inr r"
    and acc: "\<bar>real_of_int r - 10 ^ unat d * chud_pi\<bar> \<le> 1 / 2 + 2 / 10 ^ unat gd"
    using finalize_accurate [OF plan] by blast
  have gd: "16 \<le> unat gd" and d: "d \<noteq> 0" "requestedDigits plan = d"
    and bits: "plan_bits (unat d + unat gd) < 2 ^ 64"
    using plan by (simp_all add: create_Inr_iff word_le_nat_alt)
  have "10 ^ 1 \<le> (10 :: real) ^ unat gd"
    using gd by (intro power_increasing) simp_all
  then have "2 / (10 :: real) ^ unat gd \<le> 1 / 4"
    by (simp add: divide_le_eq)
  then have "\<bar>real_of_int r - 10 ^ unat d * chud_pi\<bar> \<le> 3 / 4"
    using acc by linarith
  moreover have "unat d + 1 < 2 ^ 64"
    using bits plan_bits_ge [of "unat d + unat gd"] by linarith
  ultimately obtain rest where "formatDecimal g r plan = Inr (''3.'' @ rest)" "length rest = unat d"
    "CHR ''3'' # rest = dec_string (nat r)" "0 \<le> r"
    using d by (elim format_ok [rotated 2])
  then show thesis
    using r acc by (intro that)
qed

end

end
