(* ===== verification/Binary_Parallel.thy ===== *)
theory Binary_Parallel
  imports Binary_Splitter "HOL-Library.Multiset"
begin

text \<open>
  The staged parallel split of \<open>BinarySplitter\<close> (src/src/binary/BinarySplitter.cpp): the layout
  of a frontier of seeds and gap blocks, the stages of leaf and merge tasks on a scheduler, and
  the calls to the observer, the storage coordinator and the checkpoint coordinator, in the order
  the code makes them.
\<close>

section \<open>Interfaces\<close>

text \<open>
  What the split sees of the scheduler: whether it accepts staged work, which submitted tasks get
  a valid handle (the others run inline), and in which order the tasks of a stage run.
\<close>

record executor =
  ex_running :: bool
  ex_workerCount :: size_t
  ex_ownsCurrentWorker :: bool
  ex_submit_valid :: "nat \<Rightarrow> nat \<Rightarrow> bool"
  ex_order :: "nat \<Rightarrow> nat \<Rightarrow> nat list"

text \<open>Every task of a stage runs exactly once before the stage is over.\<close>

definition executor_ok :: "executor \<Rightarrow> bool" where
  "executor_ok ex \<longleftrightarrow> (\<forall>stage n. mset (ex_order ex stage n) = mset [0..<n])"

record 'o BinarySplitObserver =
  termsCompleted :: "size_t \<Rightarrow> 'o \<Rightarrow> 'o"
  mergeLevelStarted :: "u32 \<Rightarrow> 'o \<Rightarrow> 'o"

record 'c BinaryMergeCoordinator =
  observeResidentNodes :: "BinaryNode list \<Rightarrow> u32 \<Rightarrow> ('c, unit) action"
  prepareMergeNodes :: "BinaryNode list \<Rightarrow> u32 \<Rightarrow> ('c, BinaryNode list) action"
  spillAfterMergeLevel :: "BinaryNode list \<Rightarrow> u32 \<Rightarrow> ('c, BinaryNode list) action"

record 'k BinaryCheckpointCoordinator =
  commitFrontier :: "BinaryNode list \<Rightarrow> u32 list \<Rightarrow> ('k, unit) action"

record BinaryFrontierNode =
  seed_node :: BinaryNode
  seed_treeLevel :: u32

record ParallelSplitOptions =
  sequentialCutoff :: size_t
  tasksPerWorker :: size_t

text \<open>The states of the three collaborators.\<close>

record ('o, 'c, 'k) split_state =
  st_observer :: 'o
  st_coordinator :: 'c
  st_checkpoint :: 'k

text \<open>
  A coordinator receives a span: it may overwrite the nodes but not change their number.
\<close>

definition span_assign :: "'a list \<Rightarrow> 'a list \<Rightarrow> 'a list" where
  "span_assign old new = map (\<lambda>i. if i < length new then new ! i else old ! i) [0..<length old]"

lemma length_span_assign [simp]: "length (span_assign old new) = length old"
  by (simp add: span_assign_def)

lemma span_assign_same_length: "length new = length old \<Longrightarrow> span_assign old new = new"
  by (auto simp: span_assign_def intro: nth_equalityI)

section \<open>Operations\<close>

definition boundedBlockCount :: "size_t \<Rightarrow> size_t \<Rightarrow> size_t \<Rightarrow> size_t \<Rightarrow> size_t" where
  "boundedBlockCount termCount cutoff workerCount perWorker =
     (let requestedBlocks = 1 + (termCount - 1) div cutoff;
          maximumBlocks = (if workerCount > (- 1) div perWorker then - 1
                           else workerCount * perWorker)
      in min requestedBlocks maximumBlocks)"

partial_function (option) treeLevelLoop :: "size_t \<Rightarrow> u32 \<Rightarrow> size_t \<Rightarrow> u32 option" where
  "treeLevelLoop termCount level capacity =
     (if capacity < termCount then
        if capacity > (- 1) div 2 then Some (level + 1)
        else treeLevelLoop termCount (level + 1) (capacity * 2)
      else Some level)"

definition maximumTreeLevel :: "size_t \<Rightarrow> u32 option" where
  "maximumTreeLevel termCount = treeLevelLoop termCount 0 1"

definition acceptsStagedWork :: "executor \<Rightarrow> bool" where
  "acceptsStagedWork ex \<longleftrightarrow>
     ex_running ex \<and> ex_workerCount ex \<noteq> 0 \<and> \<not> ex_ownsCurrentWorker ex"

fun validateFrontier :: "gmp \<Rightarrow> size_t \<Rightarrow> size_t \<Rightarrow> size_t \<Rightarrow> BinaryFrontierNode list \<Rightarrow> unit result" where
  "validateFrontier g s e coveredEnd [] = Inr ()"
| "validateFrontier g s e coveredEnd (seed # seeds) =
     (let n = seed_node seed in
      res_bind (throw_if (node_start n \<ge> node_end n)
        (Invalid_argument ''Binary Splitting frontier node requires start < end'')) (\<lambda>_.
      res_bind (throw_if (node_start n < s \<or> node_end n > e)
        (Invalid_argument ''Binary Splitting frontier node is outside the split range'')) (\<lambda>_.
      res_bind (throw_if (node_start n < coveredEnd)
        (Invalid_argument ''Binary Splitting frontier nodes overlap'')) (\<lambda>_.
      res_bind (throw_if (\<not> hasValues g n)
        (Invalid_argument ''Binary Splitting frontier node is not resident'')) (\<lambda>_.
      validateFrontier g s e (node_end n) seeds)))))"

definition sortAndValidateFrontier ::
  "gmp \<Rightarrow> BinaryFrontierNode list \<Rightarrow> size_t \<Rightarrow> size_t \<Rightarrow> BinaryFrontierNode list result" where
  "sortAndValidateFrontier g frontier s e =
     (let sorted_frontier = sort_key (\<lambda>seed. node_start (seed_node seed)) frontier
      in res_bind (validateFrontier g s e s sorted_frontier) (\<lambda>_. Inr sorted_frontier))"

text \<open>The frontier layout: a slot per node, its tree level, and the blocks still to compute.\<close>

record PendingBlock =
  block_index :: nat
  block_start :: size_t
  block_end :: size_t

type_synonym layout = "BinaryNode result option list \<times> u32 list \<times> PendingBlock list"

primrec gapLoop ::
  "nat \<Rightarrow> size_t \<Rightarrow> size_t \<Rightarrow> size_t \<Rightarrow> size_t \<Rightarrow> layout \<Rightarrow> layout" where
  "gapLoop 0 block blockStart baseBlockSize largerBlockCount lay = lay"
| "gapLoop (Suc n) block blockStart baseBlockSize largerBlockCount lay =
     (let (slots, levels, pending) = lay;
          blockEnd = blockStart + baseBlockSize + (if block < largerBlockCount then 1 else 0)
      in gapLoop n (block + 1) blockEnd baseBlockSize largerBlockCount
           (slots @ [None], levels @ [0],
            pending @ [\<lparr>block_index = length slots, block_start = blockStart, block_end = blockEnd\<rparr>]))"

definition appendGap ::
  "executor \<Rightarrow> ParallelSplitOptions \<Rightarrow> bool \<Rightarrow> size_t \<Rightarrow> size_t \<Rightarrow> layout \<Rightarrow> layout" where
  "appendGap ex options parallelExecution gapStart gapEnd lay =
     (let gapSize = gapEnd - gapStart;
          blockCount = (if parallelExecution
            then boundedBlockCount gapSize (sequentialCutoff options) (ex_workerCount ex)
                   (tasksPerWorker options)
            else 1)
      in gapLoop (unat blockCount) 0 gapStart (gapSize div blockCount) (gapSize mod blockCount) lay)"

fun layoutFrontier ::
  "executor \<Rightarrow> ParallelSplitOptions \<Rightarrow> bool \<Rightarrow> size_t \<Rightarrow> size_t \<Rightarrow> BinaryFrontierNode list \<Rightarrow> layout \<Rightarrow> layout"
where
  "layoutFrontier ex options par e coveredEnd [] lay =
     (if coveredEnd < e then appendGap ex options par coveredEnd e lay else lay)"
| "layoutFrontier ex options par e coveredEnd (seed # seeds) lay =
     (let n = seed_node seed;
          (slots, levels, pending) =
            (if coveredEnd < node_start n then appendGap ex options par coveredEnd (node_start n) lay
             else lay)
      in layoutFrontier ex options par e (node_end n) seeds
           (slots @ [Some (Inr n)], levels @ [seed_treeLevel seed], pending))"

text \<open>
  The tasks of a stage, in the order they run.  A task stores its result in its own slot and then
  runs its effect.  An exception of an accepted task stays in its handle; an exception of an
  inline task leaves the stage at once.
\<close>

fun run_tasks ::
  "(nat \<Rightarrow> bool) \<Rightarrow> (nat \<Rightarrow> nat) \<Rightarrow> (nat \<Rightarrow> 'v result option) \<Rightarrow> (nat \<Rightarrow> 's \<Rightarrow> 's) \<Rightarrow> nat list
   \<Rightarrow> 'v result option list \<Rightarrow> ('s, 'v result option list) paction" where
  "run_tasks accepted slot_of f eff [] slots s = Some (Inr slots, s)"
| "run_tasks accepted slot_of f eff (i # is) slots s =
     (case f i of None \<Rightarrow> None
      | Some (Inl e) \<Rightarrow>
          if accepted i then run_tasks accepted slot_of f eff is (slots[slot_of i := Some (Inl e)]) s
          else Some (Inl e, s)
      | Some (Inr v) \<Rightarrow>
          run_tasks accepted slot_of f eff is (slots[slot_of i := Some (Inr v)]) (eff i s))"

text \<open>\<open>waitForStage\<close> rethrows the first failure, then the values are taken from the slots.\<close>

fun waitForStage :: "'v result option list \<Rightarrow> unit result" where
  "waitForStage [] = Inr ()"
| "waitForStage (Some (Inl e) # slots) = Inl e"
| "waitForStage (_ # slots) = waitForStage slots"

fun take_values :: "'v result option list \<Rightarrow> 'v list result" where
  "take_values [] = Inr []"
| "take_values (Some (Inr v) # slots) = res_bind (take_values slots) (\<lambda>vs. Inr (v # vs))"
| "take_values (_ # slots) = Inl (Logic_error ''bad optional access'')"

text \<open>The collaborators of one split, each of which may be absent, and calls to them.\<close>

record ('o, 'c, 'k) split_env =
  env_observer :: "'o BinarySplitObserver option"
  env_coordinator :: "'c BinaryMergeCoordinator option"
  env_checkpoint :: "'k BinaryCheckpointCoordinator option"

definition on_coordinator ::
  "('c, 'a) action \<Rightarrow> (('o, 'c, 'k) split_state, 'a) action" where
  "on_coordinator m s = (case m (st_coordinator s) of (r, c) \<Rightarrow> (r, s\<lparr>st_coordinator := c\<rparr>))"

definition on_checkpoint ::
  "('k, 'a) action \<Rightarrow> (('o, 'c, 'k) split_state, 'a) action" where
  "on_checkpoint m s = (case m (st_checkpoint s) of (r, k) \<Rightarrow> (r, s\<lparr>st_checkpoint := k\<rparr>))"

definition notify_terms ::
  "('o, 'c, 'k) split_env \<Rightarrow> size_t \<Rightarrow> ('o, 'c, 'k) split_state \<Rightarrow> ('o, 'c, 'k) split_state" where
  "notify_terms env terms s =
     (case env_observer env of None \<Rightarrow> s
      | Some ob \<Rightarrow> s\<lparr>st_observer := termsCompleted ob terms (st_observer s)\<rparr>)"

definition notify_level ::
  "('o, 'c, 'k) split_env \<Rightarrow> u32 \<Rightarrow> ('o, 'c, 'k) split_state \<Rightarrow> ('o, 'c, 'k) split_state" where
  "notify_level env level s =
     (case env_observer env of None \<Rightarrow> s
      | Some ob \<Rightarrow> s\<lparr>st_observer := mergeLevelStarted ob level (st_observer s)\<rparr>)"

definition commit_frontier ::
  "('o, 'c, 'k) split_env \<Rightarrow> BinaryNode list \<Rightarrow> u32 list \<Rightarrow> (('o, 'c, 'k) split_state, unit) action" where
  "commit_frontier env nodes treeLevels =
     (case env_checkpoint env of None \<Rightarrow> st_return ()
      | Some kc \<Rightarrow> on_checkpoint (commitFrontier kc nodes treeLevels))"

text \<open>Each stage: storage accounting, durable checkpoint, then spill.\<close>

definition completeStage ::
  "('o, 'c, 'k) split_env \<Rightarrow> u32 \<Rightarrow> bool \<Rightarrow> BinaryNode list \<Rightarrow> u32 list
   \<Rightarrow> (('o, 'c, 'k) split_state, BinaryNode list) action" where
  "completeStage env mergeLevel computedNodes nodes treeLevels =
     st_bind (case env_coordinator env of None \<Rightarrow> st_return ()
       | Some mc \<Rightarrow> on_coordinator (observeResidentNodes mc nodes mergeLevel)) (\<lambda>_.
     st_bind (if computedNodes then commit_frontier env nodes treeLevels else st_return ()) (\<lambda>_.
     case env_coordinator env of None \<Rightarrow> st_return nodes
     | Some mc \<Rightarrow>
         if length nodes > 1
         then st_bind (on_coordinator (spillAfterMergeLevel mc nodes mergeLevel))
                (\<lambda>spilled. st_return (span_assign nodes spilled))
         else st_return nodes))"

fun nextTreeLevels :: "size_t \<Rightarrow> u32 list \<Rightarrow> u32 list option" where
  "nextTreeLevels termCount (a # b # rest) =
     Option.bind (maximumTreeLevel termCount) (\<lambda>maximum.
     Option.bind (nextTreeLevels termCount rest) (\<lambda>levels.
     let childLevel = max a b
     in Some (min (if childLevel = - 1 then childLevel else childLevel + 1) maximum # levels)))"
| "nextTreeLevels termCount rest = Some rest"

text \<open>
  The tasks of a merge stage and the row they give.  Stage \<open>k\<close> of the executor is the merge to level
  \<open>k\<close>; stage 0 is the stage of the leaf blocks.
\<close>

definition mergePairs ::
  "gmp \<Rightarrow> executor \<Rightarrow> bool \<Rightarrow> u32 \<Rightarrow> BinaryNode list \<Rightarrow> ('s, BinaryNode list) paction" where
  "mergePairs g ex parallelExecution mergeLevel nodes =
     (let pairCount = length nodes div 2;
          accepted = (\<lambda>i. parallelExecution \<and> pairCount > 1 \<and> ex_submit_valid ex (unat mergeLevel) i)
      in
      p_bind (run_tasks accepted (\<lambda>i. i)
          (\<lambda>pair. Some (merge g (nodes ! (pair * 2)) (nodes ! (pair * 2 + 1)))) (\<lambda>_ s. s)
          (ex_order ex (unat mergeLevel) pairCount) (replicate pairCount None)) (\<lambda>mergeResults.
      p_bind (p_lift (st_lift (waitForStage mergeResults))) (\<lambda>_.
      p_bind (p_lift (st_lift (take_values mergeResults))) (\<lambda>merged.
      p_lift (st_return (merged @ (if length nodes mod 2 \<noteq> 0 then [last nodes] else [])))))))"

text \<open>One turn of the merge loop.\<close>

definition mergeStage ::
  "gmp \<Rightarrow> executor \<Rightarrow> ('o, 'c, 'k) split_env \<Rightarrow> bool \<Rightarrow> size_t \<Rightarrow> u32 \<Rightarrow> BinaryNode list \<Rightarrow> u32 list
   \<Rightarrow> (('o, 'c, 'k) split_state, BinaryNode list \<times> u32 list) paction" where
  "mergeStage g ex env parallelExecution termCount mergeLevel nodes treeLevels =
     p_bind (p_lift (case env_coordinator env of None \<Rightarrow> st_return nodes
       | Some mc \<Rightarrow> st_bind (on_coordinator (prepareMergeNodes mc nodes mergeLevel))
                     (\<lambda>prepared. st_return (span_assign nodes prepared)))) (\<lambda>nodes.
     p_bind (\<lambda>s. Some (Inr (), notify_level env mergeLevel s)) (\<lambda>_.
     p_bind (mergePairs g ex parallelExecution (mergeLevel + 1) nodes) (\<lambda>nextLevel.
     p_bind (\<lambda>s. Option.bind (nextTreeLevels termCount treeLevels) (\<lambda>levels. Some (Inr levels, s)))
       (\<lambda>nextLevels.
     p_bind (p_lift (completeStage env (mergeLevel + 1) True nextLevel nextLevels)) (\<lambda>nextLevel.
     p_lift (st_return (nextLevel, nextLevels)))))))"

partial_function (option) mergeLoop ::
  "gmp \<Rightarrow> executor \<Rightarrow> ('o, 'c, 'k) split_env \<Rightarrow> bool \<Rightarrow> size_t \<Rightarrow> u32 \<Rightarrow> BinaryNode list \<Rightarrow> u32 list
   \<Rightarrow> ('o, 'c, 'k) split_state \<Rightarrow> (BinaryNode list result \<times> ('o, 'c, 'k) split_state) option" where
  "mergeLoop g ex env par termCount mergeLevel nodes treeLevels s =
     (if length nodes > 1 then
        Option.bind (mergeStage g ex env par termCount mergeLevel nodes treeLevels s) (\<lambda>(r, s).
          case r of Inl e \<Rightarrow> Some (Inl e, s)
          | Inr (nodes, treeLevels) \<Rightarrow>
              mergeLoop g ex env par termCount (mergeLevel + 1) nodes treeLevels s)
      else Some (Inr nodes, s))"

text \<open>The sequential fallback of the parallel split, and its staged path.\<close>

definition splitInline ::
  "gmp \<Rightarrow> ('o, 'c, 'k) split_env \<Rightarrow> size_t \<Rightarrow> size_t \<Rightarrow> (('o, 'c, 'k) split_state, BinaryNode) paction" where
  "splitInline g env s e =
     p_bind (\<lambda>st. Option.bind (splitSequentialValidated g s e) (\<lambda>r. Some (r, st))) (\<lambda>result.
     p_bind (\<lambda>st. Some (Inr (), notify_terms env (e - s) st)) (\<lambda>_.
     p_bind (p_lift (commit_frontier env [result] [0])) (\<lambda>_.
     p_lift (st_return result))))"

definition splitStaged ::
  "gmp \<Rightarrow> executor \<Rightarrow> ParallelSplitOptions \<Rightarrow> ('o, 'c, 'k) split_env \<Rightarrow> bool \<Rightarrow> size_t \<Rightarrow> size_t
   \<Rightarrow> BinaryFrontierNode list \<Rightarrow> (('o, 'c, 'k) split_state, BinaryNode) paction" where
  "splitStaged g ex options env parallelExecution s e initialFrontier =
     (let (slots, treeLevels, pending) =
            layoutFrontier ex options parallelExecution e s initialFrontier ([], [], []);
          accepted = (\<lambda>i. parallelExecution \<and> ex_submit_valid ex 0 i)
      in
      p_bind (run_tasks accepted (\<lambda>i. block_index (pending ! i))
          (\<lambda>i. splitSequentialValidated g (block_start (pending ! i)) (block_end (pending ! i)))
          (\<lambda>i. notify_terms env (block_end (pending ! i) - block_start (pending ! i)))
          (ex_order ex 0 (length pending)) slots) (\<lambda>slots.
      p_bind (p_lift (st_lift (waitForStage slots))) (\<lambda>_.
      p_bind (p_lift (st_lift (take_values slots))) (\<lambda>nodes.
      p_bind (p_lift (completeStage env 0 (pending \<noteq> []) nodes treeLevels)) (\<lambda>nodes.
      p_bind (mergeLoop g ex env parallelExecution (e - s) 0 nodes treeLevels) (\<lambda>nodes.
      p_lift (st_return (hd nodes))))))))"

definition splitParallel ::
  "gmp \<Rightarrow> executor \<Rightarrow> ParallelSplitOptions \<Rightarrow> ('o, 'c, 'k) split_env \<Rightarrow> size_t \<Rightarrow> size_t
   \<Rightarrow> BinaryFrontierNode list \<Rightarrow> (('o, 'c, 'k) split_state, BinaryNode) paction" where
  "splitParallel g ex options env s e initialFrontier =
     p_bind (p_lift (st_lift (validateRange s e))) (\<lambda>_.
     p_bind (p_lift (st_throw_if (sequentialCutoff options = 0)
       (Invalid_argument ''Binary Splitting sequential cutoff must be greater than zero''))) (\<lambda>_.
     p_bind (p_lift (st_throw_if (tasksPerWorker options = 0)
       (Invalid_argument ''Binary Splitting tasks per worker must be greater than zero''))) (\<lambda>_.
     p_bind (p_lift (st_lift (sortAndValidateFrontier g initialFrontier s e))) (\<lambda>initialFrontier.
     let termCount = e - s;
         parallelExecution = acceptsStagedWork ex
     in if initialFrontier = []
           \<and> (termCount \<le> sequentialCutoff options \<or> \<not> parallelExecution
              \<or> boundedBlockCount termCount (sequentialCutoff options) (ex_workerCount ex)
                  (tasksPerWorker options) < 2)
        then splitInline g env s e
        else splitStaged g ex options env parallelExecution s e initialFrontier))))"

text \<open>The overload without collaborators and with four tasks per worker.\<close>

definition splitParallel_cutoff ::
  "gmp \<Rightarrow> executor \<Rightarrow> size_t \<Rightarrow> size_t \<Rightarrow> size_t \<Rightarrow> ((unit, unit, unit) split_state, BinaryNode) paction" where
  "splitParallel_cutoff g ex s e cutoff =
     splitParallel g ex \<lparr>sequentialCutoff = cutoff, tasksPerWorker = 4\<rparr>
       \<lparr>env_observer = None, env_coordinator = None, env_checkpoint = None\<rparr> s e []"

end
