(* ===== verification/Binary_Parallel_Correct.thy ===== *)
theory Binary_Parallel_Correct
  imports Binary_Parallel
begin

text \<open>
  The staged parallel split computes the node of the whole range, for every order in which the
  scheduler runs the tasks of a stage, every choice of tasks it accepts, every frontier of correct
  seeds and every storage coordinator that gives back what it spilled.
\<close>

section \<open>A stage of tasks\<close>

definition fill_slots ::
  "(nat \<Rightarrow> nat) \<Rightarrow> (nat \<Rightarrow> 'v) \<Rightarrow> nat list \<Rightarrow> 'v result option list \<Rightarrow> 'v result option list" where
  "fill_slots slot_of v = fold (\<lambda>i slots. slots[slot_of i := Some (Inr (v i))])"

lemma run_tasks_ok:
  assumes "\<forall>i\<in>set is. f i = Some (Inr (v i))"
  shows "run_tasks accepted slot_of f eff is slots s = Some (Inr (fill_slots slot_of v is slots), fold eff is s)"
  using assms by (induction "is" arbitrary: slots s) (simp_all add: fill_slots_def)

lemma fill_slots_order:
  assumes "mset is = mset [0..<n]" and "inj_on slot_of {..<n}"
  shows "fill_slots slot_of v is slots = fill_slots slot_of v [0..<n] slots"
proof -
  have set_is: "set is = {..<n}"
    using assms(1) by (metis atLeast_upt mset_eq_setD)
  have "fill_slots slot_of v is = fill_slots slot_of v [0..<n]"
    unfolding fill_slots_def
  proof (rule fold_multiset_equiv)
    fix x y
    assume "x \<in> set is" "y \<in> set is"
    then show "(\<lambda>slots. slots[slot_of x := Some (Inr (v x))]) \<circ> (\<lambda>slots. slots[slot_of y := Some (Inr (v y))])
      = (\<lambda>slots. slots[slot_of y := Some (Inr (v y))]) \<circ> (\<lambda>slots. slots[slot_of x := Some (Inr (v x))])"
      using assms(2) by (cases "x = y") (auto simp: set_is fun_eq_iff inj_on_def intro!: list_update_swap)
  qed (use assms(1) in simp)
  then show ?thesis
    by simp
qed

lemma fill_slots_id: "fill_slots (\<lambda>i. i) v [0..<n] (replicate n None) = map (\<lambda>i. Some (Inr (v i))) [0..<n]"
proof -
  have "k \<le> n \<Longrightarrow> fill_slots (\<lambda>i. i) v [0..<k] (replicate n None)
      = map (\<lambda>i. Some (Inr (v i))) [0..<k] @ replicate (n - k) None" for k
  proof (induction k)
    case (Suc k)
    then have "replicate (n - k) (None :: 'a result option) = None # replicate (n - Suc k) None"
      by (metis Suc_diff_le Suc_le_lessD diff_Suc_Suc replicate_Suc)
    with Suc show ?case
      by (simp add: fill_slots_def list_update_append)
  qed (simp add: fill_slots_def)
  from this [of n] show ?thesis by simp
qed

lemma waitForStage_ok [simp]: "waitForStage (map (\<lambda>x. Some (Inr (v x))) xs) = Inr ()"
  by (induction xs) simp_all

lemma take_values_ok [simp]: "take_values (map (\<lambda>x. Some (Inr (v x))) xs) = Inr (map v xs)"
  by (induction xs) simp_all

text \<open>The tasks of a merge stage compute one level of pairwise merging.\<close>

lemma merge_level_tasks:
  assumes "merge_level m xs = Inr ys"
  shows "ys = map (\<lambda>i. ys ! i) [0..<length xs div 2] @ (if length xs mod 2 \<noteq> 0 then [last xs] else [])
    \<and> (\<forall>i < length xs div 2. m (xs ! (i * 2)) (xs ! (i * 2 + 1)) = Inr (ys ! i))"
  using assms
proof (induction m xs arbitrary: ys rule: merge_level.induct)
  case (1 m x y zs)
  then obtain v vs where v: "m x y = Inr v" "merge_level m zs = Inr vs" "ys = v # vs"
    by (auto simp: res_elim)
  define k where "k = length zs div 2"
  have len: "length (x # y # zs) div 2 = Suc k" "length (x # y # zs) mod 2 = length zs mod 2"
    by (simp_all add: k_def)
  have IH: "vs = map ((!) vs) [0..<k] @ (if length zs mod 2 \<noteq> 0 then [last zs] else [])"
    "\<forall>i < k. m (zs ! (i * 2)) (zs ! (i * 2 + 1)) = Inr (vs ! i)"
    using "1.IH" [OF v(1,2)] unfolding k_def by blast+
  have l: "(if length zs mod 2 \<noteq> 0 then [last (x # y # zs)] else [])
      = (if length zs mod 2 \<noteq> 0 then [last zs] else [])"
    by (cases zs) auto
  have "map (\<lambda>i. ys ! i) [0..<Suc k] = v # map (\<lambda>i. vs ! i) [0..<k]"
    using v(3) by (simp add: upt_conv_Cons map_Suc_upt [symmetric] del: upt_Suc)
  then have "ys = map (\<lambda>i. ys ! i) [0..<Suc k] @ (if length zs mod 2 \<noteq> 0 then [last (x # y # zs)] else [])"
    unfolding l using IH(1) v(3) by (metis append_Cons)
  moreover have "m ((x # y # zs) ! (i * 2)) ((x # y # zs) ! (i * 2 + 1)) = Inr (ys ! i)" if "i < Suc k" for i
    using that IH(2) v by (cases i) simp_all
  ultimately show ?case
    unfolding len by blast
qed simp_all

section \<open>The frontier layout\<close>

lemma row_of_snoc: "bs \<noteq> [] \<Longrightarrow> row_of node (bs @ [c]) = row_of node bs @ [node (last bs) c]"
  by (induction node bs rule: row_of.induct) simp_all

lemma sorted_snoc:
  assumes "sorted_wrt (<) bs" and "bs \<noteq> []" and "last bs < (c :: nat)"
  shows "sorted_wrt (<) (bs @ [c])"
proof -
  have "b \<le> last bs" if "b \<in> set bs" for b
    using assms(1,2) that by (induction bs) (auto split: if_splits dest: less_imp_le)
  then show ?thesis
    using assms by (force simp: sorted_wrt_append)
qed

definition fill_pending :: "PendingBlock list \<Rightarrow> BinaryNode result option list \<Rightarrow> BinaryNode result option list" where
  "fill_pending =
     fold (\<lambda>p slots. slots[block_index p := Some (Inr (pqt_node (unat (block_start p)) (unat (block_end p))))])"

definition pending_terms :: "PendingBlock list \<Rightarrow> nat" where
  "pending_terms pending = (\<Sum>p\<leftarrow>pending. unat (block_end p) - unat (block_start p))"

text \<open>
  A layout up to boundary \<open>b\<close>: with the pending blocks computed, the slots are the contiguous row of
  nodes over increasing boundaries from \<open>a\<close> to \<open>b\<close>.
\<close>

definition layout_ok :: "nat \<Rightarrow> nat \<Rightarrow> layout \<Rightarrow> bool" where
  "layout_ok a b lay =
     (case lay of (slots, levels, pending) \<Rightarrow>
        \<exists>bs. bs \<noteq> [] \<and> hd bs = a \<and> last bs = b \<and> sorted_wrt (<) bs
          \<and> distinct (map block_index pending)
          \<and> (\<forall>p\<in>set pending. block_index p < length slots \<and> block_start p < block_end p)
          \<and> fill_pending pending slots = map (\<lambda>n. Some (Inr n)) (row_of pqt_node bs)
          \<and> length levels = length slots)"

lemma fill_pending_append:
  "\<forall>p\<in>set pending. block_index p < length slots \<Longrightarrow>
   fill_pending pending (slots @ ys) = fill_pending pending slots @ ys"
  by (induction pending arbitrary: slots) (simp_all add: fill_pending_def list_update_append1)

lemma length_fill_pending [simp]: "length (fill_pending pending slots) = length slots"
  by (induction pending arbitrary: slots) (simp_all add: fill_pending_def)

lemma layout_ok_Nil: "layout_ok a a ([], [], [])"
  by (auto simp: layout_ok_def fill_pending_def intro!: exI [of _ "[a]"])

lemma layout_ok_seed:
  assumes "layout_ok a b (slots, levels, pending)" and "b < c" and "n = pqt_node b c"
  shows "layout_ok a c (slots @ [Some (Inr n)], levels @ [l], pending)"
proof -
  obtain bs where bs: "bs \<noteq> []" "hd bs = a" "last bs = b" "sorted_wrt (<) bs"
    "distinct (map block_index pending)" "length levels = length slots"
    "\<forall>p\<in>set pending. block_index p < length slots \<and> block_start p < block_end p"
    "fill_pending pending slots = map (\<lambda>n. Some (Inr n)) (row_of pqt_node bs)"
    using assms(1) by (auto simp: layout_ok_def)
  then show ?thesis
    using assms(2,3)
    by (auto simp: layout_ok_def fill_pending_append row_of_snoc sorted_snoc less_SucI
        intro!: exI [of _ "bs @ [c]"])
qed

lemma layout_ok_block:
  assumes "layout_ok a (unat blockStart) (slots, levels, pending)" and "blockStart < blockEnd"
  shows "layout_ok a (unat blockEnd) (slots @ [None], levels @ [l],
    pending @ [\<lparr>block_index = length slots, block_start = blockStart, block_end = blockEnd\<rparr>])"
proof -
  obtain bs where bs: "bs \<noteq> []" "hd bs = a" "last bs = unat blockStart" "sorted_wrt (<) bs"
    "distinct (map block_index pending)" "length levels = length slots"
    "\<forall>p\<in>set pending. block_index p < length slots \<and> block_start p < block_end p"
    "fill_pending pending slots = map (\<lambda>n. Some (Inr n)) (row_of pqt_node bs)"
    using assms(1) by (auto simp: layout_ok_def)
  let ?p = "\<lparr>block_index = length slots, block_start = blockStart, block_end = blockEnd\<rparr>"
  have "fill_pending (pending @ [?p]) (slots @ [None])
      = (fill_pending pending slots @ [None])[length slots := Some (Inr (pqt_node (unat blockStart) (unat blockEnd)))]"
    using bs(7) by (simp add: fill_pending_def [of] fill_pending_append [unfolded fill_pending_def])
  also have "\<dots> = fill_pending pending slots @ [Some (Inr (pqt_node (unat blockStart) (unat blockEnd)))]"
    using length_fill_pending [of pending slots] by (simp add: list_update_append)
  finally show ?thesis
    using bs assms(2)
    by (auto simp: layout_ok_def row_of_snoc sorted_snoc less_SucI word_less_nat_alt
        intro!: exI [of _ "bs @ [unat blockEnd]"])
qed

lemma layout_ok_gap:
  assumes "layout_ok a (unat blockStart) lay" and "0 < unat base"
    and "unat blockStart + n * unat base + min n (unat larger - unat block) < 2 ^ 64"
    and "unat block + n < 2 ^ 64"
  shows "layout_ok a (unat blockStart + n * unat base + min n (unat larger - unat block))
      (gapLoop n block blockStart base larger lay)
    \<and> pending_terms (snd (snd (gapLoop n block blockStart base larger lay)))
      = pending_terms (snd (snd lay)) + n * unat base + min n (unat larger - unat block)"
  using assms
proof (induction n arbitrary: block blockStart lay)
  case (Suc n)
  obtain slots levels pending where lay: "lay = (slots, levels, pending)"
    by (cases lay)
  define blockEnd where "blockEnd = blockStart + base + (if block < larger then 1 else 0)"
  define m where "m = min (Suc n) (unat larger - unat block)"
  define m' where "m' = min n (unat larger - (unat block + 1))"
  have mm: "m = m' + (if block < larger then 1 else 0)"
    by (auto simp: m_def m'_def word_less_nat_alt)
  have sum: "unat blockStart + Suc n * unat base + m < 2 ^ 64"
    using Suc.prems(3) by (simp only: m_def)
  have sb: "unat (blockStart + base) = unat blockStart + unat base"
    using sum by (intro unat_add_no_wrap) simp
  have e: "unat blockEnd = unat blockStart + unat base + (if block < larger then 1 else 0)"
    unfolding blockEnd_def using sum mm sb
    by (subst unat_add_no_wrap) auto
  have b1: "unat (block + 1) = unat block + 1"
    using Suc.prems(4) by (subst unat_add_no_wrap) simp_all
  let ?lay = "(slots @ [None], levels @ [0],
    pending @ [\<lparr>block_index = length slots, block_start = blockStart, block_end = blockEnd\<rparr>])"
  have "layout_ok a (unat blockEnd) ?lay"
    using Suc.prems(1,2) e unfolding lay by (intro layout_ok_block) (simp_all add: word_less_nat_alt)
  moreover have "unat blockEnd + n * unat base + min n (unat larger - unat (block + 1)) < 2 ^ 64"
    using sum mm by (simp add: e b1 m'_def)
  ultimately have "layout_ok a (unat blockEnd + n * unat base + m')
      (gapLoop n (block + 1) blockEnd base larger ?lay)
    \<and> pending_terms (snd (snd (gapLoop n (block + 1) blockEnd base larger ?lay)))
      = pending_terms (snd (snd ?lay)) + n * unat base + m'"
    using Suc.IH [of blockEnd ?lay "block + 1"] Suc.prems(2,4) by (simp add: b1 m'_def)
  moreover have "gapLoop (Suc n) block blockStart base larger lay = gapLoop n (block + 1) blockEnd base larger ?lay"
    by (simp add: lay blockEnd_def Let_def)
  moreover have "pending_terms (snd (snd ?lay)) = pending_terms pending + unat base + (if block < larger then 1 else 0)"
    by (simp add: pending_terms_def e)
  ultimately show ?case
    using mm by (simp add: m_def [symmetric] e lay algebra_simps)
qed simp

lemma boundedBlockCount_bounds:
  assumes "termCount \<noteq> 0" and "cutoff \<noteq> 0" and "workerCount \<noteq> 0" and "perWorker \<noteq> 0"
  shows "0 < unat (boundedBlockCount termCount cutoff workerCount perWorker)"
    "unat (boundedBlockCount termCount cutoff workerCount perWorker) \<le> unat termCount"
proof -
  have t: "1 \<le> unat termCount" and w: "1 \<le> unat workerCount" and p: "1 \<le> unat perWorker"
    using assms by (simp_all add: Suc_leI unat_gt_0)
  have t1: "unat (termCount - 1) = unat termCount - 1"
    using assms(1) by (subst unat_sub_le) (simp_all add: word_le_nat_alt unat_gt_0 Suc_leI)
  have q: "(unat termCount - 1) div unat cutoff \<le> unat termCount - 1"
    by simp
  have "1 + (unat termCount - 1) div unat cutoff < 2 ^ 64"
    using q t unat_u64_less [of termCount] by linarith
  then have requested: "unat (1 + (termCount - 1) div cutoff) = 1 + (unat termCount - 1) div unat cutoff"
    by (subst unat_add_no_wrap) (simp_all add: unat_div t1)
  have "1 \<le> unat (workerCount * perWorker)" if "\<not> workerCount > (- 1) div perWorker"
  proof -
    have "unat workerCount \<le> (2 ^ 64 - 1) div unat perWorker"
      using that by (simp add: word_less_nat_alt not_less unat_div unat_max_word)
    then have "unat workerCount * unat perWorker \<le> 2 ^ 64 - 1"
      using p by (simp add: less_eq_div_iff_mult_less_eq)
    then have "unat (workerCount * perWorker) = unat workerCount * unat perWorker"
      by (subst unat_mult_no_wrap) simp_all
    then show ?thesis
      using mult_le_mono [OF w p] by simp
  qed
  then show "0 < unat (boundedBlockCount termCount cutoff workerCount perWorker)"
    using requested by (auto simp: boundedBlockCount_def Let_def min_def unat_max_word)
  have "1 + (termCount - 1) div cutoff \<le> termCount"
    unfolding word_le_nat_alt requested using q t by linarith
  then show "unat (boundedBlockCount termCount cutoff workerCount perWorker) \<le> unat termCount"
    unfolding boundedBlockCount_def Let_def word_le_nat_alt [symmetric] by (rule min.coboundedI1)
qed

lemma layout_ok_appendGap:
  assumes lay: "layout_ok a (unat gapStart) lay" and gap: "gapStart < gapEnd"
    and opts: "sequentialCutoff options \<noteq> 0" "tasksPerWorker options \<noteq> 0"
    and par: "par \<Longrightarrow> ex_workerCount ex \<noteq> 0"
  shows "layout_ok a (unat gapEnd) (appendGap ex options par gapStart gapEnd lay)
    \<and> pending_terms (snd (snd (appendGap ex options par gapStart gapEnd lay)))
      = pending_terms (snd (snd lay)) + (unat gapEnd - unat gapStart)"
proof -
  define size where "size = gapEnd - gapStart"
  have size: "unat size = unat gapEnd - unat gapStart"
    unfolding size_def using gap by (intro unat_sub_le) simp
  then have "0 < unat size"
    using gap by (simp add: word_less_nat_alt)
  then have nz: "size \<noteq> 0"
    by auto
  define blocks where "blocks = (if par then boundedBlockCount size (sequentialCutoff options)
    (ex_workerCount ex) (tasksPerWorker options) else 1)"
  have blocks: "0 < unat blocks" "unat blocks \<le> unat size"
    using boundedBlockCount_bounds [OF nz opts(1) par opts(2)] \<open>0 < unat size\<close>
    by (auto simp: blocks_def)
  have base: "unat (size div blocks) = unat size div unat blocks"
    and larger: "unat (size mod blocks) = unat size mod unat blocks"
    by (simp_all add: unat_div unat_mod)
  have "0 < unat (size div blocks)"
    unfolding base using blocks by (simp add: div_greater_zero_iff)
  have "unat size mod unat blocks < unat blocks"
    using blocks(1) by simp
  then have whole: "unat blocks * (unat size div unat blocks) + min (unat blocks) (unat size mod unat blocks) = unat size"
    by (simp add: min_def)
  have fits: "unat gapStart + unat size = unat gapEnd"
    using gap size by (simp add: word_less_nat_alt)
  have "layout_ok a (unat gapStart + unat blocks * unat (size div blocks) + min (unat blocks) (unat (size mod blocks) - unat (0 :: size_t)))
      (gapLoop (unat blocks) 0 gapStart (size div blocks) (size mod blocks) lay)
    \<and> pending_terms (snd (snd (gapLoop (unat blocks) 0 gapStart (size div blocks) (size mod blocks) lay)))
      = pending_terms (snd (snd lay)) + unat blocks * unat (size div blocks) + min (unat blocks) (unat (size mod blocks) - unat (0 :: size_t))"
    using lay \<open>0 < unat (size div blocks)\<close>
  proof (rule layout_ok_gap)
    show "unat gapStart + unat blocks * unat (size div blocks) + min (unat blocks) (unat (size mod blocks) - unat (0 :: size_t)) < 2 ^ 64"
      using whole fits unat_u64_less [of gapEnd] by (simp add: base larger add.assoc)
  qed (use unat_u64_less [of blocks] in simp)
  then show ?thesis
    using whole fits by (simp add: base larger add.assoc appendGap_def Let_def size_def [symmetric]
        blocks_def [symmetric] size [symmetric])
qed

text \<open>The terms of the seeds.\<close>

definition seed_terms :: "BinaryFrontierNode list \<Rightarrow> nat" where
  "seed_terms seeds = (\<Sum>x\<leftarrow>seeds. unat (node_end (seed_node x)) - unat (node_start (seed_node x)))"

definition seeds_ok :: "BinaryFrontierNode list \<Rightarrow> bool" where
  "seeds_ok seeds \<longleftrightarrow> (\<forall>x\<in>set seeds. seed_node x =
     pqt_node (unat (node_start (seed_node x))) (unat (node_end (seed_node x))))"

lemma layout_ok_frontier:
  assumes "validateFrontier g s e coveredEnd seeds = Inr ()" and "seeds_ok seeds"
    and "layout_ok a (unat coveredEnd) lay" and "coveredEnd \<le> e"
    and "sequentialCutoff options \<noteq> 0" "tasksPerWorker options \<noteq> 0" "par \<Longrightarrow> ex_workerCount ex \<noteq> 0"
  shows "layout_ok a (unat e) (layoutFrontier ex options par e coveredEnd seeds lay)
    \<and> pending_terms (snd (snd (layoutFrontier ex options par e coveredEnd seeds lay))) + seed_terms seeds
      = pending_terms (snd (snd lay)) + (unat e - unat coveredEnd)"
  using assms
proof (induction seeds arbitrary: coveredEnd lay)
  case Nil
  then show ?case
    using layout_ok_appendGap [OF Nil.prems(3) _ Nil.prems(5-7), of e]
    by (auto simp: seed_terms_def not_less)
next
  case (Cons seed seeds)
  define n where "n = seed_node seed"
  have v: "node_start n < node_end n" "node_end n \<le> e" "coveredEnd \<le> node_start n"
    "validateFrontier g s e (node_end n) seeds = Inr ()"
    using Cons.prems(1) by (auto simp: res_elim n_def Let_def not_le not_less)
  have n: "n = pqt_node (unat (node_start n)) (unat (node_end n))"
    using Cons.prems(2) unfolding seeds_ok_def n_def by simp
  define lay' where "lay' = (if coveredEnd < node_start n then appendGap ex options par coveredEnd (node_start n) lay else lay)"
  have lay': "layout_ok a (unat (node_start n)) lay'
    \<and> pending_terms (snd (snd lay')) = pending_terms (snd (snd lay)) + (unat (node_start n) - unat coveredEnd)"
    using layout_ok_appendGap [OF Cons.prems(3) _ Cons.prems(5-7), of "node_start n"] Cons.prems(3) v(3)
    by (cases "coveredEnd < node_start n") (auto simp: lay'_def)
  obtain slots levels pending where split: "lay' = (slots, levels, pending)"
    by (cases lay')
  let ?lay = "(slots @ [Some (Inr n)], levels @ [seed_treeLevel seed], pending)"
  have "layout_ok a (unat (node_end n)) ?lay"
    using lay' v(1) n unfolding split by (intro layout_ok_seed) (auto simp: word_less_nat_alt)
  then have "layout_ok a (unat e) (layoutFrontier ex options par e (node_end n) seeds ?lay)
    \<and> pending_terms (snd (snd (layoutFrontier ex options par e (node_end n) seeds ?lay))) + seed_terms seeds
      = pending_terms pending + (unat e - unat (node_end n))"
    using Cons.IH [OF v(4) _ _ v(2) Cons.prems(5-7), of ?lay] Cons.prems(2) by (simp add: seeds_ok_def)
  moreover have "layoutFrontier ex options par e coveredEnd (seed # seeds) lay
      = layoutFrontier ex options par e (node_end n) seeds ?lay"
    unfolding layoutFrontier.simps Let_def n_def [symmetric] lay'_def [symmetric] split by simp
  moreover have "seed_terms (seed # seeds) = unat (node_end n) - unat (node_start n) + seed_terms seeds"
    by (simp add: seed_terms_def n_def)
  ultimately show ?case
    using lay' v(1-3) split by (auto simp: word_less_nat_alt word_le_nat_alt)
qed

section \<open>Tree levels\<close>

lemma treeLevelLoop_height:
  assumes "j \<le> 63" and "j = 0 \<or> 2 ^ (j - 1) < unat t"
  shows "\<exists>l. treeLevelLoop t (of_nat j) (of_nat (2 ^ j)) = Some l \<and> unat t \<le> 2 ^ unat l
    \<and> (unat l = 0 \<or> 2 ^ (unat l - 1) < unat t)"
  using assms
proof (induction "63 - j" arbitrary: j)
  case 0
  then have j: "j = 63" by simp
  have "unat t < 2 ^ 64" by (rule unat_u64_less)
  moreover have "unat (9223372036854775808 :: u64) = 2 ^ 63" by simp
  moreover have "unat ((- 1 :: u64) div 2) = 2 ^ 63 - 1"
    by (simp add: unat_div unat_max_word)
  ultimately show ?case
    using 0(3) by (auto simp: j treeLevelLoop.simps [of t] word_less_nat_alt not_less)
next
  case (Suc i)
  then have j: "j \<le> 62" by simp
  have p: "(2 :: nat) ^ Suc j \<le> 2 ^ 63"
    using j by (intro power_increasing) simp_all
  then have cap: "unat (of_nat (2 ^ j) :: u64) = 2 ^ j"
    by (intro unat_of_nat_u64) simp
  have l: "unat (of_nat j :: u32) = j"
    using j by (simp add: unat_of_nat)
  have half: "unat ((- 1 :: u64) div 2) = 2 ^ 63 - 1"
    by (simp add: unat_div unat_max_word)
  show ?case
  proof (cases "(of_nat (2 ^ j) :: u64) < t")
    case True
    then have "2 ^ j < unat t"
      by (simp only: word_less_nat_alt cap)
    then have "\<exists>l. treeLevelLoop t (of_nat (Suc j)) (of_nat (2 ^ Suc j)) = Some l \<and> unat t \<le> 2 ^ unat l
        \<and> (unat l = 0 \<or> 2 ^ (unat l - 1) < unat t)"
      using Suc j by (intro Suc.hyps(1)) simp_all
    moreover have "\<not> (of_nat (2 ^ j) :: u64) > (- 1) div 2"
      unfolding word_less_nat_alt cap half using p by simp
    moreover have "of_nat j + 1 = (of_nat (Suc j) :: u32)" "of_nat (2 ^ j) * 2 = (of_nat (2 ^ Suc j) :: u64)"
      by (simp_all only: of_nat_Suc of_nat_mult power_Suc of_nat_numeral add.commute mult.commute)
    ultimately show ?thesis
      using True by (subst treeLevelLoop.simps) (simp only: if_True if_False)
  next
    case False
    then have "unat t \<le> 2 ^ j"
      by (simp only: word_less_nat_alt cap not_less)
    with False Suc.prems l show ?thesis
      by (subst treeLevelLoop.simps) simp
  qed
qed

lemma maximumTreeLevel_height:
  "\<exists>l. maximumTreeLevel t = Some l \<and> unat t \<le> 2 ^ unat l \<and> (unat l = 0 \<or> 2 ^ (unat l - 1) < unat t)"
  using treeLevelLoop_height [of 0 t] by (simp add: maximumTreeLevel_def)

lemma nextTreeLevels_ok: "\<exists>ls'. nextTreeLevels t ls = Some ls' \<and> length ls' = (length ls + 1) div 2"
proof (induction t ls rule: nextTreeLevels.induct)
  case (1 t a b rest)
  obtain l where "maximumTreeLevel t = Some l"
    using maximumTreeLevel_height by blast
  with 1 show ?case
    by (auto simp: Let_def)
qed simp_all

section \<open>The contracts of the collaborators\<close>

definition contiguous :: "nat \<Rightarrow> nat \<Rightarrow> BinaryNode list \<Rightarrow> bool" where
  "contiguous a b nodes \<longleftrightarrow> (\<exists>bs. bs \<noteq> [] \<and> hd bs = a \<and> last bs = b \<and> sorted_wrt (<) bs
     \<and> nodes = row_of pqt_node bs)"

text \<open>
  A storage coordinator may replace nodes of the row it is given after a level; \<open>holds c level row nodes\<close>
  says that from state \<open>c\<close> it can restore the \<open>row\<close> of this level from the nodes it left, and preparing
  the next level does so.  It may throw the errors of \<open>thr\<close>.
\<close>

locale merge_coordinator =
  fixes mc :: "'c BinaryMergeCoordinator option"
    and thr :: "cpp_error \<Rightarrow> bool"
    and inv :: "'c \<Rightarrow> bool"
    and holds :: "'c \<Rightarrow> u32 \<Rightarrow> BinaryNode list \<Rightarrow> BinaryNode list \<Rightarrow> bool"
  assumes observe: "mc = Some m \<Longrightarrow> contiguous a b row \<Longrightarrow> b < 2 ^ 64 \<Longrightarrow> inv c \<Longrightarrow>
      st_ok thr (observeResidentNodes m row level) c (\<lambda>_ c'. inv c' \<and> holds c' level row row)"
    and spill: "mc = Some m \<Longrightarrow> contiguous a b row \<Longrightarrow> b < 2 ^ 64 \<Longrightarrow> inv c \<Longrightarrow> holds c level row row \<Longrightarrow>
      st_ok thr (spillAfterMergeLevel m row level) c
        (\<lambda>nodes c'. length nodes = length row \<and> inv c' \<and> holds c' level row nodes)"
    and prepare: "mc = Some m \<Longrightarrow> contiguous a b row \<Longrightarrow> b < 2 ^ 64 \<Longrightarrow> inv c \<Longrightarrow> holds c level row nodes \<Longrightarrow>
      st_ok thr (prepareMergeNodes m nodes level) c (\<lambda>nodes' c'. nodes' = row \<and> inv c')"

text \<open>
  A checkpoint coordinator keeps its invariant when it commits a frontier: a contiguous row over the
  whole range with one tree level per node.
\<close>

locale checkpoint_coordinator =
  fixes kc :: "'k BinaryCheckpointCoordinator option"
    and thr :: "cpp_error \<Rightarrow> bool"
    and saved :: "nat \<Rightarrow> nat \<Rightarrow> 'k \<Rightarrow> bool"
  assumes commit: "kc = Some k \<Longrightarrow> contiguous a b row \<Longrightarrow> a < b \<Longrightarrow> b < 2 ^ 64 \<Longrightarrow> length levels = length row \<Longrightarrow>
      saved a b s \<Longrightarrow> st_ok thr (commitFrontier k row levels) s (\<lambda>_. saved a b)"

text \<open>Without a collaborator the contracts hold trivially: the code skips the calls.\<close>

interpretation no_storage: merge_coordinator None "\<lambda>_. False" "\<lambda>_. True" "\<lambda>_ _ row nodes. row = nodes"
  by unfold_locales simp_all

interpretation no_checkpoint: checkpoint_coordinator None "\<lambda>_. False" "\<lambda>_ _ _. True"
  by unfold_locales simp_all

section \<open>The stages\<close>

definition observer_terms :: "('o, 'c, 'k) split_env \<Rightarrow> size_t \<Rightarrow> 'o \<Rightarrow> 'o" where
  "observer_terms env terms x = (case env_observer env of None \<Rightarrow> x | Some ob \<Rightarrow> termsCompleted ob terms x)"

definition observer_level :: "('o, 'c, 'k) split_env \<Rightarrow> u32 \<Rightarrow> 'o \<Rightarrow> 'o" where
  "observer_level env level x = (case env_observer env of None \<Rightarrow> x | Some ob \<Rightarrow> mergeLevelStarted ob level x)"

lemma notify_terms_sel [simp]:
  "st_observer (notify_terms env terms s) = observer_terms env terms (st_observer s)"
  "st_coordinator (notify_terms env terms s) = st_coordinator s"
  "st_checkpoint (notify_terms env terms s) = st_checkpoint s"
  by (simp_all add: notify_terms_def observer_terms_def split: option.splits)

lemma notify_level_sel [simp]:
  "st_observer (notify_level env level s) = observer_level env level (st_observer s)"
  "st_coordinator (notify_level env level s) = st_coordinator s"
  "st_checkpoint (notify_level env level s) = st_checkpoint s"
  by (simp_all add: notify_level_def observer_level_def split: option.splits)

lemma on_coordinator_ok [simp]:
  "st_ok thr (on_coordinator m) s Q = st_ok thr m (st_coordinator s) (\<lambda>x c. Q x (s\<lparr>st_coordinator := c\<rparr>))"
  by (auto simp: st_ok_def on_coordinator_def split: prod.splits sum.splits)

lemma on_checkpoint_ok [simp]:
  "st_ok thr (on_checkpoint m) s Q = st_ok thr m (st_checkpoint s) (\<lambda>x k. Q x (s\<lparr>st_checkpoint := k\<rparr>))"
  by (auto simp: st_ok_def on_checkpoint_def split: prod.splits sum.splits)

lemma contiguous_bounds:
  assumes "sorted_wrt (<) (bs :: nat list)" and "bs \<noteq> []" and "b \<in> set bs"
  shows "hd bs \<le> b" "b \<le> last bs"
  using assms by (induction bs) (auto split: if_splits dest: less_imp_le)

lemma contiguous_single:
  assumes "contiguous a b row" and "a < b" and "\<not> 1 < length row"
  shows "row = [pqt_node a b]"
proof -
  obtain bs where bs: "bs \<noteq> []" "hd bs = a" "last bs = b" "row = row_of pqt_node bs"
    using assms(1) by (auto simp: contiguous_def)
  obtain x y where "bs = [x, y]"
    using bs assms(2,3) length_row_of [of pqt_node bs]
    by (cases bs; cases "tl bs"; cases "tl (tl bs)") auto
  with bs show ?thesis by simp
qed

text \<open>What the observer was told: completed terms, then merge levels from 0 on.\<close>

definition observer_log :: "('o, 'c, 'k) split_env \<Rightarrow> nat \<Rightarrow> 'o \<Rightarrow> 'o \<Rightarrow> bool" where
  "observer_log env n x y \<longleftrightarrow> (\<exists>counts k. sum_list (map unat counts) = n
     \<and> y = fold (observer_level env) (map of_nat [0..<k]) (fold (observer_terms env) counts x))"

locale split_run =
  gmp_library g + merge_coordinator "env_coordinator env" thr inv holds
    + checkpoint_coordinator "env_checkpoint env" thr saved
  for g :: gmp and env :: "('o, 'c, 'k) split_env" and thr inv holds saved
begin

definition parked :: "'c \<Rightarrow> u32 \<Rightarrow> BinaryNode list \<Rightarrow> BinaryNode list \<Rightarrow> bool" where
  "parked c level row nodes \<longleftrightarrow>
     (if env_coordinator env \<noteq> None \<and> 1 < length row
      then inv c \<and> length nodes = length row \<and> holds c level row nodes else nodes = row)"

lemma completeStage_ok:
  assumes row: "contiguous a b row" "a < b" "b < 2 ^ 64" and levels: "length levels = length row"
    and inv: "inv (st_coordinator s)" "saved a b (st_checkpoint s)"
  shows "st_ok thr (completeStage env level computed row levels) s (\<lambda>nodes s'.
    parked (st_coordinator s') level row nodes \<and> inv (st_coordinator s') \<and> saved a b (st_checkpoint s')
    \<and> st_observer s' = st_observer s)"
proof -
  have commit': "st_ok thr (if computed then commit_frontier env row levels else st_return ()) s'
      (\<lambda>_ s''. saved a b (st_checkpoint s'') \<and> st_coordinator s'' = st_coordinator s' \<and> st_observer s'' = st_observer s')"
    if "saved a b (st_checkpoint s')" for s'
    using that commit [OF _ row levels]
    by (auto simp: commit_frontier_def split: option.splits intro: st_ok_mono)
  show ?thesis
  proof (cases "env_coordinator env")
    case None
    show ?thesis
      unfolding completeStage_def
      using commit' [of s] inv by (auto simp: None parked_def elim!: st_ok_mono)
  next
    case (Some m)
    have sp: "st_ok thr (spillAfterMergeLevel m row level) c (\<lambda>nodes c'. length nodes = length row \<and> inv c' \<and> holds c' level row nodes)"
      if "inv c" "holds c level row row" for c
      using spill [OF Some row(1,3) that] .
    show ?thesis
      unfolding completeStage_def Some option.case st_ok_bind on_coordinator_ok
    proof (rule st_ok_mono [OF observe [OF Some row(1,3) inv(1)]], rule st_ok_mono [OF commit'])
      fix c u and s'' :: "('o, 'c, 'k) split_state"
      assume "inv c \<and> holds c level row row" and s'': "saved a b (st_checkpoint s'') \<and> st_coordinator s'' = st_coordinator (s\<lparr>st_coordinator := c\<rparr>)
        \<and> st_observer s'' = st_observer (s\<lparr>st_coordinator := c\<rparr>)"
      then show "st_ok thr (if 1 < length row then st_bind (on_coordinator (spillAfterMergeLevel m row level))
          (\<lambda>spilled. st_return (span_assign row spilled)) else st_return row) s''
        (\<lambda>nodes s'. parked (st_coordinator s') level row nodes \<and> inv (st_coordinator s') \<and> saved a b (st_checkpoint s')
          \<and> st_observer s' = st_observer s)"
        using sp [of c] by (auto simp: parked_def Some span_assign_same_length elim!: st_ok_mono)
    qed (use inv in simp)
  qed
qed

lemma mergePairs_ok:
  assumes "sorted_wrt (<) bs" and "\<forall>x\<in>set bs. x < 2 ^ 64" and ex: "executor_ok ex"
  shows "mergePairs g ex par level (row_of pqt_node bs) s = Some (Inr (row_of pqt_node (halve bs)), s)"
proof -
  define row where "row = row_of pqt_node bs"
  define row' where "row' = row_of pqt_node (halve bs)"
  define pairs where "pairs = length row div 2"
  have "\<forall>x\<in>set bs. x \<le> 2 ^ 64 - 1"
    using assms(2) by auto
  then have "merge_level (merge g) row = Inr row'"
    unfolding row_def row'_def using assms(1) by (rule pqt.merge_level_row [rotated])
  then have tasks: "row' = map ((!) row') [0..<pairs] @ (if length row mod 2 \<noteq> 0 then [last row] else [])"
    "\<forall>i < pairs. merge g (row ! (i * 2)) (row ! (i * 2 + 1)) = Inr (row' ! i)"
    using merge_level_tasks [of "merge g" row row'] by (simp_all add: pairs_def)
  have order: "mset (ex_order ex k pairs) = mset [0..<pairs]" for k
    using ex by (simp add: executor_ok_def)
  then have "set (ex_order ex k pairs) = {..<pairs}" for k
    by (metis atLeast_upt mset_eq_setD)
  then have vals: "\<forall>i\<in>set (ex_order ex k pairs). Some (merge g (row ! (i * 2)) (row ! (i * 2 + 1))) = Some (Inr (row' ! i))" for k
    using tasks(2) by auto
  have "fold (\<lambda>_ s. s) is s = s" for "is" :: "nat list"
    by (induction "is") simp_all
  then have "run_tasks accepted (\<lambda>i. i) (\<lambda>i. Some (merge g (row ! (i * 2)) (row ! (i * 2 + 1)))) (\<lambda>_ s. s)
      (ex_order ex k pairs) (replicate pairs None) s
    = Some (Inr (map (\<lambda>i. Some (Inr (row' ! i))) [0..<pairs]), s)" for accepted k
    by (simp only: run_tasks_ok [OF vals] fill_slots_order [OF order inj_on_id2] fill_slots_id)
  then show ?thesis
    unfolding mergePairs_def row_def [symmetric] row'_def [symmetric] pairs_def [symmetric] Let_def
    using tasks(1) by (simp add: p_bind_def)
qed

lemma mergeStage_ok:
  assumes row: "contiguous a b row" "a < b" "b < 2 ^ 64" "1 < length row" and ex: "executor_ok ex"
    and nodes: "parked (st_coordinator s) level row nodes" and levels: "length levels = length row"
    and inv: "inv (st_coordinator s)" "saved a b (st_checkpoint s)"
  shows "p_ok thr (mergeStage g ex env par terms level nodes levels) s (\<lambda>(nodes', levels') s'.
    \<exists>row'. contiguous a b row' \<and> length row' = (length row + 1) div 2 \<and> length levels' = length row'
      \<and> parked (st_coordinator s') (level + 1) row' nodes' \<and> inv (st_coordinator s') \<and> saved a b (st_checkpoint s')
      \<and> st_observer s' = observer_level env level (st_observer s))"
proof -
  obtain bs where bs: "bs \<noteq> []" "hd bs = a" "last bs = b" "sorted_wrt (<) bs" "row = row_of pqt_node bs"
    using row(1) by (auto simp: contiguous_def)
  define row' where "row' = row_of pqt_node (halve bs)"
  have "\<forall>x\<in>set bs. x < 2 ^ 64"
    using contiguous_bounds(2) [OF bs(4,1)] row(3) unfolding bs(3) by (blast intro: order.strict_trans1)
  then have pairs: "mergePairs g ex par (level + 1) row s' = Some (Inr row', s')" for s' :: "('o, 'c, 'k) split_state"
    unfolding bs(5) row'_def using bs(4) ex by (intro mergePairs_ok)
  have row': "contiguous a b row'" "length row' = (length row + 1) div 2"
    using bs row(4) sorted_halve [OF bs(4)]
    by (auto simp: contiguous_def row'_def length_row_of length_halve intro!: exI [of _ "halve bs"])
  obtain levels' where levels': "nextTreeLevels terms levels = Some levels'" "length levels' = length row'"
    using nextTreeLevels_ok [of terms levels] levels row'(2) by auto
  have prepared: "st_ok thr (case env_coordinator env of None \<Rightarrow> st_return nodes
      | Some m \<Rightarrow> st_bind (on_coordinator (prepareMergeNodes m nodes level)) (\<lambda>x. st_return (span_assign nodes x))) s
      (\<lambda>ns s'. ns = row \<and> inv (st_coordinator s') \<and> st_checkpoint s' = st_checkpoint s \<and> st_observer s' = st_observer s)"
  proof (cases "env_coordinator env")
    case (Some m)
    then have "length nodes = length row" "holds (st_coordinator s) level row nodes"
      using nodes row(4) by (simp_all add: parked_def)
    then show ?thesis
      using prepare [OF Some row(1,3) inv(1), of level nodes]
      by (auto simp: Some span_assign_same_length elim!: st_ok_mono)
  qed (use nodes inv in \<open>simp add: parked_def\<close>)
  have stage: "st_ok thr (completeStage env (level + 1) True row' levels') s' (\<lambda>nodes s''.
      parked (st_coordinator s'') (level + 1) row' nodes \<and> inv (st_coordinator s'') \<and> saved a b (st_checkpoint s'')
      \<and> st_observer s'' = st_observer s')"
    if "inv (st_coordinator s')" "saved a b (st_checkpoint s')" for s'
    using row'(1) row(2,3) levels'(2) that by (rule completeStage_ok)
  show ?thesis
    unfolding mergeStage_def p_ok_bind p_ok_lift
    using row' levels' inv
    by (auto simp: pairs p_ok_def [of thr "mergePairs g ex par (level + 1) row"] split: prod.splits
        intro!: st_ok_mono [OF prepared] st_ok_mono [OF stage] exI [of _ row'])
qed

lemma mergeLoop_ok:
  assumes "contiguous a b row" "a < b" "b < 2 ^ 64" "executor_ok ex"
    and "parked (st_coordinator s) level row nodes" "length levels = length row"
    and "inv (st_coordinator s)" "saved a b (st_checkpoint s)"
  shows "p_ok thr (mergeLoop g ex env par terms level nodes levels) s (\<lambda>nodes' s'.
    nodes' = [pqt_node a b] \<and> inv (st_coordinator s') \<and> saved a b (st_checkpoint s')
    \<and> (\<exists>k. st_observer s' = fold (observer_level env) (map (\<lambda>i. level + of_nat i) [0..<k]) (st_observer s)))"
  using assms
proof (induction "length row" arbitrary: row s nodes levels level rule: less_induct)
  case less
  have len: "length nodes = length row"
    using less.prems(5) by (auto simp: parked_def split: if_splits)
  show ?case
  proof (cases "1 < length row")
    case False
    then have "row = [pqt_node a b]"
      using less.prems by (intro contiguous_single)
    with False less.prems len show ?thesis
      unfolding p_ok_def by (subst mergeLoop.simps) (auto simp: parked_def intro: exI [of _ 0])
  next
    case True
    have unroll: "mergeLoop g ex env par terms level nodes levels
      = p_bind (mergeStage g ex env par terms level nodes levels)
          (\<lambda>(nodes, levels). mergeLoop g ex env par terms (level + 1) nodes levels)"
      using True len
      by (subst mergeLoop.simps [abs_def]) (auto simp: fun_eq_iff p_bind_def Option.bind_def
          split: option.splits prod.splits sum.splits)
    show ?thesis
      unfolding unroll p_ok_bind
    proof (rule p_ok_mono [OF mergeStage_ok [OF less.prems(1-3) True less.prems(4-8)]], clarsimp)
      fix nodes' and levels' :: "u32 list" and s' :: "('o, 'c, 'k) split_state" and row'
      assume step: "contiguous a b row'" "length row' = Suc (length row) div 2" "length levels' = Suc (length row) div 2"
        "parked (st_coordinator s') (level + 1) row' nodes'" "inv (st_coordinator s')" "saved a b (st_checkpoint s')"
        "st_observer s' = observer_level env level (st_observer s)"
      have "p_ok thr (mergeLoop g ex env par terms (level + 1) nodes' levels') s' (\<lambda>nodes'' s''.
        nodes'' = [pqt_node a b] \<and> inv (st_coordinator s'') \<and> saved a b (st_checkpoint s'')
        \<and> (\<exists>k. st_observer s'' = fold (observer_level env) (map (\<lambda>i. level + 1 + of_nat i) [0..<k]) (st_observer s')))"
        using step True less.prems(2-4) by (intro less.hyps [of row']) simp_all
      moreover have "fold (observer_level env) (map (\<lambda>i. level + 1 + of_nat i) [0..<k]) (observer_level env level x)
        = fold (observer_level env) (map (\<lambda>i. level + of_nat i) [0..<Suc k]) x" for k x
        by (simp add: upt_conv_Cons map_Suc_upt [symmetric] o_def add.assoc del: upt_Suc)
      ultimately show "p_ok thr (mergeLoop g ex env par terms (level + 1) nodes' levels') s' (\<lambda>nodes'' s''.
        nodes'' = [pqt_node a b] \<and> inv (st_coordinator s'') \<and> saved a b (st_checkpoint s'')
        \<and> (\<exists>k. st_observer s'' = fold (observer_level env) (map (\<lambda>i. level + of_nat i) [0..<k]) (st_observer s)))"
        unfolding step(7) by (elim p_ok_mono) metis
    qed
  qed
qed

text \<open>The leaf stage fills the slots of the layout.\<close>

lemma leafStage_ok:
  assumes lay: "layout_ok a b (slots, levels, pending)" and b: "b < 2 ^ 64" and ex: "executor_ok ex"
  obtains row where "contiguous a b row" "length levels = length row"
    "\<And>accepted eff s. run_tasks accepted (\<lambda>i. block_index (pending ! i))
       (\<lambda>i. splitSequentialValidated g (block_start (pending ! i)) (block_end (pending ! i))) eff
       (ex_order ex 0 (length pending)) slots s
     = Some (Inr (map (\<lambda>n. Some (Inr n)) row), fold eff (ex_order ex 0 (length pending)) s)"
proof -
  obtain bs where bs: "bs \<noteq> []" "hd bs = a" "last bs = b" "sorted_wrt (<) bs"
    "distinct (map block_index pending)" "length levels = length slots"
    "\<forall>p\<in>set pending. block_index p < length slots \<and> block_start p < block_end p"
    "fill_pending pending slots = map (\<lambda>n. Some (Inr n)) (row_of pqt_node bs)"
    using lay by (auto simp: layout_ok_def)
  let ?n = "length pending"
  let ?slot = "\<lambda>i. block_index (pending ! i)"
  let ?v = "\<lambda>i. pqt_node (unat (block_start (pending ! i))) (unat (block_end (pending ! i)))"
  have order: "mset (ex_order ex 0 ?n) = mset [0..<?n]"
    using ex by (simp add: executor_ok_def)
  then have "set (ex_order ex 0 ?n) = {..<?n}"
    by (metis atLeast_upt mset_eq_setD)
  then have vals: "\<forall>i\<in>set (ex_order ex 0 ?n).
      splitSequentialValidated g (block_start (pending ! i)) (block_end (pending ! i)) = Some (Inr (?v i))"
    using bs(7) by (auto intro: splitSequentialValidated_eq)
  have inj: "inj_on ?slot {..<?n}"
    using bs(5) by (auto simp: inj_on_def distinct_conv_nth)
  have "fill_slots ?slot ?v [0..<?n] slots = fill_pending (map ((!) pending) [0..<?n]) slots"
    unfolding fill_slots_def fill_pending_def fold_map by (simp add: o_def)
  then have filled: "fill_slots ?slot ?v (ex_order ex 0 ?n) slots = map (\<lambda>n. Some (Inr n)) (row_of pqt_node bs)"
    using bs(8) by (simp add: fill_slots_order [OF order inj] map_nth)
  show thesis
  proof (rule that [of "row_of pqt_node bs"])
    show "contiguous a b (row_of pqt_node bs)"
      using bs(1-4) by (auto simp: contiguous_def)
    show "length levels = length (row_of pqt_node bs)"
      using bs(6,8) length_fill_pending [of pending slots] by (metis length_map)
  qed (simp only: run_tasks_ok [OF vals] filled)
qed

lemma fold_notify_terms:
  fixes s :: "('o, 'c, 'k) split_state"
  shows "st_observer (fold (\<lambda>i. notify_terms env (f i)) is s) = fold (observer_terms env) (map f is) (st_observer s)"
    "st_coordinator (fold (\<lambda>i. notify_terms env (f i)) is s) = st_coordinator s"
    "st_checkpoint (fold (\<lambda>i. notify_terms env (f i)) is s) = st_checkpoint s"
  by (induction "is" arbitrary: s) simp_all

lemma splitInline_ok:
  assumes se: "s < e" and inv: "inv (st_coordinator st)" "saved (unat s) (unat e) (st_checkpoint st)"
  shows "p_ok thr (splitInline g env s e) st (\<lambda>node st'.
    node = pqt_node (unat s) (unat e) \<and> saved (unat s) (unat e) (st_checkpoint st')
    \<and> inv (st_coordinator st') \<and> observer_log env (unat e - unat s) (st_observer st) (st_observer st'))"
proof -
  have lt: "unat s < unat e" "unat e < 2 ^ 64"
    using se unat_u64_less [of e] by (simp_all add: word_less_nat_alt)
  have "contiguous (unat s) (unat e) [pqt_node (unat s) (unat e)]"
    using lt by (auto simp: contiguous_def intro!: exI [of _ "[unat s, unat e]"])
  then have c: "st_ok thr (commit_frontier env [pqt_node (unat s) (unat e)] [0]) s'
      (\<lambda>_ s''. saved (unat s) (unat e) (st_checkpoint s'') \<and> st_coordinator s'' = st_coordinator s'
        \<and> st_observer s'' = st_observer s')"
    if "saved (unat s) (unat e) (st_checkpoint s')" for s'
    using that commit [OF _ _ lt, of _ "[pqt_node (unat s) (unat e)]" "[0]"]
    by (auto simp: commit_frontier_def split: option.splits intro: st_ok_mono)
  have "observer_log env (unat e - unat s) x (observer_terms env (e - s) x)" for x
    using se by (auto simp: observer_log_def unat_sub_le intro!: exI [of _ "[e - s]"] exI [of _ 0])
  then show ?thesis
    unfolding splitInline_def using inv
    by (auto simp: splitSequentialValidated_eq [OF se] intro!: st_ok_mono [OF c])
qed

lemma splitStaged_ok:
  assumes se: "s < e" and opts: "sequentialCutoff options \<noteq> 0" "tasksPerWorker options \<noteq> 0"
    and par: "par \<Longrightarrow> ex_workerCount ex \<noteq> 0" and ex: "executor_ok ex"
    and seeds: "validateFrontier g s e s seeds = Inr ()" "seeds_ok seeds"
    and inv: "inv (st_coordinator st)" "saved (unat s) (unat e) (st_checkpoint st)"
  shows "p_ok thr (splitStaged g ex options env par s e seeds) st (\<lambda>node st'.
    node = pqt_node (unat s) (unat e) \<and> saved (unat s) (unat e) (st_checkpoint st')
    \<and> inv (st_coordinator st')
    \<and> observer_log env (unat e - unat s - seed_terms seeds) (st_observer st) (st_observer st'))"
proof -
  have lt: "unat s < unat e" "unat e < 2 ^ 64"
    using se unat_u64_less [of e] by (simp_all add: word_less_nat_alt)
  obtain slots levels pending where layout: "layoutFrontier ex options par e s seeds ([], [], []) = (slots, levels, pending)"
    by (metis prod_cases3)
  have lay: "layout_ok (unat s) (unat e) (slots, levels, pending)"
    and "pending_terms pending + seed_terms seeds = unat e - unat s"
    using layout_ok_frontier [OF seeds layout_ok_Nil _ opts, of par ex] par se layout
    by (auto simp: pending_terms_def)
  then have terms: "pending_terms pending = unat e - unat s - seed_terms seeds"
    by linarith
  obtain row where row: "contiguous (unat s) (unat e) row" "length levels = length row"
    and run: "\<And>accepted eff (s :: ('o, 'c, 'k) split_state). run_tasks accepted (\<lambda>i. block_index (pending ! i))
       (\<lambda>i. splitSequentialValidated g (block_start (pending ! i)) (block_end (pending ! i))) eff
       (ex_order ex 0 (length pending)) slots s
     = Some (Inr (map (\<lambda>n. Some (Inr n)) row), fold eff (ex_order ex 0 (length pending)) s)"
    by (rule leafStage_ok [OF lay lt(2) ex]) (rule that)
  define size where "size i = block_end (pending ! i) - block_start (pending ! i)" for i
  define st1 where "st1 = fold (\<lambda>i. notify_terms env (size i)) (ex_order ex 0 (length pending)) st"
  have st1: "inv (st_coordinator st1)" "saved (unat s) (unat e) (st_checkpoint st1)"
    "st_observer st1 = fold (observer_terms env) (map size (ex_order ex 0 (length pending))) (st_observer st)"
    using inv by (simp_all add: st1_def fold_notify_terms)
  have blocks: "\<forall>p\<in>set pending. block_start p < block_end p"
    using lay by (auto simp: layout_ok_def)
  have "mset (ex_order ex 0 (length pending)) = mset [0..<length pending]"
    using ex by (simp add: executor_ok_def)
  then have "mset (map (\<lambda>i. unat (size i)) (ex_order ex 0 (length pending)))
      = mset (map (\<lambda>i. unat (size i)) [0..<length pending])"
    by simp
  then have "sum_list (map (\<lambda>i. unat (size i)) (ex_order ex 0 (length pending)))
      = sum_list (map (\<lambda>i. unat (size i)) [0..<length pending])"
    by (metis sum_mset_sum_list)
  also have "\<dots> = sum_list (map (\<lambda>p. unat (block_end p) - unat (block_start p)) (map ((!) pending) [0..<length pending]))"
    unfolding map_map o_def
    using blocks by (intro arg_cong [of _ _ sum_list] map_cong) (auto simp: size_def less_imp_le intro!: unat_sub_le)
  finally have counts: "sum_list (map unat (map size (ex_order ex 0 (length pending)))) = pending_terms pending"
    by (simp add: map_nth pending_terms_def o_def)
  have slots: "waitForStage (map (\<lambda>n. Some (Inr n)) row) = Inr ()"
    "take_values (map (\<lambda>n. Some (Inr n)) row) = Inr row"
    using waitForStage_ok [of "\<lambda>x. x" row] take_values_ok [of "\<lambda>x. x" row] by simp_all
  have log: "observer_log env (unat e - unat s - seed_terms seeds) (st_observer st)
      (fold (observer_level env) (map (\<lambda>i. 0 + of_nat i) [0..<k]) (st_observer st1))" for k
    unfolding observer_log_def st1(3) add_0 using counts terms by metis
  have merge_ok: "p_ok thr (mergeLoop g ex env par (e - s) 0 nodes levels) st2 (\<lambda>nodes' s'.
      hd nodes' = pqt_node (unat s) (unat e) \<and> saved (unat s) (unat e) (st_checkpoint s')
      \<and> inv (st_coordinator s')
      \<and> observer_log env (unat e - unat s - seed_terms seeds) (st_observer st) (st_observer s'))"
    if "parked (st_coordinator st2) 0 row nodes \<and> inv (st_coordinator st2)
      \<and> saved (unat s) (unat e) (st_checkpoint st2) \<and> st_observer st2 = st_observer st1" for nodes st2
    using that log by (intro p_ok_mono [OF mergeLoop_ok [OF row(1) lt ex _ row(2)]]) auto
  show ?thesis
    unfolding splitStaged_def layout Let_def prod.case p_ok_bind size_def [symmetric]
  proof (rule p_ok_Some [OF run], fold st1_def, unfold slots p_ok_lift st_ok_lift st_ok_return)
    show "st_ok thr (completeStage env 0 (pending \<noteq> []) row levels) st1
      (\<lambda>nodes s'. p_ok thr (mergeLoop g ex env par (e - s) 0 nodes levels) s' (\<lambda>nodes s'.
        hd nodes = pqt_node (unat s) (unat e) \<and> saved (unat s) (unat e) (st_checkpoint s')
        \<and> inv (st_coordinator s')
        \<and> observer_log env (unat e - unat s - seed_terms seeds) (st_observer st) (st_observer s')))"
      by (rule st_ok_mono [OF completeStage_ok [OF row(1) lt row(2) st1(1,2)] merge_ok])
  qed
qed

lemma splitParallel_ok:
  assumes se: "s < e" and opts: "sequentialCutoff options \<noteq> 0" "tasksPerWorker options \<noteq> 0"
    and ex: "executor_ok ex" and frontier: "sortAndValidateFrontier g frontier s e = Inr seeds" "seeds_ok seeds"
    and inv: "inv (st_coordinator st)" "saved (unat s) (unat e) (st_checkpoint st)"
  shows "p_ok thr (splitParallel g ex options env s e frontier) st (\<lambda>node st'.
    node = pqt_node (unat s) (unat e) \<and> saved (unat s) (unat e) (st_checkpoint st')
    \<and> inv (st_coordinator st')
    \<and> observer_log env (unat e - unat s - seed_terms seeds) (st_observer st) (st_observer st'))"
proof -
  have valid: "validateFrontier g s e s seeds = Inr ()"
    using frontier(1) by (auto simp: sortAndValidateFrontier_def Let_def res_elim)
  have par: "acceptsStagedWork ex \<Longrightarrow> ex_workerCount ex \<noteq> 0"
    by (simp add: acceptsStagedWork_def)
  have range: "validateRange s e = Inr ()"
    using se by (simp add: validateRange_def not_le)
  show ?thesis
    using splitInline_ok [OF se inv] splitStaged_ok [OF se opts par ex valid frontier(2) inv]
    by (auto simp: splitParallel_def range frontier(1) opts Let_def seed_terms_def)
qed

end

section \<open>Frontier validation\<close>

lemma validateFrontier_Inr:
  "validateFrontier g s e c seeds = Inr () \<longleftrightarrow>
     (\<forall>x\<in>set seeds. node_start (seed_node x) < node_end (seed_node x) \<and> s \<le> node_start (seed_node x)
        \<and> node_end (seed_node x) \<le> e \<and> c \<le> node_start (seed_node x) \<and> hasValues g (seed_node x))
     \<and> sorted_wrt (\<lambda>x y. node_end (seed_node x) \<le> node_start (seed_node y)) seeds"
proof (induction seeds arbitrary: c)
  case (Cons x seeds)
  have "c \<le> node_start (seed_node y)" if "c \<le> node_start (seed_node x)"
    "node_start (seed_node x) < node_end (seed_node x)" "node_end (seed_node x) \<le> node_start (seed_node y)" for y
    using that by (meson order.trans less_imp_le)
  then show ?case
    by (auto simp: Cons.IH res_elim Let_def not_le not_less)
qed simp

section \<open>Properties\<close>

text \<open>
  C3: The staged parallel split is the sequential split.  For every scheduler (whatever tasks it
  accepts and in whatever order they run), every validated frontier of correct seeds, and every
  storage and checkpoint coordinator that keeps its contract, the split returns; an exception is one
  a coordinator may throw; a result is the node the sequential split computes; and the observer was
  told of exactly the terms no seed covers, then of the merge levels from 0 on.
\<close>

theorem splitParallel_sequential:
  assumes "gmp_library g" and "merge_coordinator (env_coordinator env) thr cinv holds"
    and "checkpoint_coordinator (env_checkpoint env) thr saved" and "executor_ok ex"
    and "s < e" and "sequentialCutoff options \<noteq> 0" and "tasksPerWorker options \<noteq> 0"
    and "sortAndValidateFrontier g frontier s e = Inr seeds" and "seeds_ok seeds"
    and "cinv (st_coordinator st)" and "saved (unat s) (unat e) (st_checkpoint st)"
  shows "\<exists>r st'. splitParallel g ex options env s e frontier st = Some (r, st')
    \<and> (\<forall>err. r = Inl err \<longrightarrow> thr err)
    \<and> (\<forall>node. r = Inr node \<longrightarrow> splitSequential g s e = Some (Inr node)
         \<and> saved (unat s) (unat e) (st_checkpoint st')
         \<and> observer_log env (unat e - unat s - seed_terms seeds) (st_observer st) (st_observer st'))"
  using p_okD [OF split_run.splitParallel_ok [OF split_run.intro [OF assms(1-3)] assms(5-7,4,8-11)]] assms(5)
  by (fastforce simp: gmp_library.splitSequential_eq [OF assms(1)])

text \<open>A scheduler of two workers that accepts every task and runs each stage backwards.\<close>

definition reversed_executor :: executor where
  "reversed_executor = \<lparr>ex_running = True, ex_workerCount = 2, ex_ownsCurrentWorker = False,
     ex_submit_valid = (\<lambda>_ _. True), ex_order = (\<lambda>_ n. rev [0..<n])\<rparr>"

definition counting_env :: "(nat \<times> u32 list, unit, unit) split_env" where
  "counting_env = \<lparr>env_observer = Some \<lparr>termsCompleted = (\<lambda>n (k, ls). (k + unat n, ls)),
     mergeLevelStarted = (\<lambda>l (k, ls). (k, ls @ [l]))\<rparr>, env_coordinator = None, env_checkpoint = None\<rparr>"

theorem splitParallel_sequential_witness:
  "\<exists>node st'. splitParallel gmp_ref reversed_executor \<lparr>sequentialCutoff = 1, tasksPerWorker = 4\<rparr> counting_env 0 5
      [\<lparr>seed_node = pqt_node 1 3, seed_treeLevel = 1\<rparr>]
      \<lparr>st_observer = (0, []), st_coordinator = (), st_checkpoint = ()\<rparr> = Some (Inr node, st')
    \<and> splitSequential gmp_ref 0 5 = Some (Inr node)"
proof -
  let ?seed = "\<lparr>seed_node = pqt_node 1 3, seed_treeLevel = 1\<rparr>"
  have seed: "unat (node_start (pqt_node 1 3)) = 1" "unat (node_end (pqt_node 1 3)) = 3"
    by (simp_all add: pqt_node_def)
  have "node_Q (pqt_node 1 3) \<noteq> 0"
    using range_Q_pos [of 1 3] by (simp add: pqt_node_def)
  then have "sortAndValidateFrontier gmp_ref [?seed] 0 5 = Inr [?seed]"
    using seed by (auto simp: sortAndValidateFrontier_def validateFrontier_Inr
        gmp_ref.hasValues_iff word_less_nat_alt word_le_nat_alt throw_if_def Let_def)
  moreover have "executor_ok reversed_executor"
    by (simp add: executor_ok_def reversed_executor_def)
  moreover have "merge_coordinator (env_coordinator counting_env) (\<lambda>_. False) (\<lambda>_. True) (\<lambda>_ _ row nodes. row = nodes)"
    "checkpoint_coordinator (env_checkpoint counting_env) (\<lambda>_. False) (\<lambda>_ _ _. True)"
    by (simp_all add: counting_env_def no_storage.merge_coordinator_axioms no_checkpoint.checkpoint_coordinator_axioms)
  ultimately obtain r st' where "splitParallel gmp_ref reversed_executor \<lparr>sequentialCutoff = 1, tasksPerWorker = 4\<rparr>
      counting_env 0 5 [?seed] \<lparr>st_observer = (0, []), st_coordinator = (), st_checkpoint = ()\<rparr> = Some (r, st')"
    "\<forall>err. r \<noteq> Inl err" "\<forall>node. r = Inr node \<longrightarrow> splitSequential gmp_ref 0 5 = Some (Inr node)"
    using splitParallel_sequential [OF gmp_ref.gmp_library_axioms, of counting_env "\<lambda>_. False" "\<lambda>_. True"
        "\<lambda>_ _ row nodes. row = nodes" "\<lambda>_ _ _. True" reversed_executor 0 5
        "\<lparr>sequentialCutoff = 1, tasksPerWorker = 4\<rparr>" "[?seed]" "[?seed]"
        "\<lparr>st_observer = (0, []), st_coordinator = (), st_checkpoint = ()\<rparr>"] seed
    by (auto simp: seeds_ok_def)
  then show ?thesis
    by (cases r) auto
qed

text \<open>
  A frontier is accepted exactly when its seeds, sorted by start, are non-empty resident ranges
  inside the split range that do not overlap; every other frontier is rejected before any work.
\<close>

theorem sortAndValidateFrontier_exact:
  "sortAndValidateFrontier g frontier s e = Inr seeds \<longleftrightarrow>
     seeds = sort_key (\<lambda>x. node_start (seed_node x)) frontier
     \<and> (\<forall>x\<in>set frontier. node_start (seed_node x) < node_end (seed_node x) \<and> s \<le> node_start (seed_node x)
        \<and> node_end (seed_node x) \<le> e \<and> hasValues g (seed_node x))
     \<and> sorted_wrt (\<lambda>x y. node_end (seed_node x) \<le> node_start (seed_node y)) seeds"
  by (auto simp: sortAndValidateFrontier_def Let_def res_elim validateFrontier_Inr)

theorem sortAndValidateFrontier_exact_witness:
  "sortAndValidateFrontier gmp_ref
     [\<lparr>seed_node = pqt_node 3 4, seed_treeLevel = 0\<rparr>, \<lparr>seed_node = pqt_node 1 2, seed_treeLevel = 0\<rparr>] 0 5
   = Inr [\<lparr>seed_node = pqt_node 1 2, seed_treeLevel = 0\<rparr>, \<lparr>seed_node = pqt_node 3 4, seed_treeLevel = 0\<rparr>]"
proof -
  have "hasValues gmp_ref (pqt_node 1 2)" "hasValues gmp_ref (pqt_node 3 4)"
    using range_Q_pos [of 1 2] range_Q_pos [of 3 4] by (auto simp: gmp_ref.hasValues_iff pqt_node_def)
  then show ?thesis
    unfolding sortAndValidateFrontier_exact by (simp add: pqt_node_def word_le_nat_alt)
qed

text \<open>
  C11: The tree level bound of a split is the height of a binary tree over its terms: the loop
  returns the least level whose capacity reaches the term count, also next to the largest 64-bit
  count, where doubling would wrap around.
\<close>

theorem maximumTreeLevel_least:
  "\<exists>l. maximumTreeLevel t = Some l \<and> (\<forall>k. unat t \<le> 2 ^ k \<longleftrightarrow> unat l \<le> k)"
proof -
  obtain l where l: "maximumTreeLevel t = Some l" "unat t \<le> 2 ^ unat l" "unat l = 0 \<or> 2 ^ (unat l - 1) < unat t"
    using maximumTreeLevel_height by blast
  have "unat l \<le> k" if "unat t \<le> 2 ^ k" for k
  proof (rule ccontr)
    assume "\<not> unat l \<le> k"
    then have "(2 :: nat) ^ k \<le> 2 ^ (unat l - 1)"
      by (intro power_increasing) simp_all
    with l(3) that \<open>\<not> unat l \<le> k\<close> show False by linarith
  qed
  moreover have "unat t \<le> 2 ^ k" if "unat l \<le> k" for k
    using l(2) power_increasing [OF that, of "2 :: nat"] by linarith
  ultimately show ?thesis
    using l(1) by blast
qed

end
