(* ===== verification/Chudnovsky_Parallel.thy ===== *)
theory Chudnovsky_Parallel
  imports Chudnovsky_Calculator Binary_Parallel_Correct
begin

text \<open>
  The parallel calculation of \<open>ChudnovskyCalculator\<close>: the staged split with the tracker as its
  observer, and what both calculations leave in the tracker, in success and in failure.
\<close>

section \<open>Operations\<close>

text \<open>
  The observer forwards to the tracker; a merge level never enters a terminal phase, so the clock
  value of its transition is not used.
\<close>

definition tracker_observer :: "int \<Rightarrow> TrackerSplitObserver BinarySplitObserver" where
  "tracker_observer now =
     \<lparr>termsCompleted = observer_termsCompleted, mergeLevelStarted = observer_mergeLevelStarted now\<rparr>"

definition calculateParallel ::
  "gmp \<Rightarrow> (nat \<Rightarrow> int) \<Rightarrow> executor \<Rightarrow> ParallelSplitOptions \<Rightarrow> 'c BinaryMergeCoordinator option
   \<Rightarrow> 'k BinaryCheckpointCoordinator option \<Rightarrow> PiCalculationRequest \<Rightarrow> BinaryFrontierNode list
   \<Rightarrow> (ProgressTracker option \<times> 'c \<times> 'k, PiCalculationResult) paction" where
  "calculateParallel g clk ex splitOptions mc kc request initialFrontier s =
     (case s of (tracker, c, k) \<Rightarrow>
      case startCalculation clk request tracker of
        (Inl e, tracker) \<Rightarrow> Some (Inl e, (tracker, c, k))
      | (Inr precision, tracker) \<Rightarrow>
          Option.bind (splitParallel g ex splitOptions
              \<lparr>env_observer = Some (tracker_observer (clk 1)), env_coordinator = mc, env_checkpoint = kc\<rparr>
              0 (termCount precision) initialFrontier
              \<lparr>st_observer = \<lparr>obs_tracker = tracker, obs_merging = False\<rparr>,
               st_coordinator = c, st_checkpoint = k\<rparr>) (\<lambda>(node, st).
            case finishCalculation g clk request precision node (obs_tracker (st_observer st)) of
            (r, tracker) \<Rightarrow> Some (r, (tracker, st_coordinator st, st_checkpoint st))))"

section \<open>The tracker through a calculation\<close>

definition tracker_working :: "ProgressWorkPlan \<Rightarrow> int \<Rightarrow> ProgressTracker \<Rightarrow> bool" where
  "tracker_working plan t tr \<longleftrightarrow> tracker_inv tr \<and> tr_plan tr = plan \<and> tr_startedAt tr = t
     \<and> (tr_phase tr = splitting \<or> tr_phase tr = merging)"

definition tracker_ready :: "PrecisionPlan \<Rightarrow> int \<Rightarrow> ProgressTracker \<Rightarrow> bool" where
  "tracker_ready precision t tr \<longleftrightarrow> tracker_inv tr \<and> tr_startedAt tr = t
     \<and> plan_targetDigits (tr_plan tr) = requestedDigits precision
     \<and> plan_totalTerms (tr_plan tr) = termCount precision
     \<and> (tr_phase tr = initializing \<or> tr_phase tr = validatingCheckpoints)"

definition tracker_finished :: "PrecisionPlan \<Rightarrow> bool \<Rightarrow> ProgressTracker \<Rightarrow> bool" where
  "tracker_finished precision defer tr \<longleftrightarrow> tr_completedTerms tr = termCount precision
     \<and> tr_currentMergeLevel tr = None \<and> tr_failureDetail tr = None
     \<and> tr_phase tr = (if defer then finalizing else completed)"

lemma beginProgress_ready:
  assumes "tracker_ready precision t tr" and "t \<le> now"
  shows "\<exists>tr'. beginProgress now precision (Some tr) = (Inr (), Some tr')
    \<and> tracker_working (tr_plan tr) t tr' \<and> plan_totalTerms (tr_plan tr) = termCount precision"
  using assms snapshot_ok [of tr now]
  by (auto simp: tracker_ready_def beginProgress_def st_bind_def enter_phase_def transitionTo_def
      isValidTransition_def isTerminal_def tracker_working_def tracker_inv_def Let_def)

lemma observer_working:
  assumes "obs_tracker ob = Some tr" and "tracker_working plan t tr" and "obs_merging ob \<longrightarrow> tr_phase tr = merging"
  shows "\<exists>tr'. obs_tracker (observer_termsCompleted n ob) = Some tr' \<and> tracker_working plan t tr'
      \<and> (obs_merging (observer_termsCompleted n ob) \<longrightarrow> tr_phase tr' = merging)"
    "\<exists>tr'. obs_tracker (observer_mergeLevelStarted now l ob) = Some tr' \<and> tracker_working plan t tr'
      \<and> (obs_merging (observer_mergeLevelStarted now l ob) \<longrightarrow> tr_phase tr' = merging)"
proof -
  have inv: "tracker_inv tr"
    using assms(2) by (simp add: tracker_working_def)
  obtain terms where "snd (addCompletedTerms n tr) = tr\<lparr>tr_completedTerms := terms\<rparr>"
    using addCompletedTerms_cases [OF inv, of n] by blast
  then show "\<exists>tr'. obs_tracker (observer_termsCompleted n ob) = Some tr' \<and> tracker_working plan t tr'
      \<and> (obs_merging (observer_termsCompleted n ob) \<longrightarrow> tr_phase tr' = merging)"
    using assms tracker_inv_terms [OF inv, of n]
    by (auto simp: observer_termsCompleted_def tracker_working_def)
  show "\<exists>tr'. obs_tracker (observer_mergeLevelStarted now l ob) = Some tr' \<and> tracker_working plan t tr'
      \<and> (obs_merging (observer_mergeLevelStarted now l ob) \<longrightarrow> tr_phase tr' = merging)"
    using assms
    by (auto simp: observer_mergeLevelStarted_def tracker_working_def transitionTo_def isValidTransition_def
        isTerminal_def setCurrentMergeLevel_def tracker_inv_def Let_def split: if_splits)
qed

definition observing :: "ProgressWorkPlan \<Rightarrow> int \<Rightarrow> TrackerSplitObserver \<Rightarrow> bool" where
  "observing plan t ob \<longleftrightarrow> (\<exists>tr. obs_tracker ob = Some tr \<and> tracker_working plan t tr
     \<and> (obs_merging ob \<longrightarrow> tr_phase tr = merging))"

lemma observing_log:
  assumes env: "env_observer env = Some (tracker_observer now)" and "observing plan t x" and "observer_log env n x y"
  shows "observing plan t y"
proof -
  have terms: "observing plan t x \<Longrightarrow> observing plan t (fold (observer_terms env) counts x)" for counts x
    using observer_working(1)
    by (induction counts arbitrary: x) (fastforce simp: observer_terms_def env tracker_observer_def observing_def)+
  have levels: "observing plan t x \<Longrightarrow> observing plan t (fold (observer_level env) ls x)" for ls x
    using observer_working(2)
    by (induction ls arbitrary: x) (fastforce simp: observer_level_def env tracker_observer_def observing_def)+
  show ?thesis
    using assms(2,3) terms levels by (auto simp: observer_log_def)
qed

lemma no_tracker_log:
  assumes env: "env_observer env = Some (tracker_observer now)" and "obs_tracker x = None" and "observer_log env n x y"
  shows "obs_tracker y = None"
proof -
  have terms: "obs_tracker x = None \<Longrightarrow> obs_tracker (fold (observer_terms env) counts x) = None" for counts x
    by (induction counts arbitrary: x) (simp_all add: observer_terms_def env tracker_observer_def observer_termsCompleted_def)
  have levels: "obs_tracker x = None \<Longrightarrow> obs_tracker (fold (observer_level env) ls x) = None" for ls x
    by (induction ls arbitrary: x) (simp_all add: observer_level_def env tracker_observer_def observer_mergeLevelStarted_def)
  show ?thesis
    using assms(2,3) terms levels by (auto simp: observer_log_def)
qed

lemma completeTerms_working:
  assumes "tracker_working plan t tr" and "t \<le> now"
  shows "\<exists>tr'. completeTerms now (plan_totalTerms plan) (Some tr) = (Inr (), Some tr')
    \<and> tracker_working plan t tr' \<and> tr_completedTerms tr' = plan_totalTerms plan"
proof -
  have inv: "tracker_inv tr" "tr_plan tr = plan" "tr_startedAt tr = t" "isRunning tr"
    using assms(1) by (auto simp: tracker_working_def isRunning_def isTerminal_def)
  have le: "tr_completedTerms tr \<le> plan_totalTerms plan"
    using inv by (simp add: tracker_inv_def)
  have "addCompletedTerms (plan_totalTerms plan - tr_completedTerms tr) tr
      = (True, tr\<lparr>tr_completedTerms := plan_totalTerms plan\<rparr>)"
    using inv by (simp add: addCompletedTerms_def addWithinLimit_def)
  then show ?thesis
    using inv assms le snapshot_ok [of tr now]
    by (auto simp: completeTerms_def st_bind_def not_less [symmetric] setTaskCounts_def tracker_working_def
        isRunning_def tracker_inv_def Let_def)
qed

lemma makeResult_working:
  assumes "tracker_working plan t tr" and "tr_completedTerms tr = plan_totalTerms plan"
    and "plan_totalTerms plan = termCount precision"
    and "finalizeFixedPoint g node precision = Inr r" and "formatDecimal g r precision = Inr dec"
  shows "\<exists>tr'. makeResult g clk precision node dt defer (Some tr) =
      (Inr \<lparr>res_precision = precision, res_decimal = dec, res_timings = \<lparr>time_split = dt,
         time_finalize = clk 5 - clk 4, time_format = clk 6 - clk 5\<rparr>\<rparr>, Some tr')
    \<and> tracker_finished precision defer tr'"
  using assms
  by (auto simp: makeResult_def st_bind_def enter_phase_def transitionTo_def isValidTransition_def
      isTerminal_def clearCurrentMergeLevel_def tracker_working_def tracker_finished_def tracker_inv_def Let_def)

lemma finish_tracked:
  assumes "tracker_working plan t tr" and "plan_totalTerms plan = termCount precision" and "t \<le> clk 3"
    and "finalizeFixedPoint g node precision = Inr r" and "formatDecimal g r precision = Inr dec"
  shows "\<exists>tr'. st_bind (completeTerms (clk 3) (termCount precision))
      (\<lambda>_. makeResult g clk precision node dt defer) (Some tr) =
      (Inr \<lparr>res_precision = precision, res_decimal = dec, res_timings = \<lparr>time_split = dt,
         time_finalize = clk 5 - clk 4, time_format = clk 6 - clk 5\<rparr>\<rparr>, Some tr')
    \<and> tracker_finished precision defer tr'"
proof -
  obtain tr1 where "completeTerms (clk 3) (termCount precision) (Some tr) = (Inr (), Some tr1)"
    "tracker_working plan t tr1" "tr_completedTerms tr1 = plan_totalTerms plan"
    using completeTerms_working [OF assms(1,3)] unfolding assms(2) by blast
  with makeResult_working [OF this(2,3) assms(2,4,5)] show ?thesis
    by (simp add: st_bind_def)
qed

section \<open>Failures\<close>

text \<open>
  \<open>fails_running m\<close>: when the step throws, a tracker that had not ended before still has not;
  \<open>keeps_running m\<close>: nor when it returns.
\<close>

definition running_tracker :: "ProgressTracker option \<Rightarrow> bool" where
  "running_tracker t \<longleftrightarrow> (\<exists>tr. t = Some tr \<and> \<not> isTerminal (tr_phase tr))"

definition keeps_running :: "(ProgressTracker option, 'a) action \<Rightarrow> bool" where
  "keeps_running m \<longleftrightarrow> (\<forall>t r t'. running_tracker t \<longrightarrow> m t = (r, t') \<longrightarrow> running_tracker t')"

definition fails_running :: "(ProgressTracker option, 'a) action \<Rightarrow> bool" where
  "fails_running m \<longleftrightarrow> (\<forall>t e t'. running_tracker t \<longrightarrow> m t = (Inl e, t') \<longrightarrow> running_tracker t')"

lemma fails_running_bind:
  assumes "keeps_running m" and "\<And>x. fails_running (f x)"
  shows "fails_running (st_bind m f)"
  unfolding fails_running_def
proof (intro allI impI)
  fix t e t'
  assume t: "running_tracker t" and "st_bind m f t = (Inl e, t')"
  obtain r t1 where m: "m t = (r, t1)" by fastforce
  then have "running_tracker t1"
    using assms(1) t unfolding keeps_running_def by blast
  then show "running_tracker t'"
    using m \<open>st_bind m f t = (Inl e, t')\<close> assms(2) unfolding fails_running_def
    by (cases r) (auto simp: st_bind_def)
qed

lemma fails_running_last: "fails_running m \<Longrightarrow> fails_running (st_bind m (\<lambda>x. st_return (f x)))"
  unfolding fails_running_def st_bind_def by (auto split: prod.splits sum.splits)

lemma keeps_running_lift: "keeps_running (st_lift r)" "keeps_running (st_return x)" "keeps_running (st_throw_if c e)"
  by (auto simp: keeps_running_def)

lemma keeps_imp_fails: "keeps_running m \<Longrightarrow> fails_running m"
  by (auto simp: keeps_running_def fails_running_def)

lemma keeps_running_enter: "\<not> isTerminal p \<Longrightarrow> keeps_running (enter_phase p now msg)"
  by (auto simp: keeps_running_def running_tracker_def enter_phase_def transitionTo_def Let_def split: if_splits)

lemma fails_running_enter: "fails_running (enter_phase p now msg)"
  by (auto simp: fails_running_def running_tracker_def enter_phase_def transitionTo_def Let_def split: if_splits)

lemma keeps_running_complete: "keeps_running (completeTerms now n)"
  by (auto simp: keeps_running_def running_tracker_def completeTerms_def st_bind_def addCompletedTerms_def
      setTaskCounts_def Let_def split: if_splits sum.splits prod.splits)

lemma keeps_running_begin: "keeps_running (beginProgress now precision)"
  by (auto simp: keeps_running_def running_tracker_def beginProgress_def st_bind_def enter_phase_def
      transitionTo_def isTerminal_def Let_def split: option.splits if_splits sum.splits prod.splits)

lemma fails_running_result: "fails_running (makeResult g clk precision node dt deferred)"
proof -
  have "keeps_running (\<lambda>tracker. (Inr (), map_option (\<lambda>tr. snd (clearCurrentMergeLevel tr)) tracker))"
    by (auto simp: keeps_running_def running_tracker_def clearCurrentMergeLevel_def)
  moreover have "fails_running (if deferred then st_return () else st_bind
      (enter_phase writingOutput (clk 7) ''Cannot complete progress lifecycle'')
      (\<lambda>_. enter_phase completed (clk 7) ''Cannot complete progress lifecycle''))"
    by (auto intro!: fails_running_bind keeps_running_enter fails_running_enter
        keeps_imp_fails [OF keeps_running_lift(2)] simp: isTerminal_def)
  moreover have "keeps_running (enter_phase finalizing (clk 4) ''Cannot enter progress finalization phase'')"
    by (rule keeps_running_enter) (simp add: isTerminal_def)
  ultimately show ?thesis
    unfolding makeResult_def Let_def by (intro fails_running_bind keeps_running_lift fails_running_last)
qed

lemma fail_on_throw_marks:
  assumes "fails_running m" and "running_tracker t" and "fail_on_throw now m t = (Inl e, t')"
  shows "\<exists>tr'. t' = Some tr' \<and> tr_phase tr' = failed \<and> tr_failureDetail tr' = Some (what e)
    \<and> tr_finishedAt tr' = Some now"
proof -
  obtain t1 where m: "m t = (Inl e, t1)" "t' = failProgress now (what e) t1"
    using assms(3) by (auto simp: fail_on_throw_def split: prod.splits sum.splits)
  then have "running_tracker t1"
    using assms(1,2) by (auto simp: fails_running_def)
  then show ?thesis
    using m(2) by (auto simp: running_tracker_def failProgress_def markFailed_def)
qed

section \<open>The parallel calculation\<close>

text \<open>
  What a successful calculation gives: the text of the requested digits, correct to the stated
  bound, and a finished tracker when there is one.
\<close>

definition calculation_ok ::
  "PiCalculationRequest \<Rightarrow> PrecisionPlan \<Rightarrow> PiCalculationResult \<Rightarrow> bool" where
  "calculation_ok req plan res \<longleftrightarrow> (\<exists>rest r. res_precision res = plan \<and> res_decimal res = ''3.'' @ rest
     \<and> length rest = unat (req_digits req) \<and> CHR ''3'' # rest = dec_string (nat r)
     \<and> \<bar>real_of_int r - 10 ^ unat (req_digits req) * chud_pi\<bar>
         \<le> 1 / 2 + 2 / 10 ^ unat (req_guardDigits req))"

definition tracker_start :: "PrecisionPlan \<Rightarrow> (nat \<Rightarrow> int) \<Rightarrow> ProgressTracker option \<Rightarrow> bool" where
  "tracker_start plan clk tracker \<longleftrightarrow> (case tracker of None \<Rightarrow> True
     | Some tr \<Rightarrow> tracker_ready plan (tr_startedAt tr) tr \<and> (\<forall>i. tr_startedAt tr \<le> clk i))"

definition tracker_end :: "PrecisionPlan \<Rightarrow> bool \<Rightarrow> ProgressTracker option \<Rightarrow> ProgressTracker option \<Rightarrow> bool" where
  "tracker_end plan defer tracker tracker' \<longleftrightarrow> (case tracker of None \<Rightarrow> tracker' = None
     | Some tr \<Rightarrow> \<exists>tr'. tracker' = Some tr' \<and> tracker_finished plan defer tr')"

definition tracker_during :: "PrecisionPlan \<Rightarrow> (nat \<Rightarrow> int) \<Rightarrow> ProgressTracker option \<Rightarrow> ProgressTracker option \<Rightarrow> bool" where
  "tracker_during plan clk tracker tracker' \<longleftrightarrow> (case tracker of None \<Rightarrow> tracker' = None
     | Some tr \<Rightarrow> \<exists>tr'. tracker' = Some tr' \<and> tracker_working (tr_plan tr) (tr_startedAt tr) tr'
         \<and> plan_totalTerms (tr_plan tr) = termCount plan \<and> tr_startedAt tr \<le> clk 3)"

lemma begin_during:
  assumes "PrecisionPolicy_create (req_digits req) (req_guardDigits req) = Inr plan" "tracker_start plan clk tracker"
  shows "\<exists>tracker'. startCalculation clk req tracker = (Inr plan, tracker') \<and> tracker_during plan clk tracker tracker'"
proof (cases tracker)
  case None
  then show ?thesis
    by (simp add: tracker_during_def startCalculation_def fail_on_throw_def st_bind_def assms(1) beginProgress_def)
next
  case (Some tr)
  then obtain tr' where "beginProgress (clk 0) plan (Some tr) = (Inr (), Some tr')"
    "tracker_working (tr_plan tr) (tr_startedAt tr) tr'" "plan_totalTerms (tr_plan tr) = termCount plan"
    using beginProgress_ready [of plan "tr_startedAt tr" tr "clk 0"] assms(2) by (auto simp: tracker_start_def)
  then show ?thesis
    using Some assms by (simp add: tracker_during_def tracker_start_def startCalculation_def fail_on_throw_def st_bind_def)
qed

lemma finish_during:
  assumes g: "gmp_library g" and plan: "PrecisionPolicy_create (req_digits req) (req_guardDigits req) = Inr plan"
    and "tracker_during plan clk tracker tracker'"
  shows "\<exists>res tracker''. finishCalculation g clk req plan (Inr (pqt_node 0 (unat (termCount plan)))) tracker'
      = (Inr res, tracker'') \<and> calculation_ok req plan res
      \<and> tracker_end plan (deferProgressCompletion req) tracker tracker''"
proof -
  obtain r rest where fin: "finalizeFixedPoint g (pqt_node 0 (unat (termCount plan))) plan = Inr r"
    and fmt: "formatDecimal g r plan = Inr (''3.'' @ rest)"
    and rest: "length rest = unat (req_digits req)" "CHR ''3'' # rest = dec_string (nat r)"
      "\<bar>real_of_int r - 10 ^ unat (req_digits req) * chud_pi\<bar> \<le> 1 / 2 + 2 / 10 ^ unat (req_guardDigits req)"
    using gmp_library.finalize_and_format [OF g plan] by metis
  have ok: "calculation_ok req plan \<lparr>res_precision = plan, res_decimal = ''3.'' @ rest, res_timings = tm\<rparr>" for tm
    using rest unfolding calculation_ok_def by fastforce
  show ?thesis
  proof (cases tracker)
    case None
    then show ?thesis
      using assms(3) ok by (simp add: tracker_during_def tracker_end_def finishCalculation_def fail_on_throw_def st_bind_def
          completeTerms_def makeResult_def enter_phase_def fin fmt Let_def)
  next
    case (Some tr)
    then obtain tr' where tr': "tracker' = Some tr'" "tracker_working (tr_plan tr) (tr_startedAt tr) tr'"
      "plan_totalTerms (tr_plan tr) = termCount plan" "tr_startedAt tr \<le> clk 3"
      using assms(3) by (auto simp: tracker_during_def)
    have "\<exists>tr''. st_bind (completeTerms (clk 3) (termCount plan))
        (\<lambda>_. makeResult g clk plan (pqt_node 0 (unat (termCount plan))) (clk 2 - clk 1) (deferProgressCompletion req)) (Some tr') =
        (Inr \<lparr>res_precision = plan, res_decimal = ''3.'' @ rest, res_timings = \<lparr>time_split = clk 2 - clk 1,
           time_finalize = clk 5 - clk 4, time_format = clk 6 - clk 5\<rparr>\<rparr>, Some tr'')
      \<and> tracker_finished plan (deferProgressCompletion req) tr''"
      using tr'(2-4) fin fmt by (rule finish_tracked)
    then show ?thesis
      using ok Some tr'(1) by (auto simp: finishCalculation_def fail_on_throw_def st_bind_def tracker_end_def)
  qed
qed

lemma during_log:
  assumes "tracker_during plan clk tracker tracker1" and "env_observer env = Some (tracker_observer now)"
    and "observer_log env n \<lparr>obs_tracker = tracker1, obs_merging = False\<rparr> ob"
  shows "tracker_during plan clk tracker (obs_tracker ob)"
proof (cases tracker)
  case None
  then show ?thesis
    using assms no_tracker_log [OF assms(2) _ assms(3)] by (simp add: tracker_during_def)
next
  case (Some tr)
  then obtain tr1 where "tracker1 = Some tr1" "tracker_working (tr_plan tr) (tr_startedAt tr) tr1"
    using assms(1) by (auto simp: tracker_during_def)
  then have "observing (tr_plan tr) (tr_startedAt tr) ob"
    by (intro observing_log [OF assms(2) _ assms(3)]) (simp add: observing_def)
  then show ?thesis
    using Some assms(1) by (auto simp: tracker_during_def observing_def)
qed

lemma termCount_pos:
  assumes "PrecisionPolicy_create d gd = Inr plan"
  shows "0 < termCount plan"
proof -
  have "0 < unat (termCount plan)"
    using assms by (simp add: create_Inr_iff plan_terms_def)
  then show ?thesis
    by (simp add: word_less_nat_alt)
qed

section \<open>Properties\<close>

text \<open>
  C1: For every precision plan the policy accepts, the sequential calculation returns (it neither
  fails nor loops).  The result carries the plan and the text \<open>3.\<close> followed by exactly the
  requested number of digits, which are the decimal digits of an integer within \<open>1/2 + 2/10^guard\<close>
  of \<open>10^digits\<close> times the value of the Chudnovsky series.  A matching tracker that has not yet
  started ends with every term counted, without a failure, and completed (or finalizing when the
  caller completes it).
\<close>

theorem calculateSequential_correct:
  assumes "gmp_library g"
    and "PrecisionPolicy_create (req_digits req) (req_guardDigits req) = Inr plan"
    and "tracker_start plan clk tracker"
  shows "\<exists>res tracker'. calculateSequential g clk req tracker = Some (Inr res, tracker')
    \<and> calculation_ok req plan res \<and> tracker_end plan (deferProgressCompletion req) tracker tracker'"
proof -
  obtain tracker1 where b: "startCalculation clk req tracker = (Inr plan, tracker1)" "tracker_during plan clk tracker tracker1"
    using begin_during [OF assms(2,3)] by blast
  have split: "splitSequential g 0 (termCount plan) = Some (Inr (pqt_node 0 (unat (termCount plan))))"
    using termCount_pos [OF assms(2)] by (simp add: gmp_library.splitSequential_eq [OF assms(1)])
  show ?thesis
    using finish_during [OF assms(1,2) b(2)]
    by (auto simp: calculateSequential_def p_bind_def b(1) split)
qed

theorem calculateSequential_correct_witness:
  "\<exists>res. calculateSequential gmp_ref (\<lambda>_. 0)
      \<lparr>req_digits = 50, req_guardDigits = 32, deferProgressCompletion = False\<rparr> None = Some (Inr res, None)
    \<and> calculation_ok \<lparr>req_digits = 50, req_guardDigits = 32, deferProgressCompletion = False\<rparr>
        \<lparr>requestedDigits = 50, guardDigits = 32, workingDigits = 82, termCount = 7, estimatedBits = 344\<rparr> res"
proof -
  let ?req = "\<lparr>req_digits = 50, req_guardDigits = 32, deferProgressCompletion = False\<rparr>"
  let ?plan = "\<lparr>requestedDigits = 50, guardDigits = 32, workingDigits = 82, termCount = 7, estimatedBits = 344\<rparr>"
  have "PrecisionPolicy_create (req_digits ?req) (req_guardDigits ?req) = Inr ?plan"
    by code_simp
  from calculateSequential_correct [OF gmp_ref.gmp_library_axioms this, of "\<lambda>_. 0" None] show ?thesis
    by (auto simp: tracker_start_def tracker_end_def)
qed

text \<open>
  C2: The parallel calculation gives the same guarantee as the sequential one, for every scheduler,
  every validated frontier of correct seeds and every pair of coordinators that keep their
  contracts: it returns, an exception is one a coordinator may throw, and otherwise the digits are
  correct and the tracker is finished.
\<close>

theorem calculateParallel_correct:
  assumes "gmp_library g" and "merge_coordinator mc thr cinv holds" and "checkpoint_coordinator kc thr saved"
    and "executor_ok ex" and "sequentialCutoff options \<noteq> 0" and "tasksPerWorker options \<noteq> 0"
    and "PrecisionPolicy_create (req_digits req) (req_guardDigits req) = Inr plan"
    and "sortAndValidateFrontier g frontier 0 (termCount plan) = Inr seeds" and "seeds_ok seeds"
    and "cinv c" and "saved 0 (unat (termCount plan)) k" and "tracker_start plan clk tracker"
  shows "\<exists>r tracker' c' k'.
    calculateParallel g clk ex options mc kc req frontier (tracker, c, k) = Some (r, (tracker', c', k'))
    \<and> (\<forall>err. r = Inl err \<longrightarrow> thr err)
    \<and> (\<forall>res. r = Inr res \<longrightarrow> calculation_ok req plan res
         \<and> tracker_end plan (deferProgressCompletion req) tracker tracker')"
proof -
  let ?env = "\<lparr>env_observer = Some (tracker_observer (clk 1)), env_coordinator = mc, env_checkpoint = kc\<rparr>"
  obtain tracker1 where b: "startCalculation clk req tracker = (Inr plan, tracker1)" "tracker_during plan clk tracker tracker1"
    using begin_during [OF assms(7,12)] by blast
  let ?st = "\<lparr>st_observer = \<lparr>obs_tracker = tracker1, obs_merging = False\<rparr>, st_coordinator = c, st_checkpoint = k\<rparr>"
  have run: "split_run g ?env thr cinv holds saved"
    using assms(1-3) by (simp add: split_run.intro)
  obtain r st where split: "splitParallel g ex options ?env 0 (termCount plan) frontier ?st = Some (r, st)"
    and thr: "\<forall>err. r = Inl err \<longrightarrow> thr err"
    and node: "\<forall>node. r = Inr node \<longrightarrow> node = pqt_node 0 (unat (termCount plan))
      \<and> observer_log ?env (unat (termCount plan) - seed_terms seeds) (st_observer ?st) (st_observer st)"
    using p_okD [OF split_run.splitParallel_ok [OF run termCount_pos [OF assms(7)] assms(5,6,4,8,9), of ?st]] assms(10,11)
    by auto
  show ?thesis
  proof (cases r)
    case (Inl e)
    then show ?thesis
      using split thr by (auto simp: calculateParallel_def b(1) finishCalculation_def fail_on_throw_def st_bind_def)
  next
    case (Inr n)
    then have n: "n = pqt_node 0 (unat (termCount plan))" "tracker_during plan clk tracker (obs_tracker (st_observer st))"
      using node during_log [OF b(2), of ?env "clk 1"] by auto
    show ?thesis
      using finish_during [OF assms(1,7) n(2)] Inr n(1) split
      by (auto simp: calculateParallel_def b(1))
  qed
qed

theorem calculateParallel_correct_witness:
  "\<exists>res tracker' k'. calculateParallel gmp_ref (\<lambda>_. 0) reversed_executor
      \<lparr>sequentialCutoff = 1, tasksPerWorker = 4\<rparr> (None :: unit BinaryMergeCoordinator option)
      (None :: unit BinaryCheckpointCoordinator option)
      \<lparr>req_digits = 50, req_guardDigits = 32, deferProgressCompletion = False\<rparr> [] (None, (), ())
      = Some (Inr res, (tracker', k'))
    \<and> calculation_ok \<lparr>req_digits = 50, req_guardDigits = 32, deferProgressCompletion = False\<rparr>
        \<lparr>requestedDigits = 50, guardDigits = 32, workingDigits = 82, termCount = 7, estimatedBits = 344\<rparr> res"
proof -
  let ?req = "\<lparr>req_digits = 50, req_guardDigits = 32, deferProgressCompletion = False\<rparr>"
  let ?plan = "\<lparr>requestedDigits = 50, guardDigits = 32, workingDigits = 82, termCount = 7, estimatedBits = 344\<rparr>"
  have plan: "PrecisionPolicy_create (req_digits ?req) (req_guardDigits ?req) = Inr ?plan"
    by code_simp
  have front: "sortAndValidateFrontier gmp_ref [] 0 (termCount ?plan) = Inr []"
    by (simp add: sortAndValidateFrontier_def)
  have ex: "executor_ok reversed_executor"
    by (simp add: executor_ok_def reversed_executor_def)
  obtain r tracker' c' k' where "calculateParallel gmp_ref (\<lambda>_. 0) reversed_executor
      \<lparr>sequentialCutoff = 1, tasksPerWorker = 4\<rparr> (None :: unit BinaryMergeCoordinator option)
      (None :: unit BinaryCheckpointCoordinator option) ?req [] (None, (), ()) = Some (r, (tracker', c', k'))"
    "\<forall>err. r \<noteq> Inl err" "\<forall>res. r = Inr res \<longrightarrow> calculation_ok ?req ?plan res"
    using calculateParallel_correct [OF gmp_ref.gmp_library_axioms no_storage.merge_coordinator_axioms
        no_checkpoint.checkpoint_coordinator_axioms ex _ _ plan front, where options = "\<lparr>sequentialCutoff = 1, tasksPerWorker = 4\<rparr>"
        and c = "()" and k = "()" and clk = "\<lambda>_. 0" and tracker = None]
    by (auto simp: seeds_ok_def tracker_start_def)
  then show ?thesis
    by (cases r) auto
qed

text \<open>
  C10: Whatever goes wrong in a sequential calculation, the tracker tells: when it throws, a tracker
  that had not ended before is failed with the message of the exception.
\<close>

theorem calculateSequential_failure:
  assumes "calculateSequential g clk req (Some tr) = Some (Inl e, tracker')" and "\<not> isTerminal (tr_phase tr)"
  shows "\<exists>tr'. tracker' = Some tr' \<and> tr_phase tr' = failed \<and> tr_failureDetail tr' = Some (what e)
    \<and> tr_finishedAt tr' = Some (clk 8)"
proof -
  have run: "running_tracker (Some tr)"
    using assms(2) by (simp add: running_tracker_def)
  have start: "fails_running (st_bind (st_lift (PrecisionPolicy_create (req_digits req) (req_guardDigits req)))
      (\<lambda>precision. st_bind (beginProgress (clk 0) precision) (\<lambda>_. st_return precision)))"
    by (intro fails_running_bind keeps_running_lift keeps_running_begin keeps_imp_fails)
  have finish: "fails_running (st_bind (st_lift split) (\<lambda>node. st_bind (completeTerms (clk 3) (termCount plan))
      (\<lambda>_. makeResult g clk plan node (clk 2 - clk 1) (deferProgressCompletion req))))" for split plan
    by (intro fails_running_bind keeps_running_lift keeps_running_complete fails_running_result)
  show ?thesis
  proof (cases "startCalculation clk req (Some tr)")
    case (Pair r t1)
    show ?thesis
    proof (cases r)
      case (Inl err)
      then show ?thesis
        using assms(1) Pair fail_on_throw_marks [OF start run]
        by (auto simp: calculateSequential_def p_bind_def startCalculation_def)
    next
      case (Inr plan)
      have "running_tracker t1"
        using Pair Inr run keeps_running_begin [of "clk 0" plan]
        by (auto simp: startCalculation_def fail_on_throw_def st_bind_def keeps_running_def split: prod.splits sum.splits)
      then show ?thesis
        using assms(1) Pair Inr fail_on_throw_marks [OF finish]
        by (auto simp: calculateSequential_def p_bind_def finishCalculation_def bind_eq_Some_conv)
    qed
  qed
qed

theorem calculateSequential_failure_witness:
  "\<exists>tr tr'. calculateSequential gmp_ref (\<lambda>_. 7)
      \<lparr>req_digits = 0, req_guardDigits = 32, deferProgressCompletion = False\<rparr> (Some tr)
      = Some (Inl (Invalid_argument ''Requested pi digits must be greater than zero''), Some tr')
    \<and> tr_phase tr = initializing \<and> tr_phase tr' = failed"
proof -
  let ?req = "\<lparr>req_digits = 0, req_guardDigits = 32, deferProgressCompletion = False\<rparr>"
  obtain tr where tr: "ProgressTracker_create \<lparr>plan_targetDigits = 10, plan_totalTerms = 4, plan_totalCheckpointBlocks = 2\<rparr> 5 = Inr tr"
    by (auto simp: ProgressTracker_create_def)
  then have phase: "tr_phase tr = initializing" "\<not> isTerminal (tr_phase tr)"
    by (auto simp: ProgressTracker_create_def isTerminal_def)
  have run: "\<exists>t'. calculateSequential gmp_ref (\<lambda>_. 7) ?req (Some tr)
      = Some (Inl (Invalid_argument ''Requested pi digits must be greater than zero''), t')"
    by (simp add: calculateSequential_def p_bind_def startCalculation_def fail_on_throw_def st_bind_def
        PrecisionPolicy_create_def)
  then show ?thesis
    using calculateSequential_failure [OF _ phase(2)] phase(1) by blast
qed

end
