(* ===== verification/Byte_Codec.thy ===== *)
theory Byte_Codec
  imports Prelude
begin

text \<open>
  Big-endian integer fields and the bounds-checked reader that the checkpoint block, the manifest
  and the chunk codecs share (\<open>appendU8\<close> to \<open>appendU64\<close>, \<open>storeU32\<close> and class \<open>Reader\<close>, e.g. in
  src/src/checkpoint/CheckpointBlockCodec.cpp).  A field codec is a contract: reading back what was
  appended gives the value, and a successful read consumed exactly an encoding of what it returned.
\<close>

unbundle bit_operations_syntax

section \<open>Operations\<close>

definition appendU8 :: "u8 \<Rightarrow> u8 list" where
  "appendU8 value = [value]"

definition appendU16 :: "u16 \<Rightarrow> u8 list" where
  "appendU16 value = [ucast (drop_bit 8 value), ucast value]"

definition appendU32 :: "u32 \<Rightarrow> u8 list" where
  "appendU32 value = map (\<lambda>shift. ucast (drop_bit shift value)) [24, 16, 8, 0]"

definition appendU64 :: "u64 \<Rightarrow> u8 list" where
  "appendU64 value = map (\<lambda>shift. ucast (drop_bit shift value)) [56, 48, 40, 32, 24, 16, 8, 0]"

text \<open>\<open>output[offset++] = byte\<close> for the four bytes of the value.\<close>

definition storeU32 :: "u8 list \<Rightarrow> nat \<Rightarrow> u32 \<Rightarrow> u8 list" where
  "storeU32 output offset value = take offset output @ appendU32 value @ drop (offset + 4) output"

text \<open>
  The reader: its state is the unread rest of its bytes, \<open>remaining()\<close> the length of the rest.  The
  message of a truncation is the one of the format.
\<close>

definition reader_take :: "string \<Rightarrow> nat \<Rightarrow> (u8 list, u8 list) action" where
  "reader_take msg n rest =
     (if n > length rest then (Inl (Invalid_argument msg), rest) else (Inr (take n rest), drop n rest))"

definition readU8 :: "string \<Rightarrow> (u8 list, u8) action" where
  "readU8 msg = st_bind (reader_take msg 1) (\<lambda>data. st_return (hd data))"

definition readU16 :: "string \<Rightarrow> (u8 list, u16) action" where
  "readU16 msg = st_bind (reader_take msg 2)
     (\<lambda>data. st_return (push_bit 8 (ucast (data ! 0)) OR ucast (data ! 1)))"

definition shift_in :: "'a::len word \<Rightarrow> u8 list \<Rightarrow> 'a word" where
  "shift_in value data = foldl (\<lambda>value byte. push_bit 8 value OR ucast byte) value data"

definition readU32 :: "string \<Rightarrow> (u8 list, u32) action" where
  "readU32 msg = st_bind (reader_take msg 4) (\<lambda>data. st_return (shift_in 0 data))"

definition readU64 :: "string \<Rightarrow> (u8 list, u64) action" where
  "readU64 msg = st_bind (reader_take msg 8) (\<lambda>data. st_return (shift_in 0 data))"

section \<open>The contract of a field\<close>

locale field_codec =
  fixes put :: "'a \<Rightarrow> u8 list"
    and get :: "(u8 list, 'a) action"
    and width :: nat
  assumes get_put: "get (put x @ rest) = (Inr x, rest)"
    and put_get: "get bs = (Inr x, rest) \<Longrightarrow> bs = put x @ rest"
    and length_put: "length (put x) = width"
begin

lemma get_Inr_iff: "get bs = (Inr x, rest) \<longleftrightarrow> bs = put x @ rest"
  using get_put put_get by blast

lemma put_inject: "put x = put y \<longleftrightarrow> x = y"
  by (metis Inr_inject append_Nil2 get_put prod.inject)

end

section \<open>The integer fields keep the contract\<close>

text \<open>A byte split off and shifted in again.\<close>

lemma byte_step:
  fixes x :: "'a::len word"
  assumes "8 \<le> LENGTH('a)"
  shows "push_bit 8 (drop_bit (k + 8) x) OR ucast (ucast (drop_bit k x) :: u8) = drop_bit k x"
proof (rule bit_word_eqI)
  fix n
  assume "n < LENGTH('a)"
  then show "bit (push_bit 8 (drop_bit (k + 8) x) OR ucast (ucast (drop_bit k x) :: u8)) n = bit (drop_bit k x) n"
    by (cases "n < 8") (auto simp: bit_simps not_less algebra_simps)
qed

lemma drop_all: "LENGTH('a) \<le> k \<Longrightarrow> drop_bit k (x :: 'a::len word) = 0"
  by (rule bit_word_eqI) (auto simp: bit_simps dest: bit_imp_le_length)

lemma shift_in_simps [simp]:
  "shift_in v [] = v" "shift_in v (b # bs) = shift_in (push_bit 8 v OR ucast b) bs"
  by (simp_all add: shift_in_def)

lemma shift_in_appendU32 [simp]: "shift_in 0 (appendU32 x) = x"
  using byte_step [of 24 x] byte_step [of 16 x] byte_step [of 8 x] byte_step [of 0 x]
  by (simp add: appendU32_def drop_all)

lemma shift_in_appendU64 [simp]: "shift_in 0 (appendU64 x) = x"
  using byte_step [of 56 x] byte_step [of 48 x] byte_step [of 40 x] byte_step [of 32 x]
    byte_step [of 24 x] byte_step [of 16 x] byte_step [of 8 x] byte_step [of 0 x]
  by (simp add: appendU64_def drop_all)

text \<open>A byte shifted in can be split off again.\<close>

lemma shift_in_bit:
  fixes v :: "'a::len word"
  assumes "i < 8 * length bs" and "8 * length bs \<le> LENGTH('a)"
  shows "bit (shift_in v bs) i = bit (bs ! (length bs - 1 - i div 8)) (i mod 8)"
  using assms
proof (induction bs arbitrary: i rule: rev_induct)
  case (snoc b bs)
  have eq: "shift_in v (bs @ [b]) = push_bit 8 (shift_in v bs) OR ucast b"
    by (simp add: shift_in_def)
  show ?case
  proof (cases "i < 8")
    case True
    then show ?thesis
      using snoc.prems by (simp add: eq bit_simps nth_append)
  next
    case False
    then obtain j where i: "i = j + 8"
      by (metis add.commute le_iff_add not_less)
    have "\<not> bit b i"
      using False by (auto dest: bit_imp_le_length)
    then have "bit (shift_in v (bs @ [b])) i = bit (shift_in v bs) j"
      using snoc.prems by (simp add: eq bit_simps i)
    also have "\<dots> = bit (bs ! (length bs - 1 - j div 8)) (j mod 8)"
      using snoc.prems by (intro snoc.IH) (simp_all add: i)
    also have "\<dots> = bit ((bs @ [b]) ! (length (bs @ [b]) - 1 - i div 8)) (i mod 8)"
      using snoc.prems by (auto simp: nth_append i)
    finally show ?thesis .
  qed
qed simp

lemma byte_of_shift_in:
  fixes v :: "'a::len word"
  assumes "8 * length bs \<le> LENGTH('a)" and "j < length bs"
  shows "ucast (drop_bit (8 * j) (shift_in v bs)) = bs ! (length bs - 1 - j)"
proof (rule bit_word_eqI)
  fix n
  assume "n < LENGTH(8)"
  then have n: "n < 8" by simp
  have "(8 * j + n) div 8 = j" "(8 * j + n) mod 8 = n"
    using n by simp_all
  then show "bit (ucast (drop_bit (8 * j) (shift_in v bs)) :: u8) n = bit (bs ! (length bs - 1 - j)) n"
    using n assms shift_in_bit [of "8 * j + n" bs v] by (simp add: bit_simps)
qed

lemma appendU32_shift_in: "length bs = 4 \<Longrightarrow> appendU32 (shift_in 0 bs) = bs"
proof -
  assume l: "length bs = 4"
  have "ucast (drop_bit (8 * j) (shift_in 0 bs :: u32)) = bs ! (3 - j)" if "j < 4" for j
    using byte_of_shift_in [of bs j "0 :: u32"] that l by simp
  from this [of 3] this [of 2] this [of 1] this [of 0]
  have "appendU32 (shift_in 0 bs) = [bs ! 0, bs ! 1, bs ! 2, bs ! 3]"
    by (simp add: appendU32_def)
  also have "\<dots> = bs"
    using l by (intro nth_equalityI) (auto simp: less_Suc_eq numeral_eq_Suc)
  finally show ?thesis .
qed

lemma appendU64_shift_in: "length bs = 8 \<Longrightarrow> appendU64 (shift_in 0 bs) = bs"
proof -
  assume l: "length bs = 8"
  have "ucast (drop_bit (8 * j) (shift_in 0 bs :: u64)) = bs ! (7 - j)" if "j < 8" for j
    using byte_of_shift_in [of bs j "0 :: u64"] that l by simp
  from this [of 7] this [of 6] this [of 5] this [of 4] this [of 3] this [of 2] this [of 1] this [of 0]
  have "appendU64 (shift_in 0 bs) = [bs ! 0, bs ! 1, bs ! 2, bs ! 3, bs ! 4, bs ! 5, bs ! 6, bs ! 7]"
    by (simp add: appendU64_def)
  also have "\<dots> = bs"
    using l by (intro nth_equalityI) (auto simp: less_Suc_eq numeral_eq_Suc)
  finally show ?thesis .
qed

lemma readU16_shift_in: "readU16 msg = st_bind (reader_take msg 2) (\<lambda>data. st_return (shift_in 0 data))"
proof
  fix rest
  have "push_bit 8 (ucast (take 2 rest ! 0)) OR ucast (take 2 rest ! 1) = (shift_in 0 (take 2 rest) :: u16)"
    if "2 \<le> length rest"
    using that by (cases rest; cases "tl rest") (simp_all add: numeral_2_eq_2)
  then show "readU16 msg rest = st_bind (reader_take msg 2) (\<lambda>data. st_return (shift_in 0 data)) rest"
    by (simp add: readU16_def reader_take_def st_bind_def)
qed

lemma shift_in_appendU16 [simp]: "shift_in 0 (appendU16 x) = x"
  using byte_step [of 8 x] byte_step [of 0 x] by (simp add: appendU16_def drop_all)

lemma appendU16_shift_in: "length bs = 2 \<Longrightarrow> appendU16 (shift_in 0 bs) = bs"
proof -
  assume l: "length bs = 2"
  have "ucast (drop_bit (8 * j) (shift_in 0 bs :: u16)) = bs ! (1 - j)" if "j < 2" for j
    using byte_of_shift_in [of bs j "0 :: u16"] that l by simp
  from this [of 1] this [of 0] have "appendU16 (shift_in 0 bs) = [bs ! 0, bs ! 1]"
    by (simp add: appendU16_def)
  also have "\<dots> = bs"
    using l by (intro nth_equalityI) (auto simp: less_Suc_eq numeral_eq_Suc)
  finally show ?thesis .
qed

lemma length_fields [simp]:
  "length (appendU8 a) = 1" "length (appendU16 b) = 2" "length (appendU32 c) = 4" "length (appendU64 d) = 8"
  by (simp_all add: appendU8_def appendU16_def appendU32_def appendU64_def)

text \<open>Reading a fixed number of bytes and shifting them in inverts a putter of that width.\<close>

lemma fixed_width_codec:
  assumes "\<And>x. length (put x) = n" and "\<And>x. shift (put x) = x" and "\<And>bs. length bs = n \<Longrightarrow> put (shift bs) = bs"
  shows "field_codec put (st_bind (reader_take msg n) (\<lambda>data. st_return (shift data))) n"
proof
  fix x rest
  show "st_bind (reader_take msg n) (\<lambda>data. st_return (shift data)) (put x @ rest) = (Inr x, rest)"
    using assms by (simp add: st_bind_def reader_take_def)
next
  fix bs x rest
  assume "st_bind (reader_take msg n) (\<lambda>data. st_return (shift data)) bs = (Inr x, rest)"
  then have "n \<le> length bs" "x = shift (take n bs)" "rest = drop n bs"
    by (auto simp: st_bind_def reader_take_def not_less split: if_splits)
  then show "bs = put x @ rest"
    using assms(3) [of "take n bs"] by simp
qed (use assms in simp)

interpretation u8_field: field_codec appendU8 "readU8 msg" 1 for msg
  unfolding readU8_def
  by (rule fixed_width_codec) (auto simp: appendU8_def length_Suc_conv)

interpretation u16_field: field_codec appendU16 "readU16 msg" 2 for msg
  unfolding readU16_shift_in by (rule fixed_width_codec) (simp_all add: appendU16_shift_in)

interpretation u32_field: field_codec appendU32 "readU32 msg" 4 for msg
  unfolding readU32_def by (rule fixed_width_codec) (simp_all add: appendU32_shift_in)

interpretation u64_field: field_codec appendU64 "readU64 msg" 8 for msg
  unfolding readU64_def by (rule fixed_width_codec) (simp_all add: appendU64_shift_in)

lemmas read_append [simp] = u8_field.get_put u16_field.get_put u32_field.get_put u64_field.get_put

lemmas read_iff = u8_field.get_Inr_iff u16_field.get_Inr_iff u32_field.get_Inr_iff u64_field.get_Inr_iff

lemma reader_take_append [simp]: "length bs = n \<Longrightarrow> reader_take msg n (bs @ rest) = (Inr bs, rest)"
  by (simp add: reader_take_def)

lemma reader_take_iff:
  "reader_take msg n bs = (Inr x, rest) \<longleftrightarrow> bs = x @ rest \<and> length x = n"
  by (auto simp: reader_take_def not_less)

end
