(* ===== verification/Crc32c.thy ===== *)
theory Crc32c
  imports Prelude
begin

text \<open>
  The CRC32C checksum (src/src/checkpoint/CRC32C.cpp): the table-driven calculation and the SSE4.2
  one.  The hardware instructions are a parameter; their documented meaning, the bit-serial
  division by the Castagnoli polynomial over the little-endian bytes of the operand, is the locale
  \<open>sse42_library\<close>.
\<close>

unbundle bit_operations_syntax

section \<open>Operations\<close>

definition reflectedCastagnoliPolynomial :: u32 where
  "reflectedCastagnoliPolynomial = 0x82F63B78"

text \<open>One turn of the inner loop of \<open>createTable\<close>.\<close>

definition crc_bit :: "u32 \<Rightarrow> u32" where
  "crc_bit remainder =
     drop_bit 1 remainder XOR (if remainder AND 1 \<noteq> 0 then reflectedCastagnoliPolynomial else 0)"

definition createTable :: "u32 list" where
  "createTable = map (\<lambda>index. (crc_bit ^^ 8) (of_nat index)) [0..<256]"

definition crcTable :: "u32 list" where
  "crcTable = createTable"

definition table_step :: "u32 \<Rightarrow> u8 \<Rightarrow> u32" where
  "table_step checksum byte =
     (let index = ucast (checksum XOR ucast byte) :: u8
      in crcTable ! unat index XOR drop_bit 8 checksum)"

definition calculate_table :: "u8 list \<Rightarrow> u32 \<Rightarrow> u32" where
  "calculate_table bytes previous = foldl table_step (previous XOR 0xFFFFFFFF) bytes XOR 0xFFFFFFFF"

text \<open>The SSE4.2 instructions, and \<open>memcpy\<close> of bytes to a little-endian word.\<close>

record sse42 =
  mm_crc32_u8 :: "u32 \<Rightarrow> u8 \<Rightarrow> u32"
  mm_crc32_u16 :: "u32 \<Rightarrow> u16 \<Rightarrow> u32"
  mm_crc32_u32 :: "u32 \<Rightarrow> u32 \<Rightarrow> u32"
  mm_crc32_u64 :: "u64 \<Rightarrow> u64 \<Rightarrow> u64"

definition le_word :: "u8 list \<Rightarrow> 'a::len word" where
  "le_word bs = foldr (\<lambda>byte value. push_bit 8 value OR ucast byte) bs 0"

fun sse_u8_loop :: "sse42 \<Rightarrow> u8 list \<Rightarrow> u32 \<Rightarrow> u32" where
  "sse_u8_loop h [] checksum = checksum"
| "sse_u8_loop h (b # bs) checksum = sse_u8_loop h bs (mm_crc32_u8 h checksum b)"

fun sse_u16_loop :: "sse42 \<Rightarrow> u8 list \<Rightarrow> u32 \<Rightarrow> u32" where
  "sse_u16_loop h (a # b # bs) checksum =
     sse_u16_loop h bs (mm_crc32_u16 h checksum (le_word [a, b]))"
| "sse_u16_loop h bs checksum = sse_u8_loop h bs checksum"

fun sse_u32_loop :: "sse42 \<Rightarrow> u8 list \<Rightarrow> u32 \<Rightarrow> u32" where
  "sse_u32_loop h (a # b # c # d # bs) checksum =
     sse_u32_loop h bs (mm_crc32_u32 h checksum (le_word [a, b, c, d]))"
| "sse_u32_loop h bs checksum = sse_u16_loop h bs checksum"

function sse_u64_loop :: "sse42 \<Rightarrow> u8 list \<Rightarrow> u32 \<Rightarrow> u32" where
  "sse_u64_loop h bs checksum =
     (if length bs \<ge> 8
      then sse_u64_loop h (drop 8 bs) (ucast (mm_crc32_u64 h (ucast checksum) (le_word (take 8 bs))))
      else sse_u32_loop h bs checksum)"
  by auto
termination
  by (relation "measure (\<lambda>(h, bs, c). length bs)") auto

definition calculateSse42 :: "sse42 \<Rightarrow> u8 list \<Rightarrow> u32 \<Rightarrow> u32" where
  "calculateSse42 h bytes previous = sse_u64_loop h bytes (previous XOR 0xFFFFFFFF) XOR 0xFFFFFFFF"

text \<open>The processor: the instructions if it has them.\<close>

definition CRC32C_calculate :: "sse42 option \<Rightarrow> u8 list \<Rightarrow> u32 \<Rightarrow> u32" where
  "CRC32C_calculate cpu bytes previous =
     (case cpu of Some h \<Rightarrow> calculateSse42 h bytes previous | None \<Rightarrow> calculate_table bytes previous)"

section \<open>The bit-serial reference\<close>

definition crc_byte :: "u32 \<Rightarrow> u8 \<Rightarrow> u32" where
  "crc_byte c b = (crc_bit ^^ 8) (c XOR ucast b)"

definition crc_ref :: "u8 list \<Rightarrow> u32 \<Rightarrow> u32" where
  "crc_ref bytes previous = NOT (foldl crc_byte (NOT previous) bytes)"

locale sse42_library =
  fixes h :: sse42
  assumes mm_crc32_u8: "mm_crc32_u8 h c b = crc_byte c b"
    and mm_crc32_u16: "length bs = 2 \<Longrightarrow> mm_crc32_u16 h c (le_word bs) = foldl crc_byte c bs"
    and mm_crc32_u32: "length bs = 4 \<Longrightarrow> mm_crc32_u32 h c (le_word bs) = foldl crc_byte c bs"
    and mm_crc32_u64: "length bs = 8 \<Longrightarrow> mm_crc32_u64 h (ucast c) (le_word bs) = ucast (foldl crc_byte c bs)"

lemma crc_bit_alt: "crc_bit x = drop_bit 1 x XOR (if bit x 0 then reflectedCastagnoliPolynomial else 0)"
proof -
  have "x AND 1 \<noteq> 0 \<longleftrightarrow> bit x 0"
    by (simp add: and_one_eq bit_0 odd_iff_mod_2_eq_one)
  then show ?thesis
    by (simp add: crc_bit_def)
qed

lemma crc_bit_xor: "crc_bit (x XOR y) = crc_bit x XOR crc_bit y"
  by (rule bit_word_eqI) (auto simp: crc_bit_alt bit_simps)

lemma crc_bits_xor: "(crc_bit ^^ k) (x XOR y) = (crc_bit ^^ k) x XOR (crc_bit ^^ k) y"
  by (induction k) (simp_all add: crc_bit_xor)

lemma crc_bit_0 [simp]: "crc_bit 0 = 0"
  by (simp add: crc_bit_alt)

lemma crc_bits_shift: "k \<le> j \<Longrightarrow> j \<le> 32 \<Longrightarrow> (crc_bit ^^ k) (push_bit j x) = drop_bit k (push_bit j x)"
proof (induction k)
  case (Suc k)
  then have "\<not> bit (drop_bit k (push_bit j x)) 0"
    by (simp add: bit_simps)
  with Suc show ?case
    by (simp add: crc_bit_alt drop_bit_drop_bit)
qed simp

lemma ucast_ucast_u32 [simp]: "ucast (ucast (c :: u32) :: u64) = c"
  by (rule bit_word_eqI) (simp add: bit_simps)

text \<open>The table gives eight bit-serial steps at once.\<close>

lemma crcTable_nth: "crcTable ! unat (i :: u8) = (crc_bit ^^ 8) (ucast i)"
proof -
  have i: "unat i < 256"
    using unsigned_less [of i, where ?'a = nat] by simp
  have "of_nat (unat i) = (ucast i :: u32)"
    by (simp add: unsigned_ucast_eq)
  then show ?thesis
    using i by (simp add: crcTable_def createTable_def)
qed

lemma split_low_byte: "z = ucast (ucast (z :: u32) :: u8) XOR push_bit 8 (drop_bit 8 z)"
  by (rule bit_word_eqI) (auto simp: bit_simps not_less)

lemma table_step_eq: "table_step c b = crc_byte c b"
proof -
  define z where "z = c XOR ucast b"
  have "drop_bit 8 (ucast b :: u32) = 0"
    by (rule bit_word_eqI) (auto simp: bit_simps dest: bit_imp_le_length)
  then have z8: "drop_bit 8 z = drop_bit 8 c"
    by (simp add: z_def)
  have "drop_bit 8 (push_bit 8 (drop_bit 8 c)) = drop_bit 8 c"
    by (rule bit_word_eqI) (auto simp: bit_simps dest: bit_imp_le_length)
  then have "(crc_bit ^^ 8) (push_bit 8 (drop_bit 8 z)) = drop_bit 8 c"
    using crc_bits_shift [of 8 8 "drop_bit 8 z"] by (simp add: z8)
  then have "(crc_bit ^^ 8) z = (crc_bit ^^ 8) (ucast (ucast z :: u8)) XOR drop_bit 8 c"
    by (subst split_low_byte [of z]) (simp only: crc_bits_xor)
  then show ?thesis
    by (simp add: table_step_def crcTable_nth crc_byte_def z_def Let_def)
qed

lemma xor_ones: "x XOR 0xFFFFFFFF = NOT (x :: u32)"
proof -
  have "(0xFFFFFFFF :: u32) = - 1" by simp
  then show ?thesis by (simp only: bit.xor_one_right)
qed

lemma calculate_table_eq: "calculate_table bytes previous = crc_ref bytes previous"
proof -
  have "table_step = crc_byte"
    by (intro ext) (rule table_step_eq)
  then show ?thesis
    by (simp only: calculate_table_def crc_ref_def xor_ones)
qed

context sse42_library begin

lemma sse_u8_loop_eq: "sse_u8_loop h bs c = foldl crc_byte c bs"
  by (induction bs arbitrary: c) (simp_all add: mm_crc32_u8)

lemma sse_u16_loop_eq: "sse_u16_loop h bs c = foldl crc_byte c bs"
proof -
  have "h' = h \<Longrightarrow> sse_u16_loop h' bs c = foldl crc_byte c bs" for h'
    using mm_crc32_u16 [of "[_, _]"]
    by (induction h' bs c rule: sse_u16_loop.induct) (simp_all add: sse_u8_loop_eq mm_crc32_u8)
  then show ?thesis by simp
qed

lemma sse_u32_loop_eq: "sse_u32_loop h bs c = foldl crc_byte c bs"
proof -
  have "h' = h \<Longrightarrow> sse_u32_loop h' bs c = foldl crc_byte c bs" for h'
    using mm_crc32_u32 [of "[_, _, _, _]"]
    by (induction h' bs c rule: sse_u32_loop.induct) (simp_all add: sse_u16_loop_eq [simplified] del: sse_u16_loop.simps)
  then show ?thesis by simp
qed

lemma sse_u64_loop_eq: "sse_u64_loop h bs c = foldl crc_byte c bs"
proof (induction "length bs" arbitrary: bs c rule: less_induct)
  case less
  show ?case
  proof (cases "8 \<le> length bs")
    case True
    then have "mm_crc32_u64 h (ucast c) (le_word (take 8 bs)) = ucast (foldl crc_byte c (take 8 bs))"
      by (intro mm_crc32_u64) simp
    then have "sse_u64_loop h bs c = sse_u64_loop h (drop 8 bs) (foldl crc_byte c (take 8 bs))"
      using True by (subst sse_u64_loop.simps) (simp add: ucast_ucast_u32)
    also have "\<dots> = foldl crc_byte (foldl crc_byte c (take 8 bs)) (drop 8 bs)"
      using True by (intro less) simp
    finally show ?thesis
      by (simp flip: foldl_append)
  next
    case False
    then show ?thesis
      by (subst sse_u64_loop.simps) (simp add: sse_u32_loop_eq)
  qed
qed

lemma calculateSse42_eq: "calculateSse42 h bytes previous = crc_ref bytes previous"
  by (simp only: calculateSse42_def crc_ref_def sse_u64_loop_eq xor_ones)

end

section \<open>What the checksum detects\<close>

lemma xor_cancel: "a XOR b = a XOR c \<longleftrightarrow> b = (c :: 'a::len word)"
proof
  assume "a XOR b = a XOR c"
  then have "a XOR (a XOR b) = a XOR (a XOR c)" by simp
  then show "b = c" by (simp flip: xor.assoc)
qed simp

lemma crc_bit_inj: "crc_bit x = crc_bit y \<longleftrightarrow> x = y"
proof
  assume "crc_bit x = crc_bit y"
  define z where "z = x XOR y"
  have z: "crc_bit z = 0"
    using \<open>crc_bit x = crc_bit y\<close> by (simp add: z_def crc_bit_xor)
  have "bit reflectedCastagnoliPolynomial 31" "\<not> bit z 32"
    by (simp_all add: reflectedCastagnoliPolynomial_def) (auto dest: bit_imp_le_length)
  then have "bit (crc_bit z) 31" if "bit z 0"
    using that by (simp add: crc_bit_alt bit_simps)
  then have z0: "\<not> bit z 0"
    using z by auto
  then have "drop_bit 1 z = 0"
    using z by (simp add: crc_bit_alt)
  moreover have "bit z (Suc n) = bit (drop_bit 1 z) n" for n
    by (simp add: bit_simps)
  ultimately have "\<not> bit z n" for n
    using z0 by (cases n) simp_all
  then have "z = 0"
    by (intro bit_word_eqI) simp
  then show "x = y"
    using xor_cancel [of x x y] by (simp add: z_def)
qed simp

lemma crc_bits_inj: "(crc_bit ^^ k) x = (crc_bit ^^ k) y \<longleftrightarrow> x = y"
  by (induction k) (simp_all add: crc_bit_inj)

lemma crc_state_inj: "foldl crc_byte c bs = foldl crc_byte c' bs \<longleftrightarrow> c = c'"
proof (induction bs arbitrary: c c')
  case (Cons b bs)
  have "c XOR ucast b = c' XOR ucast b \<longleftrightarrow> c = c'"
    using xor_cancel [of "ucast b" c c'] by (simp add: xor.commute)
  with Cons show ?case
    by (simp add: crc_byte_def crc_bits_inj)
qed simp

text \<open>Up to four bytes are one 32-bit word to the bit-serial division.\<close>

lemma le_word_simps: "le_word [] = 0" "le_word (b # bs) = push_bit 8 (le_word bs) OR ucast b"
  by (simp_all add: le_word_def)

lemma le_word_bound: "bit (le_word bs :: u32) i \<Longrightarrow> i < 8 * length bs"
proof (induction bs arbitrary: i)
  case (Cons b bs)
  show ?case
    using Cons.prems Cons.IH [of "i - 8"]
    by (auto simp: le_word_simps bit_simps dest: bit_imp_le_length)
qed (simp add: le_word_simps)

lemma le_word_Cons_xor: "(le_word (b # bs) :: u32) = push_bit 8 (le_word bs) XOR ucast b"
  by (rule bit_word_eqI) (auto simp: le_word_simps bit_simps dest: bit_imp_le_length)

lemma crc_word:
  "length bs \<le> 4 \<Longrightarrow> foldl crc_byte c bs = (crc_bit ^^ (8 * length bs)) (c XOR le_word bs)"
proof (induction bs arbitrary: c)
  case (Cons b bs)
  have len: "8 * length (b # bs) = 8 * length bs + 8"
    by simp
  have "n < 24" if "bit (le_word bs :: u32) n" for n
    using le_word_bound [OF that] Cons.prems by simp
  then have "drop_bit 8 (push_bit 8 (le_word bs :: u32)) = le_word bs"
    by (intro bit_word_eqI) (auto simp: bit_simps)
  then have shift: "(crc_bit ^^ 8) (push_bit 8 (le_word bs)) = le_word bs"
    using crc_bits_shift [of 8 8 "le_word bs"] by simp
  have "foldl crc_byte c (b # bs) = (crc_bit ^^ (8 * length bs)) ((crc_bit ^^ 8) (c XOR ucast b) XOR le_word bs)"
    using Cons by (simp add: crc_byte_def [of c b])
  also have "(crc_bit ^^ 8) (c XOR ucast b) XOR le_word bs
      = (crc_bit ^^ 8) (c XOR ucast b XOR push_bit 8 (le_word bs))"
    by (simp only: crc_bits_xor shift xor.assoc)
  also have "c XOR ucast b XOR push_bit 8 (le_word bs) = c XOR le_word (b # bs)"
    by (simp add: le_word_Cons_xor xor.assoc xor.commute)
  also have "(crc_bit ^^ (8 * length bs)) ((crc_bit ^^ 8) (c XOR le_word (b # bs)))
      = (crc_bit ^^ (8 * length (b # bs))) (c XOR le_word (b # bs))"
    by (simp only: len funpow_add comp_apply)
  finally show ?case .
qed (simp add: le_word_simps)

lemma le_word_inj:
  assumes "length xs = length ys" and "length xs \<le> 4" and "(le_word xs :: u32) = le_word ys"
  shows "xs = ys"
  using assms
proof (induction xs ys rule: list_induct2)
  case (Cons x xs y ys)
  have low: "bit (le_word (b # bs) :: u32) i = (if i < 8 then bit b i else bit (le_word bs :: u32) (i - 8))"
    if "i < 32" for b bs and i :: nat
    using that by (auto simp: le_word_simps bit_simps dest: bit_imp_le_length)
  have "x = y"
  proof (rule bit_word_eqI)
    fix n assume "n < LENGTH(8)"
    then have "n < 8" by simp
    then show "bit x n = bit y n"
      using low [of n x xs] low [of n y ys] Cons.prems(2) by simp
  qed
  moreover have "(le_word xs :: u32) = le_word ys"
  proof (rule bit_word_eqI)
    fix n
    show "bit (le_word xs :: u32) n = bit (le_word ys :: u32) n"
    proof (cases "n < 24")
      case True
      then show ?thesis
        using low [of "n + 8" x xs] low [of "n + 8" y ys] Cons.prems(2) by auto
    next
      case False
      then show ?thesis
        using le_word_bound [of xs n] le_word_bound [of ys n] Cons.prems(1) Cons.hyps by auto
    qed
  qed
  ultimately show ?case
    using Cons by simp
qed simp

lemma crc_burst:
  assumes "length xs = length ys" and "length xs \<le> 4"
  shows "crc_ref (pre @ xs @ post) p = crc_ref (pre @ ys @ post) p \<longleftrightarrow> xs = ys"
proof -
  have "foldl crc_byte c xs = foldl crc_byte c ys \<longleftrightarrow> xs = ys" for c
  proof -
    have "c XOR le_word xs = c XOR le_word ys \<longleftrightarrow> (le_word xs :: u32) = le_word ys"
      by (rule xor_cancel)
    then show ?thesis
      using assms le_word_inj [OF assms] by (auto simp: crc_word crc_bits_inj)
  qed
  then show ?thesis
    by (simp add: crc_ref_def crc_state_inj)
qed

lemma crc_ref_append: "crc_ref bs (crc_ref as p) = crc_ref (as @ bs) p"
  by (simp add: crc_ref_def)

section \<open>A processor\<close>

text \<open>
  The bit-serial steps themselves satisfy the documented behaviour; the bytes of an operand are read
  from its low end.
\<close>

definition le_bytes :: "nat \<Rightarrow> 'a::len word \<Rightarrow> u8 list" where
  "le_bytes n w = map (\<lambda>i. ucast (drop_bit (8 * i) w)) [0..<n]"

definition sse42_ref :: sse42 where
  "sse42_ref = \<lparr>mm_crc32_u8 = crc_byte,
     mm_crc32_u16 = (\<lambda>c w. foldl crc_byte c (le_bytes 2 w)),
     mm_crc32_u32 = (\<lambda>c w. foldl crc_byte c (le_bytes 4 w)),
     mm_crc32_u64 = (\<lambda>c w. ucast (foldl crc_byte (ucast c) (le_bytes 8 w)))\<rparr>"

lemma le_bytes_le_word:
  assumes "length bs = n" and "8 * n \<le> LENGTH('a::len)"
  shows "le_bytes n (le_word bs :: 'a word) = bs"
  using assms
proof (induction bs arbitrary: n)
  case (Cons b bs)
  then obtain m where n: "n = Suc m" "length bs = m" by auto
  have "ucast (drop_bit (8 * Suc i) (push_bit 8 v OR ucast b)) = (ucast (drop_bit (8 * i) v) :: u8)"
    if "i < m" for i and v :: "'a word"
    using that n Cons.prems(2)
    by (intro bit_word_eqI) (auto simp: bit_simps dest: bit_imp_le_length)
  then have "map (\<lambda>i. ucast (drop_bit (8 * Suc i) (le_word (b # bs) :: 'a word))) [0..<m]
      = map (\<lambda>i. ucast (drop_bit (8 * i) (le_word bs :: 'a word)) :: u8) [0..<m]"
    unfolding le_word_simps by (intro map_cong) auto
  moreover have "ucast (push_bit 8 (le_word bs :: 'a word) OR ucast b) = b"
    using Cons.prems(2) n(1) by (intro bit_word_eqI) (auto simp: bit_simps)
  moreover have "le_bytes n w = ucast w # map (\<lambda>i. ucast (drop_bit (8 * Suc i) w)) [0..<m]" for w :: "'a word"
    unfolding le_bytes_def n(1) by (subst upt_conv_Cons) (simp_all add: map_Suc_upt [symmetric] o_def del: upt_Suc)
  ultimately show ?case
    using Cons.IH [OF n(2)] Cons.prems(2) n(1) by (simp only: le_bytes_def le_word_simps) simp
qed (simp add: le_bytes_def)

interpretation sse42_ref: sse42_library sse42_ref
  by unfold_locales (simp_all add: sse42_ref_def le_bytes_le_word)

abbreviation cpu_ok :: "sse42 option \<Rightarrow> bool" where
  "cpu_ok cpu \<equiv> (\<forall>h. cpu = Some h \<longrightarrow> sse42_library h)"

lemma crc_calculate_eq: "cpu_ok cpu \<Longrightarrow> CRC32C_calculate cpu bs p = crc_ref bs p"
  by (auto simp: CRC32C_calculate_def calculate_table_eq sse42_library.calculateSse42_eq split: option.splits)

section \<open>Properties\<close>

text \<open>
  C14: The checksum does not depend on the processor: with and without the SSE4.2 instructions it is
  the bit-serial division by the Castagnoli polynomial, and a checksum continued over a second
  segment is the checksum of the two segments joined.
\<close>

theorem CRC32C_calculate_portable:
  assumes "cpu_ok cpu"
  shows "CRC32C_calculate cpu bytes p = crc_ref bytes p
    \<and> CRC32C_calculate cpu tail (CRC32C_calculate cpu bytes p) = CRC32C_calculate cpu (bytes @ tail) p"
  by (simp add: crc_calculate_eq [OF assms] crc_ref_append)

theorem CRC32C_calculate_portable_witness:
  "CRC32C_calculate (Some sse42_ref) [1, 2, 3, 4, 5, 6, 7, 8, 9, 10, 11] 0
     = crc_ref [1, 2, 3, 4, 5, 6, 7, 8, 9, 10, 11] 0"
  using CRC32C_calculate_portable [of "Some sse42_ref" "[1, 2, 3, 4, 5, 6, 7, 8, 9, 10, 11]" 0]
    sse42_ref.sse42_library_axioms by simp

text \<open>
  The checksum detects every change of up to four neighbouring bytes: two byte strings that
  differ only inside such a window have different checksums.
\<close>

theorem CRC32C_detects_bursts:
  assumes "cpu_ok cpu" and "length xs = length ys" and "length xs \<le> 4" and "xs \<noteq> ys"
  shows "CRC32C_calculate cpu (pre @ xs @ post) p \<noteq> CRC32C_calculate cpu (pre @ ys @ post) p"
  using assms(2-4) by (simp add: crc_calculate_eq [OF assms(1)] crc_burst)

theorem CRC32C_detects_bursts_witness:
  "CRC32C_calculate None ([7] @ [1, 2] @ [9]) 0 \<noteq> CRC32C_calculate None ([7] @ [1, 3] @ [9]) 0"
  by (rule CRC32C_detects_bursts) simp_all

end
