(* ===== verification/Checksummed_Format.thy ===== *)
theory Checksummed_Format
  imports Byte_Codec Crc32c
begin

text \<open>
  The contract that the block and the manifest formats share: a decoder accepts a byte string only
  when four bytes at a fixed slot hold the CRC32C of the string with that slot zeroed.  Every
  decoder that keeps it rejects a string in which a few neighbouring bytes were damaged.
\<close>

section \<open>The contract\<close>

definition slot_zeroed :: "nat \<Rightarrow> u8 list \<Rightarrow> u8 list" where
  "slot_zeroed slot bytes = take slot bytes @ replicate 4 0 @ drop (slot + 4) bytes"

locale checksummed_format =
  fixes decode :: "u8 list \<Rightarrow> 'a result"
    and slot :: nat
  assumes stored: "decode bytes = Inr x \<Longrightarrow>
    slot + 4 \<le> length bytes \<and> take 4 (drop slot bytes) = appendU32 (crc_ref (slot_zeroed slot bytes) 0)"
begin

lemma slots_differ:
  assumes "decode (pre @ xs @ post) = Inr x" and "decode (pre @ ys @ post) = Inr y"
    and "length ys = length xs" and "length xs \<le> 4"
    and "length pre + length xs \<le> slot \<or> slot + 4 \<le> length pre \<or> slot \<le> length pre \<and> length pre + length xs \<le> slot + 4"
  shows "ys = xs"
proof -
  let ?sum = "\<lambda>zs. crc_ref (slot_zeroed slot (pre @ zs @ post)) 0"
  let ?slot = "\<lambda>zs. take 4 (drop slot (pre @ zs @ post))"
  have slots: "?slot xs = appendU32 (?sum xs)" "?slot ys = appendU32 (?sum ys)"
    using stored assms(1,2) by blast+
  have burst: "crc_ref (p @ xs @ r) 0 = crc_ref (p @ ys @ r) 0 \<longleftrightarrow> xs = ys" for p r
    using assms(3,4) by (intro crc_burst) simp_all
  consider "length pre + length xs \<le> slot" | "slot + 4 \<le> length pre"
    | "slot \<le> length pre" "length pre + length xs \<le> slot + 4"
    using assms(5) by blast
  then show ?thesis
  proof cases
    case 1
    let ?r = "take (slot - length pre - length xs) post @ replicate 4 0 @ drop (slot + 4 - length pre - length xs) post"
    have "?slot ys = ?slot xs" "?sum xs = crc_ref (pre @ xs @ ?r) 0" "?sum ys = crc_ref (pre @ ys @ ?r) 0"
      using 1 assms(3) by (simp_all add: slot_zeroed_def)
    then show ?thesis
      using slots burst by (metis u32_field.put_inject)
  next
    case 2
    let ?p = "take slot pre @ replicate 4 0 @ drop (slot + 4) pre"
    have "?slot ys = ?slot xs" "?sum xs = crc_ref (?p @ xs @ post) 0" "?sum ys = crc_ref (?p @ ys @ post) 0"
      using 2 by (simp_all add: slot_zeroed_def)
    then show ?thesis
      using slots burst by (metis u32_field.put_inject)
  next
    case 3
    then have "?sum ys = ?sum xs"
      using assms(3) by (simp add: slot_zeroed_def)
    then have "?slot ys = ?slot xs"
      using slots by simp
    then have "drop slot pre @ ys @ take (slot + 4 - length pre - length xs) post
        = drop slot pre @ xs @ take (slot + 4 - length pre - length xs) post"
      using 3 assms(3) by simp
    then show ?thesis
      using assms(3) by simp
  qed
qed

lemma detects_damage:
  assumes "decode (pre @ xs @ post) = Inr x"
    and "length ys = length xs" and "length xs \<le> 4" and "ys \<noteq> xs"
    and "length pre + length xs \<le> slot \<or> slot + 4 \<le> length pre \<or> slot \<le> length pre \<and> length pre + length xs \<le> slot + 4"
  shows "\<exists>err. decode (pre @ ys @ post) = Inl err"
  using assms slots_differ [OF assms(1) _ assms(2,3,5)] by (cases "decode (pre @ ys @ post)") auto

end

end
