(* ===== verification/Gmp_Serialization.thy ===== *)
theory Gmp_Serialization
  imports Gmp_Integer
begin

text \<open>
  \<open>GMPSerialization\<close> (src/src/checkpoint/GMPSerialization.cpp): the canonical signed magnitude of an
  integer, a sign byte and a big-endian magnitude without leading zero bytes.  A sign read from a
  file is any byte, so \<open>IntegerSign\<close> is the byte of the enumeration.
\<close>

section \<open>Operations\<close>

type_synonym IntegerSign = u8

definition sign_zero :: IntegerSign where "sign_zero = 0"

definition sign_positive :: IntegerSign where "sign_positive = 1"

definition sign_negative :: IntegerSign where "sign_negative = 2"

record SerializedGMPInteger =
  ser_sign :: IntegerSign
  ser_magnitude :: "u8 list"

definition GMPSerialization_sign :: "gmp \<Rightarrow> int \<Rightarrow> IntegerSign" where
  "GMPSerialization_sign g value =
     (let rawSign = mpz_sgn g value
      in if rawSign = 0 then sign_zero else if rawSign > 0 then sign_positive else sign_negative)"

definition magnitudeSize :: "gmp \<Rightarrow> int \<Rightarrow> size_t result" where
  "magnitudeSize g value =
     (if mpz_sgn g value = 0 then Inr 0
      else
        let bitCount = mpz_sizeinbase_2 g value
        in if bitCount > - 1 - 7 then Inl (Overflow_error ''Canonical GMP magnitude size overflow'')
           else Inr ((bitCount + 7) div 8))"

text \<open>
  The destination is a span of the given size; the bytes written to it are the result.
\<close>

definition exportMagnitude :: "gmp \<Rightarrow> int \<Rightarrow> size_t \<Rightarrow> u8 list result" where
  "exportMagnitude g value destinationSize =
     res_bind (magnitudeSize g value) (\<lambda>size.
     res_bind (throw_if (destinationSize \<noteq> size)
       (Invalid_argument ''Canonical magnitude destination has the wrong size'')) (\<lambda>_.
     if destinationSize = 0 then Inr []
     else
       let written = mpz_export_be g value
       in res_bind (throw_if (length written \<noteq> unat destinationSize)
            (Logic_error ''Canonical magnitude export size mismatch'')) (\<lambda>_. Inr written)))"

definition GMPSerialization_encode :: "gmp \<Rightarrow> int \<Rightarrow> SerializedGMPInteger result" where
  "GMPSerialization_encode g value =
     res_bind (magnitudeSize g value) (\<lambda>size.
     res_bind (exportMagnitude g value size) (\<lambda>magnitude.
     Inr \<lparr>ser_sign = GMPSerialization_sign g value, ser_magnitude = magnitude\<rparr>))"

definition GMPSerialization_decode :: "gmp \<Rightarrow> IntegerSign \<Rightarrow> u8 list \<Rightarrow> int result" where
  "GMPSerialization_decode g sign magnitude =
     (if sign = sign_zero then
        res_bind (throw_if (magnitude \<noteq> [])
          (Invalid_argument ''Canonical zero must have an empty magnitude'')) (\<lambda>_.
        Inr GMPInteger_default)
      else if sign = sign_positive \<or> sign = sign_negative then
        res_bind (throw_if (magnitude = [])
          (Invalid_argument ''Canonical non-zero integer requires a magnitude'')) (\<lambda>_.
        res_bind (throw_if (hd magnitude = 0)
          (Invalid_argument ''Canonical magnitude must not contain a leading zero'')) (\<lambda>_.
        let value = mpz_import_be g magnitude
        in Inr (if sign = sign_negative then GMPInteger_negate g value else value)))
      else Inl (Invalid_argument ''Unknown canonical integer sign''))"

section \<open>Canonical magnitudes\<close>

definition canonical :: "u8 list \<Rightarrow> bool" where
  "canonical bs \<longleftrightarrow> bs = [] \<or> hd bs \<noteq> 0"

text \<open>The integers whose magnitude has a byte count that fits 64 bits with the header's room.\<close>

definition gmp_fits :: "int \<Rightarrow> bool" where
  "gmp_fits a \<longleftrightarrow> bitlen \<bar>a\<bar> \<le> 2 ^ 64 - 8"

lemma be_value_same_length:
  "length xs = length ys \<Longrightarrow> be_value xs = be_value ys \<Longrightarrow> xs = ys"
proof (induction xs ys rule: rev_induct2)
  case (4 x xs y ys)
  have x: "unat x < 256" and y: "unat y < 256"
    using unsigned_less [of x, where ?'a = nat] unsigned_less [of y, where ?'a = nat] by simp_all
  have eq: "be_value xs * 256 + unat x = be_value ys * 256 + unat y"
    using "4.prems"(2) by simp
  then have "(be_value xs * 256 + unat x) mod 256 = (be_value ys * 256 + unat y) mod 256"
    by (rule arg_cong)
  then have "unat x = unat y"
    using x y by simp
  with eq have "be_value xs = be_value ys" "x = y"
    by (simp_all add: word_unat_eq_iff)
  with 4 show ?case
    by simp
qed simp_all

lemma canonical_length:
  assumes "canonical bs" and "bs \<noteq> []"
  shows "256 ^ (length bs - 1) \<le> be_value bs" "be_value bs < 256 ^ length bs" "0 < be_value bs"
proof -
  show lower: "256 ^ (length bs - 1) \<le> be_value bs"
    using assms by (intro be_value_lower) (auto simp: canonical_def)
  show "be_value bs < 256 ^ length bs"
    by (rule be_value_less)
  have "(0 :: nat) < 256 ^ (length bs - 1)"
    by simp
  with lower show "0 < be_value bs"
    by linarith
qed

lemma canonical_inject:
  assumes "canonical xs" and "canonical ys" and "be_value xs = be_value ys"
  shows "xs = ys"
proof (cases "xs = [] \<or> ys = []")
  case True
  then have "be_value xs = 0"
    using assms(3) by auto
  then show ?thesis
    using canonical_length(3) [OF assms(1)] canonical_length(3) [OF assms(2)] assms(3)
    by (cases "xs = []"; cases "ys = []") simp_all
next
  case False
  have "256 ^ (length xs - 1) \<le> be_value xs" "be_value ys < 256 ^ length ys"
    "256 ^ (length ys - 1) \<le> be_value ys" "be_value xs < 256 ^ length xs"
    using canonical_length [OF assms(1)] canonical_length [OF assms(2)] False by blast+
  then have "256 ^ (length xs - 1) < (256 :: nat) ^ length ys" "256 ^ (length ys - 1) < (256 :: nat) ^ length xs"
    unfolding assms(3) by (blast intro: order.strict_trans1)+
  then have "length xs - 1 < length ys" "length ys - 1 < length xs"
    by (simp_all only: power_strict_increasing_iff one_less_numeral_iff semiring_norm)
  then have "length xs = length ys"
    using False by simp
  then show ?thesis
    using assms(3) by (rule be_value_same_length)
qed

context gmp_library begin

lemma export_canonical: "canonical (mpz_export_be g a)"
  using mpz_export_leading mpz_export_zero by (cases "a = 0") (simp_all add: canonical_def)

lemma export_import: "canonical bs \<Longrightarrow> mpz_export_be g (int (be_value bs)) = bs"
  by (rule canonical_inject) (use export_canonical mpz_export_value [of "int (be_value bs)"] in simp_all)

lemma export_abs: "mpz_export_be g (- a) = mpz_export_be g a"
proof (rule canonical_inject)
  have "int (be_value (mpz_export_be g (- a))) = int (be_value (mpz_export_be g a))"
    by (simp only: mpz_export_value abs_minus_cancel)
  then show "be_value (mpz_export_be g (- a)) = be_value (mpz_export_be g a)"
    by (simp only: of_nat_eq_iff)
qed (rule export_canonical)+

lemma export_bitlen:
  assumes "a \<noteq> 0"
  shows "length (mpz_export_be g a) = (nat (bitlen \<bar>a\<bar>) + 7) div 8"
proof -
  define bs where "bs = mpz_export_be g a"
  define n where "n = length bs"
  define b where "b = nat (bitlen \<bar>a\<bar>)"
  have bs: "bs \<noteq> []" "canonical bs" "int (be_value bs) = \<bar>a\<bar>"
    using assms mpz_export_leading export_canonical mpz_export_value by (simp_all add: bs_def)
  have lo: "int (256 ^ (n - 1)) \<le> \<bar>a\<bar>" and hi: "\<bar>a\<bar> < int (256 ^ n)"
    unfolding bs(3) [symmetric] of_nat_le_iff of_nat_less_iff n_def
    using canonical_length [OF bs(2,1)] by blast+
  have pow: "int (256 ^ k) = 2 ^ (8 * k)" for k
    by (simp add: power_mult)
  have "0 < bitlen \<bar>a\<bar>"
    using assms bitlen_nonneg [of "\<bar>a\<bar>"] bitlen_eq_zero_iff [of "\<bar>a\<bar>"] by linarith
  then have "nat (bitlen \<bar>a\<bar> - 1) = b - 1" "0 < b"
    by (simp_all add: b_def nat_diff_distrib)
  then have "2 ^ (b - 1) \<le> \<bar>a\<bar>" "\<bar>a\<bar> < 2 ^ b"
    using bitlen_bounds [of "\<bar>a\<bar>"] assms by (simp_all add: b_def)
  then have "(2 :: int) ^ (b - 1) < 2 ^ (8 * n)" "(2 :: int) ^ (8 * (n - 1)) < 2 ^ b"
    using lo hi unfolding pow by linarith+
  then have "b - 1 < 8 * n" "8 * (n - 1) < b"
    by simp_all
  moreover have "0 < n"
    using bs(1) by (simp add: n_def)
  ultimately have "(b + 7) div 8 = n"
    using \<open>0 < b\<close> by linarith
  then show ?thesis
    by (simp add: n_def bs_def b_def)
qed

lemma magnitudeSize_ok:
  assumes "gmp_fits a"
  shows "\<exists>size. magnitudeSize g a = Inr size \<and> unat size = length (mpz_export_be g a)"
proof (cases "a = 0")
  case True
  then show ?thesis
    by (simp add: magnitudeSize_def mpz_sgn mpz_export_zero)
next
  case False
  have bits: "bitlen \<bar>a\<bar> \<le> 2 ^ 64 - 8"
    using assms by (simp add: gmp_fits_def)
  define c where "c = mpz_sizeinbase_2 g a"
  have "uint c = bitlen \<bar>a\<bar>"
    unfolding c_def using bits by (intro mpz_sizeinbase [OF False]) simp
  then have c: "unat c = nat (bitlen \<bar>a\<bar>)"
    by (simp add: unat_eq_nat_uint)
  then have le: "unat c \<le> 2 ^ 64 - 8"
    using bits by (simp add: nat_le_iff)
  have "unat (- 1 - 7 :: u64) = 2 ^ 64 - 8"
    by (subst unat_sub_le) (simp_all add: unat_max_word)
  then have guard: "\<not> c > - 1 - 7"
    using le by (simp add: word_less_nat_alt)
  have "unat ((c + 7) div 8) = (unat c + 7) div 8"
    using le by (subst unat_div, subst unat_add_no_wrap) simp_all
  moreover have "magnitudeSize g a = Inr ((c + 7) div 8)"
    using False guard by (simp add: magnitudeSize_def mpz_sgn sgn_if c_def [symmetric] Let_def)
  ultimately show ?thesis
    using export_bitlen [OF False] c by simp
qed

text \<open>What the codecs rely on: the size, the bytes and the inverse.\<close>

lemma magnitude_codec:
  assumes "gmp_fits a"
  obtains size where "magnitudeSize g a = Inr size" "unat size = length (mpz_export_be g a)"
    "exportMagnitude g a size = Inr (mpz_export_be g a)"
    "GMPSerialization_decode g (GMPSerialization_sign g a) (mpz_export_be g a) = Inr a"
proof -
  obtain size where s: "magnitudeSize g a = Inr size" "unat size = length (mpz_export_be g a)"
    using magnitudeSize_ok [OF assms] by blast
  have "exportMagnitude g a size = Inr (mpz_export_be g a)"
    using s by (auto simp: exportMagnitude_def unat_eq_zero)
  moreover have "GMPSerialization_decode g (GMPSerialization_sign g a) (mpz_export_be g a) = Inr a"
  proof (cases "a = 0")
    case True
    then show ?thesis
      by (simp add: GMPSerialization_decode_def GMPSerialization_sign_def mpz_sgn mpz_export_zero
          GMPInteger_default_def)
  next
    case False
    then show ?thesis
      using mpz_export_leading [OF False] mpz_export_value [of a]
      by (simp add: GMPSerialization_decode_def GMPSerialization_sign_def mpz_sgn sgn_if mpz_import
          GMPInteger_negate_def mpz_neg sign_zero_def sign_positive_def sign_negative_def)
  qed
  ultimately show thesis
    using s by (intro that)
qed

lemma decode_Inr:
  assumes "GMPSerialization_decode g sign magnitude = Inr a"
  shows "sign = GMPSerialization_sign g a \<and> magnitude = mpz_export_be g a"
proof -
  consider "sign = sign_zero" "magnitude = []" "a = 0"
    | "sign = sign_positive" "magnitude \<noteq> []" "canonical magnitude" "a = int (be_value magnitude)"
    | "sign = sign_negative" "magnitude \<noteq> []" "canonical magnitude" "a = - int (be_value magnitude)"
    using assms by (auto simp: GMPSerialization_decode_def res_elim mpz_import GMPInteger_negate_def mpz_neg
        GMPInteger_default_def canonical_def Let_def split: if_splits)
  then show ?thesis
  proof cases
    case 1
    then show ?thesis
      by (simp add: GMPSerialization_sign_def mpz_sgn mpz_export_zero)
  next
    case 2
    then show ?thesis
      using canonical_length(3) [of magnitude]
      by (simp add: GMPSerialization_sign_def mpz_sgn sgn_if export_import)
  next
    case 3
    then show ?thesis
      using canonical_length(3) [of magnitude]
      by (simp add: GMPSerialization_sign_def mpz_sgn sgn_if export_import export_abs)
  qed
qed

end

section \<open>Properties\<close>

text \<open>
  C15: Every integer survives serialization: encoding succeeds, its magnitude has no leading zero byte,
  and decoding sign and magnitude gives the integer back; and the decoder accepts nothing but the
  encoding of its result.
\<close>

theorem GMPSerialization_roundtrip:
  assumes "gmp_library g" and "gmp_fits a"
  shows "\<exists>s. GMPSerialization_encode g a = Inr s \<and> canonical (ser_magnitude s)
    \<and> GMPSerialization_decode g (ser_sign s) (ser_magnitude s) = Inr a
    \<and> (\<forall>sign m. GMPSerialization_decode g sign m = Inr a \<longrightarrow> s = \<lparr>ser_sign = sign, ser_magnitude = m\<rparr>)"
proof -
  obtain size where "magnitudeSize g a = Inr size" "exportMagnitude g a size = Inr (mpz_export_be g a)"
    "GMPSerialization_decode g (GMPSerialization_sign g a) (mpz_export_be g a) = Inr a"
    by (rule gmp_library.magnitude_codec [OF assms]) (rule that)
  then show ?thesis
    using gmp_library.export_canonical [OF assms(1)]
    by (auto simp: GMPSerialization_encode_def dest!: gmp_library.decode_Inr [OF assms(1)])
qed

theorem GMPSerialization_roundtrip_witness:
  "\<exists>s. GMPSerialization_encode gmp_ref (- 1000000) = Inr s
    \<and> GMPSerialization_decode gmp_ref (ser_sign s) (ser_magnitude s) = Inr (- 1000000)"
proof -
  have "bitlen (1000000 :: int) \<le> 20"
    by (simp add: bitlen_le_iff_power)
  then have "gmp_fits (- 1000000)"
    by (simp add: gmp_fits_def)
  then show ?thesis
    using GMPSerialization_roundtrip [OF gmp_ref.gmp_library_axioms] by blast
qed

end
