(* ===== verification/Checkpoint_Types.thy ===== *)
theory Checkpoint_Types
  imports Precision_Policy "HOL-Library.Product_Lexorder"
begin

text \<open>
  The identity of a computation and the location of a block
  (src/src/checkpoint/CheckpointTypes.cpp).  Enumerations that are read from files are the integers
  they are stored as.
\<close>

section \<open>Operations\<close>

definition chudnovskyBinarySplitting :: u16 where "chudnovskyBinarySplitting = 1"

definition arithmeticFormatVersion :: u16 where "arithmeticFormatVersion = 1"

definition binarySplittingFormulaVersion :: u16 where "binarySplittingFormulaVersion = 1"

record ComputationIdentity =
  id_algorithm :: u16
  id_arithmeticVersion :: u16
  id_formulaVersion :: u16
  id_requestedDigits :: u64
  id_guardDigits :: u32
  id_workingDigits :: u64
  id_termCount :: u64

definition ComputationIdentity_validate :: "ComputationIdentity \<Rightarrow> unit result" where
  "ComputationIdentity_validate i =
     res_bind (throw_if (id_algorithm i \<noteq> chudnovskyBinarySplitting
         \<or> id_arithmeticVersion i \<noteq> arithmeticFormatVersion
         \<or> id_formulaVersion i \<noteq> binarySplittingFormulaVersion)
       (Invalid_argument ''Unsupported checkpoint computation identity version'')) (\<lambda>_.
     res_bind (PrecisionPolicy_create (id_requestedDigits i) (id_guardDigits i)) (\<lambda>expected.
     throw_if (id_workingDigits i \<noteq> workingDigits expected \<or> id_termCount i \<noteq> termCount expected)
       (Invalid_argument ''Checkpoint identity does not match its precision policy'')))"

definition fromPrecisionPlan :: "PrecisionPlan \<Rightarrow> ComputationIdentity result" where
  "fromPrecisionPlan plan =
     res_bind (throw_if (requestedDigits plan = 0 \<or> guardDigits plan = 0)
       (Invalid_argument ''Checkpoint precision digits must be non-zero'')) (\<lambda>_.
     res_bind (throw_if (ucast (guardDigits plan) > - 1 - requestedDigits plan)
       (Overflow_error ''Checkpoint working digit calculation overflow'')) (\<lambda>_.
     res_bind (throw_if (workingDigits plan \<noteq> requestedDigits plan + ucast (guardDigits plan))
       (Invalid_argument ''Checkpoint working digits do not match the precision plan'')) (\<lambda>_.
     res_bind (throw_if (termCount plan = 0)
       (Invalid_argument ''Checkpoint term count must be non-zero'')) (\<lambda>_.
     let identity = \<lparr>id_algorithm = chudnovskyBinarySplitting,
           id_arithmeticVersion = arithmeticFormatVersion,
           id_formulaVersion = binarySplittingFormulaVersion,
           id_requestedDigits = requestedDigits plan, id_guardDigits = guardDigits plan,
           id_workingDigits = workingDigits plan, id_termCount = termCount plan\<rparr>
     in res_bind (ComputationIdentity_validate identity) (\<lambda>_. Inr identity)))))"

definition ComputationIdentity_less :: "ComputationIdentity \<Rightarrow> ComputationIdentity \<Rightarrow> bool" where
  "ComputationIdentity_less a b =
     (if id_algorithm a \<noteq> id_algorithm b then id_algorithm a < id_algorithm b
      else if id_arithmeticVersion a \<noteq> id_arithmeticVersion b
      then id_arithmeticVersion a < id_arithmeticVersion b
      else if id_formulaVersion a \<noteq> id_formulaVersion b then id_formulaVersion a < id_formulaVersion b
      else if id_requestedDigits a \<noteq> id_requestedDigits b
      then id_requestedDigits a < id_requestedDigits b
      else if id_guardDigits a \<noteq> id_guardDigits b then id_guardDigits a < id_guardDigits b
      else if id_workingDigits a \<noteq> id_workingDigits b then id_workingDigits a < id_workingDigits b
      else id_termCount a < id_termCount b)"

record BlockLocation =
  loc_start :: u64
  loc_end :: u64
  loc_treeLevel :: u32

definition BlockLocation_validate :: "BlockLocation \<Rightarrow> ComputationIdentity \<Rightarrow> unit result" where
  "BlockLocation_validate l identity =
     res_bind (throw_if (loc_start l \<ge> loc_end l)
       (Invalid_argument ''Checkpoint block range must be non-empty'')) (\<lambda>_.
     throw_if (loc_end l > id_termCount identity)
       (Out_of_range ''Checkpoint block range exceeds the computation term count''))"

definition BlockLocation_create ::
  "u64 \<Rightarrow> u64 \<Rightarrow> u32 \<Rightarrow> ComputationIdentity \<Rightarrow> BlockLocation result" where
  "BlockLocation_create s e treeLevel identity =
     (let location = \<lparr>loc_start = s, loc_end = e, loc_treeLevel = treeLevel\<rparr>
      in res_bind (BlockLocation_validate location identity) (\<lambda>_. Inr location))"

definition BlockLocation_less :: "BlockLocation \<Rightarrow> BlockLocation \<Rightarrow> bool" where
  "BlockLocation_less a b =
     (if loc_start a \<noteq> loc_start b then loc_start a < loc_start b
      else if loc_end a \<noteq> loc_end b then loc_end a < loc_end b
      else loc_treeLevel a < loc_treeLevel b)"

section \<open>Facts\<close>

lemma BlockLocation_validate_Inr [res_elim]:
  "BlockLocation_validate l i = Inr u \<longleftrightarrow> loc_start l < loc_end l \<and> loc_end l \<le> id_termCount i"
  by (auto simp: BlockLocation_validate_def res_elim not_le not_less)

lemma ComputationIdentity_validate_Inr:
  "ComputationIdentity_validate i = Inr u \<longleftrightarrow>
     id_algorithm i = 1 \<and> id_arithmeticVersion i = 1 \<and> id_formulaVersion i = 1
     \<and> (\<exists>plan. PrecisionPolicy_create (id_requestedDigits i) (id_guardDigits i) = Inr plan
          \<and> id_workingDigits i = workingDigits plan \<and> id_termCount i = termCount plan)"
  by (auto simp: ComputationIdentity_validate_def res_elim chudnovskyBinarySplitting_def
      arithmeticFormatVersion_def binarySplittingFormulaVersion_def)

text \<open>The comparison operators are the lexicographic orders of the fields.\<close>

definition identity_key :: "ComputationIdentity \<Rightarrow> u16 \<times> u16 \<times> u16 \<times> u64 \<times> u32 \<times> u64 \<times> u64" where
  "identity_key i = (id_algorithm i, id_arithmeticVersion i, id_formulaVersion i, id_requestedDigits i,
     id_guardDigits i, id_workingDigits i, id_termCount i)"

definition location_key :: "BlockLocation \<Rightarrow> u64 \<times> u64 \<times> u32" where
  "location_key l = (loc_start l, loc_end l, loc_treeLevel l)"

lemma ComputationIdentity_less_key: "ComputationIdentity_less a b \<longleftrightarrow> identity_key a < identity_key b"
  by (auto simp: ComputationIdentity_less_def identity_key_def less_prod_def)

lemma BlockLocation_less_key: "BlockLocation_less a b \<longleftrightarrow> location_key a < location_key b"
  by (auto simp: BlockLocation_less_def location_key_def less_prod_def)

lemma identity_key_inject: "identity_key a = identity_key b \<longleftrightarrow> a = b"
  by (cases a; cases b) (auto simp: identity_key_def)

lemma location_key_inject: "location_key a = location_key b \<longleftrightarrow> a = b"
  by (cases a; cases b) (auto simp: location_key_def)

section \<open>Properties\<close>

text \<open>
  Every plan of the precision policy has a durable identity, which validates and determines the
  plan's numbers; two plans with the same identity are the same plan.
\<close>

theorem fromPrecisionPlan_faithful:
  assumes "PrecisionPolicy_create d gd = Inr plan"
  shows "\<exists>i. fromPrecisionPlan plan = Inr i \<and> ComputationIdentity_validate i = Inr ()
    \<and> id_requestedDigits i = d \<and> id_guardDigits i = gd \<and> id_termCount i = termCount plan
    \<and> (\<forall>d' gd' plan'. PrecisionPolicy_create d' gd' = Inr plan' \<and> fromPrecisionPlan plan' = Inr i
         \<longrightarrow> plan' = plan)"
proof -
  have plan: "requestedDigits plan = d" "guardDigits plan = gd" "d \<noteq> 0" "16 \<le> gd"
    "unat (workingDigits plan) = unat d + unat gd" "unat (termCount plan) = plan_terms (unat d + unat gd)"
    using assms by (simp_all add: create_Inr_iff)
  have nz: "gd \<noteq> 0" "termCount plan \<noteq> 0"
    using plan(4,6) by (auto simp: plan_terms_def)
  have fits: "unat d + unat gd < 2 ^ 64"
    using plan(5) unat_u64_less [of "workingDigits plan"] by simp
  have "unat (- 1 - d) = 2 ^ 64 - 1 - unat d"
    by (subst unat_sub_le) (simp_all add: unat_max_word)
  then have "\<not> (ucast gd :: u64) > - 1 - d"
    using fits by (simp add: word_less_nat_alt)
  moreover have "workingDigits plan = d + ucast gd"
    using plan(5) fits by (simp add: word_unat_eq_iff unat_add_no_wrap)
  moreover define i where "i = \<lparr>id_algorithm = 1, id_arithmeticVersion = 1, id_formulaVersion = 1,
    id_requestedDigits = d, id_guardDigits = gd, id_workingDigits = workingDigits plan, id_termCount = termCount plan\<rparr>"
  moreover have "ComputationIdentity_validate i = Inr ()"
    using assms by (simp add: ComputationIdentity_validate_Inr i_def)
  ultimately have "fromPrecisionPlan plan = Inr i"
    using plan nz by (simp add: fromPrecisionPlan_def chudnovskyBinarySplitting_def
        arithmeticFormatVersion_def binarySplittingFormulaVersion_def throw_if_def)
  moreover have "plan' = plan" if "PrecisionPolicy_create d' gd' = Inr plan'" "fromPrecisionPlan plan' = Inr i" for d' gd' plan'
  proof -
    have "requestedDigits plan' = d" "guardDigits plan' = gd"
      using that(2) by (auto simp: fromPrecisionPlan_def res_elim Let_def i_def)
    moreover have "requestedDigits plan' = d'" "guardDigits plan' = gd'"
      using that(1) by (simp_all add: create_Inr_iff)
    ultimately show ?thesis
      using that(1) assms by simp
  qed
  ultimately show ?thesis
    using \<open>ComputationIdentity_validate i = Inr ()\<close> by (auto simp: i_def)
qed

theorem fromPrecisionPlan_faithful_witness:
  "\<exists>i. fromPrecisionPlan \<lparr>requestedDigits = 50, guardDigits = 32, workingDigits = 82, termCount = 7, estimatedBits = 344\<rparr> = Inr i
    \<and> ComputationIdentity_validate i = Inr () \<and> id_termCount i = 7"
proof -
  have "PrecisionPolicy_create 50 32
      = Inr \<lparr>requestedDigits = 50, guardDigits = 32, workingDigits = 82, termCount = 7, estimatedBits = 344\<rparr>"
    by code_simp
  from fromPrecisionPlan_faithful [OF this] show ?thesis by auto
qed

end
