(* ===== verification/Checkpoint_Block_Codec.thy ===== *)
theory Checkpoint_Block_Codec
  imports Checksummed_Format Gmp_Serialization Checkpoint_Types
begin

text \<open>
  The version-1 block format (src/src/checkpoint/CheckpointBlockCodec.cpp): a 112-byte header, the
  three magnitudes, and a CRC32C over the whole block with the checksum slot zeroed.
\<close>

section \<open>Operations\<close>

definition ChecksumAlgorithm_none :: u16 where "ChecksumAlgorithm_none = 0"

definition ChecksumAlgorithm_crc32c :: u16 where "ChecksumAlgorithm_crc32c = 1"

definition blockMagic :: "u8 list" where
  "blockMagic = [0x47, 0x4D, 0x50, 0x49, 0x50, 0x51, 0x54, 0]"

definition checksumOffset :: nat where "checksumOffset = 80"

definition checksumSize :: nat where "checksumSize = 4"

definition formatVersion :: u16 where "formatVersion = 1"

definition version1HeaderSize :: u16 where "version1HeaderSize = 112"

record CheckpointBlock =
  block_identity :: ComputationIdentity
  block_location :: BlockLocation
  block_p :: int
  block_q :: int
  block_t :: int

record EncodedCheckpointBlock =
  enc_bytes :: "u8 list"
  enc_payloadSize :: u64
  enc_checksumAlgorithm :: u16
  enc_checksum :: u32

definition blockChecksum :: "sse42 option \<Rightarrow> u8 list \<Rightarrow> u32 result" where
  "blockChecksum cpu bytes =
     res_bind (throw_if (length bytes < unat version1HeaderSize)
       (Invalid_argument ''Truncated checkpoint checksum input'')) (\<lambda>_.
     let checksum = CRC32C_calculate cpu (take checksumOffset bytes) 0;
         checksum = CRC32C_calculate cpu (replicate checksumSize 0) checksum;
         checksum = CRC32C_calculate cpu (drop (checksumOffset + checksumSize) bytes) checksum
     in Inr checksum)"

text \<open>One turn of the loop of \<open>checkedPayloadSize\<close>.\<close>

definition addPayloadSize :: "size_t \<Rightarrow> size_t \<Rightarrow> size_t result" where
  "addPayloadSize subtotal n =
     res_bind (throw_if (n > - 1 - ucast version1HeaderSize - subtotal)
       (Overflow_error ''Checkpoint block size overflow'')) (\<lambda>_. Inr (subtotal + n))"

definition checkedPayloadSize :: "size_t \<Rightarrow> size_t \<Rightarrow> size_t \<Rightarrow> size_t result" where
  "checkedPayloadSize pSize qSize tSize =
     res_bind (addPayloadSize 0 pSize) (\<lambda>subtotal.
     res_bind (addPayloadSize subtotal qSize) (\<lambda>subtotal. addPayloadSize subtotal tSize))"

definition blockHeader ::
  "gmp \<Rightarrow> ComputationIdentity \<Rightarrow> BlockLocation \<Rightarrow> u32 \<Rightarrow> int \<Rightarrow> int \<Rightarrow> int \<Rightarrow> size_t \<Rightarrow> size_t \<Rightarrow> size_t
   \<Rightarrow> u8 list" where
  "blockHeader g identity location checksum p q t pSize qSize tSize =
     blockMagic @ appendU16 formatVersion @ appendU16 version1HeaderSize @ appendU32 0
     @ appendU16 (id_algorithm identity) @ appendU16 (id_arithmeticVersion identity)
     @ appendU16 (id_formulaVersion identity) @ appendU16 0
     @ appendU64 (id_requestedDigits identity) @ appendU32 (id_guardDigits identity) @ appendU32 0
     @ appendU64 (id_workingDigits identity) @ appendU64 (id_termCount identity)
     @ appendU64 (loc_start location) @ appendU64 (loc_end location)
     @ appendU32 (loc_treeLevel location) @ appendU16 ChecksumAlgorithm_crc32c @ appendU16 4
     @ appendU32 checksum
     @ appendU8 (GMPSerialization_sign g p) @ appendU8 (GMPSerialization_sign g q)
     @ appendU8 (GMPSerialization_sign g t) @ appendU8 0
     @ appendU64 pSize @ appendU64 qSize @ appendU64 tSize"

definition CheckpointBlockCodec_encode_values ::
  "sse42 option \<Rightarrow> gmp \<Rightarrow> ComputationIdentity \<Rightarrow> BlockLocation \<Rightarrow> int \<Rightarrow> int \<Rightarrow> int
   \<Rightarrow> EncodedCheckpointBlock result" where
  "CheckpointBlockCodec_encode_values cpu g identity location p q t =
     res_bind (ComputationIdentity_validate identity) (\<lambda>_.
     res_bind (BlockLocation_validate location identity) (\<lambda>_.
     res_bind (magnitudeSize g p) (\<lambda>pSize.
     res_bind (magnitudeSize g q) (\<lambda>qSize.
     res_bind (magnitudeSize g t) (\<lambda>tSize.
     res_bind (checkedPayloadSize pSize qSize tSize) (\<lambda>payloadSize.
     let header = blockHeader g identity location 0 p q t pSize qSize tSize in
     res_bind (throw_if (length header \<noteq> unat version1HeaderSize)
       (Logic_error ''Checkpoint header size invariant failed'')) (\<lambda>_.
     res_bind (exportMagnitude g p pSize) (\<lambda>pBytes.
     res_bind (exportMagnitude g q qSize) (\<lambda>qBytes.
     res_bind (exportMagnitude g t tSize) (\<lambda>tBytes.
     let output = header @ pBytes @ qBytes @ tBytes in
     res_bind (blockChecksum cpu output) (\<lambda>checksum.
     Inr \<lparr>enc_bytes = storeU32 output checksumOffset checksum, enc_payloadSize = payloadSize,
          enc_checksumAlgorithm = ChecksumAlgorithm_crc32c, enc_checksum = checksum\<rparr>)))))))))))"

definition CheckpointBlockCodec_encode :: "sse42 option \<Rightarrow> gmp \<Rightarrow> CheckpointBlock \<Rightarrow> u8 list result" where
  "CheckpointBlockCodec_encode cpu g block =
     res_bind (CheckpointBlockCodec_encode_values cpu g (block_identity block) (block_location block)
       (block_p block) (block_q block) (block_t block)) (\<lambda>encoded. Inr (enc_bytes encoded))"

abbreviation truncated_block :: string where
  "truncated_block \<equiv> ''Truncated checkpoint block''"

definition addPayloadLength :: "size_t \<Rightarrow> size_t \<Rightarrow> size_t result" where
  "addPayloadLength payloadLength n =
     res_bind (throw_if (n > - 1 - payloadLength)
       (Invalid_argument ''Checkpoint payload length overflow'')) (\<lambda>_. Inr (payloadLength + n))"

text \<open>The fields up to and including the identity.\<close>

definition decodeIdentity :: "(u8 list, ComputationIdentity) action" where
  "decodeIdentity =
     st_bind (readU16 truncated_block) (\<lambda>algorithm.
     st_bind (readU16 truncated_block) (\<lambda>arithmeticVersion.
     st_bind (readU16 truncated_block) (\<lambda>formulaVersion.
     st_bind (readU16 truncated_block) (\<lambda>reserved.
     st_bind (st_throw_if (reserved \<noteq> 0) (Invalid_argument ''Non-zero checkpoint reserved field'')) (\<lambda>_.
     st_bind (readU64 truncated_block) (\<lambda>digits.
     st_bind (readU32 truncated_block) (\<lambda>guards.
     st_bind (readU32 truncated_block) (\<lambda>reserved.
     st_bind (st_throw_if (reserved \<noteq> 0) (Invalid_argument ''Non-zero checkpoint reserved field'')) (\<lambda>_.
     st_bind (readU64 truncated_block) (\<lambda>working.
     st_bind (readU64 truncated_block) (\<lambda>terms.
     st_return \<lparr>id_algorithm = algorithm, id_arithmeticVersion = arithmeticVersion,
       id_formulaVersion = formulaVersion, id_requestedDigits = digits, id_guardDigits = guards,
       id_workingDigits = working, id_termCount = terms\<rparr>)))))))))))"

definition decodeLocation :: "(u8 list, BlockLocation) action" where
  "decodeLocation =
     st_bind (readU64 truncated_block) (\<lambda>s.
     st_bind (readU64 truncated_block) (\<lambda>e.
     st_bind (readU32 truncated_block) (\<lambda>level.
     st_return \<lparr>loc_start = s, loc_end = e, loc_treeLevel = level\<rparr>)))"

text \<open>The payload: signs, lengths and magnitudes.\<close>

definition decodePayload :: "gmp \<Rightarrow> (u8 list, int \<times> int \<times> int) action" where
  "decodePayload g =
     st_bind (readU8 truncated_block) (\<lambda>pSign.
     st_bind (readU8 truncated_block) (\<lambda>qSign.
     st_bind (readU8 truncated_block) (\<lambda>tSign.
     st_bind (readU8 truncated_block) (\<lambda>reserved.
     st_bind (st_throw_if (reserved \<noteq> 0) (Invalid_argument ''Non-zero checkpoint reserved field'')) (\<lambda>_.
     st_bind (readU64 truncated_block) (\<lambda>pLength.
     st_bind (readU64 truncated_block) (\<lambda>qLength.
     st_bind (readU64 truncated_block) (\<lambda>tLength.
     st_bind (st_lift (addPayloadLength pLength qLength)) (\<lambda>payloadLength.
     st_bind (st_lift (addPayloadLength payloadLength tLength)) (\<lambda>payloadLength.
     st_bind (\<lambda>rest. (throw_if (unat payloadLength \<noteq> length rest)
       (Invalid_argument ''Checkpoint payload lengths do not match the file size''), rest)) (\<lambda>_.
     st_bind (reader_take truncated_block (unat pLength)) (\<lambda>pBytes.
     st_bind (st_lift (GMPSerialization_decode g pSign pBytes)) (\<lambda>p.
     st_bind (reader_take truncated_block (unat qLength)) (\<lambda>qBytes.
     st_bind (st_lift (GMPSerialization_decode g qSign qBytes)) (\<lambda>q.
     st_bind (reader_take truncated_block (unat tLength)) (\<lambda>tBytes.
     st_bind (st_lift (GMPSerialization_decode g tSign tBytes)) (\<lambda>t.
     st_return (p, q, t))))))))))))))))))"

definition decodeBlock :: "sse42 option \<Rightarrow> gmp \<Rightarrow> u8 list \<Rightarrow> (u8 list, CheckpointBlock) action" where
  "decodeBlock cpu g bytes =
     st_bind (reader_take truncated_block (length blockMagic)) (\<lambda>magic.
     st_bind (st_throw_if (magic \<noteq> blockMagic) (Invalid_argument ''Invalid checkpoint block magic'')) (\<lambda>_.
     st_bind (readU16 truncated_block) (\<lambda>version.
     st_bind (st_throw_if (version \<noteq> formatVersion)
       (Invalid_argument ''Unsupported checkpoint block version'')) (\<lambda>_.
     st_bind (readU16 truncated_block) (\<lambda>headerSize.
     st_bind (st_throw_if (headerSize \<noteq> version1HeaderSize)
       (Invalid_argument ''Unsupported checkpoint block version'')) (\<lambda>_.
     st_bind (readU32 truncated_block) (\<lambda>flags.
     st_bind (st_throw_if (flags \<noteq> 0) (Invalid_argument ''Unsupported checkpoint block flags'')) (\<lambda>_.
     st_bind decodeIdentity (\<lambda>identity.
     st_bind (st_lift (ComputationIdentity_validate identity)) (\<lambda>_.
     st_bind decodeLocation (\<lambda>location.
     st_bind (st_lift (BlockLocation_validate location identity)) (\<lambda>_.
     st_bind (readU16 truncated_block) (\<lambda>checksumAlgorithm.
     st_bind (readU16 truncated_block) (\<lambda>checksumLength.
     st_bind (readU32 truncated_block) (\<lambda>checksumValue.
     st_bind (st_throw_if (checksumAlgorithm \<noteq> ChecksumAlgorithm_crc32c \<or> checksumLength \<noteq> 4)
       (Invalid_argument ''Unsupported checkpoint checksum metadata'')) (\<lambda>_.
     st_bind (st_lift (blockChecksum cpu bytes)) (\<lambda>expected.
     st_bind (st_throw_if (checksumValue \<noteq> expected) (Invalid_argument ''Checkpoint CRC32C mismatch'')) (\<lambda>_.
     st_bind (decodePayload g) (\<lambda>(p, q, t).
     st_return \<lparr>block_identity = identity, block_location = location, block_p = p, block_q = q,
       block_t = t\<rparr>)))))))))))))))))))"

definition CheckpointBlockCodec_decode :: "sse42 option \<Rightarrow> gmp \<Rightarrow> u8 list \<Rightarrow> CheckpointBlock result" where
  "CheckpointBlockCodec_decode cpu g bytes = fst (decodeBlock cpu g bytes bytes)"

section \<open>The layout of a block\<close>

lemma length_blockHeader: "length (blockHeader g i l c p q t ps qs ts) = 112"
  by (simp add: blockHeader_def blockMagic_def)

lemma blockHeader_split:
  "\<exists>pre post. length pre = 80 \<and> (\<forall>c. blockHeader g i l c p q t ps qs ts = pre @ appendU32 c @ post)"
proof -
  define pre where "pre = blockMagic @ appendU16 formatVersion @ appendU16 version1HeaderSize @ appendU32 0
     @ appendU16 (id_algorithm i) @ appendU16 (id_arithmeticVersion i)
     @ appendU16 (id_formulaVersion i) @ appendU16 0
     @ appendU64 (id_requestedDigits i) @ appendU32 (id_guardDigits i) @ appendU32 0
     @ appendU64 (id_workingDigits i) @ appendU64 (id_termCount i)
     @ appendU64 (loc_start l) @ appendU64 (loc_end l)
     @ appendU32 (loc_treeLevel l) @ appendU16 ChecksumAlgorithm_crc32c @ appendU16 4"
  have "length pre = 80"
    by (simp add: pre_def blockMagic_def)
  moreover have "blockHeader g i l c p q t ps qs ts = pre @ appendU32 c @ (
      appendU8 (GMPSerialization_sign g p) @ appendU8 (GMPSerialization_sign g q)
     @ appendU8 (GMPSerialization_sign g t) @ appendU8 0
     @ appendU64 ps @ appendU64 qs @ appendU64 ts)" for c
    by (simp add: blockHeader_def pre_def)
  ultimately show ?thesis by blast
qed

text \<open>The checksum leaves its slot out, so storing it does not change it.\<close>

lemma blockChecksum_slot:
  "blockChecksum cpu (blockHeader g i l c p q t ps qs ts @ payload)
   = blockChecksum cpu (blockHeader g i l c' p q t ps qs ts @ payload)"
proof -
  obtain pre post where "length pre = 80" "\<And>c. blockHeader g i l c p q t ps qs ts = pre @ appendU32 c @ post"
    using blockHeader_split by blast
  then show ?thesis
    by (simp add: blockChecksum_def checksumOffset_def checksumSize_def)
qed

lemma blockChecksum_total: "112 \<le> length bytes \<Longrightarrow> \<exists>c. blockChecksum cpu bytes = Inr c"
  by (simp add: blockChecksum_def version1HeaderSize_def)

lemma store_checksum:
  "storeU32 (blockHeader g i l c p q t ps qs ts @ payload) checksumOffset c'
   = blockHeader g i l c' p q t ps qs ts @ payload"
proof -
  obtain pre post where "length pre = 80" "\<And>c. blockHeader g i l c p q t ps qs ts = pre @ appendU32 c @ post"
    using blockHeader_split by blast
  then show ?thesis
    by (simp add: storeU32_def checksumOffset_def)
qed

section \<open>Encoding and decoding\<close>

text \<open>The blocks of a format with 64-bit lengths.\<close>

definition payload_length :: "gmp \<Rightarrow> int \<Rightarrow> int \<Rightarrow> int \<Rightarrow> nat" where
  "payload_length g p q t = length (mpz_export_be g p) + length (mpz_export_be g q) + length (mpz_export_be g t)"

definition block_fits :: "gmp \<Rightarrow> int \<Rightarrow> int \<Rightarrow> int \<Rightarrow> bool" where
  "block_fits g p q t \<longleftrightarrow> gmp_fits p \<and> gmp_fits q \<and> gmp_fits t \<and> payload_length g p q t + 112 < 2 ^ 64"

lemma addPayloadSize_Inr:
  assumes "unat subtotal + 112 < 2 ^ 64"
  shows "addPayloadSize subtotal n = Inr s \<longleftrightarrow> unat subtotal + unat n + 112 < 2 ^ 64 \<and> unat s = unat subtotal + unat n"
proof -
  have "unat (- 1 - ucast version1HeaderSize :: u64) = 2 ^ 64 - 1 - 112"
    by (subst unat_sub_le) (simp_all add: unat_max_word version1HeaderSize_def)
  moreover have "subtotal \<le> - 1 - ucast version1HeaderSize"
    using assms calculation by (simp add: word_le_nat_alt)
  ultimately have "unat (- 1 - ucast version1HeaderSize - subtotal) = 2 ^ 64 - 1 - 112 - unat subtotal"
    by (simp add: unat_sub_le)
  then have "\<not> n > - 1 - ucast version1HeaderSize - subtotal \<longleftrightarrow> unat subtotal + unat n + 112 < 2 ^ 64"
    using assms by (auto simp: word_less_nat_alt)
  moreover have "unat (subtotal + n) = unat subtotal + unat n" if "unat subtotal + unat n + 112 < 2 ^ 64"
    using that by (intro unat_add_no_wrap) simp
  ultimately show ?thesis
    by (auto simp: addPayloadSize_def res_elim word_unat_eq_iff)
qed

lemma checkedPayloadSize_Inr:
  "checkedPayloadSize ps qs ts = Inr s \<longleftrightarrow>
     unat ps + unat qs + unat ts + 112 < 2 ^ 64 \<and> unat s = unat ps + unat qs + unat ts"
proof -
  have p: "addPayloadSize 0 ps = Inr a \<longleftrightarrow> unat ps + 112 < 2 ^ 64 \<and> unat a = unat ps" for a
    using addPayloadSize_Inr [of 0 ps a] by simp
  have q: "addPayloadSize a qs = Inr b \<longleftrightarrow> unat ps + unat qs + 112 < 2 ^ 64 \<and> unat b = unat ps + unat qs"
    if "unat a = unat ps" "unat ps + 112 < 2 ^ 64" for a b
    using addPayloadSize_Inr [of a qs b] that by simp
  have t: "addPayloadSize b ts = Inr s \<longleftrightarrow> unat ps + unat qs + unat ts + 112 < 2 ^ 64 \<and> unat s = unat ps + unat qs + unat ts"
    if "unat b = unat ps + unat qs" "unat ps + unat qs + 112 < 2 ^ 64" for b
    using addPayloadSize_Inr [of b ts s] that by simp
  show ?thesis
  proof
    assume "checkedPayloadSize ps qs ts = Inr s"
    then show "unat ps + unat qs + unat ts + 112 < 2 ^ 64 \<and> unat s = unat ps + unat qs + unat ts"
      using p q t by (auto simp: checkedPayloadSize_def res_elim)
  next
    assume r: "unat ps + unat qs + unat ts + 112 < 2 ^ 64 \<and> unat s = unat ps + unat qs + unat ts"
    then have "unat ps + unat qs < 2 ^ 64" by simp
    then obtain b :: u64 where b: "unat b = unat ps + unat qs"
      using ex_unat_u64 by blast
    have "addPayloadSize 0 ps = Inr ps" "addPayloadSize ps qs = Inr b" "addPayloadSize b ts = Inr s"
      using p [of ps] q [of ps b] t [OF b] r b by simp_all
    then show "checkedPayloadSize ps qs ts = Inr s"
      by (simp add: checkedPayloadSize_def)
  qed
qed

lemma addPayloadLength_Inr:
  "addPayloadLength len n = Inr s \<longleftrightarrow> unat len + unat n < 2 ^ 64 \<and> unat s = unat len + unat n"
proof -
  have "unat (- 1 - len) = 2 ^ 64 - 1 - unat len"
    by (subst unat_sub_le) (simp_all add: unat_max_word)
  then have "\<not> n > - 1 - len \<longleftrightarrow> unat len + unat n < 2 ^ 64"
    using unat_u64_less [of len] by (auto simp: word_less_nat_alt)
  then show ?thesis
    by (auto simp: addPayloadLength_def res_elim word_unat_eq_iff unat_add_no_wrap)
qed

context gmp_library begin

lemma encode_ok:
  assumes valid: "ComputationIdentity_validate i = Inr ()" "BlockLocation_validate l i = Inr ()"
    and fits: "block_fits g p q t"
  obtains c s ps qs ts where
    "CheckpointBlockCodec_encode_values cpu g i l p q t = Inr \<lparr>
       enc_bytes = blockHeader g i l c p q t ps qs ts @ mpz_export_be g p @ mpz_export_be g q @ mpz_export_be g t,
       enc_payloadSize = s, enc_checksumAlgorithm = ChecksumAlgorithm_crc32c, enc_checksum = c\<rparr>"
    "blockChecksum cpu (blockHeader g i l c p q t ps qs ts @ mpz_export_be g p @ mpz_export_be g q @ mpz_export_be g t) = Inr c"
    "unat ps = length (mpz_export_be g p)" "unat qs = length (mpz_export_be g q)"
    "unat ts = length (mpz_export_be g t)" "unat s = payload_length g p q t"
proof -
  have f: "gmp_fits p" "gmp_fits q" "gmp_fits t" and total: "payload_length g p q t + 112 < 2 ^ 64"
    using fits by (simp_all add: block_fits_def)
  obtain ps where ps: "magnitudeSize g p = Inr ps" "unat ps = length (mpz_export_be g p)"
    "exportMagnitude g p ps = Inr (mpz_export_be g p)"
    by (rule magnitude_codec [OF f(1)]) (rule that)
  obtain qs where qs: "magnitudeSize g q = Inr qs" "unat qs = length (mpz_export_be g q)"
    "exportMagnitude g q qs = Inr (mpz_export_be g q)"
    by (rule magnitude_codec [OF f(2)]) (rule that)
  obtain ts where ts: "magnitudeSize g t = Inr ts" "unat ts = length (mpz_export_be g t)"
    "exportMagnitude g t ts = Inr (mpz_export_be g t)"
    by (rule magnitude_codec [OF f(3)]) (rule that)
  have "payload_length g p q t < 2 ^ 64" using total by simp
  then obtain s :: u64 where s: "unat s = payload_length g p q t"
    using ex_unat_u64 by blast
  have size: "checkedPayloadSize ps qs ts = Inr s"
    using total s ps(2) qs(2) ts(2) by (simp add: checkedPayloadSize_Inr payload_length_def)
  define payload where "payload = mpz_export_be g p @ mpz_export_be g q @ mpz_export_be g t"
  obtain c where c: "blockChecksum cpu (blockHeader g i l 0 p q t ps qs ts @ payload) = Inr c"
    using blockChecksum_total [of "blockHeader g i l 0 p q t ps qs ts @ payload" cpu] by (auto simp: length_blockHeader)
  have "CheckpointBlockCodec_encode_values cpu g i l p q t = Inr \<lparr>
       enc_bytes = blockHeader g i l c p q t ps qs ts @ payload,
       enc_payloadSize = s, enc_checksumAlgorithm = ChecksumAlgorithm_crc32c, enc_checksum = c\<rparr>"
    using c by (simp add: CheckpointBlockCodec_encode_values_def valid ps qs ts size length_blockHeader
        version1HeaderSize_def payload_def [symmetric] store_checksum Let_def)
  moreover have "blockChecksum cpu (blockHeader g i l c p q t ps qs ts @ payload) = Inr c"
    using c blockChecksum_slot by metis
  ultimately show thesis
    using ps(2) qs(2) ts(2) s by (intro that) (simp_all add: payload_def)
qed

lemma decodePayload_ok:
  assumes "gmp_fits p" "gmp_fits q" "gmp_fits t"
    and "unat ps = length (mpz_export_be g p)" "unat qs = length (mpz_export_be g q)"
    and "unat ts = length (mpz_export_be g t)" "payload_length g p q t < 2 ^ 64"
  shows "decodePayload g (appendU8 (GMPSerialization_sign g p) @ appendU8 (GMPSerialization_sign g q)
      @ appendU8 (GMPSerialization_sign g t) @ appendU8 0 @ appendU64 ps @ appendU64 qs @ appendU64 ts
      @ mpz_export_be g p @ mpz_export_be g q @ mpz_export_be g t) = (Inr (p, q, t), [])"
proof -
  have "unat ps + unat qs < 2 ^ 64"
    using assms(4-7) by (simp add: payload_length_def)
  then obtain a :: u64 where a: "unat a = unat ps + unat qs"
    using ex_unat_u64 by blast
  obtain b :: u64 where b: "unat b = unat ps + unat qs + unat ts"
    using ex_unat_u64 [OF assms(7)] assms(4-6) by (auto simp: payload_length_def)
  have lens: "addPayloadLength ps qs = Inr a" "addPayloadLength a ts = Inr b"
    using a b assms(4-7) by (simp_all add: addPayloadLength_Inr payload_length_def)
  have dec: "GMPSerialization_decode g (GMPSerialization_sign g x) (mpz_export_be g x) = Inr x" if "gmp_fits x" for x
    by (rule magnitude_codec [OF that])
  have len: "unat b = length (mpz_export_be g p) + (length (mpz_export_be g q) + length (mpz_export_be g t))"
    using b assms(4-6) by simp
  have last: "reader_take msg (unat ts) (mpz_export_be g t) = (Inr (mpz_export_be g t), [])" for msg
    using reader_take_append [of "mpz_export_be g t" "unat ts" msg "[]"] assms(6) by simp
  show ?thesis
    by (simp add: decodePayload_def st_bind_def lens len assms(4,5) dec assms(1-3) last)
qed

lemma decode_ok:
  assumes valid: "ComputationIdentity_validate i = Inr ()" "BlockLocation_validate l i = Inr ()"
    and fits: "gmp_fits p" "gmp_fits q" "gmp_fits t" "payload_length g p q t < 2 ^ 64"
    and sizes: "unat ps = length (mpz_export_be g p)" "unat qs = length (mpz_export_be g q)"
      "unat ts = length (mpz_export_be g t)"
    and sum: "blockChecksum cpu (blockHeader g i l c p q t ps qs ts @ mpz_export_be g p @ mpz_export_be g q @ mpz_export_be g t) = Inr c"
  shows "CheckpointBlockCodec_decode cpu g
      (blockHeader g i l c p q t ps qs ts @ mpz_export_be g p @ mpz_export_be g q @ mpz_export_be g t)
    = Inr \<lparr>block_identity = i, block_location = l, block_p = p, block_q = q, block_t = t\<rparr>"
proof -
  have ident: "decodeIdentity (appendU16 (id_algorithm i) @ appendU16 (id_arithmeticVersion i)
     @ appendU16 (id_formulaVersion i) @ appendU16 0
     @ appendU64 (id_requestedDigits i) @ appendU32 (id_guardDigits i) @ appendU32 0
     @ appendU64 (id_workingDigits i) @ appendU64 (id_termCount i) @ rest) = (Inr i, rest)" for rest
    by (simp add: decodeIdentity_def st_bind_def)
  have loc: "decodeLocation (appendU64 (loc_start l) @ appendU64 (loc_end l) @ appendU32 (loc_treeLevel l) @ rest)
      = (Inr l, rest)" for rest
    by (simp add: decodeLocation_def st_bind_def)
  have "decodeBlock cpu g bytes (blockHeader g i l c p q t ps qs ts @ mpz_export_be g p @ mpz_export_be g q @ mpz_export_be g t)
      = (Inr \<lparr>block_identity = i, block_location = l, block_p = p, block_q = q, block_t = t\<rparr>, [])"
    if "blockChecksum cpu bytes = Inr c" for bytes
    using decodePayload_ok [OF fits(1-3) sizes fits(4)]
    by (simp add: decodeBlock_def blockHeader_def st_bind_def ident loc valid that)
  then show ?thesis
    using sum by (simp add: CheckpointBlockCodec_decode_def)
qed

lemma decodeIdentity_Inr:
  "decodeIdentity bs = (Inr i, rest) \<Longrightarrow>
   bs = appendU16 (id_algorithm i) @ appendU16 (id_arithmeticVersion i)
     @ appendU16 (id_formulaVersion i) @ appendU16 0
     @ appendU64 (id_requestedDigits i) @ appendU32 (id_guardDigits i) @ appendU32 0
     @ appendU64 (id_workingDigits i) @ appendU64 (id_termCount i) @ rest"
  by (auto simp: decodeIdentity_def st_bind_eq_Inr read_iff)

lemma decodeLocation_Inr:
  "decodeLocation bs = (Inr l, rest) \<Longrightarrow>
   bs = appendU64 (loc_start l) @ appendU64 (loc_end l) @ appendU32 (loc_treeLevel l) @ rest"
  by (auto simp: decodeLocation_def st_bind_eq_Inr read_iff)

lemma decodePayload_Inr:
  assumes "decodePayload g bs = (Inr (p, q, t), rest)"
  shows "\<exists>ps qs ts. bs = appendU8 (GMPSerialization_sign g p) @ appendU8 (GMPSerialization_sign g q)
      @ appendU8 (GMPSerialization_sign g t) @ appendU8 0 @ appendU64 ps @ appendU64 qs @ appendU64 ts
      @ mpz_export_be g p @ mpz_export_be g q @ mpz_export_be g t
    \<and> unat ps = length (mpz_export_be g p) \<and> unat qs = length (mpz_export_be g q)
    \<and> unat ts = length (mpz_export_be g t) \<and> payload_length g p q t < 2 ^ 64"
proof -
  obtain sp sq st ps qs ts a b pb qb tb where
    bs: "bs = appendU8 sp @ appendU8 sq @ appendU8 st @ appendU8 0 @ appendU64 ps @ appendU64 qs @ appendU64 ts
      @ pb @ qb @ tb @ rest"
    and len: "addPayloadLength ps qs = Inr a" "addPayloadLength a ts = Inr b" "unat b = length (pb @ qb @ tb @ rest)"
    and parts: "length pb = unat ps" "length qb = unat qs" "length tb = unat ts"
    and dec: "GMPSerialization_decode g sp pb = Inr p" "GMPSerialization_decode g sq qb = Inr q"
      "GMPSerialization_decode g st tb = Inr t"
    using assms by (auto simp: decodePayload_def st_bind_eq_Inr read_iff reader_take_iff)
  have "unat b = unat ps + unat qs + unat ts" "unat ps + unat qs + unat ts < 2 ^ 64"
    using len(1,2) by (auto simp: addPayloadLength_Inr)
  then have "rest = []" "unat ps + unat qs + unat ts < 2 ^ 64"
    using len(3) parts by simp_all
  then show ?thesis
    using bs parts decode_Inr [OF dec(1)] decode_Inr [OF dec(2)] decode_Inr [OF dec(3)]
    by (auto simp: payload_length_def)
qed

lemma decode_canonical:
  assumes "CheckpointBlockCodec_decode cpu g bytes = Inr b"
  obtains i l p q t c ps qs ts where
    "b = \<lparr>block_identity = i, block_location = l, block_p = p, block_q = q, block_t = t\<rparr>"
    "ComputationIdentity_validate i = Inr ()" "BlockLocation_validate l i = Inr ()"
    "bytes = blockHeader g i l c p q t ps qs ts @ mpz_export_be g p @ mpz_export_be g q @ mpz_export_be g t"
    "blockChecksum cpu bytes = Inr c"
    "unat ps = length (mpz_export_be g p)" "unat qs = length (mpz_export_be g q)"
    "unat ts = length (mpz_export_be g t)"
proof -
  obtain rest where "decodeBlock cpu g bytes bytes = (Inr b, rest)"
    using assms unfolding CheckpointBlockCodec_decode_def by (metis prod.collapse)
  then obtain i l c bs1 bs2 bs3 p q t rest' where
    d: "bytes = blockMagic @ appendU16 formatVersion @ appendU16 version1HeaderSize @ appendU32 0 @ bs1"
    "decodeIdentity bs1 = (Inr i, bs2)" "ComputationIdentity_validate i = Inr ()"
    "decodeLocation bs2 = (Inr l, appendU16 ChecksumAlgorithm_crc32c @ appendU16 4 @ appendU32 c @ bs3)"
    "BlockLocation_validate l i = Inr ()" "blockChecksum cpu bytes = Inr c"
    "decodePayload g bs3 = (Inr (p, q, t), rest')"
    "b = \<lparr>block_identity = i, block_location = l, block_p = p, block_q = q, block_t = t\<rparr>"
    unfolding decodeBlock_def
    by (auto simp: st_bind_eq_Inr read_iff reader_take_iff split: prod.splits)
  show thesis
    using decodePayload_Inr [OF d(7)] decodeIdentity_Inr [OF d(2)] decodeLocation_Inr [OF d(4)] d
    by (elim exE conjE) (rule that [of i l p q t c], simp_all add: blockHeader_def)
qed

end

text \<open>The block format keeps the contract of a checksummed format.\<close>

lemma block_checksummed:
  assumes "gmp_library g" and "cpu_ok cpu"
  shows "checksummed_format (CheckpointBlockCodec_decode cpu g) 80"
proof
  fix bytes b
  assume "CheckpointBlockCodec_decode cpu g bytes = Inr b"
  then obtain i l p q t c ps qs ts where
    b: "bytes = blockHeader g i l c p q t ps qs ts @ mpz_export_be g p @ mpz_export_be g q @ mpz_export_be g t"
    "blockChecksum cpu bytes = Inr c"
    by (rule gmp_library.decode_canonical [OF assms(1)])
  obtain pre post where h: "length pre = 80" "\<And>c. blockHeader g i l c p q t ps qs ts = pre @ appendU32 c @ post"
    using blockHeader_split by blast
  have "take 4 (drop 80 bytes) = appendU32 c"
    using h by (simp add: b(1))
  moreover have "crc_ref (slot_zeroed 80 bytes) 0 = c"
    using b(2) by (auto simp: blockChecksum_def res_elim checksumOffset_def checksumSize_def
        crc_calculate_eq [OF assms(2)] crc_ref_append slot_zeroed_def)
  moreover have "112 \<le> length bytes"
    unfolding b(1) by (simp add: length_blockHeader)
  ultimately show "80 + 4 \<le> length bytes \<and> take 4 (drop 80 bytes) = appendU32 (crc_ref (slot_zeroed 80 bytes) 0)"
    by simp
qed

interpretation portable_block: checksummed_format "CheckpointBlockCodec_decode None gmp_ref" 80
  by (rule block_checksummed [OF gmp_ref.gmp_library_axioms]) simp

lemma gmp_fits_bytes:
  assumes "gmp_library g" and "length (mpz_export_be g a) < 2 ^ 61"
  shows "gmp_fits a"
proof (cases "a = 0")
  case False
  have "(nat (bitlen \<bar>a\<bar>) + 7) div 8 < 2 ^ 61"
    using gmp_library.export_bitlen [OF assms(1) False] assms(2) by simp
  then have "nat (bitlen \<bar>a\<bar>) + 7 < 2 ^ 64"
    by (simp add: div_less_iff_less_mult)
  then show ?thesis
    by (simp add: gmp_fits_def nat_less_iff)
qed (simp add: gmp_fits_def)

lemma block_roundtrip:
  assumes "gmp_library g" and "ComputationIdentity_validate i = Inr ()" and "BlockLocation_validate l i = Inr ()"
    and "block_fits g p q t"
  shows "\<exists>e. CheckpointBlockCodec_encode_values cpu g i l p q t = Inr e
    \<and> unat (enc_payloadSize e) = payload_length g p q t \<and> length (enc_bytes e) = 112 + payload_length g p q t
    \<and> blockChecksum cpu (enc_bytes e) = Inr (enc_checksum e)
    \<and> CheckpointBlockCodec_decode cpu g (enc_bytes e)
        = Inr \<lparr>block_identity = i, block_location = l, block_p = p, block_q = q, block_t = t\<rparr>"
proof -
  obtain c s ps qs ts where e:
    "CheckpointBlockCodec_encode_values cpu g i l p q t = Inr \<lparr>
       enc_bytes = blockHeader g i l c p q t ps qs ts @ mpz_export_be g p @ mpz_export_be g q @ mpz_export_be g t,
       enc_payloadSize = s, enc_checksumAlgorithm = ChecksumAlgorithm_crc32c, enc_checksum = c\<rparr>"
    "blockChecksum cpu (blockHeader g i l c p q t ps qs ts @ mpz_export_be g p @ mpz_export_be g q @ mpz_export_be g t) = Inr c"
    "unat ps = length (mpz_export_be g p)" "unat qs = length (mpz_export_be g q)"
    "unat ts = length (mpz_export_be g t)" "unat s = payload_length g p q t"
    by (rule gmp_library.encode_ok [OF assms]) (rule that)
  have "CheckpointBlockCodec_decode cpu g
      (blockHeader g i l c p q t ps qs ts @ mpz_export_be g p @ mpz_export_be g q @ mpz_export_be g t)
    = Inr \<lparr>block_identity = i, block_location = l, block_p = p, block_q = q, block_t = t\<rparr>"
    using assms(4) by (intro gmp_library.decode_ok [OF assms(1-3)] e(2-5)) (simp_all add: block_fits_def)
  then show ?thesis
    using e by (simp add: length_blockHeader payload_length_def)
qed

section \<open>Properties\<close>

text \<open>
  C12: Every block of a valid computation survives the format: encoding succeeds, the metadata
  records the payload length and the stored checksum, and decoding the bytes gives the block back.
\<close>

theorem CheckpointBlock_roundtrip:
  assumes "gmp_library g" and "ComputationIdentity_validate i = Inr ()" and "BlockLocation_validate l i = Inr ()"
    and "block_fits g p q t"
  shows "\<exists>e. CheckpointBlockCodec_encode_values cpu g i l p q t = Inr e
    \<and> unat (enc_payloadSize e) = payload_length g p q t \<and> length (enc_bytes e) = 112 + payload_length g p q t
    \<and> blockChecksum cpu (enc_bytes e) = Inr (enc_checksum e)
    \<and> CheckpointBlockCodec_decode cpu g (enc_bytes e)
        = Inr \<lparr>block_identity = i, block_location = l, block_p = p, block_q = q, block_t = t\<rparr>"
  using assms by (rule block_roundtrip)

text \<open>A valid identity and small values for the concrete instances.\<close>

definition sample_identity :: ComputationIdentity where
  "sample_identity = \<lparr>id_algorithm = 1, id_arithmeticVersion = 1, id_formulaVersion = 1,
     id_requestedDigits = 50, id_guardDigits = 32, id_workingDigits = 82, id_termCount = 7\<rparr>"

lemma sample_identity_valid: "ComputationIdentity_validate sample_identity = Inr ()"
  by code_simp

lemma sample_fits: "block_fits gmp_ref 5 24 (- 7)"
proof -
  have "bitlen (5 :: int) = 3" "bitlen (24 :: int) = 5" "bitlen (7 :: int) = 3"
    by code_simp+
  moreover have "payload_length gmp_ref 5 24 (- 7) = 3"
    by (simp add: payload_length_def gmp_ref_def be_bytes.simps)
  ultimately show ?thesis
    by (simp add: block_fits_def gmp_fits_def)
qed

theorem CheckpointBlock_roundtrip_witness:
  "\<exists>e. CheckpointBlockCodec_encode_values None gmp_ref sample_identity
      \<lparr>loc_start = 1, loc_end = 3, loc_treeLevel = 1\<rparr> 5 24 (- 7) = Inr e
    \<and> CheckpointBlockCodec_decode None gmp_ref (enc_bytes e)
        = Inr \<lparr>block_identity = sample_identity, block_location = \<lparr>loc_start = 1, loc_end = 3, loc_treeLevel = 1\<rparr>,
            block_p = 5, block_q = 24, block_t = - 7\<rparr>"
proof -
  have "BlockLocation_validate \<lparr>loc_start = 1, loc_end = 3, loc_treeLevel = 1\<rparr> sample_identity = Inr ()"
    by code_simp
  from CheckpointBlock_roundtrip [OF gmp_ref.gmp_library_axioms sample_identity_valid this sample_fits]
  show ?thesis by blast
qed

text \<open>
  The block format is canonical: the decoder accepts a byte string only if it is the encoding of
  the block it returns, byte for byte.
\<close>

theorem CheckpointBlock_canonical:
  assumes "gmp_library g" and "CheckpointBlockCodec_decode cpu g bytes = Inr b" and "length bytes < 2 ^ 61"
  shows "CheckpointBlockCodec_encode cpu g b = Inr bytes"
proof -
  obtain i l p q t c ps qs ts where d:
    "b = \<lparr>block_identity = i, block_location = l, block_p = p, block_q = q, block_t = t\<rparr>"
    "ComputationIdentity_validate i = Inr ()" "BlockLocation_validate l i = Inr ()"
    "bytes = blockHeader g i l c p q t ps qs ts @ mpz_export_be g p @ mpz_export_be g q @ mpz_export_be g t"
    "blockChecksum cpu bytes = Inr c"
    "unat ps = length (mpz_export_be g p)" "unat qs = length (mpz_export_be g q)"
    "unat ts = length (mpz_export_be g t)"
    by (rule gmp_library.decode_canonical [OF assms(1,2)]) (rule that)
  have "112 + payload_length g p q t < 2 ^ 61"
    using assms(3) d(4) by (simp add: length_blockHeader payload_length_def)
  then have fits: "block_fits g p q t"
    using gmp_fits_bytes [OF assms(1)] by (auto simp: block_fits_def payload_length_def)
  obtain c' s ps' qs' ts' where e:
    "CheckpointBlockCodec_encode_values cpu g i l p q t = Inr \<lparr>
       enc_bytes = blockHeader g i l c' p q t ps' qs' ts' @ mpz_export_be g p @ mpz_export_be g q @ mpz_export_be g t,
       enc_payloadSize = s, enc_checksumAlgorithm = ChecksumAlgorithm_crc32c, enc_checksum = c'\<rparr>"
    "blockChecksum cpu (blockHeader g i l c' p q t ps' qs' ts' @ mpz_export_be g p @ mpz_export_be g q @ mpz_export_be g t) = Inr c'"
    "unat ps' = length (mpz_export_be g p)" "unat qs' = length (mpz_export_be g q)"
    "unat ts' = length (mpz_export_be g t)"
    by (rule gmp_library.encode_ok [OF assms(1) d(2,3) fits]) (rule that)
  have "ps' = ps" "qs' = qs" "ts' = ts"
    using d(6-8) e(3-5) by (simp_all add: word_unat_eq_iff)
  moreover from this have "c' = c"
    using d(4,5) e(2) blockChecksum_slot [of cpu g i l c' p q t ps qs ts _ c] by simp
  ultimately show ?thesis
    using d(1,4) e(1) by (simp add: CheckpointBlockCodec_encode_def)
qed

theorem CheckpointBlock_canonical_witness:
  "\<exists>bytes b. CheckpointBlockCodec_decode None gmp_ref bytes = Inr b
    \<and> CheckpointBlockCodec_encode None gmp_ref b = Inr bytes"
proof -
  have l: "BlockLocation_validate \<lparr>loc_start = 1, loc_end = 3, loc_treeLevel = 1\<rparr> sample_identity = Inr ()"
    by code_simp
  have len: "payload_length gmp_ref 5 24 (- 7) = 3"
    by (simp add: payload_length_def gmp_ref_def be_bytes.simps)
  obtain c s ps qs ts where e:
    "blockChecksum None (blockHeader gmp_ref sample_identity \<lparr>loc_start = 1, loc_end = 3, loc_treeLevel = 1\<rparr> c 5 24 (- 7) ps qs ts
       @ mpz_export_be gmp_ref 5 @ mpz_export_be gmp_ref 24 @ mpz_export_be gmp_ref (- 7)) = Inr c"
    "unat ps = length (mpz_export_be gmp_ref 5)" "unat qs = length (mpz_export_be gmp_ref 24)"
    "unat ts = length (mpz_export_be gmp_ref (- 7))"
    by (rule gmp_ref.encode_ok [OF sample_identity_valid l sample_fits, of None]) (rule that)
  have "CheckpointBlockCodec_decode None gmp_ref (blockHeader gmp_ref sample_identity
      \<lparr>loc_start = 1, loc_end = 3, loc_treeLevel = 1\<rparr> c 5 24 (- 7) ps qs ts
       @ mpz_export_be gmp_ref 5 @ mpz_export_be gmp_ref 24 @ mpz_export_be gmp_ref (- 7))
      = Inr \<lparr>block_identity = sample_identity, block_location = \<lparr>loc_start = 1, loc_end = 3, loc_treeLevel = 1\<rparr>,
            block_p = 5, block_q = 24, block_t = - 7\<rparr>"
    using sample_fits by (intro gmp_ref.decode_ok [OF sample_identity_valid l] e) (simp_all add: block_fits_def)
  from CheckpointBlock_canonical [OF gmp_ref.gmp_library_axioms this] this show ?thesis
    using len by (fastforce simp: length_blockHeader payload_length_def)
qed



end
