(* ===== verification/Checkpoint_Manifest.thy ===== *)
theory Checkpoint_Manifest
  imports Checkpoint_Block_Codec "HOL-Library.Multiset"
begin

text \<open>
  The version-1 manifest format (src/src/checkpoint/CheckpointManifest.cpp): a 72-byte header, one
  entry of 48 bytes and a file name for each block in canonical order, and a CRC32C over the whole
  file with the checksum slot zeroed.  A \<open>std::string\<close> is its list of bytes as characters.
\<close>

section \<open>Operations\<close>

definition CompletionState_incomplete :: u8 where "CompletionState_incomplete = 0"

definition CompletionState_complete :: u8 where "CompletionState_complete = 1"

record ManifestEntry =
  entry_location :: BlockLocation
  entry_filename :: string
  entry_payloadSize :: u64
  entry_checksumAlgorithm :: u16
  entry_checksum :: u32
  entry_completion :: u8

record CheckpointManifest =
  man_identity :: ComputationIdentity
  man_entries :: "ManifestEntry list"

definition manifestMagic :: "u8 list" where
  "manifestMagic = [0x47, 0x4D, 0x50, 0x49, 0x4D, 0x41, 0x4E, 0]"

definition manifestChecksumOffset :: nat where "manifestChecksumOffset = 68"

definition fixedEntrySize :: size_t where "fixedEntrySize = 48"

definition manifestFormatVersion :: u16 where "manifestFormatVersion = 1"

definition manifestHeaderSize :: u16 where "manifestHeaderSize = 72"

abbreviation truncated_manifest :: string where
  "truncated_manifest \<equiv> ''Truncated checkpoint manifest''"

definition manifestChecksum :: "sse42 option \<Rightarrow> u8 list \<Rightarrow> u32 result" where
  "manifestChecksum cpu bytes =
     res_bind (throw_if (length bytes < unat manifestHeaderSize) (Invalid_argument truncated_manifest)) (\<lambda>_.
     let checksum = CRC32C_calculate cpu (take manifestChecksumOffset bytes) 0;
         checksum = CRC32C_calculate cpu (replicate checksumSize 0) checksum
     in Inr (CRC32C_calculate cpu (drop (manifestChecksumOffset + checksumSize) bytes) checksum))"

definition validateEntry :: "ManifestEntry \<Rightarrow> ComputationIdentity \<Rightarrow> unit result" where
  "validateEntry entry identity =
     res_bind (BlockLocation_validate (entry_location entry) identity) (\<lambda>_.
     res_bind (throw_if (entry_filename entry = []
         \<or> list_ex (\<lambda>c. c = CHR 0x2F \<or> c = CHR 0x5C) (entry_filename entry)
         \<or> list_ex (\<lambda>c. c = CHR 0x00) (entry_filename entry))
       (Invalid_argument ''Manifest filename must be a plain filename'')) (\<lambda>_.
     res_bind (throw_if (length (entry_filename entry) > unat (- 1 :: u32))
       (Length_error ''Manifest filename is too long'')) (\<lambda>_.
     res_bind (throw_if (entry_checksumAlgorithm entry \<noteq> ChecksumAlgorithm_crc32c)
       (Invalid_argument ''Manifest entry requires CRC32C metadata'')) (\<lambda>_.
     throw_if (entry_completion entry \<noteq> CompletionState_incomplete
         \<and> entry_completion entry \<noteq> CompletionState_complete)
       (Invalid_argument ''Unknown manifest completion state'')))))"

definition entryKey :: "ManifestEntry \<Rightarrow> u64 \<times> u64 \<times> u32" where
  "entryKey entry =
     (loc_start (entry_location entry), loc_end (entry_location entry), loc_treeLevel (entry_location entry))"

fun validateEntries :: "ManifestEntry list \<Rightarrow> ComputationIdentity \<Rightarrow> unit result" where
  "validateEntries [] identity = Inr ()"
| "validateEntries (entry # entries) identity =
     res_bind (validateEntry entry identity) (\<lambda>_. validateEntries entries identity)"

fun rejectDuplicates :: "ManifestEntry list \<Rightarrow> unit result" where
  "rejectDuplicates (a # b # entries) =
     res_bind (throw_if (entryKey a = entryKey b) (Invalid_argument ''Duplicate manifest block location''))
       (\<lambda>_. rejectDuplicates (b # entries))"
| "rejectDuplicates entries = Inr ()"

fun manifestSize :: "size_t \<Rightarrow> ManifestEntry list \<Rightarrow> size_t result" where
  "manifestSize totalSize [] = Inr totalSize"
| "manifestSize totalSize (entry # entries) =
     (let filenameSize = of_nat (length (entry_filename entry)) in
      res_bind (throw_if (filenameSize > - 1 - fixedEntrySize \<or> fixedEntrySize + filenameSize > - 1 - totalSize)
        (Overflow_error ''Checkpoint manifest size overflow'')) (\<lambda>_.
      manifestSize (totalSize + (fixedEntrySize + filenameSize)) entries))"

definition string_bytes :: "string \<Rightarrow> u8 list" where
  "string_bytes s = map (\<lambda>c. of_nat (of_char c)) s"

definition bytes_string :: "u8 list \<Rightarrow> string" where
  "bytes_string bs = map (\<lambda>b. char_of (unat b)) bs"

definition manifestHeader :: "ComputationIdentity \<Rightarrow> u64 \<Rightarrow> u32 \<Rightarrow> u8 list" where
  "manifestHeader identity entryCount checksum =
     manifestMagic @ appendU16 manifestFormatVersion @ appendU16 manifestHeaderSize @ appendU32 0
     @ appendU16 (id_algorithm identity) @ appendU16 (id_arithmeticVersion identity)
     @ appendU16 (id_formulaVersion identity) @ appendU16 0
     @ appendU64 (id_requestedDigits identity) @ appendU32 (id_guardDigits identity) @ appendU32 0
     @ appendU64 (id_workingDigits identity) @ appendU64 (id_termCount identity)
     @ appendU64 entryCount @ appendU16 ChecksumAlgorithm_crc32c @ appendU16 (of_nat checksumSize)
     @ appendU32 checksum"

definition encodeEntry :: "ManifestEntry \<Rightarrow> u8 list" where
  "encodeEntry entry =
     appendU64 (loc_start (entry_location entry)) @ appendU64 (loc_end (entry_location entry))
     @ appendU32 (loc_treeLevel (entry_location entry)) @ appendU8 (entry_completion entry)
     @ appendU8 0 @ appendU16 0 @ appendU64 (entry_payloadSize entry)
     @ appendU16 (entry_checksumAlgorithm entry) @ appendU16 (of_nat checksumSize)
     @ appendU32 (entry_checksum entry) @ appendU32 (of_nat (length (entry_filename entry))) @ appendU32 0
     @ string_bytes (entry_filename entry)"

definition CheckpointManifestCodec_encode :: "sse42 option \<Rightarrow> CheckpointManifest \<Rightarrow> u8 list result" where
  "CheckpointManifestCodec_encode cpu manifest =
     res_bind (ComputationIdentity_validate (man_identity manifest)) (\<lambda>_.
     res_bind (validateEntries (man_entries manifest) (man_identity manifest)) (\<lambda>_.
     let entries = sort_key entryKey (man_entries manifest) in
     res_bind (rejectDuplicates entries) (\<lambda>_.
     res_bind (manifestSize (ucast manifestHeaderSize) entries) (\<lambda>_.
     let output = manifestHeader (man_identity manifest) (of_nat (length entries)) 0
           @ concat (map encodeEntry entries) in
     res_bind (manifestChecksum cpu output) (\<lambda>checksum.
     Inr (storeU32 output manifestChecksumOffset checksum))))))"

definition manifestIdentity :: "(u8 list, ComputationIdentity) action" where
  "manifestIdentity =
     st_bind (readU16 truncated_manifest) (\<lambda>algorithm.
     st_bind (readU16 truncated_manifest) (\<lambda>arithmetic.
     st_bind (readU16 truncated_manifest) (\<lambda>formula.
     st_bind (readU16 truncated_manifest) (\<lambda>reserved.
     st_bind (st_throw_if (reserved \<noteq> 0) (Invalid_argument ''Non-zero manifest reserved field'')) (\<lambda>_.
     st_bind (readU64 truncated_manifest) (\<lambda>requested.
     st_bind (readU32 truncated_manifest) (\<lambda>guards.
     st_bind (readU32 truncated_manifest) (\<lambda>reserved.
     st_bind (st_throw_if (reserved \<noteq> 0) (Invalid_argument ''Non-zero manifest reserved field'')) (\<lambda>_.
     st_bind (readU64 truncated_manifest) (\<lambda>working.
     st_bind (readU64 truncated_manifest) (\<lambda>terms.
     st_return \<lparr>id_algorithm = algorithm, id_arithmeticVersion = arithmetic, id_formulaVersion = formula,
       id_requestedDigits = requested, id_guardDigits = guards, id_workingDigits = working,
       id_termCount = terms\<rparr>)))))))))))"

definition decodeEntry :: "(u8 list, ManifestEntry) action" where
  "decodeEntry =
     st_bind (readU64 truncated_manifest) (\<lambda>s.
     st_bind (readU64 truncated_manifest) (\<lambda>e.
     st_bind (readU32 truncated_manifest) (\<lambda>level.
     st_bind (readU8 truncated_manifest) (\<lambda>completion.
     st_bind (readU8 truncated_manifest) (\<lambda>reserved.
     st_bind (st_throw_if (reserved \<noteq> 0) (Invalid_argument ''Non-zero manifest reserved field'')) (\<lambda>_.
     st_bind (readU16 truncated_manifest) (\<lambda>reserved.
     st_bind (st_throw_if (reserved \<noteq> 0) (Invalid_argument ''Non-zero manifest reserved field'')) (\<lambda>_.
     st_bind (readU64 truncated_manifest) (\<lambda>payloadSize.
     st_bind (readU16 truncated_manifest) (\<lambda>algorithmId.
     st_bind (readU16 truncated_manifest) (\<lambda>checksumLength.
     st_bind (st_throw_if (checksumLength \<noteq> of_nat checksumSize)
       (Invalid_argument ''Invalid entry checksum length'')) (\<lambda>_.
     st_bind (readU32 truncated_manifest) (\<lambda>checksum.
     st_bind (readU32 truncated_manifest) (\<lambda>filenameLength.
     st_bind (readU32 truncated_manifest) (\<lambda>reserved.
     st_bind (st_throw_if (reserved \<noteq> 0) (Invalid_argument ''Non-zero manifest reserved field'')) (\<lambda>_.
     st_bind (reader_take truncated_manifest (unat filenameLength)) (\<lambda>filenameBytes.
     st_return \<lparr>entry_location = \<lparr>loc_start = s, loc_end = e, loc_treeLevel = level\<rparr>,
       entry_filename = bytes_string filenameBytes, entry_payloadSize = payloadSize,
       entry_checksumAlgorithm = algorithmId, entry_checksum = checksum,
       entry_completion = completion\<rparr>)))))))))))))))))"

text \<open>The entry loop: \<open>k\<close> entries are left, \<open>entries\<close> were read.\<close>

fun decodeEntries :: "ComputationIdentity \<Rightarrow> nat \<Rightarrow> ManifestEntry list \<Rightarrow> (u8 list, ManifestEntry list) action" where
  "decodeEntries identity 0 entries = st_return entries"
| "decodeEntries identity (Suc k) entries =
     st_bind decodeEntry (\<lambda>entry.
     st_bind (st_lift (validateEntry entry identity)) (\<lambda>_.
     st_bind (st_throw_if (entries \<noteq> [] \<and> entryKey (last entries) \<ge> entryKey entry)
       (Invalid_argument ''Manifest entries are not canonically sorted'')) (\<lambda>_.
     decodeEntries identity k (entries @ [entry]))))"

definition decodeManifest :: "sse42 option \<Rightarrow> u8 list \<Rightarrow> (u8 list, CheckpointManifest) action" where
  "decodeManifest cpu bytes =
     st_bind (reader_take truncated_manifest (length manifestMagic)) (\<lambda>magic.
     st_bind (st_throw_if (magic \<noteq> manifestMagic) (Invalid_argument ''Invalid checkpoint manifest magic'')) (\<lambda>_.
     st_bind (readU16 truncated_manifest) (\<lambda>version.
     st_bind (st_throw_if (version \<noteq> manifestFormatVersion)
       (Invalid_argument ''Unsupported checkpoint manifest version'')) (\<lambda>_.
     st_bind (readU16 truncated_manifest) (\<lambda>headerSize.
     st_bind (st_throw_if (headerSize \<noteq> manifestHeaderSize)
       (Invalid_argument ''Unsupported checkpoint manifest version'')) (\<lambda>_.
     st_bind (readU32 truncated_manifest) (\<lambda>flags.
     st_bind (st_throw_if (flags \<noteq> 0) (Invalid_argument ''Unsupported manifest flags'')) (\<lambda>_.
     st_bind manifestIdentity (\<lambda>identity.
     st_bind (st_lift (ComputationIdentity_validate identity)) (\<lambda>_.
     st_bind (readU64 truncated_manifest) (\<lambda>entryCount.
     st_bind (readU16 truncated_manifest) (\<lambda>algorithm.
     st_bind (st_throw_if (algorithm \<noteq> ChecksumAlgorithm_crc32c)
       (Invalid_argument ''Unsupported manifest checksum metadata'')) (\<lambda>_.
     st_bind (readU16 truncated_manifest) (\<lambda>checksumLength.
     st_bind (st_throw_if (checksumLength \<noteq> of_nat checksumSize)
       (Invalid_argument ''Unsupported manifest checksum metadata'')) (\<lambda>_.
     st_bind (readU32 truncated_manifest) (\<lambda>storedChecksum.
     st_bind (st_lift (manifestChecksum cpu bytes)) (\<lambda>expected.
     st_bind (st_throw_if (storedChecksum \<noteq> expected)
       (Invalid_argument ''Checkpoint manifest CRC32C mismatch'')) (\<lambda>_.
     st_bind (\<lambda>rest. (throw_if (unat entryCount > length rest div unat fixedEntrySize \<or> entryCount > - 1)
       (Invalid_argument ''Invalid checkpoint manifest entry count''), rest)) (\<lambda>_.
     st_bind (decodeEntries identity (unat entryCount) []) (\<lambda>entries.
     st_bind (\<lambda>rest. (throw_if (length rest \<noteq> 0)
       (Invalid_argument ''Trailing checkpoint manifest bytes''), rest)) (\<lambda>_.
     st_return \<lparr>man_identity = identity, man_entries = entries\<rparr>)))))))))))))))))))))"

definition CheckpointManifestCodec_decode :: "sse42 option \<Rightarrow> u8 list \<Rightarrow> CheckpointManifest result" where
  "CheckpointManifestCodec_decode cpu bytes = fst (decodeManifest cpu bytes bytes)"

section \<open>Entries\<close>

lemma length_string_bytes [simp]: "length (string_bytes s) = length s" "length (bytes_string bs) = length bs"
  by (simp_all add: string_bytes_def bytes_string_def)

lemma char_byte: "char_of (unat (of_nat (of_char c) :: u8)) = c"
proof -
  have "unat (of_nat (of_char c :: nat) :: u8) = of_char c"
    by (simp add: unat_of_nat)
  then show ?thesis by simp
qed

lemma byte_char: "of_nat (of_char (char_of (unat b) :: char)) = (b :: u8)"
  using unsigned_less [of b, where ?'a = nat] by (simp add: word_unat_eq_iff unat_of_nat)

lemma bytes_string_bytes [simp]: "bytes_string (string_bytes s) = s"
  by (simp add: bytes_string_def string_bytes_def o_def char_byte)

lemma string_bytes_string [simp]: "string_bytes (bytes_string bs) = bs"
  by (simp only: bytes_string_def string_bytes_def map_map o_def byte_char map_ident)

lemma length_encodeEntry: "length (encodeEntry e) = 48 + length (entry_filename e)"
  by (simp add: encodeEntry_def)

lemma unat_of_nat_u32: "n < 2 ^ 32 \<Longrightarrow> unat (of_nat n :: u32) = n"
  by (simp add: unat_of_nat)

lemma validateEntry_Inr:
  "validateEntry e i = Inr u \<longleftrightarrow>
     BlockLocation_validate (entry_location e) i = Inr () \<and> entry_filename e \<noteq> []
     \<and> CHR 0x2F \<notin> set (entry_filename e) \<and> CHR 0x5C \<notin> set (entry_filename e) \<and> CHR 0x00 \<notin> set (entry_filename e)
     \<and> length (entry_filename e) < 2 ^ 32 \<and> entry_checksumAlgorithm e = ChecksumAlgorithm_crc32c
     \<and> entry_completion e \<in> {CompletionState_incomplete, CompletionState_complete}"
proof -
  have len: "\<not> unat (- 1 :: u32) < n \<longleftrightarrow> n < 2 ^ 32" for n
    unfolding unat_max_word by simp presburger
  show ?thesis
    unfolding validateEntry_def res_bind_eq_Inr_iff throw_if_eq_Inr_iff list_ex_iff insert_iff empty_iff len
    by (simp del: BlockLocation_validate_Inr split del: if_split) blast
qed

lemma decodeEntry_encodeEntry:
  assumes "length (entry_filename e) < 2 ^ 32"
  shows "decodeEntry (encodeEntry e @ rest) = (Inr e, rest)"
  using assms by (simp add: decodeEntry_def encodeEntry_def st_bind_def unat_of_nat_u32)

lemma decodeEntry_Inr:
  assumes "decodeEntry bs = (Inr e, rest)"
  shows "bs = encodeEntry e @ rest"
  using assms unfolding decodeEntry_def encodeEntry_def
  by (auto simp: st_bind_eq_Inr read_iff reader_take_iff)

lemma validateEntries_Inr: "validateEntries es i = Inr u \<longleftrightarrow> (\<forall>e \<in> set es. validateEntry e i = Inr ())"
  by (induction es) (auto simp: res_elim)

lemma decodeEntries_ok:
  assumes "\<forall>e \<in> set es. validateEntry e i = Inr ()" and "sorted_wrt (<) (map entryKey (acc @ es))"
  shows "decodeEntries i (length es) acc (concat (map encodeEntry es) @ rest) = (Inr (acc @ es), rest)"
  using assms
proof (induction es arbitrary: acc)
  case (Cons e es)
  have "length (entry_filename e) < 2 ^ 32" "validateEntry e i = Inr ()"
    using Cons.prems(1) by (auto simp: validateEntry_Inr)
  moreover have "\<not> (acc \<noteq> [] \<and> entryKey (last acc) \<ge> entryKey e)"
    using Cons.prems(2) by (cases acc rule: rev_cases) (auto simp: sorted_wrt_append not_le)
  moreover have "decodeEntries i (length es) (acc @ [e]) (concat (map encodeEntry es) @ rest)
      = (Inr ((acc @ [e]) @ es), rest)"
    using Cons.prems by (intro Cons.IH) simp_all
  ultimately show ?case
    by (simp add: st_bind_def decodeEntry_encodeEntry throw_if_def)
qed simp

lemma decodeEntries_Inr:
  assumes "decodeEntries i k acc bs = (Inr out, rest)" and "sorted_wrt (<) (map entryKey acc)"
  shows "\<exists>es. out = acc @ es \<and> length es = k \<and> bs = concat (map encodeEntry es) @ rest
    \<and> (\<forall>e \<in> set es. validateEntry e i = Inr ()) \<and> sorted_wrt (<) (map entryKey out)"
  using assms
proof (induction k arbitrary: acc bs)
  case (Suc k)
  then obtain e bs' where e: "decodeEntry bs = (Inr e, bs')" "validateEntry e i = Inr ()"
    "acc = [] \<or> entryKey (last acc) < entryKey e" "decodeEntries i k (acc @ [e]) bs' = (Inr out, rest)"
    by (auto simp: st_bind_eq_Inr not_le)
  have "sorted_wrt (<) (map entryKey (acc @ [e]))"
    using Suc.prems(2) e(3)
    by (cases acc rule: rev_cases) (auto simp: sorted_wrt_append)
  from Suc.IH [OF e(4) this] obtain es where es: "out = (acc @ [e]) @ es" "length es = k"
    "bs' = concat (map encodeEntry es) @ rest" "\<forall>x \<in> set es. validateEntry x i = Inr ()"
    "sorted_wrt (<) (map entryKey out)"
    by blast
  show ?case
    using es e(2) decodeEntry_Inr [OF e(1)] by (intro exI [of _ "e # es"]) simp
qed auto

section \<open>The layout of a manifest\<close>

lemma rejectDuplicates_Inr:
  "sorted (map entryKey es) \<Longrightarrow> rejectDuplicates es = Inr u \<longleftrightarrow> sorted_wrt (<) (map entryKey es)"
  by (induction es rule: rejectDuplicates.induct)
    (auto simp: res_elim order_less_le intro: order_trans dest: order_antisym)

lemma sorted_keys: "sorted_wrt (<) (map entryKey es) \<Longrightarrow> sort_key entryKey es = es"
  by (intro sort_key_id_if_sorted) (auto intro: sorted_wrt_mono_rel [of _ "(<)"] less_imp_le)

definition manifest_length :: "ManifestEntry list \<Rightarrow> nat" where
  "manifest_length es = 72 + (\<Sum>e \<leftarrow> es. 48 + length (entry_filename e))"

lemma manifestSize_step:
  assumes "n < 2 ^ 32"
  shows "\<not> (of_nat n > - 1 - fixedEntrySize \<or> fixedEntrySize + of_nat n > - 1 - tot)
      \<longleftrightarrow> unat tot + (48 + n) < 2 ^ 64"
    and "unat tot + (48 + n) < 2 ^ 64 \<Longrightarrow> unat (tot + (fixedEntrySize + of_nat n)) = unat tot + (48 + n)"
proof -
  have n: "unat (of_nat n :: u64) = n"
    using assms by (simp add: unat_of_nat)
  have f: "unat (fixedEntrySize + of_nat n) = 48 + n"
    using assms n by (subst unat_add_no_wrap) (simp_all add: fixedEntrySize_def)
  have "unat (- 1 - fixedEntrySize) = 2 ^ 64 - 49" "unat (- 1 - tot) = 2 ^ 64 - 1 - unat tot"
    by (subst unat_sub_le; simp add: unat_max_word fixedEntrySize_def)+
  then show "\<not> (of_nat n > - 1 - fixedEntrySize \<or> fixedEntrySize + of_nat n > - 1 - tot)
      \<longleftrightarrow> unat tot + (48 + n) < 2 ^ 64"
    using assms n f unat_u64_less [of tot] by (auto simp: word_less_nat_alt)
  show "unat (tot + (fixedEntrySize + of_nat n)) = unat tot + (48 + n)" if "unat tot + (48 + n) < 2 ^ 64"
    using that f by (subst unat_add_no_wrap) simp_all
qed

lemma manifestSize_Inr:
  assumes "\<forall>e \<in> set es. length (entry_filename e) < 2 ^ 32"
  shows "(\<exists>s. manifestSize tot es = Inr s) \<longleftrightarrow> unat tot + (\<Sum>e \<leftarrow> es. 48 + length (entry_filename e)) < 2 ^ 64"
  using assms
proof (induction es arbitrary: tot)
  case (Cons e es)
  let ?n = "length (entry_filename e)"
  have n: "?n < 2 ^ 32" using Cons.prems by simp
  note step = manifestSize_step [OF n, of tot]
  show ?case
  proof (cases "unat tot + (48 + ?n) < 2 ^ 64")
    case True
    then show ?thesis
      using step Cons.IH [of "tot + (fixedEntrySize + of_nat ?n)"] Cons.prems
      by (simp add: Let_def add.assoc)
  next
    case False
    then show ?thesis
      using step(1) by (simp add: Let_def)
  qed
qed (use unat_u64_less in simp)

lemma manifestHeader_split:
  "\<exists>pre. length pre = 68 \<and> (\<forall>c. manifestHeader i n c = pre @ appendU32 c)"
  by (rule exI [of _ "manifestMagic @ appendU16 manifestFormatVersion @ appendU16 manifestHeaderSize @ appendU32 0
     @ appendU16 (id_algorithm i) @ appendU16 (id_arithmeticVersion i)
     @ appendU16 (id_formulaVersion i) @ appendU16 0
     @ appendU64 (id_requestedDigits i) @ appendU32 (id_guardDigits i) @ appendU32 0
     @ appendU64 (id_workingDigits i) @ appendU64 (id_termCount i)
     @ appendU64 n @ appendU16 ChecksumAlgorithm_crc32c @ appendU16 (of_nat checksumSize)"])
    (simp add: manifestHeader_def manifestMagic_def)

lemma length_manifestHeader [simp]: "length (manifestHeader i n c) = 72"
  by (simp add: manifestHeader_def manifestMagic_def)

lemma manifestChecksum_slot:
  "manifestChecksum cpu (manifestHeader i n c @ body) = manifestChecksum cpu (manifestHeader i n c' @ body)"
proof -
  obtain pre where "length pre = 68" "\<And>c. manifestHeader i n c = pre @ appendU32 c"
    using manifestHeader_split by blast
  then show ?thesis
    by (simp add: manifestChecksum_def manifestChecksumOffset_def checksumSize_def)
qed

lemma manifest_store:
  "storeU32 (manifestHeader i n c @ body) manifestChecksumOffset c' = manifestHeader i n c' @ body"
proof -
  obtain pre where "length pre = 68" "\<And>c. manifestHeader i n c = pre @ appendU32 c"
    using manifestHeader_split by blast
  then show ?thesis
    by (simp add: storeU32_def manifestChecksumOffset_def)
qed

lemma length_entries: "length (concat (map encodeEntry es)) = (\<Sum>e \<leftarrow> es. 48 + length (entry_filename e))"
  by (induction es) (simp_all add: length_encodeEntry)

lemma entries_room: "48 * length es \<le> length (concat (map encodeEntry es))"
  by (induction es) (simp_all add: length_encodeEntry)

section \<open>Encoding and decoding\<close>

text \<open>What the encoder accepts and what it writes.\<close>

definition manifest_ok :: "CheckpointManifest \<Rightarrow> bool" where
  "manifest_ok m \<longleftrightarrow> ComputationIdentity_validate (man_identity m) = Inr ()
     \<and> (\<forall>e \<in> set (man_entries m). validateEntry e (man_identity m) = Inr ())
     \<and> distinct (map entryKey (man_entries m)) \<and> manifest_length (man_entries m) < 2 ^ 64"

lemma sort_key_strict:
  "sorted_wrt (<) (map entryKey (sort_key entryKey es)) \<longleftrightarrow> distinct (map entryKey es)"
proof -
  have "distinct (map entryKey (sort_key entryKey es)) \<longleftrightarrow> distinct (map entryKey es)"
    by (simp add: distinct_map distinct_sort)
  then show ?thesis
    by (simp add: strict_sorted_iff)
qed

lemma manifest_length_sort: "manifest_length (sort_key f es) = manifest_length es"
proof -
  have "mset (map (\<lambda>e. 48 + length (entry_filename e)) (sort_key f es)) = mset (map (\<lambda>e. 48 + length (entry_filename e)) es)"
    by (simp only: mset_map mset_sort)
  then show ?thesis
    unfolding manifest_length_def by (metis sum_mset_sum_list)
qed

lemma encode_manifest_Inr:
  "CheckpointManifestCodec_encode cpu m = Inr bytes \<longleftrightarrow> manifest_ok m
     \<and> (\<exists>c. bytes = manifestHeader (man_identity m) (of_nat (length (man_entries m))) c
              @ concat (map encodeEntry (sort_key entryKey (man_entries m)))
          \<and> manifestChecksum cpu bytes = Inr c)"
proof -
  let ?i = "man_identity m" and ?es = "sort_key entryKey (man_entries m)"
  let ?out = "\<lambda>c. manifestHeader ?i (of_nat (length (man_entries m))) c @ concat (map encodeEntry ?es)"
  have ok: "ComputationIdentity_validate ?i = Inr () \<and> validateEntries (man_entries m) ?i = Inr ()
      \<and> rejectDuplicates ?es = Inr () \<and> (\<exists>s. manifestSize (ucast manifestHeaderSize) ?es = Inr s) \<longleftrightarrow> manifest_ok m"
  proof (cases "\<forall>e \<in> set (man_entries m). validateEntry e ?i = Inr ()")
    case True
    then have "\<forall>e \<in> set ?es. length (entry_filename e) < 2 ^ 32"
      by (auto simp: validateEntry_Inr)
    then have "(\<exists>s. manifestSize (ucast manifestHeaderSize) ?es = Inr s) \<longleftrightarrow> manifest_length (man_entries m) < 2 ^ 64"
      using manifest_length_sort [of entryKey "man_entries m"]
      by (simp add: manifestSize_Inr manifest_length_def manifestHeaderSize_def)
    moreover have "rejectDuplicates ?es = Inr () \<longleftrightarrow> distinct (map entryKey (man_entries m))"
      by (simp add: rejectDuplicates_Inr sort_key_strict)
    ultimately show ?thesis
      using True by (simp add: manifest_ok_def validateEntries_Inr)
  qed (auto simp: manifest_ok_def validateEntries_Inr)
  have "CheckpointManifestCodec_encode cpu m = Inr bytes \<longleftrightarrow> manifest_ok m
      \<and> (\<exists>c. manifestChecksum cpu (?out 0) = Inr c \<and> bytes = ?out c)"
    unfolding ok [symmetric]
    by (auto simp: CheckpointManifestCodec_encode_def res_elim Let_def manifest_store)
  then show ?thesis
    by (metis manifestChecksum_slot)
qed

lemma manifestChecksum_total: "72 \<le> length bytes \<Longrightarrow> \<exists>c. manifestChecksum cpu bytes = Inr c"
  by (simp add: manifestChecksum_def manifestHeaderSize_def)

lemma encode_manifest_total: "manifest_ok m \<Longrightarrow> \<exists>bytes. CheckpointManifestCodec_encode cpu m = Inr bytes"
proof -
  assume "manifest_ok m"
  let ?out = "\<lambda>c. manifestHeader (man_identity m) (of_nat (length (man_entries m))) c
     @ concat (map encodeEntry (sort_key entryKey (man_entries m)))"
  obtain c where "manifestChecksum cpu (?out 0) = Inr c"
    using manifestChecksum_total [of "?out 0" cpu] by auto
  then have "manifestChecksum cpu (?out c) = Inr c"
    by (metis manifestChecksum_slot)
  with \<open>manifest_ok m\<close> show ?thesis
    by (auto simp: encode_manifest_Inr)
qed

lemma manifestIdentity_put [simp]:
  "manifestIdentity (appendU16 (id_algorithm i) @ appendU16 (id_arithmeticVersion i)
     @ appendU16 (id_formulaVersion i) @ appendU16 0
     @ appendU64 (id_requestedDigits i) @ appendU32 (id_guardDigits i) @ appendU32 0
     @ appendU64 (id_workingDigits i) @ appendU64 (id_termCount i) @ rest) = (Inr i, rest)"
  by (simp add: manifestIdentity_def st_bind_def)

lemma manifestIdentity_Inr:
  "manifestIdentity bs = (Inr i, rest) \<Longrightarrow>
   bs = appendU16 (id_algorithm i) @ appendU16 (id_arithmeticVersion i)
     @ appendU16 (id_formulaVersion i) @ appendU16 0
     @ appendU64 (id_requestedDigits i) @ appendU32 (id_guardDigits i) @ appendU32 0
     @ appendU64 (id_workingDigits i) @ appendU64 (id_termCount i) @ rest"
  by (auto simp: manifestIdentity_def st_bind_eq_Inr read_iff)

lemma decodeManifest_put:
  assumes "ComputationIdentity_validate i = Inr ()" and "manifestChecksum cpu bytes = Inr c"
    and "unat n \<le> length body div 48" and "decodeEntries i (unat n) [] body = (Inr es, [])"
  shows "decodeManifest cpu bytes (manifestHeader i n c @ body) = (Inr \<lparr>man_identity = i, man_entries = es\<rparr>, [])"
  using assms by (simp add: decodeManifest_def manifestHeader_def st_bind_def not_less fixedEntrySize_def)

lemma decodeManifest_Inr:
  assumes "decodeManifest cpu bytes bs = (Inr m, rest)"
  shows "\<exists>n c body. bs = manifestHeader (man_identity m) n c @ body
     \<and> ComputationIdentity_validate (man_identity m) = Inr () \<and> manifestChecksum cpu bytes = Inr c
     \<and> decodeEntries (man_identity m) (unat n) [] body = (Inr (man_entries m), [])"
  using assms unfolding decodeManifest_def manifestHeader_def
  by (auto simp: st_bind_eq_Inr read_iff reader_take_iff dest!: manifestIdentity_Inr)

lemma decode_manifest_iff:
  "CheckpointManifestCodec_decode cpu bytes = Inr m \<longleftrightarrow>
   (\<exists>n c. bytes = manifestHeader (man_identity m) n c @ concat (map encodeEntry (man_entries m))
     \<and> ComputationIdentity_validate (man_identity m) = Inr () \<and> manifestChecksum cpu bytes = Inr c
     \<and> unat n = length (man_entries m) \<and> (\<forall>e \<in> set (man_entries m). validateEntry e (man_identity m) = Inr ())
     \<and> sorted_wrt (<) (map entryKey (man_entries m)))"
  (is "?l \<longleftrightarrow> (\<exists>n c. ?r n c)")
proof
  assume ?l
  then obtain rest where "decodeManifest cpu bytes bytes = (Inr m, rest)"
    unfolding CheckpointManifestCodec_decode_def by (metis prod.collapse)
  then obtain n c body where d: "bytes = manifestHeader (man_identity m) n c @ body"
    "ComputationIdentity_validate (man_identity m) = Inr ()" "manifestChecksum cpu bytes = Inr c"
    "decodeEntries (man_identity m) (unat n) [] body = (Inr (man_entries m), [])"
    using decodeManifest_Inr by blast
  from decodeEntries_Inr [OF d(4)] have "?r n c"
    using d(1-3) by auto
  then show "\<exists>n c. ?r n c" by blast
next
  assume "\<exists>n c. ?r n c"
  then obtain n c where r: "?r n c" by blast
  have "decodeEntries (man_identity m) (unat n) [] (concat (map encodeEntry (man_entries m))) = (Inr (man_entries m), [])"
    using decodeEntries_ok [of "man_entries m" "man_identity m" "[]" "[]"] r by simp
  moreover have "unat n \<le> length (concat (map encodeEntry (man_entries m))) div 48"
    using entries_room [of "man_entries m"] r by (simp add: less_eq_div_iff_mult_less_eq mult.commute)
  ultimately have "decodeManifest cpu bytes (manifestHeader (man_identity m) n c @ concat (map encodeEntry (man_entries m)))
      = (Inr \<lparr>man_identity = man_identity m, man_entries = man_entries m\<rparr>, [])"
    by (intro decodeManifest_put) (use r in auto)
  then have "decodeManifest cpu bytes bytes = (Inr m, [])"
    using r by simp
  then show ?l
    by (simp add: CheckpointManifestCodec_decode_def)
qed

lemma manifest_checksummed:
  assumes "cpu_ok cpu"
  shows "checksummed_format (CheckpointManifestCodec_decode cpu) 68"
proof
  fix bytes m
  assume "CheckpointManifestCodec_decode cpu bytes = Inr m"
  then obtain n c where m: "bytes = manifestHeader (man_identity m) n c @ concat (map encodeEntry (man_entries m))"
    "manifestChecksum cpu bytes = Inr c"
    unfolding decode_manifest_iff by blast
  obtain pre where h: "length pre = 68" "\<And>c. manifestHeader (man_identity m) n c = pre @ appendU32 c"
    using manifestHeader_split by blast
  have "take 4 (drop 68 bytes) = appendU32 c"
    using h by (simp add: m(1))
  moreover have "crc_ref (slot_zeroed 68 bytes) 0 = c"
    using m(2) by (auto simp: manifestChecksum_def res_elim manifestChecksumOffset_def checksumSize_def
        crc_calculate_eq [OF assms] crc_ref_append slot_zeroed_def)
  moreover have "72 \<le> length bytes"
    unfolding m(1) by simp
  ultimately show "68 + 4 \<le> length bytes \<and> take 4 (drop 68 bytes) = appendU32 (crc_ref (slot_zeroed 68 bytes) 0)"
    by simp
qed

interpretation portable_manifest: checksummed_format "CheckpointManifestCodec_decode None" 68
  by (rule manifest_checksummed) simp

lemma manifest_roundtrip:
  assumes ok: "manifest_ok m"
  shows "\<exists>bytes. CheckpointManifestCodec_encode cpu m = Inr bytes
      \<and> CheckpointManifestCodec_decode cpu bytes = Inr (m\<lparr>man_entries := sort_key entryKey (man_entries m)\<rparr>)"
proof -
  let ?es = "sort_key entryKey (man_entries m)"
  obtain bytes c where b: "CheckpointManifestCodec_encode cpu m = Inr bytes"
    "bytes = manifestHeader (man_identity m) (of_nat (length (man_entries m))) c @ concat (map encodeEntry ?es)"
    "manifestChecksum cpu bytes = Inr c"
    using encode_manifest_total [OF ok] encode_manifest_Inr by blast
  have "length (man_entries m) < 2 ^ 64"
    using ok entries_room [of "man_entries m"] unfolding manifest_ok_def manifest_length_def length_entries by simp
  then have n: "unat (of_nat (length (man_entries m)) :: u64) = length ?es"
    by (simp add: unat_of_nat_u64)
  have "sorted_wrt (<) (map entryKey ?es)" "ComputationIdentity_validate (man_identity m) = Inr ()"
    "\<forall>e \<in> set ?es. validateEntry e (man_identity m) = Inr ()"
    using ok by (simp_all add: manifest_ok_def sort_key_strict)
  then have "CheckpointManifestCodec_decode cpu bytes = Inr (m\<lparr>man_entries := ?es\<rparr>)"
    unfolding decode_manifest_iff using b(2,3) n by (intro exI conjI) simp_all
  with b(1) show "\<exists>bytes. CheckpointManifestCodec_encode cpu m = Inr bytes
      \<and> CheckpointManifestCodec_decode cpu bytes = Inr (m\<lparr>man_entries := ?es\<rparr>)"
    by blast
qed

section \<open>Properties\<close>


text \<open>
  The manifest format is canonical: the decoder accepts a byte string only if it is the encoding
  of the manifest it returns, whose identity and entries are valid and in strictly ascending order.
\<close>

theorem CheckpointManifest_canonical:
  assumes "CheckpointManifestCodec_decode cpu bytes = Inr m" and "length bytes < 2 ^ 64"
  shows "CheckpointManifestCodec_encode cpu m = Inr bytes \<and> manifest_ok m
    \<and> sorted_wrt (<) (map entryKey (man_entries m))"
proof -
  obtain n c where d: "bytes = manifestHeader (man_identity m) n c @ concat (map encodeEntry (man_entries m))"
    "ComputationIdentity_validate (man_identity m) = Inr ()" "manifestChecksum cpu bytes = Inr c"
    "unat n = length (man_entries m)" "\<forall>e \<in> set (man_entries m). validateEntry e (man_identity m) = Inr ()"
    "sorted_wrt (<) (map entryKey (man_entries m))"
    using assms(1) unfolding decode_manifest_iff by blast
  have "manifest_length (man_entries m) = length bytes"
    unfolding d(1) by (simp only: length_append length_manifestHeader length_entries manifest_length_def)
  moreover have "distinct (map entryKey (man_entries m))"
    using d(6) by (simp add: strict_sorted_iff)
  ultimately have ok: "manifest_ok m"
    using d assms(2) by (simp add: manifest_ok_def)
  moreover have "of_nat (length (man_entries m)) = n"
    using d(4) by (simp flip: d(4))
  ultimately show ?thesis
    using d(1,3,6) sorted_keys [OF d(6)] by (simp add: encode_manifest_Inr)
qed

definition sample_manifest :: CheckpointManifest where
  "sample_manifest = \<lparr>man_identity = sample_identity, man_entries = [
     \<lparr>entry_location = \<lparr>loc_start = 0, loc_end = 2, loc_treeLevel = 1\<rparr>, entry_filename = ''a.gpq'',
      entry_payloadSize = 3, entry_checksumAlgorithm = 1, entry_checksum = 5, entry_completion = 1\<rparr>,
     \<lparr>entry_location = \<lparr>loc_start = 2, loc_end = 3, loc_treeLevel = 0\<rparr>, entry_filename = ''b.gpq'',
      entry_payloadSize = 4, entry_checksumAlgorithm = 1, entry_checksum = 6, entry_completion = 0\<rparr>]\<rparr>"

lemma sample_manifest_ok: "manifest_ok sample_manifest" "sort_key entryKey (man_entries sample_manifest) = man_entries sample_manifest"
proof -
  have "validateEntry e sample_identity = Inr ()" if "e \<in> set (man_entries sample_manifest)" for e
    using that by (auto simp: sample_manifest_def validateEntry_Inr res_elim sample_identity_def
        CompletionState_complete_def CompletionState_incomplete_def ChecksumAlgorithm_crc32c_def)
  then show "manifest_ok sample_manifest"
    by (simp add: manifest_ok_def manifest_length_def sample_manifest_def sample_identity_valid entryKey_def)
  show "sort_key entryKey (man_entries sample_manifest) = man_entries sample_manifest"
    by (intro sorted_keys) (simp add: sample_manifest_def entryKey_def)
qed

theorem CheckpointManifest_canonical_witness:
  "\<exists>bytes m. CheckpointManifestCodec_decode None bytes = Inr m \<and> CheckpointManifestCodec_encode None m = Inr bytes"
proof -
  obtain bytes c where e: "CheckpointManifestCodec_encode None sample_manifest = Inr bytes"
    "bytes = manifestHeader sample_identity 2 c @ concat (map encodeEntry (man_entries sample_manifest))"
    "manifestChecksum None bytes = Inr c"
    using encode_manifest_total [OF sample_manifest_ok(1), of None] unfolding encode_manifest_Inr sample_manifest_ok(2)
    by (auto simp: sample_manifest_def)
  have "CheckpointManifestCodec_decode None bytes = Inr sample_manifest"
    unfolding decode_manifest_iff using sample_manifest_ok(1) e(2,3)
    by (intro exI [of _ 2] exI [of _ c]) (auto simp: sample_manifest_def manifest_ok_def entryKey_def)
  moreover have "length bytes < 2 ^ 64"
    unfolding e(2) by (simp add: length_encodeEntry sample_manifest_def)
  ultimately show ?thesis
    using CheckpointManifest_canonical by blast
qed

text \<open>
  A damaged manifest is never taken for a good one: when a manifest decodes, changing up to four
  neighbouring bytes (outside the checksum slot or inside it) makes it fail to decode.
\<close>

theorem CheckpointManifest_detects_damage:
  assumes "cpu_ok cpu" and "CheckpointManifestCodec_decode cpu (pre @ xs @ post) = Inr m"
    and "length ys = length xs" and "length xs \<le> 4" and "ys \<noteq> xs"
    and "length pre + length xs \<le> 68 \<or> 72 \<le> length pre \<or> 68 \<le> length pre \<and> length pre + length xs \<le> 72"
  shows "\<exists>err. CheckpointManifestCodec_decode cpu (pre @ ys @ post) = Inl err"
  using assms(6) by (intro checksummed_format.detects_damage [OF manifest_checksummed [OF assms(1)] assms(2-5)]) simp

theorem CheckpointManifest_detects_damage_witness:
  "\<exists>pre x post err. CheckpointManifestCodec_decode None (pre @ [x] @ post) = Inr sample_manifest
    \<and> CheckpointManifestCodec_decode None (pre @ [x + 1] @ post) = Inl err"
proof -
  obtain c where c: "manifestChecksum None (manifestHeader sample_identity 2 c
      @ concat (map encodeEntry (man_entries sample_manifest))) = Inr c"
    using encode_manifest_total [OF sample_manifest_ok(1), of None] unfolding encode_manifest_Inr sample_manifest_ok(2)
    by (auto simp: sample_manifest_def)
  let ?bytes = "manifestHeader sample_identity 2 c @ concat (map encodeEntry (man_entries sample_manifest))"
  have "CheckpointManifestCodec_decode None ?bytes = Inr sample_manifest"
    unfolding decode_manifest_iff using sample_manifest_ok(1) c
    by (intro exI [of _ 2] exI [of _ c]) (auto simp: sample_manifest_def manifest_ok_def entryKey_def)
  moreover have "?bytes = take 80 ?bytes @ [?bytes ! 80] @ drop 81 ?bytes"
    by (subst id_take_nth_drop [of 80]) (simp_all add: length_encodeEntry sample_manifest_def)
  moreover have "length (take 80 ?bytes) = 80"
    by (simp add: length_encodeEntry sample_manifest_def)
  ultimately have "CheckpointManifestCodec_decode None (take 80 ?bytes @ [?bytes ! 80] @ drop 81 ?bytes) = Inr sample_manifest"
    and "\<exists>err. CheckpointManifestCodec_decode None (take 80 ?bytes @ [?bytes ! 80 + 1] @ drop 81 ?bytes) = Inl err"
    using CheckpointManifest_detects_damage [of None "take 80 ?bytes" "[?bytes ! 80]" "drop 81 ?bytes"
        sample_manifest "[?bytes ! 80 + 1]"] by (simp_all del: append_Cons)
  then show ?thesis by blast
qed

end
