(* ===== verification/Checkpoint_Validation.thy ===== *)
theory Checkpoint_Validation
  imports Checkpoint_Manifest Binary_Parallel_Correct
begin

text \<open>
  The result of a validation (src/src/checkpoint/CheckpointValidation.cpp): a status and the
  diagnostics that explain it, with the constructor's rule that exactly the accepted results have no
  diagnostics.
\<close>

section \<open>Operations\<close>

datatype ValidationStatus = Status_accepted | Status_rejected | Status_ignored

datatype ValidationStage =
    Stage_discovery | Stage_structure | Stage_compatibility | Stage_checksum | Stage_manifest
  | Stage_mathematics | Stage_quarantine

datatype RejectionReason =
    Reason_temporaryFile | Reason_fileReadFailed | Reason_invalidMagic | Reason_unsupportedVersion
  | Reason_invalidIdentity | Reason_invalidRange | Reason_invalidTreeLevel | Reason_invalidPayloadLength
  | Reason_malformedBlock | Reason_nonCanonicalInteger | Reason_trailingBytes
  | Reason_checksumMetadataMismatch | Reason_checksumMismatch | Reason_invalidManifest
  | Reason_manifestIdentityMismatch | Reason_locationMismatch | Reason_missingManifestEntry
  | Reason_unexpectedBlockFile | Reason_filenameMismatch | Reason_sizeMismatch
  | Reason_entryChecksumMismatch | Reason_incompleteEntry | Reason_nonCanonicalOrder
  | Reason_duplicateRange | Reason_overlappingRange | Reason_missingRange | Reason_modularMismatch
  | Reason_quarantineFailed

record ValidationDiagnostic =
  diag_stage :: ValidationStage
  diag_reason :: RejectionReason
  diag_detail :: string

record ValidationResult =
  vr_status :: ValidationStatus
  vr_diagnostics :: "ValidationDiagnostic list"

definition ValidationResult_make ::
  "ValidationStatus \<Rightarrow> ValidationDiagnostic list \<Rightarrow> ValidationResult result" where
  "ValidationResult_make status diagnostics =
     res_bind (throw_if (status = Status_accepted \<and> diagnostics \<noteq> [])
       (Invalid_argument ''Accepted validation result cannot contain diagnostics'')) (\<lambda>_.
     res_bind (throw_if (status \<noteq> Status_accepted \<and> diagnostics = [])
       (Invalid_argument ''Non-accepted validation result requires a diagnostic'')) (\<lambda>_.
     Inr \<lparr>vr_status = status, vr_diagnostics = diagnostics\<rparr>))"

definition ValidationResult_accepted :: "ValidationResult result" where
  "ValidationResult_accepted = ValidationResult_make Status_accepted []"

definition ValidationResult_rejected :: "ValidationDiagnostic list \<Rightarrow> ValidationResult result" where
  "ValidationResult_rejected diagnostics = ValidationResult_make Status_rejected diagnostics"

definition ValidationResult_rejected_one :: "ValidationDiagnostic \<Rightarrow> ValidationResult result" where
  "ValidationResult_rejected_one diagnostic = ValidationResult_rejected [diagnostic]"

definition ValidationResult_ignored :: "RejectionReason \<Rightarrow> string \<Rightarrow> ValidationResult result" where
  "ValidationResult_ignored reason detail = ValidationResult_make Status_ignored
     [\<lparr>diag_stage = Stage_discovery, diag_reason = reason, diag_detail = detail\<rparr>]"

definition isAccepted :: "ValidationResult \<Rightarrow> bool" where
  "isAccepted r \<longleftrightarrow> vr_status r = Status_accepted"

definition isRejected :: "ValidationResult \<Rightarrow> bool" where
  "isRejected r \<longleftrightarrow> vr_status r = Status_rejected"

definition isIgnored :: "ValidationResult \<Rightarrow> bool" where
  "isIgnored r \<longleftrightarrow> vr_status r = Status_ignored"

fun toString_status :: "ValidationStatus \<Rightarrow> string" where
  "toString_status Status_accepted = ''accepted''"
| "toString_status Status_rejected = ''rejected''"
| "toString_status Status_ignored = ''ignored''"

fun toString_stage :: "ValidationStage \<Rightarrow> string" where
  "toString_stage Stage_discovery = ''discovery''"
| "toString_stage Stage_structure = ''structure''"
| "toString_stage Stage_compatibility = ''compatibility''"
| "toString_stage Stage_checksum = ''checksum''"
| "toString_stage Stage_manifest = ''manifest''"
| "toString_stage Stage_mathematics = ''mathematics''"
| "toString_stage Stage_quarantine = ''quarantine''"

fun toString_reason :: "RejectionReason \<Rightarrow> string" where
  "toString_reason Reason_temporaryFile = ''temporary_file''"
| "toString_reason Reason_fileReadFailed = ''file_read_failed''"
| "toString_reason Reason_invalidMagic = ''invalid_magic''"
| "toString_reason Reason_unsupportedVersion = ''unsupported_version''"
| "toString_reason Reason_invalidIdentity = ''invalid_identity''"
| "toString_reason Reason_invalidRange = ''invalid_range''"
| "toString_reason Reason_invalidTreeLevel = ''invalid_tree_level''"
| "toString_reason Reason_invalidPayloadLength = ''invalid_payload_length''"
| "toString_reason Reason_malformedBlock = ''malformed_block''"
| "toString_reason Reason_nonCanonicalInteger = ''non_canonical_integer''"
| "toString_reason Reason_trailingBytes = ''trailing_bytes''"
| "toString_reason Reason_checksumMetadataMismatch = ''checksum_metadata_mismatch''"
| "toString_reason Reason_checksumMismatch = ''checksum_mismatch''"
| "toString_reason Reason_invalidManifest = ''invalid_manifest''"
| "toString_reason Reason_manifestIdentityMismatch = ''manifest_identity_mismatch''"
| "toString_reason Reason_locationMismatch = ''location_mismatch''"
| "toString_reason Reason_missingManifestEntry = ''missing_manifest_entry''"
| "toString_reason Reason_unexpectedBlockFile = ''unexpected_block_file''"
| "toString_reason Reason_filenameMismatch = ''filename_mismatch''"
| "toString_reason Reason_sizeMismatch = ''size_mismatch''"
| "toString_reason Reason_entryChecksumMismatch = ''entry_checksum_mismatch''"
| "toString_reason Reason_incompleteEntry = ''incomplete_entry''"
| "toString_reason Reason_nonCanonicalOrder = ''non_canonical_order''"
| "toString_reason Reason_duplicateRange = ''duplicate_range''"
| "toString_reason Reason_overlappingRange = ''overlapping_range''"
| "toString_reason Reason_missingRange = ''missing_range''"
| "toString_reason Reason_modularMismatch = ''modular_mismatch''"
| "toString_reason Reason_quarantineFailed = ''quarantine_failed''"

text \<open>
  The verdict with which the validators end: \<open>diagnostics.empty() ? accepted() : rejected(...)\<close>.
\<close>

definition verdict :: "ValidationDiagnostic list \<Rightarrow> ValidationResult result" where
  "verdict diagnostics =
     (if diagnostics = [] then ValidationResult_accepted else ValidationResult_rejected diagnostics)"

text \<open>
  The validators' copies of \<open>maximumTreeLevel\<close> are the loop of src/src/binary/BinarySplitter.cpp, which
  always returns (\<open>maximumTreeLevel_height\<close>), so the second case never applies.
\<close>

definition treeHeight :: "u64 \<Rightarrow> u32" where
  "treeHeight terms = (case maximumTreeLevel terms of Some level \<Rightarrow> level | None \<Rightarrow> 0)"

section \<open>Facts\<close>

lemma verdict_eq [simp]:
  "verdict ds = Inr \<lparr>vr_status = (if ds = [] then Status_accepted else Status_rejected), vr_diagnostics = ds\<rparr>"
  by (simp add: verdict_def ValidationResult_accepted_def ValidationResult_rejected_def ValidationResult_make_def)

lemma rejected_one_eq [simp]:
  "ValidationResult_rejected_one d = Inr \<lparr>vr_status = Status_rejected, vr_diagnostics = [d]\<rparr>"
  by (simp add: ValidationResult_rejected_one_def ValidationResult_rejected_def ValidationResult_make_def)

lemma accepted_eq [simp]: "ValidationResult_accepted = Inr \<lparr>vr_status = Status_accepted, vr_diagnostics = []\<rparr>"
  by (simp add: ValidationResult_accepted_def ValidationResult_make_def)

lemma isAccepted_simps [simp]:
  "isAccepted \<lparr>vr_status = s, vr_diagnostics = ds\<rparr> \<longleftrightarrow> s = Status_accepted"
  by (simp add: isAccepted_def)

lemma treeHeight_level: "unat t \<le> 2 ^ unat (treeHeight t)"
  using maximumTreeLevel_height [of t] by (auto simp: treeHeight_def)

lemma toString_reason_inject: "toString_reason a = toString_reason b \<longleftrightarrow> a = b"
  by (cases a; cases b) simp_all

end
