(* ===== verification/Block_Validator.thy ===== *)
theory Block_Validator
  imports Checkpoint_Validation
begin

text \<open>
  The validation of a block file's bytes (src/src/checkpoint/CheckpointBlockValidator.cpp): it reads
  the header at fixed offsets to name the reason of a rejection before it decodes.
\<close>

unbundle bit_operations_syntax

section \<open>Operations\<close>

record ValidatedCheckpointBlock =
  vb_encodedSize :: u64
  vb_payloadSize :: u64
  vb_checksumAlgorithm :: u16
  vb_checksum :: u32
  vb_block :: CheckpointBlock

record CheckpointBlockValidation =
  bv_validation :: ValidationResult
  bv_block :: "ValidatedCheckpointBlock option"

definition hasAcceptedBlock :: "CheckpointBlockValidation \<Rightarrow> bool" where
  "hasAcceptedBlock v \<longleftrightarrow> isAccepted (bv_validation v) \<and> bv_block v \<noteq> None"

definition block_reject ::
  "ValidationStage \<Rightarrow> RejectionReason \<Rightarrow> string \<Rightarrow> CheckpointBlockValidation result" where
  "block_reject stage reason detail =
     res_bind (ValidationResult_rejected_one \<lparr>diag_stage = stage, diag_reason = reason, diag_detail = detail\<rparr>)
       (\<lambda>validation. Inr \<lparr>bv_validation = validation, bv_block = None\<rparr>)"

definition readU16_at :: "u8 list \<Rightarrow> nat \<Rightarrow> u16" where
  "readU16_at bytes offset = push_bit 8 (ucast (bytes ! offset)) OR ucast (bytes ! (offset + 1))"

definition readU32_at :: "u8 list \<Rightarrow> nat \<Rightarrow> u32" where
  "readU32_at bytes offset = shift_in 0 (map (\<lambda>index. bytes ! (offset + index)) [0..<4])"

definition readU64_at :: "u8 list \<Rightarrow> nat \<Rightarrow> u64" where
  "readU64_at bytes offset = shift_in 0 (map (\<lambda>index. bytes ! (offset + index)) [0..<8])"

definition validator_checksum :: "sse42 option \<Rightarrow> u8 list \<Rightarrow> u32" where
  "validator_checksum cpu bytes =
     (let checksum = CRC32C_calculate cpu (take checksumOffset bytes) 0;
          checksum = CRC32C_calculate cpu (replicate checksumSize 0) checksum
      in CRC32C_calculate cpu (drop (checksumOffset + checksumSize) bytes) checksum)"

text \<open>The sum of the payload lengths, or the detail of the rejection.\<close>

fun payloadSum :: "size_t \<Rightarrow> u64 list \<Rightarrow> string + size_t" where
  "payloadSum payloadSize [] = Inr payloadSize"
| "payloadSum payloadSize (len # lens) =
     (if len > - 1 then Inl ''Payload length is unsupported''
      else if len > - 1 - payloadSize then Inl ''Payload length overflow''
      else payloadSum (payloadSize + len) lens)"

text \<open>The loop over the three signed magnitudes: all canonical.\<close>

fun magnitudesCanonical :: "u8 list \<Rightarrow> nat \<Rightarrow> nat \<Rightarrow> size_t list \<Rightarrow> bool" where
  "magnitudesCanonical bytes index payloadOffset [] = True"
| "magnitudesCanonical bytes index payloadOffset (len # lens) =
     (let sgn = bytes ! (84 + index);
          zero = (sgn = 0);
          nonZero = (sgn = 1 \<or> sgn = 2)
      in if (\<not> zero \<and> \<not> nonZero) \<or> (zero \<and> len \<noteq> 0) \<or> (nonZero \<and> len = 0)
            \<or> (len \<noteq> 0 \<and> bytes ! payloadOffset = 0)
         then False
         else magnitudesCanonical bytes (index + 1) (payloadOffset + unat len) lens)"

definition decodeAccepted ::
  "sse42 option \<Rightarrow> gmp \<Rightarrow> u8 list \<Rightarrow> ComputationIdentity \<Rightarrow> size_t \<Rightarrow> u16 \<Rightarrow> u32
   \<Rightarrow> CheckpointBlockValidation result" where
  "decodeAccepted cpu g bytes expectedIdentity payloadSize checksumAlgorithm storedChecksum =
     (case CheckpointBlockCodec_decode cpu g bytes of
        Inl err \<Rightarrow> block_reject Stage_structure Reason_malformedBlock (what err)
      | Inr block \<Rightarrow>
          if block_identity block \<noteq> expectedIdentity
          then block_reject Stage_compatibility Reason_invalidIdentity ''Block identity differs from target''
          else res_bind ValidationResult_accepted (\<lambda>validation.
            Inr \<lparr>bv_validation = validation,
                 bv_block = Some \<lparr>vb_encodedSize = of_nat (length bytes), vb_payloadSize = payloadSize,
                   vb_checksumAlgorithm = checksumAlgorithm, vb_checksum = storedChecksum, vb_block = block\<rparr>\<rparr>))"

definition CheckpointBlockValidator_validate ::
  "sse42 option \<Rightarrow> gmp \<Rightarrow> u8 list \<Rightarrow> ComputationIdentity \<Rightarrow> CheckpointBlockValidation result" where
  "CheckpointBlockValidator_validate cpu g bytes expectedIdentity =
     (case ComputationIdentity_validate expectedIdentity of
        Inl err \<Rightarrow> block_reject Stage_compatibility Reason_invalidIdentity (what err)
      | Inr _ \<Rightarrow>
      if length bytes < unat version1HeaderSize
      then block_reject Stage_structure Reason_invalidPayloadLength ''Truncated block header''
      else if take (length blockMagic) bytes \<noteq> blockMagic
      then block_reject Stage_structure Reason_invalidMagic ''Block magic does not match''
      else if readU16_at bytes 8 \<noteq> formatVersion \<or> readU16_at bytes 10 \<noteq> version1HeaderSize
      then block_reject Stage_structure Reason_unsupportedVersion ''Unsupported block version''
      else if readU32_at bytes 12 \<noteq> 0 \<or> readU16_at bytes 22 \<noteq> 0 \<or> readU32_at bytes 36 \<noteq> 0 \<or> bytes ! 87 \<noteq> 0
      then block_reject Stage_structure Reason_malformedBlock ''Non-zero reserved block field''
      else
        let terms = readU64_at bytes 48; s = readU64_at bytes 56; e = readU64_at bytes 64;
            level = readU32_at bytes 72 in
        if s \<ge> e \<or> e > terms
        then block_reject Stage_structure Reason_invalidRange ''Invalid block range''
        else if terms = 0 \<or> level > treeHeight terms
        then block_reject Stage_structure Reason_invalidTreeLevel ''Invalid block tree level''
        else
          let lens = [readU64_at bytes 88, readU64_at bytes 96, readU64_at bytes 104] in
          case payloadSum 0 lens of
            Inl detail \<Rightarrow> block_reject Stage_structure Reason_invalidPayloadLength detail
          | Inr payloadSize \<Rightarrow>
            let remaining = length bytes - unat version1HeaderSize in
            if unat payloadSize > remaining
            then block_reject Stage_structure Reason_invalidPayloadLength ''Payload exceeds file boundary''
            else if unat payloadSize < remaining
            then block_reject Stage_structure Reason_trailingBytes ''Trailing bytes follow block payload''
            else if \<not> magnitudesCanonical bytes 0 (unat version1HeaderSize) lens
            then block_reject Stage_structure Reason_nonCanonicalInteger ''Non-canonical P/Q/T signed magnitude''
            else
              let checksumAlgorithm = readU16_at bytes 76 in
              if checksumAlgorithm \<noteq> ChecksumAlgorithm_crc32c \<or> readU16_at bytes 78 \<noteq> 4
              then block_reject Stage_checksum Reason_checksumMetadataMismatch ''Unsupported checksum metadata''
              else
                let storedChecksum = readU32_at bytes checksumOffset in
                if storedChecksum \<noteq> validator_checksum cpu bytes
                then block_reject Stage_checksum Reason_checksumMismatch ''Block CRC32C mismatch''
                else decodeAccepted cpu g bytes expectedIdentity payloadSize checksumAlgorithm storedChecksum)"

section \<open>Reading at an offset\<close>

lemma nth_window:
  assumes "take n (drop offset bytes) = w" and "length w = n" and "0 < n"
  shows "map (\<lambda>index. bytes ! (offset + index)) [0..<n] = w"
proof -
  have "min (length bytes - offset) n = n"
    using arg_cong [OF assms(1), of length] assms(2) by simp
  then have "offset + n \<le> length bytes"
    using assms(3) by linarith
  then show ?thesis
    unfolding assms(1) [symmetric] by (intro nth_equalityI) simp_all
qed

lemma readU32_at_eq: "take 4 (drop offset bytes) = appendU32 v \<Longrightarrow> readU32_at bytes offset = v"
  using nth_window [of 4 offset bytes "appendU32 v"] by (simp add: readU32_at_def)

lemma readU64_at_eq: "take 8 (drop offset bytes) = appendU64 v \<Longrightarrow> readU64_at bytes offset = v"
  using nth_window [of 8 offset bytes "appendU64 v"] by (simp add: readU64_at_def)

lemma readU16_at_eq: "take 2 (drop offset bytes) = appendU16 v \<Longrightarrow> readU16_at bytes offset = v"
proof -
  assume "take 2 (drop offset bytes) = appendU16 v"
  then have "[bytes ! offset, bytes ! (offset + 1)] = appendU16 v"
    using nth_window [of 2 offset bytes "appendU16 v"] by (simp add: upt_rec)
  then have "shift_in 0 [bytes ! offset, bytes ! (offset + 1)] = v"
    by simp
  then show ?thesis
    by (simp add: readU16_at_def)
qed

lemma byte_at_eq: "take 1 (drop offset bytes) = appendU8 v \<Longrightarrow> bytes ! offset = v"
  by (cases "drop offset bytes") (auto simp: appendU8_def dest: nth_via_drop)

lemma payloadSum_Inr:
  "unat tot + sum_list (map unat lens) < 2 ^ 64 \<Longrightarrow>
   \<exists>s. payloadSum tot lens = Inr s \<and> unat s = unat tot + sum_list (map unat lens)"
proof (induction lens arbitrary: tot)
  case (Cons len lens)
  have "unat (- 1 - tot) = 2 ^ 64 - 1 - unat tot"
    by (subst unat_sub_le) (simp_all add: unat_max_word)
  then have "\<not> len > - 1 - tot"
    using Cons.prems by (simp add: word_less_nat_alt)
  moreover have "unat (tot + len) = unat tot + unat len"
    using Cons.prems by (intro unat_add_no_wrap) simp
  ultimately show ?case
    using Cons.IH [of "tot + len"] Cons.prems by (simp add: add.assoc)
qed simp

section \<open>The validator and the decoder agree\<close>

context gmp_library begin

lemma sign_zero_iff: "GMPSerialization_sign g x = 0 \<longleftrightarrow> x = 0" "GMPSerialization_sign g x = 0 \<or> GMPSerialization_sign g x = 1 \<or> GMPSerialization_sign g x = 2"
  by (auto simp: GMPSerialization_sign_def mpz_sgn sign_zero_def sign_positive_def sign_negative_def Let_def sgn_if)

lemma export_Nil_iff: "mpz_export_be g x = [] \<longleftrightarrow> x = 0"
  using mpz_export_leading [of x] mpz_export_zero by auto

text \<open>One turn of the loop over the magnitudes, on the magnitude of an integer.\<close>

lemma magnitude_turn:
  assumes "bytes ! (84 + k) = GMPSerialization_sign g x" and "unat len = length (mpz_export_be g x)"
    and "x \<noteq> 0 \<longrightarrow> bytes ! off = hd (mpz_export_be g x)"
  shows "magnitudesCanonical bytes k off (len # lens) = magnitudesCanonical bytes (k + 1) (off + unat len) lens"
proof -
  have "len = 0 \<longleftrightarrow> x = 0"
    using assms(2) export_Nil_iff [of x] by (auto simp: word_unat_eq_iff)
  then show ?thesis
    using assms(1,3) sign_zero_iff [of x] mpz_export_leading [of x] by (auto simp: Let_def)
qed

lemma block_offsets:
  assumes b: "bytes = blockHeader g i l c p q t ps qs ts @ payload"
  shows "take 8 bytes = blockMagic" "readU16_at bytes 8 = formatVersion" "readU16_at bytes 10 = version1HeaderSize"
    "readU32_at bytes 12 = 0" "readU16_at bytes 22 = 0" "readU32_at bytes 36 = 0" "bytes ! 87 = 0"
    "readU64_at bytes 48 = id_termCount i" "readU64_at bytes 56 = loc_start l" "readU64_at bytes 64 = loc_end l"
    "readU32_at bytes 72 = loc_treeLevel l" "readU16_at bytes 76 = ChecksumAlgorithm_crc32c"
    "readU16_at bytes 78 = 4" "readU32_at bytes 80 = c"
    "bytes ! 84 = GMPSerialization_sign g p" "bytes ! 85 = GMPSerialization_sign g q" "bytes ! 86 = GMPSerialization_sign g t"
    "readU64_at bytes 88 = ps" "readU64_at bytes 96 = qs" "readU64_at bytes 104 = ts"
proof -
  have m: "length blockMagic = 8"
    by (simp add: blockMagic_def)
  note lay = b blockHeader_def m
  show "take 8 bytes = blockMagic"
    by (simp add: lay)
  show "readU16_at bytes 8 = formatVersion" "readU16_at bytes 10 = version1HeaderSize"
    "readU16_at bytes 22 = 0" "readU16_at bytes 76 = ChecksumAlgorithm_crc32c" "readU16_at bytes 78 = 4"
    by (rule readU16_at_eq, simp add: lay)+
  show "readU32_at bytes 12 = 0" "readU32_at bytes 36 = 0" "readU32_at bytes 72 = loc_treeLevel l" "readU32_at bytes 80 = c"
    by (rule readU32_at_eq, simp add: lay)+
  show "readU64_at bytes 48 = id_termCount i" "readU64_at bytes 56 = loc_start l" "readU64_at bytes 64 = loc_end l"
    "readU64_at bytes 88 = ps" "readU64_at bytes 96 = qs" "readU64_at bytes 104 = ts"
    by (rule readU64_at_eq, simp add: lay)+
  show "bytes ! 87 = 0" "bytes ! 84 = GMPSerialization_sign g p" "bytes ! 85 = GMPSerialization_sign g q"
    "bytes ! 86 = GMPSerialization_sign g t"
    by (rule byte_at_eq, simp add: lay)+
qed

lemma magnitudes_decoded:
  assumes b: "bytes = blockHeader g i l c p q t ps qs ts @ mpz_export_be g p @ mpz_export_be g q @ mpz_export_be g t"
    and sizes: "unat ps = length (mpz_export_be g p)" "unat qs = length (mpz_export_be g q)" "unat ts = length (mpz_export_be g t)"
  shows "magnitudesCanonical bytes 0 112 [ps, qs, ts]"
proof -
  let ?P = "mpz_export_be g p" and ?Q = "mpz_export_be g q" and ?T = "mpz_export_be g t"
  have hd_at: "(pre @ xs @ post) ! n = hd xs" if "length pre = n" "xs \<noteq> []" for pre xs post :: "u8 list" and n
    using that by (cases xs) (auto simp: nth_append)
  note len = length_blockHeader [of g i l c p q t ps qs ts]
  have "p \<noteq> 0 \<longrightarrow> bytes ! 112 = hd ?P"
    unfolding b using hd_at [of "blockHeader g i l c p q t ps qs ts" 112 ?P] export_Nil_iff [of p] len by simp
  moreover have "q \<noteq> 0 \<longrightarrow> bytes ! (112 + unat ps) = hd ?Q"
    unfolding b using hd_at [of "blockHeader g i l c p q t ps qs ts @ ?P" "112 + unat ps" ?Q ?T] export_Nil_iff [of q] len sizes(1) by simp
  moreover have "t \<noteq> 0 \<longrightarrow> bytes ! (112 + unat ps + unat qs) = hd ?T"
    unfolding b using hd_at [of "blockHeader g i l c p q t ps qs ts @ ?P @ ?Q" "112 + unat ps + unat qs" ?T "[]"]
      export_Nil_iff [of t] len sizes(1,2) by simp
  ultimately show ?thesis
    using magnitude_turn [of bytes 0 p ps 112 "[qs, ts]"] magnitude_turn [of bytes 1 q qs "112 + unat ps" "[ts]"]
      magnitude_turn [of bytes 2 t ts "112 + unat ps + unat qs" "[]"] block_offsets(15-17) [OF b] sizes
    by (simp add: numeral_2_eq_2)
qed

lemma validate_decoded:
  assumes "CheckpointBlockCodec_decode cpu g bytes = Inr b" and "length bytes < 2 ^ 64"
    and "loc_treeLevel (block_location b) \<le> treeHeight (id_termCount (block_identity b))"
  obtains c where "CheckpointBlockValidator_validate cpu g bytes (block_identity b) = Inr \<lparr>
      bv_validation = \<lparr>vr_status = Status_accepted, vr_diagnostics = []\<rparr>,
      bv_block = Some \<lparr>vb_encodedSize = of_nat (length bytes), vb_payloadSize = of_nat (length bytes - 112),
        vb_checksumAlgorithm = ChecksumAlgorithm_crc32c, vb_checksum = c, vb_block = b\<rparr>\<rparr>"
    "blockChecksum cpu bytes = Inr c"
proof -
  obtain i l p q t c ps qs ts where d:
    "b = \<lparr>block_identity = i, block_location = l, block_p = p, block_q = q, block_t = t\<rparr>"
    "ComputationIdentity_validate i = Inr ()" "BlockLocation_validate l i = Inr ()"
    "bytes = blockHeader g i l c p q t ps qs ts @ mpz_export_be g p @ mpz_export_be g q @ mpz_export_be g t"
    "blockChecksum cpu bytes = Inr c"
    "unat ps = length (mpz_export_be g p)" "unat qs = length (mpz_export_be g q)" "unat ts = length (mpz_export_be g t)"
    by (rule decode_canonical [OF assms(1)]) (rule that)
  have len: "length bytes = 112 + (unat ps + unat qs + unat ts)"
    unfolding d(4) by (simp add: length_blockHeader d(6-8))
  obtain s where s: "payloadSum 0 [ps, qs, ts] = Inr s" "unat s = length bytes - 112"
    using payloadSum_Inr [of 0 "[ps, qs, ts]"] len assms(2) by (auto simp: add.assoc)
  have s': "s = of_nat (length bytes - 112)"
    using s(2) by (metis of_nat_unat ucast_id)
  have range: "\<not> loc_end l \<le> loc_start l" "\<not> id_termCount i < loc_end l" "\<not> treeHeight (id_termCount i) < loc_treeLevel l"
    using d(1,3) assms(3) by (simp_all add: BlockLocation_validate_Inr not_le not_less)
  then have "id_termCount i \<noteq> 0"
    by (auto simp: not_less)
  moreover have "c = validator_checksum cpu bytes"
    using d(5) by (auto simp: blockChecksum_def validator_checksum_def res_elim Let_def)
  moreover note off = block_offsets [OF d(4)]
  moreover have "magnitudesCanonical bytes 0 112 [ps, qs, ts]"
    by (rule magnitudes_decoded [OF d(4,6-8)])
  moreover have "length blockMagic = 8" "unat version1HeaderSize = 112" "checksumOffset = 80"
    by (simp_all add: blockMagic_def version1HeaderSize_def checksumOffset_def)
  ultimately have "CheckpointBlockValidator_validate cpu g bytes i
      = decodeAccepted cpu g bytes i s ChecksumAlgorithm_crc32c c"
    using range d(1,2) s len
    by (simp add: CheckpointBlockValidator_validate_def Let_def del: magnitudesCanonical.simps payloadSum.simps)
  then show thesis
    using d(1,5) assms(1) s' by (intro that) (simp_all add: decodeAccepted_def)
qed

lemma validate_accepted_decoded:
  assumes "CheckpointBlockValidator_validate cpu g bytes i = Inr v" and "hasAcceptedBlock v"
  obtains b where "CheckpointBlockCodec_decode cpu g bytes = Inr b" "block_identity b = i"
    "readU32_at bytes 72 \<le> treeHeight (readU64_at bytes 48)"
  using assms
  by (auto simp: CheckpointBlockValidator_validate_def block_reject_def hasAcceptedBlock_def decodeAccepted_def Let_def
      not_less split: sum.splits if_splits simp del: magnitudesCanonical.simps payloadSum.simps)

end

section \<open>Properties\<close>

lemma block_validator_accepts:
  assumes "gmp_library g" and "length bytes < 2 ^ 64"
  shows "\<exists>v. CheckpointBlockValidator_validate cpu g bytes i = Inr v
    \<and> (hasAcceptedBlock v \<longleftrightarrow> (\<exists>b. CheckpointBlockCodec_decode cpu g bytes = Inr b \<and> block_identity b = i
         \<and> loc_treeLevel (block_location b) \<le> treeHeight (id_termCount i)))
    \<and> (\<forall>vb. bv_block v = Some vb \<longrightarrow> CheckpointBlockCodec_decode cpu g bytes = Inr (vb_block vb)
         \<and> unat (vb_encodedSize vb) = length bytes \<and> unat (vb_payloadSize vb) = length bytes - 112
         \<and> vb_checksumAlgorithm vb = ChecksumAlgorithm_crc32c \<and> blockChecksum cpu bytes = Inr (vb_checksum vb))"
proof (cases "\<exists>b. CheckpointBlockCodec_decode cpu g bytes = Inr b \<and> block_identity b = i
         \<and> loc_treeLevel (block_location b) \<le> treeHeight (id_termCount i)")
  case True
  then obtain b where b: "CheckpointBlockCodec_decode cpu g bytes = Inr b" "block_identity b = i"
    "loc_treeLevel (block_location b) \<le> treeHeight (id_termCount (block_identity b))"
    by blast
  obtain c where "CheckpointBlockValidator_validate cpu g bytes (block_identity b) = Inr \<lparr>
      bv_validation = \<lparr>vr_status = Status_accepted, vr_diagnostics = []\<rparr>,
      bv_block = Some \<lparr>vb_encodedSize = of_nat (length bytes), vb_payloadSize = of_nat (length bytes - 112),
        vb_checksumAlgorithm = ChecksumAlgorithm_crc32c, vb_checksum = c, vb_block = b\<rparr>\<rparr>"
    "blockChecksum cpu bytes = Inr c"
    by (rule gmp_library.validate_decoded [OF assms(1) b(1) assms(2) b(3)])
  moreover have "unat (of_nat (length bytes) :: u64) = length bytes" "unat (of_nat (length bytes - 112) :: u64) = length bytes - 112"
    using assms(2) by (simp_all add: unat_of_nat_u64)
  ultimately show ?thesis
    using True b by (simp add: hasAcceptedBlock_def)
next
  case False
  have "\<exists>v. CheckpointBlockValidator_validate cpu g bytes i = Inr v
      \<and> (bv_block v = None \<or> hasAcceptedBlock v)"
    by (auto simp: CheckpointBlockValidator_validate_def block_reject_def decodeAccepted_def hasAcceptedBlock_def Let_def
        split: sum.split)
  then obtain v where v: "CheckpointBlockValidator_validate cpu g bytes i = Inr v" "bv_block v = None \<or> hasAcceptedBlock v"
    by blast
  have "\<not> hasAcceptedBlock v"
  proof
    assume "hasAcceptedBlock v"
    then obtain b where b: "CheckpointBlockCodec_decode cpu g bytes = Inr b" "block_identity b = i"
      "readU32_at bytes 72 \<le> treeHeight (readU64_at bytes 48)"
      by (rule gmp_library.validate_accepted_decoded [OF assms(1) v(1)])
    obtain i' l p q t c ps qs ts where d:
      "b = \<lparr>block_identity = i', block_location = l, block_p = p, block_q = q, block_t = t\<rparr>"
      "bytes = blockHeader g i' l c p q t ps qs ts @ mpz_export_be g p @ mpz_export_be g q @ mpz_export_be g t"
      by (rule gmp_library.decode_canonical [OF assms(1) b(1)])
    then have "loc_treeLevel l \<le> treeHeight (id_termCount i')"
      using b(3) gmp_library.block_offsets(8,11) [OF assms(1) d(2)] by simp
    with False b d(1) show False by simp
  qed
  with v False show ?thesis by auto
qed

text \<open>
  C18: The block validator never throws, and it accepts a byte string for a computation exactly when
  the decoder accepts it, the block belongs to that computation and its tree level is within the
  tree; the metadata it returns are the file's sizes and stored checksum and the decoded block.
\<close>

theorem CheckpointBlockValidator_accepts_iff:
  assumes "gmp_library g" and "length bytes < 2 ^ 64"
  shows "\<exists>v. CheckpointBlockValidator_validate cpu g bytes i = Inr v
    \<and> (hasAcceptedBlock v \<longleftrightarrow> (\<exists>b. CheckpointBlockCodec_decode cpu g bytes = Inr b \<and> block_identity b = i
         \<and> loc_treeLevel (block_location b) \<le> treeHeight (id_termCount i)))
    \<and> (\<forall>vb. bv_block v = Some vb \<longrightarrow> CheckpointBlockCodec_decode cpu g bytes = Inr (vb_block vb)
         \<and> unat (vb_encodedSize vb) = length bytes \<and> unat (vb_payloadSize vb) = length bytes - 112
         \<and> vb_checksumAlgorithm vb = ChecksumAlgorithm_crc32c \<and> blockChecksum cpu bytes = Inr (vb_checksum vb))"
  using assms by (rule block_validator_accepts)

theorem CheckpointBlockValidator_accepts_iff_witness:
  "\<exists>bytes v. CheckpointBlockValidator_validate None gmp_ref bytes sample_identity = Inr v \<and> hasAcceptedBlock v"
proof -
  let ?l = "\<lparr>loc_start = 1, loc_end = 2, loc_treeLevel = 0\<rparr>"
  have l: "BlockLocation_validate ?l sample_identity = Inr ()"
    by code_simp
  obtain c s ps qs ts where e:
    "blockChecksum None (blockHeader gmp_ref sample_identity ?l c 5 24 (- 7) ps qs ts
       @ mpz_export_be gmp_ref 5 @ mpz_export_be gmp_ref 24 @ mpz_export_be gmp_ref (- 7)) = Inr c"
    "unat ps = length (mpz_export_be gmp_ref 5)" "unat qs = length (mpz_export_be gmp_ref 24)"
    "unat ts = length (mpz_export_be gmp_ref (- 7))"
    by (rule gmp_ref.encode_ok [OF sample_identity_valid l sample_fits, of None]) (rule that)
  let ?bytes = "blockHeader gmp_ref sample_identity ?l c 5 24 (- 7) ps qs ts
       @ mpz_export_be gmp_ref 5 @ mpz_export_be gmp_ref 24 @ mpz_export_be gmp_ref (- 7)"
  have dec: "CheckpointBlockCodec_decode None gmp_ref ?bytes
      = Inr \<lparr>block_identity = sample_identity, block_location = ?l, block_p = 5, block_q = 24, block_t = - 7\<rparr>"
    using sample_fits by (intro gmp_ref.decode_ok [OF sample_identity_valid l] e) (simp_all add: block_fits_def)
  have "length ?bytes < 2 ^ 64"
    by (simp add: length_blockHeader gmp_ref_def be_bytes.simps)
  from CheckpointBlockValidator_accepts_iff [OF gmp_ref.gmp_library_axioms this, of None sample_identity] dec
  show ?thesis by auto
qed

end
