(* ===== verification/Modular_Verifier.thy ===== *)
theory Modular_Verifier
  imports Checkpoint_Validation
begin

text \<open>
  The modular check of a block's P, Q and T (src/src/checkpoint/ModularPQTVerifier.cpp): the
  splitting recursion in 64-bit arithmetic modulo three primes, and the comparison with the
  residues of the stored integers.
\<close>

section \<open>Operations\<close>

definition verificationPrimes :: "u32 list" where
  "verificationPrimes = [998244353, 1000000007, 1000000009]"

definition qConstant :: u64 where "qConstant = 10939058860032000"

definition tMultiplier :: u64 where "tMultiplier = 545140134"

definition tConstant :: u64 where "tConstant = 13591409"

record Residues =
  res_p :: u64
  res_q :: u64
  res_t :: u64

definition multiply :: "u64 \<Rightarrow> u64 \<Rightarrow> u64 \<Rightarrow> u64" where
  "multiply left right pr = (left * right) mod pr"

definition subtractSmall :: "u64 \<Rightarrow> u64 \<Rightarrow> u64 \<Rightarrow> u64" where
  "subtractSmall value amount pr = (value + pr - amount) mod pr"

definition modular_leaf :: "u64 \<Rightarrow> u64 \<Rightarrow> Residues" where
  "modular_leaf trm pr =
     (if trm = 0 then \<lparr>res_p = 1, res_q = 1, res_t = tConstant mod pr\<rparr>
      else
        let k = trm mod pr;
            first = subtractSmall (multiply 6 k pr) 5 pr;
            second = subtractSmall (multiply 2 k pr) 1 pr;
            third = subtractSmall (multiply 6 k pr) 1 pr;
            p = multiply (multiply first second pr) third pr;
            kSquared = multiply k k pr;
            q = multiply (multiply kSquared k pr) (qConstant mod pr) pr;
            linear = (multiply k (tMultiplier mod pr) pr + tConstant mod pr) mod pr;
            t = multiply linear p pr;
            t = (if trm AND 1 \<noteq> 0 \<and> t \<noteq> 0 then pr - t else t)
        in \<lparr>res_p = p, res_q = q, res_t = t\<rparr>)"

definition modular_merge :: "Residues \<Rightarrow> Residues \<Rightarrow> u64 \<Rightarrow> Residues" where
  "modular_merge left right pr =
     \<lparr>res_p = multiply (res_p left) (res_p right) pr,
      res_q = multiply (res_q left) (res_q right) pr,
      res_t = (multiply (res_t left) (res_q right) pr + multiply (res_p left) (res_t right) pr) mod pr\<rparr>"

text \<open>The recursion does not end on an empty range.\<close>

partial_function (option) modular_calculate :: "u64 \<Rightarrow> u64 \<Rightarrow> u64 \<Rightarrow> Residues option" where
  "modular_calculate s e pr =
     (if e - s = 1 then Some (modular_leaf s pr)
      else
        Option.bind (modular_calculate s (s + (e - s) div 2) pr) (\<lambda>left.
        Option.bind (modular_calculate (s + (e - s) div 2) e pr) (\<lambda>right.
        Some (modular_merge left right pr))))"

definition modular_residue :: "gmp \<Rightarrow> int \<Rightarrow> u32 \<Rightarrow> u64" where
  "modular_residue g value pr = mpz_fdiv_ui g value (ucast pr)"

definition modularMismatches :: "gmp \<Rightarrow> CheckpointBlock \<Rightarrow> u32 \<Rightarrow> Residues \<Rightarrow> string" where
  "modularMismatches g block pr expected =
     (if modular_residue g (block_p block) pr \<noteq> res_p expected then ''P'' else [])
     @ (if modular_residue g (block_q block) pr \<noteq> res_q expected then ''Q'' else [])
     @ (if modular_residue g (block_t block) pr \<noteq> res_t expected then ''T'' else [])"

fun modularLoop :: "gmp \<Rightarrow> CheckpointBlock \<Rightarrow> u32 list \<Rightarrow> ValidationDiagnostic list option" where
  "modularLoop g block [] = Some []"
| "modularLoop g block (pr # primes) =
     Option.bind (modular_calculate (loc_start (block_location block)) (loc_end (block_location block)) (ucast pr))
       (\<lambda>expected.
     let mismatches = modularMismatches g block pr expected in
     Option.bind (modularLoop g block primes) (\<lambda>diagnostics.
     Some ((if mismatches \<noteq> []
            then [\<lparr>diag_stage = Stage_mathematics, diag_reason = Reason_modularMismatch,
                   diag_detail = ''P/Q/T component mismatch ('' @ mismatches @ '') modulo '' @ dec_string (unat pr)\<rparr>]
            else []) @ diagnostics)))"

definition ModularPQTVerifier_validate :: "gmp \<Rightarrow> CheckpointBlock \<Rightarrow> ValidationResult result option" where
  "ModularPQTVerifier_validate g block =
     (case res_bind (ComputationIdentity_validate (block_identity block))
             (\<lambda>_. BlockLocation_validate (block_location block) (block_identity block)) of
        Inl err \<Rightarrow> Some (ValidationResult_rejected_one
          \<lparr>diag_stage = Stage_mathematics, diag_reason = Reason_invalidRange, diag_detail = what err\<rparr>)
      | Inr _ \<Rightarrow> Option.bind (modularLoop g block verificationPrimes) (\<lambda>diagnostics. Some (verdict diagnostics)))"

section \<open>Residues are residues\<close>

text \<open>A modulus for which no product or sum of residues wraps around.\<close>

locale modulus =
  fixes pr :: u64
  assumes small: "7 < uint pr" "uint pr < 2147483648"
begin

text \<open>\<open>stands x a\<close>: the word is the residue of the integer.\<close>

definition stands :: "u64 \<Rightarrow> int \<Rightarrow> bool" where
  "stands x a \<longleftrightarrow> uint x = a mod uint pr"

lemma stands_bounds: "stands x a \<Longrightarrow> uint x < uint pr \<and> uint x < 2147483648"
  using small pos_mod_bound [of "uint pr" a] unfolding stands_def by linarith

lemma no_wrap: "0 \<le> a \<Longrightarrow> a < 4611686018427387904 \<Longrightarrow> a mod 2 ^ LENGTH(64) = (a :: int)"
  by (intro mod_pos_pos_trivial) simp_all

lemma multiply_stands: "stands x a \<Longrightarrow> stands y b \<Longrightarrow> stands (multiply x y pr) (a * b)"
proof -
  assume x: "stands x a" and y: "stands y b"
  have "uint x * uint y < 2147483648 * 2147483648"
    using stands_bounds [OF x] stands_bounds [OF y] by (intro mult_strict_mono) simp_all
  then have "uint (x * y) = uint x * uint y"
    unfolding uint_word_ariths by (intro no_wrap) simp_all
  then show ?thesis
    using x y by (simp add: stands_def multiply_def uint_mod mod_mult_eq)
qed

lemma add_stands: "stands x a \<Longrightarrow> stands y b \<Longrightarrow> stands ((x + y) mod pr) (a + b)"
proof -
  assume x: "stands x a" and y: "stands y b"
  have "uint (x + y) = uint x + uint y"
    using stands_bounds [OF x] stands_bounds [OF y] unfolding uint_word_ariths by (intro no_wrap) simp_all
  then show ?thesis
    using x y by (simp add: stands_def uint_mod mod_add_eq)
qed

lemma subtract_stands: "stands x a \<Longrightarrow> uint c < 7 \<Longrightarrow> stands (subtractSmall x c pr) (a - uint c)"
proof -
  assume x: "stands x a" and c: "uint c < 7"
  note b = stands_bounds [OF x] small c uint_ge_0 [of x] uint_ge_0 [of c]
  have "uint (x + pr) = uint x + uint pr"
    using b unfolding uint_word_ariths by (intro no_wrap) linarith+
  moreover have "uint (x + pr - c) = uint (x + pr) - uint c"
    using b unfolding uint_word_ariths(2) [of "x + pr"] calculation by (intro no_wrap) linarith+
  ultimately have "uint (subtractSmall x c pr) = (uint x + uint pr - uint c) mod uint pr"
    by (simp add: subtractSmall_def uint_mod)
  also have "\<dots> = (uint x - uint c) mod uint pr"
    by (metis add_diff_eq diff_add_eq mod_add_self2)
  also have "\<dots> = (a - uint c) mod uint pr"
    using x by (simp add: stands_def mod_diff_left_eq)
  finally show ?thesis by (simp add: stands_def)
qed

lemma negate_stands: "stands x a \<Longrightarrow> stands (if x \<noteq> 0 then pr - x else x) (- a)"
proof -
  assume x: "stands x a"
  have "uint (pr - x) = uint pr - uint x"
    using stands_bounds [OF x] small uint_ge_0 [of x] unfolding uint_word_ariths(2)
    by (intro no_wrap) linarith+
  moreover have "(- a) mod uint pr = (if a mod uint pr = 0 then 0 else uint pr - a mod uint pr)"
    by (simp add: zmod_zminus1_eq_if)
  moreover have "x \<noteq> 0 \<longleftrightarrow> uint x \<noteq> 0"
    by (simp add: word_uint_eq_iff)
  ultimately show ?thesis
    using x by (simp add: stands_def)
qed

lemma reduce_stands: "stands (x mod pr) (uint x)"
  by (simp add: stands_def uint_mod)

lemma constants_stand: "stands 1 1" "stands 2 2" "stands 6 6"
  using small by (simp_all add: stands_def)

lemma leaf_stands:
  "stands (res_p (modular_leaf k pr)) (term_P (unat k)) \<and> stands (res_q (modular_leaf k pr)) (term_Q (unat k))
   \<and> stands (res_t (modular_leaf k pr)) (term_T (unat k))"
proof (cases "k = 0")
  case True
  then show ?thesis
    using constants_stand reduce_stands [of tConstant]
    by (simp add: modular_leaf_def term_P_def term_Q_def term_T_def tConstant_def)
next
  case False
  let ?k = "uint k"
  have k: "int (unat k) = ?k" "unat k \<noteq> 0"
    using False by (simp_all add: unat_eq_zero)
  have odd: "k AND 1 \<noteq> 0 \<longleftrightarrow> odd (unat k)"
    by (simp add: and_one_eq word_unat_eq_iff unat_mod odd_iff_mod_2_eq_one)
  note ks = reduce_stands [of k]
  have sub: "stands x a \<Longrightarrow> stands (subtractSmall x 5 pr) (a - 5)" "stands x a \<Longrightarrow> stands (subtractSmall x 1 pr) (a - 1)" for x a
    using subtract_stands [of x a 5] subtract_stands [of x a 1] by simp_all
  note m6 = multiply_stands [OF constants_stand(3) ks] and m2 = multiply_stands [OF constants_stand(2) ks]
  note P = multiply_stands [OF multiply_stands [OF sub(1) [OF m6] sub(2) [OF m2]] sub(2) [OF m6]]
  note Q = multiply_stands [OF multiply_stands [OF multiply_stands [OF ks ks] ks] reduce_stands [of qConstant]]
  note L = add_stands [OF multiply_stands [OF ks reduce_stands [of tMultiplier]] reduce_stands [of tConstant]]
  note T = multiply_stands [OF L P]
  have P': "term_P (unat k) = (6 * ?k - 5) * (2 * ?k - 1) * (6 * ?k - 1)"
    using k by (simp add: term_P_def)
  have Q': "term_Q (unat k) = ?k * ?k * ?k * uint qConstant"
    using k by (simp add: term_Q_def qConstant_def power3_eq_cube)
  have c: "uint tMultiplier = 545140134" "uint tConstant = 13591409"
    by (simp_all add: tMultiplier_def tConstant_def)
  have T': "term_T (unat k) = (if odd (unat k) then - 1 else 1) * ((?k * uint tMultiplier + uint tConstant) * term_P (unat k))"
    unfolding term_T_def by (cases "odd (unat k)") (simp_all add: k(1) c algebra_simps)
  show ?thesis
    unfolding T' P' Q' using P Q T negate_stands [OF T] False odd
    by (cases "odd (unat k)") (auto simp: modular_leaf_def Let_def split: if_splits)
qed

lemma merge_stands:
  assumes "stands (res_p l) p" "stands (res_q l) q" "stands (res_t l) t"
    and "stands (res_p r) p'" "stands (res_q r) q'" "stands (res_t r) t'"
  shows "stands (res_p (modular_merge l r pr)) (p * p')" "stands (res_q (modular_merge l r pr)) (q * q')"
    "stands (res_t (modular_merge l r pr)) (t * q' + p * t')"
  using assms by (simp_all add: modular_merge_def multiply_stands add_stands)

definition residue_node :: "nat \<Rightarrow> nat \<Rightarrow> Residues" where
  "residue_node a b = \<lparr>res_p = word_of_int (range_P a b mod uint pr),
     res_q = word_of_int (range_Q a b mod uint pr), res_t = word_of_int (range_T a b mod uint pr)\<rparr>"

lemma stands_unique: "stands x a \<longleftrightarrow> x = word_of_int (a mod uint pr)"
proof -
  have "0 \<le> a mod uint pr" "a mod uint pr < 4611686018427387904"
    using small pos_mod_bound [of "uint pr" a] by (simp_all, linarith)
  then have "uint (word_of_int (a mod uint pr) :: u64) = a mod uint pr"
    using no_wrap [of "a mod uint pr"] by (simp add: uint_word_of_int)
  then show ?thesis
    by (auto simp: stands_def word_uint_eq_iff)
qed

lemma residue_nodeI:
  "stands (res_p r) (range_P a b) \<Longrightarrow> stands (res_q r) (range_Q a b) \<Longrightarrow> stands (res_t r) (range_T a b)
   \<Longrightarrow> r = residue_node a b"
  by (cases r) (simp add: stands_unique residue_node_def)

lemma residue_node_stands:
  "stands (res_p (residue_node a b)) (range_P a b)" "stands (res_q (residue_node a b)) (range_Q a b)"
  "stands (res_t (residue_node a b)) (range_T a b)"
  by (simp_all add: stands_unique residue_node_def)

end

text \<open>The residues are a splitting scheme like the integers.\<close>

sublocale modulus \<subseteq> residues: split_scheme "2 ^ 64 - 1" "\<lambda>k. modular_leaf (of_nat k) pr"
  "\<lambda>l r. Inr (modular_merge l r pr)" residue_node
proof
  fix k :: nat
  assume "k < 2 ^ 64 - 1"
  then show "modular_leaf (of_nat k) pr = residue_node k (Suc k)"
    using leaf_stands [of "of_nat k"] by (intro residue_nodeI) (simp_all add: unat_of_nat)
next
  fix a b c :: nat
  assume "a < b" "b < c"
  then show "(Inr (modular_merge (residue_node a b) (residue_node b c) pr) :: Residues result) = Inr (residue_node a c)"
    using merge_stands [OF residue_node_stands residue_node_stands, of a b b c]
    by (intro arg_cong [where f = Inr] residue_nodeI) (simp_all add: range_P_concat range_Q_concat range_T_concat)
qed

context modulus begin

lemma modular_calculate_eq:
  assumes "s < e"
  shows "modular_calculate s e pr = Some (residue_node (unat s) (unat e))"
  using assms
proof (induction s e rule: word_mid_induct)
  case (leaf s e)
  have "unat e = Suc (unat s)" "unat e < 2 ^ 64"
    using leaf unat_diff_eq_1_iff unat_u64_less [of e] by (simp, blast)
  then have "modular_leaf s pr = residue_node (unat s) (unat e)"
    using residues.node_leaf [of "unat s"] by simp
  with leaf show ?case
    by (simp add: modular_calculate.simps)
next
  case (split s e)
  have "unat s < unat (word_mid s e)" "unat (word_mid s e) < unat e" "unat e \<le> 2 ^ 64 - 1"
    using word_mid_between [OF split.hyps] by (simp_all only: word_less_nat_alt unat_u64_le)
  from residues.merge_node [OF this]
  have "modular_merge (residue_node (unat s) (unat (word_mid s e))) (residue_node (unat (word_mid s e)) (unat e)) pr
      = residue_node (unat s) (unat e)"
    by simp
  then show ?case
    using split by (subst modular_calculate.simps) (simp add: word_mid_def)
qed

end

interpretation prime1: modulus 998244353
  by unfold_locales simp_all

interpretation prime2: modulus 1000000007
  by unfold_locales simp_all

interpretation prime3: modulus 1000000009
  by unfold_locales simp_all

section \<open>What an accepted block satisfies\<close>

text \<open>The product of the three primes, and agreement of the stored values with the closed forms modulo \<open>m\<close>.\<close>

definition prime_product :: int where
  "prime_product = 998244353 * 1000000007 * 1000000009"

definition agrees_mod :: "int \<Rightarrow> CheckpointBlock \<Rightarrow> bool" where
  "agrees_mod m b \<longleftrightarrow>
     (let a = unat (loc_start (block_location b)); e = unat (loc_end (block_location b)) in
      m dvd block_p b - range_P a e \<and> m dvd block_q b - range_Q a e \<and> m dvd block_t b - range_T a e)"

lemma dvd_three_primes:
  "998244353 dvd x \<and> 1000000007 dvd x \<and> 1000000009 dvd x \<longleftrightarrow> prime_product dvd (x :: int)"
proof -
  have "coprime (998244353 :: int) 1000000007" "coprime (998244353 * 1000000007 :: int) 1000000009"
    by code_simp+
  then show ?thesis
    unfolding prime_product_def by (meson divides_mult dvd_mult_left dvd_mult_right)
qed

lemma agrees_product:
  "agrees_mod 998244353 b \<and> agrees_mod 1000000007 b \<and> agrees_mod 1000000009 b \<longleftrightarrow> agrees_mod prime_product b"
  unfolding agrees_mod_def Let_def dvd_three_primes [symmetric] by blast

context modulus begin

lemma mismatches_Nil:
  assumes "gmp_library g" and "ucast pr32 = pr" and "a = unat (loc_start (block_location b))"
    and "e = unat (loc_end (block_location b))"
  shows "modularMismatches g b pr32 (residue_node a e) = [] \<longleftrightarrow> agrees_mod (uint pr) b"
proof -
  have "modular_residue g x pr32 = w \<longleftrightarrow> uint pr dvd x - y" if "stands w y" for x y w
  proof -
    have "pr \<noteq> 0"
      using small by auto
    then have "uint (modular_residue g x pr32) = x mod uint pr"
      using gmp_library.mpz_fdiv_ui [OF assms(1), of pr x] by (simp add: modular_residue_def assms(2))
    then show ?thesis
      using that by (simp add: stands_def word_uint_eq_iff mod_eq_dvd_iff)
  qed
  note iff = this [OF residue_node_stands(1)] this [OF residue_node_stands(2)] this [OF residue_node_stands(3)]
  show ?thesis
    by (simp add: modularMismatches_def agrees_mod_def iff assms(3,4))
qed

end

text \<open>What the loop reports of one prime.\<close>

lemma modularLoop_step:
  assumes "gmp_library g" and "modulus (ucast pr)"
    and "loc_start (block_location b) < loc_end (block_location b)" and "modularLoop g b primes = Some ds"
  obtains d where "modularLoop g b (pr # primes) = Some (d @ ds)" "d = [] \<longleftrightarrow> agrees_mod (uint pr) b"
proof -
  let ?r = "modulus.residue_node (ucast pr) (unat (loc_start (block_location b))) (unat (loc_end (block_location b)))"
  have "uint (ucast pr :: u64) = uint pr"
    by (metis uint_nat unat_ucast_u32_u64)
  then have "modularMismatches g b pr ?r = [] \<longleftrightarrow> agrees_mod (uint pr) b"
    using modulus.mismatches_Nil [OF assms(2,1), of pr _ b] by simp
  then show thesis
    using modulus.modular_calculate_eq [OF assms(2,3)] assms(4)
    by (intro that [of "if modularMismatches g b pr ?r \<noteq> []
        then [\<lparr>diag_stage = Stage_mathematics, diag_reason = Reason_modularMismatch,
                   diag_detail = ''P/Q/T component mismatch ('' @ modularMismatches g b pr ?r @ '') modulo '' @ dec_string (unat pr)\<rparr>]
        else []"]) (simp_all add: Let_def)
qed

lemma modularLoop_primes:
  assumes "gmp_library g" and "loc_start (block_location b) < loc_end (block_location b)"
  obtains ds where "modularLoop g b verificationPrimes = Some ds" "ds = [] \<longleftrightarrow> agrees_mod prime_product b"
proof -
  note step = modularLoop_step [OF assms(1) _ assms(2)]
  have m: "modulus (ucast (998244353 :: u32))" "modulus (ucast (1000000007 :: u32))" "modulus (ucast (1000000009 :: u32))"
    using prime1.modulus_axioms prime2.modulus_axioms prime3.modulus_axioms by simp_all
  obtain d3 where d3: "modularLoop g b [1000000009] = Some (d3 @ [])" "d3 = [] \<longleftrightarrow> agrees_mod (uint (1000000009 :: u32)) b"
    by (rule step [OF m(3), of "[]" "[]"]) (simp, rule that)
  obtain d2 where d2: "modularLoop g b [1000000007, 1000000009] = Some (d2 @ d3 @ [])"
    "d2 = [] \<longleftrightarrow> agrees_mod (uint (1000000007 :: u32)) b"
    by (rule step [OF m(2) d3(1)]) (rule that)
  obtain d1 where d1: "modularLoop g b [998244353, 1000000007, 1000000009] = Some (d1 @ d2 @ d3 @ [])"
    "d1 = [] \<longleftrightarrow> agrees_mod (uint (998244353 :: u32)) b"
    by (rule step [OF m(1) d2(1)]) (rule that)
  have "d1 @ d2 @ d3 @ [] = [] \<longleftrightarrow> agrees_mod 998244353 b \<and> agrees_mod 1000000007 b \<and> agrees_mod 1000000009 b"
    using d1(2) d2(2) d3(2) by simp
  then have "d1 @ d2 @ d3 @ [] = [] \<longleftrightarrow> agrees_mod prime_product b"
    by (simp only: agrees_product)
  moreover have "modularLoop g b verificationPrimes = Some (d1 @ d2 @ d3 @ [])"
    unfolding verificationPrimes_def by (rule d1(1))
  ultimately show thesis
    by (rule that [rotated])
qed

section \<open>Properties\<close>

lemma modular_verifier_accepts:
  assumes "gmp_library g"
  shows "\<exists>r. ModularPQTVerifier_validate g b = Some (Inr r)
    \<and> (isAccepted r \<longleftrightarrow> ComputationIdentity_validate (block_identity b) = Inr ()
        \<and> BlockLocation_validate (block_location b) (block_identity b) = Inr ()
        \<and> agrees_mod prime_product b)"
proof (cases "res_bind (ComputationIdentity_validate (block_identity b))
    (\<lambda>_. BlockLocation_validate (block_location b) (block_identity b))")
  case (Inl err)
  then show ?thesis
    by (auto simp: ModularPQTVerifier_validate_def)
next
  case (Inr u)
  then have valid: "ComputationIdentity_validate (block_identity b) = Inr ()"
    "BlockLocation_validate (block_location b) (block_identity b) = Inr ()"
    by (auto simp: res_bind_eq_Inr_iff)
  then have "loc_start (block_location b) < loc_end (block_location b)"
    by (simp add: BlockLocation_validate_Inr)
  then obtain ds where "modularLoop g b verificationPrimes = Some ds" "ds = [] \<longleftrightarrow> agrees_mod prime_product b"
    by (rule modularLoop_primes [OF assms])
  then show ?thesis
    using valid by (simp add: ModularPQTVerifier_validate_def)
qed

text \<open>
  C19: The modular verifier returns, never throws, and accepts a block exactly when its identity and
  location are valid and its P, Q and T agree with the exact values of its range modulo the product
  of the three primes, a 27-digit number; so it accepts every correct block, and an error in P, Q or
  T that is smaller than the product is always found.
\<close>

theorem ModularPQTVerifier_accepts_iff:
  assumes "gmp_library g"
  shows "\<exists>r. ModularPQTVerifier_validate g b = Some (Inr r)
    \<and> (isAccepted r \<longleftrightarrow> ComputationIdentity_validate (block_identity b) = Inr ()
        \<and> BlockLocation_validate (block_location b) (block_identity b) = Inr ()
        \<and> agrees_mod prime_product b)"
  using assms by (rule modular_verifier_accepts)

definition sample_block :: CheckpointBlock where
  "sample_block = \<lparr>block_identity = sample_identity, block_location = \<lparr>loc_start = 0, loc_end = 1, loc_treeLevel = 0\<rparr>,
     block_p = 1, block_q = 1, block_t = 13591409\<rparr>"

theorem ModularPQTVerifier_accepts_iff_witness:
  "\<exists>r r'. ModularPQTVerifier_validate gmp_ref sample_block = Some (Inr r) \<and> isAccepted r
    \<and> ModularPQTVerifier_validate gmp_ref (sample_block\<lparr>block_t := 13591410\<rparr>) = Some (Inr r') \<and> \<not> isAccepted r'"
proof -
  have "range_P 0 1 = 1" "range_Q 0 1 = 1" "range_T 0 1 = 13591409"
    using range_P_single [of 0] range_Q_single [of 0] range_T_single [of 0]
    by (simp_all add: term_P_def term_Q_def term_T_def)
  then have "agrees_mod prime_product sample_block" "\<not> agrees_mod prime_product (sample_block\<lparr>block_t := 13591410\<rparr>)"
    by (simp_all add: agrees_mod_def sample_block_def prime_product_def)
  moreover have "BlockLocation_validate \<lparr>loc_start = 0, loc_end = 1, loc_treeLevel = 0\<rparr> sample_identity = Inr ()"
    by (simp add: BlockLocation_validate_Inr sample_identity_def)
  ultimately show ?thesis
    using ModularPQTVerifier_accepts_iff [OF gmp_ref.gmp_library_axioms, of sample_block]
      ModularPQTVerifier_accepts_iff [OF gmp_ref.gmp_library_axioms, of "sample_block\<lparr>block_t := 13591410\<rparr>"]
    by (auto simp: sample_block_def sample_identity_valid)
qed

end
