(* ===== verification/Posix_Files.thy ===== *)
theory Posix_Files
  imports Prelude
begin

text \<open>
  The part of the operating system and of \<open>std::filesystem\<close> the checkpoint code uses, with crashes.
  A path is a directory and a file name (the code only joins a directory and a plain name).  A name
  is bound to an inode; besides the current binding the disk keeps the bindings a crash may still
  leave, and whether the current data of an inode would survive.  Whether a call fails, and how many
  bytes a write takes, is decided by an environment, so that every statement holds for all failures.
\<close>

section \<open>The disk\<close>

datatype path = Path (parent_path: string) (path_filename: string)

record disk =
  dk_names :: "path \<Rightarrow> nat option"
  dk_maybe :: "path \<Rightarrow> nat option set"
  dk_data :: "nat \<Rightarrow> u8 list"
  dk_stable :: "nat \<Rightarrow> bool"
  dk_next :: nat

definition disk_create :: "path \<Rightarrow> disk \<Rightarrow> disk" where
  "disk_create p d = d\<lparr>dk_names := (dk_names d)(p := Some (dk_next d)),
     dk_maybe := (dk_maybe d)(p := insert (Some (dk_next d)) (dk_maybe d p)),
     dk_data := (dk_data d)(dk_next d := []), dk_stable := (dk_stable d)(dk_next d := False),
     dk_next := Suc (dk_next d)\<rparr>"

definition disk_write :: "nat \<Rightarrow> u8 list \<Rightarrow> disk \<Rightarrow> disk" where
  "disk_write ino bs d = d\<lparr>dk_data := (dk_data d)(ino := dk_data d ino @ bs),
     dk_stable := (dk_stable d)(ino := False)\<rparr>"

definition disk_fsync :: "nat \<Rightarrow> disk \<Rightarrow> disk" where
  "disk_fsync ino d = d\<lparr>dk_stable := (dk_stable d)(ino := True)\<rparr>"

definition disk_unlink :: "path \<Rightarrow> disk \<Rightarrow> disk" where
  "disk_unlink p d = d\<lparr>dk_names := (dk_names d)(p := None),
     dk_maybe := (dk_maybe d)(p := insert None (dk_maybe d p))\<rparr>"

definition disk_rename :: "path \<Rightarrow> path \<Rightarrow> disk \<Rightarrow> disk" where
  "disk_rename p q d = disk_unlink p (d\<lparr>dk_names := (dk_names d)(q := dk_names d p),
     dk_maybe := (dk_maybe d)(q := insert (dk_names d p) (dk_maybe d q))\<rparr>)"

definition disk_sync_dir :: "string \<Rightarrow> disk \<Rightarrow> disk" where
  "disk_sync_dir dir d = d\<lparr>dk_maybe := (\<lambda>p. if parent_path p = dir then {dk_names d p} else dk_maybe d p)\<rparr>"

text \<open>What a reader sees, and what may be found after a crash and a restart.\<close>

definition content :: "disk \<Rightarrow> path \<Rightarrow> u8 list option" where
  "content d p = map_option (dk_data d) (dk_names d p)"

fun binding_outcomes :: "disk \<Rightarrow> nat option \<Rightarrow> u8 list option set" where
  "binding_outcomes d None = {None}"
| "binding_outcomes d (Some ino) = (if dk_stable d ino then {Some (dk_data d ino)} else range Some)"

definition after_crash :: "disk \<Rightarrow> path \<Rightarrow> u8 list option set" where
  "after_crash d p = \<Union> (binding_outcomes d ` dk_maybe d p)"

section \<open>The process\<close>

record os_env =
  env_errno :: "nat \<Rightarrow> int option"
  env_accepts :: "nat \<Rightarrow> nat"
  env_pid :: nat

text \<open>The state of the process: the disk, the disks after each call so far, and the two temp-name counters.\<close>

record os =
  os_disk :: disk
  os_trace :: "disk list"
  os_calls :: nat
  os_tempSequence :: u64
  os_quarantineSequence :: u64

definition EINTR :: int where "EINTR = 4"

definition EEXIST :: int where "EEXIST = 17"

definition ENOENT :: int where "ENOENT = 2"

definition tick :: "os \<Rightarrow> disk \<Rightarrow> os" where
  "tick s d = s\<lparr>os_disk := d, os_trace := os_trace s @ [d], os_calls := Suc (os_calls s)\<rparr>"

definition sys_call :: "os_env \<Rightarrow> (disk \<Rightarrow> disk) \<Rightarrow> os \<Rightarrow> int option \<times> os" where
  "sys_call env f s =
     (case env_errno env (os_calls s) of
        Some e \<Rightarrow> (Some e, tick s (os_disk s)) | None \<Rightarrow> (None, tick s (f (os_disk s))))"

text \<open>\<open>open\<close> with \<open>O_CREAT | O_EXCL\<close>: a descriptor (the inode) or an error number.\<close>

definition sys_open_excl :: "os_env \<Rightarrow> path \<Rightarrow> os \<Rightarrow> (int + nat) \<times> os" where
  "sys_open_excl env p s =
     (if dk_names (os_disk s) p \<noteq> None then (Inl EEXIST, tick s (os_disk s))
      else case sys_call env (disk_create p) s of
             (Some e, s') \<Rightarrow> (Inl e, s') | (None, s') \<Rightarrow> (Inr (dk_next (os_disk s)), s'))"

definition sys_write :: "os_env \<Rightarrow> nat \<Rightarrow> u8 list \<Rightarrow> os \<Rightarrow> (int + nat) \<times> os" where
  "sys_write env ino bs s =
     (let n = min (env_accepts env (os_calls s)) (length bs) in
      case sys_call env (disk_write ino (take n bs)) s of
        (Some e, s') \<Rightarrow> (Inl e, s') | (None, s') \<Rightarrow> (Inr n, s'))"

definition sys_rename :: "os_env \<Rightarrow> path \<Rightarrow> path \<Rightarrow> os \<Rightarrow> int option \<times> os" where
  "sys_rename env p q s =
     (if dk_names (os_disk s) p = None then (Some ENOENT, tick s (os_disk s))
      else sys_call env (disk_rename p q) s)"

text \<open>A call whose failure the code turns into a \<open>std::system_error\<close> of the given operation.\<close>

definition sys_checked :: "string \<Rightarrow> (os \<Rightarrow> int option \<times> os) \<Rightarrow> (os, unit) action" where
  "sys_checked operation call s =
     (case call s of (Some e, s') \<Rightarrow> (Inl (System_error operation), s') | (None, s') \<Rightarrow> (Inr (), s'))"

text \<open>A call whose result the code ignores.\<close>

definition sys_ignored :: "(os \<Rightarrow> int option \<times> os) \<Rightarrow> (os, unit) action" where
  "sys_ignored call s = (Inr (), snd (call s))"

definition create_directories :: "os_env \<Rightarrow> (os, unit) action" where
  "create_directories env = sys_checked ''cannot create directories'' (sys_call env (\<lambda>d. d))"

text \<open>
  \<open>file_size\<close> followed by an \<open>ifstream\<close> that reads the whole file: the size, then the bytes.
\<close>

definition file_size :: "os_env \<Rightarrow> path \<Rightarrow> (os, nat) action" where
  "file_size env p s =
     (case content (os_disk s) p of
        None \<Rightarrow> (Inl (System_error ''cannot get file size''), tick s (os_disk s))
      | Some bs \<Rightarrow>
          (case sys_call env (\<lambda>d. d) s of
             (Some e, s') \<Rightarrow> (Inl (System_error ''cannot get file size''), s') | (None, s') \<Rightarrow> (Inr (length bs), s')))"

definition stream_read :: "os_env \<Rightarrow> path \<Rightarrow> os \<Rightarrow> u8 list option \<times> os" where
  "stream_read env p s =
     (case sys_call env (\<lambda>d. d) s of
        (Some e, s') \<Rightarrow> (None, s') | (None, s') \<Rightarrow> (content (os_disk s) p, s'))"

text \<open>\<open>std::filesystem::exists\<close>.\<close>

definition fs_exists :: "os_env \<Rightarrow> path \<Rightarrow> (os, bool) action" where
  "fs_exists env p s =
     (case sys_call env (\<lambda>d. d) s of
        (Some e, s') \<Rightarrow> (Inl (System_error ''cannot get status''), s') | (None, s') \<Rightarrow> (Inr (dk_names (os_disk s) p \<noteq> None), s'))"

text \<open>\<open>std::filesystem::remove\<close> with an error code: whether a file was removed.\<close>

definition fs_remove :: "os_env \<Rightarrow> path \<Rightarrow> os \<Rightarrow> bool \<times> os" where
  "fs_remove env p s =
     (if dk_names (os_disk s) p = None then (False, tick s (os_disk s))
      else case sys_call env (disk_unlink p) s of (Some e, s') \<Rightarrow> (False, s') | (None, s') \<Rightarrow> (True, s'))"

text \<open>
  An \<open>ofstream\<close>: opening it creates the file or truncates it, and writing with a close reports a failure
  after some of the bytes.  No file has two names, so truncating a file is giving its name to a new one.
\<close>

definition stream_create :: "os_env \<Rightarrow> path \<Rightarrow> os \<Rightarrow> nat option \<times> os" where
  "stream_create env p s =
     (case sys_call env (disk_create p) s of (Some e, s') \<Rightarrow> (None, s') | (None, s') \<Rightarrow> (Some (dk_next (os_disk s)), s'))"

definition stream_write :: "os_env \<Rightarrow> nat \<Rightarrow> u8 list \<Rightarrow> os \<Rightarrow> bool \<times> os" where
  "stream_write env ino bs s =
     (case env_errno env (os_calls s) of
        Some e \<Rightarrow> (False, tick s (disk_write ino (take (env_accepts env (os_calls s)) bs) (os_disk s)))
      | None \<Rightarrow> (True, tick s (disk_write ino bs (os_disk s))))"

text \<open>The files of a directory, in the order a \<open>directory_iterator\<close> gives them.\<close>

type_synonym listing = "disk \<Rightarrow> string \<Rightarrow> path list"

text \<open>\<open>std::string::find\<close> of a text, and \<open>path::extension\<close> of a plain file name.\<close>

fun contains :: "string \<Rightarrow> string \<Rightarrow> bool" where
  "contains sub s \<longleftrightarrow> take (length sub) s = sub \<or> (case s of [] \<Rightarrow> False | _ # t \<Rightarrow> contains sub t)"

definition is_temp_name :: "string \<Rightarrow> bool" where
  "is_temp_name name = contains ''.tmp.'' name"

definition file_extension :: "string \<Rightarrow> string" where
  "file_extension name =
     (if name = ''.'' \<or> name = ''..'' \<or> CHR ''.'' \<notin> set (tl name) then []
      else CHR ''.'' # rev (takeWhile (\<lambda>c. c \<noteq> CHR ''.'') (rev name)))"

declare contains.simps [simp del]

section \<open>Total correctness with both outcomes\<close>

definition p_post :: "('s, 'a) paction \<Rightarrow> 's \<Rightarrow> ('a result \<Rightarrow> 's \<Rightarrow> bool) \<Rightarrow> bool" where
  "p_post m s Q = (case m s of None \<Rightarrow> False | Some (r, s') \<Rightarrow> Q r s')"

definition st_post :: "('s, 'a) action \<Rightarrow> 's \<Rightarrow> ('a result \<Rightarrow> 's \<Rightarrow> bool) \<Rightarrow> bool" where
  "st_post m s Q = (case m s of (r, s') \<Rightarrow> Q r s')"

abbreviation on_result :: "(cpp_error \<Rightarrow> bool) \<Rightarrow> ('a \<Rightarrow> bool) \<Rightarrow> 'a result \<Rightarrow> bool" where
  "on_result E V r \<equiv> (case r of Inl e \<Rightarrow> E e | Inr x \<Rightarrow> V x)"

lemma p_post_bind [simp]:
  "p_post (p_bind m f) s Q = p_post m s (\<lambda>r s'. on_result (\<lambda>e. Q (Inl e) s') (\<lambda>x. p_post (f x) s' Q) r)"
  by (auto simp: p_post_def p_bind_def split: option.splits prod.splits sum.splits)

lemma p_post_lift [simp]: "p_post (p_lift m) s Q = st_post m s Q"
  by (simp add: p_post_def st_post_def)

lemma st_post_bind [simp]:
  "st_post (st_bind m f) s Q = st_post m s (\<lambda>r s'. on_result (\<lambda>e. Q (Inl e) s') (\<lambda>x. st_post (f x) s' Q) r)"
  by (auto simp: st_post_def st_bind_def split: prod.splits sum.splits)

lemma st_post_basic [simp]:
  "st_post (st_return x) s Q = Q (Inr x) s" "st_post (st_lift r) s Q = Q r s" "st_post (st_throw e) s Q = Q (Inl e) s"
  by (simp_all add: st_post_def)

lemma st_post_throw_if [simp]: "st_post (st_throw_if c e) s Q = Q (throw_if c e) s"
  by (simp add: st_post_def)

lemma p_post_mono: "p_post m s Q \<Longrightarrow> (\<And>r s'. Q r s' \<Longrightarrow> R r s') \<Longrightarrow> p_post m s R"
  by (auto simp: p_post_def split: option.splits)

lemma st_post_mono: "st_post m s Q \<Longrightarrow> (\<And>r s'. Q r s' \<Longrightarrow> R r s') \<Longrightarrow> st_post m s R"
  by (auto simp: st_post_def split: prod.splits)

lemma p_postD: "p_post m s Q \<Longrightarrow> \<exists>r s'. m s = Some (r, s') \<and> Q r s'"
  by (auto simp: p_post_def split: option.splits)

section \<open>Well-formed disks\<close>

text \<open>Every inode a name is or may be bound to was allocated, and the current binding may survive a crash.\<close>

definition disk_ok :: "disk \<Rightarrow> bool" where
  "disk_ok d \<longleftrightarrow> (\<forall>p. dk_names d p \<in> dk_maybe d p \<and> (\<forall>ino. Some ino \<in> dk_maybe d p \<longrightarrow> ino < dk_next d))"

lemma disk_ok_current: "disk_ok d \<Longrightarrow> dk_names d p \<in> dk_maybe d p"
  unfolding disk_ok_def by blast

lemma disk_ok_maybe: "disk_ok d \<Longrightarrow> Some ino \<in> dk_maybe d p \<Longrightarrow> ino < dk_next d"
  unfolding disk_ok_def by blast

lemma disk_ok_names: "disk_ok d \<Longrightarrow> dk_names d p = Some ino \<Longrightarrow> ino < dk_next d"
  using disk_ok_current [of d p] disk_ok_maybe by simp

lemma disk_okI:
  "(\<And>p. dk_names d p \<in> dk_maybe d p) \<Longrightarrow> (\<And>p ino. Some ino \<in> dk_maybe d p \<Longrightarrow> ino < dk_next d) \<Longrightarrow> disk_ok d"
  unfolding disk_ok_def by blast

lemma disk_ok_create: "disk_ok d \<Longrightarrow> disk_ok (disk_create p d)"
  by (rule disk_okI) (auto simp: disk_create_def disk_ok_current less_Suc_eq dest: disk_ok_maybe split: if_splits)

lemma disk_ok_write: "disk_ok d \<Longrightarrow> disk_ok (disk_write ino bs d)"
  by (rule disk_okI) (auto simp: disk_write_def disk_ok_current dest: disk_ok_maybe)

lemma disk_ok_fsync: "disk_ok d \<Longrightarrow> disk_ok (disk_fsync ino d)"
  by (rule disk_okI) (auto simp: disk_fsync_def disk_ok_current dest: disk_ok_maybe)

lemma disk_ok_unlink: "disk_ok d \<Longrightarrow> disk_ok (disk_unlink p d)"
  by (rule disk_okI) (auto simp: disk_unlink_def disk_ok_current dest: disk_ok_maybe split: if_splits)

lemma disk_ok_rename: "disk_ok d \<Longrightarrow> disk_ok (disk_rename p q d)"
  by (rule disk_okI)
    (auto simp: disk_rename_def disk_unlink_def disk_ok_current dest: disk_ok_maybe disk_ok_names [OF _ sym] split: if_splits)

lemma disk_ok_sync_dir: "disk_ok d \<Longrightarrow> disk_ok (disk_sync_dir dir d)"
  by (rule disk_okI)
    (auto simp: disk_sync_dir_def disk_ok_current dest: disk_ok_maybe disk_ok_names [OF _ sym] split: if_splits)

lemmas disk_oks = disk_ok_create disk_ok_write disk_ok_fsync disk_ok_unlink disk_ok_rename disk_ok_sync_dir

text \<open>The current content may survive a crash; syncing a directory only removes outcomes.\<close>

lemma content_outcome: "content d p \<in> binding_outcomes d (dk_names d p)"
  by (cases "dk_names d p") (simp_all add: content_def)

lemma content_after_crash: "disk_ok d \<Longrightarrow> content d p \<in> after_crash d p"
  using content_outcome disk_ok_current unfolding after_crash_def by blast

lemma binding_outcomes_cong:
  "(\<And>ino. b = Some ino \<Longrightarrow> dk_stable d ino = dk_stable d' ino \<and> dk_data d ino = dk_data d' ino) \<Longrightarrow>
   binding_outcomes d b = binding_outcomes d' b"
  by (cases b) simp_all

lemma after_crash_sync_dir: "disk_ok d \<Longrightarrow> after_crash (disk_sync_dir dir d) p \<subseteq> after_crash d p"
proof -
  assume "disk_ok d"
  moreover have "binding_outcomes (disk_sync_dir dir d) b = binding_outcomes d b" for b
    by (rule binding_outcomes_cong) (simp add: disk_sync_dir_def)
  ultimately show ?thesis
    using disk_ok_current [of d p] by (auto simp: after_crash_def disk_sync_dir_def)
qed

section \<open>A concrete start\<close>

text \<open>An empty disk, a process that has made no call, and an environment in which no call fails.\<close>

definition empty_disk :: disk where
  "empty_disk = \<lparr>dk_names = (\<lambda>_. None), dk_maybe = (\<lambda>_. {None}), dk_data = (\<lambda>_. []), dk_stable = (\<lambda>_. False), dk_next = 0\<rparr>"

definition fresh_os :: os where
  "fresh_os = \<lparr>os_disk = empty_disk, os_trace = [], os_calls = 0, os_tempSequence = 0, os_quarantineSequence = 0\<rparr>"

definition calm_env :: os_env where
  "calm_env = \<lparr>env_errno = (\<lambda>_. None), env_accepts = (\<lambda>_. 4096), env_pid = 7\<rparr>"

lemma disk_ok_empty: "disk_ok (os_disk fresh_os)"
  by (simp add: disk_ok_def fresh_os_def empty_disk_def)

end
