(* ===== verification/Atomic_Commit.thy ===== *)
theory Atomic_Commit
  imports Posix_Files
begin

text \<open>
  The durable replacement of a file (src/src/checkpoint/AtomicFileCommit.cpp): write a temp file,
  sync it, rename it over the destination, sync the directory.  Closing the descriptor on the way
  out of an exception has no effect on the disk and is not a step.
\<close>

section \<open>Operations\<close>

datatype AtomicCommitStage =
    Commit_tempCreated | Commit_contentWritten | Commit_fileSynced | Commit_fileClosed
  | Commit_beforeRename | Commit_renamed | Commit_directorySynced

text \<open>An observer may throw; \<open>None\<close> is the null pointer.\<close>

type_synonym AtomicCommitObserver = "(AtomicCommitStage \<Rightarrow> cpp_error option) option"

definition observe :: "AtomicCommitObserver \<Rightarrow> AtomicCommitStage \<Rightarrow> (os, unit) action" where
  "observe observer stage =
     (case observer of None \<Rightarrow> st_return ()
      | Some f \<Rightarrow> (case f stage of None \<Rightarrow> st_return () | Some e \<Rightarrow> st_throw e))"

definition tempCandidate :: "os_env \<Rightarrow> path \<Rightarrow> u64 \<Rightarrow> path" where
  "tempCandidate env destination sequence =
     Path (parent_path destination) (path_filename destination @ ''.tmp.'' @ dec_string (env_pid env) @ ''.'' @ dec_string (unat sequence))"

primrec createTempLoop :: "nat \<Rightarrow> os_env \<Rightarrow> path \<Rightarrow> (os, path \<times> nat) action" where
  "createTempLoop 0 env destination s =
     (Inl (Runtime_error ''Unable to allocate a unique checkpoint temp file''), s)"
| "createTempLoop (Suc attempts) env destination s =
     (let sequence = os_tempSequence s;
          s = s\<lparr>os_tempSequence := sequence + 1\<rparr>;
          candidate = tempCandidate env destination sequence
      in case sys_open_excl env candidate s of
           (Inr ino, s') \<Rightarrow> (Inr (candidate, ino), s')
         | (Inl errno, s') \<Rightarrow>
             if errno \<noteq> EEXIST then (Inl (System_error ''create checkpoint temp file''), s')
             else createTempLoop attempts env destination s')"

definition createTempPath :: "os_env \<Rightarrow> path \<Rightarrow> (os, path \<times> nat) action" where
  "createTempPath env destination = createTempLoop 128 env destination"

text \<open>The argument is what is left to write; interrupted calls are repeated, perhaps forever.\<close>

partial_function (option) writeAll :: "os_env \<Rightarrow> nat \<Rightarrow> u8 list \<Rightarrow> os \<Rightarrow> (unit result \<times> os) option" where
  "writeAll env ino bytes s =
     (if bytes = [] then Some (Inr (), s)
      else case sys_write env ino (take (2 ^ 63 - 1) bytes) s of
             (Inl errno, s') \<Rightarrow>
               if errno = EINTR then writeAll env ino bytes s'
               else Some (Inl (System_error ''write checkpoint temp file''), s')
           | (Inr written, s') \<Rightarrow>
               if written = 0 then Some (Inl (Runtime_error ''Checkpoint write made no progress''), s')
               else writeAll env ino (drop written bytes) s')"

text \<open>The \<open>try\<close> block: from the written content to the rename, up to the rename, and after it.\<close>

definition commitRename :: "os_env \<Rightarrow> AtomicCommitObserver \<Rightarrow> path \<Rightarrow> path \<Rightarrow> nat \<Rightarrow> (os, unit) action" where
  "commitRename env observer destination tempPath ino =
     st_bind (observe observer Commit_contentWritten) (\<lambda>_.
     st_bind (sys_checked ''sync checkpoint temp file'' (sys_call env (disk_fsync ino))) (\<lambda>_.
     st_bind (observe observer Commit_fileSynced) (\<lambda>_.
     st_bind (sys_checked ''close checkpoint temp file'' (sys_call env (\<lambda>d. d))) (\<lambda>_.
     st_bind (observe observer Commit_fileClosed) (\<lambda>_.
     st_bind (observe observer Commit_beforeRename) (\<lambda>_.
     sys_checked ''rename checkpoint temp file'' (sys_rename env tempPath destination)))))))"

definition commitContent ::
  "os_env \<Rightarrow> AtomicCommitObserver \<Rightarrow> path \<Rightarrow> path \<Rightarrow> nat \<Rightarrow> u8 list \<Rightarrow> (os, unit) paction" where
  "commitContent env observer destination tempPath ino bytes =
     p_bind (p_lift (observe observer Commit_tempCreated)) (\<lambda>_.
     p_bind (writeAll env ino bytes) (\<lambda>_.
     p_lift (commitRename env observer destination tempPath ino)))"

definition commitDirectory :: "os_env \<Rightarrow> AtomicCommitObserver \<Rightarrow> path \<Rightarrow> (os, unit) action" where
  "commitDirectory env observer destination =
     st_bind (observe observer Commit_renamed) (\<lambda>_.
     st_bind (sys_checked ''open checkpoint directory'' (sys_call env (\<lambda>d. d))) (\<lambda>_.
     st_bind (sys_checked ''sync checkpoint directory'' (sys_call env (disk_sync_dir (parent_path destination)))) (\<lambda>_.
     observe observer Commit_directorySynced)))"

text \<open>\<open>catch (...)\<close> with a handler that ends in \<open>throw\<close>.\<close>

definition p_on_error :: "('s, 'a) paction \<Rightarrow> ('s, unit) action \<Rightarrow> ('s, 'a) paction" where
  "p_on_error m handler s =
     (case m s of None \<Rightarrow> None
      | Some (r, s') \<Rightarrow> (case r of Inl e \<Rightarrow> Some (Inl e, snd (handler s')) | Inr x \<Rightarrow> Some (Inr x, s')))"

definition AtomicFileCommit_write ::
  "os_env \<Rightarrow> AtomicCommitObserver \<Rightarrow> path \<Rightarrow> u8 list \<Rightarrow> (os, unit) paction" where
  "AtomicFileCommit_write env observer destination bytes =
     p_bind (p_lift (st_throw_if (path_filename destination = [])
       (Invalid_argument ''Checkpoint destination is not a file path''))) (\<lambda>_.
     p_bind (p_lift (createTempPath env destination)) (\<lambda>(tempPath, ino).
     p_bind (p_on_error (commitContent env observer destination tempPath ino bytes)
       (sys_ignored (sys_call env (disk_unlink tempPath)))) (\<lambda>_.
     p_lift (commitDirectory env observer destination))))"

section \<open>What the calls may change\<close>

text \<open>Disks that agree on all old inodes and on all names outside \<open>T\<close>, the names temp files may have.\<close>

definition same_files :: "(path \<Rightarrow> bool) \<Rightarrow> disk \<Rightarrow> disk \<Rightarrow> bool" where
  "same_files T d0 d \<longleftrightarrow> disk_ok d \<and> dk_next d0 \<le> dk_next d
     \<and> (\<forall>ino < dk_next d0. dk_data d ino = dk_data d0 ino \<and> dk_stable d ino = dk_stable d0 ino)
     \<and> (\<forall>p. \<not> T p \<longrightarrow> dk_names d p = dk_names d0 p \<and> dk_maybe d p = dk_maybe d0 p)"

text \<open>A temp file with its inode and content.\<close>

definition temp_file :: "(path \<Rightarrow> bool) \<Rightarrow> disk \<Rightarrow> path \<Rightarrow> nat \<Rightarrow> u8 list \<Rightarrow> disk \<Rightarrow> bool" where
  "temp_file T d0 temp ino bs d \<longleftrightarrow> same_files T d0 d \<and> T temp \<and> dk_names d temp = Some ino
     \<and> dk_next d0 \<le> ino \<and> ino < dk_next d \<and> dk_data d ino = bs"

text \<open>
  What every disk on the way of a commit satisfies: other files are as before, and the destination is
  the old or the new content, now and after a crash.
\<close>

definition commit_state :: "(path \<Rightarrow> bool) \<Rightarrow> disk \<Rightarrow> path \<Rightarrow> u8 list \<Rightarrow> disk \<Rightarrow> bool" where
  "commit_state T d0 dest bytes d \<longleftrightarrow> disk_ok d
     \<and> (\<forall>p. \<not> T p \<longrightarrow> p \<noteq> dest \<longrightarrow>
          content d p = content d0 p \<and> after_crash d p \<subseteq> after_crash d0 p)
     \<and> content d dest \<in> {content d0 dest, Some bytes}
     \<and> after_crash d dest \<subseteq> insert (Some bytes) (after_crash d0 dest)"

text \<open>All disks the process went through since \<open>s\<close> satisfy \<open>J\<close>, the present one too.\<close>

definition traced :: "(disk \<Rightarrow> bool) \<Rightarrow> os \<Rightarrow> os \<Rightarrow> bool" where
  "traced J s s' \<longleftrightarrow> set (os_trace s') \<subseteq> set (os_trace s) \<union> Collect J \<and> J (os_disk s')"

lemma traced_tick: "traced J s0 s \<Longrightarrow> J d \<Longrightarrow> traced J s0 (tick s d)"
  by (auto simp: traced_def tick_def)

lemma traced_mono: "traced J s s' \<Longrightarrow> (\<And>d. J d \<Longrightarrow> K d) \<Longrightarrow> traced K s s'"
  by (auto simp: traced_def)

lemma traced_trans: "traced J s s' \<Longrightarrow> traced J s' s'' \<Longrightarrow> traced J s s''"
  by (auto simp: traced_def)

lemma traced_here: "J (os_disk s) \<Longrightarrow> traced J s s"
  by (simp add: traced_def)

lemma traced_disk: "traced J s s' \<Longrightarrow> J (os_disk s')"
  by (simp add: traced_def)

lemma os_disk_tick [simp]: "os_disk (tick s d) = d"
  by (simp add: tick_def)

lemma same_files_refl: "disk_ok d \<Longrightarrow> same_files T d d"
  by (simp add: same_files_def)

lemma same_files_view:
  assumes "same_files T d0 d" and "disk_ok d0" and "\<not> T p"
  shows "content d p = content d0 p" and "after_crash d p = after_crash d0 p"
proof -
  have n: "dk_names d p = dk_names d0 p" "dk_maybe d p = dk_maybe d0 p"
    and o: "\<And>ino. ino < dk_next d0 \<Longrightarrow> dk_data d ino = dk_data d0 ino \<and> dk_stable d ino = dk_stable d0 ino"
    using assms(1,3) unfolding same_files_def by blast+
  show "content d p = content d0 p"
    using n(1) o disk_ok_names [OF assms(2), of p] by (cases "dk_names d0 p") (simp_all add: content_def)
  have "binding_outcomes d b = binding_outcomes d0 b" if "b \<in> dk_maybe d0 p" for b
    using that o disk_ok_maybe [OF assms(2)] by (intro binding_outcomes_cong) auto
  then show "after_crash d p = after_crash d0 p"
    by (simp add: after_crash_def n(2))
qed

lemma same_files_commit: "same_files T d0 d \<Longrightarrow> disk_ok d0 \<Longrightarrow> \<not> T dest \<Longrightarrow> commit_state T d0 dest bytes d"
  unfolding commit_state_def using same_files_view [of T d0 d] by (auto simp: same_files_def)

lemma same_files_create:
  "same_files T d0 d \<Longrightarrow> T p \<Longrightarrow> temp_file T d0 p (dk_next d) [] (disk_create p d)"
  unfolding temp_file_def same_files_def
  by (auto simp: disk_ok_create) (auto simp: disk_create_def split: if_splits)

lemma temp_file_write: "temp_file T d0 p ino bs d \<Longrightarrow> temp_file T d0 p ino (bs @ xs) (disk_write ino xs d)"
  unfolding temp_file_def same_files_def by (auto simp: disk_ok_write) (auto simp: disk_write_def)

lemma temp_file_fsync:
  "temp_file T d0 p ino bs d \<Longrightarrow> temp_file T d0 p ino bs (disk_fsync ino d) \<and> dk_stable (disk_fsync ino d) ino"
  unfolding temp_file_def same_files_def by (auto simp: disk_ok_fsync) (auto simp: disk_fsync_def)

lemma same_files_unlink: "same_files T d0 d \<Longrightarrow> T p \<Longrightarrow> same_files T d0 (disk_unlink p d)"
  unfolding same_files_def by (auto simp: disk_ok_unlink) (auto simp: disk_unlink_def split: if_splits)

lemma temp_file_same: "temp_file T d0 p ino bs d \<Longrightarrow> same_files T d0 d"
  by (simp add: temp_file_def)

text \<open>The rename makes the complete temp file the new content of the destination.\<close>

lemma temp_file_rename:
  assumes t: "temp_file T d0 temp ino bytes d" and st: "dk_stable d ino" and ok: "disk_ok d0" and nt: "\<not> T dest"
  shows "commit_state T d0 dest bytes (disk_rename temp dest d)"
    and "dk_names (disk_rename temp dest d) dest = Some ino"
    and "binding_outcomes (disk_rename temp dest d) (Some ino) = {Some bytes}"
proof -
  let ?d = "disk_rename temp dest d"
  note sf = temp_file_same [OF t]
  have temp: "dk_names d temp = Some ino" "dk_data d ino = bytes" "T temp" "disk_ok d"
    using t by (simp_all add: temp_file_def same_files_def)
  then have ne: "dest \<noteq> temp" using nt by auto
  have data: "dk_data ?d = dk_data d" "dk_stable ?d = dk_stable d"
    by (simp_all add: disk_rename_def disk_unlink_def)
  have bo: "binding_outcomes ?d ` B = binding_outcomes d ` B" for B
    by (intro image_cong binding_outcomes_cong) (simp_all add: data)
  have dest: "dk_names ?d dest = Some ino" "dk_maybe ?d dest = insert (Some ino) (dk_maybe d dest)"
    using temp ne by (auto simp: disk_rename_def disk_unlink_def)
  then show "dk_names ?d dest = Some ino"
    by simp
  show new: "binding_outcomes ?d (Some ino) = {Some bytes}"
    by (simp add: data st temp(2))
  have crash: "after_crash ?d dest = insert (Some bytes) (after_crash d dest)"
    unfolding after_crash_def dest(2) image_insert new using bo by simp
  have other: "content ?d p = content d p \<and> after_crash ?d p = after_crash d p"
    if "\<not> T p" "p \<noteq> dest" for p
  proof -
    have "dk_names ?d p = dk_names d p" "dk_maybe ?d p = dk_maybe d p"
      using that temp(3) by (auto simp: disk_rename_def disk_unlink_def)
    then show ?thesis
      by (simp add: content_def after_crash_def data bo)
  qed
  have "content ?d dest = Some bytes"
    by (simp add: content_def dest(1) data temp(2))
  then show "commit_state T d0 dest bytes ?d"
    unfolding commit_state_def
    using other crash same_files_view [OF sf ok] nt disk_ok_rename [OF temp(4)] by auto
qed

section \<open>The steps of a commit\<close>

lemma is_temp_append: "is_temp_name (xs @ ''.tmp.'' @ ys)"
proof (induction xs)
  case Nil
  show ?case by (simp add: is_temp_name_def contains.simps)
next
  case (Cons x xs)
  then show ?case
    by (simp add: is_temp_name_def contains.simps [of _ "x # _"])
qed

abbreviation temp_path :: "path \<Rightarrow> bool" where
  "temp_path p \<equiv> is_temp_name (path_filename p)"

lemma tempCandidate_temp: "is_temp_name (path_filename (tempCandidate env dest seq))"
  using is_temp_append by (simp add: tempCandidate_def)

lemma st_post_observe: "(\<And>r. Q r s) \<Longrightarrow> st_post (observe observer stage) s Q"
  by (auto simp: st_post_def observe_def split: option.splits)

lemma st_post_checked:
  "(\<And>e. Q (Inl (System_error op)) (tick s (os_disk s))) \<Longrightarrow> Q (Inr ()) (tick s (f (os_disk s))) \<Longrightarrow>
   st_post (sys_checked op (sys_call env f)) s Q"
  by (auto simp: st_post_def sys_checked_def sys_call_def split: option.splits)

lemma createTempLoop_post:
  assumes T: "\<And>n. T (tempCandidate env dest n)" and "traced (same_files T d0) s0 s"
  shows "st_post (createTempLoop n env dest) s (\<lambda>r s'. traced (same_files T d0) s0 s'
    \<and> (\<forall>temp ino. r = Inr (temp, ino) \<longrightarrow> temp_file T d0 temp ino [] (os_disk s')))"
  using assms(2)
proof (induction n arbitrary: s)
  case 0
  then show ?case by (simp add: st_post_def)
next
  case (Suc n)
  let ?s = "s\<lparr>os_tempSequence := os_tempSequence s + 1\<rparr>" and ?c = "tempCandidate env dest (os_tempSequence s)"
  have s: "traced (same_files T d0) s0 ?s"
    using Suc.prems by (simp add: traced_def)
  have same: "same_files T d0 (os_disk ?s)"
    using s by (rule traced_disk)
  have stay: "traced (same_files T d0) s0 (tick ?s (os_disk ?s))"
    using s same by (rule traced_tick)
  have t: "temp_file T d0 ?c (dk_next (os_disk ?s)) [] (disk_create ?c (os_disk ?s))"
    using same T by (rule same_files_create)
  have new: "traced (same_files T d0) s0 (tick ?s (disk_create ?c (os_disk ?s)))"
    using s temp_file_same [OF t] by (rule traced_tick)
  show ?case
    using stay t new Suc.IH [OF stay]
    by (auto simp: st_post_def Let_def sys_open_excl_def sys_call_def split: option.splits)
qed

text \<open>Interrupted calls end: from every call on, one is not interrupted.\<close>

definition interrupts_end :: "os_env \<Rightarrow> bool" where
  "interrupts_end env \<longleftrightarrow> (\<forall>k. \<exists>m. env_errno env (k + m) \<noteq> Some EINTR)"

definition accepted_bytes :: "os_env \<Rightarrow> u8 list \<Rightarrow> os \<Rightarrow> nat" where
  "accepted_bytes env bytes s = min (env_accepts env (os_calls s)) (length (take (2 ^ 63 - 1) bytes))"

lemma writeAll_Nil: "writeAll env ino [] s = Some (Inr (), s)"
  by (subst writeAll.simps) simp

lemma writeAll_interrupted:
  "bytes \<noteq> [] \<Longrightarrow> env_errno env (os_calls s) = Some EINTR \<Longrightarrow>
   writeAll env ino bytes s = writeAll env ino bytes (tick s (os_disk s))"
  by (subst writeAll.simps) (simp add: sys_write_def sys_call_def Let_def)

lemma writeAll_failed:
  "bytes \<noteq> [] \<Longrightarrow> env_errno env (os_calls s) = Some e \<Longrightarrow> e \<noteq> EINTR \<Longrightarrow>
   writeAll env ino bytes s = Some (Inl (System_error ''write checkpoint temp file''), tick s (os_disk s))"
  by (subst writeAll.simps) (simp add: sys_write_def sys_call_def Let_def)

lemma writeAll_wrote:
  "bytes \<noteq> [] \<Longrightarrow> env_errno env (os_calls s) = None \<Longrightarrow> n = accepted_bytes env bytes s \<Longrightarrow>
   writeAll env ino bytes s =
     (let s' = tick s (disk_write ino (take n bytes) (os_disk s)) in
      if n = 0 then Some (Inl (Runtime_error ''Checkpoint write made no progress''), s')
      else writeAll env ino (drop n bytes) s')"
proof -
  assume a: "bytes \<noteq> []" "env_errno env (os_calls s) = None" and n: "n = accepted_bytes env bytes s"
  have "take n (take (2 ^ 63 - 1) bytes) = take n bytes"
    unfolding n accepted_bytes_def take_take length_take min.assoc by (simp add: min.commute)
  then show ?thesis
    using a unfolding writeAll.simps [of env ino bytes s] sys_write_def sys_call_def
    by (simp only: accepted_bytes_def [symmetric] n [symmetric] Let_def option.case prod.case sum.case if_False)
qed

text \<open>One turn that is not interrupted, given that the turns after it are as they should.\<close>

lemma writeAll_base:
  assumes IH: "\<And>rest bs' s'. length rest < length bytes \<Longrightarrow> traced (same_files T d0) s0 s' \<Longrightarrow>
      temp_file T d0 temp ino bs' (os_disk s') \<Longrightarrow>
      p_post (writeAll env ino rest) s' (\<lambda>r s''. traced (same_files T d0) s0 s''
        \<and> (r = Inr () \<longrightarrow> temp_file T d0 temp ino (bs' @ rest) (os_disk s'')))"
    and ni: "\<not> (bytes \<noteq> [] \<and> env_errno env (os_calls s) = Some EINTR)"
    and tr: "traced (same_files T d0) s0 s" and t: "temp_file T d0 temp ino bs (os_disk s)"
  shows "p_post (writeAll env ino bytes) s (\<lambda>r s'. traced (same_files T d0) s0 s'
    \<and> (r = Inr () \<longrightarrow> temp_file T d0 temp ino (bs @ bytes) (os_disk s')))"
proof (cases "bytes = []")
  case True
  then show ?thesis
    using tr t by (simp add: p_post_def writeAll_Nil)
next
  case False
  have stay: "traced (same_files T d0) s0 (tick s (os_disk s))"
    using tr traced_disk [OF tr] by (rule traced_tick)
  define n where "n = accepted_bytes env bytes s"
  let ?s = "tick s (disk_write ino (take n bytes) (os_disk s))"
  have t': "temp_file T d0 temp ino (bs @ take n bytes) (os_disk ?s)"
    using temp_file_write [OF t, of "take n bytes"] by simp
  have s': "traced (same_files T d0) s0 ?s"
    using tr temp_file_same [OF t'] by (simp add: traced_tick)
  show ?thesis
  proof (cases "env_errno env (os_calls s)")
    case None
    have "p_post (writeAll env ino (drop n bytes)) ?s (\<lambda>r s''. traced (same_files T d0) s0 s''
        \<and> (r = Inr () \<longrightarrow> temp_file T d0 temp ino ((bs @ take n bytes) @ drop n bytes) (os_disk s'')))" if "n \<noteq> 0"
      using that False by (intro IH s' t') simp
    then show ?thesis
      using s' writeAll_wrote [OF False None n_def] by (cases "n = 0") (auto simp: p_post_def Let_def)
  next
    case (Some e)
    then show ?thesis
      using False ni stay writeAll_failed [OF False Some] by (simp add: p_post_def)
  qed
qed

lemma writeAll_post:
  assumes "interrupts_end env" and "traced (same_files T d0) s0 s" and "temp_file T d0 temp ino bs (os_disk s)"
  shows "p_post (writeAll env ino bytes) s (\<lambda>r s'. traced (same_files T d0) s0 s'
    \<and> (r = Inr () \<longrightarrow> temp_file T d0 temp ino (bs @ bytes) (os_disk s')))"
  using assms(2,3)
proof (induction "length bytes" arbitrary: bytes bs s rule: less_induct)
  case less
  obtain m where "env_errno env (os_calls s + m) \<noteq> Some EINTR"
    using assms(1) unfolding interrupts_end_def by blast
  then show ?case
    using less.prems
  proof (induction m arbitrary: s)
    case (Suc m s)
    show ?case
    proof (cases "bytes \<noteq> [] \<and> env_errno env (os_calls s) = Some EINTR")
      case True
      have "traced (same_files T d0) s0 (tick s (os_disk s))"
        using Suc.prems(2) traced_disk [OF Suc.prems(2)] by (rule traced_tick)
      then have "p_post (writeAll env ino bytes) (tick s (os_disk s)) (\<lambda>r s'.
          traced (same_files T d0) s0 s' \<and> (r = Inr () \<longrightarrow> temp_file T d0 temp ino (bs @ bytes) (os_disk s')))"
        using Suc.prems by (intro Suc.IH) (simp_all add: tick_def)
      then show ?thesis
        using True by (simp add: p_post_def writeAll_interrupted)
    next
      case False
      show ?thesis
        by (rule writeAll_base [OF less.hyps False Suc.prems(2,3)])
    qed
  next
    case (0 s)
    then show ?case
      by (intro writeAll_base [OF less.hyps]) simp_all
  qed
qed

text \<open>An observer call, or a checked system call, in front of a sequence.\<close>

lemma observe_seq:
  "st_post F s Q \<Longrightarrow> (\<And>e. Q (Inl e) s) \<Longrightarrow> st_post (st_bind (observe observer stage) (\<lambda>_. F)) s Q"
  by (simp add: st_post_observe split: sum.split)

lemma observe_pseq:
  "p_post F s Q \<Longrightarrow> (\<And>e. Q (Inl e) s) \<Longrightarrow> p_post (p_bind (p_lift (observe observer stage)) (\<lambda>_. F)) s Q"
  by (simp add: st_post_observe split: sum.split)

lemma checked_seq:
  "st_post F (tick s (f (os_disk s))) Q \<Longrightarrow> (\<And>e. Q (Inl e) (tick s (os_disk s))) \<Longrightarrow>
   st_post (st_bind (sys_checked op (sys_call env f)) (\<lambda>_. F)) s Q"
  by (simp add: st_post_checked)

lemma commitRename_post:
  assumes ok: "disk_ok d0" and nt: "\<not> T dest"
    and tr: "traced (commit_state T d0 dest bytes) s0 s" and t: "temp_file T d0 temp ino bytes (os_disk s)"
  shows "st_post (commitRename env observer dest temp ino) s
    (\<lambda>r s'. traced (commit_state T d0 dest bytes) s0 s' \<and> on_result (\<lambda>e. same_files T d0 (os_disk s'))
       (\<lambda>_. dk_names (os_disk s') dest = Some ino \<and> binding_outcomes (os_disk s') (Some ino) = {Some bytes}) r)"
proof -
  let ?J = "commit_state T d0 dest bytes"
  define E where "E s' \<longleftrightarrow> traced ?J s0 s' \<and> same_files T d0 (os_disk s')" for s'
  define A where "A s' \<longleftrightarrow> traced ?J s0 s' \<and> temp_file T d0 temp ino bytes (os_disk s')" for s'
  define B where "B s' \<longleftrightarrow> A s' \<and> dk_stable (os_disk s') ino" for s'
  have AE: "E s'" if "A s'" for s'
    using that temp_file_same by (auto simp: A_def E_def)
  have stay: "A (tick s' (os_disk s'))" "E (tick s' (os_disk s'))" if "A s'" for s'
    using that temp_file_same by (auto simp: A_def E_def intro: traced_tick traced_disk)
  have sync: "B (tick s' (disk_fsync ino (os_disk s')))" if "A s'" for s'
    using that temp_file_fsync [of T d0 temp ino bytes "os_disk s'"] same_files_commit [where T = T, OF temp_file_same ok nt]
    by (auto simp: A_def B_def intro!: traced_tick)
  have stay_B: "A s'" "B (tick s' (os_disk s'))" if "B s'" for s'
    using that stay(1) [of s'] by (simp_all add: B_def)
  have rename: "st_post (sys_checked ''rename checkpoint temp file'' (sys_rename env temp dest)) s'
      (\<lambda>r s'. traced ?J s0 s' \<and> on_result (\<lambda>e. same_files T d0 (os_disk s'))
       (\<lambda>_. dk_names (os_disk s') dest = Some ino \<and> binding_outcomes (os_disk s') (Some ino) = {Some bytes}) r)"
    if "B s'" for s'
  proof -
    have d: "temp_file T d0 temp ino bytes (os_disk s')" "dk_stable (os_disk s') ino" "traced ?J s0 s'"
      using that by (simp_all add: A_def B_def)
    have "dk_names (os_disk s') temp = Some ino"
      using d(1) by (simp add: temp_file_def)
    then have "sys_rename env temp dest s' = sys_call env (disk_rename temp dest) s'"
      by (simp add: sys_rename_def)
    then have "st_post (sys_checked ''rename checkpoint temp file'' (sys_rename env temp dest)) s' Q
        = st_post (sys_checked ''rename checkpoint temp file'' (sys_call env (disk_rename temp dest))) s' Q" for Q
      by (simp add: st_post_def sys_checked_def)
    moreover note r = temp_file_rename [where T = T, OF d(1,2) ok nt]
    ultimately show ?thesis
      using stay(2) [of s'] that r traced_tick [OF d(3) r(1)] by (auto simp: B_def E_def intro!: st_post_checked)
  qed
  have "A s" using tr t by (simp add: A_def)
  note s1 = this sync [OF this]
  note s2 = stay_B [OF s1(2)]
  note errors = AE [OF s1(1)] stay(2) [OF s1(1)] AE [OF s2(1)] stay(2) [OF s2(1)] AE [OF stay_B(1) [OF s2(2)]]
  show ?thesis
    unfolding commitRename_def
    by (intro observe_seq checked_seq rename) (use errors [unfolded E_def] s2(2) in simp_all)
qed

lemma commitContent_post:
  assumes ok: "disk_ok d0" and nt: "\<not> T dest" and ie: "interrupts_end env"
    and tr: "traced (same_files T d0) s0 s" and t: "temp_file T d0 temp ino [] (os_disk s)"
  shows "p_post (commitContent env observer dest temp ino bytes) s
    (\<lambda>r s'. traced (commit_state T d0 dest bytes) s0 s' \<and> on_result (\<lambda>e. same_files T d0 (os_disk s'))
       (\<lambda>_. dk_names (os_disk s') dest = Some ino \<and> binding_outcomes (os_disk s') (Some ino) = {Some bytes}) r)"
    (is "p_post _ s ?Q")
proof -
  have weaken: "traced (commit_state T d0 dest bytes) s0 s' \<and> same_files T d0 (os_disk s')"
    if "traced (same_files T d0) s0 s'" for s'
    using traced_mono [OF that same_files_commit [where T = T, OF _ ok nt]] traced_disk [OF that] by simp
  have "p_post (p_bind (writeAll env ino bytes) (\<lambda>_. p_lift (commitRename env observer dest temp ino))) s ?Q"
    unfolding p_post_bind p_post_lift
  proof (rule p_post_mono [OF writeAll_post [OF ie tr t]])
    fix r :: "unit result" and s'
    assume w: "traced (same_files T d0) s0 s' \<and> (r = Inr () \<longrightarrow> temp_file T d0 temp ino ([] @ bytes) (os_disk s'))"
    have "st_post (commitRename env observer dest temp ino) s' ?Q" if "r = Inr ()"
      using w that weaken [of s'] by (intro commitRename_post ok nt) simp_all
    then show "on_result (\<lambda>e. ?Q (Inl e) s') (\<lambda>_. st_post (commitRename env observer dest temp ino) s' ?Q) r"
      using w weaken [of s'] by (cases r) simp_all
  qed
  then show ?thesis
    unfolding commitContent_def using weaken [OF tr] by (intro observe_pseq) simp_all
qed

text \<open>The unlink of the temp file on the way out of an exception.\<close>

lemma p_post_on_error:
  "p_post (p_on_error m h) s Q = p_post m s (\<lambda>r s'. on_result (\<lambda>e. st_post h s' (\<lambda>_ u. Q (Inl e) u)) (\<lambda>x. Q (Inr x) s') r)"
  by (auto simp: p_post_def p_on_error_def st_post_def split: option.splits sum.splits)

lemma commitCleanup_post:
  assumes ok: "disk_ok d0" and nt: "\<not> T dest" and tn: "T temp"
    and tr: "traced (commit_state T d0 dest bytes) s0 s" and same: "same_files T d0 (os_disk s)"
  shows "st_post (sys_ignored (sys_call env (disk_unlink temp))) s (\<lambda>_ s'. traced (commit_state T d0 dest bytes) s0 s')"
  using same_files_commit [where T = T, OF same ok nt] same_files_commit [where T = T, OF same_files_unlink [OF same tn] ok nt] tr
  by (auto simp: st_post_def sys_ignored_def sys_call_def intro!: traced_tick split: option.splits)

text \<open>After the directory is synced the destination is durable.\<close>

lemma commit_state_sync_dir: "commit_state T d0 dest bytes d \<Longrightarrow> commit_state T d0 dest bytes (disk_sync_dir dir d)"
proof -
  have "content (disk_sync_dir dir d) p = content d p" for p
    by (simp add: content_def disk_sync_dir_def)
  then show "commit_state T d0 dest bytes d \<Longrightarrow> ?thesis"
    using after_crash_sync_dir [of d dir] disk_ok_sync_dir [of d dir] unfolding commit_state_def
    by (simp add: subset_trans [OF after_crash_sync_dir])
qed

lemma commitDirectory_post:
  assumes tr: "traced (commit_state T d0 dest bytes) s0 s" and n: "dk_names (os_disk s) dest = Some ino"
    and new: "binding_outcomes (os_disk s) (Some ino) = {Some bytes}"
  shows "st_post (commitDirectory env observer dest) s (\<lambda>r s'. traced (commit_state T d0 dest bytes) s0 s'
    \<and> (r = Inr () \<longrightarrow> content (os_disk s') dest = Some bytes \<and> after_crash (os_disk s') dest = {Some bytes}))"
proof -
  let ?d = "disk_sync_dir (parent_path dest) (os_disk s)"
  have J: "commit_state T d0 dest bytes (os_disk s)"
    using tr by (rule traced_disk)
  have t1: "traced (commit_state T d0 dest bytes) s0 (tick s (os_disk s))"
    using tr J by (rule traced_tick)
  have t2: "traced (commit_state T d0 dest bytes) s0 (tick (tick s (os_disk s)) ?d)"
    using t1 commit_state_sync_dir [OF J] by (rule traced_tick)
  have t3: "traced (commit_state T d0 dest bytes) s0 (tick (tick s (os_disk s)) (os_disk s))"
    using t1 J by (rule traced_tick)
  have bo: "binding_outcomes ?d (Some ino) = {Some bytes}"
    unfolding new [symmetric] by (rule binding_outcomes_cong) (simp add: disk_sync_dir_def)
  have n': "dk_names ?d dest = Some ino" "dk_maybe ?d dest = {Some ino}"
    using n by (simp_all add: disk_sync_dir_def)
  have crash: "after_crash ?d dest = {Some bytes}"
    unfolding after_crash_def n'(2) image_insert bo by simp
  moreover have "content ?d dest = Some bytes"
    using content_outcome [of ?d dest] unfolding n'(1) bo by simp
  ultimately show ?thesis
    unfolding commitDirectory_def using t1 t2 t3 tr
    by (intro observe_seq checked_seq st_post_observe) simp_all
qed

lemma AtomicFileCommit_write_post:
  assumes T: "\<And>n. T (tempCandidate env dest n)" and ok: "disk_ok (os_disk s)" and nt: "\<not> T dest" and ie: "interrupts_end env"
  shows "p_post (AtomicFileCommit_write env observer dest bytes) s
    (\<lambda>r s'. traced (commit_state T (os_disk s) dest bytes) s s'
      \<and> (r = Inr () \<longrightarrow> content (os_disk s') dest = Some bytes \<and> after_crash (os_disk s') dest = {Some bytes}))"
    (is "p_post _ s ?Q")
proof -
  let ?d0 = "os_disk s" and ?J = "commit_state T (os_disk s) dest bytes"
  have start: "traced (same_files T ?d0) s s"
    using same_files_refl [OF ok] by (rule traced_here)
  have weaken: "traced ?J s s'" if "traced (same_files T ?d0) s s'" for s'
    using that same_files_commit [where T = T, OF _ ok nt] by (rule traced_mono)
  let ?rest = "\<lambda>(temp, ino). p_bind (p_on_error (commitContent env observer dest temp ino bytes)
       (sys_ignored (sys_call env (disk_unlink temp)))) (\<lambda>_. p_lift (commitDirectory env observer dest))"
  have rest: "p_post (?rest (temp, ino)) s' ?Q"
    if tr: "traced (same_files T ?d0) s s'" and t: "temp_file T ?d0 temp ino [] (os_disk s')" for temp ino s'
    unfolding prod.case p_post_bind p_post_lift
  proof (intro iffD2 [OF p_post_on_error] p_post_mono [OF commitContent_post [where T = T, OF ok nt ie tr t]])
    fix r :: "unit result" and s''
    assume "traced ?J s s'' \<and> on_result (\<lambda>e. same_files T ?d0 (os_disk s''))
       (\<lambda>_. dk_names (os_disk s'') dest = Some ino \<and> binding_outcomes (os_disk s'') (Some ino) = {Some bytes}) r"
    moreover have "T temp"
      using t by (simp add: temp_file_def)
    ultimately show "on_result (\<lambda>e. st_post (sys_ignored (sys_call env (disk_unlink temp))) s''
        (\<lambda>_ u. on_result (\<lambda>e. ?Q (Inl e) u) (\<lambda>_. st_post (commitDirectory env observer dest) u ?Q) (Inl e)))
      (\<lambda>x. on_result (\<lambda>e. ?Q (Inl e) s'') (\<lambda>_. st_post (commitDirectory env observer dest) s'' ?Q) (Inr x)) r"
      using commitCleanup_post [where T = T, OF ok nt] commitDirectory_post by (cases r) simp_all
  qed
  have "p_post (p_bind (p_lift (createTempPath env dest)) ?rest) s ?Q"
    unfolding p_post_bind p_post_lift createTempPath_def
  proof (rule st_post_mono [OF createTempLoop_post [where T = T, OF T start]])
    fix r :: "(path \<times> nat) result" and s'
    assume "traced (same_files T ?d0) s s'
      \<and> (\<forall>temp ino. r = Inr (temp, ino) \<longrightarrow> temp_file T ?d0 temp ino [] (os_disk s'))"
    then show "on_result (\<lambda>e. ?Q (Inl e) s') (\<lambda>x. p_post (?rest x) s' ?Q) r"
      using weaken [of s'] rest [of s'] by (cases r) (simp_all del: p_post_bind split: prod.split)
  qed
  then show ?thesis
    unfolding AtomicFileCommit_write_def using weaken [OF start] by (simp add: throw_if_def)
qed

text \<open>When no call fails, writes make progress and nobody observes, a commit succeeds.\<close>

definition no_failures :: "os_env \<Rightarrow> bool" where
  "no_failures env \<longleftrightarrow> (\<forall>k. env_errno env k = None \<and> 0 < env_accepts env k)"

lemma writeAll_succeeds:
  assumes "no_failures env"
  shows "\<exists>s'. writeAll env ino bytes s = Some (Inr (), s') \<and> dk_names (os_disk s') = dk_names (os_disk s)"
proof (induction "length bytes" arbitrary: bytes s rule: less_induct)
  case less
  show ?case
  proof (cases "bytes = []")
    case False
    let ?n = "accepted_bytes env bytes s"
    let ?s = "tick s (disk_write ino (take ?n bytes) (os_disk s))"
    have n: "?n \<noteq> 0" "env_errno env (os_calls s) = None"
      using assms False by (simp_all add: no_failures_def accepted_bytes_def)
    obtain s' where "writeAll env ino (drop ?n bytes) ?s = Some (Inr (), s')" "dk_names (os_disk s') = dk_names (os_disk ?s)"
      using less [of "drop ?n bytes" ?s] n(1) False by auto
    then show ?thesis
      using n writeAll_wrote [OF False n(2) refl] by (simp add: Let_def disk_write_def)
  qed (simp add: writeAll_Nil)
qed

lemma commit_succeeds:
  assumes env: "no_failures env" and "path_filename dest \<noteq> []"
    and fresh: "dk_names (os_disk s) (tempCandidate env dest (os_tempSequence s)) = None"
  shows "\<exists>s'. AtomicFileCommit_write env None dest bytes s = Some (Inr (), s')"
proof -
  have calls: "sys_call env f s = (None, tick s (f (os_disk s)))" for f s
    using env by (simp add: sys_call_def no_failures_def)
  let ?c = "tempCandidate env dest (os_tempSequence s)" and ?i = "dk_next (os_disk s)"
  let ?s = "tick (s\<lparr>os_tempSequence := os_tempSequence s + 1\<rparr>) (disk_create ?c (os_disk s))"
  have temp: "createTempPath env dest s = (Inr (?c, ?i), ?s)"
    using fresh by (simp add: createTempPath_def numeral_eq_Suc Let_def sys_open_excl_def calls)
  obtain s1 where w: "writeAll env ?i bytes ?s = Some (Inr (), s1)" "dk_names (os_disk s1) = dk_names (os_disk ?s)"
    using writeAll_succeeds [OF env] by blast
  have "\<exists>s2. commitContent env None dest ?c ?i bytes ?s = Some (Inr (), s2)"
    using w by (simp add: commitContent_def commitRename_def p_bind_def st_bind_def observe_def sys_checked_def
        sys_rename_def calls disk_fsync_def disk_create_def)
  then show ?thesis
    using assms(2) temp
    by (auto simp: AtomicFileCommit_write_def p_bind_def p_on_error_def commitDirectory_def st_bind_def observe_def
        sys_checked_def calls)
qed

section \<open>A commit is atomic\<close>

text \<open>
  C21: whatever calls fail and wherever the process or the machine stops, a commit leaves every file
  but its destination as it was, and the destination holds the old or the complete new content, for
  a reader now and after a crash; the disks after every single call of the commit are meant, not only
  the last one.  The commit returns unless its writes are interrupted forever, and when it returns
  normally, the new content is there and survives every crash.
\<close>

theorem AtomicFileCommit_atomic:
  assumes ok: "disk_ok (os_disk s)" and nt: "\<not> is_temp_name (path_filename dest)" and ie: "interrupts_end env"
  shows "\<exists>r s'. AtomicFileCommit_write env observer dest bytes s = Some (r, s')
    \<and> traced (commit_state temp_path (os_disk s) dest bytes) s s'
    \<and> (r = Inr () \<longrightarrow> content (os_disk s') dest = Some bytes \<and> after_crash (os_disk s') dest = {Some bytes})"
  using AtomicFileCommit_write_post [where T = temp_path, OF tempCandidate_temp assms] by (rule p_postD)

lemma interrupts_end_calm: "interrupts_end calm_env"
  by (simp add: interrupts_end_def calm_env_def)

theorem AtomicFileCommit_atomic_witness:
  "\<exists>r s'. AtomicFileCommit_write calm_env None (Path ''cp'' ''state'') [1, 2] fresh_os = Some (r, s')
    \<and> traced (commit_state temp_path (os_disk fresh_os) (Path ''cp'' ''state'') [1, 2]) fresh_os s'
    \<and> (r = Inr () \<longrightarrow> content (os_disk s') (Path ''cp'' ''state'') = Some [1, 2]
        \<and> after_crash (os_disk s') (Path ''cp'' ''state'') = {Some [1, 2]})"
  by (rule AtomicFileCommit_atomic [OF disk_ok_empty _ interrupts_end_calm]) (simp add: is_temp_name_def contains.simps)

end
