(* ===== verification/Checkpoint_Store.thy ===== *)
theory Checkpoint_Store
  imports Atomic_Commit Checkpoint_Manifest
begin

text \<open>
  The checkpoint directory (src/src/checkpoint/CheckpointStore.cpp): deterministic names for the
  blocks and the manifest of a computation, and their durable saving and loading.
\<close>

section \<open>Operations\<close>

record StoredCheckpointBlock =
  stored_path :: path
  stored_fileSize :: u64
  stored_payloadSize :: u64
  stored_checksumAlgorithm :: u16
  stored_checksum :: u32

record CheckpointStore =
  store_directory :: string

definition CheckpointStore_create :: "string \<Rightarrow> CheckpointStore result" where
  "CheckpointStore_create directory =
     res_bind (throw_if (directory = []) (Invalid_argument ''Checkpoint directory must not be empty'')) (\<lambda>_.
     Inr \<lparr>store_directory = directory\<rparr>)"

text \<open>\<open>std::to_string\<close> of an unsigned number.\<close>

abbreviation to_string :: "'a :: len word \<Rightarrow> string" where
  "to_string w \<equiv> dec_string (unat w)"

text \<open>The part of the two names that describes the computation.\<close>

definition identityName :: "ComputationIdentity \<Rightarrow> string \<Rightarrow> string" where
  "identityName identity rest =
     ''-a'' @ to_string (id_algorithm identity) @ ''-av'' @ to_string (id_arithmeticVersion identity)
     @ ''-fv'' @ to_string (id_formulaVersion identity) @ ''-d'' @ to_string (id_requestedDigits identity)
     @ ''-g'' @ to_string (id_guardDigits identity) @ ''-w'' @ to_string (id_workingDigits identity)
     @ ''-n'' @ to_string (id_termCount identity) @ rest"

definition blockName :: "ComputationIdentity \<Rightarrow> BlockLocation \<Rightarrow> string" where
  "blockName identity location =
     ''pqt-v'' @ to_string formatVersion @ identityName identity
       (''-r'' @ to_string (loc_start location) @ ''-'' @ to_string (loc_end location)
        @ ''-l'' @ to_string (loc_treeLevel location) @ ''.checkpoint'')"

definition blockPath :: "CheckpointStore \<Rightarrow> ComputationIdentity \<Rightarrow> BlockLocation \<Rightarrow> path result" where
  "blockPath store identity location =
     res_bind (ComputationIdentity_validate identity) (\<lambda>_.
     res_bind (BlockLocation_validate location identity) (\<lambda>_.
     Inr (Path (store_directory store) (blockName identity location))))"

definition CheckpointStore_save ::
  "os_env \<Rightarrow> sse42 option \<Rightarrow> gmp \<Rightarrow> CheckpointStore \<Rightarrow> ComputationIdentity \<Rightarrow> BlockLocation \<Rightarrow> int \<Rightarrow> int \<Rightarrow> int
   \<Rightarrow> AtomicCommitObserver \<Rightarrow> (os, StoredCheckpointBlock) paction" where
  "CheckpointStore_save env cpu g store identity location p q t observer =
     p_bind (p_lift (st_lift (blockPath store identity location))) (\<lambda>destination.
     p_bind (p_lift (create_directories env)) (\<lambda>_.
     p_bind (p_lift (st_lift (CheckpointBlockCodec_encode_values cpu g identity location p q t))) (\<lambda>encoded.
     p_bind (AtomicFileCommit_write env observer destination (enc_bytes encoded)) (\<lambda>_.
     p_lift (st_return \<lparr>stored_path = destination, stored_fileSize = of_nat (length (enc_bytes encoded)),
       stored_payloadSize = enc_payloadSize encoded, stored_checksumAlgorithm = enc_checksumAlgorithm encoded,
       stored_checksum = enc_checksum encoded\<rparr>)))))"

definition CheckpointStore_save_block ::
  "os_env \<Rightarrow> sse42 option \<Rightarrow> gmp \<Rightarrow> CheckpointStore \<Rightarrow> CheckpointBlock \<Rightarrow> (os, path) paction" where
  "CheckpointStore_save_block env cpu g store block =
     p_bind (CheckpointStore_save env cpu g store (block_identity block) (block_location block)
       (block_p block) (block_q block) (block_t block) None) (\<lambda>stored. p_lift (st_return (stored_path stored)))"

text \<open>The size check and the read of a whole file, with the two messages of its caller.\<close>

definition readWhole :: "os_env \<Rightarrow> (nat \<Rightarrow> unit result) \<Rightarrow> string \<Rightarrow> path \<Rightarrow> (os, u8 list) action" where
  "readWhole env limits unreadable source =
     st_bind (file_size env source) (\<lambda>fileSize.
     st_bind (st_lift (limits fileSize)) (\<lambda>_.
     st_bind (\<lambda>s. case stream_read env source s of (bs, s') \<Rightarrow> (Inr bs, s')) (\<lambda>input.
     case input of None \<Rightarrow> st_throw (Runtime_error unreadable) | Some bytes \<Rightarrow> st_return bytes)))"

definition load_limits :: "nat \<Rightarrow> unit result" where
  "load_limits fileSize =
     res_bind (throw_if (fileSize > unat (- 1 :: size_t)) (Length_error ''Checkpoint file is too large to load'')) (\<lambda>_.
     throw_if (fileSize > 2 ^ 63 - 1) (Length_error ''Checkpoint file exceeds stream limits''))"

definition CheckpointStore_load ::
  "os_env \<Rightarrow> sse42 option \<Rightarrow> gmp \<Rightarrow> CheckpointStore \<Rightarrow> ComputationIdentity \<Rightarrow> BlockLocation \<Rightarrow> (os, CheckpointBlock) action" where
  "CheckpointStore_load env cpu g store identity location =
     st_bind (st_lift (blockPath store identity location)) (\<lambda>source.
     st_bind (readWhole env load_limits ''Failed to read checkpoint file'' source) (\<lambda>bytes.
     st_bind (st_lift (CheckpointBlockCodec_decode cpu g bytes)) (\<lambda>block.
     st_bind (st_throw_if (block_identity block \<noteq> identity \<or> block_location block \<noteq> location)
       (Invalid_argument ''Checkpoint content does not match its deterministic path'')) (\<lambda>_.
     st_return block))))"

definition manifestName :: "ComputationIdentity \<Rightarrow> string" where
  "manifestName identity = ''manifest-v'' @ to_string manifestFormatVersion @ identityName identity ''.manifest''"

definition manifestPath :: "CheckpointStore \<Rightarrow> ComputationIdentity \<Rightarrow> path result" where
  "manifestPath store identity =
     res_bind (ComputationIdentity_validate identity) (\<lambda>_. Inr (Path (store_directory store) (manifestName identity)))"

definition saveManifest ::
  "os_env \<Rightarrow> sse42 option \<Rightarrow> CheckpointStore \<Rightarrow> CheckpointManifest \<Rightarrow> AtomicCommitObserver \<Rightarrow> (os, path) paction" where
  "saveManifest env cpu store manifest observer =
     p_bind (p_lift (st_lift (manifestPath store (man_identity manifest)))) (\<lambda>destination.
     p_bind (p_lift (create_directories env)) (\<lambda>_.
     p_bind (p_lift (st_lift (CheckpointManifestCodec_encode cpu manifest))) (\<lambda>bytes.
     p_bind (AtomicFileCommit_write env observer destination bytes) (\<lambda>_.
     p_lift (st_return destination)))))"

definition loadManifest_limits :: "nat \<Rightarrow> unit result" where
  "loadManifest_limits fileSize =
     throw_if (fileSize > unat (- 1 :: size_t) \<or> fileSize > 2 ^ 63 - 1)
       (Length_error ''Checkpoint manifest is too large to load'')"

definition loadManifest ::
  "os_env \<Rightarrow> sse42 option \<Rightarrow> CheckpointStore \<Rightarrow> ComputationIdentity \<Rightarrow> (os, CheckpointManifest) action" where
  "loadManifest env cpu store identity =
     st_bind (st_lift (manifestPath store identity)) (\<lambda>source.
     st_bind (readWhole env loadManifest_limits ''Failed to read checkpoint manifest'' source) (\<lambda>bytes.
     st_bind (st_lift (CheckpointManifestCodec_decode cpu bytes)) (\<lambda>manifest.
     st_bind (st_throw_if (man_identity manifest \<noteq> identity)
       (Invalid_argument ''Checkpoint manifest does not match its deterministic path'')) (\<lambda>_.
     st_return manifest))))"

section \<open>Names\<close>

lemma digit_char_inject: "a < 10 \<Longrightarrow> b < 10 \<Longrightarrow> digit_char a = digit_char b \<longleftrightarrow> a = b"
  by (simp add: digit_char_def)

lemma dec_string_inject [simp]: "dec_string a = dec_string b \<longleftrightarrow> a = b"
proof (induction a arbitrary: b rule: dec_string.induct)
  case (1 a)
  show ?case
  proof (cases "a < 10 \<or> b < 10")
    case True
    then show ?thesis
      by (subst (1 2) dec_string.simps) (auto simp: digit_char_inject dec_string_nonempty dec_string_nonempty [symmetric])
  next
    case False
    then have "dec_string a = dec_string b \<longleftrightarrow> a div 10 = b div 10 \<and> a mod 10 = b mod 10"
      by (subst (1 2) dec_string.simps) (simp add: 1 digit_char_inject)
    also have "\<dots> \<longleftrightarrow> a = b"
      by (metis div_mult_mod_eq)
    finally show ?thesis .
  qed
qed

definition is_digit :: "char \<Rightarrow> bool" where
  "is_digit c \<longleftrightarrow> (\<exists>n < 10. c = digit_char n)"

lemma is_digit_digit [simp]: "n < 10 \<Longrightarrow> is_digit (digit_char n)"
  by (auto simp: is_digit_def)

lemma dec_string_digits: "c \<in> set (dec_string n) \<Longrightarrow> is_digit c"
proof (induction n rule: dec_string.induct)
  case (1 n)
  then show ?case
    by (subst (asm) (2) dec_string.simps) (auto split: if_splits)
qed

lemma dec_string_sep:
  assumes "\<not> is_digit c" and "\<not> is_digit c'"
  shows "dec_string a @ c # xs = dec_string b @ c' # ys \<longleftrightarrow> a = b \<and> c = c' \<and> xs = ys"
proof -
  have take: "takeWhile is_digit (dec_string n @ d # zs) = dec_string n" if "\<not> is_digit d" for n d zs
    using that dec_string_digits [of _ n] by (subst takeWhile_append2) auto
  show ?thesis
    using take [OF assms(1), of a xs] take [OF assms(2), of b ys] by (metis append_same_eq append_eq_append_conv dec_string_inject list.inject)
qed

lemma is_digit_iff: "is_digit c \<longleftrightarrow> 48 \<le> (of_char c :: nat) \<and> (of_char c :: nat) < 58"
proof
  assume "48 \<le> (of_char c :: nat) \<and> (of_char c :: nat) < 58"
  then have "c = digit_char (of_char c - 48) \<and> (of_char c :: nat) - 48 < 10"
    by (auto simp: digit_char_def)
  then show "is_digit c"
    unfolding is_digit_def by blast
qed (auto simp: is_digit_def digit_char_def)

lemma number_sep:
  "dec_string a @ CHR ''-'' # xs = dec_string b @ CHR ''-'' # ys \<longleftrightarrow> a = b \<and> xs = ys"
  "dec_string a @ CHR ''.'' # xs = dec_string b @ CHR ''.'' # ys \<longleftrightarrow> a = b \<and> xs = ys"
  "dec_string a @ CHR ''.'' # xs \<noteq> dec_string b @ CHR ''-'' # ys"
  by (simp_all add: dec_string_sep is_digit_iff)

lemma unat_inject: "unat a = unat b \<longleftrightarrow> a = b"
  by (simp add: word_unat_eq_iff)

lemma identityName_inject:
  "identityName i (CHR ''-'' # xs) = identityName i' (CHR ''-'' # ys) \<longleftrightarrow> i = i' \<and> xs = ys"
  "identityName i (CHR ''.'' # xs) = identityName i' (CHR ''.'' # ys) \<longleftrightarrow> i = i' \<and> xs = ys"
  by (auto simp: identityName_def number_sep unat_inject)

lemma blockName_inject: "blockName i l = blockName i' l' \<longleftrightarrow> i = i' \<and> l = l'"
  by (auto simp: blockName_def identityName_inject number_sep unat_inject)

lemma manifestName_inject: "manifestName i = manifestName i' \<longleftrightarrow> i = i'"
  by (simp add: manifestName_def identityName_inject)

lemma block_not_manifest: "blockName i l \<noteq> manifestName i'"
  by (simp add: blockName_def manifestName_def)

text \<open>A temp name has two dots, the names of the store have one.\<close>

lemma count_list_take_le: "count_list (take n xs) c \<le> count_list xs c"
  by (metis append_take_drop_id count_list_append le_add1)

lemma contains_count: "contains sub s \<Longrightarrow> count_list sub c \<le> count_list s c"
proof (induction s)
  case Nil
  then show ?case by (simp add: contains.simps)
next
  case (Cons x s)
  show ?case
  proof (cases "take (length sub) (x # s) = sub")
    case True
    then show ?thesis
      using count_list_take_le [of "length sub" "x # s" c] by simp
  next
    case False
    then have "contains sub s"
      using Cons.prems by (subst (asm) contains.simps) simp
    then show ?thesis
      using Cons.IH by (simp add: le_Suc_eq)
  qed
qed

lemma number_dots [simp]: "count_list (dec_string n) CHR ''.'' = 0"
  using dec_string_digits [of "CHR ''.''" n] by (auto simp: count_list_0_iff is_digit_iff)

lemma store_names_not_temp: "\<not> is_temp_name (blockName i l)" "\<not> is_temp_name (manifestName i)"
  using contains_count [of "''.tmp.''" _ "CHR ''.''"]
  by (fastforce simp: is_temp_name_def blockName_def manifestName_def identityName_def)+

lemma store_names_nonempty: "blockName i l \<noteq> []" "manifestName i \<noteq> []"
  by (simp_all add: blockName_def manifestName_def)

lemma blockPath_Inr:
  "blockPath store i l = Inr p \<longleftrightarrow> ComputationIdentity_validate i = Inr () \<and> BlockLocation_validate l i = Inr ()
     \<and> p = Path (store_directory store) (blockName i l)"
  by (auto simp: blockPath_def res_bind_eq_Inr_iff)

lemma manifestPath_Inr:
  "manifestPath store i = Inr p \<longleftrightarrow> ComputationIdentity_validate i = Inr () \<and> p = Path (store_directory store) (manifestName i)"
  by (auto simp: manifestPath_def res_bind_eq_Inr_iff)


section \<open>Saving\<close>

text \<open>
  How far a disk may have moved: every file that is not a temp file has its old content or one of
  the contents \<open>F\<close> adds, now and after a crash.
\<close>

definition evolves :: "disk \<Rightarrow> (path \<Rightarrow> u8 list option set) \<Rightarrow> disk \<Rightarrow> bool" where
  "evolves d0 F d \<longleftrightarrow> disk_ok d \<and> (\<forall>p. \<not> is_temp_name (path_filename p) \<longrightarrow>
     content d p \<in> insert (content d0 p) (F p) \<and> after_crash d p \<subseteq> after_crash d0 p \<union> F p)"

definition writes :: "path \<Rightarrow> u8 list option \<Rightarrow> path \<Rightarrow> u8 list option set" where
  "writes dest c p = (if p = dest then {c} else {})"

lemma commit_evolves: "commit_state temp_path d0 dest bytes d \<Longrightarrow> evolves d0 (writes dest (Some bytes)) d"
  by (auto simp: commit_state_def evolves_def writes_def)

lemma evolves_refl: "disk_ok d \<Longrightarrow> evolves d F d"
  by (simp add: evolves_def)

lemma evolves_trans: "evolves d0 F d1 \<Longrightarrow> evolves d1 G d2 \<Longrightarrow> evolves d0 (\<lambda>p. F p \<union> G p) d2"
  unfolding evolves_def by fastforce

lemma evolves_mono: "evolves d0 F d \<Longrightarrow> (\<And>p. F p \<subseteq> G p) \<Longrightarrow> evolves d0 G d"
  unfolding evolves_def by blast

lemma evolves_ok: "evolves d0 F d \<Longrightarrow> disk_ok d"
  by (simp add: evolves_def)

lemma evolves_same: "evolves d0 F d1 \<Longrightarrow> evolves d1 F d2 \<Longrightarrow> evolves d0 F d2"
  using evolves_trans [of d0 F d1 F d2] by simp

lemma traced_evolves:
  assumes "traced (evolves d0 F) s s'" and "traced (evolves (os_disk s') F) s' s''"
  shows "traced (evolves d0 F) s s''"
  using assms(1) traced_mono [OF assms(2) evolves_same [OF traced_disk [OF assms(1)]]] by (rule traced_trans)

lemma evolves_unlink:
  assumes "disk_ok d"
  shows "evolves d (writes p None) (disk_unlink p d)"
proof -
  have same: "binding_outcomes (disk_unlink p d) b = binding_outcomes d b" for b
    by (rule binding_outcomes_cong) (simp add: disk_unlink_def)
  have "content (disk_unlink p d) q \<in> insert (content d q) (writes p None q)" for q
    by (simp add: content_def disk_unlink_def writes_def)
  moreover have "after_crash (disk_unlink p d) q \<subseteq> after_crash d q \<union> writes p None q" for q
    by (auto simp: after_crash_def same) (auto simp: disk_unlink_def writes_def split: if_splits)
  ultimately show ?thesis
    using disk_ok_unlink [OF assms] by (simp add: evolves_def)
qed

lemma evolves_temp_unlink:
  assumes "disk_ok d" and "temp_path p"
  shows "evolves d F (disk_unlink p d)"
proof -
  have "writes p None q \<subseteq> F q" if "\<not> temp_path q" for q
    using that assms(2) by (auto simp: writes_def)
  then show ?thesis
    using evolves_unlink [OF assms(1), of p] unfolding evolves_def by blast
qed

lemma traced_evolves_step:
  assumes "traced (evolves d0 F) s0 s" and "evolves (os_disk s) F d"
  shows "traced (evolves d0 F) s0 (tick s d)"
  using assms(1) evolves_same [OF traced_disk [OF assms(1)] assms(2)] by (rule traced_tick)

lemma evolves_sync_dir: "disk_ok d \<Longrightarrow> evolves d F (disk_sync_dir dir d)"
proof -
  have "content (disk_sync_dir dir d) p = content d p" for p
    by (simp add: content_def disk_sync_dir_def)
  then show "disk_ok d \<Longrightarrow> ?thesis"
    using after_crash_sync_dir [of d dir] disk_ok_sync_dir [of d dir] by (auto simp: evolves_def)
qed

lemma evolves_rename:
  assumes "disk_ok d"
  shows "evolves d (\<lambda>r. if r = p then {None} else if r = q then UNIV else {}) (disk_rename p q d)"
proof -
  have same: "binding_outcomes (disk_rename p q d) b = binding_outcomes d b" for b
    by (rule binding_outcomes_cong) (simp add: disk_rename_def disk_unlink_def)
  have "content (disk_rename p q d) r \<in> insert (content d r) (if r = p then {None} else if r = q then UNIV else {})" for r
    by (simp add: content_def disk_rename_def disk_unlink_def)
  moreover have "after_crash (disk_rename p q d) r \<subseteq> after_crash d r \<union> (if r = p then {None} else if r = q then UNIV else {})" for r
  proof (cases "r = p \<or> r = q")
    case True
    then show ?thesis
      using disk_ok_current [OF assms, of p] by (auto simp: after_crash_def same) (auto simp: disk_rename_def disk_unlink_def split: if_splits)
  next
    case False
    then show ?thesis
      by (auto simp: after_crash_def same) (auto simp: disk_rename_def disk_unlink_def split: if_splits)
  qed
  ultimately show ?thesis
    using disk_ok_rename [OF assms] by (simp add: evolves_def)
qed

text \<open>A commit to any destination at all.\<close>

lemma write_evolves:
  assumes "disk_ok (os_disk s)" and "interrupts_end env"
  shows "p_post (AtomicFileCommit_write env observer dest bytes) s
    (\<lambda>r s'. traced (evolves (os_disk s) (writes dest (Some bytes))) s s')"
proof -
  let ?T = "\<lambda>p. \<exists>n. p = tempCandidate env dest n"
  have "\<not> ?T dest"
    by (auto simp: tempCandidate_def dest: arg_cong [of _ _ "\<lambda>p. length (path_filename p)"])
  moreover have "evolves (os_disk s) (writes dest (Some bytes)) d" if "commit_state ?T (os_disk s) dest bytes d" for d
  proof -
    have "\<not> ?T p" if "\<not> temp_path p" for p
      using that tempCandidate_temp by blast
    then show ?thesis
      using that unfolding commit_state_def evolves_def writes_def by fastforce
  qed
  ultimately show ?thesis
    by (intro p_post_mono [OF AtomicFileCommit_write_post [where T = ?T, OF _ assms(1) _ assms(2)]])
      (auto intro: traced_mono)
qed

text \<open>What a commit whose destination is a name of the store does, as a postcondition.\<close>

definition durable :: "disk \<Rightarrow> path \<Rightarrow> u8 list \<Rightarrow> bool" where
  "durable d p bytes \<longleftrightarrow> content d p = Some bytes \<and> after_crash d p = {Some bytes}"

lemma create_directories_post:
  "disk_ok (os_disk s) \<Longrightarrow> (\<And>r s'. os_disk s' = os_disk s \<Longrightarrow> traced (\<lambda>d. d = os_disk s) s s' \<Longrightarrow> Q r s') \<Longrightarrow>
   st_post (create_directories env) s Q"
  unfolding create_directories_def by (rule st_post_checked) (auto simp: traced_def tick_def)

lemma store_commit_post:
  assumes ok: "disk_ok (os_disk s)" and ie: "interrupts_end env" and nt: "\<not> is_temp_name (path_filename dest)"
  shows "p_post (p_bind (p_lift (create_directories env)) (\<lambda>_. p_bind (p_lift (st_lift encoded)) (\<lambda>e.
      p_bind (AtomicFileCommit_write env observer dest (bytes e)) (\<lambda>_. p_lift (st_return (x e)))))) s
    (\<lambda>r s'. traced (evolves (os_disk s) (\<lambda>p. case encoded of Inl _ \<Rightarrow> {} | Inr e \<Rightarrow> writes dest (Some (bytes e)) p)) s s'
      \<and> (\<forall>y. r = Inr y \<longrightarrow> (\<exists>e. encoded = Inr e \<and> y = x e \<and> durable (os_disk s') dest (bytes e))))"
    (is "p_post _ s ?Q")
proof -
  let ?F = "\<lambda>p. case encoded of Inl _ \<Rightarrow> {} | Inr e \<Rightarrow> writes dest (Some (bytes e)) p"
  have same: "traced (evolves (os_disk s) ?F) s s'" if "traced (\<lambda>d. d = os_disk s) s s'" for s'
    using that by (rule traced_mono) (simp add: evolves_refl [OF ok])
  have commit: "p_post (AtomicFileCommit_write env observer dest (bytes e)) s'
      (\<lambda>r s''. on_result (\<lambda>e. ?Q (Inl e) s'') (\<lambda>_. st_post (st_return (x e)) s'' ?Q) r)"
    if s': "os_disk s' = os_disk s" "traced (\<lambda>d. d = os_disk s) s s'" and e: "encoded = Inr e" for s' e
  proof (rule p_post_mono [OF AtomicFileCommit_write_post [where T = temp_path, OF tempCandidate_temp _ nt ie]])
    show "disk_ok (os_disk s')" using ok s' by simp
    fix r :: "unit result" and s''
    assume a: "traced (commit_state temp_path (os_disk s') dest (bytes e)) s' s'' \<and>
      (r = Inr () \<longrightarrow> content (os_disk s'') dest = Some (bytes e) \<and> after_crash (os_disk s'') dest = {Some (bytes e)})"
    then have "traced (evolves (os_disk s) ?F) s' s''"
      using s'(1) e by (auto intro: traced_mono commit_evolves)
    then have "traced (evolves (os_disk s) ?F) s s''"
      using same [OF s'(2)] by (rule traced_trans [rotated])
    then show "on_result (\<lambda>e. ?Q (Inl e) s'') (\<lambda>_. st_post (st_return (x e)) s'' ?Q) r"
      using a e by (cases r) (simp_all add: durable_def)
  qed
  show ?thesis
    unfolding p_post_bind p_post_lift
  proof (rule create_directories_post [OF ok])
    fix r :: "unit result" and s'
    assume s': "os_disk s' = os_disk s" "traced (\<lambda>d. d = os_disk s) s s'"
    show "on_result (\<lambda>e. ?Q (Inl e) s') (\<lambda>_. st_post (st_lift encoded) s' (\<lambda>r s'. on_result (\<lambda>e. ?Q (Inl e) s')
        (\<lambda>e. p_post (AtomicFileCommit_write env observer dest (bytes e)) s'
          (\<lambda>r s'. on_result (\<lambda>e. ?Q (Inl e) s') (\<lambda>_. st_post (st_return (x e)) s' ?Q) r)) r)) r"
      using same [OF s'(2)] commit [OF s'] by (cases r; cases encoded) simp_all
  qed
qed

lemma p_post_known: "p_post (p_bind (p_lift (st_lift (Inr x))) f) s Q = p_post (f x) s Q"
  by simp

lemma save_post:
  assumes "disk_ok (os_disk s)" and "interrupts_end env" and "blockPath store i l = Inr dest"
  shows "p_post (CheckpointStore_save env cpu g store i l p q t observer) s
    (\<lambda>r s'. traced (evolves (os_disk s) (\<lambda>pt. case CheckpointBlockCodec_encode_values cpu g i l p q t of
        Inl _ \<Rightarrow> {} | Inr e \<Rightarrow> writes dest (Some (enc_bytes e)) pt)) s s'
      \<and> (\<forall>y. r = Inr y \<longrightarrow> (\<exists>e. CheckpointBlockCodec_encode_values cpu g i l p q t = Inr e
        \<and> y = \<lparr>stored_path = dest, stored_fileSize = of_nat (length (enc_bytes e)),
             stored_payloadSize = enc_payloadSize e, stored_checksumAlgorithm = enc_checksumAlgorithm e,
             stored_checksum = enc_checksum e\<rparr>
        \<and> durable (os_disk s') dest (enc_bytes e))))"
proof -
  have "\<not> is_temp_name (path_filename dest)"
    using assms(3) store_names_not_temp by (simp add: blockPath_Inr)
  then show ?thesis
    unfolding CheckpointStore_save_def assms(3) p_post_known
    by (rule store_commit_post [OF assms(1,2)])
qed

lemma saveManifest_post:
  assumes "disk_ok (os_disk s)" and "interrupts_end env" and "manifestPath store (man_identity m) = Inr dest"
  shows "p_post (saveManifest env cpu store m observer) s
    (\<lambda>r s'. traced (evolves (os_disk s) (\<lambda>pt. case CheckpointManifestCodec_encode cpu m of
        Inl _ \<Rightarrow> {} | Inr bytes \<Rightarrow> writes dest (Some bytes) pt)) s s'
      \<and> (\<forall>y. r = Inr y \<longrightarrow> (\<exists>bytes. CheckpointManifestCodec_encode cpu m = Inr bytes \<and> y = dest
        \<and> durable (os_disk s') dest bytes)))"
proof -
  have "\<not> is_temp_name (path_filename dest)"
    using assms(3) store_names_not_temp by (simp add: manifestPath_Inr)
  then show ?thesis
    unfolding saveManifest_def assms(3) p_post_known
    by (rule store_commit_post [OF assms(1,2)])
qed

section \<open>Loading\<close>

text \<open>An environment in which the next two calls, the ones of a read, do not fail.\<close>

definition reads_succeed :: "os_env \<Rightarrow> os \<Rightarrow> bool" where
  "reads_succeed env s \<longleftrightarrow> env_errno env (os_calls s) = None \<and> env_errno env (Suc (os_calls s)) = None"

lemma readWhole_ok:
  assumes "reads_succeed env s" and "content (os_disk s) p = Some bytes" and "limits (length bytes) = Inr ()"
  shows "\<exists>s'. readWhole env limits unreadable p s = (Inr bytes, s') \<and> os_disk s' = os_disk s"
  using assms
  by (simp add: readWhole_def reads_succeed_def st_bind_def file_size_def stream_read_def sys_call_def tick_def)

lemma load_limits_Inr: "length bytes < 2 ^ 63 \<Longrightarrow> load_limits (length bytes) = Inr ()"
  by (simp add: load_limits_def unat_max_word)

lemma loadManifest_limits_Inr: "length bytes < 2 ^ 63 \<Longrightarrow> loadManifest_limits (length bytes) = Inr ()"
  by (simp add: loadManifest_limits_def unat_max_word)

lemma load_ok:
  assumes "blockPath store i l = Inr p" and "reads_succeed env s" and "content (os_disk s) p = Some bytes"
    and "length bytes < 2 ^ 63" and "CheckpointBlockCodec_decode cpu g bytes = Inr b"
    and "block_identity b = i" and "block_location b = l"
  shows "\<exists>s'. CheckpointStore_load env cpu g store i l s = (Inr b, s') \<and> os_disk s' = os_disk s"
  using readWhole_ok [where limits = load_limits and unreadable = "''Failed to read checkpoint file''", OF assms(2,3) load_limits_Inr [OF assms(4)]] assms(1,5-7)
  by (auto simp: CheckpointStore_load_def st_bind_def)

lemma loadManifest_ok:
  assumes "manifestPath store i = Inr p" and "reads_succeed env s" and "content (os_disk s) p = Some bytes"
    and "length bytes < 2 ^ 63" and "CheckpointManifestCodec_decode cpu bytes = Inr m" and "man_identity m = i"
  shows "\<exists>s'. loadManifest env cpu store i s = (Inr m, s') \<and> os_disk s' = os_disk s"
  using readWhole_ok [where limits = loadManifest_limits and unreadable = "''Failed to read checkpoint manifest''", OF assms(2,3) loadManifest_limits_Inr [OF assms(4)]] assms(1,5,6)
  by (auto simp: loadManifest_def st_bind_def)

text \<open>Saving succeeds when nothing fails.\<close>

lemma save_succeeds:
  assumes env: "no_failures env" and path: "blockPath store i l = Inr dest"
    and e: "CheckpointBlockCodec_encode_values cpu g i l p q t = Inr e"
    and fresh: "\<And>n. dk_names (os_disk s) (tempCandidate env dest n) = None"
  shows "\<exists>stored s'. CheckpointStore_save env cpu g store i l p q t None s = Some (Inr stored, s')"
proof -
  have dir: "create_directories env s = (Inr (), tick s (os_disk s))"
    using env by (simp add: create_directories_def sys_checked_def sys_call_def no_failures_def)
  have "path_filename dest \<noteq> []"
    using path store_names_nonempty by (simp add: blockPath_Inr)
  then obtain s' where "AtomicFileCommit_write env None dest (enc_bytes e) (tick s (os_disk s)) = Some (Inr (), s')"
    using commit_succeeds [OF env, of dest "tick s (os_disk s)"] fresh by auto
  then show ?thesis
    by (simp add: CheckpointStore_save_def p_bind_def path dir e)
qed

section \<open>Properties\<close>

text \<open>
  The names of the store are unique: two blocks of valid computations have the same path only if
  they are the same block of the same computation, a manifest shares its path with no block and no
  other manifest, and no name of the store is taken for a temp file of a commit.
\<close>

theorem checkpoint_paths_unique:
  assumes "blockPath store i l = Inr p" and "manifestPath store j = Inr m"
  shows "(blockPath store i' l' = Inr p \<longleftrightarrow> i' = i \<and> l' = l) \<and> (manifestPath store j' = Inr m \<longleftrightarrow> j' = j)
    \<and> p \<noteq> m \<and> \<not> is_temp_name (path_filename p) \<and> \<not> is_temp_name (path_filename m)"
  using assms store_names_not_temp
  by (auto simp: blockPath_Inr manifestPath_Inr blockName_inject manifestName_inject block_not_manifest)

theorem checkpoint_paths_unique_witness:
  "\<not> is_temp_name (path_filename (Path ''cp'' (blockName sample_identity \<lparr>loc_start = 1, loc_end = 3, loc_treeLevel = 1\<rparr>)))
   \<and> Path ''cp'' (blockName sample_identity \<lparr>loc_start = 1, loc_end = 3, loc_treeLevel = 1\<rparr>) \<noteq> Path ''cp'' (manifestName sample_identity)"
proof -
  let ?l = "\<lparr>loc_start = 1, loc_end = 3, loc_treeLevel = 1\<rparr>" and ?st = "\<lparr>store_directory = ''cp''\<rparr>"
  have "BlockLocation_validate ?l sample_identity = Inr ()"
    by code_simp
  then have "blockPath ?st sample_identity ?l = Inr (Path ''cp'' (blockName sample_identity ?l))"
    "manifestPath ?st sample_identity = Inr (Path ''cp'' (manifestName sample_identity))"
    using sample_identity_valid by (simp_all add: blockPath_Inr manifestPath_Inr)
  from checkpoint_paths_unique [OF this] show ?thesis by blast
qed

text \<open>
  C22: A block that was saved is there after every crash: when saving returns normally, loading it in
  any later run, from whatever a crash may leave under its path, gives back the same P, Q and T.
\<close>

theorem checkpoint_save_load:
  assumes g: "gmp_library g" and valid: "ComputationIdentity_validate i = Inr ()" "BlockLocation_validate l i = Inr ()"
    and fits: "block_fits g p q t" "112 + payload_length g p q t < 2 ^ 63"
    and os: "disk_ok (os_disk s)" "interrupts_end env"
    and saved: "CheckpointStore_save env cpu g store i l p q t observer s = Some (Inr stored, s')"
    and later: "content (os_disk s'') (stored_path stored) \<in> after_crash (os_disk s') (stored_path stored)"
      "reads_succeed env' s''"
  shows "\<exists>s3. CheckpointStore_load env' cpu g store i l s''
    = (Inr \<lparr>block_identity = i, block_location = l, block_p = p, block_q = q, block_t = t\<rparr>, s3)"
proof -
  have path: "blockPath store i l = Inr (Path (store_directory store) (blockName i l))"
    using valid by (simp add: blockPath_Inr)
  obtain e where e: "CheckpointBlockCodec_encode_values cpu g i l p q t = Inr e"
    "length (enc_bytes e) = 112 + payload_length g p q t"
    "CheckpointBlockCodec_decode cpu g (enc_bytes e)
      = Inr \<lparr>block_identity = i, block_location = l, block_p = p, block_q = q, block_t = t\<rparr>"
    using block_roundtrip [OF g valid fits(1)] by blast
  have "stored_path stored = Path (store_directory store) (blockName i l)
      \<and> after_crash (os_disk s') (Path (store_directory store) (blockName i l)) = {Some (enc_bytes e)}"
    using save_post [OF os path, of cpu g p q t observer] e(1) saved by (auto simp: p_post_def durable_def)
  then have "content (os_disk s'') (Path (store_directory store) (blockName i l)) = Some (enc_bytes e)"
    using later(1) by simp
  then show ?thesis
    using load_ok [OF path later(2) _ _ e(3)] e(2) fits(2) by fastforce
qed

theorem checkpoint_save_load_witness:
  "\<exists>stored s' s3. CheckpointStore_save calm_env None gmp_ref \<lparr>store_directory = ''cp''\<rparr> sample_identity
      \<lparr>loc_start = 1, loc_end = 3, loc_treeLevel = 1\<rparr> 5 24 (- 7) None fresh_os = Some (Inr stored, s')
    \<and> CheckpointStore_load calm_env None gmp_ref \<lparr>store_directory = ''cp''\<rparr> sample_identity
      \<lparr>loc_start = 1, loc_end = 3, loc_treeLevel = 1\<rparr> s'
      = (Inr \<lparr>block_identity = sample_identity, block_location = \<lparr>loc_start = 1, loc_end = 3, loc_treeLevel = 1\<rparr>,
            block_p = 5, block_q = 24, block_t = - 7\<rparr>, s3)"
proof -
  let ?l = "\<lparr>loc_start = 1, loc_end = 3, loc_treeLevel = 1\<rparr>" and ?st = "\<lparr>store_directory = ''cp''\<rparr>"
  have l: "BlockLocation_validate ?l sample_identity = Inr ()"
    by code_simp
  have path: "blockPath ?st sample_identity ?l = Inr (Path ''cp'' (blockName sample_identity ?l))"
    using sample_identity_valid l by (simp add: blockPath_Inr)
  obtain e where e: "CheckpointBlockCodec_encode_values None gmp_ref sample_identity ?l 5 24 (- 7) = Inr e"
    using block_roundtrip [OF gmp_ref.gmp_library_axioms sample_identity_valid l sample_fits] by blast
  have calm: "no_failures calm_env"
    by (simp add: no_failures_def calm_env_def)
  obtain stored s' where s': "CheckpointStore_save calm_env None gmp_ref ?st sample_identity ?l 5 24 (- 7) None fresh_os = Some (Inr stored, s')"
    using save_succeeds [OF calm path e, of fresh_os] by (auto simp: fresh_os_def empty_disk_def)
  have "disk_ok (os_disk s')"
    using save_post [OF disk_ok_empty interrupts_end_calm path, of None gmp_ref 5 24 "- 7" None] s' evolves_ok
    by (auto simp: p_post_def traced_def)
  moreover have "112 + payload_length gmp_ref 5 24 (- 7) < 2 ^ 63"
    by (simp add: payload_length_def gmp_ref_def be_bytes.simps)
  moreover have "reads_succeed calm_env s'"
    by (simp add: reads_succeed_def calm_env_def)
  ultimately show ?thesis
    using checkpoint_save_load [OF gmp_ref.gmp_library_axioms sample_identity_valid l sample_fits _ disk_ok_empty
        interrupts_end_calm s' content_after_crash] s' by blast
qed

end
