(* ===== verification/Manifest_Validator.thy ===== *)
theory Manifest_Validator
  imports Checkpoint_Validation
begin

text \<open>
  The validation of a manifest against the computation it should belong to
  (src/src/checkpoint/CheckpointManifestValidator.cpp): which entries may join the frontier, which
  terms they leave uncovered, and every reason for a rejection.
\<close>

section \<open>Operations\<close>

record MissingRange =
  missing_start :: u64
  missing_end :: u64

record CheckpointManifestValidation =
  mv_validation :: ValidationResult
  mv_acceptedEntries :: "ManifestEntry list"
  mv_missingRanges :: "MissingRange list"

definition manifest_diag :: "RejectionReason \<Rightarrow> string \<Rightarrow> ValidationDiagnostic" where
  "manifest_diag reason detail = \<lparr>diag_stage = Stage_manifest, diag_reason = reason, diag_detail = detail\<rparr>"

text \<open>\<open>identityValid\<close> and what the two identity checks report.\<close>

definition identityCheck ::
  "CheckpointManifest \<Rightarrow> ComputationIdentity \<Rightarrow> bool \<times> ValidationDiagnostic list" where
  "identityCheck manifest expected =
     (case res_bind (ComputationIdentity_validate expected)
            (\<lambda>_. ComputationIdentity_validate (man_identity manifest)) of
        Inl e \<Rightarrow> (False, [manifest_diag Reason_manifestIdentityMismatch (what e)])
      | Inr _ \<Rightarrow>
          if man_identity manifest \<noteq> expected
          then (False, [manifest_diag Reason_manifestIdentityMismatch
                 ''Manifest identity differs from the target computation''])
          else (True, []))"

fun orderCheck :: "ManifestEntry list \<Rightarrow> ValidationDiagnostic list" where
  "orderCheck (a # b # entries) =
     (if entryKey a \<ge> entryKey b
      then [manifest_diag Reason_nonCanonicalOrder ''Manifest entries are not in strict canonical order'']
      else orderCheck (b # entries))"
| "orderCheck entries = []"

text \<open>What the loop over single entries reports of one; any report rejects it.\<close>

definition entryCheck :: "ComputationIdentity \<Rightarrow> ManifestEntry \<Rightarrow> ValidationDiagnostic list" where
  "entryCheck expected entry =
     (case BlockLocation_validate (entry_location entry) expected of
        Inl e \<Rightarrow> [manifest_diag Reason_invalidRange (what e)] | Inr _ \<Rightarrow> [])
     @ (if loc_treeLevel (entry_location entry) > treeHeight (id_termCount expected)
        then [manifest_diag Reason_invalidTreeLevel ''Manifest entry tree level exceeds the computation tree'']
        else [])
     @ (if entry_completion entry \<noteq> CompletionState_complete
        then [manifest_diag Reason_incompleteEntry ''Incomplete manifest entry cannot join the accepted frontier'']
        else [])"

text \<open>The state of the overlap loop and one turn of it.\<close>

record overlap_state =
  ov_rejected :: "bool list"
  ov_furthestIndex :: "nat option"
  ov_furthestEnd :: u64
  ov_diagnostics :: "ValidationDiagnostic list"

definition rejectOverlap :: "ManifestEntry list \<Rightarrow> nat \<Rightarrow> overlap_state \<Rightarrow> overlap_state" where
  "rejectOverlap entries index s =
     (case ov_furthestIndex s of
        Some f \<Rightarrow>
          if loc_start (entry_location (entries ! index)) < ov_furthestEnd s
          then let sameRange =
                     loc_start (entry_location (entries ! index)) = loc_start (entry_location (entries ! f))
                     \<and> loc_end (entry_location (entries ! index)) = loc_end (entry_location (entries ! f))
               in s\<lparr>ov_rejected := (ov_rejected s)[index := True, f := True],
                    ov_diagnostics := ov_diagnostics s
                      @ [if sameRange
                         then manifest_diag Reason_duplicateRange ''Multiple entries represent the same range''
                         else manifest_diag Reason_overlappingRange ''Manifest entry ranges overlap'']\<rparr>
          else s
      | None \<Rightarrow> s)"

definition overlapStep :: "ManifestEntry list \<Rightarrow> nat \<Rightarrow> overlap_state \<Rightarrow> overlap_state" where
  "overlapStep entries index s =
     (if ov_rejected s ! index then s
      else let s = rejectOverlap entries index s in
           if ov_furthestIndex s = None \<or> loc_end (entry_location (entries ! index)) > ov_furthestEnd s
           then s\<lparr>ov_furthestEnd := loc_end (entry_location (entries ! index)),
                  ov_furthestIndex := Some index\<rparr>
           else s)"

definition overlapLoop :: "ManifestEntry list \<Rightarrow> bool list \<Rightarrow> overlap_state" where
  "overlapLoop entries rejected =
     fold (overlapStep entries) [0..<length entries]
       \<lparr>ov_rejected = rejected, ov_furthestIndex = None, ov_furthestEnd = 0, ov_diagnostics = []\<rparr>"

fun missingLoop :: "u64 \<Rightarrow> u64 \<Rightarrow> ManifestEntry list \<Rightarrow> MissingRange list" where
  "missingLoop terms cursor [] =
     (if cursor < terms then [\<lparr>missing_start = cursor, missing_end = terms\<rparr>] else [])"
| "missingLoop terms cursor (entry # entries) =
     (if cursor < loc_start (entry_location entry)
      then [\<lparr>missing_start = cursor, missing_end = loc_start (entry_location entry)\<rparr>] else [])
     @ missingLoop terms (loc_end (entry_location entry)) entries"

definition missingDiagnostic :: "MissingRange \<Rightarrow> ValidationDiagnostic" where
  "missingDiagnostic gap =
     manifest_diag Reason_missingRange
       (''Missing manifest range ['' @ dec_string (unat (missing_start gap)) @ '', ''
        @ dec_string (unat (missing_end gap)) @ '')'')"

definition CheckpointManifestValidator_validate ::
  "CheckpointManifest \<Rightarrow> ComputationIdentity \<Rightarrow> CheckpointManifestValidation result" where
  "CheckpointManifestValidator_validate manifest expectedIdentity =
     (let (identityValid, identityDiagnostics) = identityCheck manifest expectedIdentity;
          orderDiagnostics = orderCheck (man_entries manifest);
          entries = sort_key entryKey (man_entries manifest);
          checks = map (entryCheck expectedIdentity) entries;
          s = overlapLoop entries (map (\<lambda>ds. \<not> identityValid \<or> ds \<noteq> []) checks);
          acceptedEntries = map fst (filter (\<lambda>(entry, r). \<not> r) (zip entries (ov_rejected s)));
          missing = missingLoop (id_termCount expectedIdentity) 0 acceptedEntries
      in res_bind (verdict (identityDiagnostics @ orderDiagnostics @ concat checks @ ov_diagnostics s
             @ map missingDiagnostic missing)) (\<lambda>validation.
         Inr \<lparr>mv_validation = validation, mv_acceptedEntries = acceptedEntries,
              mv_missingRanges = missing\<rparr>))"

section \<open>Which entries survive\<close>

text \<open>An entry that passes the checks of its own, and two entries that share a term.\<close>

definition entry_usable :: "ComputationIdentity \<Rightarrow> ManifestEntry \<Rightarrow> bool" where
  "entry_usable i e \<longleftrightarrow> BlockLocation_validate (entry_location e) i = Inr ()
     \<and> loc_treeLevel (entry_location e) \<le> treeHeight (id_termCount i) \<and> entry_completion e = CompletionState_complete"

abbreviation e_start :: "ManifestEntry \<Rightarrow> u64" where
  "e_start e \<equiv> loc_start (entry_location e)"

abbreviation e_end :: "ManifestEntry \<Rightarrow> u64" where
  "e_end e \<equiv> loc_end (entry_location e)"

definition entries_overlap :: "ManifestEntry \<Rightarrow> ManifestEntry \<Rightarrow> bool" where
  "entries_overlap a b \<longleftrightarrow> e_start a < e_end b \<and> e_start b < e_end a"

definition conflict_free :: "ManifestEntry list \<Rightarrow> (nat \<Rightarrow> bool) \<Rightarrow> nat \<Rightarrow> bool" where
  "conflict_free es u k \<longleftrightarrow> u k \<and> (\<forall>j < length es. j \<noteq> k \<longrightarrow> u j \<longrightarrow> \<not> entries_overlap (es ! j) (es ! k))"

lemma entryCheck_Nil: "entryCheck i e = [] \<longleftrightarrow> entry_usable i e"
  by (auto simp: entryCheck_def entry_usable_def not_less split: sum.splits)

lemma usable_range: "entry_usable i e \<Longrightarrow> e_start e < e_end e \<and> e_end e \<le> id_termCount i"
  by (simp add: entry_usable_def res_elim)

text \<open>
  The invariant of the overlap loop: after \<open>n\<close> turns exactly the entries are rejected that were
  rejected before or overlap another one of the first \<open>n\<close>, and the furthest entry is the one with the
  greatest end.
\<close>

definition overlap_inv :: "ManifestEntry list \<Rightarrow> (nat \<Rightarrow> bool) \<Rightarrow> nat \<Rightarrow> overlap_state \<Rightarrow> bool" where
  "overlap_inv es u n s \<longleftrightarrow> length (ov_rejected s) = length es
     \<and> (\<forall>k < length es. ov_rejected s ! k \<longleftrightarrow>
          \<not> u k \<or> k < n \<and> (\<exists>j < n. j \<noteq> k \<and> u j \<and> entries_overlap (es ! j) (es ! k)))
     \<and> (case ov_furthestIndex s of None \<Rightarrow> \<forall>j < n. \<not> u j
        | Some f \<Rightarrow> f < n \<and> u f \<and> ov_furthestEnd s = e_end (es ! f) \<and> (\<forall>j < n. u j \<longrightarrow> e_end (es ! j) \<le> e_end (es ! f)))
     \<and> (ov_diagnostics s = [] \<longleftrightarrow> (\<forall>j < n. \<forall>k < n. j \<noteq> k \<longrightarrow> u j \<longrightarrow> u k \<longrightarrow> \<not> entries_overlap (es ! j) (es ! k)))"


lemma overlap_sym: "entries_overlap a b \<longleftrightarrow> entries_overlap b a"
  by (auto simp: entries_overlap_def)

text \<open>What holds at turn \<open>n\<close> of the loop over entries in canonical order.\<close>

definition overlap_turn :: "ManifestEntry list \<Rightarrow> (nat \<Rightarrow> bool) \<Rightarrow> nat \<Rightarrow> overlap_state \<Rightarrow> bool" where
  "overlap_turn es u n s \<longleftrightarrow> overlap_inv es u n s \<and> n < length es
     \<and> (\<forall>k < length es. \<forall>j \<le> k. e_start (es ! j) \<le> e_start (es ! k))
     \<and> (\<forall>k < length es. u k \<longrightarrow> e_start (es ! k) < e_end (es ! k))"

lemma turn_facts:
  assumes "overlap_turn es u n s"
  shows "n < length es" "length (ov_rejected s) = length es"
    "k < length es \<Longrightarrow>
      ov_rejected s ! k \<longleftrightarrow> \<not> u k \<or> k < n \<and> (\<exists>j < n. j \<noteq> k \<and> u j \<and> entries_overlap (es ! j) (es ! k))"
    "ov_diagnostics s = [] \<longleftrightarrow> (\<forall>j < n. \<forall>k < n. j \<noteq> k \<longrightarrow> u j \<longrightarrow> u k \<longrightarrow> \<not> entries_overlap (es ! j) (es ! k))"
    "ov_furthestIndex s = None \<Longrightarrow> j < n \<Longrightarrow> \<not> u j"
    "j \<le> k \<Longrightarrow> k < length es \<Longrightarrow> e_start (es ! j) \<le> e_start (es ! k)"
    "k < length es \<Longrightarrow> u k \<Longrightarrow> e_start (es ! k) < e_end (es ! k)"
  using assms by (simp_all add: overlap_turn_def overlap_inv_def)

lemma furthest:
  assumes "overlap_turn es u n s" and "ov_furthestIndex s = Some f"
  shows "f < n" "u f" "ov_furthestEnd s = e_end (es ! f)" "j < n \<Longrightarrow> u j \<Longrightarrow> e_end (es ! j) \<le> e_end (es ! f)"
  using assms by (simp_all add: overlap_turn_def overlap_inv_def)

text \<open>An earlier entry reaches into entry \<open>n\<close> exactly when the furthest one does, and then the furthest overlaps it.\<close>

lemma overlap_now:
  assumes "overlap_turn es u n s" and "j < n" and "u n"
  shows "entries_overlap (es ! j) (es ! n) \<longleftrightarrow> e_start (es ! n) < e_end (es ! j)"
  using turn_facts(6) [OF assms(1), of j n] turn_facts(7) [OF assms(1), of n] turn_facts(1) [OF assms(1)] assms(2,3)
  by (auto simp: entries_overlap_def)

lemma overlap_furthest:
  assumes T: "overlap_turn es u n s" and "ov_furthestIndex s = Some f" and "j < n" and "u j" and "u n"
    and "entries_overlap (es ! j) (es ! n)"
  shows "e_start (es ! n) < e_end (es ! f) \<and> (j = f \<or> entries_overlap (es ! f) (es ! j))"
proof -
  note f = furthest [OF assms(1,2)]
  have 1: "e_start (es ! n) < e_end (es ! j)"
    using assms overlap_now [OF T] by blast
  moreover have 2: "e_end (es ! j) \<le> e_end (es ! f)"
    using f assms by blast
  moreover have "e_start (es ! f) \<le> e_start (es ! n)" "e_start (es ! j) \<le> e_start (es ! n)"
    using turn_facts(6) [OF T] f(1) assms(3) turn_facts(1) [OF T] by simp_all
  ultimately show ?thesis
    by (auto simp: entries_overlap_def)
qed

lemma turn_unusable:
  assumes T: "overlap_turn es u n s" and "\<not> u n"
  shows "overlap_inv es u (Suc n) (overlapStep es n s)"
proof -
  have "overlapStep es n s = s"
    using turn_facts(3) [OF T turn_facts(1) [OF T]] assms by (simp add: overlapStep_def)
  moreover have "(\<exists>j < Suc n. P j \<and> u j \<and> Q j) \<longleftrightarrow> (\<exists>j < n. P j \<and> u j \<and> Q j)" for P Q
    using assms by (auto simp: less_Suc_eq)
  moreover have "(\<forall>j < Suc n. u j \<longrightarrow> P j) \<longleftrightarrow> (\<forall>j < n. u j \<longrightarrow> P j)" for P
    using assms by (auto simp: less_Suc_eq)
  moreover have "k < Suc n \<longleftrightarrow> k < n" if "u k" for k
    using assms that by (auto simp: less_Suc_eq)
  ultimately show ?thesis
    using assms unfolding overlap_turn_def overlap_inv_def
    by (auto simp: less_Suc_eq split: option.splits)
qed

lemma turn_first:
  assumes T: "overlap_turn es u n s" and "u n" and "ov_furthestIndex s = None"
  shows "overlap_inv es u (Suc n) (overlapStep es n s)"
proof -
  have none: "\<not> u j" if "j < n" for j
    using turn_facts(5) [OF T] assms(3) that by blast
  then have "overlapStep es n s = s\<lparr>ov_furthestEnd := e_end (es ! n), ov_furthestIndex := Some n\<rparr>"
    using turn_facts(3) [OF T turn_facts(1) [OF T]] assms by (simp add: overlapStep_def rejectOverlap_def)
  then show ?thesis
    using none assms(2) turn_facts(2,3,4) [OF T]
    by (auto simp: overlap_inv_def less_Suc_eq)
qed

lemma turn_disjoint:
  assumes T: "overlap_turn es u n s" and un: "u n" and f: "ov_furthestIndex s = Some f" and "\<not> e_start (es ! n) < e_end (es ! f)"
  shows "overlap_inv es u (Suc n) (overlapStep es n s)"
proof -
  have apart: "\<not> entries_overlap (es ! j) (es ! n)" "\<not> entries_overlap (es ! n) (es ! j)" if "j < n" "u j" for j
    using overlap_furthest [OF T f] that assms overlap_sym by blast+
  have "e_end (es ! n) > e_end (es ! f)"
    using assms turn_facts(7) [OF T turn_facts(1) [OF T]] by simp
  then have step: "overlapStep es n s = s\<lparr>ov_furthestEnd := e_end (es ! n), ov_furthestIndex := Some n\<rparr>"
    using turn_facts(3) [OF T turn_facts(1) [OF T]] assms furthest(3) [OF T f] by (simp add: overlapStep_def rejectOverlap_def)
  have "e_end (es ! j) \<le> e_end (es ! n)" if "j < Suc n" "u j" for j
    using that furthest(4) [OF T f, of j] \<open>e_end (es ! n) > e_end (es ! f)\<close> by (cases "j = n") (auto simp: less_Suc_eq)
  moreover have "ov_rejected s ! k \<longleftrightarrow>
      \<not> u k \<or> k < Suc n \<and> (\<exists>j < Suc n. j \<noteq> k \<and> u j \<and> entries_overlap (es ! j) (es ! k))" if "k < length es" for k
    using turn_facts(3) [OF T that] apart un by (auto simp: less_Suc_eq)
  moreover have "ov_diagnostics s = [] \<longleftrightarrow>
      (\<forall>j < Suc n. \<forall>k < Suc n. j \<noteq> k \<longrightarrow> u j \<longrightarrow> u k \<longrightarrow> \<not> entries_overlap (es ! j) (es ! k))"
    using turn_facts(4) [OF T] apart by (auto simp: less_Suc_eq)
  ultimately show ?thesis
    using un turn_facts(2) [OF T] by (simp add: overlap_inv_def step)
qed

lemma turn_overlap:
  assumes T: "overlap_turn es u n s" and un: "u n" and f: "ov_furthestIndex s = Some f" and "e_start (es ! n) < e_end (es ! f)"
  shows "overlap_inv es u (Suc n) (overlapStep es n s)"
proof -
  note ff = furthest [OF T f]
  have fn: "entries_overlap (es ! f) (es ! n)"
    using overlap_now [OF T] ff assms by blast
  let ?t = "rejectOverlap es n s"
  have t: "ov_rejected ?t = (ov_rejected s)[n := True, f := True]" "ov_furthestIndex ?t = Some f"
    "ov_furthestEnd ?t = e_end (es ! f)" "ov_diagnostics ?t \<noteq> []"
    using assms ff(3) by (simp_all add: rejectOverlap_def Let_def)
  have rej: "(ov_rejected s)[n := True, f := True] ! k \<longleftrightarrow>
      \<not> u k \<or> k < Suc n \<and> (\<exists>j < Suc n. j \<noteq> k \<and> u j \<and> entries_overlap (es ! j) (es ! k))" if k: "k < length es" for k
  proof (cases "k = n \<or> k = f")
    case True
    then have "\<exists>j < Suc n. j \<noteq> k \<and> u j \<and> entries_overlap (es ! j) (es ! k)"
      using fn ff(1,2) un overlap_sym [of "es ! f"] by (auto intro: exI [of _ f] exI [of _ n])
    then show ?thesis
      using True k turn_facts(1,2) [OF T] ff(1) by (auto simp: nth_list_update)
  next
    case False
    then have "(ov_rejected s)[n := True, f := True] ! k = ov_rejected s ! k"
      by auto
    moreover have "\<exists>j < n. j \<noteq> k \<and> u j \<and> entries_overlap (es ! j) (es ! k)"
      if "k < n" "u k" "entries_overlap (es ! n) (es ! k)"
      using overlap_furthest [OF T f that(1,2) un] that(3) False ff overlap_sym by blast
    ultimately show ?thesis
      using turn_facts(3) [OF T k] False by (auto simp: less_Suc_eq)
  qed
  define t' where "t' = overlapStep es n s"
  define h where "h = (if e_end (es ! n) > e_end (es ! f) then n else f)"
  have t': "ov_rejected t' = (ov_rejected s)[n := True, f := True]" "ov_diagnostics t' \<noteq> []"
    "ov_furthestIndex t' = Some h" "ov_furthestEnd t' = e_end (es ! h)"
    using turn_facts(3) [OF T turn_facts(1) [OF T]] un t by (auto simp: t'_def h_def overlapStep_def Let_def)
  have "e_end (es ! j) \<le> e_end (es ! h)" if "j < Suc n" "u j" for j
    using that ff(4) [of j] by (cases "j = n") (auto simp: less_Suc_eq h_def)
  moreover have "h < Suc n" "u h"
    using ff(1,2) un by (simp_all add: h_def)
  moreover have "\<exists>j < Suc n. \<exists>k < Suc n. j \<noteq> k \<and> u j \<and> u k \<and> entries_overlap (es ! j) (es ! k)"
    using ff(1,2) un fn by (intro exI [of _ f] exI [of _ n] conjI) simp_all
  ultimately have "overlap_inv es u (Suc n) t'"
    unfolding overlap_inv_def t' using rej turn_facts(2) [OF T] t'(2) by auto
  then show ?thesis by (simp add: t'_def)
qed

lemma turn: "overlap_turn es u n s \<Longrightarrow> overlap_inv es u (Suc n) (overlapStep es n s)"
  using turn_unusable turn_first turn_disjoint turn_overlap by (cases "ov_furthestIndex s") blast+

lemma overlapLoop_inv:
  assumes "\<And>j k. j \<le> k \<Longrightarrow> k < length es \<Longrightarrow> e_start (es ! j) \<le> e_start (es ! k)"
    and "\<And>k. k < length es \<Longrightarrow> u k \<Longrightarrow> e_start (es ! k) < e_end (es ! k)"
    and "rej = map (\<lambda>k. \<not> u k) [0..<length es]"
  shows "overlap_inv es u (length es) (overlapLoop es rej)"
proof -
  let ?s = "\<lparr>ov_rejected = rej, ov_furthestIndex = None, ov_furthestEnd = 0, ov_diagnostics = []\<rparr>"
  have "overlap_inv es u n (fold (overlapStep es) [0..<n] ?s)" if "n \<le> length es" for n
    using that
  proof (induction n)
    case 0
    show ?case by (simp add: overlap_inv_def assms(3))
  next
    case (Suc n)
    then have "overlap_turn es u n (fold (overlapStep es) [0..<n] ?s)"
      using assms(1,2) by (simp add: overlap_turn_def)
    from turn [OF this] show ?case by simp
  qed
  then show ?thesis by (simp add: overlapLoop_def)
qed

lemma sorted_starts:
  assumes "j \<le> k" and "k < length es"
  shows "e_start (sort_key entryKey es ! j) \<le> e_start (sort_key entryKey es ! k)"
proof -
  have "sorted (map entryKey (sort_key entryKey es))" by simp
  then have "entryKey (sort_key entryKey es ! j) \<le> entryKey (sort_key entryKey es ! k)"
    using assms by (auto simp: sorted_iff_nth_mono)
  then show ?thesis
    by (auto simp: entryKey_def less_eq_prod_def)
qed

lemma rejected_all:
  "filter (\<lambda>(e, r). \<not> r) (zip es (ov_rejected (overlapLoop es (replicate (length es) True)))) = []"
proof -
  let ?s = "\<lparr>ov_rejected = replicate (length es) True, ov_furthestIndex = None, ov_furthestEnd = 0, ov_diagnostics = []\<rparr>"
  have "fold (overlapStep es) ks ?s = ?s" if "set ks \<subseteq> {0..<length es}" for ks
    using that by (induction ks) (auto simp: overlapStep_def)
  then show ?thesis
    by (auto simp: overlapLoop_def filter_empty_conv set_zip)
qed

section \<open>The outcome\<close>

text \<open>The entries the validator keeps, written with indices of the sorted list.\<close>

definition kept_indices :: "CheckpointManifest \<Rightarrow> ComputationIdentity \<Rightarrow> nat list" where
  "kept_indices m i =
     (let es = sort_key entryKey (man_entries m) in
      filter (conflict_free es (\<lambda>k. entry_usable i (es ! k))) [0..<length es])"

lemma filter_zip_nth:
  "length rs = length es \<Longrightarrow>
   map fst (filter (\<lambda>(x, r). \<not> r) (zip es rs)) = map ((!) es) (filter (\<lambda>k. \<not> rs ! k) [0..<length es])"
proof -
  assume len: "length rs = length es"
  have "zip es rs = map (\<lambda>k. (es ! k, rs ! k)) [0..<length es]"
    using len by (intro nth_equalityI) simp_all
  then show ?thesis
    by (simp add: filter_map o_def)
qed

lemma orderCheck_Nil: "orderCheck es = [] \<longleftrightarrow> sorted_wrt (<) (map entryKey es)"
  by (induction es rule: orderCheck.induct) (auto simp: not_le dest: less_trans)

lemma identityCheck_True:
  "identityCheck m i = (True, ds) \<longleftrightarrow> ds = [] \<and> man_identity m = i \<and> ComputationIdentity_validate i = Inr ()"
  by (auto simp: identityCheck_def res_elim split: sum.splits if_splits)

lemma identityCheck_False: "identityCheck m i = (False, ds) \<Longrightarrow> ds \<noteq> []"
  by (auto simp: identityCheck_def split: sum.splits if_splits)

lemma validate_valid:
  assumes "man_identity m = i" and "ComputationIdentity_validate i = Inr ()"
  obtains v where "CheckpointManifestValidator_validate m i = Inr v"
    "mv_acceptedEntries v = map ((!) (sort_key entryKey (man_entries m))) (kept_indices m i)"
    "mv_missingRanges v = missingLoop (id_termCount i) 0 (mv_acceptedEntries v)"
    "isAccepted (mv_validation v) \<longleftrightarrow> sorted_wrt (<) (map entryKey (man_entries m))
       \<and> (\<forall>e \<in> set (man_entries m). entry_usable i e)
       \<and> kept_indices m i = [0..<length (man_entries m)] \<and> mv_missingRanges v = []"
proof -
  let ?es = "sort_key entryKey (man_entries m)"
  let ?u = "\<lambda>k. entry_usable i (?es ! k)"
  let ?rej = "map (\<lambda>ds. \<not> True \<or> ds \<noteq> []) (map (entryCheck i) ?es)"
  define s where "s = overlapLoop ?es ?rej"
  define acc where "acc = map fst (filter (\<lambda>(e, r). \<not> r) (zip ?es (ov_rejected s)))"
  define missing where "missing = missingLoop (id_termCount i) 0 acc"
  define ds where "ds = orderCheck (man_entries m) @ concat (map (entryCheck i) ?es) @ ov_diagnostics s
    @ map missingDiagnostic missing"
  have "?rej = map (\<lambda>k. \<not> ?u k) [0..<length ?es]"
    by (intro nth_equalityI) (simp_all add: entryCheck_Nil)
  then have inv: "overlap_inv ?es ?u (length ?es) s"
    unfolding s_def using sorted_starts usable_range by (intro overlapLoop_inv) auto
  have len: "length (ov_rejected s) = length ?es"
    and rej: "\<And>k. k < length ?es \<Longrightarrow> ov_rejected s ! k \<longleftrightarrow> \<not> conflict_free ?es ?u k"
    and diag: "ov_diagnostics s = [] \<longleftrightarrow> (\<forall>k < length ?es. ?u k \<longrightarrow> conflict_free ?es ?u k)"
    using inv unfolding overlap_inv_def conflict_free_def by (simp_all, blast+)
  have acc: "acc = map ((!) ?es) (kept_indices m i)"
    unfolding acc_def filter_zip_nth [OF len] kept_indices_def Let_def
    using rej by (intro arg_cong [where f = "map ((!) ?es)"] filter_cong) simp_all
  have v: "CheckpointManifestValidator_validate m i = Inr \<lparr>mv_validation =
      \<lparr>vr_status = (if ds = [] then Status_accepted else Status_rejected), vr_diagnostics = ds\<rparr>,
      mv_acceptedEntries = acc, mv_missingRanges = missing\<rparr>"
    using identityCheck_True [of m i "[]"] assms
    by (simp add: CheckpointManifestValidator_validate_def Let_def s_def acc_def missing_def ds_def)
  have "concat (map (entryCheck i) ?es) = [] \<longleftrightarrow> (\<forall>e \<in> set (man_entries m). entry_usable i e)"
    by (simp add: entryCheck_Nil)
  moreover have "kept_indices m i = [0..<length (man_entries m)] \<longleftrightarrow> (\<forall>k < length ?es. conflict_free ?es ?u k)"
    by (auto simp: kept_indices_def Let_def filter_id_conv)
  moreover have "(\<forall>e \<in> set (man_entries m). entry_usable i e) \<longleftrightarrow> (\<forall>k < length ?es. ?u k)"
    by (subst set_sort [of entryKey, symmetric]) (simp only: all_set_conv_all_nth)
  ultimately have "ds = [] \<longleftrightarrow> sorted_wrt (<) (map entryKey (man_entries m))
      \<and> (\<forall>e \<in> set (man_entries m). entry_usable i e)
      \<and> kept_indices m i = [0..<length (man_entries m)] \<and> missing = []"
    unfolding ds_def using diag by (auto simp: orderCheck_Nil)
  then have "isAccepted \<lparr>vr_status = (if ds = [] then Status_accepted else Status_rejected), vr_diagnostics = ds\<rparr>
      \<longleftrightarrow> sorted_wrt (<) (map entryKey (man_entries m)) \<and> (\<forall>e \<in> set (man_entries m). entry_usable i e)
      \<and> kept_indices m i = [0..<length (man_entries m)] \<and> missing = []"
    by simp
  with acc missing_def show thesis
    by (intro that [OF v]) (simp_all only: CheckpointManifestValidation.simps)
qed

text \<open>Entries in ascending order that share no term.\<close>

abbreviation entries_apart :: "ManifestEntry list \<Rightarrow> bool" where
  "entries_apart es \<equiv> sorted_wrt (\<lambda>a b. e_end a \<le> e_start b) es"

lemma kept_apart: "entries_apart (map ((!) (sort_key entryKey (man_entries m))) (kept_indices m i))"
proof -
  let ?es = "sort_key entryKey (man_entries m)"
  let ?u = "\<lambda>k. entry_usable i (?es ! k)"
  have "e_end (?es ! j) \<le> e_start (?es ! k)"
    if "j < k" "k < length ?es" "conflict_free ?es ?u j" "conflict_free ?es ?u k" for j k
  proof -
    have "\<not> entries_overlap (?es ! j) (?es ! k)" "?u j" "?u k"
      using that by (auto simp: conflict_free_def)
    moreover have "e_start (?es ! j) \<le> e_start (?es ! k)"
      using sorted_starts [of j k "man_entries m"] that by simp
    ultimately show ?thesis
      using usable_range [of i "?es ! k"] by (auto simp: entries_overlap_def)
  qed
  moreover have "sorted_wrt (<) (kept_indices m i)"
    unfolding kept_indices_def Let_def by (rule sorted_wrt_filter) simp
  ultimately have "sorted_wrt (\<lambda>j k. e_end (?es ! j) \<le> e_start (?es ! k)) (kept_indices m i)"
    by (elim sorted_wrt_mono_rel [rotated]) (auto simp: kept_indices_def Let_def)
  then show ?thesis
    by (simp add: sorted_wrt_map)
qed

lemma kept_usable: "e \<in> set (map ((!) (sort_key entryKey (man_entries m))) (kept_indices m i)) \<Longrightarrow> entry_usable i e"
  by (auto simp: kept_indices_def Let_def conflict_free_def)

text \<open>The terms an entry covers, and the terms of a gap.\<close>

abbreviation e_covers :: "ManifestEntry \<Rightarrow> u64 \<Rightarrow> bool" where
  "e_covers e t \<equiv> e_start e \<le> t \<and> t < e_end e"

abbreviation gap_covers :: "MissingRange \<Rightarrow> u64 \<Rightarrow> bool" where
  "gap_covers g t \<equiv> missing_start g \<le> t \<and> t < missing_end g"

lemma missingLoop_covers:
  assumes "entries_apart es" and "\<forall>e \<in> set es. cursor \<le> e_start e \<and> e_start e < e_end e \<and> e_end e \<le> terms"
  shows "(\<exists>g \<in> set (missingLoop terms cursor es). gap_covers g t) \<longleftrightarrow>
    cursor \<le> t \<and> t < terms \<and> \<not> (\<exists>e \<in> set es. e_covers e t)"
  using assms
proof (induction es arbitrary: cursor)
  case (Cons e es)
  have IH: "(\<exists>g \<in> set (missingLoop terms (e_end e) es). gap_covers g t) \<longleftrightarrow>
      e_end e \<le> t \<and> t < terms \<and> \<not> (\<exists>e \<in> set es. e_covers e t)"
    using Cons.prems by (intro Cons.IH) auto
  have later: "\<not> e_covers x t" if "x \<in> set es" "t < e_end e" for x
    using Cons.prems(1) that by (auto simp: not_le dest: order_less_le_trans)
  have bounds: "cursor \<le> e_start e" "e_start e < e_end e" "e_end e \<le> terms"
    using Cons.prems(2) by auto
  have "(\<exists>g \<in> set (missingLoop terms cursor (e # es)). gap_covers g t) \<longleftrightarrow>
      cursor \<le> t \<and> t < e_start e \<or> (\<exists>g \<in> set (missingLoop terms (e_end e) es). gap_covers g t)"
    by (cases "cursor < e_start e") auto
  also have "\<dots> \<longleftrightarrow> cursor \<le> t \<and> t < terms \<and> \<not> (\<exists>e \<in> set (e # es). e_covers e t)"
    unfolding IH using bounds later
    by (cases "t < e_start e"; cases "t < e_end e") auto
  finally show ?case .
qed auto

lemma missingLoop_bounds:
  "g \<in> set (missingLoop terms cursor es) \<Longrightarrow> missing_start g < missing_end g"
  by (induction es arbitrary: cursor) (auto split: if_splits)

text \<open>Entries that lie end to end from \<open>a\<close> to \<open>b\<close>.\<close>

fun tiles :: "u64 \<Rightarrow> u64 \<Rightarrow> ManifestEntry list \<Rightarrow> bool" where
  "tiles a b [] \<longleftrightarrow> a = b"
| "tiles a b (e # es) \<longleftrightarrow> e_start e = a \<and> a < e_end e \<and> tiles (e_end e) b es"

lemma missingLoop_Nil:
  assumes "entries_apart es" and "\<forall>e \<in> set es. cursor \<le> e_start e \<and> e_start e < e_end e \<and> e_end e \<le> terms" and "cursor \<le> terms"
  shows "missingLoop terms cursor es = [] \<longleftrightarrow> tiles cursor terms es"
  using assms
proof (induction es arbitrary: cursor)
  case (Cons e es)
  have "missingLoop terms (e_end e) es = [] \<longleftrightarrow> tiles (e_end e) terms es"
    using Cons.prems by (intro Cons.IH) auto
  then show ?case
    using Cons.prems(2) by auto
qed auto

lemma tiles_bounds: "tiles a b es \<Longrightarrow> a \<le> b \<and> (\<forall>e \<in> set es. a \<le> e_start e \<and> e_start e < e_end e \<and> e_end e \<le> b)"
  by (induction es arbitrary: a) force+

lemma tiles_apart: "tiles a b es \<Longrightarrow> entries_apart es"
proof (induction es arbitrary: a)
  case (Cons e es)
  then show ?case
    using tiles_bounds [of "e_end e" b es] by auto
qed simp

lemma apart_keys: "entries_apart es \<Longrightarrow> \<forall>e \<in> set es. e_start e < e_end e \<Longrightarrow> sorted_wrt (<) (map entryKey es)"
  by (induction es) (auto simp: entryKey_def less_prod_def dest: order_less_le_trans)

lemma apart_conflict_free:
  assumes "entries_apart es" and "k < length es" and "\<forall>e \<in> set es. entry_usable i e"
  shows "conflict_free es (\<lambda>k. entry_usable i (es ! k)) k"
proof -
  have "\<not> entries_overlap (es ! j) (es ! k)" if "j < length es" "j \<noteq> k" for j
    using assms(1,2) that sorted_wrt_nth_less [of _ es j k] sorted_wrt_nth_less [of _ es k j]
    by (auto simp: entries_overlap_def nat_neq_iff not_less)
  then show ?thesis
    using assms by (simp add: conflict_free_def)
qed

section \<open>Properties\<close>

text \<open>
  C16: The accepted frontier is exact: for a manifest of the expected computation the validator keeps,
  in ascending order, exactly the entries that are complete, in range and within the tree and share
  no term with another such entry.
\<close>

theorem manifest_frontier_exact:
  assumes "man_identity m = i" and "ComputationIdentity_validate i = Inr ()"
    and "es = sort_key entryKey (man_entries m)"
  shows "\<exists>v. CheckpointManifestValidator_validate m i = Inr v
    \<and> mv_acceptedEntries v = map ((!) es) (filter (conflict_free es (\<lambda>k. entry_usable i (es ! k))) [0..<length es])
    \<and> sorted_wrt (\<lambda>a b. e_end a \<le> e_start b) (mv_acceptedEntries v)"
proof -
  obtain v where v: "CheckpointManifestValidator_validate m i = Inr v"
    "mv_acceptedEntries v = map ((!) (sort_key entryKey (man_entries m))) (kept_indices m i)"
    by (rule validate_valid [OF assms(1,2)]) (rule that)
  have "entries_apart (mv_acceptedEntries v)"
    unfolding v(2) by (rule kept_apart)
  with v show ?thesis
    by (simp add: kept_indices_def assms(3) Let_def)
qed

theorem manifest_frontier_exact_witness:
  "\<exists>v. CheckpointManifestValidator_validate sample_manifest sample_identity = Inr v
    \<and> mv_acceptedEntries v = [man_entries sample_manifest ! 0]"
proof -
  let ?es = "man_entries sample_manifest"
  obtain v where v: "CheckpointManifestValidator_validate sample_manifest sample_identity = Inr v"
    "mv_acceptedEntries v = map ((!) ?es) (filter (conflict_free ?es (\<lambda>k. entry_usable sample_identity (?es ! k))) [0..<length ?es])"
    using manifest_frontier_exact [OF _ sample_identity_valid sample_manifest_ok(2) [symmetric]]
    by (auto simp: sample_manifest_def)
  have "unat (7 :: u64) \<le> 2 ^ unat (treeHeight 7)"
    by (rule treeHeight_level)
  then have "unat (treeHeight 7) \<noteq> 0"
    by (cases "unat (treeHeight 7)") auto
  then have "1 \<le> treeHeight 7"
    by (simp add: word_le_nat_alt)
  then have "entry_usable sample_identity (?es ! 0)" "\<not> entry_usable sample_identity (?es ! 1)" "length ?es = 2"
    by (simp_all add: sample_manifest_def sample_identity_def entry_usable_def CompletionState_complete_def
        BlockLocation_validate_def)
  then have "[0..<length ?es] = [0, 1]" "conflict_free ?es (\<lambda>k. entry_usable sample_identity (?es ! k)) 0"
    "\<not> conflict_free ?es (\<lambda>k. entry_usable sample_identity (?es ! k)) 1"
    by (auto simp: conflict_free_def less_2_cases_iff upt_rec)
  with v show ?thesis by simp
qed

text \<open>
  C17: The missing ranges are the exact complement: a term of the computation is in a missing range
  exactly when no accepted entry covers it, and every missing range is non-empty and within the
  computation.
\<close>

theorem manifest_missing_exact:
  assumes "man_identity m = i" and "ComputationIdentity_validate i = Inr ()"
  shows "\<exists>v. CheckpointManifestValidator_validate m i = Inr v
    \<and> (\<forall>t. (\<exists>g \<in> set (mv_missingRanges v). gap_covers g t)
          \<longleftrightarrow> t < id_termCount i \<and> \<not> (\<exists>e \<in> set (mv_acceptedEntries v). e_covers e t))
    \<and> (\<forall>g \<in> set (mv_missingRanges v). missing_start g < missing_end g)"
proof -
  obtain v where v: "CheckpointManifestValidator_validate m i = Inr v"
    "mv_acceptedEntries v = map ((!) (sort_key entryKey (man_entries m))) (kept_indices m i)"
    "mv_missingRanges v = missingLoop (id_termCount i) 0 (mv_acceptedEntries v)"
    by (rule validate_valid [OF assms]) (rule that)
  have "entries_apart (mv_acceptedEntries v)"
    unfolding v(2) by (rule kept_apart)
  moreover have "\<forall>e \<in> set (mv_acceptedEntries v). 0 \<le> e_start e \<and> e_start e < e_end e \<and> e_end e \<le> id_termCount i"
    using kept_usable [of _ m i] usable_range unfolding v(2) by auto
  ultimately have "(\<exists>g \<in> set (mv_missingRanges v). gap_covers g t)
      \<longleftrightarrow> t < id_termCount i \<and> \<not> (\<exists>e \<in> set (mv_acceptedEntries v). e_covers e t)" for t
    unfolding v(3) by (subst missingLoop_covers) auto
  moreover have "missing_start g < missing_end g" if "g \<in> set (mv_missingRanges v)" for g
    using that missingLoop_bounds unfolding v(3) by blast
  ultimately show ?thesis
    using v(1) by blast
qed

theorem manifest_missing_exact_witness:
  "\<exists>v. CheckpointManifestValidator_validate \<lparr>man_identity = sample_identity, man_entries = []\<rparr> sample_identity = Inr v
    \<and> (\<forall>t. (\<exists>g \<in> set (mv_missingRanges v). gap_covers g t) \<longleftrightarrow> t < 7)"
proof -
  have "CheckpointManifestValidator_validate \<lparr>man_identity = sample_identity, man_entries = []\<rparr> sample_identity = Inr v
      \<Longrightarrow> mv_acceptedEntries v = []" for v
    by (auto simp: CheckpointManifestValidator_validate_def Let_def overlapLoop_def split: prod.splits)
  then show ?thesis
    using manifest_missing_exact [of "\<lparr>man_identity = sample_identity, man_entries = []\<rparr>", OF _ sample_identity_valid]
    by (fastforce simp: sample_identity_def)
qed

lemma validate_accepted_iff:
  "\<exists>v. CheckpointManifestValidator_validate m i = Inr v
    \<and> (isAccepted (mv_validation v) \<longleftrightarrow> man_identity m = i \<and> ComputationIdentity_validate i = Inr ()
         \<and> tiles 0 (id_termCount i) (man_entries m)
         \<and> list_all (\<lambda>e. loc_treeLevel (entry_location e) \<le> treeHeight (id_termCount i)
              \<and> entry_completion e = CompletionState_complete) (man_entries m))
    \<and> (man_identity m = i \<and> ComputationIdentity_validate i = Inr () \<or> mv_acceptedEntries v = [])"
proof (cases "man_identity m = i \<and> ComputationIdentity_validate i = Inr ()")
  case True
  let ?es = "man_entries m"
  obtain v where v: "CheckpointManifestValidator_validate m i = Inr v"
    "mv_acceptedEntries v = map ((!) (sort_key entryKey ?es)) (kept_indices m i)"
    "mv_missingRanges v = missingLoop (id_termCount i) 0 (mv_acceptedEntries v)"
    "isAccepted (mv_validation v) \<longleftrightarrow> sorted_wrt (<) (map entryKey ?es) \<and> (\<forall>e \<in> set ?es. entry_usable i e)
       \<and> kept_indices m i = [0..<length ?es] \<and> mv_missingRanges v = []"
    using True by (elim conjE) (rule validate_valid, assumption, assumption, rule that)
  have nil: "mv_missingRanges v = [] \<longleftrightarrow> tiles 0 (id_termCount i) (mv_acceptedEntries v)"
    unfolding v(3) using kept_apart [of m i] kept_usable [of _ m i] usable_range
    by (intro missingLoop_Nil) (auto simp: v(2))
  have "isAccepted (mv_validation v) \<longleftrightarrow> (\<forall>e \<in> set ?es. entry_usable i e) \<and> tiles 0 (id_termCount i) ?es"
  proof
    assume "isAccepted (mv_validation v)"
    moreover from this have "mv_acceptedEntries v = ?es"
      using v(2,4) sorted_keys by (simp add: map_nth)
    ultimately show "(\<forall>e \<in> set ?es. entry_usable i e) \<and> tiles 0 (id_termCount i) ?es"
      using v(4) nil by simp
  next
    assume r: "(\<forall>e \<in> set ?es. entry_usable i e) \<and> tiles 0 (id_termCount i) ?es"
    then have keys: "sorted_wrt (<) (map entryKey ?es)" and apart: "entries_apart ?es"
      using tiles_apart tiles_bounds apart_keys by blast+
    then have "kept_indices m i = [0..<length ?es]"
      using r apart_conflict_free [OF apart]
      by (auto simp: kept_indices_def Let_def filter_id_conv sorted_keys)
    moreover from this have "mv_acceptedEntries v = ?es"
      using v(2) sorted_keys [OF keys] by (simp add: map_nth)
    ultimately show "isAccepted (mv_validation v)"
      using v(4) nil r keys by simp
  qed
  also have "\<dots> \<longleftrightarrow> tiles 0 (id_termCount i) ?es
      \<and> list_all (\<lambda>e. loc_treeLevel (entry_location e) \<le> treeHeight (id_termCount i)
              \<and> entry_completion e = CompletionState_complete) ?es"
    using tiles_bounds by (force simp: entry_usable_def list_all_iff res_elim)
  finally show ?thesis
    using v(1) True by blast
next
  case False
  then obtain ds where "identityCheck m i = (False, ds)" "ds \<noteq> []"
    using identityCheck_True [of m i] identityCheck_False [of m i] by (metis surj_pair)
  then show ?thesis
    using False rejected_all [of "sort_key entryKey (man_entries m)"]
    by (auto simp: CheckpointManifestValidator_validate_def Let_def o_def map_replicate_const)
qed

text \<open>
  A manifest is accepted without a diagnostic exactly when it belongs to the expected, valid
  computation and its entries are complete, within the tree, and lie end to end from the first term
  to the last.  The validator itself never throws, and of a foreign or invalid computation it
  accepts no entry.
\<close>

theorem manifest_accepted_iff:
  "\<exists>v. CheckpointManifestValidator_validate m i = Inr v
    \<and> (isAccepted (mv_validation v) \<longleftrightarrow> man_identity m = i \<and> ComputationIdentity_validate i = Inr ()
         \<and> tiles 0 (id_termCount i) (man_entries m)
         \<and> list_all (\<lambda>e. loc_treeLevel (entry_location e) \<le> treeHeight (id_termCount i)
              \<and> entry_completion e = CompletionState_complete) (man_entries m))
    \<and> (man_identity m = i \<and> ComputationIdentity_validate i = Inr () \<or> mv_acceptedEntries v = [])"
  by (rule validate_accepted_iff)

end
