(* ===== verification/Frontier_Writer.thy ===== *)
theory Frontier_Writer
  imports Checkpoint_Store Manifest_Validator Progress_Tracker
begin

text \<open>
  The publication of the merge frontier (src/src/checkpoint/CheckpointFrontierWriter.cpp): new blocks
  are saved, the manifest is replaced, then the superseded blocks are deleted.  The clock readings
  are arguments.  \<open>std::lower_bound\<close> runs on entries in canonical order, where it is the first
  entry that is not less.
\<close>

section \<open>Operations\<close>

record CheckpointFrontierWriter =
  fw_store :: CheckpointStore
  fw_identity :: ComputationIdentity
  fw_interval :: int
  fw_entries :: "ManifestEntry list"
  fw_lastCommit :: "int option"
  fw_commitCount :: u64
  fw_commitObserver :: AtomicCommitObserver
  fw_tracker :: "ProgressTracker option"
  fw_initialFrontierWork :: "u64 option"
  fw_initialFrontierWorkPublished :: bool

definition locationLess :: "ManifestEntry \<Rightarrow> BlockLocation \<Rightarrow> bool" where
  "locationLess entry location = BlockLocation_less (entry_location entry) location"

definition lower_bound :: "ManifestEntry list \<Rightarrow> BlockLocation \<Rightarrow> ManifestEntry list" where
  "lower_bound entries location = dropWhile (\<lambda>entry. locationLess entry location) entries"

fun checkAcceptedEntries ::
  "CheckpointStore \<Rightarrow> ComputationIdentity \<Rightarrow> u64 \<Rightarrow> ManifestEntry list \<Rightarrow> unit result" where
  "checkAcceptedEntries store identity cursor [] = Inr ()"
| "checkAcceptedEntries store identity cursor (entry # entries) =
     res_bind (BlockLocation_validate (entry_location entry) identity) (\<lambda>_.
     res_bind (throw_if (loc_start (entry_location entry) < cursor)
       (Invalid_argument ''Accepted checkpoint entries overlap'')) (\<lambda>_.
     res_bind (throw_if (entry_completion entry \<noteq> CompletionState_complete)
       (Invalid_argument ''Accepted checkpoint entry is incomplete'')) (\<lambda>_.
     res_bind (blockPath store identity (entry_location entry)) (\<lambda>path.
     res_bind (throw_if (entry_filename entry \<noteq> path_filename path)
       (Invalid_argument ''Accepted checkpoint entry filename is not deterministic'')) (\<lambda>_.
     checkAcceptedEntries store identity (loc_end (entry_location entry)) entries)))))"

definition CheckpointFrontierWriter_create ::
  "string \<Rightarrow> ComputationIdentity \<Rightarrow> int \<Rightarrow> ManifestEntry list \<Rightarrow> AtomicCommitObserver \<Rightarrow> ProgressTracker option
   \<Rightarrow> CheckpointFrontierWriter result" where
  "CheckpointFrontierWriter_create checkpointDirectory identity interval acceptedEntries commitObserver tracker =
     res_bind (CheckpointStore_create checkpointDirectory) (\<lambda>store.
     res_bind (ComputationIdentity_validate identity) (\<lambda>_.
     res_bind (throw_if (interval < 0) (Invalid_argument ''Checkpoint interval must not be negative'')) (\<lambda>_.
     let entries = sort_key entryKey acceptedEntries in
     res_bind (checkAcceptedEntries store identity 0 entries) (\<lambda>_.
     Inr \<lparr>fw_store = store, fw_identity = identity, fw_interval = interval, fw_entries = entries,
       fw_lastCommit = None, fw_commitCount = 0, fw_commitObserver = commitObserver, fw_tracker = tracker,
       fw_initialFrontierWork = None, fw_initialFrontierWorkPublished = False\<rparr>))))"

text \<open>The candidate manifest: its entries, and the indices of the nodes that are to be written.\<close>

definition blankEntry :: "BlockLocation \<Rightarrow> ManifestEntry" where
  "blankEntry location = \<lparr>entry_location = location, entry_filename = [], entry_payloadSize = 0,
     entry_checksumAlgorithm = ChecksumAlgorithm_crc32c, entry_checksum = 0,
     entry_completion = CompletionState_complete\<rparr>"

fun candidateLoop ::
  "gmp \<Rightarrow> ComputationIdentity \<Rightarrow> u64 \<Rightarrow> ManifestEntry list \<Rightarrow> (BinaryNode \<times> u32) list
   \<Rightarrow> ManifestEntry list \<Rightarrow> nat list \<Rightarrow> (u64 \<times> ManifestEntry list \<times> nat list) result" where
  "candidateLoop g identity cursor existing [] entries newNodes = Inr (cursor, entries, newNodes)"
| "candidateLoop g identity cursor existing ((node, level) # nodes) entries newNodes =
     res_bind (throw_if (node_start node \<noteq> cursor)
       (Invalid_argument ''Checkpoint frontier is not sorted and contiguous from zero'')) (\<lambda>_.
     res_bind (BlockLocation_create (node_start node) (node_end node) level identity) (\<lambda>location.
     let existing = lower_bound existing location in
     if existing \<noteq> [] \<and> entry_location (hd existing) = location
     then candidateLoop g identity (node_end node) existing nodes (entries @ [hd existing]) newNodes
     else res_bind (throw_if (\<not> hasValues g node)
       (Logic_error ''New checkpoint frontier node has no resident P/Q/T payload'')) (\<lambda>_.
       candidateLoop g identity (node_end node) existing nodes
         (entries @ [blankEntry location]) (newNodes @ [length entries]))))"

definition candidateManifest ::
  "gmp \<Rightarrow> CheckpointFrontierWriter \<Rightarrow> BinaryNode list \<Rightarrow> u32 list \<Rightarrow> (ManifestEntry list \<times> nat list) result" where
  "candidateManifest g w nodes treeLevels =
     res_bind (candidateLoop g (fw_identity w) 0 (fw_entries w) (zip nodes treeLevels) [] [])
       (\<lambda>(cursor, entries, newNodes).
     res_bind (throw_if (cursor \<noteq> id_termCount (fw_identity w))
       (Invalid_argument ''Checkpoint frontier does not cover every term'')) (\<lambda>_.
     Inr (entries, newNodes)))"

fun saveNewNodes ::
  "os_env \<Rightarrow> sse42 option \<Rightarrow> gmp \<Rightarrow> CheckpointFrontierWriter \<Rightarrow> BinaryNode list \<Rightarrow> nat list \<Rightarrow> ManifestEntry list
   \<Rightarrow> (os, ManifestEntry list) paction" where
  "saveNewNodes env cpu g w nodes [] entries = p_lift (st_return entries)"
| "saveNewNodes env cpu g w nodes (index # newNodes) entries =
     (let node = nodes ! index; entry = entries ! index in
      p_bind (CheckpointStore_save env cpu g (fw_store w) (fw_identity w) (entry_location entry)
        (node_P node) (node_Q node) (node_T node) (fw_commitObserver w)) (\<lambda>stored.
      saveNewNodes env cpu g w nodes newNodes (entries[index := entry\<lparr>
        entry_filename := path_filename (stored_path stored), entry_payloadSize := stored_payloadSize stored,
        entry_checksumAlgorithm := stored_checksumAlgorithm stored, entry_checksum := stored_checksum stored\<rparr>])))"

definition checkpointUpdate ::
  "CheckpointFrontierWriter \<Rightarrow> ManifestEntry list \<Rightarrow> nat list \<Rightarrow> CheckpointProgressUpdate" where
  "checkpointUpdate w entries newNodes =
     \<lparr>update_completedBlocks = (if fw_initialFrontierWorkPublished w then 0
        else case fw_initialFrontierWork w of Some n \<Rightarrow> n | None \<Rightarrow> 0),
      update_durableBlocks = of_nat (length entries),
      update_checkpointBytes = sum_list (map (\<lambda>e. ucast version1HeaderSize + entry_payloadSize e) entries),
      update_lastCommitted = (if newNodes = [] then None
        else let l = entry_location (entries ! last newNodes)
             in Some \<lparr>startTerm = loc_start l, endTerm = loc_end l, rangeTreeLevel = loc_treeLevel l\<rparr>)\<rparr>"

fun removeSuperseded ::
  "os_env \<Rightarrow> CheckpointFrontierWriter \<Rightarrow> ManifestEntry list \<Rightarrow> ManifestEntry list \<Rightarrow> (os, unit) action" where
  "removeSuperseded env w published [] = st_return ()"
| "removeSuperseded env w published (previous # entries) =
     (let published = lower_bound published (entry_location previous) in
      if published \<noteq> [] \<and> entry_location (hd published) = entry_location previous
      then removeSuperseded env w published entries
      else st_bind (st_lift (blockPath (fw_store w) (fw_identity w) (entry_location previous))) (\<lambda>path.
        st_bind (sys_ignored (sys_call env (disk_unlink path))) (\<lambda>_.
        removeSuperseded env w published entries)))"

text \<open>The writer and the operating system it runs on.\<close>

record frontier_run =
  run_writer :: CheckpointFrontierWriter
  run_os :: os

definition on_os :: "(os, 'a) paction \<Rightarrow> (frontier_run, 'a) paction" where
  "on_os m s = map_option (\<lambda>(r, x). (r, s\<lparr>run_os := x\<rparr>)) (m (run_os s))"

definition on_writer :: "(CheckpointFrontierWriter \<Rightarrow> CheckpointFrontierWriter) \<Rightarrow> (frontier_run, unit) paction" where
  "on_writer f s = Some (Inr (), s\<lparr>run_writer := f (run_writer s)\<rparr>)"

text \<open>From the replaced manifest on, and from the structural gate on.\<close>

definition finishFrontier ::
  "os_env \<Rightarrow> int \<Rightarrow> ManifestEntry list \<Rightarrow> nat list \<Rightarrow> CheckpointFrontierWriter \<Rightarrow> (frontier_run, unit) paction" where
  "finishFrontier env finish entries newNodes w =
     p_bind (on_writer (\<lambda>w. case fw_tracker w of None \<Rightarrow> w
       | Some tracker \<Rightarrow> w\<lparr>fw_tracker := Some (snd (publishCheckpointProgress (checkpointUpdate w entries newNodes) tracker))\<rparr>)) (\<lambda>_.
     p_bind (on_writer (\<lambda>w. w\<lparr>fw_initialFrontierWorkPublished := True\<rparr>)) (\<lambda>_.
     p_bind (on_os (p_lift (removeSuperseded env w entries (fw_entries w)))) (\<lambda>_.
     on_writer (\<lambda>w. w\<lparr>fw_entries := entries, fw_lastCommit := Some finish,
       fw_commitCount := fw_commitCount w + 1\<rparr>))))"

definition publishFrontier ::
  "os_env \<Rightarrow> sse42 option \<Rightarrow> gmp \<Rightarrow> int \<Rightarrow> BinaryNode list \<Rightarrow> ManifestEntry list \<Rightarrow> nat list
   \<Rightarrow> CheckpointFrontierWriter \<Rightarrow> (frontier_run, unit) paction" where
  "publishFrontier env cpu g finish nodes candidate newNodes w =
     p_bind (p_lift (st_lift (CheckpointManifestValidator_validate
       \<lparr>man_identity = fw_identity w, man_entries = candidate\<rparr> (fw_identity w)))) (\<lambda>validation.
     p_bind (p_lift (st_throw_if (\<not> isAccepted (mv_validation validation))
       (Invalid_argument ''Checkpoint frontier would not form a resumable manifest''))) (\<lambda>_.
     p_bind (on_writer (\<lambda>w. if fw_initialFrontierWork w = None
       then w\<lparr>fw_initialFrontierWork := Some (of_nat (length newNodes))\<rparr> else w)) (\<lambda>_.
     p_bind (on_os (saveNewNodes env cpu g w nodes newNodes candidate)) (\<lambda>entries.
     p_bind (on_os (saveManifest env cpu (fw_store w) \<lparr>man_identity = fw_identity w, man_entries = entries\<rparr>
       (fw_commitObserver w))) (\<lambda>_.
     finishFrontier env finish entries newNodes w)))))"

definition CheckpointFrontierWriter_commitFrontier ::
  "os_env \<Rightarrow> sse42 option \<Rightarrow> gmp \<Rightarrow> int \<Rightarrow> int \<Rightarrow> BinaryNode list \<Rightarrow> u32 list \<Rightarrow> (frontier_run, unit) paction" where
  "CheckpointFrontierWriter_commitFrontier env cpu g now finish nodes treeLevels s =
     (let w = run_writer s in
      if length nodes \<noteq> length treeLevels
      then Some (Inl (Invalid_argument ''Frontier node and tree-level counts differ''), s)
      else if nodes = [] then Some (Inl (Invalid_argument ''Checkpoint frontier must not be empty''), s)
      else if length nodes \<noteq> 1 \<and> (case fw_lastCommit w of None \<Rightarrow> False | Some t \<Rightarrow> now - t < fw_interval w)
      then Some (Inr (), s)
      else case candidateManifest g w nodes treeLevels of
             Inl e \<Rightarrow> Some (Inl e, s)
           | Inr (candidate, newNodes) \<Rightarrow>
               if fw_commitCount w \<noteq> 0 \<and> newNodes = [] \<and> length candidate = length (fw_entries w)
               then Some (Inr (), s)
               else publishFrontier env cpu g finish nodes candidate newNodes w s)"

definition frontier_entries :: "CheckpointFrontierWriter \<Rightarrow> ManifestEntry list" where
  "frontier_entries w = fw_entries w"

definition commitCount :: "CheckpointFrontierWriter \<Rightarrow> u64" where
  "commitCount w = fw_commitCount w"

section \<open>Blocks that survive\<close>

text \<open>
  The block file of a location is determined by the values of its range, which the frontier nodes
  carry: \<open>vals\<close> gives them, and \<open>block_image\<close> the encoding.
\<close>

type_synonym range_values = "u64 \<Rightarrow> u64 \<Rightarrow> int \<times> int \<times> int"

definition block_image ::
  "sse42 option \<Rightarrow> gmp \<Rightarrow> ComputationIdentity \<Rightarrow> range_values \<Rightarrow> BlockLocation \<Rightarrow> EncodedCheckpointBlock option" where
  "block_image cpu g i vals l = (case vals (loc_start l) (loc_end l) of (p, q, t) \<Rightarrow>
     (case CheckpointBlockCodec_encode_values cpu g i l p q t of Inl _ \<Rightarrow> None | Inr e \<Rightarrow> Some e))"

definition node_carries :: "range_values \<Rightarrow> BinaryNode \<Rightarrow> bool" where
  "node_carries vals n \<longleftrightarrow> vals (node_start n) (node_end n) = (node_P n, node_Q n, node_T n)"

definition block_file :: "CheckpointStore \<Rightarrow> ComputationIdentity \<Rightarrow> BlockLocation \<Rightarrow> path" where
  "block_file store i l = Path (store_directory store) (blockName i l)"

definition manifest_file :: "CheckpointStore \<Rightarrow> ComputationIdentity \<Rightarrow> path" where
  "manifest_file store i = Path (store_directory store) (manifestName i)"

definition block_writes ::
  "(BlockLocation \<Rightarrow> EncodedCheckpointBlock option) \<Rightarrow> CheckpointStore \<Rightarrow> ComputationIdentity \<Rightarrow> path \<Rightarrow> u8 list option set" where
  "block_writes img store i p = {Some (enc_bytes e) | l e. p = block_file store i l \<and> img l = Some e}"

definition block_durable ::
  "(BlockLocation \<Rightarrow> EncodedCheckpointBlock option) \<Rightarrow> CheckpointStore \<Rightarrow> ComputationIdentity \<Rightarrow> disk \<Rightarrow> BlockLocation \<Rightarrow> bool" where
  "block_durable img store i d l \<longleftrightarrow>
     (\<exists>e. img l = Some e \<and> after_crash d (block_file store i l) = {Some (enc_bytes e)})"

definition entry_describes ::
  "(BlockLocation \<Rightarrow> EncodedCheckpointBlock option) \<Rightarrow> ComputationIdentity \<Rightarrow> ManifestEntry \<Rightarrow> bool" where
  "entry_describes img i x \<longleftrightarrow> (\<exists>e. img (entry_location x) = Some e
     \<and> entry_filename x = blockName i (entry_location x) \<and> entry_payloadSize x = enc_payloadSize e
     \<and> entry_checksumAlgorithm x = enc_checksumAlgorithm e \<and> entry_checksum x = enc_checksum e
     \<and> entry_completion x = CompletionState_complete)"

definition entries_durable ::
  "(BlockLocation \<Rightarrow> EncodedCheckpointBlock option) \<Rightarrow> CheckpointStore \<Rightarrow> ComputationIdentity \<Rightarrow> disk \<Rightarrow> ManifestEntry list \<Rightarrow> bool" where
  "entries_durable img store i d es \<longleftrightarrow>
     (\<forall>x \<in> set es. entry_describes img i x \<and> block_durable img store i d (entry_location x))"

lemma block_file_inject [simp]: "block_file store i l = block_file store i l' \<longleftrightarrow> l = l'"
  by (simp add: block_file_def blockName_inject)

lemma block_file_manifest [simp]: "block_file store i l \<noteq> manifest_file store j" "manifest_file store j \<noteq> block_file store i l"
  by (simp_all add: block_file_def manifest_file_def block_not_manifest block_not_manifest [symmetric])

lemma store_files_not_temp [simp]:
  "\<not> is_temp_name (path_filename (block_file store i l))" "\<not> is_temp_name (path_filename (manifest_file store i))"
  by (simp_all add: block_file_def manifest_file_def store_names_not_temp)

lemma block_writes_block [simp]: "block_writes img store i (block_file store i l) = Some ` enc_bytes ` set_option (img l)"
  by (auto simp: block_writes_def)

lemma block_writes_manifest [simp]: "block_writes img store i (manifest_file store j) = {}"
  by (auto simp: block_writes_def)

lemma singleton_content: "disk_ok d \<Longrightarrow> after_crash d p \<subseteq> {c} \<Longrightarrow> after_crash d p = {c}"
  using content_after_crash [of d p] by blast

text \<open>A block stays durable as long as nothing but its own image is written to its file.\<close>

lemma evolves_block_durable:
  assumes "evolves d0 F d" and "F (block_file store i l) \<subseteq> block_writes img store i (block_file store i l)"
    and "block_durable img store i d0 l"
  shows "block_durable img store i d l"
proof -
  obtain e where e: "img l = Some e" "after_crash d0 (block_file store i l) = {Some (enc_bytes e)}"
    using assms(3) by (auto simp: block_durable_def)
  have "after_crash d (block_file store i l) \<subseteq> {Some (enc_bytes e)} \<union> F (block_file store i l)"
    using assms(1) unfolding evolves_def e(2) [symmetric] by simp
  then have "after_crash d (block_file store i l) \<subseteq> {Some (enc_bytes e)}"
    using assms(2) e(1) by auto
  then show ?thesis
    using singleton_content [OF evolves_ok [OF assms(1)]] e(1) by (auto simp: block_durable_def)
qed

lemma evolves_entries_durable:
  "evolves d0 F d \<Longrightarrow> (\<And>l. F (block_file store i l) \<subseteq> block_writes img store i (block_file store i l)) \<Longrightarrow>
   entries_durable img store i d0 es \<Longrightarrow> entries_durable img store i d es"
  unfolding entries_durable_def using evolves_block_durable by blast

section \<open>Saving the new blocks\<close>

lemma save_block_post:
  assumes ok: "disk_ok (os_disk s)" and ie: "interrupts_end env"
    and valid: "ComputationIdentity_validate i = Inr ()" "BlockLocation_validate l i = Inr ()"
    and n: "vals (loc_start l) (loc_end l) = (p, q, t)" and img: "img = block_image cpu g i vals"
  shows "p_post (CheckpointStore_save env cpu g store i l p q t observer) s
    (\<lambda>r s'. traced (evolves (os_disk s) (block_writes img store i)) s s'
      \<and> (\<forall>y. r = Inr y \<longrightarrow> block_durable img store i (os_disk s') l
           \<and> (\<forall>x. entry_location x = l \<and> entry_completion x = CompletionState_complete \<longrightarrow>
                entry_describes img i (x\<lparr>entry_filename := path_filename (stored_path y),
                  entry_payloadSize := stored_payloadSize y, entry_checksumAlgorithm := stored_checksumAlgorithm y,
                  entry_checksum := stored_checksum y\<rparr>))))"
proof (rule p_post_mono [OF save_post [OF ok ie]])
  show "blockPath store i l = Inr (block_file store i l)"
    using valid by (simp add: blockPath_Inr block_file_def)
  fix r :: "StoredCheckpointBlock result" and s'
  let ?F = "\<lambda>pt. case CheckpointBlockCodec_encode_values cpu g i l p q t of
      Inl _ \<Rightarrow> {} | Inr e \<Rightarrow> writes (block_file store i l) (Some (enc_bytes e)) pt"
  assume a: "traced (evolves (os_disk s) ?F) s s'
    \<and> (\<forall>y. r = Inr y \<longrightarrow> (\<exists>e. CheckpointBlockCodec_encode_values cpu g i l p q t = Inr e
        \<and> y = \<lparr>stored_path = block_file store i l, stored_fileSize = of_nat (length (enc_bytes e)),
             stored_payloadSize = enc_payloadSize e, stored_checksumAlgorithm = enc_checksumAlgorithm e,
             stored_checksum = enc_checksum e\<rparr>
        \<and> durable (os_disk s') (block_file store i l) (enc_bytes e)))"
  have "?F pt \<subseteq> block_writes img store i pt" for pt
    using n by (auto simp: block_writes_def writes_def img block_image_def split: sum.split)
  then have "traced (evolves (os_disk s) (block_writes img store i)) s s'"
    using a by (auto intro: traced_mono evolves_mono)
  then show "traced (evolves (os_disk s) (block_writes img store i)) s s'
      \<and> (\<forall>y. r = Inr y \<longrightarrow> block_durable img store i (os_disk s') l
           \<and> (\<forall>x. entry_location x = l \<and> entry_completion x = CompletionState_complete \<longrightarrow>
                entry_describes img i (x\<lparr>entry_filename := path_filename (stored_path y),
                  entry_payloadSize := stored_payloadSize y, entry_checksumAlgorithm := stored_checksumAlgorithm y,
                  entry_checksum := stored_checksum y\<rparr>)))"
    using a n by (auto simp: block_durable_def durable_def entry_describes_def img block_image_def block_file_def)
qed

text \<open>The entries whose blocks are already on the disk, and the nodes of those that are not.\<close>

definition saved_but ::
  "(BlockLocation \<Rightarrow> EncodedCheckpointBlock option) \<Rightarrow> CheckpointStore \<Rightarrow> ComputationIdentity \<Rightarrow> disk \<Rightarrow> nat set \<Rightarrow> ManifestEntry list \<Rightarrow> bool" where
  "saved_but img store i d K es \<longleftrightarrow> (\<forall>k < length es. k \<notin> K \<longrightarrow>
     entry_describes img i (es ! k) \<and> block_durable img store i d (entry_location (es ! k)))"

definition to_save :: "range_values \<Rightarrow> ComputationIdentity \<Rightarrow> BinaryNode list \<Rightarrow> ManifestEntry list \<Rightarrow> nat \<Rightarrow> bool" where
  "to_save vals i nodes es k \<longleftrightarrow> k < length es \<and> BlockLocation_validate (entry_location (es ! k)) i = Inr ()
     \<and> entry_completion (es ! k) = CompletionState_complete
     \<and> vals (loc_start (entry_location (es ! k))) (loc_end (entry_location (es ! k)))
         = (node_P (nodes ! k), node_Q (nodes ! k), node_T (nodes ! k))"

lemma saved_but_evolves:
  "evolves d0 (block_writes img store i) d \<Longrightarrow> saved_but img store i d0 K es \<Longrightarrow> saved_but img store i d K es"
  unfolding saved_but_def using evolves_block_durable by blast

lemma saved_but_Nil: "saved_but img store i d {} es \<longleftrightarrow> entries_durable img store i d es"
  by (auto simp: saved_but_def entries_durable_def all_set_conv_all_nth)

lemma saveNewNodes_post:
  assumes ie: "interrupts_end env" and valid: "ComputationIdentity_validate (fw_identity w) = Inr ()"
    and img: "img = block_image cpu g (fw_identity w) vals"
  shows "disk_ok (os_disk s) \<Longrightarrow> distinct new \<Longrightarrow> (\<And>k. k \<in> set new \<Longrightarrow> to_save vals (fw_identity w) nodes es k) \<Longrightarrow>
    saved_but img (fw_store w) (fw_identity w) (os_disk s) (set new) es \<Longrightarrow>
    p_post (saveNewNodes env cpu g w nodes new es) s
      (\<lambda>r s'. traced (evolves (os_disk s) (block_writes img (fw_store w) (fw_identity w))) s s'
        \<and> (\<forall>out. r = Inr out \<longrightarrow> map entry_location out = map entry_location es
             \<and> entries_durable img (fw_store w) (fw_identity w) (os_disk s') out))"
proof (induction new arbitrary: es s)
  case Nil
  then show ?case
    by (simp add: p_post_def traced_here evolves_refl saved_but_Nil)
next
  case (Cons k new)
  let ?i = "fw_identity w" and ?W = "block_writes img (fw_store w) (fw_identity w)" and ?l = "entry_location (es ! k)"
  have k: "to_save vals ?i nodes es k" and new: "k \<notin> set new" "distinct new"
    using Cons.prems(2,3) by simp_all
  let ?put = "\<lambda>y. es[k := (es ! k)\<lparr>entry_filename := path_filename (stored_path y), entry_payloadSize := stored_payloadSize y,
        entry_checksumAlgorithm := stored_checksumAlgorithm y, entry_checksum := stored_checksum y\<rparr>]"
  have rest: "p_post (saveNewNodes env cpu g w nodes new (?put y)) s' (\<lambda>r s''. traced (evolves (os_disk s) ?W) s s''
      \<and> (\<forall>out. r = Inr out \<longrightarrow> map entry_location out = map entry_location es \<and> entries_durable img (fw_store w) ?i (os_disk s'') out))"
    if tr: "traced (evolves (os_disk s) ?W) s s'" and d: "block_durable img (fw_store w) ?i (os_disk s') ?l"
      and y: "\<And>x. entry_location x = ?l \<and> entry_completion x = CompletionState_complete \<Longrightarrow>
        entry_describes img ?i (x\<lparr>entry_filename := path_filename (stored_path y), entry_payloadSize := stored_payloadSize y,
          entry_checksumAlgorithm := stored_checksumAlgorithm y, entry_checksum := stored_checksum y\<rparr>)" for y s'
  proof -
    have ev: "evolves (os_disk s) ?W (os_disk s')" using tr by (rule traced_disk)
    have "saved_but img (fw_store w) ?i (os_disk s') (set (k # new)) es"
      using ev Cons.prems(4) by (rule saved_but_evolves)
    then have "saved_but img (fw_store w) ?i (os_disk s') (set new) (?put y)"
      using d y [of "es ! k"] k unfolding saved_but_def to_save_def by (auto simp: nth_list_update)
    moreover have "to_save vals ?i nodes (?put y) j" if "j \<in> set new" for j
    proof -
      have "k \<noteq> j" using that new(1) by blast
      then show ?thesis
        using Cons.prems(3) [of j] that by (simp add: to_save_def)
    qed
    ultimately have "p_post (saveNewNodes env cpu g w nodes new (?put y)) s' (\<lambda>r s''. traced (evolves (os_disk s') ?W) s' s''
      \<and> (\<forall>out. r = Inr out \<longrightarrow> map entry_location out = map entry_location (?put y)
           \<and> entries_durable img (fw_store w) ?i (os_disk s'') out))"
      using evolves_ok [OF ev] new(2) by (intro Cons.IH)
    moreover have "map entry_location (?put y) = map entry_location es"
      using k by (auto simp: to_save_def map_update list_update_same_conv)
    ultimately show ?thesis
      using traced_evolves [OF tr] by (auto elim!: p_post_mono)
  qed
  have save: "p_post (CheckpointStore_save env cpu g (fw_store w) ?i ?l (node_P (nodes ! k)) (node_Q (nodes ! k))
      (node_T (nodes ! k)) (fw_commitObserver w)) s
    (\<lambda>r s'. traced (evolves (os_disk s) ?W) s s'
      \<and> (\<forall>y. r = Inr y \<longrightarrow> block_durable img (fw_store w) ?i (os_disk s') ?l
           \<and> (\<forall>x. entry_location x = ?l \<and> entry_completion x = CompletionState_complete \<longrightarrow>
                entry_describes img ?i (x\<lparr>entry_filename := path_filename (stored_path y),
                  entry_payloadSize := stored_payloadSize y, entry_checksumAlgorithm := stored_checksumAlgorithm y,
                  entry_checksum := stored_checksum y\<rparr>))))"
    using k by (intro save_block_post [where vals = vals] Cons.prems(1) ie valid img) (simp_all add: to_save_def)
  show ?case
    unfolding saveNewNodes.simps Let_def p_post_bind
    by (rule p_post_mono [OF save]) (auto split: sum.split intro!: rest)
qed

section \<open>The candidate manifest\<close>

definition candidate_ok ::
  "ComputationIdentity \<Rightarrow> ManifestEntry list \<Rightarrow> BinaryNode list \<Rightarrow> ManifestEntry list \<Rightarrow> nat list \<Rightarrow> bool" where
  "candidate_ok i published nodes es new \<longleftrightarrow> length es = length nodes \<and> distinct new \<and> set new \<subseteq> {..<length es}
     \<and> (\<forall>k < length es. BlockLocation_validate (entry_location (es ! k)) i = Inr ()
          \<and> loc_start (entry_location (es ! k)) = node_start (nodes ! k)
          \<and> loc_end (entry_location (es ! k)) = node_end (nodes ! k)
          \<and> (if k \<in> set new then es ! k = blankEntry (entry_location (es ! k)) else es ! k \<in> set published))"

lemma candidate_ok_step:
  assumes "candidate_ok i published nodes es new" and "BlockLocation_create (node_start n) (node_end n) level i = Inr l"
  shows "x \<in> set published \<Longrightarrow> entry_location x = l \<Longrightarrow> candidate_ok i published (nodes @ [n]) (es @ [x]) new"
    and "candidate_ok i published (nodes @ [n]) (es @ [blankEntry l]) (new @ [length es])"
proof -
  have l: "BlockLocation_validate l i = Inr ()" "loc_start l = node_start n" "loc_end l = node_end n"
    using assms(2) by (auto simp: BlockLocation_create_def Let_def res_bind_eq_Inr_iff)
  have new: "length es \<notin> set new" "length es = length nodes"
    using assms(1) by (auto simp: candidate_ok_def)
  show "candidate_ok i published (nodes @ [n]) (es @ [x]) new" if "x \<in> set published" "entry_location x = l"
    using assms(1) l that new unfolding candidate_ok_def
    by (auto simp: nth_append less_Suc_eq lessThan_Suc)
  show "candidate_ok i published (nodes @ [n]) (es @ [blankEntry l]) (new @ [length es])"
    using assms(1) l new unfolding candidate_ok_def
    by (auto simp: nth_append less_Suc_eq lessThan_Suc blankEntry_def)
qed

lemma candidateLoop_ok:
  "candidateLoop g i cursor existing (zip rest levels) es new = Inr (c, es', new') \<Longrightarrow> length rest = length levels \<Longrightarrow>
   set existing \<subseteq> set published \<Longrightarrow> candidate_ok i published nodes es new \<Longrightarrow> candidate_ok i published (nodes @ rest) es' new'"
proof (induction rest arbitrary: levels cursor existing es new nodes)
  case Nil
  then show ?case by simp
next
  case (Cons n rest)
  obtain level lvs where lv: "levels = level # lvs" "length rest = length lvs"
    using Cons.prems(2) by (cases levels) auto
  obtain l where l: "BlockLocation_create (node_start n) (node_end n) level i = Inr l"
    using Cons.prems(1) by (auto simp: lv(1) res_bind_eq_Inr_iff)
  let ?ex = "lower_bound existing l"
  have sub: "set ?ex \<subseteq> set published"
    using Cons.prems(3) set_dropWhileD unfolding lower_bound_def by fast
  show ?case
  proof (cases "?ex \<noteq> [] \<and> entry_location (hd ?ex) = l")
    case True
    then have "candidateLoop g i (node_end n) ?ex (zip rest lvs) (es @ [hd ?ex]) new = Inr (c, es', new')"
      using Cons.prems(1) l by (auto simp: lv(1) res_bind_eq_Inr_iff Let_def)
    moreover have "hd ?ex \<in> set published"
      using True sub by auto
    ultimately show ?thesis
      using Cons.IH [OF _ lv(2) sub] candidate_ok_step(1) [OF Cons.prems(4) l] True by fastforce
  next
    case False
    then have "candidateLoop g i (node_end n) ?ex (zip rest lvs) (es @ [blankEntry l]) (new @ [length es]) = Inr (c, es', new')"
      using Cons.prems(1) l by (auto simp: lv(1) res_bind_eq_Inr_iff Let_def split: if_splits)
    then show ?thesis
      using Cons.IH [OF _ lv(2) sub] candidate_ok_step(2) [OF Cons.prems(4) l] by fastforce
  qed
qed

lemma candidateManifest_ok:
  assumes "candidateManifest g w nodes levels = Inr (es, new)" and "length nodes = length levels"
  shows "candidate_ok (fw_identity w) (fw_entries w) nodes es new"
  using assms candidateLoop_ok [of g "fw_identity w" 0 "fw_entries w" nodes levels "[]" "[]" _ es new "fw_entries w" "[]"]
  by (auto simp: candidateManifest_def res_bind_eq_Inr_iff candidate_ok_def [of _ _ "[]"])

lemma blankEntry_completion: "entry_completion (blankEntry l) = CompletionState_complete"
  by (simp add: blankEntry_def)

lemma candidate_to_save:
  assumes "candidate_ok i published nodes es new" and "\<And>n. n \<in> set nodes \<Longrightarrow> node_carries vals n"
  shows "k \<in> set new \<Longrightarrow> to_save vals i nodes es k"
proof -
  assume k: "k \<in> set new"
  then have "k < length es" and n: "nodes ! k \<in> set nodes" and "es ! k = blankEntry (entry_location (es ! k))"
    using assms(1) unfolding candidate_ok_def by (auto intro: nth_mem)
  moreover from this(3) have "entry_completion (es ! k) = CompletionState_complete"
    by (metis blankEntry_completion)
  ultimately show ?thesis
    using assms(1) assms(2) [OF n] by (simp add: candidate_ok_def to_save_def node_carries_def)
qed

lemma candidate_saved_but:
  "candidate_ok i published nodes es new \<Longrightarrow> entries_durable img store i d published \<Longrightarrow> saved_but img store i d (set new) es"
  unfolding candidate_ok_def entries_durable_def saved_but_def by meson

section \<open>Removing superseded blocks\<close>

abbreviation canonical_order :: "ManifestEntry list \<Rightarrow> bool" where
  "canonical_order es \<equiv> sorted_wrt (<) (map entryKey es)"

lemma entryKey_location: "entryKey e = location_key (entry_location e)"
  by (simp add: entryKey_def location_key_def)

lemma locationLess_key: "locationLess e l \<longleftrightarrow> entryKey e < location_key l"
  by (simp add: locationLess_def BlockLocation_less_key entryKey_location)

lemma lower_bound_canonical: "canonical_order es \<Longrightarrow> canonical_order (lower_bound es l)"
  unfolding lower_bound_def by (metis dropWhile_eq_drop drop_map sorted_wrt_drop)

lemma lower_bound_finds:
  "canonical_order es \<Longrightarrow> (lower_bound es l \<noteq> [] \<and> entry_location (hd (lower_bound es l)) = l) \<longleftrightarrow> l \<in> entry_location ` set es"
proof (induction es)
  case (Cons e es)
  show ?case
  proof (cases "locationLess e l")
    case True
    then have "entry_location e \<noteq> l"
      by (auto simp: locationLess_key entryKey_location)
    then show ?thesis
      using Cons True by (auto simp: lower_bound_def)
  next
    case False
    have "location_key l \<le> entryKey e" "\<forall>x \<in> set es. entryKey e < entryKey x"
      using False Cons.prems by (simp_all add: locationLess_key)
    then have "l \<notin> entry_location ` set es"
      by (auto simp: entryKey_location)
    then show ?thesis
      using False by (auto simp: lower_bound_def)
  qed
qed (simp add: lower_bound_def)

lemma lower_bound_keeps:
  assumes "location_key l \<le> location_key l'"
  shows "l' \<in> entry_location ` set (lower_bound es l) \<longleftrightarrow> l' \<in> entry_location ` set es"
proof (induction es)
  case (Cons e es)
  have "entry_location e \<noteq> l'" if "locationLess e l"
    using that assms by (auto simp: locationLess_key entryKey_location)
  then show ?case
    using Cons by (auto simp: lower_bound_def)
qed (simp add: lower_bound_def)

definition removals ::
  "CheckpointStore \<Rightarrow> ComputationIdentity \<Rightarrow> ManifestEntry list \<Rightarrow> ManifestEntry list \<Rightarrow> path \<Rightarrow> u8 list option set" where
  "removals store i published previous p =
     (if \<exists>x \<in> set previous. entry_location x \<notin> entry_location ` set published \<and> p = block_file store i (entry_location x)
      then {None} else {})"

lemma removals_tail:
  assumes "canonical_order (x # previous)"
  shows "removals store i (lower_bound published (entry_location x)) previous p \<subseteq> removals store i published (x # previous) p"
proof -
  have "entry_location y \<in> entry_location ` set (lower_bound published (entry_location x)) \<longleftrightarrow> entry_location y \<in> entry_location ` set published"
    if "y \<in> set previous" for y
    using that assms by (intro lower_bound_keeps) (auto simp: entryKey_location less_imp_le)
  then show ?thesis
    by (auto simp: removals_def)
qed

lemma removeSuperseded_post:
  assumes valid: "ComputationIdentity_validate (fw_identity w) = Inr ()"
  shows "canonical_order pub \<Longrightarrow> canonical_order prev \<Longrightarrow>
    (\<And>x. x \<in> set prev \<Longrightarrow> BlockLocation_validate (entry_location x) (fw_identity w) = Inr ()) \<Longrightarrow> disk_ok (os_disk s) \<Longrightarrow>
    st_post (removeSuperseded env w pub prev) s
      (\<lambda>r s'. r = Inr () \<and> traced (evolves (os_disk s) (removals (fw_store w) (fw_identity w) pub prev)) s s')"
proof (induction prev arbitrary: pub s)
  case Nil
  then show ?case
    by (simp add: st_post_def traced_here evolves_refl)
next
  case (Cons x prev)
  let ?pub = "lower_bound pub (entry_location x)" and ?R = "removals (fw_store w) (fw_identity w) pub (x # prev)"
  let ?p = "block_file (fw_store w) (fw_identity w) (entry_location x)"
  have tail: "st_post (removeSuperseded env w ?pub prev) s' (\<lambda>r s'. r = Inr () \<and> traced (evolves (os_disk s) ?R) s s')"
    if tr: "traced (evolves (os_disk s) ?R) s s'" for s'
  proof (rule st_post_mono [OF Cons.IH])
    show "canonical_order ?pub" "canonical_order prev" "disk_ok (os_disk s')"
      using Cons.prems lower_bound_canonical evolves_ok [OF traced_disk [OF tr]] by simp_all
    show "BlockLocation_validate (entry_location y) (fw_identity w) = Inr ()" if "y \<in> set prev" for y
      using that Cons.prems(3) by simp
    fix r :: "unit result" and s''
    assume "r = Inr () \<and> traced (evolves (os_disk s') (removals (fw_store w) (fw_identity w) ?pub prev)) s' s''"
    then show "r = Inr () \<and> traced (evolves (os_disk s) ?R) s s''"
      using traced_evolves [OF tr] traced_mono evolves_mono removals_tail [OF Cons.prems(2)] by metis
  qed
  show ?case
  proof (cases "?pub \<noteq> [] \<and> entry_location (hd ?pub) = entry_location x")
    case True
    then show ?thesis
      using tail [of s] Cons.prems(4) by (simp add: traced_here evolves_refl)
  next
    case False
    then have gone: "entry_location x \<notin> entry_location ` set pub"
      using lower_bound_finds [OF Cons.prems(1)] by blast
    have path: "blockPath (fw_store w) (fw_identity w) (entry_location x) = Inr ?p"
      using valid Cons.prems(3) [of x] by (simp add: blockPath_Inr block_file_def)
    have unlinked: "evolves (os_disk s) ?R (disk_unlink ?p (os_disk s))"
      using gone by (intro evolves_mono [OF evolves_unlink [OF Cons.prems(4)]]) (auto simp: writes_def removals_def)
    have here: "traced (evolves (os_disk s) ?R) s s" "evolves (os_disk s) ?R (os_disk s)"
      using Cons.prems(4) by (simp_all add: traced_here evolves_refl)
    have "st_post (removeSuperseded env w ?pub prev) (snd (sys_call env (disk_unlink ?p) s))
        (\<lambda>r s'. r = Inr () \<and> traced (evolves (os_disk s) ?R) s s')"
      by (rule tail) (auto simp: sys_call_def intro!: traced_tick here unlinked split: option.split)
    then show ?thesis
      using False path by (simp add: Let_def) (auto simp: st_post_def sys_ignored_def)
  qed
qed

section \<open>A commit at every moment\<close>

text \<open>Entries end to end over all terms, at levels of the tree.\<close>

definition frontier_shape :: "ComputationIdentity \<Rightarrow> ManifestEntry list \<Rightarrow> bool" where
  "frontier_shape i es \<longleftrightarrow> tiles 0 (id_termCount i) es
     \<and> (\<forall>l \<in> entry_location ` set es. loc_treeLevel l \<le> treeHeight (id_termCount i))"

definition manifest_complete ::
  "sse42 option \<Rightarrow> (BlockLocation \<Rightarrow> EncodedCheckpointBlock option) \<Rightarrow> CheckpointStore \<Rightarrow> ComputationIdentity \<Rightarrow> disk
   \<Rightarrow> u8 list option \<Rightarrow> bool" where
  "manifest_complete cpu img store i d c \<longleftrightarrow> (\<exists>bytes es. c = Some bytes
     \<and> CheckpointManifestCodec_decode cpu bytes = Inr \<lparr>man_identity = i, man_entries = es\<rparr>
     \<and> frontier_shape i es \<and> entries_durable img store i d es)"

text \<open>
  What a crash may find: a manifest that could be found before the commit, with every block intact
  that was intact then, or a complete manifest with all its blocks.
\<close>

definition commit_safe ::
  "sse42 option \<Rightarrow> (BlockLocation \<Rightarrow> EncodedCheckpointBlock option) \<Rightarrow> CheckpointStore \<Rightarrow> ComputationIdentity \<Rightarrow> disk \<Rightarrow> disk \<Rightarrow> bool" where
  "commit_safe cpu img store i d0 d \<longleftrightarrow> (\<forall>c \<in> after_crash d (manifest_file store i).
     c \<in> after_crash d0 (manifest_file store i) \<and> (\<forall>l. block_durable img store i d0 l \<longrightarrow> block_durable img store i d l)
     \<or> manifest_complete cpu img store i d c)"

lemma safe_while_saving:
  assumes "evolves d0 (block_writes img store i) d"
  shows "commit_safe cpu img store i d0 d"
proof -
  have "after_crash d (manifest_file store i) \<subseteq> after_crash d0 (manifest_file store i)"
    using assms unfolding evolves_def by (metis block_writes_manifest store_files_not_temp(2) sup_bot_right)
  then show ?thesis
    unfolding commit_safe_def using evolves_block_durable [OF assms] by blast
qed

lemma manifest_complete_encoded:
  assumes "CheckpointManifestCodec_encode cpu \<lparr>man_identity = i, man_entries = es\<rparr> = Inr bytes" and "canonical_order es"
    and "frontier_shape i es" and "entries_durable img store i d es"
  shows "manifest_complete cpu img store i d (Some bytes)"
    and "CheckpointManifestCodec_decode cpu bytes = Inr \<lparr>man_identity = i, man_entries = es\<rparr>"
proof -
  have "manifest_ok \<lparr>man_identity = i, man_entries = es\<rparr>"
    using assms(1) by (simp add: encode_manifest_Inr)
  then show d: "CheckpointManifestCodec_decode cpu bytes = Inr \<lparr>man_identity = i, man_entries = es\<rparr>"
    using manifest_roundtrip [of _ cpu] assms(1) sorted_keys [OF assms(2)] by fastforce
  then show "manifest_complete cpu img store i d (Some bytes)"
    using assms(3,4) by (auto simp: manifest_complete_def)
qed

lemma safe_while_replacing:
  assumes saved: "evolves d0 (block_writes img store i) d1" "entries_durable img store i d1 es"
    and es: "canonical_order es" "frontier_shape i es"
    and d: "evolves d1 (\<lambda>p. case CheckpointManifestCodec_encode cpu \<lparr>man_identity = i, man_entries = es\<rparr> of
        Inl _ \<Rightarrow> {} | Inr bytes \<Rightarrow> writes (manifest_file store i) (Some bytes) p) d"
  shows "commit_safe cpu img store i d0 d" and "entries_durable img store i d es"
    and "block_durable img store i d0 l \<Longrightarrow> block_durable img store i d l"
proof -
  let ?F = "\<lambda>p. case CheckpointManifestCodec_encode cpu \<lparr>man_identity = i, man_entries = es\<rparr> of
        Inl _ \<Rightarrow> {} | Inr bytes \<Rightarrow> writes (manifest_file store i) (Some bytes) p"
  have F: "?F (block_file store i l) \<subseteq> block_writes img store i (block_file store i l)" for l
    by (auto simp: writes_def split: sum.split)
  show kept: "block_durable img store i d0 l \<Longrightarrow> block_durable img store i d l" for l
    using evolves_block_durable [OF saved(1)] evolves_block_durable [OF d F] by blast
  show dur: "entries_durable img store i d es"
    using d F saved(2) by (rule evolves_entries_durable)
  have "after_crash d (manifest_file store i) \<subseteq> after_crash d1 (manifest_file store i) \<union> ?F (manifest_file store i)"
    using d unfolding evolves_def by simp
  moreover have "after_crash d1 (manifest_file store i) \<subseteq> after_crash d0 (manifest_file store i)"
    using saved(1) unfolding evolves_def by (metis block_writes_manifest store_files_not_temp(2) sup_bot_right)
  ultimately show "commit_safe cpu img store i d0 d"
    unfolding commit_safe_def using kept manifest_complete_encoded [OF _ es dur]
    by (fastforce simp: writes_def split: sum.splits)
qed

lemma safe_while_removing:
  assumes bytes: "CheckpointManifestCodec_encode cpu \<lparr>man_identity = i, man_entries = es\<rparr> = Inr bytes"
    and es: "canonical_order es" "frontier_shape i es"
    and d2: "durable d2 (manifest_file store i) bytes" "entries_durable img store i d2 es"
    and d: "evolves d2 (removals store i es prev) d"
  shows "commit_safe cpu img store i d0 d" and "entries_durable img store i d es" and "durable d (manifest_file store i) bytes"
proof -
  have none: "removals store i es prev (manifest_file store i) = {}"
    "x \<in> set es \<Longrightarrow> removals store i es prev (block_file store i (entry_location x)) = {}" for x
    by (auto simp: removals_def) (metis image_eqI)
  show dur: "entries_durable img store i d es"
    using d2(2) evolves_block_durable [OF d] none(2) unfolding entries_durable_def by simp
  have m: "after_crash d (manifest_file store i) \<subseteq> {Some bytes}" "content d (manifest_file store i) = Some bytes"
    using d d2(1) none(1) unfolding evolves_def durable_def by (auto dest!: spec [of _ "manifest_file store i"])
  then show "durable d (manifest_file store i) bytes"
    using singleton_content [OF evolves_ok [OF d]] by (simp add: durable_def)
  show "commit_safe cpu img store i d0 d"
    unfolding commit_safe_def using m(1) manifest_complete_encoded(1) [OF bytes es dur] by blast
qed

lemma p_post_on_os [simp]: "p_post (on_os m) s Q = p_post m (run_os s) (\<lambda>r x. Q r (s\<lparr>run_os := x\<rparr>))"
  by (auto simp: p_post_def on_os_def split: option.split)

lemma run_os_on_writer [simp]: "run_os (s\<lparr>run_writer := w\<rparr>) = run_os s"
  by simp

lemma p_post_on_writer [simp]: "p_post (on_writer f) s Q = Q (Inr ()) (s\<lparr>run_writer := f (run_writer s)\<rparr>)"
  by (simp add: p_post_def on_writer_def)

text \<open>The invariant of the writer: what it takes for published is on the disk.\<close>

definition writer_ok :: "(BlockLocation \<Rightarrow> EncodedCheckpointBlock option) \<Rightarrow> frontier_run \<Rightarrow> bool" where
  "writer_ok img s \<longleftrightarrow> (let w = run_writer s in
     disk_ok (os_disk (run_os s)) \<and> ComputationIdentity_validate (fw_identity w) = Inr () \<and> canonical_order (fw_entries w)
     \<and> (\<forall>x \<in> set (fw_entries w). BlockLocation_validate (entry_location x) (fw_identity w) = Inr ())
     \<and> entries_durable img (fw_store w) (fw_identity w) (os_disk (run_os s)) (fw_entries w))"

definition published :: "sse42 option \<Rightarrow> frontier_run \<Rightarrow> bool" where
  "published cpu s \<longleftrightarrow> (let w = run_writer s in \<exists>bytes.
     durable (os_disk (run_os s)) (manifest_file (fw_store w) (fw_identity w)) bytes
     \<and> CheckpointManifestCodec_decode cpu bytes = Inr \<lparr>man_identity = fw_identity w, man_entries = fw_entries w\<rparr>
     \<and> frontier_shape (fw_identity w) (fw_entries w))"

definition commit_outcome ::
  "sse42 option \<Rightarrow> (BlockLocation \<Rightarrow> EncodedCheckpointBlock option) \<Rightarrow> frontier_run \<Rightarrow> unit result \<Rightarrow> frontier_run \<Rightarrow> bool" where
  "commit_outcome cpu img s r s' \<longleftrightarrow> (let w = run_writer s; w' = run_writer s' in
     traced (commit_safe cpu img (fw_store w) (fw_identity w) (os_disk (run_os s))) (run_os s) (run_os s')
     \<and> writer_ok img s' \<and> fw_store w' = fw_store w \<and> fw_identity w' = fw_identity w
     \<and> fw_commitCount w' = fw_commitCount w + (if r = Inr () then 1 else 0)
     \<and> (r = Inr () \<longrightarrow> published cpu s'))"

lemma finishFrontier_post:
  assumes ok: "writer_ok img s0" and w: "w = run_writer s0"
    and s: "fw_store (run_writer s) = fw_store w" "fw_identity (run_writer s) = fw_identity w"
      "fw_commitCount (run_writer s) = fw_commitCount w"
    and tr: "traced (commit_safe cpu img (fw_store w) (fw_identity w) (os_disk (run_os s0))) (run_os s0) (run_os s)"
    and es: "canonical_order es" "frontier_shape (fw_identity w) es" "\<And>x. x \<in> set es \<Longrightarrow> BlockLocation_validate (entry_location x) (fw_identity w) = Inr ()"
    and bytes: "CheckpointManifestCodec_encode cpu \<lparr>man_identity = fw_identity w, man_entries = es\<rparr> = Inr bytes"
    and d: "disk_ok (os_disk (run_os s))" "durable (os_disk (run_os s)) (manifest_file (fw_store w) (fw_identity w)) bytes"
      "entries_durable img (fw_store w) (fw_identity w) (os_disk (run_os s)) es"
  shows "p_post (finishFrontier env finish es new w) s (commit_outcome cpu img s0)"
proof -
  let ?i = "fw_identity w" and ?st = "fw_store w"
  have valid: "ComputationIdentity_validate ?i = Inr ()" and prev: "canonical_order (fw_entries w)"
    "\<And>x. x \<in> set (fw_entries w) \<Longrightarrow> BlockLocation_validate (entry_location x) ?i = Inr ()"
    using ok by (simp_all add: writer_ok_def Let_def w)
  note safe = safe_while_removing [OF bytes es(1,2) d(2,3), of "fw_entries w"]
  have removed: "st_post (removeSuperseded env w es (fw_entries w)) (run_os s) (\<lambda>r x. r = Inr ()
      \<and> traced (commit_safe cpu img ?st ?i (os_disk (run_os s0))) (run_os s0) x \<and> disk_ok (os_disk x)
      \<and> durable (os_disk x) (manifest_file ?st ?i) bytes \<and> entries_durable img ?st ?i (os_disk x) es)"
  proof (rule st_post_mono [OF removeSuperseded_post [OF valid es(1) prev d(1)]])
    fix r :: "unit result" and x
    assume a: "r = Inr () \<and> traced (evolves (os_disk (run_os s)) (removals ?st ?i es (fw_entries w))) (run_os s) x"
    then have ev: "evolves (os_disk (run_os s)) (removals ?st ?i es (fw_entries w)) (os_disk x)"
      by (blast intro: traced_disk)
    have "traced (commit_safe cpu img ?st ?i (os_disk (run_os s0))) (run_os s) x"
      using a safe(1) by (blast intro: traced_mono)
    then show "r = Inr () \<and> traced (commit_safe cpu img ?st ?i (os_disk (run_os s0))) (run_os s0) x \<and> disk_ok (os_disk x)
      \<and> durable (os_disk x) (manifest_file ?st ?i) bytes \<and> entries_durable img ?st ?i (os_disk x) es"
      using a tr traced_trans safe(2,3) [OF ev] evolves_ok [OF ev] by blast
  qed
  have decoded: "CheckpointManifestCodec_decode cpu bytes = Inr \<lparr>man_identity = ?i, man_entries = es\<rparr>"
    using bytes es(1,2) d(3) by (rule manifest_complete_encoded(2))
  define t where "t = (case fw_tracker (run_writer s) of None \<Rightarrow> run_writer s | Some tracker \<Rightarrow>
      (run_writer s)\<lparr>fw_tracker := Some (snd (publishCheckpointProgress (checkpointUpdate (run_writer s) es new) tracker))\<rparr>)"
  have t: "fw_store t = ?st" "fw_identity t = ?i" "fw_commitCount t = fw_commitCount w"
    using s by (simp_all add: t_def split: option.split)
  show ?thesis
    unfolding finishFrontier_def p_post_bind p_post_on_writer sum.case p_post_on_os p_post_lift run_os_on_writer
      t_def [symmetric]
  proof (rule st_post_mono [OF removed])
    fix r :: "unit result" and x
    assume "r = Inr () \<and> traced (commit_safe cpu img ?st ?i (os_disk (run_os s0))) (run_os s0) x \<and> disk_ok (os_disk x)
      \<and> durable (os_disk x) (manifest_file ?st ?i) bytes \<and> entries_durable img ?st ?i (os_disk x) es"
    moreover define s1 where "s1 = s\<lparr>run_writer := t\<rparr>\<lparr>run_writer := run_writer (s\<lparr>run_writer := t\<rparr>)\<lparr>fw_initialFrontierWorkPublished := True\<rparr>\<rparr>\<lparr>run_os := x\<rparr>"
    moreover have "fw_store (run_writer s1) = ?st" "fw_identity (run_writer s1) = ?i" "fw_commitCount (run_writer s1) = fw_commitCount w"
      "run_os s1 = x"
      using t by (simp_all add: s1_def)
    ultimately show "on_result (\<lambda>e. commit_outcome cpu img s0 (Inl e) s1) (\<lambda>_. commit_outcome cpu img s0 (Inr ())
        (s1\<lparr>run_writer := (run_writer s1)\<lparr>fw_entries := es, fw_lastCommit := Some finish,
           fw_commitCount := fw_commitCount (run_writer s1) + 1\<rparr>\<rparr>)) r"
      using valid es decoded w by (simp add: commit_outcome_def writer_ok_def published_def Let_def) blast
  qed
qed

lemma tiles_locations: "map entry_location es = map entry_location es' \<Longrightarrow> tiles a b es = tiles a b es'"
proof (induction es arbitrary: a es')
  case (Cons e es)
  then obtain e' es2 where es': "es' = e' # es2" "entry_location e' = entry_location e" "map entry_location es = map entry_location es2"
    by (cases es') auto
  show ?case
    unfolding es'(1) tiles.simps es'(2) Cons.IH [OF es'(3)] ..
qed simp

lemma shape_locations:
  assumes "map entry_location es = map entry_location es'"
  shows "frontier_shape i es = frontier_shape i es'"
  unfolding frontier_shape_def tiles_locations [OF assms] list.set_map [symmetric] assms ..

lemma keys_locations:
  assumes "map entry_location es = map entry_location es'"
  shows "map entryKey es = map entryKey es'"
proof -
  have keys: "map entryKey xs = map location_key (map entry_location xs)" for xs
    by (simp add: entryKey_location)
  show ?thesis
    unfolding keys assms ..
qed

text \<open>The structural gate lets only frontiers pass whose entries tile the computation in order.\<close>

lemma gate_accepts:
  assumes "CheckpointManifestValidator_validate \<lparr>man_identity = i, man_entries = es\<rparr> i = Inr v"
    and "isAccepted (mv_validation v)" and "ComputationIdentity_validate i = Inr ()"
  shows "canonical_order es" and "frontier_shape i es"
proof -
  obtain v' where "CheckpointManifestValidator_validate \<lparr>man_identity = i, man_entries = es\<rparr> i = Inr v'"
    "isAccepted (mv_validation v') \<longrightarrow> canonical_order es"
    using validate_valid [OF _ assms(3), of "\<lparr>man_identity = i, man_entries = es\<rparr>"] by auto
  then show "canonical_order es"
    using assms(1,2) by simp
  show "frontier_shape i es"
    using validate_accepted_iff [of "\<lparr>man_identity = i, man_entries = es\<rparr>" i] assms(1,2)
    by (auto simp: frontier_shape_def list_all_iff)
qed

lemma replaceManifest_post:
  assumes ok: "writer_ok img s0" and w: "w = run_writer s0" and ie: "interrupts_end env"
    and s: "fw_store (run_writer s) = fw_store w" "fw_identity (run_writer s) = fw_identity w"
      "fw_commitCount (run_writer s) = fw_commitCount w" "fw_entries (run_writer s) = fw_entries w"
    and tr: "traced (evolves (os_disk (run_os s0)) (block_writes img (fw_store w) (fw_identity w))) (run_os s0) (run_os s)"
    and es: "canonical_order es" "frontier_shape (fw_identity w) es"
      "\<And>x. x \<in> set es \<Longrightarrow> BlockLocation_validate (entry_location x) (fw_identity w) = Inr ()"
    and d: "entries_durable img (fw_store w) (fw_identity w) (os_disk (run_os s)) es"
  shows "p_post (p_bind (on_os (saveManifest env cpu (fw_store w) \<lparr>man_identity = fw_identity w, man_entries = es\<rparr>
       (fw_commitObserver w))) (\<lambda>_. finishFrontier env finish es new w)) s (commit_outcome cpu img s0)"
  unfolding p_post_bind p_post_on_os
proof (rule p_post_mono [OF saveManifest_post])
  let ?i = "fw_identity w" and ?st = "fw_store w" and ?m = "\<lparr>man_identity = fw_identity w, man_entries = es\<rparr>"
  let ?F = "\<lambda>p. case CheckpointManifestCodec_encode cpu ?m of Inl _ \<Rightarrow> {} | Inr bytes \<Rightarrow> writes (manifest_file ?st ?i) (Some bytes) p"
  note saved = traced_disk [OF tr]
  have valid: "ComputationIdentity_validate ?i = Inr ()" and prev: "canonical_order (fw_entries w)"
    "\<And>x. x \<in> set (fw_entries w) \<Longrightarrow> BlockLocation_validate (entry_location x) ?i = Inr ()"
    and old: "entries_durable img ?st ?i (os_disk (run_os s0)) (fw_entries w)"
    using ok by (simp_all add: writer_ok_def Let_def w)
  show "disk_ok (os_disk (run_os s))" "interrupts_end env" "manifestPath ?st (man_identity ?m) = Inr (manifest_file ?st ?i)"
    using evolves_ok [OF saved] ie valid by (simp_all add: manifestPath_Inr manifest_file_def)
  fix r :: "path result" and x
  assume a: "traced (evolves (os_disk (run_os s)) ?F) (run_os s) x
    \<and> (\<forall>y. r = Inr y \<longrightarrow> (\<exists>bytes. CheckpointManifestCodec_encode cpu ?m = Inr bytes
        \<and> y = manifest_file ?st ?i \<and> durable (os_disk x) (manifest_file ?st ?i) bytes))"
  note safe = safe_while_replacing [OF saved d es(1,2)]
  have ev: "evolves (os_disk (run_os s)) ?F (os_disk x)"
    using a by (blast intro: traced_disk)
  have "traced (commit_safe cpu img ?st ?i (os_disk (run_os s0))) (run_os s) x"
    using a safe(1) by (blast intro: traced_mono)
  moreover have "traced (commit_safe cpu img ?st ?i (os_disk (run_os s0))) (run_os s0) (run_os s)"
    using tr safe_while_saving by (rule traced_mono)
  ultimately have tr': "traced (commit_safe cpu img ?st ?i (os_disk (run_os s0))) (run_os s0) x"
    by (blast intro: traced_trans)
  have keep: "entries_durable img ?st ?i (os_disk x) (fw_entries w)"
    using old safe(3) [OF ev] unfolding entries_durable_def by blast
  show "on_result (\<lambda>e. commit_outcome cpu img s0 (Inl e) (s\<lparr>run_os := x\<rparr>))
      (\<lambda>_. p_post (finishFrontier env finish es new w) (s\<lparr>run_os := x\<rparr>) (commit_outcome cpu img s0)) r"
  proof (cases r)
    case (Inl e)
    then show ?thesis
      using s tr' keep valid prev evolves_ok [OF ev] w by (auto simp: commit_outcome_def writer_ok_def Let_def)
  next
    case (Inr y)
    then obtain bytes where "CheckpointManifestCodec_encode cpu ?m = Inr bytes" "durable (os_disk x) (manifest_file ?st ?i) bytes"
      using a by blast
    then show ?thesis
      using Inr s tr' es evolves_ok [OF ev] safe(2) [OF ev] by (auto intro!: finishFrontier_post [OF ok w])
  qed
qed

lemma publishFrontier_post:
  assumes ok: "writer_ok img s" and w: "w = run_writer s" and ie: "interrupts_end env"
    and img: "img = block_image cpu g (fw_identity w) vals"
    and cand: "candidate_ok (fw_identity w) (fw_entries w) nodes es new" "\<And>n. n \<in> set nodes \<Longrightarrow> node_carries vals n"
  shows "p_post (publishFrontier env cpu g finish nodes es new w) s (commit_outcome cpu img s)"
proof -
  let ?i = "fw_identity w" and ?st = "fw_store w" and ?m = "\<lparr>man_identity = fw_identity w, man_entries = es\<rparr>"
  let ?s = "s\<lparr>run_writer := if fw_initialFrontierWork w = None then w\<lparr>fw_initialFrontierWork := Some (of_nat (length new))\<rparr> else w\<rparr>"
  have valid: "ComputationIdentity_validate ?i = Inr ()" and d0: "disk_ok (os_disk (run_os s))"
    and dur: "entries_durable img ?st ?i (os_disk (run_os s)) (fw_entries w)"
    using ok by (simp_all add: writer_ok_def Let_def w)
  have stay: "commit_outcome cpu img s (Inl e) (s'\<lparr>run_os := x\<rparr>)"
    if "traced (evolves (os_disk (run_os s)) (block_writes img ?st ?i)) (run_os s) x" "s' = s \<or> s' = ?s" for e s' x
  proof -
    have ev: "evolves (os_disk (run_os s)) (block_writes img ?st ?i) (os_disk x)"
      using that(1) by (rule traced_disk)
    have "traced (commit_safe cpu img ?st ?i (os_disk (run_os s))) (run_os s) x"
      using that(1) safe_while_saving by (rule traced_mono)
    moreover have "entries_durable img ?st ?i (os_disk x) (fw_entries w)"
      using ev _ dur by (rule evolves_entries_durable) simp
    ultimately show ?thesis
      using that(2) ok evolves_ok [OF ev] w by (auto simp: commit_outcome_def writer_ok_def Let_def)
  qed
  have here: "traced (evolves (os_disk (run_os s)) (block_writes img ?st ?i)) (run_os s) (run_os s)"
    using d0 by (simp add: traced_here evolves_refl)
  have save: "p_post (saveNewNodes env cpu g w nodes new es) (run_os s)
      (\<lambda>r x. traced (evolves (os_disk (run_os s)) (block_writes img ?st ?i)) (run_os s) x
        \<and> (\<forall>out. r = Inr out \<longrightarrow> map entry_location out = map entry_location es
             \<and> entries_durable img ?st ?i (os_disk x) out))"
    using cand(1) candidate_to_save [OF cand] candidate_saved_but [OF cand(1) dur] img
    by (intro saveNewNodes_post ie valid d0) (simp_all add: candidate_ok_def)
  have locs: "BlockLocation_validate l ?i = Inr ()" if "l \<in> entry_location ` set es" for l
    using that cand(1) by (auto simp: candidate_ok_def in_set_conv_nth)
  have rest: "p_post (p_bind (on_os (saveNewNodes env cpu g w nodes new es)) (\<lambda>entries.
     p_bind (on_os (saveManifest env cpu ?st \<lparr>man_identity = ?i, man_entries = entries\<rparr> (fw_commitObserver w))) (\<lambda>_.
     finishFrontier env finish entries new w))) ?s (commit_outcome cpu img s)"
    if gate: "canonical_order es" "frontier_shape ?i es"
    unfolding p_post_bind [of "on_os (saveNewNodes env cpu g w nodes new es)"] p_post_on_os run_os_on_writer
  proof (rule p_post_mono [OF save])
    fix r :: "ManifestEntry list result" and x
    assume a: "traced (evolves (os_disk (run_os s)) (block_writes img ?st ?i)) (run_os s) x
        \<and> (\<forall>out. r = Inr out \<longrightarrow> map entry_location out = map entry_location es \<and> entries_durable img ?st ?i (os_disk x) out)"
    show "on_result (\<lambda>e. commit_outcome cpu img s (Inl e) (?s\<lparr>run_os := x\<rparr>)) (\<lambda>entries.
       p_post (p_bind (on_os (saveManifest env cpu ?st \<lparr>man_identity = ?i, man_entries = entries\<rparr> (fw_commitObserver w)))
         (\<lambda>_. finishFrontier env finish entries new w)) (?s\<lparr>run_os := x\<rparr>) (commit_outcome cpu img s)) r"
    proof (cases r)
      case (Inl e)
      then show ?thesis using a stay by simp
    next
      case (Inr out)
      then have out: "map entry_location out = map entry_location es" "entries_durable img ?st ?i (os_disk x) out"
        using a by simp_all
      have "canonical_order out" "frontier_shape ?i out"
        using gate keys_locations [OF out(1)] shape_locations [OF out(1)] by simp_all
      moreover have "BlockLocation_validate (entry_location y) ?i = Inr ()" if "y \<in> set out" for y
        using locs that out(1) by (metis image_eqI list.set_map)
      ultimately show ?thesis
        using Inr a out(2) by (auto simp del: p_post_bind intro!: replaceManifest_post [OF ok w ie])
    qed
  qed
  show ?thesis
  proof (cases "CheckpointManifestValidator_validate ?m ?i")
    case (Inl e)
    then show ?thesis
      using stay [OF here, of s] by (simp add: publishFrontier_def)
  next
    case (Inr v)
    show ?thesis
    proof (cases "isAccepted (mv_validation v)")
      case True
      have "p_post (publishFrontier env cpu g finish nodes es new w) s (commit_outcome cpu img s)
          = p_post (p_bind (on_os (saveNewNodes env cpu g w nodes new es)) (\<lambda>entries.
     p_bind (on_os (saveManifest env cpu ?st \<lparr>man_identity = ?i, man_entries = entries\<rparr> (fw_commitObserver w))) (\<lambda>_.
     finishFrontier env finish entries new w))) ?s (commit_outcome cpu img s)"
        unfolding publishFrontier_def Inr p_post_known using True w
        by (simp add: p_post_bind [of "p_lift _"] p_post_bind [of "on_writer _"] del: p_post_bind)
      then show ?thesis
        using rest gate_accepts [OF Inr True valid] by simp
    next
      case False
      then show ?thesis
        unfolding publishFrontier_def Inr p_post_known using stay [OF here, of s] by simp
    qed
  qed
qed

section \<open>Every disk on the way is resumable\<close>

definition resumable ::
  "sse42 option \<Rightarrow> (BlockLocation \<Rightarrow> EncodedCheckpointBlock option) \<Rightarrow> CheckpointStore \<Rightarrow> ComputationIdentity \<Rightarrow> disk \<Rightarrow> bool" where
  "resumable cpu img store i d \<longleftrightarrow>
     (\<forall>c \<in> after_crash d (manifest_file store i). c = None \<or> manifest_complete cpu img store i d c)"

lemma commit_safe_refl: "commit_safe cpu img store i d d"
  by (simp add: commit_safe_def)

lemma commit_safe_resumable: "commit_safe cpu img store i d0 d \<Longrightarrow> resumable cpu img store i d0 \<Longrightarrow> resumable cpu img store i d"
proof -
  have keep: "manifest_complete cpu img store i d c"
    if "manifest_complete cpu img store i d0 c" "\<forall>l. block_durable img store i d0 l \<longrightarrow> block_durable img store i d l" for c
    using that unfolding manifest_complete_def entries_durable_def by blast
  show "commit_safe cpu img store i d0 d \<Longrightarrow> resumable cpu img store i d0 \<Longrightarrow> ?thesis"
    unfolding commit_safe_def resumable_def using keep by blast
qed

text \<open>The commit with the two ways of skipping it: nothing is touched then.\<close>

lemma commitFrontier_post:
  assumes ok: "writer_ok img s" and ie: "interrupts_end env"
    and img: "img = block_image cpu g (fw_identity (run_writer s)) vals"
    and nodes: "\<And>n. n \<in> set nodes \<Longrightarrow> node_carries vals n"
  shows "p_post (CheckpointFrontierWriter_commitFrontier env cpu g now finish nodes levels) s
    (\<lambda>r s'. s' = s \<or> commit_outcome cpu img s r s')"
proof -
  note step = CheckpointFrontierWriter_commitFrontier_def [of env cpu g now finish nodes levels s]
  show ?thesis
  proof (cases "length nodes = length levels \<and> (\<exists>es new. candidateManifest g (run_writer s) nodes levels = Inr (es, new))")
    case True
    then obtain es new where c: "candidateManifest g (run_writer s) nodes levels = Inr (es, new)" "length nodes = length levels"
      by blast
    have "p_post (publishFrontier env cpu g finish nodes es new (run_writer s)) s (commit_outcome cpu img s)"
      using candidateManifest_ok [OF c] nodes by (intro publishFrontier_post [OF ok refl ie img])
    then obtain r s' where "publishFrontier env cpu g finish nodes es new (run_writer s) s = Some (r, s')" "commit_outcome cpu img s r s'"
      by (blast dest: p_postD)
    then show ?thesis
      using c by (simp add: p_post_def step Let_def)
  next
    case False
    then show ?thesis
      by (auto simp: p_post_def step Let_def split: sum.splits)
  qed
qed

section \<open>Properties\<close>

text \<open>
  C23: Committing a frontier is crash-safe.  Whatever calls fail, whatever an observer throws and
  wherever the machine stops, every disk on the way (after each single call) has this property: a
  manifest that may be found after a crash could already be found before, with every block intact
  that was, or it is a complete manifest whose entries lie end to end over all terms, with every
  block it names durable and as described.  So if only complete manifests could be found before,
  the same holds at every moment.  The commit returns, keeps the invariant of the writer, and a
  commit that counts has made the manifest of its entries durable.
\<close>

theorem commitFrontier_crash_safe:
  assumes ok: "writer_ok img s" and ie: "interrupts_end env"
    and img: "img = block_image cpu g (fw_identity (run_writer s)) vals"
    and nodes: "\<And>n. n \<in> set nodes \<Longrightarrow> node_carries vals n"
    and st: "store = fw_store (run_writer s)" "i = fw_identity (run_writer s)" "d0 = os_disk (run_os s)"
  shows "\<exists>r s'. CheckpointFrontierWriter_commitFrontier env cpu g now finish nodes levels s = Some (r, s')
    \<and> traced (commit_safe cpu img store i d0) (run_os s) (run_os s')
    \<and> (resumable cpu img store i d0 \<longrightarrow> traced (resumable cpu img store i) (run_os s) (run_os s'))
    \<and> writer_ok img s'
    \<and> (commitCount (run_writer s') \<noteq> commitCount (run_writer s) \<longrightarrow> published cpu s')"
proof -
  obtain r s' where c: "CheckpointFrontierWriter_commitFrontier env cpu g now finish nodes levels s = Some (r, s')"
    "s' = s \<or> commit_outcome cpu img s r s'"
    using p_postD [OF commitFrontier_post [OF ok ie img nodes]] by blast
  have tr: "traced (commit_safe cpu img store i d0) (run_os s) (run_os s')"
    using c(2) st by (auto simp: commit_outcome_def Let_def traced_here commit_safe_refl)
  then have "resumable cpu img store i d0 \<longrightarrow> traced (resumable cpu img store i) (run_os s) (run_os s')"
    using traced_mono [OF tr commit_safe_resumable] by simp
  moreover have "writer_ok img s' \<and> (commitCount (run_writer s') \<noteq> commitCount (run_writer s) \<longrightarrow> published cpu s')"
    using c(2) ok by (auto simp: commit_outcome_def Let_def commitCount_def split: if_splits)
  ultimately show ?thesis
    using c(1) tr by blast
qed

text \<open>A new writer satisfies its invariant when the entries it is given are on the disk.\<close>

lemma checkAcceptedEntries_Inr:
  "checkAcceptedEntries store i c es = Inr () \<Longrightarrow>
   (\<forall>x \<in> set es. BlockLocation_validate (entry_location x) i = Inr () \<and> c \<le> e_start x
      \<and> entry_completion x = CompletionState_complete \<and> entry_filename x = blockName i (entry_location x))
   \<and> sorted_wrt (\<lambda>x y. e_end x \<le> e_start y) es"
proof (induction es arbitrary: c)
  case (Cons x es)
  have x: "BlockLocation_validate (entry_location x) i = Inr ()" "c \<le> e_start x" "entry_completion x = CompletionState_complete"
    "entry_filename x = blockName i (entry_location x)" "checkAcceptedEntries store i (e_end x) es = Inr ()"
    using Cons.prems by (auto simp: res_bind_eq_Inr_iff blockPath_Inr not_less)
  have "e_start x < e_end x"
    using x(1) by (simp add: BlockLocation_validate_Inr)
  then show ?case
    using x Cons.IH [OF x(5)] by (auto intro: order.trans less_imp_le)
qed simp

lemma entryKey_start: "e_start x < e_start y \<Longrightarrow> entryKey x < entryKey y"
  by (simp add: entryKey_def)

lemma accepted_canonical:
  assumes "checkAcceptedEntries store i c es = Inr ()"
  shows "canonical_order es"
  unfolding sorted_wrt_map
proof (rule sorted_wrt_mono_rel)
  show "sorted_wrt (\<lambda>x y. e_end x \<le> e_start y) es"
    using checkAcceptedEntries_Inr [OF assms] by (rule conjunct2)
  fix x y
  assume "x \<in> set es" "e_end x \<le> e_start y"
  moreover from this(1) have "BlockLocation_validate (entry_location x) i = Inr ()"
    using checkAcceptedEntries_Inr [OF assms] by blast
  ultimately show "entryKey x < entryKey y"
    unfolding BlockLocation_validate_Inr by (blast intro: entryKey_start order.strict_trans2)
qed

lemma create_writer_Inr:
  assumes "CheckpointFrontierWriter_create dir i interval accepted obs tracker = Inr w"
  shows "ComputationIdentity_validate i = Inr ()"
    and "checkAcceptedEntries \<lparr>store_directory = dir\<rparr> i 0 (sort_key entryKey accepted) = Inr ()"
    and "fw_store w = \<lparr>store_directory = dir\<rparr>" "fw_identity w = i" "fw_entries w = sort_key entryKey accepted"
  using assms unfolding CheckpointFrontierWriter_create_def CheckpointStore_create_def Let_def res_bind_eq_Inr_iff by auto

lemma create_writer_ok:
  assumes "CheckpointFrontierWriter_create dir i interval accepted obs tracker = Inr w" and "disk_ok (os_disk s)"
    and "entries_durable img \<lparr>store_directory = dir\<rparr> i (os_disk s) accepted"
  shows "writer_ok img \<lparr>run_writer = w, run_os = s\<rparr>"
  unfolding writer_ok_def Let_def frontier_run.select_convs create_writer_Inr [OF assms(1)]
  using assms(2,3) create_writer_Inr(1) [OF assms(1)] accepted_canonical [OF create_writer_Inr(2) [OF assms(1)]]
    checkAcceptedEntries_Inr [OF create_writer_Inr(2) [OF assms(1)]]
  unfolding entries_durable_def set_sort by blast

theorem commitFrontier_crash_safe_witness:
  "\<exists>w r s'. CheckpointFrontierWriter_create ''cp'' sample_identity 60 [] None None = Inr w
    \<and> CheckpointFrontierWriter_commitFrontier calm_env None gmp_ref 0 1
        [\<lparr>node_start = 0, node_end = 7, node_P = 5, node_Q = 24, node_T = - 7\<rparr>] [3] \<lparr>run_writer = w, run_os = fresh_os\<rparr> = Some (r, s')
    \<and> traced (resumable None (block_image None gmp_ref sample_identity (\<lambda>_ _. (5, 24, - 7))) \<lparr>store_directory = ''cp''\<rparr> sample_identity)
        fresh_os (run_os s')"
proof -
  let ?img = "block_image None gmp_ref sample_identity (\<lambda>_ _. (5, 24, - 7))" and ?st = "\<lparr>store_directory = ''cp''\<rparr>"
  let ?n = "\<lparr>node_start = 0, node_end = 7, node_P = 5, node_Q = 24, node_T = - 7\<rparr> :: BinaryNode"
  obtain w where w: "CheckpointFrontierWriter_create ''cp'' sample_identity 60 [] None None = Inr w"
    by (simp add: CheckpointFrontierWriter_create_def CheckpointStore_create_def sample_identity_valid)
  have "entries_durable ?img ?st sample_identity (os_disk fresh_os) []"
    by (simp add: entries_durable_def)
  note ok = create_writer_ok [OF w disk_ok_empty this]
  have "resumable None ?img ?st sample_identity (os_disk fresh_os)"
    by (simp add: resumable_def after_crash_def fresh_os_def empty_disk_def)
  moreover have "node_carries (\<lambda>_ _. (5, 24, - 7)) n" if "n \<in> set [?n]" for n
    using that by (simp add: node_carries_def)
  ultimately show ?thesis
    using commitFrontier_crash_safe [OF ok interrupts_end_calm, of None gmp_ref "\<lambda>_ _. (5, 24, - 7)" "[?n]" ?st sample_identity
        "os_disk fresh_os" 0 1 "[3]"] create_writer_Inr(3,4) [OF w] w by (auto intro!: exI [of _ w])
qed

end
