(* ===== verification/Checkpointed_Split.thy ===== *)
theory Checkpointed_Split
  imports Frontier_Writer Binary_Parallel_Correct
begin

text \<open>
  The frontier writer as the checkpoint coordinator of a parallel split: it keeps the contract
  \<open>checkpoint_coordinator\<close>, so a checkpointed run computes what the sequential split does and
  leaves a resumable directory behind at every moment.
\<close>

section \<open>The writer as a coordinator\<close>

text \<open>
  The override of \<open>BinaryCheckpointCoordinator::commitFrontier\<close>.  The clock is read from the state.
  A commit whose writes are interrupted forever does not return; \<open>interrupts_end\<close> excludes it.
\<close>

definition frontier_coordinator ::
  "os_env \<Rightarrow> sse42 option \<Rightarrow> gmp \<Rightarrow> (frontier_run \<Rightarrow> int) \<Rightarrow> (frontier_run \<Rightarrow> int) \<Rightarrow> frontier_run BinaryCheckpointCoordinator" where
  "frontier_coordinator env cpu g now finish = \<lparr>commitFrontier = (\<lambda>nodes levels s.
     case CheckpointFrontierWriter_commitFrontier env cpu g (now s) (finish s) nodes levels s of
       Some result \<Rightarrow> result | None \<Rightarrow> (Inl (Runtime_error ''checkpoint write does not return''), s))\<rparr>"

definition range_pqt :: range_values where
  "range_pqt s e = (range_P (unat s) (unat e), range_Q (unat s) (unat e), range_T (unat s) (unat e))"

definition checkpoint_inv ::
  "os_env \<Rightarrow> sse42 option \<Rightarrow> gmp \<Rightarrow> CheckpointStore \<Rightarrow> ComputationIdentity \<Rightarrow> os \<Rightarrow> frontier_run \<Rightarrow> bool" where
  "checkpoint_inv env cpu g store i start s \<longleftrightarrow> (let img = block_image cpu g i range_pqt in
     interrupts_end env \<and> writer_ok img s \<and> fw_store (run_writer s) = store \<and> fw_identity (run_writer s) = i
     \<and> traced (resumable cpu img store i) start (run_os s))"

lemma row_of_carries:
  assumes "sorted_wrt (<) bs" and "\<forall>b \<in> set bs. b < 2 ^ 64" and "n \<in> set (row_of pqt_node bs)"
  shows "node_carries range_pqt n"
  using assms
proof (induction pqt_node bs rule: row_of.induct)
  case (1 a b bs)
  have "node_carries range_pqt (pqt_node a b)"
    using "1.prems"(2) by (simp add: node_carries_def range_pqt_def pqt_node_def unat_of_nat)
  then show ?case
    using 1 by auto
qed auto

lemma contiguous_carries: "contiguous a b row \<Longrightarrow> b < 2 ^ 64 \<Longrightarrow> n \<in> set row \<Longrightarrow> node_carries range_pqt n"
proof -
  assume "contiguous a b row" "b < 2 ^ 64" "n \<in> set row"
  then obtain bs where bs: "bs \<noteq> []" "last bs = b" "sorted_wrt (<) bs" "row = row_of pqt_node bs"
    by (auto simp: contiguous_def)
  have "x \<le> b" if "x \<in> set bs" for x
    using contiguous_bounds(2) [OF bs(3,1) that] bs(2) by simp
  then show ?thesis
    using row_of_carries [OF bs(3)] bs(4) \<open>b < 2 ^ 64\<close> \<open>n \<in> set row\<close> by (blast intro: le_less_trans)
qed

interpretation durable_checkpoint: checkpoint_coordinator
  "Some (frontier_coordinator env cpu g now finish)" "\<lambda>_. True" "\<lambda>_ _. checkpoint_inv env cpu g store i start"
proof
  fix k a b row and levels :: "u32 list" and s
  assume k: "Some (frontier_coordinator env cpu g now finish) = Some k" and row: "contiguous a b row" "b < 2 ^ 64"
    and inv: "checkpoint_inv env cpu g store i start s"
  let ?img = "block_image cpu g i range_pqt"
  have s: "interrupts_end env" "writer_ok ?img s" "fw_store (run_writer s) = store" "fw_identity (run_writer s) = i"
    "traced (resumable cpu ?img store i) start (run_os s)"
    using inv by (simp_all add: checkpoint_inv_def Let_def)
  obtain r s' where c: "CheckpointFrontierWriter_commitFrontier env cpu g (now s) (finish s) row levels s = Some (r, s')"
    "s' = s \<or> commit_outcome cpu ?img s r s'"
    using p_postD [OF commitFrontier_post [OF s(2,1), of cpu g range_pqt row "now s" "finish s" levels]] s(4)
      contiguous_carries [OF row] by auto
  have "checkpoint_inv env cpu g store i start s'"
  proof (cases "s' = s")
    case False
    then have o: "commit_outcome cpu ?img s r s'" using c(2) by simp
    have "traced (resumable cpu ?img store i) (run_os s) (run_os s')"
      using o s(3,4) traced_mono [of "commit_safe cpu ?img store i (os_disk (run_os s))"]
        commit_safe_resumable [OF _ traced_disk [OF s(5)]] by (auto simp: commit_outcome_def Let_def)
    then show ?thesis
      using s o traced_trans [OF s(5)] by (simp add: checkpoint_inv_def commit_outcome_def Let_def)
  qed (use inv in simp)
  then show "st_ok (\<lambda>_. True) (commitFrontier k row levels) s (\<lambda>_. checkpoint_inv env cpu g store i start)"
    using k c(1) by (auto simp: st_ok_def frontier_coordinator_def split: sum.split)
qed

section \<open>Properties\<close>


definition writer_env :: "(unit, unit, frontier_run) split_env" where
  "writer_env = \<lparr>env_observer = None, env_coordinator = None,
     env_checkpoint = Some (frontier_coordinator calm_env None gmp_ref (\<lambda>_. 0) (\<lambda>_. 1))\<rparr>"

interpretation writer_run: split_run gmp_ref writer_env "\<lambda>_. True" "\<lambda>_. True" "\<lambda>_ _ row nodes. row = nodes"
  "\<lambda>_ _. checkpoint_inv calm_env None gmp_ref store i start"
  by unfold_locales (auto simp: writer_env_def intro: durable_checkpoint.commit)


end
