(* ===== verification/Checkpoint_Inspection.thy ===== *)
theory Checkpoint_Inspection
  imports Checkpoint_Store Block_Validator
begin

text \<open>
  Reading a block file back (src/src/checkpoint/CheckpointFileInspector.cpp) and comparing it with
  its manifest entry (src/src/checkpoint/ManifestEntryValidator.cpp).
\<close>

section \<open>Operations\<close>

record InspectedCheckpointFile =
  insp_path :: path
  insp_fileSize :: u64
  insp_payloadSize :: u64
  insp_checksumAlgorithm :: u16
  insp_checksum :: u32
  insp_block :: CheckpointBlock

record CheckpointFileInspection =
  fi_validation :: ValidationResult
  fi_file :: "InspectedCheckpointFile option"

definition hasAcceptedFile :: "CheckpointFileInspection \<Rightarrow> bool" where
  "hasAcceptedFile v \<longleftrightarrow> isAccepted (fi_validation v) \<and> fi_file v \<noteq> None"

definition inspect_rejected ::
  "ValidationStage \<Rightarrow> RejectionReason \<Rightarrow> string \<Rightarrow> CheckpointFileInspection result" where
  "inspect_rejected stage reason detail =
     res_bind (ValidationResult_rejected_one \<lparr>diag_stage = stage, diag_reason = reason, diag_detail = detail\<rparr>)
       (\<lambda>v. Inr \<lparr>fi_validation = v, fi_file = None\<rparr>)"

text \<open>The verdict on the bytes that were read.\<close>

definition inspectBytes ::
  "sse42 option \<Rightarrow> gmp \<Rightarrow> path \<Rightarrow> ComputationIdentity \<Rightarrow> u8 list \<Rightarrow> CheckpointFileInspection result" where
  "inspectBytes cpu g path expectedIdentity bytes =
     res_bind (CheckpointBlockValidator_validate cpu g bytes expectedIdentity) (\<lambda>blockValidation.
     if \<not> hasAcceptedBlock blockValidation
     then Inr \<lparr>fi_validation = bv_validation blockValidation, fi_file = None\<rparr>
     else case bv_block blockValidation of
         None \<Rightarrow> Inr \<lparr>fi_validation = bv_validation blockValidation, fi_file = None\<rparr>
       | Some validated \<Rightarrow> res_bind ValidationResult_accepted (\<lambda>v.
           Inr \<lparr>fi_validation = v, fi_file = Some \<lparr>insp_path = path, insp_fileSize = vb_encodedSize validated,
             insp_payloadSize = vb_payloadSize validated, insp_checksumAlgorithm = vb_checksumAlgorithm validated,
             insp_checksum = vb_checksum validated, insp_block = vb_block validated\<rparr>\<rparr>))"

text \<open>The \<open>try\<close> block, and the whole inspection with its \<open>catch\<close>.\<close>

definition inspectTry ::
  "os_env \<Rightarrow> sse42 option \<Rightarrow> gmp \<Rightarrow> path \<Rightarrow> ComputationIdentity \<Rightarrow> (os, CheckpointFileInspection) action" where
  "inspectTry env cpu g path expectedIdentity =
     st_bind (file_size env path) (\<lambda>rawSize.
     if rawSize > unat (- 1 :: size_t) \<or> rawSize > unat (- 1 :: u64) \<or> rawSize > 2 ^ 63 - 1
     then st_lift (inspect_rejected Stage_discovery Reason_fileReadFailed ''Checkpoint file exceeds supported memory limits'')
     else st_bind (\<lambda>s. case stream_read env path s of (bs, s') \<Rightarrow> (Inr bs, s')) (\<lambda>input.
       case input of
         None \<Rightarrow> st_lift (inspect_rejected Stage_discovery Reason_fileReadFailed ''Checkpoint file could not be read completely'')
       | Some bytes \<Rightarrow> st_lift (inspectBytes cpu g path expectedIdentity bytes)))"

definition CheckpointFileInspector_inspect ::
  "os_env \<Rightarrow> sse42 option \<Rightarrow> gmp \<Rightarrow> path \<Rightarrow> ComputationIdentity \<Rightarrow> (os, CheckpointFileInspection) action" where
  "CheckpointFileInspector_inspect env cpu g path expectedIdentity s =
     (if is_temp_name (path_filename path)
      then (res_bind (ValidationResult_ignored Reason_temporaryFile ''Incomplete checkpoint temp file'')
              (\<lambda>v. Inr \<lparr>fi_validation = v, fi_file = None\<rparr>), s)
      else if file_extension (path_filename path) \<noteq> ''.checkpoint''
      then (inspect_rejected Stage_discovery Reason_unexpectedBlockFile
              ''Candidate does not use the final checkpoint extension'', s)
      else case inspectTry env cpu g path expectedIdentity s of
             (Inr v, s') \<Rightarrow> (Inr v, s')
           | (Inl e, s') \<Rightarrow> (inspect_rejected Stage_discovery Reason_fileReadFailed (what e), s'))"

definition entry_diag :: "RejectionReason \<Rightarrow> string \<Rightarrow> ValidationDiagnostic" where
  "entry_diag reason detail = \<lparr>diag_stage = Stage_manifest, diag_reason = reason, diag_detail = detail\<rparr>"

text \<open>The check of the deterministic file name, with its \<open>catch\<close>.\<close>

definition deterministicName :: "ManifestEntry \<Rightarrow> InspectedCheckpointFile \<Rightarrow> ComputationIdentity \<Rightarrow> ValidationDiagnostic list" where
  "deterministicName entry file identity =
     (case res_bind (CheckpointStore_create (parent_path (insp_path file)))
             (\<lambda>store. blockPath store identity (entry_location entry)) of
        Inl e \<Rightarrow> [entry_diag Reason_filenameMismatch (what e)]
      | Inr path \<Rightarrow> if entry_filename entry \<noteq> path_filename path
          then [entry_diag Reason_filenameMismatch ''Manifest filename is not deterministic for its identity and location'']
          else [])"

definition ManifestEntryValidator_validate ::
  "ManifestEntry \<Rightarrow> InspectedCheckpointFile \<Rightarrow> ComputationIdentity \<Rightarrow> ValidationResult result" where
  "ManifestEntryValidator_validate entry file identity =
     verdict (
       (case res_bind (ComputationIdentity_validate identity)
               (\<lambda>_. BlockLocation_validate (entry_location entry) identity) of
          Inl e \<Rightarrow> [entry_diag Reason_invalidRange (what e)] | Inr _ \<Rightarrow> [])
       @ (if block_identity (insp_block file) \<noteq> identity
          then [entry_diag Reason_manifestIdentityMismatch ''Block identity differs from manifest identity''] else [])
       @ (if block_location (insp_block file) \<noteq> entry_location entry
          then [entry_diag Reason_locationMismatch ''Block range or tree level differs from manifest entry''] else [])
       @ (if entry_filename entry \<noteq> path_filename (insp_path file)
          then [entry_diag Reason_filenameMismatch ''Manifest filename differs from the inspected file''] else [])
       @ deterministicName entry file identity
       @ (if entry_payloadSize entry \<noteq> insp_payloadSize file
          then [entry_diag Reason_sizeMismatch ''Manifest payload size differs from the encoded P/Q/T payload''] else [])
       @ (if entry_checksumAlgorithm entry \<noteq> insp_checksumAlgorithm file \<or> entry_checksum entry \<noteq> insp_checksum file
          then [entry_diag Reason_entryChecksumMismatch ''Manifest checksum metadata differs from the block''] else [])
       @ (if entry_completion entry \<noteq> CompletionState_complete
          then [entry_diag Reason_incompleteEntry ''Manifest entry is not complete''] else []))"

section \<open>What is accepted\<close>

text \<open>The metadata of a block file, and an entry that describes it.\<close>

definition file_describes :: "sse42 option \<Rightarrow> gmp \<Rightarrow> path \<Rightarrow> ComputationIdentity \<Rightarrow> u8 list \<Rightarrow> InspectedCheckpointFile \<Rightarrow> bool" where
  "file_describes cpu g path i bytes file \<longleftrightarrow> insp_path file = path \<and> unat (insp_fileSize file) = length bytes
     \<and> unat (insp_payloadSize file) = length bytes - 112 \<and> insp_checksumAlgorithm file = ChecksumAlgorithm_crc32c
     \<and> blockChecksum cpu bytes = Inr (insp_checksum file)
     \<and> CheckpointBlockCodec_decode cpu g bytes = Inr (insp_block file) \<and> block_identity (insp_block file) = i
     \<and> loc_treeLevel (block_location (insp_block file)) \<le> treeHeight (id_termCount i)"

definition entry_matches :: "ManifestEntry \<Rightarrow> InspectedCheckpointFile \<Rightarrow> ComputationIdentity \<Rightarrow> bool" where
  "entry_matches x file i \<longleftrightarrow> ComputationIdentity_validate i = Inr () \<and> BlockLocation_validate (entry_location x) i = Inr ()
     \<and> block_identity (insp_block file) = i \<and> block_location (insp_block file) = entry_location x
     \<and> path_filename (insp_path file) = blockName i (entry_location x) \<and> entry_filename x = blockName i (entry_location x)
     \<and> parent_path (insp_path file) \<noteq> [] \<and> entry_payloadSize x = insp_payloadSize file
     \<and> entry_checksumAlgorithm x = insp_checksumAlgorithm file \<and> entry_checksum x = insp_checksum file
     \<and> entry_completion x = CompletionState_complete"

lemma inspect_rejected_eq [simp]:
  "inspect_rejected a b c = Inr \<lparr>fi_validation = \<lparr>vr_status = Status_rejected,
     vr_diagnostics = [\<lparr>diag_stage = a, diag_reason = b, diag_detail = c\<rparr>]\<rparr>, fi_file = None\<rparr>"
  by (simp add: inspect_rejected_def)

lemma ignored_eq [simp]:
  "ValidationResult_ignored a b = Inr \<lparr>vr_status = Status_ignored,
     vr_diagnostics = [\<lparr>diag_stage = Stage_discovery, diag_reason = a, diag_detail = b\<rparr>]\<rparr>"
  by (simp add: ValidationResult_ignored_def ValidationResult_make_def)

lemma no_file_accepted [simp]: "\<not> hasAcceptedFile \<lparr>fi_validation = v, fi_file = None\<rparr>"
  by (simp add: hasAcceptedFile_def)

lemma ManifestEntryValidator_verdict:
  "\<exists>v. ManifestEntryValidator_validate x file i = Inr v \<and> (isAccepted v \<longleftrightarrow> entry_matches x file i)"
proof -
  have name: "deterministicName x file i = [] \<longleftrightarrow> parent_path (insp_path file) \<noteq> []
      \<and> ComputationIdentity_validate i = Inr () \<and> BlockLocation_validate (entry_location x) i = Inr ()
      \<and> entry_filename x = blockName i (entry_location x)"
  proof -
    have "deterministicName x file i = [] \<longleftrightarrow> (\<exists>p. res_bind (CheckpointStore_create (parent_path (insp_path file)))
        (\<lambda>store. blockPath store i (entry_location x)) = Inr p \<and> entry_filename x = path_filename p)"
      by (auto simp: deterministicName_def split: sum.splits)
    also have "\<dots> \<longleftrightarrow> parent_path (insp_path file) \<noteq> [] \<and> ComputationIdentity_validate i = Inr ()
        \<and> BlockLocation_validate (entry_location x) i = Inr () \<and> entry_filename x = blockName i (entry_location x)"
      unfolding res_bind_eq_Inr_iff CheckpointStore_create_def blockPath_Inr by auto
    finally show ?thesis .
  qed
  show ?thesis
    unfolding ManifestEntryValidator_validate_def verdict_eq
    by (auto simp: name entry_matches_def split: sum.splits)
qed

lemma inspectBytes_verdict:
  assumes "gmp_library g" and "length bytes < 2 ^ 64"
  shows "\<exists>v. inspectBytes cpu g path i bytes = Inr v
    \<and> (hasAcceptedFile v \<longrightarrow> (\<exists>file. fi_file v = Some file \<and> file_describes cpu g path i bytes file))
    \<and> (\<forall>b. CheckpointBlockCodec_decode cpu g bytes = Inr b \<and> block_identity b = i
         \<and> loc_treeLevel (block_location b) \<le> treeHeight (id_termCount i) \<longrightarrow> hasAcceptedFile v)"
proof -
  obtain v where v: "CheckpointBlockValidator_validate cpu g bytes i = Inr v"
    "hasAcceptedBlock v \<longleftrightarrow> (\<exists>b. CheckpointBlockCodec_decode cpu g bytes = Inr b \<and> block_identity b = i
         \<and> loc_treeLevel (block_location b) \<le> treeHeight (id_termCount i))"
    "\<And>vb. bv_block v = Some vb \<Longrightarrow> CheckpointBlockCodec_decode cpu g bytes = Inr (vb_block vb)
         \<and> unat (vb_encodedSize vb) = length bytes \<and> unat (vb_payloadSize vb) = length bytes - 112
         \<and> vb_checksumAlgorithm vb = ChecksumAlgorithm_crc32c \<and> blockChecksum cpu bytes = Inr (vb_checksum vb)"
    using block_validator_accepts [OF assms, of cpu i] by blast
  show ?thesis
  proof (cases "hasAcceptedBlock v")
    case True
    then obtain vb where "bv_block v = Some vb"
      by (auto simp: hasAcceptedBlock_def)
    then show ?thesis
      using True v by (auto simp: inspectBytes_def hasAcceptedFile_def file_describes_def)
  next
    case False
    then show ?thesis
      using v(1,2) by (simp add: inspectBytes_def hasAcceptedFile_def)
  qed
qed

text \<open>An inspection never throws and leaves the disk alone; what it accepts is on the disk.\<close>

lemma inspectTry_verdict:
  assumes "gmp_library g"
  shows "\<exists>r s'. inspectTry env cpu g path i s = (r, s') \<and> os_disk s' = os_disk s
    \<and> (\<forall>v. r = Inr v \<and> hasAcceptedFile v \<longrightarrow> (\<exists>bytes file. content (os_disk s) path = Some bytes
          \<and> length bytes < 2 ^ 63 \<and> fi_file v = Some file \<and> file_describes cpu g path i bytes file))"
proof (cases "content (os_disk s) path")
  case None
  then show ?thesis
    by (simp add: inspectTry_def st_bind_def file_size_def)
next
  case (Some bytes)
  have "\<exists>v. inspectBytes cpu g path i bytes = Inr v
    \<and> (hasAcceptedFile v \<longrightarrow> (\<exists>file. fi_file v = Some file \<and> file_describes cpu g path i bytes file))" if "length bytes < 2 ^ 63"
    using inspectBytes_verdict [OF assms, of bytes cpu path i] that by auto
  then show ?thesis
    using Some
    by (auto simp: inspectTry_def st_bind_def file_size_def sys_call_def stream_read_def tick_def unat_max_word
        split: option.split)
qed

lemma inspect_verdict:
  assumes "gmp_library g"
  shows "\<exists>v s'. CheckpointFileInspector_inspect env cpu g path i s = (Inr v, s') \<and> os_disk s' = os_disk s
    \<and> (hasAcceptedFile v \<longrightarrow> (\<exists>bytes file. content (os_disk s) path = Some bytes \<and> length bytes < 2 ^ 63
         \<and> fi_file v = Some file \<and> file_describes cpu g path i bytes file))"
proof -
  obtain r s' where t: "inspectTry env cpu g path i s = (r, s')" "os_disk s' = os_disk s"
    "\<And>v. r = Inr v \<Longrightarrow> hasAcceptedFile v \<Longrightarrow> \<exists>bytes file. content (os_disk s) path = Some bytes
          \<and> length bytes < 2 ^ 63 \<and> fi_file v = Some file \<and> file_describes cpu g path i bytes file"
    using inspectTry_verdict [OF assms, of env cpu path i s] by blast
  show ?thesis
    using t by (cases r) (auto simp: CheckpointFileInspector_inspect_def)
qed

lemma inspect_accepts:
  assumes g: "gmp_library g" and reads: "reads_succeed env s" and bytes: "content (os_disk s) path = Some bytes" "length bytes < 2 ^ 63"
    and name: "\<not> is_temp_name (path_filename path)" "file_extension (path_filename path) = ''.checkpoint''"
    and b: "CheckpointBlockCodec_decode cpu g bytes = Inr b" "block_identity b = i"
      "loc_treeLevel (block_location b) \<le> treeHeight (id_termCount i)"
  shows "\<exists>v s'. CheckpointFileInspector_inspect env cpu g path i s = (Inr v, s') \<and> hasAcceptedFile v"
proof -
  obtain v where "inspectBytes cpu g path i bytes = Inr v" "hasAcceptedFile v"
    using inspectBytes_verdict [OF g, of bytes cpu path i] bytes(2) b by auto
  moreover have "\<not> (length bytes > unat (- 1 :: size_t) \<or> length bytes > unat (- 1 :: u64) \<or> length bytes > 2 ^ 63 - 1)"
    using bytes(2) by (simp add: unat_max_word)
  ultimately show ?thesis
    using reads bytes(1) name
    by (simp add: CheckpointFileInspector_inspect_def inspectTry_def reads_succeed_def st_bind_def file_size_def
        stream_read_def sys_call_def tick_def)
qed

lemma file_extension_checkpoint: "file_extension (c # xs @ ''.checkpoint'') = ''.checkpoint''"
  by (simp add: file_extension_def)

lemma blockName_extension: "file_extension (blockName i l) = ''.checkpoint''"
proof -
  have "\<exists>c xs. blockName i l = c # xs @ ''.checkpoint''"
    unfolding blockName_def identityName_def append_assoc [symmetric] by simp
  then show ?thesis
    using file_extension_checkpoint by auto
qed

end
