(* ===== verification/Checkpoint_Quarantine.thy ===== *)
theory Checkpoint_Quarantine
  imports Checkpoint_Store Checkpoint_Validation
begin

text \<open>
  Moving a rejected file out of the way (src/src/checkpoint/CheckpointQuarantine.cpp): a diagnostic
  record is committed first, then the file is renamed to a fresh name in the quarantine directory.
\<close>

section \<open>Operations\<close>

record QuarantineOutcome =
  out_operation :: ValidationResult
  out_quarantinedPath :: "path option"
  out_diagnosticPath :: "path option"

definition quarantine_failure :: "string \<Rightarrow> ValidationResult result" where
  "quarantine_failure detail =
     ValidationResult_rejected_one \<lparr>diag_stage = Stage_quarantine, diag_reason = Reason_quarantineFailed, diag_detail = detail\<rparr>"

definition oneLine :: "string \<Rightarrow> string" where
  "oneLine value = map (\<lambda>c. if c = CHR 0x0A \<or> c = CHR 0x0D then CHR '' '' else c) value"

text \<open>\<open>path::string\<close>.\<close>

definition path_string :: "path \<Rightarrow> string" where
  "path_string p = (if parent_path p = [] then path_filename p else parent_path p @ ''/'' @ path_filename p)"

text \<open>The sync and the close are both carried out before their results are looked at.\<close>

definition syncDirectory :: "os_env \<Rightarrow> string \<Rightarrow> (os, unit) action" where
  "syncDirectory env directory =
     st_bind (sys_checked ''open quarantine directory'' (sys_call env (\<lambda>d. d))) (\<lambda>_ s.
     case sys_call env (disk_sync_dir directory) s of
       (syncError, s1) \<Rightarrow> (case sys_call env (\<lambda>d. d) s1 of
         (closeError, s2) \<Rightarrow>
           (if syncError \<noteq> None then Inl (System_error ''sync quarantine directory'')
            else if closeError \<noteq> None then Inl (System_error ''close quarantine directory'') else Inr (), s2)))"

primrec uniqueLoop :: "nat \<Rightarrow> os_env \<Rightarrow> string \<Rightarrow> path \<Rightarrow> RejectionReason \<Rightarrow> (os, path) action" where
  "uniqueLoop 0 env directory source reason =
     st_throw (Runtime_error ''Unable to allocate a unique quarantine path'')"
| "uniqueLoop (Suc attempts) env directory source reason = (\<lambda>s.
     let sequence = os_quarantineSequence s;
         s = s\<lparr>os_quarantineSequence := sequence + 1\<rparr>;
         candidate = Path directory (path_filename source @ ''.rejected.'' @ toString_reason reason @ ''.''
           @ dec_string (env_pid env) @ ''.'' @ dec_string (unat sequence))
     in st_bind (fs_exists env candidate) (\<lambda>taken.
        if \<not> taken then st_return candidate else uniqueLoop attempts env directory source reason) s)"

definition uniqueDestination :: "os_env \<Rightarrow> string \<Rightarrow> path \<Rightarrow> RejectionReason \<Rightarrow> (os, path) action" where
  "uniqueDestination env directory source reason = uniqueLoop 128 env directory source reason"

record CheckpointQuarantine =
  quarantine_directory :: string

definition CheckpointQuarantine_create :: "string \<Rightarrow> CheckpointQuarantine result" where
  "CheckpointQuarantine_create directory =
     res_bind (throw_if (directory = []) (Invalid_argument ''Quarantine directory must not be empty'')) (\<lambda>_.
     Inr \<lparr>quarantine_directory = directory\<rparr>)"

definition quarantineRecord :: "path \<Rightarrow> ValidationDiagnostic \<Rightarrow> string" where
  "quarantineRecord source primary =
     ''original='' @ oneLine (path_string source) @ [CHR 0x0A]
     @ ''stage='' @ toString_stage (diag_stage primary) @ [CHR 0x0A]
     @ ''reason='' @ toString_reason (diag_reason primary) @ [CHR 0x0A]
     @ ''detail='' @ oneLine (diag_detail primary) @ [CHR 0x0A]"

text \<open>The \<open>try\<close> block up to \<open>moved = true\<close>, and after it.\<close>

definition quarantineMove ::
  "os_env \<Rightarrow> CheckpointQuarantine \<Rightarrow> path \<Rightarrow> ValidationDiagnostic \<Rightarrow> (os, path \<times> path) paction" where
  "quarantineMove env q source primary =
     p_bind (p_lift (create_directories env)) (\<lambda>_.
     p_bind (p_lift (uniqueDestination env (quarantine_directory q) source (diag_reason primary))) (\<lambda>destination.
     let diagnostic = Path (parent_path destination) (path_filename destination @ ''.reason'') in
     p_bind (AtomicFileCommit_write env None diagnostic (string_bytes (quarantineRecord source primary))) (\<lambda>_.
     p_lift (\<lambda>s. case sys_rename env source destination s of
         (None, s') \<Rightarrow> (Inr (destination, diagnostic), s')
       | (Some e, s') \<Rightarrow> (Inl (System_error ''rename checkpoint to quarantine''),
                        snd (sys_call env (disk_unlink diagnostic) s'))))))"

definition quarantineSync :: "os_env \<Rightarrow> CheckpointQuarantine \<Rightarrow> path \<Rightarrow> (os, unit) action" where
  "quarantineSync env q source =
     (let sourceDirectory = (if parent_path source = [] then ''.'' else parent_path source) in
      st_bind (syncDirectory env sourceDirectory) (\<lambda>_.
      if sourceDirectory \<noteq> quarantine_directory q then syncDirectory env (quarantine_directory q) else st_return ()))"

definition quarantine :: "os_env \<Rightarrow> CheckpointQuarantine \<Rightarrow> path \<Rightarrow> ValidationResult \<Rightarrow> (os, QuarantineOutcome) paction" where
  "quarantine env q source rejection s =
     (if is_temp_name (path_filename source)
      then Some (res_bind (ValidationResult_ignored Reason_temporaryFile
             ''Temporary checkpoint file is ignored, not quarantined'')
             (\<lambda>v. Inr \<lparr>out_operation = v, out_quarantinedPath = None, out_diagnosticPath = None\<rparr>), s)
      else if \<not> isRejected rejection \<or> vr_diagnostics rejection = []
      then Some (res_bind (quarantine_failure ''Only a rejected checkpoint can be quarantined'')
             (\<lambda>v. Inr \<lparr>out_operation = v, out_quarantinedPath = None, out_diagnosticPath = None\<rparr>), s)
      else case quarantineMove env q source (hd (vr_diagnostics rejection)) s of
             None \<Rightarrow> None
           | Some (Inl e, s') \<Rightarrow> Some (res_bind (quarantine_failure (what e))
               (\<lambda>v. Inr \<lparr>out_operation = v, out_quarantinedPath = None, out_diagnosticPath = None\<rparr>), s')
           | Some (Inr (destination, diagnostic), s') \<Rightarrow>
               (case quarantineSync env q source s' of
                  (Inl e, s2) \<Rightarrow> Some (res_bind (quarantine_failure (what e))
                    (\<lambda>v. Inr \<lparr>out_operation = v, out_quarantinedPath = Some destination, out_diagnosticPath = Some diagnostic\<rparr>), s2)
                | (Inr _, s2) \<Rightarrow> Some (res_bind ValidationResult_accepted
                    (\<lambda>v. Inr \<lparr>out_operation = v, out_quarantinedPath = Some destination, out_diagnosticPath = Some diagnostic\<rparr>), s2)))"

section \<open>What a quarantine may touch\<close>

definition starts_with :: "string \<Rightarrow> string \<Rightarrow> bool" where
  "starts_with pre s \<longleftrightarrow> take (length pre) s = pre"

definition quarantine_writes :: "path \<Rightarrow> path \<Rightarrow> u8 list option set" where
  "quarantine_writes source p =
     (if p = source then {None} else if starts_with (path_filename source @ ''.rejected.'') (path_filename p) then UNIV else {})"

lemma starts_with_iff: "starts_with pre s \<longleftrightarrow> (\<exists>t. s = pre @ t)"
  unfolding starts_with_def by (metis append_eq_conv_conj append_take_drop_id)

lemma fs_exists_post:
  "(\<And>e s'. s' = tick s (os_disk s) \<Longrightarrow> Q (Inl e) s') \<Longrightarrow> (\<And>b s'. s' = tick s (os_disk s) \<Longrightarrow> Q (Inr b) s') \<Longrightarrow>
   st_post (fs_exists env p) s Q"
  by (auto simp: st_post_def fs_exists_def sys_call_def split: option.split)

lemma uniqueLoop_post:
  assumes "traced (evolves d0 F) s0 s"
  shows "st_post (uniqueLoop n env dir source reason) s (\<lambda>r s'. traced (evolves d0 F) s0 s'
    \<and> (\<forall>p. r = Inr p \<longrightarrow> starts_with (path_filename source @ ''.rejected.'') (path_filename p)))"
  using assms
proof (induction n arbitrary: s)
  case 0
  then show ?case by (simp add: st_post_def)
next
  case (Suc n)
  let ?s = "s\<lparr>os_quarantineSequence := os_quarantineSequence s + 1\<rparr>"
  have s: "traced (evolves d0 F) s0 ?s"
    using Suc.prems by (simp add: traced_def)
  then have "traced (evolves d0 F) s0 (tick ?s (os_disk ?s))"
    by (intro traced_tick traced_disk [OF s])
  then show ?case
    unfolding uniqueLoop.simps Let_def st_post_def
    using Suc.IH [of "tick ?s (os_disk ?s)"]
    by (auto simp: st_bind_def fs_exists_def sys_call_def starts_with_def st_post_def split: option.split if_splits)
qed

lemma call_step:
  assumes "traced (evolves d0 F) s0 s" and "\<And>d. disk_ok d \<Longrightarrow> evolves d F (f d)"
  shows "traced (evolves d0 F) s0 (snd (sys_call env f s))"
proof -
  have "disk_ok (os_disk s)"
    using evolves_ok traced_disk [OF assms(1)] by blast
  then show ?thesis
    using traced_evolves_step [OF assms(1)] assms(2) [of "os_disk s"] evolves_refl [of "os_disk s"]
    by (auto simp: sys_call_def split: option.split)
qed

lemma syncDirectory_post:
  assumes "traced (evolves d0 F) s0 s"
  shows "traced (evolves d0 F) s0 (snd (syncDirectory env dir s))"
proof -
  have id: "disk_ok d \<Longrightarrow> evolves d F d" for d
    by (rule evolves_refl)
  have first: "traced (evolves d0 F) s0 (snd (sys_call env (\<lambda>d. d) s))"
    using assms by (rule call_step) (rule id)
  have "traced (evolves d0 F) s0 (snd (sys_call env (\<lambda>d. d) (snd (sys_call env (disk_sync_dir dir) s'))))"
    if "traced (evolves d0 F) s0 s'" for s'
    by (rule call_step, rule call_step [OF that]) (simp_all add: evolves_sync_dir evolves_refl)
  from this [OF first] show ?thesis
    using first
    by (auto simp: syncDirectory_def st_bind_def sys_checked_def case_prod_unfold split: option.split)
qed

lemma quarantineSync_post:
  "traced (evolves d0 F) s0 s \<Longrightarrow> traced (evolves d0 F) s0 (snd (quarantineSync env q source s))"
proof -
  assume tr: "traced (evolves d0 F) s0 s"
  let ?d = "if parent_path source = [] then ''.'' else parent_path source"
  have one: "traced (evolves d0 F) s0 (snd (syncDirectory env ?d s))"
    using tr by (rule syncDirectory_post)
  moreover have "traced (evolves d0 F) s0 (snd (syncDirectory env (quarantine_directory q) (snd (syncDirectory env ?d s))))"
    using one by (rule syncDirectory_post)
  ultimately show ?thesis
    by (auto simp: quarantineSync_def Let_def st_bind_def case_prod_unfold split: sum.split)
qed

lemma quarantine_writes_commit:
  assumes "starts_with (path_filename source @ ''.rejected.'') (path_filename p)"
  shows "writes (Path (parent_path p) (path_filename p @ ''.reason'')) c r \<subseteq> quarantine_writes source r"
    and "(if r = source then {None} else if r = p then UNIV else {}) \<subseteq> quarantine_writes source r"
proof -
  obtain t where t: "path_filename p = (path_filename source @ ''.rejected.'') @ t"
    using assms by (auto simp: starts_with_iff)
  then have "starts_with (path_filename source @ ''.rejected.'') (path_filename p @ ''.reason'')"
    unfolding starts_with_iff by simp
  moreover have "source \<noteq> Path (parent_path p) (path_filename p @ ''.reason'')"
  proof
    assume "source = Path (parent_path p) (path_filename p @ ''.reason'')"
    then have "path_filename source = path_filename p @ ''.reason''"
      by (metis path.sel(2))
    then show False
      unfolding t by simp
  qed
  ultimately show "writes (Path (parent_path p) (path_filename p @ ''.reason'')) c r \<subseteq> quarantine_writes source r"
    by (auto simp: writes_def quarantine_writes_def)
  show "(if r = source then {None} else if r = p then UNIV else {}) \<subseteq> quarantine_writes source r"
    using assms by (auto simp: quarantine_writes_def)
qed

lemma quarantineMove_post:
  assumes ok: "disk_ok (os_disk s)" and ie: "interrupts_end env"
  shows "p_post (quarantineMove env q source primary) s (\<lambda>r s'. traced (evolves (os_disk s) (quarantine_writes source)) s s')"
proof -
  let ?J = "evolves (os_disk s) (quarantine_writes source)"
  let ?rename = "\<lambda>destination diagnostic s. case sys_rename env source destination s of
      (None, s') \<Rightarrow> (Inr (destination, diagnostic), s')
    | (Some e, s') \<Rightarrow> (Inl (System_error ''rename checkpoint to quarantine''), snd (sys_call env (disk_unlink diagnostic) s'))"
  have start: "traced ?J s s"
    using ok by (simp add: traced_here evolves_refl)
  have rename: "st_post (?rename dest (Path (parent_path dest) (path_filename dest @ ''.reason''))) s' (\<lambda>r s''. traced ?J s s'')"
    if tr: "traced ?J s s'" and dest: "starts_with (path_filename source @ ''.rejected.'') (path_filename dest)" for s' dest
  proof -
    have moved: "evolves d (quarantine_writes source) (disk_rename source dest d)" if "disk_ok d" for d
      using evolves_rename [OF that, of source dest] quarantine_writes_commit(2) [OF dest] by (rule evolves_mono)
    have removed: "evolves d (quarantine_writes source) (disk_unlink (Path (parent_path dest) (path_filename dest @ ''.reason'')) d)"
      if "disk_ok d" for d
      using evolves_unlink [OF that] quarantine_writes_commit(1) [OF dest] by (rule evolves_mono)
    have stay: "traced ?J s (tick s' (os_disk s'))"
      using tr traced_disk [OF tr] by (rule traced_tick)
    have call: "traced ?J s (snd (sys_call env (disk_rename source dest) s'))"
      using tr moved by (rule call_step)
    have "traced ?J s (snd (sys_rename env source dest s'))"
      using stay call by (simp add: sys_rename_def)
    moreover from this have "traced ?J s (snd (sys_call env (disk_unlink (Path (parent_path dest) (path_filename dest @ ''.reason'')))
        (snd (sys_rename env source dest s'))))"
      using removed by (rule call_step)
    ultimately show ?thesis
      by (auto simp: st_post_def case_prod_unfold split: option.split)
  qed
  have commit: "p_post (p_bind (AtomicFileCommit_write env None (Path (parent_path dest) (path_filename dest @ ''.reason'')) bytes)
      (\<lambda>_. p_lift (?rename dest (Path (parent_path dest) (path_filename dest @ ''.reason''))))) s' (\<lambda>r s''. traced ?J s s'')"
    if tr: "traced ?J s s'" and dest: "starts_with (path_filename source @ ''.rejected.'') (path_filename dest)" for s' dest bytes
    unfolding p_post_bind p_post_lift
  proof (rule p_post_mono [OF write_evolves [OF evolves_ok [OF traced_disk [OF tr]] ie]])
    fix r :: "unit result" and s''
    assume "traced (evolves (os_disk s') (writes (Path (parent_path dest) (path_filename dest @ ''.reason'')) (Some bytes))) s' s''"
    then have "traced (evolves (os_disk s') (quarantine_writes source)) s' s''"
      by (rule traced_mono) (erule evolves_mono, rule quarantine_writes_commit(1) [OF dest])
    with tr have "traced ?J s s''"
      by (rule traced_evolves)
    then show "on_result (\<lambda>e. traced ?J s s'') (\<lambda>_. st_post (?rename dest (Path (parent_path dest) (path_filename dest @ ''.reason''))) s''
        (\<lambda>r s''. traced ?J s s'')) r"
      using rename [OF _ dest] by (cases r) simp_all
  qed
  have unique: "st_post (uniqueDestination env dir source reason) s' (\<lambda>r s''. on_result (\<lambda>e. traced ?J s s'') (\<lambda>dest.
      p_post (p_bind (AtomicFileCommit_write env None (Path (parent_path dest) (path_filename dest @ ''.reason'')) bytes)
        (\<lambda>_. p_lift (?rename dest (Path (parent_path dest) (path_filename dest @ ''.reason''))))) s'' (\<lambda>r s''. traced ?J s s'')) r)"
    if "traced ?J s s'" for s' dir reason bytes
    unfolding uniqueDestination_def
    by (rule st_post_mono [OF uniqueLoop_post [OF that]]) (auto simp del: p_post_bind intro: commit split: sum.split)
  show ?thesis
    unfolding quarantineMove_def Let_def p_post_bind [of "p_lift _"] p_post_lift
  proof (rule create_directories_post [OF ok])
    fix r :: "unit result" and s'
    assume "traced (\<lambda>d. d = os_disk s) s s'"
    then have J: "traced ?J s s'"
      by (rule traced_mono) (simp add: evolves_refl ok)
    note u = unique [OF J, of "quarantine_directory q" "diag_reason primary" "string_bytes (quarantineRecord source primary)"]
    show "on_result (\<lambda>e. traced ?J s s') (\<lambda>_. st_post (uniqueDestination env (quarantine_directory q) source (diag_reason primary)) s'
        (\<lambda>r s''. on_result (\<lambda>e. traced ?J s s'') (\<lambda>dest. p_post (p_bind (AtomicFileCommit_write env None
          (Path (parent_path dest) (path_filename dest @ ''.reason'')) (string_bytes (quarantineRecord source primary)))
          (\<lambda>_. p_lift (?rename dest (Path (parent_path dest) (path_filename dest @ ''.reason''))))) s'' (\<lambda>r s''. traced ?J s s'')) r)) r"
      by (cases r) (simp_all only: sum.case J u)
  qed
qed

text \<open>A quarantine always has an outcome; it touches the rejected file and files named after it.\<close>

lemma quarantine_post:
  assumes ok: "disk_ok (os_disk s)" and ie: "interrupts_end env"
  shows "p_post (quarantine env q source rejection) s
    (\<lambda>r s'. (\<exists>out. r = Inr out) \<and> traced (evolves (os_disk s) (quarantine_writes source)) s s')"
proof -
  let ?J = "evolves (os_disk s) (quarantine_writes source)"
  have start: "traced ?J s s"
    using ok by (simp add: traced_here evolves_refl)
  obtain r s' where m: "quarantineMove env q source (hd (vr_diagnostics rejection)) s = Some (r, s')" "traced ?J s s'"
    using p_postD [OF quarantineMove_post [OF ok ie]] by blast
  have "traced ?J s (snd (quarantineSync env q source s'))"
    using m(2) by (rule quarantineSync_post)
  then show ?thesis
    using start m
    by (auto simp: p_post_def quarantine_def quarantine_failure_def ValidationResult_ignored_def ValidationResult_make_def
        case_prod_unfold split: sum.split)
qed

end
