(* ===== verification/Resume_Planner.thy ===== *)
theory Resume_Planner
  imports Checkpoint_Inspection Checkpoint_Quarantine Manifest_Validator Modular_Verifier
begin

text \<open>
  The plan of a resumed run (src/src/checkpoint/CheckpointResumePlanner.cpp): which blocks are taken
  over, which ranges are computed again, what was rejected.  The order in which a directory is
  listed is the parameter \<open>ls\<close>; a directory that does not exist has no files.
\<close>

section \<open>Operations\<close>

record AcceptedCheckpoint =
  acc_path :: path
  acc_fileSize :: u64
  acc_block :: CheckpointBlock
  acc_manifestEntry :: ManifestEntry

record RejectedCheckpoint =
  rej_path :: path
  rej_validation :: ValidationResult
  rej_quarantinedPath :: "path option"
  rej_quarantineOperation :: "ValidationResult option"

record CheckpointResumePlan =
  acceptedBlocks :: "AcceptedCheckpoint list"
  rangesToRecalculate :: "MissingRange list"
  rejectedBlocks :: "RejectedCheckpoint list"
  ignoredTemporaryFiles :: "path list"
  plan_diagnostics :: "ValidationDiagnostic list"

definition planner_rejection :: "ValidationStage \<Rightarrow> RejectionReason \<Rightarrow> string \<Rightarrow> ValidationResult result" where
  "planner_rejection stage reason detail =
     ValidationResult_rejected_one \<lparr>diag_stage = stage, diag_reason = reason, diag_detail = detail\<rparr>"

fun complementLoop :: "u64 \<Rightarrow> u64 \<Rightarrow> BlockLocation list \<Rightarrow> MissingRange list" where
  "complementLoop terms cursor [] =
     (if cursor < terms then [\<lparr>missing_start = cursor, missing_end = terms\<rparr>] else [])"
| "complementLoop terms cursor (location # locations) =
     (if cursor < loc_start location then [\<lparr>missing_start = cursor, missing_end = loc_start location\<rparr>] else [])
     @ complementLoop terms (max cursor (loc_end location)) locations"

definition complement :: "AcceptedCheckpoint list \<Rightarrow> u64 \<Rightarrow> MissingRange list" where
  "complement accepted terms =
     complementLoop terms 0 (sort_key loc_start (map (\<lambda>a. block_location (acc_block a)) accepted))"

text \<open>The local variables of \<open>create\<close> that its lambda and loops change, and the operating system.\<close>

record planner_state =
  ps_plan :: CheckpointResumePlan
  ps_processed :: "path list"
  ps_os :: os

definition planner_os :: "(os, 'a) paction \<Rightarrow> (planner_state, 'a) paction" where
  "planner_os m s = map_option (\<lambda>(r, x). (r, s\<lparr>ps_os := x\<rparr>)) (m (ps_os s))"

definition planner_do :: "(planner_state \<Rightarrow> planner_state) \<Rightarrow> (planner_state, unit) paction" where
  "planner_do f s = Some (Inr (), f s)"

definition appendDiagnostics :: "ValidationResult \<Rightarrow> planner_state \<Rightarrow> planner_state" where
  "appendDiagnostics source s =
     s\<lparr>ps_plan := (ps_plan s)\<lparr>plan_diagnostics := plan_diagnostics (ps_plan s) @ vr_diagnostics source\<rparr>\<rparr>"

definition pushRejected :: "RejectedCheckpoint \<Rightarrow> planner_state \<Rightarrow> planner_state" where
  "pushRejected r s = s\<lparr>ps_plan := (ps_plan s)\<lparr>rejectedBlocks := rejectedBlocks (ps_plan s) @ [r]\<rparr>\<rparr>"

definition rejectFile ::
  "os_env \<Rightarrow> CheckpointQuarantine \<Rightarrow> path \<Rightarrow> ValidationResult \<Rightarrow> bool \<Rightarrow> (planner_state, unit) paction" where
  "rejectFile env q path validation mayQuarantine s =
     (if path \<in> set (ps_processed s) then Some (Inr (), s)
      else
        (let rejected = \<lparr>rej_path = path, rej_validation = validation, rej_quarantinedPath = None, rej_quarantineOperation = None\<rparr> in
         p_bind (if mayQuarantine then planner_os (p_lift (fs_exists env path)) else p_lift (st_return False)) (\<lambda>there.
         p_bind (if there then
             p_bind (planner_os (quarantine env q path validation)) (\<lambda>outcome.
             p_bind (planner_do (\<lambda>s. if \<not> isAccepted (out_operation outcome) then appendDiagnostics (out_operation outcome) s else s)) (\<lambda>_.
             p_lift (st_return (rejected\<lparr>rej_quarantinedPath := out_quarantinedPath outcome,
               rej_quarantineOperation := Some (out_operation outcome)\<rparr>))))
           else p_lift (st_return rejected)) (\<lambda>rejected.
         planner_do (\<lambda>s. pushRejected rejected (appendDiagnostics validation s)))))
        (s\<lparr>ps_processed := path # ps_processed s\<rparr>))"

fun rejectEntries ::
  "os_env \<Rightarrow> CheckpointQuarantine \<Rightarrow> string \<Rightarrow> CheckpointManifestValidation \<Rightarrow> ManifestEntry list \<Rightarrow> (planner_state, unit) paction" where
  "rejectEntries env q dir mv [] = p_lift (st_return ())"
| "rejectEntries env q dir mv (entry # entries) =
     p_bind (if entry \<in> set (mv_acceptedEntries mv) then p_lift (st_return ())
             else rejectFile env q (Path dir (entry_filename entry)) (mv_validation mv) True)
       (\<lambda>_. rejectEntries env q dir mv entries)"

text \<open>One accepted manifest entry: inspect the file, compare it, check it modulo the primes.\<close>

definition examineEntry ::
  "os_env \<Rightarrow> sse42 option \<Rightarrow> gmp \<Rightarrow> CheckpointQuarantine \<Rightarrow> string \<Rightarrow> ComputationIdentity \<Rightarrow> ManifestEntry \<Rightarrow> (planner_state, unit) paction" where
  "examineEntry env cpu g q dir expectedIdentity entry =
     (let path = Path dir (entry_filename entry) in
      p_bind (planner_os (p_lift (CheckpointFileInspector_inspect env cpu g path expectedIdentity))) (\<lambda>inspection.
      case fi_file inspection of
        None \<Rightarrow> rejectFile env q path (fi_validation inspection) True
      | Some file \<Rightarrow>
          if \<not> hasAcceptedFile inspection then rejectFile env q path (fi_validation inspection) True
          else
            p_bind (p_lift (st_lift (ManifestEntryValidator_validate entry file expectedIdentity))) (\<lambda>entryValidation.
            if \<not> isAccepted entryValidation then rejectFile env q path entryValidation True
            else
              p_bind (\<lambda>s. map_option (\<lambda>r. (r, s)) (ModularPQTVerifier_validate g (insp_block file))) (\<lambda>modular.
              if \<not> isAccepted modular then rejectFile env q path modular True
              else planner_do (\<lambda>s. s\<lparr>ps_plan := (ps_plan s)\<lparr>acceptedBlocks := acceptedBlocks (ps_plan s) @
                  [\<lparr>acc_path = path, acc_fileSize = insp_fileSize file, acc_block = insp_block file, acc_manifestEntry = entry\<rparr>]\<rparr>,
                ps_processed := path # ps_processed s\<rparr>)))))"

fun examineEntries ::
  "os_env \<Rightarrow> sse42 option \<Rightarrow> gmp \<Rightarrow> CheckpointQuarantine \<Rightarrow> string \<Rightarrow> ComputationIdentity \<Rightarrow> ManifestEntry list
   \<Rightarrow> (planner_state, unit) paction" where
  "examineEntries env cpu g q dir expectedIdentity [] = p_lift (st_return ())"
| "examineEntries env cpu g q dir expectedIdentity (entry # entries) =
     p_bind (examineEntry env cpu g q dir expectedIdentity entry) (\<lambda>_.
     examineEntries env cpu g q dir expectedIdentity entries)"

fun sweepCandidates ::
  "os_env \<Rightarrow> CheckpointQuarantine \<Rightarrow> string set \<Rightarrow> path list \<Rightarrow> (planner_state, unit) paction" where
  "sweepCandidates env q manifestFilenames [] = p_lift (st_return ())"
| "sweepCandidates env q manifestFilenames (path # paths) =
     p_bind (if is_temp_name (path_filename path)
       then planner_do (\<lambda>s. s\<lparr>ps_plan := (ps_plan s)\<lparr>ignoredTemporaryFiles := ignoredTemporaryFiles (ps_plan s) @ [path]\<rparr>\<rparr>)
       else if file_extension (path_filename path) = ''.checkpoint'' \<and> path_filename path \<notin> manifestFilenames
       then p_bind (p_lift (st_lift (planner_rejection Stage_manifest Reason_unexpectedBlockFile
              ''Checkpoint file is not a member of the manifest''))) (\<lambda>v. rejectFile env q path v True)
       else p_lift (st_return ())) (\<lambda>_.
     sweepCandidates env q manifestFilenames paths)"

text \<open>The manifest, or none with its diagnostic.\<close>

definition loadOrDiagnose ::
  "os_env \<Rightarrow> sse42 option \<Rightarrow> CheckpointStore \<Rightarrow> ComputationIdentity \<Rightarrow> os \<Rightarrow> (CheckpointManifest \<times> bool \<times> ValidationDiagnostic list) \<times> os" where
  "loadOrDiagnose env cpu store expectedIdentity s =
     (case loadManifest env cpu store expectedIdentity s of
        (Inr manifest, s') \<Rightarrow> ((manifest, True, []), s')
      | (Inl e, s') \<Rightarrow> ((\<lparr>man_identity = expectedIdentity, man_entries = []\<rparr>, False,
          [\<lparr>diag_stage = Stage_manifest, diag_reason = Reason_invalidManifest, diag_detail = what e\<rparr>]), s'))"

record CheckpointResumePlanner =
  planner_checkpointDirectory :: string
  planner_quarantineDirectory :: string

definition CheckpointResumePlanner_create :: "string \<Rightarrow> string \<Rightarrow> CheckpointResumePlanner result" where
  "CheckpointResumePlanner_create checkpointDirectory quarantineDirectory =
     res_bind (throw_if (checkpointDirectory = [] \<or> quarantineDirectory = [])
       (Invalid_argument ''Resume planner directories must not be empty'')) (\<lambda>_.
     Inr \<lparr>planner_checkpointDirectory = checkpointDirectory, planner_quarantineDirectory = quarantineDirectory\<rparr>)"

text \<open>The three loops over the manifest and the directory.\<close>

definition planLoops ::
  "os_env \<Rightarrow> sse42 option \<Rightarrow> gmp \<Rightarrow> listing \<Rightarrow> CheckpointQuarantine \<Rightarrow> string \<Rightarrow> ComputationIdentity \<Rightarrow> CheckpointManifest \<Rightarrow> bool
   \<Rightarrow> CheckpointManifestValidation \<Rightarrow> (planner_state, unit) paction" where
  "planLoops env cpu g ls q dir expectedIdentity manifest manifestLoaded mv =
     p_bind (if manifestLoaded then
         p_bind (rejectEntries env q dir mv (man_entries manifest)) (\<lambda>_.
         examineEntries env cpu g q dir expectedIdentity (mv_acceptedEntries mv))
       else p_lift (st_return ())) (\<lambda>_.
     p_bind (planner_os (p_lift (sys_checked ''cannot list directory'' (sys_call env (\<lambda>d. d))))) (\<lambda>_ s.
     sweepCandidates env q (set (map entry_filename (man_entries manifest))) (ls (os_disk (ps_os s)) dir) s))"

definition planner_create_plan ::
  "os_env \<Rightarrow> sse42 option \<Rightarrow> gmp \<Rightarrow> listing \<Rightarrow> CheckpointResumePlanner \<Rightarrow> ComputationIdentity \<Rightarrow> (os, CheckpointResumePlan) paction" where
  "planner_create_plan env cpu g ls planner expectedIdentity =
     p_bind (p_lift (st_lift (CheckpointStore_create (planner_checkpointDirectory planner)))) (\<lambda>store.
     p_bind (p_lift (st_lift (CheckpointQuarantine_create (planner_quarantineDirectory planner)))) (\<lambda>q.
     p_bind (p_lift (\<lambda>s. case loadOrDiagnose env cpu store expectedIdentity s of (x, s') \<Rightarrow> (Inr x, s')))
       (\<lambda>(manifest, manifestLoaded, loadDiagnostics).
     p_bind (p_lift (st_lift (CheckpointManifestValidator_validate manifest expectedIdentity))) (\<lambda>mv x.
     case planLoops env cpu g ls q (planner_checkpointDirectory planner) expectedIdentity manifest manifestLoaded mv
            \<lparr>ps_plan = \<lparr>acceptedBlocks = [], rangesToRecalculate = [], rejectedBlocks = [], ignoredTemporaryFiles = [],
               plan_diagnostics = loadDiagnostics @ vr_diagnostics (mv_validation mv)\<rparr>, ps_processed = [], ps_os = x\<rparr> of
       None \<Rightarrow> None
     | Some (Inl e, s) \<Rightarrow> Some (Inl e, ps_os s)
     | Some (Inr _, s) \<Rightarrow>
         (let accepted = sort_key (\<lambda>a. loc_start (block_location (acc_block a))) (acceptedBlocks (ps_plan s)) in
          Some (Inr ((ps_plan s)\<lparr>acceptedBlocks := accepted,
            rangesToRecalculate := complement accepted (id_termCount expectedIdentity)\<rparr>), ps_os s))))))"

section \<open>Accepted blocks stay\<close>

lemma p_post_planner_os [simp]: "p_post (planner_os m) s Q = p_post m (ps_os s) (\<lambda>r x. Q r (s\<lparr>ps_os := x\<rparr>))"
  by (auto simp: p_post_def planner_os_def split: option.split)

lemma p_post_planner_do [simp]: "p_post (planner_do f) s Q = Q (Inr ()) (f s)"
  by (simp add: p_post_def planner_do_def)

lemma p_post_keep:
  "p_post m s (\<lambda>_. P) \<Longrightarrow> (\<And>x s'. P s' \<Longrightarrow> p_post (f x) s' (\<lambda>_. P)) \<Longrightarrow> p_post (p_bind m f) s (\<lambda>_. P)"
  unfolding p_post_bind by (erule p_post_mono) (simp split: sum.split)

text \<open>What it means for a block to be accepted: its file says so.\<close>

definition accepted_good :: "sse42 option \<Rightarrow> gmp \<Rightarrow> string \<Rightarrow> ComputationIdentity \<Rightarrow> disk \<Rightarrow> AcceptedCheckpoint \<Rightarrow> bool" where
  "accepted_good cpu g dir i d a \<longleftrightarrow> (\<exists>bytes file. content d (acc_path a) = Some bytes
     \<and> file_describes cpu g (acc_path a) i bytes file \<and> entry_matches (acc_manifestEntry a) file i
     \<and> acc_block a = insp_block file \<and> acc_fileSize a = insp_fileSize file
     \<and> acc_path a = Path dir (entry_filename (acc_manifestEntry a)) \<and> agrees_mod prime_product (acc_block a))"

definition plan_inv ::
  "sse42 option \<Rightarrow> gmp \<Rightarrow> string \<Rightarrow> ComputationIdentity \<Rightarrow> ManifestEntry list \<Rightarrow> planner_state \<Rightarrow> bool" where
  "plan_inv cpu g dir i rest s \<longleftrightarrow> disk_ok (os_disk (ps_os s))
     \<and> (\<forall>a \<in> set (acceptedBlocks (ps_plan s)). accepted_good cpu g dir i (os_disk (ps_os s)) a \<and> acc_path a \<in> set (ps_processed s))
     \<and> entries_apart (map acc_manifestEntry (acceptedBlocks (ps_plan s)) @ rest)"

lemma blockName_dots: "count_list (blockName i l) CHR ''.'' = 1"
  by (simp add: blockName_def identityName_def)

lemma block_not_quarantined:
  assumes "path_filename p = blockName i l" and "p \<noteq> source"
  shows "quarantine_writes source p = {}"
proof -
  have "\<not> starts_with (path_filename source @ ''.rejected.'') (path_filename p)"
  proof
    assume "starts_with (path_filename source @ ''.rejected.'') (path_filename p)"
    then obtain t where "path_filename p = (path_filename source @ ''.rejected.'') @ t"
      by (auto simp: starts_with_iff)
    then have "2 \<le> count_list (path_filename p) CHR ''.''"
      by simp
    then show False
      using assms(1) blockName_dots by simp
  qed
  then show ?thesis
    using assms(2) by (simp add: quarantine_writes_def)
qed

lemma accepted_good_name: "accepted_good cpu g dir i d a \<Longrightarrow> path_filename (acc_path a) = blockName i (entry_location (acc_manifestEntry a))"
  by (auto simp: accepted_good_def entry_matches_def)

lemma accepted_good_evolves:
  assumes "accepted_good cpu g dir i d a" and "acc_path a \<noteq> source" and "evolves d (quarantine_writes source) d'"
  shows "accepted_good cpu g dir i d' a"
proof -
  note name = accepted_good_name [OF assms(1)]
  have "\<not> is_temp_name (path_filename (acc_path a))"
    using name store_names_not_temp by simp
  then have "content d' (acc_path a) \<in> insert (content d (acc_path a)) (quarantine_writes source (acc_path a))"
    using assms(3) unfolding evolves_def by blast
  then have "content d' (acc_path a) = content d (acc_path a)"
    using block_not_quarantined [OF name assms(2)] by simp
  then show ?thesis
    using assms(1) by (simp add: accepted_good_def)
qed

lemma plan_inv_os:
  assumes "plan_inv cpu g dir i rest s" and "os_disk x = os_disk (ps_os s)"
  shows "plan_inv cpu g dir i rest (s\<lparr>ps_os := x\<rparr>)"
  using assms by (simp add: plan_inv_def)

lemma plan_inv_quarantine:
  assumes "plan_inv cpu g dir i rest s" and "\<And>a. a \<in> set (acceptedBlocks (ps_plan s)) \<Longrightarrow> acc_path a \<noteq> source"
    and "evolves (os_disk (ps_os s)) (quarantine_writes source) (os_disk x)"
  shows "plan_inv cpu g dir i rest (s\<lparr>ps_os := x\<rparr>)"
  using assms accepted_good_evolves evolves_ok by (fastforce simp: plan_inv_def)

lemma plan_inv_notes [simp]:
  "plan_inv cpu g dir i rest (pushRejected r s) = plan_inv cpu g dir i rest s"
  "plan_inv cpu g dir i rest (appendDiagnostics v s) = plan_inv cpu g dir i rest s"
  by (simp_all add: plan_inv_def pushRejected_def appendDiagnostics_def)

lemma rejectFile_post:
  assumes inv: "plan_inv cpu g dir i rest s" and ie: "interrupts_end env"
  shows "p_post (rejectFile env q path v b) s (\<lambda>_. plan_inv cpu g dir i rest)"
proof (cases "path \<in> set (ps_processed s)")
  case True
  then show ?thesis
    using inv by (simp add: p_post_def rejectFile_def)
next
  case False
  let ?s = "s\<lparr>ps_processed := path # ps_processed s\<rparr>"
  have s: "plan_inv cpu g dir i rest ?s"
    using inv by (auto simp: plan_inv_def)
  have apart: "acc_path a \<noteq> path" if "a \<in> set (acceptedBlocks (ps_plan s))" for a
    using that inv False by (auto simp: plan_inv_def)
  have moved: "p_post (quarantine env q path v) x (\<lambda>r x'. (\<exists>out. r = Inr out) \<and> plan_inv cpu g dir i rest (?s\<lparr>ps_os := x'\<rparr>))"
    if "plan_inv cpu g dir i rest (?s\<lparr>ps_os := x\<rparr>)" for x
  proof (rule p_post_mono [OF quarantine_post [OF _ ie]])
    show "disk_ok (os_disk x)"
      using that by (simp add: plan_inv_def)
    fix r :: "QuarantineOutcome result" and x'
    assume "(\<exists>out. r = Inr out) \<and> traced (evolves (os_disk x) (quarantine_writes path)) x x'"
    then show "(\<exists>out. r = Inr out) \<and> plan_inv cpu g dir i rest (?s\<lparr>ps_os := x'\<rparr>)"
      using plan_inv_quarantine [OF that, of path x'] apart traced_disk by fastforce
  qed
  have stay: "plan_inv cpu g dir i rest (?s\<lparr>ps_os := tick (ps_os s) (os_disk (ps_os s))\<rparr>)"
    using s by (simp add: plan_inv_def)
  show ?thesis
  proof (cases b)
    case False
    then show ?thesis
      using s \<open>path \<notin> set (ps_processed s)\<close> by (simp add: p_post_def rejectFile_def Let_def p_bind_def planner_do_def)
  next
    case True
    let ?rest = "\<lambda>there. p_bind (if there then
             p_bind (planner_os (quarantine env q path v)) (\<lambda>outcome.
             p_bind (planner_do (\<lambda>s. if \<not> isAccepted (out_operation outcome) then appendDiagnostics (out_operation outcome) s else s)) (\<lambda>_.
             p_lift (st_return (\<lparr>rej_path = path, rej_validation = v, rej_quarantinedPath = None, rej_quarantineOperation = None\<rparr>
               \<lparr>rej_quarantinedPath := out_quarantinedPath outcome, rej_quarantineOperation := Some (out_operation outcome)\<rparr>))))
           else p_lift (st_return \<lparr>rej_path = path, rej_validation = v, rej_quarantinedPath = None, rej_quarantineOperation = None\<rparr>))
           (\<lambda>rejected. planner_do (\<lambda>s. pushRejected rejected (appendDiagnostics v s)))"
    have "p_post (?rest there) (?s\<lparr>ps_os := tick (ps_os s) (os_disk (ps_os s))\<rparr>) (\<lambda>_. plan_inv cpu g dir i rest)" for there
      using stay moved [OF stay] by (cases there) (auto elim!: p_post_mono)
    then have "p_post (p_bind (planner_os (p_lift (fs_exists env path))) ?rest) ?s (\<lambda>_. plan_inv cpu g dir i rest)"
      unfolding p_post_bind p_post_planner_os p_post_lift
      using stay by (intro fs_exists_post) simp_all
    then show ?thesis
      using True \<open>path \<notin> set (ps_processed s)\<close> by (simp add: p_post_def rejectFile_def Let_def)
  qed
qed

lemma rejectEntries_post:
  assumes ie: "interrupts_end env"
  shows "plan_inv cpu g dir i rest s \<Longrightarrow> p_post (rejectEntries env q d mv es) s (\<lambda>_. plan_inv cpu g dir i rest)"
proof (induction es arbitrary: s)
  case Nil
  then show ?case by (simp add: p_post_def)
next
  case (Cons e es)
  have "p_post (if e \<in> set (mv_acceptedEntries mv) then p_lift (st_return ())
      else rejectFile env q (Path d (entry_filename e)) (mv_validation mv) True) s (\<lambda>_. plan_inv cpu g dir i rest)"
    using Cons.prems rejectFile_post [OF _ ie] by (auto simp: p_post_def)
  then show ?case
    unfolding rejectEntries.simps by (rule p_post_keep) (rule Cons.IH)
qed

lemma sweepCandidates_post:
  assumes ie: "interrupts_end env"
  shows "plan_inv cpu g dir i rest s \<Longrightarrow> p_post (sweepCandidates env q names ps) s (\<lambda>_. plan_inv cpu g dir i rest)"
proof (induction ps arbitrary: s)
  case Nil
  then show ?case by (simp add: p_post_def)
next
  case (Cons p ps)
  have ignored: "plan_inv cpu g dir i rest
      (s\<lparr>ps_plan := (ps_plan s)\<lparr>ignoredTemporaryFiles := ignoredTemporaryFiles (ps_plan s) @ [p]\<rparr>\<rparr>)"
    using Cons.prems by (simp add: plan_inv_def)
  have "p_post (if is_temp_name (path_filename p)
       then planner_do (\<lambda>s. s\<lparr>ps_plan := (ps_plan s)\<lparr>ignoredTemporaryFiles := ignoredTemporaryFiles (ps_plan s) @ [p]\<rparr>\<rparr>)
       else if file_extension (path_filename p) = ''.checkpoint'' \<and> path_filename p \<notin> names
       then p_bind (p_lift (st_lift (planner_rejection Stage_manifest Reason_unexpectedBlockFile
              ''Checkpoint file is not a member of the manifest''))) (\<lambda>v. rejectFile env q p v True)
       else p_lift (st_return ())) s (\<lambda>_. plan_inv cpu g dir i rest)"
    using Cons.prems ignored rejectFile_post [OF Cons.prems ie] by (simp add: planner_rejection_def p_post_def [of "p_lift _"])
  then show ?case
    unfolding sweepCandidates.simps by (rule p_post_keep) (rule Cons.IH)
qed

lemma plan_inv_drop: "plan_inv cpu g dir i (e # rest) s \<Longrightarrow> plan_inv cpu g dir i rest s"
  by (simp add: plan_inv_def sorted_wrt_append)

lemma plan_inv_accept:
  assumes "plan_inv cpu g dir i (e # rest) s" and "content (os_disk (ps_os s)) p = Some bytes" and "p = Path dir (entry_filename e)"
    and "file_describes cpu g p i bytes file" and "entry_matches e file i" and "agrees_mod prime_product (insp_block file)"
  shows "plan_inv cpu g dir i rest (s\<lparr>ps_plan := (ps_plan s)\<lparr>acceptedBlocks := acceptedBlocks (ps_plan s) @
      [\<lparr>acc_path = p, acc_fileSize = insp_fileSize file, acc_block = insp_block file, acc_manifestEntry = e\<rparr>]\<rparr>,
    ps_processed := p # ps_processed s\<rparr>)"
  using assms by (auto simp: plan_inv_def accepted_good_def)

lemma examineEntry_post:
  assumes g: "gmp_library g" and ie: "interrupts_end env" and inv: "plan_inv cpu g dir i (e # rest) s"
  shows "p_post (examineEntry env cpu g q dir i e) s (\<lambda>_. plan_inv cpu g dir i rest)"
proof -
  let ?p = "Path dir (entry_filename e)"
  obtain v x where v: "CheckpointFileInspector_inspect env cpu g ?p i (ps_os s) = (Inr v, x)" "os_disk x = os_disk (ps_os s)"
    "hasAcceptedFile v \<Longrightarrow> \<exists>bytes file. content (os_disk (ps_os s)) ?p = Some bytes \<and> length bytes < 2 ^ 63
         \<and> fi_file v = Some file \<and> file_describes cpu g ?p i bytes file"
    using inspect_verdict [OF g, of env cpu ?p i "ps_os s"] by blast
  let ?s = "s\<lparr>ps_os := x\<rparr>"
  have s: "plan_inv cpu g dir i (e # rest) ?s"
    using inv v(2) by (rule plan_inv_os)
  have rej: "p_post (rejectFile env q ?p w True) ?s (\<lambda>_. plan_inv cpu g dir i rest)" for w
    using plan_inv_drop [OF s] ie by (rule rejectFile_post)
  have step: "p_post (examineEntry env cpu g q dir i e) s Q = p_post (case fi_file v of
        None \<Rightarrow> rejectFile env q ?p (fi_validation v) True
      | Some file \<Rightarrow>
          if \<not> hasAcceptedFile v then rejectFile env q ?p (fi_validation v) True
          else
            p_bind (p_lift (st_lift (ManifestEntryValidator_validate e file i))) (\<lambda>entryValidation.
            if \<not> isAccepted entryValidation then rejectFile env q ?p entryValidation True
            else
              p_bind (\<lambda>s. map_option (\<lambda>r. (r, s)) (ModularPQTVerifier_validate g (insp_block file))) (\<lambda>modular.
              if \<not> isAccepted modular then rejectFile env q ?p modular True
              else planner_do (\<lambda>s. s\<lparr>ps_plan := (ps_plan s)\<lparr>acceptedBlocks := acceptedBlocks (ps_plan s) @
                  [\<lparr>acc_path = ?p, acc_fileSize = insp_fileSize file, acc_block = insp_block file, acc_manifestEntry = e\<rparr>]\<rparr>,
                ps_processed := ?p # ps_processed s\<rparr>)))) ?s Q" for Q
    unfolding examineEntry_def Let_def using v(1) by (simp add: st_post_def)
  show ?thesis
  proof (cases "hasAcceptedFile v")
    case False
    then show ?thesis
      unfolding step using rej by (cases "fi_file v") simp_all
  next
    case True
    then obtain bytes fl where f: "content (os_disk (ps_os s)) ?p = Some bytes" "fi_file v = Some fl"
      "file_describes cpu g ?p i bytes fl"
      using v(3) by blast
    obtain ev where ev: "ManifestEntryValidator_validate e fl i = Inr ev" "isAccepted ev \<longleftrightarrow> entry_matches e fl i"
      using ManifestEntryValidator_verdict by blast
    obtain mr where mr: "ModularPQTVerifier_validate g (insp_block fl) = Some (Inr mr)"
      "isAccepted mr \<Longrightarrow> agrees_mod prime_product (insp_block fl)"
      using modular_verifier_accepts [OF g, of "insp_block fl"] by blast
    have "plan_inv cpu g dir i rest (?s\<lparr>ps_plan := (ps_plan ?s)\<lparr>acceptedBlocks := acceptedBlocks (ps_plan ?s) @
        [\<lparr>acc_path = ?p, acc_fileSize = insp_fileSize fl, acc_block = insp_block fl, acc_manifestEntry = e\<rparr>]\<rparr>,
      ps_processed := ?p # ps_processed ?s\<rparr>)" if "isAccepted ev" "isAccepted mr"
      using that ev(2) mr(2) f v(2) by (intro plan_inv_accept [OF s]) simp_all
    then show ?thesis
      unfolding step f(2) option.case ev(1)
      using True rej mr(1) by (simp add: p_post_def p_bind_def planner_do_def)
  qed
qed

lemma examineEntries_post:
  assumes g: "gmp_library g" and ie: "interrupts_end env"
  shows "plan_inv cpu g dir i es s \<Longrightarrow> p_post (examineEntries env cpu g q dir i es) s (\<lambda>_. plan_inv cpu g dir i [])"
proof (induction es arbitrary: s)
  case Nil
  then show ?case by (simp add: p_post_def)
next
  case (Cons e es)
  have drop: "plan_inv cpu g dir i [] s'" if "plan_inv cpu g dir i es s'" for s'
    using that by (simp add: plan_inv_def sorted_wrt_append)
  show ?case
    unfolding examineEntries.simps p_post_bind
    by (rule p_post_mono [OF examineEntry_post [OF g ie Cons.prems]]) (auto split: sum.split intro: drop Cons.IH)
qed

lemma planLoops_post:
  assumes g: "gmp_library g" and ie: "interrupts_end env" and inv: "plan_inv cpu g dir i (mv_acceptedEntries mv) s"
  shows "p_post (planLoops env cpu g ls q dir i m loaded mv) s (\<lambda>_. plan_inv cpu g dir i [])"
proof -
  let ?first = "if loaded then p_bind (rejectEntries env q dir mv (man_entries m)) (\<lambda>_.
         examineEntries env cpu g q dir i (mv_acceptedEntries mv)) else p_lift (st_return ())"
  have drop: "plan_inv cpu g dir i [] s'" if "plan_inv cpu g dir i (mv_acceptedEntries mv) s'" for s'
    using that by (simp add: plan_inv_def sorted_wrt_append)
  have "p_post (p_bind (rejectEntries env q dir mv (man_entries m)) (\<lambda>_.
         examineEntries env cpu g q dir i (mv_acceptedEntries mv))) s (\<lambda>_. plan_inv cpu g dir i [])"
    unfolding p_post_bind
    by (rule p_post_mono [OF rejectEntries_post [OF ie inv]]) (auto split: sum.split intro: drop examineEntries_post [OF g ie])
  then have "p_post ?first s (\<lambda>_. plan_inv cpu g dir i [])"
    using drop [OF inv] by (simp add: p_post_def split: option.split)
  then show ?thesis
    unfolding planLoops_def
  proof (rule p_post_keep)
    fix x :: unit and s'
    assume s': "plan_inv cpu g dir i [] s'"
    show "p_post (p_bind (planner_os (p_lift (sys_checked ''cannot list directory'' (sys_call env (\<lambda>d. d))))) (\<lambda>_ s.
        sweepCandidates env q (set (map entry_filename (man_entries m))) (ls (os_disk (ps_os s)) dir) s)) s' (\<lambda>_. plan_inv cpu g dir i [])"
    proof (rule p_post_keep)
      show "p_post (planner_os (p_lift (sys_checked ''cannot list directory'' (sys_call env (\<lambda>d. d))))) s' (\<lambda>_. plan_inv cpu g dir i [])"
        unfolding p_post_planner_os p_post_lift by (rule st_post_checked) (simp_all add: plan_inv_os [OF s'])
      show "p_post (\<lambda>s. sweepCandidates env q (set (map entry_filename (man_entries m))) (ls (os_disk (ps_os s)) dir) s) s''
          (\<lambda>_. plan_inv cpu g dir i [])" if "plan_inv cpu g dir i [] s''" for s''
        using sweepCandidates_post [OF ie that] by (simp add: p_post_def)
    qed
  qed
qed

section \<open>The ranges to recalculate\<close>

abbreviation acc_location :: "AcceptedCheckpoint \<Rightarrow> BlockLocation" where
  "acc_location a \<equiv> block_location (acc_block a)"

lemma complementLoop_missing:
  "entries_apart es \<Longrightarrow> \<forall>e \<in> set es. cursor \<le> e_start e \<and> e_start e < e_end e \<Longrightarrow>
   complementLoop terms cursor (map entry_location es) = missingLoop terms cursor es"
proof (induction es arbitrary: cursor)
  case (Cons e es)
  have "cursor \<le> e_end e"
    using Cons.prems(2) by (auto intro: order.trans less_imp_le)
  then show ?case
    using Cons by (simp add: max_absorb2)
qed simp

lemma apart_starts: "entries_apart es \<Longrightarrow> \<forall>e \<in> set es. e_start e < e_end e \<Longrightarrow> sorted (map e_start es)"
  by (induction es) (auto intro: less_imp_le order.trans)

lemma complement_missing:
  assumes apart: "entries_apart (map acc_manifestEntry acc)"
    and loc: "\<And>a. a \<in> set acc \<Longrightarrow> acc_location a = entry_location (acc_manifestEntry a)"
    and ranges: "\<forall>e \<in> set (map acc_manifestEntry acc). e_start e < e_end e"
  shows "sort_key (\<lambda>a. loc_start (acc_location a)) acc = acc"
    and "complement acc terms = missingLoop terms 0 (map acc_manifestEntry acc)"
proof -
  let ?es = "map acc_manifestEntry acc"
  have starts: "sorted (map e_start ?es)"
    using apart_starts [OF apart ranges] .
  moreover have "map (\<lambda>a. loc_start (acc_location a)) acc = map e_start ?es"
    using loc by simp
  ultimately show "sort_key (\<lambda>a. loc_start (acc_location a)) acc = acc"
    by (intro sort_key_id_if_sorted) (simp only:)
  have locs: "map acc_location acc = map entry_location ?es"
    using loc by simp
  have "sorted (map loc_start (map entry_location ?es))"
    using starts by (simp add: comp_def)
  then have "complement acc terms = complementLoop terms 0 (map entry_location ?es)"
    unfolding complement_def locs by (subst sort_key_id_if_sorted) simp_all
  also have "\<dots> = missingLoop terms 0 ?es"
    using apart ranges by (intro complementLoop_missing) auto
  finally show "complement acc terms = missingLoop terms 0 ?es" .
qed

definition plan_good :: "sse42 option \<Rightarrow> gmp \<Rightarrow> string \<Rightarrow> ComputationIdentity \<Rightarrow> disk \<Rightarrow> CheckpointResumePlan \<Rightarrow> bool" where
  "plan_good cpu g dir i d plan \<longleftrightarrow> (\<forall>a \<in> set (acceptedBlocks plan). accepted_good cpu g dir i d a)
     \<and> sorted_wrt (\<lambda>a b. loc_end (acc_location a) \<le> loc_start (acc_location b)) (acceptedBlocks plan)
     \<and> (\<forall>t. (\<exists>gap \<in> set (rangesToRecalculate plan). gap_covers gap t) \<longleftrightarrow> t < id_termCount i
          \<and> \<not> (\<exists>a \<in> set (acceptedBlocks plan). loc_start (acc_location a) \<le> t \<and> t < loc_end (acc_location a)))"

lemma plan_inv_good:
  assumes "plan_inv cpu g dir i [] s"
  shows "plan_good cpu g dir i (os_disk (ps_os s)) ((ps_plan s)\<lparr>
      acceptedBlocks := sort_key (\<lambda>a. loc_start (acc_location a)) (acceptedBlocks (ps_plan s)),
      rangesToRecalculate := complement (sort_key (\<lambda>a. loc_start (acc_location a)) (acceptedBlocks (ps_plan s))) (id_termCount i)\<rparr>)"
proof -
  let ?acc = "acceptedBlocks (ps_plan s)" and ?es = "map acc_manifestEntry (acceptedBlocks (ps_plan s))"
  have good: "accepted_good cpu g dir i (os_disk (ps_os s)) a" if "a \<in> set ?acc" for a
    using that assms by (simp add: plan_inv_def)
  have loc: "acc_location a = entry_location (acc_manifestEntry a)"
    "BlockLocation_validate (entry_location (acc_manifestEntry a)) i = Inr ()" if "a \<in> set ?acc" for a
    using good [OF that] by (auto simp: accepted_good_def entry_matches_def)
  have apart: "entries_apart ?es"
    using assms by (simp add: plan_inv_def)
  have ranges: "\<forall>e \<in> set ?es. 0 \<le> e_start e \<and> e_start e < e_end e \<and> e_end e \<le> id_termCount i"
    using loc(2) by (auto simp: BlockLocation_validate_Inr)
  have valid: "\<forall>e \<in> set ?es. e_start e < e_end e"
    using ranges by blast
  have sorted_acc: "sort_key (\<lambda>a. loc_start (acc_location a)) ?acc = ?acc"
    by (rule complement_missing(1) [OF apart _ valid]) (rule loc(1))
  have gaps: "complement ?acc (id_termCount i) = missingLoop (id_termCount i) 0 ?es"
    by (rule complement_missing(2) [OF apart _ valid]) (rule loc(1))
  have "(\<exists>e \<in> set ?es. e_covers e t) \<longleftrightarrow> (\<exists>a \<in> set ?acc. loc_start (acc_location a) \<le> t \<and> t < loc_end (acc_location a))" for t
    using loc(1) by auto
  then have "(\<exists>gap \<in> set (complement ?acc (id_termCount i)). gap_covers gap t) \<longleftrightarrow> t < id_termCount i
      \<and> \<not> (\<exists>a \<in> set ?acc. loc_start (acc_location a) \<le> t \<and> t < loc_end (acc_location a))" for t
    unfolding gaps using missingLoop_covers [OF apart ranges] by simp
  moreover have "sorted_wrt (\<lambda>a b. loc_end (acc_location a) \<le> loc_start (acc_location b)) ?acc"
    using apart loc(1) unfolding sorted_wrt_map by (auto intro: sorted_wrt_mono_rel [rotated])
  ultimately show ?thesis
    unfolding sorted_acc plan_good_def using good by simp
qed

lemma accepted_entries_apart:
  assumes "CheckpointManifestValidator_validate m i = Inr mv"
  shows "entries_apart (mv_acceptedEntries mv)"
proof (cases "man_identity m = i \<and> ComputationIdentity_validate i = Inr ()")
  case True
  then obtain v where "CheckpointManifestValidator_validate m i = Inr v"
    "mv_acceptedEntries v = map ((!) (sort_key entryKey (man_entries m))) (kept_indices m i)"
    using validate_valid by blast
  then show ?thesis
    using assms kept_apart by simp
next
  case False
  then have "mv_acceptedEntries mv = []"
    using validate_accepted_iff [of m i] assms by auto
  then show ?thesis by simp
qed

lemma readWhole_disk: "os_disk (snd (readWhole env limits unreadable p s)) = os_disk s"
  by (auto simp: readWhole_def st_bind_def file_size_def stream_read_def sys_call_def tick_def
      split: option.split sum.split prod.split)

lemma loadManifest_disk: "os_disk (snd (loadManifest env cpu store i s)) = os_disk s"
  using readWhole_disk [of env loadManifest_limits "''Failed to read checkpoint manifest''" _ s]
  by (auto simp: loadManifest_def st_bind_def split: sum.split prod.split) (metis snd_conv)+

lemma loadOrDiagnose_disk: "os_disk (snd (loadOrDiagnose env cpu store i s)) = os_disk s"
  using loadManifest_disk [of env cpu store i s] by (auto simp: loadOrDiagnose_def split: sum.split prod.split)

section \<open>Properties\<close>

text \<open>
  C25: A resume plan can be trusted.  The planner returns; in the plan it makes, every accepted block
  is on the disk at that moment, decodes to the block of a manifest entry of this computation, within
  the tree, under its deterministic name, with matching size and checksum, and agrees with the exact
  values of its range modulo the product of the verification primes; the accepted blocks are in order
  and disjoint; and the ranges to recalculate cover exactly the terms that no accepted block covers.
  Quarantining files never touches an accepted block.
\<close>

theorem resume_plan_sound:
  assumes "gmp_library g" and "interrupts_end env" and "disk_ok (os_disk s)"
  shows "\<exists>r s'. planner_create_plan env cpu g ls planner i s = Some (r, s')
    \<and> (\<forall>plan. r = Inr plan \<longrightarrow> plan_good cpu g (planner_checkpointDirectory planner) i (os_disk s') plan)"
proof -
  let ?dir = "planner_checkpointDirectory planner" and ?P = "planner_create_plan env cpu g ls planner i s"
  have loops: "\<exists>r s'. planLoops env cpu g ls q ?dir i m loaded mv \<lparr>ps_plan = \<lparr>acceptedBlocks = [], rangesToRecalculate = [],
      rejectedBlocks = [], ignoredTemporaryFiles = [], plan_diagnostics = ds\<rparr>, ps_processed = [], ps_os = x\<rparr> = Some (r, s')
    \<and> plan_inv cpu g ?dir i [] s'"
    if "CheckpointManifestValidator_validate m i = Inr mv" "os_disk x = os_disk s" for q m loaded mv ds x
  proof -
    have "plan_inv cpu g ?dir i (mv_acceptedEntries mv) \<lparr>ps_plan = \<lparr>acceptedBlocks = [], rangesToRecalculate = [],
        rejectedBlocks = [], ignoredTemporaryFiles = [], plan_diagnostics = ds\<rparr>, ps_processed = [], ps_os = x\<rparr>"
      using that assms(3) accepted_entries_apart [OF that(1)] by (simp add: plan_inv_def)
    from p_postD [OF planLoops_post [OF assms(1,2) this]] show ?thesis .
  qed
  obtain m loaded ds x where ld: "loadOrDiagnose env cpu store i s = ((m, loaded, ds), x)" "os_disk x = os_disk s"
    if "CheckpointStore_create ?dir = Inr store" for store
    using loadOrDiagnose_disk [of env cpu "\<lparr>store_directory = ?dir\<rparr>" i s]
    by (cases "loadOrDiagnose env cpu \<lparr>store_directory = ?dir\<rparr> i s") (auto simp: CheckpointStore_create_def res_bind_eq_Inr_iff)
  obtain mv where mv: "CheckpointManifestValidator_validate m i = Inr mv"
    using validate_accepted_iff by blast
  show ?thesis
  proof (cases "CheckpointStore_create ?dir")
    case (Inl e)
    then show ?thesis by (simp add: planner_create_plan_def p_bind_def)
  next
    case (Inr store)
    note ld = ld [OF Inr]
    show ?thesis
    proof (cases "CheckpointQuarantine_create (planner_quarantineDirectory planner)")
      case (Inl e)
      then show ?thesis using Inr by (simp add: planner_create_plan_def p_bind_def)
    next
      case q: (Inr q)
      obtain r s' where l: "planLoops env cpu g ls q ?dir i m loaded mv \<lparr>ps_plan = \<lparr>acceptedBlocks = [], rangesToRecalculate = [],
          rejectedBlocks = [], ignoredTemporaryFiles = [], plan_diagnostics = ds @ vr_diagnostics (mv_validation mv)\<rparr>,
          ps_processed = [], ps_os = x\<rparr> = Some (r, s')" "plan_inv cpu g ?dir i [] s'"
        using loops [OF mv ld(2)] by blast
      show ?thesis
        using plan_inv_good [OF l(2)] l(1) Inr q mv ld(1)
        by (cases r) (simp_all add: planner_create_plan_def p_bind_def Let_def)
    qed
  qed
qed

theorem resume_plan_sound_witness:
  "\<exists>r s'. planner_create_plan calm_env None gmp_ref (\<lambda>_ _. [])
      \<lparr>planner_checkpointDirectory = ''cp'', planner_quarantineDirectory = ''q''\<rparr> sample_identity fresh_os = Some (r, s')
    \<and> (\<forall>plan. r = Inr plan \<longrightarrow> plan_good None gmp_ref ''cp'' sample_identity (os_disk s') plan)"
  using resume_plan_sound [OF gmp_ref.gmp_library_axioms interrupts_end_calm disk_ok_empty, of None "\<lambda>_ _. []"
      "\<lparr>planner_checkpointDirectory = ''cp'', planner_quarantineDirectory = ''q''\<rparr>" sample_identity] by simp

end
