(* ===== verification/Range_Bounds.thy ===== *)
theory Range_Bounds
  imports Binary_Splitter Checkpoint_Block_Codec
begin

text \<open>
  How large the values of a range are: up to \<open>2 ^ 50\<close> terms give numbers of less than \<open>2 ^ 59\<close> bits,
  which the byte formats can hold.
\<close>

lemma export_short:
  assumes "gmp_library g" and "\<bar>a\<bar> < 2 ^ n"
  shows "bitlen \<bar>a\<bar> \<le> int n" and "length (mpz_export_be g a) \<le> (n + 7) div 8"
proof -
  show b: "bitlen \<bar>a\<bar> \<le> int n"
    using assms(2) by (simp add: bitlen_le_iff_power)
  show "length (mpz_export_be g a) \<le> (n + 7) div 8"
  proof (cases "a = 0")
    case False
    then show ?thesis
      using gmp_library.export_bitlen [OF assms(1) False] b by (simp add: div_le_mono)
  qed (use gmp_library.mpz_export_zero [OF assms(1)] in simp)
qed

lemma small_fits:
  assumes "gmp_library g" and "\<bar>p\<bar> < 2 ^ n" and "\<bar>q\<bar> < 2 ^ n" and "\<bar>t\<bar> < 2 ^ n" and "n \<le> 2 ^ 60"
  shows "block_fits g p q t"
proof -
  have "(n + 7) div 8 \<le> 2 ^ 58"
    using assms(5) by simp
  then have "payload_length g p q t \<le> 3 * 2 ^ 58"
    unfolding payload_length_def using assms(2-4) by (fastforce dest: export_short(2) [OF assms(1)])
  moreover have "int n \<le> 2 ^ 60"
    using assms(5) by simp
  ultimately show ?thesis
    using assms(2-4) unfolding block_fits_def gmp_fits_def by (fastforce dest: export_short(1) [OF assms(1)])
qed

lemma term_bounds:
  assumes "k < 2 ^ 50"
  shows "\<bar>term_P k\<bar> \<le> 2 ^ 256" and "\<bar>term_Q k\<bar> \<le> 2 ^ 256" and "\<bar>term_T k\<bar> \<le> 2 ^ 256"
proof -
  have k: "int k < 2 ^ 50"
    using assms by simp
  have pow: "int k ^ 3 \<le> (2 ^ 50) ^ 3"
    using k by (intro power_mono) auto
  then show "\<bar>term_Q k\<bar> \<le> 2 ^ 256"
    by (simp add: term_Q_def abs_mult)
  have f: "\<bar>6 * int k - 5\<bar> \<le> 2 ^ 53" "\<bar>2 * int k - 1\<bar> \<le> 2 ^ 53" "\<bar>6 * int k - 1\<bar> \<le> 2 ^ 53" "\<bar>545140134 * int k + 13591409\<bar> \<le> 2 ^ 81"
    using k by simp_all
  have "\<bar>(6 * int k - 5) * (2 * int k - 1) * (6 * int k - 1)\<bar> \<le> 2 ^ 53 * 2 ^ 53 * 2 ^ 53"
    unfolding abs_mult by (intro mult_mono f) simp_all
  then have p: "\<bar>term_P k\<bar> \<le> 2 ^ 159"
    unfolding term_P_def by (cases "k = 0") simp_all
  then show "\<bar>term_P k\<bar> \<le> 2 ^ 256"
    by simp
  have "\<bar>545140134 * int k + 13591409\<bar> * \<bar>term_P k\<bar> \<le> 2 ^ 81 * 2 ^ 159"
    by (intro mult_mono p f) simp_all
  then show "\<bar>term_T k\<bar> \<le> 2 ^ 256"
    by (simp add: term_T_def abs_mult power_abs)
qed

lemma prod_bounded:
  fixes f :: "nat \<Rightarrow> int"
  assumes "\<And>k. k < b \<Longrightarrow> \<bar>f k\<bar> \<le> B" and "a \<le> b"
  shows "\<bar>\<Prod>k = a..<b. f k\<bar> \<le> B ^ (b - a)"
proof -
  have "\<bar>\<Prod>k = a..<b. f k\<bar> = (\<Prod>k = a..<b. \<bar>f k\<bar>)"
    by (induction rule: infinite_finite_induct) (simp_all add: abs_mult)
  also have "\<dots> \<le> (\<Prod>k = a..<b. B)"
    by (rule prod_mono) (use assms(1) in auto)
  finally show ?thesis
    by simp
qed

lemma range_bounds:
  assumes b: "b \<le> 2 ^ 50" and ab: "a < b"
  shows "\<bar>range_P a b\<bar> < 2 ^ (257 * b)" and "\<bar>range_Q a b\<bar> < 2 ^ (257 * b)" and "\<bar>range_T a b\<bar> < 2 ^ (257 * b)"
proof -
  let ?B = "2 ^ 256 :: int"
  have up: "?B ^ n < 2 ^ (257 * b)" if "n \<le> b" for n
  proof -
    have "?B ^ n = 2 ^ (256 * n)"
      by (simp only: power_mult)
    also have "\<dots> < 2 ^ (257 * b)"
      using that ab by (intro power_strict_increasing) auto
    finally show ?thesis .
  qed
  have t: "\<bar>term_P k\<bar> \<le> ?B" "\<bar>term_Q k\<bar> \<le> ?B" "\<bar>term_T k\<bar> \<le> ?B" if "k < b" for k
    using term_bounds [of k] that b by simp_all
  have P: "\<bar>range_P a k\<bar> \<le> ?B ^ (k - a)" if "a \<le> k" "k \<le> b" for k
    unfolding range_P_def using that t by (intro prod_bounded) auto
  have Q: "\<bar>range_Q k b\<bar> \<le> ?B ^ (b - k)" if "k \<le> b" for k
    unfolding range_Q_def using that t by (intro prod_bounded) auto
  show "\<bar>range_P a b\<bar> < 2 ^ (257 * b)" "\<bar>range_Q a b\<bar> < 2 ^ (257 * b)"
    using P [of b] Q [of a] up [of "b - a"] ab by auto
  have "\<bar>range_P a k * term_T k * range_Q (Suc k) b\<bar> \<le> ?B ^ (b - a)" if "k \<in> {a..<b}" for k
  proof -
    have "\<bar>range_P a k * term_T k * range_Q (Suc k) b\<bar> \<le> ?B ^ (k - a) * ?B * ?B ^ (b - Suc k)"
      unfolding abs_mult using that by (intro mult_mono P Q t) auto
    also have "\<dots> = ?B ^ (Suc (k - a) + (b - Suc k))"
      by (simp only: power_add power_Suc2)
    also have "Suc (k - a) + (b - Suc k) = b - a"
      using that by auto
    finally show ?thesis .
  qed
  then have "\<bar>range_T a b\<bar> \<le> (\<Sum>k = a..<b. ?B ^ (b - a))"
    unfolding range_T_def by (rule order.trans [OF sum_abs sum_mono])
  also have "\<dots> \<le> int b * ?B ^ b"
    using ab by (simp only: sum_constant card_atLeastLessThan of_nat_id) (intro mult_mono power_increasing, auto)
  also have "\<dots> < 2 ^ b * ?B ^ b"
    using of_nat_less_two_power [of b, where ?'a = int] by simp
  also have "\<dots> = 2 ^ (257 * b)"
    by (simp only: power_mult [symmetric] power_add [symmetric]) simp
  finally show "\<bar>range_T a b\<bar> < 2 ^ (257 * b)" .
qed

lemma range_fits:
  assumes "gmp_library g" and "b \<le> 2 ^ 50" and "a < b"
  shows "block_fits g (range_P a b) (range_Q a b) (range_T a b)"
  using range_bounds [OF assms(2,3)] assms(2) by (intro small_fits [OF assms(1), where n = "257 * b"]) simp_all

end
