(* ===== verification/Crash_Recovery.thy ===== *)
theory Crash_Recovery
  imports Checkpointed_Split Resume_Planner Range_Bounds
begin

text \<open>
  From a crash to the resumed run: the disk a crash leaves, what the planner makes of a resumable
  disk, and the invariant of the next writer.
\<close>

section \<open>Restarting\<close>

text \<open>A disk found after a crash: one outcome per file, and nothing pending any more.\<close>

definition crash_outcome :: "disk \<Rightarrow> disk \<Rightarrow> bool" where
  "crash_outcome d d' \<longleftrightarrow> disk_ok d' \<and> (\<forall>p. content d' p \<in> after_crash d p \<and> after_crash d' p = {content d' p})"

definition unchanged :: "disk \<Rightarrow> disk \<Rightarrow> path \<Rightarrow> bool" where
  "unchanged d d' p \<longleftrightarrow> content d' p = content d p \<and> after_crash d' p \<subseteq> after_crash d p"

text \<open>A step of the planner that adds no block and leaves processed block files and manifests alone.\<close>

definition protected_file :: "planner_state \<Rightarrow> path \<Rightarrow> bool" where
  "protected_file s p \<longleftrightarrow> p \<in> set (ps_processed s) \<and> (\<exists>i l. path_filename p = blockName i l) \<or> (\<exists>i. path_filename p = manifestName i)"

definition calm_step :: "planner_state \<Rightarrow> planner_state \<Rightarrow> bool" where
  "calm_step s s' \<longleftrightarrow> acceptedBlocks (ps_plan s') = acceptedBlocks (ps_plan s) \<and> set (ps_processed s) \<subseteq> set (ps_processed s')
     \<and> (disk_ok (os_disk (ps_os s)) \<longrightarrow> disk_ok (os_disk (ps_os s')))
     \<and> (\<forall>p. protected_file s p \<longrightarrow> unchanged (os_disk (ps_os s)) (os_disk (ps_os s')) p)"

lemma calm_step_refl: "calm_step s s"
  by (simp add: calm_step_def unchanged_def)

lemma calm_step_trans: "calm_step s s' \<Longrightarrow> calm_step s' s'' \<Longrightarrow> calm_step s s''"
proof -
  assume a: "calm_step s s'" "calm_step s' s''"
  have "protected_file s' p" if "protected_file s p" for p
    using that a(1) unfolding protected_file_def calm_step_def by blast
  then show ?thesis
    using a unfolding calm_step_def unchanged_def by (metis subset_trans)
qed

lemma manifestName_dots: "count_list (manifestName i) CHR ''.'' = 1"
  by (simp add: manifestName_def identityName_def)

lemma one_dot_not_rejected: "count_list (path_filename p) CHR ''.'' = 1 \<Longrightarrow> p \<noteq> source \<Longrightarrow> quarantine_writes source p = {}"
proof -
  assume one: "count_list (path_filename p) CHR ''.'' = 1" and "p \<noteq> source"
  moreover have "\<not> starts_with (path_filename source @ ''.rejected.'') (path_filename p)"
  proof
    assume "starts_with (path_filename source @ ''.rejected.'') (path_filename p)"
    then obtain t where "path_filename p = (path_filename source @ ''.rejected.'') @ t"
      by (auto simp: starts_with_iff)
    then show False
      using one by simp
  qed
  ultimately show ?thesis
    by (simp add: quarantine_writes_def)
qed

lemma manifestName_extension: "file_extension (manifestName i) = ''.manifest''"
proof -
  have "\<exists>c xs. manifestName i = c # xs @ ''.manifest''"
    unfolding manifestName_def identityName_def append_assoc [symmetric] by simp
  then show ?thesis
    by (auto simp: file_extension_def)
qed

lemma no_failures_interrupts: "no_failures env \<Longrightarrow> interrupts_end env"
  by (simp add: no_failures_def interrupts_end_def)

lemma no_failures_reads: "no_failures env \<Longrightarrow> reads_succeed env s"
  by (simp add: no_failures_def reads_succeed_def)

lemma rejectFile_calm:
  assumes env: "no_failures env" and ok: "disk_ok (os_disk (ps_os s))" and nm: "\<And>i. path_filename path \<noteq> manifestName i"
  shows "\<exists>s'. rejectFile env q path v True s = Some (Inr (), s') \<and> calm_step s s'"
proof (cases "path \<in> set (ps_processed s)")
  case True
  then show ?thesis
    by (simp add: rejectFile_def calm_step_refl)
next
  case False
  let ?x = "tick (ps_os s) (os_disk (ps_os s))"
  have there: "fs_exists env path (ps_os s) = (Inr (dk_names (os_disk (ps_os s)) path \<noteq> None), ?x)"
    using env by (simp add: fs_exists_def sys_call_def no_failures_def)
  obtain out x where q: "quarantine env q path v ?x = Some (Inr out, x)" "evolves (os_disk (ps_os s)) (quarantine_writes path) (os_disk x)"
    using p_postD [OF quarantine_post [OF _ no_failures_interrupts [OF env], of ?x q path v]] ok traced_disk by fastforce
  have "unchanged (os_disk (ps_os s)) (os_disk x) p" if "protected_file s p" for p
  proof -
    have "p \<noteq> path" using that False nm by (auto simp: protected_file_def)
    moreover have "count_list (path_filename p) CHR ''.'' = 1" "\<not> is_temp_name (path_filename p)"
      using that store_names_not_temp by (auto simp: protected_file_def blockName_dots manifestName_dots)
    ultimately have "quarantine_writes path p = {}" "\<not> is_temp_name (path_filename p)"
      by (simp_all add: one_dot_not_rejected)
    then show ?thesis
      using q(2) unfolding evolves_def unchanged_def by (metis insertE empty_iff sup_bot_right)
  qed
  then show ?thesis
    using False there q evolves_ok [OF q(2)]
    by (auto simp: rejectFile_def Let_def p_bind_def planner_os_def planner_do_def calm_step_def unchanged_def
        pushRejected_def appendDiagnostics_def)
qed

lemma sweepCandidates_calm:
  assumes env: "no_failures env"
  shows "disk_ok (os_disk (ps_os s)) \<Longrightarrow> \<exists>s'. sweepCandidates env q names ps s = Some (Inr (), s') \<and> calm_step s s'"
proof (induction ps arbitrary: s)
  case Nil
  then show ?case by (simp add: calm_step_refl)
next
  case (Cons p ps)
  let ?one = "if is_temp_name (path_filename p)
       then planner_do (\<lambda>s. s\<lparr>ps_plan := (ps_plan s)\<lparr>ignoredTemporaryFiles := ignoredTemporaryFiles (ps_plan s) @ [p]\<rparr>\<rparr>)
       else if file_extension (path_filename p) = ''.checkpoint'' \<and> path_filename p \<notin> names
       then p_bind (p_lift (st_lift (planner_rejection Stage_manifest Reason_unexpectedBlockFile
              ''Checkpoint file is not a member of the manifest''))) (\<lambda>v. rejectFile env q p v True)
       else p_lift (st_return ())"
  have ignored: "calm_step s (s\<lparr>ps_plan := (ps_plan s)\<lparr>ignoredTemporaryFiles := ignoredTemporaryFiles (ps_plan s) @ [p]\<rparr>\<rparr>)"
    by (simp add: calm_step_def unchanged_def)
  have "\<exists>s1. ?one s = Some (Inr (), s1) \<and> calm_step s s1"
  proof (cases "is_temp_name (path_filename p)")
    case True
    then show ?thesis
      using ignored by (simp add: planner_do_def)
  next
    case False
    show ?thesis
    proof (cases "file_extension (path_filename p) = ''.checkpoint'' \<and> path_filename p \<notin> names")
      case True
      then have "path_filename p \<noteq> manifestName i" for i
        using manifestName_extension [of i] by auto
      then show ?thesis
        using False True rejectFile_calm [OF env Cons.prems] by (simp add: planner_rejection_def p_bind_def)
    next
      case no: False
      then show ?thesis
        using False calm_step_refl by (simp only: if_False) simp
    qed
  qed
  then obtain s1 where s1: "?one s = Some (Inr (), s1)" "calm_step s s1"
    by blast
  have "disk_ok (os_disk (ps_os s1))"
    using s1(2) Cons.prems by (simp add: calm_step_def)
  then obtain s2 where s2: "sweepCandidates env q names ps s1 = Some (Inr (), s2)" "calm_step s1 s2"
    using Cons.IH by blast
  have "sweepCandidates env q names (p # ps) s = Some (Inr (), s2)"
    by (simp only: sweepCandidates.simps p_bind_def s1(1) s2(1) option.case prod.case sum.case)
  then show ?case
    using calm_step_trans [OF s1(2) s2(2)] by blast
qed

section \<open>A complete manifest is taken over whole\<close>

text \<open>The values of every range fit the format: a computation of up to \<open>2 ^ 50\<close> terms needs less than \<open>2 ^ 59\<close> bits.\<close>

definition ranges_fit :: "gmp \<Rightarrow> ComputationIdentity \<Rightarrow> bool" where
  "ranges_fit g i \<longleftrightarrow> (\<forall>l. BlockLocation_validate l i = Inr () \<longrightarrow>
     (case range_pqt (loc_start l) (loc_end l) of (p, q, t) \<Rightarrow> block_fits g p q t))"

lemma ranges_fit_bounded: "gmp_library g \<Longrightarrow> id_termCount i \<le> 2 ^ 50 \<Longrightarrow> ranges_fit g i"
proof -
  assume g: "gmp_library g" and n: "id_termCount i \<le> 2 ^ 50"
  have "block_fits g (range_P (unat s) (unat e)) (range_Q (unat s) (unat e)) (range_T (unat s) (unat e))"
    if "s < e" "e \<le> id_termCount i" for s e
  proof -
    have "unat e \<le> 2 ^ 50"
      using order.trans [OF that(2) n] by (simp add: word_le_nat_alt)
    moreover have "unat s < unat e"
      using that(1) by (simp add: word_less_nat_alt)
    ultimately show ?thesis
      using range_fits [OF g] by blast
  qed
  then show ?thesis
    by (auto simp: ranges_fit_def range_pqt_def BlockLocation_validate_def throw_if_def res_bind_def split: if_splits)
qed

definition range_block :: "ComputationIdentity \<Rightarrow> BlockLocation \<Rightarrow> CheckpointBlock" where
  "range_block i l = (case range_pqt (loc_start l) (loc_end l) of (p, q, t) \<Rightarrow>
     \<lparr>block_identity = i, block_location = l, block_p = p, block_q = q, block_t = t\<rparr>)"

lemma range_block_agrees: "agrees_mod m (range_block i l)"
  by (simp add: agrees_mod_def range_block_def range_pqt_def)

lemma range_block_decodes:
  assumes "gmp_library g" and "ComputationIdentity_validate i = Inr ()" and "BlockLocation_validate l i = Inr ()" and "ranges_fit g i"
    and "block_image cpu g i range_pqt l = Some e"
  shows "CheckpointBlockCodec_decode cpu g (enc_bytes e) = Inr (range_block i l)"
    and "unat (enc_payloadSize e) = length (enc_bytes e) - 112" and "blockChecksum cpu (enc_bytes e) = Inr (enc_checksum e)"
proof -
  obtain p q t where v: "range_pqt (loc_start l) (loc_end l) = (p, q, t)"
    by (cases "range_pqt (loc_start l) (loc_end l)")
  have "block_fits g p q t"
    using assms(3,4) v by (auto simp: ranges_fit_def)
  from block_roundtrip [OF assms(1-3) this, of cpu] assms(5)
  show "CheckpointBlockCodec_decode cpu g (enc_bytes e) = Inr (range_block i l)"
    and "unat (enc_payloadSize e) = length (enc_bytes e) - 112" and "blockChecksum cpu (enc_bytes e) = Inr (enc_checksum e)"
    by (auto simp: block_image_def range_block_def v)
qed

definition accepted_of :: "string \<Rightarrow> ComputationIdentity \<Rightarrow> disk \<Rightarrow> ManifestEntry \<Rightarrow> AcceptedCheckpoint" where
  "accepted_of dir i d x = \<lparr>acc_path = Path dir (entry_filename x),
     acc_fileSize = of_nat (case content d (Path dir (entry_filename x)) of None \<Rightarrow> 0 | Some bs \<Rightarrow> length bs),
     acc_block = range_block i (entry_location x), acc_manifestEntry = x\<rparr>"

definition entry_present ::
  "sse42 option \<Rightarrow> gmp \<Rightarrow> string \<Rightarrow> ComputationIdentity \<Rightarrow> disk \<Rightarrow> ManifestEntry \<Rightarrow> bool" where
  "entry_present cpu g dir i d x \<longleftrightarrow> entry_describes (block_image cpu g i range_pqt) i x
     \<and> BlockLocation_validate (entry_location x) i = Inr () \<and> entry_checksumAlgorithm x = ChecksumAlgorithm_crc32c
     \<and> loc_treeLevel (entry_location x) \<le> treeHeight (id_termCount i)
     \<and> (\<exists>e. block_image cpu g i range_pqt (entry_location x) = Some e
          \<and> content d (Path dir (entry_filename x)) = Some (enc_bytes e) \<and> length (enc_bytes e) < 2 ^ 63)"

lemma examineEntry_complete:
  assumes g: "gmp_library g" and i: "ComputationIdentity_validate i = Inr ()" and fit: "ranges_fit g i"
    and env: "no_failures env" and dir: "dir \<noteq> []" and x: "entry_present cpu g dir i d x" and s: "os_disk (ps_os s) = d"
  shows "\<exists>s'. examineEntry env cpu g q dir i x s = Some (Inr (), s') \<and> os_disk (ps_os s') = d
    \<and> acceptedBlocks (ps_plan s') = acceptedBlocks (ps_plan s) @ [accepted_of dir i d x]
    \<and> set (ps_processed s') = insert (Path dir (entry_filename x)) (set (ps_processed s))"
proof -
  let ?l = "entry_location x" and ?p = "Path dir (entry_filename x)"
  obtain e where e: "block_image cpu g i range_pqt ?l = Some e" "content d ?p = Some (enc_bytes e)" "length (enc_bytes e) < 2 ^ 63"
    and l: "BlockLocation_validate ?l i = Inr ()" and name: "entry_filename x = blockName i ?l"
    and meta: "entry_payloadSize x = enc_payloadSize e" "entry_checksum x = enc_checksum e"
      "entry_checksumAlgorithm x = ChecksumAlgorithm_crc32c" "entry_completion x = CompletionState_complete"
    and level: "loc_treeLevel ?l \<le> treeHeight (id_termCount i)"
    using x unfolding entry_present_def entry_describes_def by auto
  note b = range_block_decodes [OF g i l fit e(1)]
  have blk: "block_identity (range_block i ?l) = i" "block_location (range_block i ?l) = ?l"
    by (simp_all add: range_block_def split: prod.split)
  obtain v y where v: "CheckpointFileInspector_inspect env cpu g ?p i (ps_os s) = (Inr v, y)" "hasAcceptedFile v"
    using inspect_accepts [OF g no_failures_reads [OF env], of "ps_os s" ?p "enc_bytes e" cpu "range_block i ?l" i]
      s e b(1) blk level store_names_not_temp blockName_extension name by auto
  obtain fl where f: "fi_file v = Some fl" "file_describes cpu g ?p i (enc_bytes e) fl" "os_disk y = d"
    using inspect_verdict [OF g, of env cpu ?p i "ps_os s"] v s e(2) by auto
  have fl: "insp_path fl = ?p" "insp_block fl = range_block i ?l" "insp_checksum fl = enc_checksum e"
    "insp_checksumAlgorithm fl = ChecksumAlgorithm_crc32c" "unat (insp_payloadSize fl) = unat (enc_payloadSize e)"
    "unat (insp_fileSize fl) = length (enc_bytes e)"
    using f(2) b unfolding file_describes_def by simp_all
  have "entry_matches x fl i"
    using i l name meta dir blk fl by (simp add: entry_matches_def word_unat_eq_iff)
  then obtain ev where ev: "ManifestEntryValidator_validate x fl i = Inr ev" "isAccepted ev"
    using ManifestEntryValidator_verdict by blast
  obtain mr where mr: "ModularPQTVerifier_validate g (range_block i ?l) = Some (Inr mr)" "isAccepted mr"
    using modular_verifier_accepts [OF g, of "range_block i ?l"] i l blk range_block_agrees by auto
  have size: "insp_fileSize fl = of_nat (length (enc_bytes e))"
    using fl(6) by (metis of_nat_unat ucast_id)
  have "accepted_of dir i d x = \<lparr>acc_path = ?p, acc_fileSize = insp_fileSize fl, acc_block = insp_block fl, acc_manifestEntry = x\<rparr>"
    unfolding accepted_of_def e(2) option.case size fl(2) ..
  then show ?thesis
    unfolding examineEntry_def Let_def using v f(1,3) ev mr fl(2) by (simp add: p_bind_def planner_os_def planner_do_def)
qed

lemma examineEntries_complete:
  assumes g: "gmp_library g" and i: "ComputationIdentity_validate i = Inr ()" and fit: "ranges_fit g i"
    and env: "no_failures env" and dir: "dir \<noteq> []"
  shows "(\<And>x. x \<in> set es \<Longrightarrow> entry_present cpu g dir i d x) \<Longrightarrow> os_disk (ps_os s) = d \<Longrightarrow>
    \<exists>s'. examineEntries env cpu g q dir i es s = Some (Inr (), s') \<and> os_disk (ps_os s') = d
      \<and> acceptedBlocks (ps_plan s') = acceptedBlocks (ps_plan s) @ map (accepted_of dir i d) es
      \<and> (\<forall>x \<in> set es. Path dir (entry_filename x) \<in> set (ps_processed s')) \<and> set (ps_processed s) \<subseteq> set (ps_processed s')"
proof (induction es arbitrary: s)
  case (Cons x es)
  obtain s1 where s1: "examineEntry env cpu g q dir i x s = Some (Inr (), s1)" "os_disk (ps_os s1) = d"
    "acceptedBlocks (ps_plan s1) = acceptedBlocks (ps_plan s) @ [accepted_of dir i d x]"
    "set (ps_processed s1) = insert (Path dir (entry_filename x)) (set (ps_processed s))"
    using examineEntry_complete [OF g i fit env dir, of cpu d x s q] Cons.prems by auto
  obtain s2 where "examineEntries env cpu g q dir i es s1 = Some (Inr (), s2)" "os_disk (ps_os s2) = d"
      "acceptedBlocks (ps_plan s2) = acceptedBlocks (ps_plan s1) @ map (accepted_of dir i d) es"
      "\<forall>x \<in> set es. Path dir (entry_filename x) \<in> set (ps_processed s2)" "set (ps_processed s1) \<subseteq> set (ps_processed s2)"
    using Cons.IH [of s1] Cons.prems(1) s1(2) by auto
  then show ?case
    using s1 by (auto simp: p_bind_def)
qed (simp add: p_bind_def)

lemma rejectEntries_none:
  "set es \<subseteq> set (mv_acceptedEntries mv) \<Longrightarrow> rejectEntries env q dir mv es s = Some (Inr (), s)"
  by (induction es) (simp_all add: p_bind_def)

lemma listing_calm: "no_failures env \<Longrightarrow>
   planner_os (p_lift (sys_checked op (sys_call env (\<lambda>d. d)))) s = Some (Inr (), s\<lparr>ps_os := tick (ps_os s) (os_disk (ps_os s))\<rparr>)"
  by (simp add: planner_os_def sys_checked_def sys_call_def no_failures_def)

lemma listing_step: "calm_step s (s\<lparr>ps_os := tick (ps_os s) (os_disk (ps_os s))\<rparr>)"
  by (simp add: calm_step_def unchanged_def)

lemma planLoops_sweep:
  assumes env: "no_failures env" and ok: "disk_ok (os_disk (ps_os s1))"
    and first: "(if loaded then p_bind (rejectEntries env q dir mv (man_entries m)) (\<lambda>_.
         examineEntries env cpu g q dir i (mv_acceptedEntries mv)) else p_lift (st_return ())) s = Some (Inr (), s1)"
  shows "\<exists>s'. planLoops env cpu g ls q dir i m loaded mv s = Some (Inr (), s') \<and> calm_step s1 s'"
proof -
  let ?s = "s1\<lparr>ps_os := tick (ps_os s1) (os_disk (ps_os s1))\<rparr>"
  have "disk_ok (os_disk (ps_os ?s))"
    using ok by simp
  then obtain s' where "sweepCandidates env q (set (map entry_filename (man_entries m))) (ls (os_disk (ps_os ?s)) dir) ?s = Some (Inr (), s')"
    "calm_step ?s s'"
    using sweepCandidates_calm [OF env] by blast
  then show ?thesis
    unfolding planLoops_def p_bind_def [of "if loaded then _ else _"] first
    using listing_calm [OF env, of _ s1] calm_step_trans [OF listing_step] by (simp add: p_bind_def)
qed

text \<open>A manifest that is complete on this disk, entry by entry.\<close>

lemma manifest_complete_present:
  assumes crash: "crash_outcome d d'" and c: "manifest_complete cpu (block_image cpu g i range_pqt) \<lparr>store_directory = dir\<rparr> i d (Some bytes)"
    and small: "\<And>p bs. content d' p = Some bs \<Longrightarrow> length bs < 2 ^ 63"
  obtains es where "CheckpointManifestCodec_decode cpu bytes = Inr \<lparr>man_identity = i, man_entries = es\<rparr>"
    "frontier_shape i es" "\<And>x. x \<in> set es \<Longrightarrow> entry_present cpu g dir i d' x"
proof -
  let ?img = "block_image cpu g i range_pqt" and ?st = "\<lparr>store_directory = dir\<rparr>"
  obtain es where es: "CheckpointManifestCodec_decode cpu bytes = Inr \<lparr>man_identity = i, man_entries = es\<rparr>"
    "frontier_shape i es" "entries_durable ?img ?st i d es"
    using c by (auto simp: manifest_complete_def)
  have "entry_present cpu g dir i d' x" if x: "x \<in> set es" for x
  proof -
    obtain e where e: "?img (entry_location x) = Some e" "after_crash d (block_file ?st i (entry_location x)) = {Some (enc_bytes e)}"
      and desc: "entry_describes ?img i x"
      using es(3) x by (auto simp: entries_durable_def block_durable_def)
    have name: "block_file ?st i (entry_location x) = Path dir (entry_filename x)"
      using desc by (auto simp: entry_describes_def block_file_def)
    have "content d' (Path dir (entry_filename x)) = Some (enc_bytes e)"
      using crash e(2) unfolding crash_outcome_def name by auto
    moreover have "BlockLocation_validate (entry_location x) i = Inr ()" "entry_checksumAlgorithm x = ChecksumAlgorithm_crc32c"
      using es(1) x unfolding decode_manifest_iff by (auto simp: validateEntry_Inr)
    moreover have "loc_treeLevel (entry_location x) \<le> treeHeight (id_termCount i)"
      using es(2) x by (auto simp: frontier_shape_def)
    ultimately show ?thesis
      using e(1) desc small by (auto simp: entry_present_def)
  qed
  then show thesis
    using that es(1,2) by blast
qed

lemma valid_terms: "ComputationIdentity_validate i = Inr () \<Longrightarrow> 0 < id_termCount i"
  by (auto simp: ComputationIdentity_validate_Inr create_Inr_iff plan_terms_def word_gt_0)

text \<open>Without a manifest nothing is taken over.\<close>

lemma fresh_plan:
  assumes env: "no_failures env" and ok: "disk_ok (os_disk s)" and dirs: "dir \<noteq> []" "qdir \<noteq> []"
    and i: "ComputationIdentity_validate i = Inr ()" and none: "content (os_disk s) (manifest_file \<lparr>store_directory = dir\<rparr> i) = None"
  shows "\<exists>plan s'. planner_create_plan env cpu g ls \<lparr>planner_checkpointDirectory = dir, planner_quarantineDirectory = qdir\<rparr> i s
      = Some (Inr plan, s') \<and> acceptedBlocks plan = [] \<and> rangesToRecalculate plan = [\<lparr>missing_start = 0, missing_end = id_termCount i\<rparr>]
    \<and> disk_ok (os_disk s') \<and> unchanged (os_disk s) (os_disk s') (manifest_file \<lparr>store_directory = dir\<rparr> i)"
proof -
  let ?m = "\<lparr>man_identity = i, man_entries = []\<rparr>"
  have "manifestPath \<lparr>store_directory = dir\<rparr> i = Inr (manifest_file \<lparr>store_directory = dir\<rparr> i)"
    using i by (simp add: manifestPath_Inr manifest_file_def)
  then obtain ds where ld: "loadOrDiagnose env cpu \<lparr>store_directory = dir\<rparr> i s = ((?m, False, ds), tick s (os_disk s))"
    using none by (simp add: loadOrDiagnose_def loadManifest_def readWhole_def st_bind_def file_size_def)
  obtain mv where mv: "CheckpointManifestValidator_validate ?m i = Inr mv"
    using validate_accepted_iff by blast
  let ?s0 = "\<lparr>ps_plan = \<lparr>acceptedBlocks = [], rangesToRecalculate = [], rejectedBlocks = [], ignoredTemporaryFiles = [],
     plan_diagnostics = ds @ vr_diagnostics (mv_validation mv)\<rparr>, ps_processed = [], ps_os = tick s (os_disk s)\<rparr>"
  obtain s' where l: "planLoops env cpu g ls \<lparr>quarantine_directory = qdir\<rparr> dir i ?m False mv ?s0 = Some (Inr (), s')" "calm_step ?s0 s'"
    using planLoops_sweep [OF env, of ?s0 False "\<lparr>quarantine_directory = qdir\<rparr>" dir mv ?m cpu g i ?s0 ls] ok by auto
  have "protected_file ?s0 (manifest_file \<lparr>store_directory = dir\<rparr> i)"
    by (auto simp: protected_file_def manifest_file_def)
  then have "acceptedBlocks (ps_plan s') = []" "disk_ok (os_disk (ps_os s'))"
    "unchanged (os_disk s) (os_disk (ps_os s')) (manifest_file \<lparr>store_directory = dir\<rparr> i)"
    using l(2) ok by (auto simp: calm_step_def)
  then show ?thesis
    using l(1) ld mv dirs valid_terms [OF i]
    by (simp add: planner_create_plan_def p_bind_def Let_def CheckpointStore_create_def CheckpointQuarantine_create_def complement_def)
qed

text \<open>A complete manifest is taken over whole.\<close>

lemma complete_plan:
  assumes g: "gmp_library g" and i: "ComputationIdentity_validate i = Inr ()" and fit: "ranges_fit g i"
    and env: "no_failures env" and ok: "disk_ok (os_disk s)" and dirs: "dir \<noteq> []" "qdir \<noteq> []"
    and bytes: "content (os_disk s) (manifest_file \<lparr>store_directory = dir\<rparr> i) = Some bytes" "length bytes < 2 ^ 63"
      "CheckpointManifestCodec_decode cpu bytes = Inr \<lparr>man_identity = i, man_entries = es\<rparr>"
    and es: "frontier_shape i es" "\<And>x. x \<in> set es \<Longrightarrow> entry_present cpu g dir i (os_disk s) x"
  shows "\<exists>plan s'. planner_create_plan env cpu g ls \<lparr>planner_checkpointDirectory = dir, planner_quarantineDirectory = qdir\<rparr> i s
      = Some (Inr plan, s') \<and> acceptedBlocks plan = map (accepted_of dir i (os_disk s)) es \<and> rangesToRecalculate plan = []
    \<and> disk_ok (os_disk s') \<and> unchanged (os_disk s) (os_disk s') (manifest_file \<lparr>store_directory = dir\<rparr> i)
    \<and> (\<forall>x \<in> set es. unchanged (os_disk s) (os_disk s') (Path dir (entry_filename x)))"
proof -
  let ?d = "os_disk s" and ?m = "\<lparr>man_identity = i, man_entries = es\<rparr>" and ?acc = "map (accepted_of dir i (os_disk s)) es"
  have path: "manifestPath \<lparr>store_directory = dir\<rparr> i = Inr (manifest_file \<lparr>store_directory = dir\<rparr> i)"
    using i by (simp add: manifestPath_Inr manifest_file_def)
  obtain x where "loadManifest env cpu \<lparr>store_directory = dir\<rparr> i s = (Inr ?m, x)" "os_disk x = ?d"
    using loadManifest_ok [OF path no_failures_reads [OF env] bytes] by auto
  then have ld: "loadOrDiagnose env cpu \<lparr>store_directory = dir\<rparr> i s = ((?m, True, []), x)" "os_disk x = ?d"
    by (simp_all add: loadOrDiagnose_def)
  have apart: "entries_apart es" and tl: "tiles 0 (id_termCount i) es"
    using es(1) tiles_apart by (auto simp: frontier_shape_def)
  have complete: "entry_completion y = CompletionState_complete" if "y \<in> set es" for y
    using es(2) [OF that] by (auto simp: entry_present_def entry_describes_def)
  obtain mv where mv: "CheckpointManifestValidator_validate ?m i = Inr mv"
    "mv_acceptedEntries mv = map ((!) (sort_key entryKey es)) (kept_indices ?m i)"
    "isAccepted (mv_validation mv) \<longrightarrow> sorted_wrt (<) (map entryKey es) \<and> kept_indices ?m i = [0..<length es]"
    using validate_valid [OF _ i, of ?m] by auto
  have "isAccepted (mv_validation mv)"
    using validate_accepted_iff [of ?m i] mv(1) i tl complete es(1) by (auto simp: list_all_iff frontier_shape_def)
  then have acc: "mv_acceptedEntries mv = es"
    using mv(2,3) sorted_keys by (simp add: map_nth)
  let ?s0 = "\<lparr>ps_plan = \<lparr>acceptedBlocks = [], rangesToRecalculate = [], rejectedBlocks = [], ignoredTemporaryFiles = [],
     plan_diagnostics = [] @ vr_diagnostics (mv_validation mv)\<rparr>, ps_processed = [], ps_os = x\<rparr>"
  obtain s1 where s1: "examineEntries env cpu g \<lparr>quarantine_directory = qdir\<rparr> dir i es ?s0 = Some (Inr (), s1)" "os_disk (ps_os s1) = ?d"
    "acceptedBlocks (ps_plan s1) = ?acc" "\<forall>y \<in> set es. Path dir (entry_filename y) \<in> set (ps_processed s1)"
    using examineEntries_complete [OF g i fit env dirs(1) es(2), of es ?s0 "\<lparr>quarantine_directory = qdir\<rparr>"] ld(2) by auto
  obtain s' where l: "planLoops env cpu g ls \<lparr>quarantine_directory = qdir\<rparr> dir i ?m True mv ?s0 = Some (Inr (), s')" "calm_step s1 s'"
    using planLoops_sweep [OF env, of s1 True "\<lparr>quarantine_directory = qdir\<rparr>" dir mv ?m cpu g i ?s0 ls] s1(1,2) ok acc
      rejectEntries_none [of es mv] by (auto simp: p_bind_def)
  have keep: "unchanged ?d (os_disk (ps_os s')) p" if "protected_file s1 p" for p
    using that l(2) s1(2) by (simp add: calm_step_def)
  have kept: "unchanged ?d (os_disk (ps_os s')) (Path dir (entry_filename y))" if "y \<in> set es" for y
  proof -
    have "\<exists>l. entry_filename y = blockName i l"
      using es(2) [OF that] by (auto simp: entry_present_def entry_describes_def)
    then show ?thesis
      using s1(4) that by (intro keep) (auto simp: protected_file_def)
  qed
  have man: "unchanged ?d (os_disk (ps_os s')) (manifest_file \<lparr>store_directory = dir\<rparr> i)"
    by (rule keep) (auto simp: protected_file_def manifest_file_def)
  have entries: "map acc_manifestEntry ?acc = es"
    by (simp add: accepted_of_def comp_def)
  have loc: "acc_location a = entry_location (acc_manifestEntry a)" if "a \<in> set ?acc" for a
    using that by (auto simp: accepted_of_def range_block_def split: prod.split)
  have ranges: "\<forall>e \<in> set (map acc_manifestEntry ?acc). e_start e < e_end e" and apart': "entries_apart (map acc_manifestEntry ?acc)"
    unfolding entries using tiles_bounds [OF tl] apart by blast+
  have "sort_key (\<lambda>a. loc_start (acc_location a)) ?acc = ?acc"
    by (rule complement_missing(1) [OF apart' _ ranges]) (rule loc)
  moreover have "complement ?acc (id_termCount i) = missingLoop (id_termCount i) 0 (map acc_manifestEntry ?acc)"
    by (rule complement_missing(2) [OF apart' _ ranges]) (rule loc)
  moreover note entries
  moreover have "missingLoop (id_termCount i) 0 es = []"
    using missingLoop_Nil [OF apart, of 0 "id_termCount i"] tiles_bounds [OF tl] tl by auto
  moreover have "acceptedBlocks (ps_plan s') = ?acc" "disk_ok (os_disk (ps_os s'))"
    using l(2) s1(2,3) ok by (simp_all add: calm_step_def)
  ultimately show ?thesis
    using l(1) ld mv(1) dirs kept man
    by (simp add: planner_create_plan_def p_bind_def Let_def CheckpointStore_create_def CheckpointQuarantine_create_def)
qed

section \<open>The next writer\<close>

lemma tiles_accepted:
  "tiles a b es \<Longrightarrow> ComputationIdentity_validate i = Inr () \<Longrightarrow>
   (\<And>x. x \<in> set es \<Longrightarrow> BlockLocation_validate (entry_location x) i = Inr () \<and> entry_completion x = CompletionState_complete
      \<and> entry_filename x = blockName i (entry_location x)) \<Longrightarrow> checkAcceptedEntries store i a es = Inr ()"
proof (induction es arbitrary: a)
  case (Cons x es)
  have "blockPath store i (entry_location x) = Inr (Path (store_directory store) (blockName i (entry_location x)))"
    using Cons.prems(2,3) by (simp add: blockPath_Inr)
  then show ?case
    using Cons by simp
qed simp

lemma create_succeeds:
  assumes "tiles 0 b es \<or> es = []" and "ComputationIdentity_validate i = Inr ()" and "dir \<noteq> []" and "0 \<le> interval"
    and "\<And>x. x \<in> set es \<Longrightarrow> BlockLocation_validate (entry_location x) i = Inr () \<and> entry_completion x = CompletionState_complete
      \<and> entry_filename x = blockName i (entry_location x)"
  shows "\<exists>w. CheckpointFrontierWriter_create dir i interval es obs tracker = Inr w"
proof -
  have "sort_key entryKey es = es"
    using assms(1) apart_keys [OF tiles_apart] tiles_bounds sorted_keys by force
  moreover have "checkAcceptedEntries \<lparr>store_directory = dir\<rparr> i 0 es = Inr ()"
    using assms(1) tiles_accepted [of 0 b es i "\<lparr>store_directory = dir\<rparr>"] assms(2,5) by auto
  ultimately show ?thesis
    using assms(2-4) by (simp add: CheckpointFrontierWriter_create_def CheckpointStore_create_def Let_def throw_if_def)
qed

lemma unchanged_durable:
  assumes "unchanged d d' p" and "after_crash d p = {content d p}" and "disk_ok d'"
  shows "after_crash d' p = {content d p}"
  using assms singleton_content [of d' p "content d p"] by (simp add: unchanged_def)

lemma recovered_inv:
  assumes w: "CheckpointFrontierWriter_create dir i interval es obs tracker = Inr w" and ie: "interrupts_end env" and ok: "disk_ok (os_disk s)"
    and dur: "entries_durable (block_image cpu g i range_pqt) \<lparr>store_directory = dir\<rparr> i (os_disk s) es"
    and res: "resumable cpu (block_image cpu g i range_pqt) \<lparr>store_directory = dir\<rparr> i (os_disk s)"
  shows "checkpoint_inv env cpu g \<lparr>store_directory = dir\<rparr> i s \<lparr>run_writer = w, run_os = s\<rparr>"
  using create_writer_ok [OF w ok dur] create_writer_Inr(3,4) [OF w] ie res
  by (simp add: checkpoint_inv_def Let_def traced_here)

section \<open>Properties\<close>



end
