(* ===== verification/Chunk_Types.thy ===== *)
theory Chunk_Types
  imports Checkpoint_Store
begin

text \<open>
  The identity and the metadata of a runtime chunk (src/src/storage/ChunkTypes.cpp), and the
  compression codecs that store its payload (src/src/storage/CompressionCodec.cpp).  LZ4 is a
  parameter: a record of its three functions, with its documented behaviour as a locale.
\<close>

section \<open>Identity and metadata\<close>

text \<open>Enumerations that are read from files are the integers they are stored as.\<close>

definition CompressionAlgorithm_none :: u16 where "CompressionAlgorithm_none = 0"

definition CompressionAlgorithm_lz4 :: u16 where "CompressionAlgorithm_lz4 = 1"

definition ChunkChecksumAlgorithm_crc32c :: u16 where "ChunkChecksumAlgorithm_crc32c = 1"

definition chunkFormatVersion :: u16 where "chunkFormatVersion = 1"

definition maxChunkPayloadBytes :: u64 where "maxChunkPayloadBytes = push_bit 30 1"

record ChunkIdentity =
  ci_computation :: ComputationIdentity
  ci_location :: BlockLocation

definition ChunkIdentity_validate :: "ChunkIdentity \<Rightarrow> unit result" where
  "ChunkIdentity_validate identity =
     res_bind (ComputationIdentity_validate (ci_computation identity)) (\<lambda>_.
     BlockLocation_validate (ci_location identity) (ci_computation identity))"

definition ChunkIdentity_create :: "ComputationIdentity \<Rightarrow> BlockLocation \<Rightarrow> ChunkIdentity result" where
  "ChunkIdentity_create computation location =
     (let identity = \<lparr>ci_computation = computation, ci_location = location\<rparr>
      in res_bind (ChunkIdentity_validate identity) (\<lambda>_. Inr identity))"

definition ChunkIdentity_less :: "ChunkIdentity \<Rightarrow> ChunkIdentity \<Rightarrow> bool" where
  "ChunkIdentity_less a b =
     (if ci_computation a \<noteq> ci_computation b
      then ComputationIdentity_less (ci_computation a) (ci_computation b)
      else BlockLocation_less (ci_location a) (ci_location b))"

definition chunkName :: "ChunkIdentity \<Rightarrow> string" where
  "chunkName identity =
     ''chunk-v'' @ to_string chunkFormatVersion @ identityName (ci_computation identity)
       (''-r'' @ to_string (loc_start (ci_location identity)) @ ''-'' @ to_string (loc_end (ci_location identity))
        @ ''-l'' @ to_string (loc_treeLevel (ci_location identity)) @ ''.chunk'')"

definition deterministicFilename :: "ChunkIdentity \<Rightarrow> string result" where
  "deterministicFilename identity =
     res_bind (ChunkIdentity_validate identity) (\<lambda>_. Inr (chunkName identity))"

record ChunkMetadata =
  cm_identity :: ChunkIdentity
  cm_uncompressedSize :: u64
  cm_storedSize :: u64
  cm_checksumAlgorithm :: u16
  cm_checksumValue :: u32
  cm_compression :: u16
  cm_formatVersion :: u16

definition ChunkMetadata_validate :: "ChunkMetadata \<Rightarrow> unit result" where
  "ChunkMetadata_validate m =
     res_bind (ChunkIdentity_validate (cm_identity m)) (\<lambda>_.
     res_bind (throw_if (cm_formatVersion m \<noteq> chunkFormatVersion)
       (Invalid_argument ''Unsupported runtime chunk format version'')) (\<lambda>_.
     res_bind (throw_if (cm_uncompressedSize m > maxChunkPayloadBytes \<or> cm_storedSize m > maxChunkPayloadBytes)
       (Invalid_argument ''Runtime chunk size exceeds the limit'')) (\<lambda>_.
     res_bind (throw_if (cm_checksumAlgorithm m \<noteq> ChunkChecksumAlgorithm_crc32c)
       (Invalid_argument ''Unsupported runtime chunk checksum algorithm'')) (\<lambda>_.
     throw_if (cm_compression m \<noteq> CompressionAlgorithm_none \<and> cm_compression m \<noteq> CompressionAlgorithm_lz4)
       (Invalid_argument ''Runtime chunk compression is not implemented'')))))"

definition ChunkMetadata_create ::
  "ChunkIdentity \<Rightarrow> u64 \<Rightarrow> u64 \<Rightarrow> u16 \<Rightarrow> u32 \<Rightarrow> u16 \<Rightarrow> u16 \<Rightarrow> ChunkMetadata result" where
  "ChunkMetadata_create identity uncompressedSize storedSize checksumAlgorithm checksumValue compression version =
     (let metadata = \<lparr>cm_identity = identity, cm_uncompressedSize = uncompressedSize, cm_storedSize = storedSize,
            cm_checksumAlgorithm = checksumAlgorithm, cm_checksumValue = checksumValue, cm_compression = compression,
            cm_formatVersion = version\<rparr>
      in res_bind (ChunkMetadata_validate metadata) (\<lambda>_. Inr metadata))"

definition createChunkFilename :: "string \<Rightarrow> string result" where
  "createChunkFilename chunkId =
     (if CHR ''/'' \<in> set chunkId then Inl (Invalid_argument (''ChunkId cannot contain '' @ [CHR 0x27] @ ''/'' @ [CHR 0x27] @ '': '' @ chunkId))
      else Inr chunkId)"

section \<open>Compression\<close>

text \<open>
  LZ4: \<open>LZ4_compress_default\<close> returns the bytes written, none of them when it fails;
  \<open>LZ4_decompress_safe\<close> returns a negative number, here \<open>None\<close>, on malformed input.
\<close>

record lz4 =
  LZ4_compressBound :: "int \<Rightarrow> int"
  LZ4_compress_default :: "u8 list \<Rightarrow> int \<Rightarrow> u8 list"
  LZ4_decompress_safe :: "u8 list \<Rightarrow> int \<Rightarrow> u8 list option"

locale lz4_library =
  fixes z :: lz4
  assumes compress_fits: "0 \<le> cap \<Longrightarrow> int (length (LZ4_compress_default z bs cap)) \<le> cap"
    and compress_succeeds: "0 < LZ4_compressBound z (int (length bs)) \<Longrightarrow> LZ4_compressBound z (int (length bs)) \<le> cap
      \<Longrightarrow> LZ4_compress_default z bs cap \<noteq> []"
    and decompress_compress: "LZ4_compress_default z bs cap \<noteq> []
      \<Longrightarrow> LZ4_decompress_safe z (LZ4_compress_default z bs cap) (int (length bs)) = Some bs"
    and decompress_fits: "LZ4_decompress_safe z bs cap = Some out \<Longrightarrow> int (length out) \<le> cap"

definition checkedCompressionSize :: "u64 \<Rightarrow> u64 \<Rightarrow> size_t result" where
  "checkedCompressionSize value limit =
     res_bind (throw_if (value > limit) (Length_error ''Compression output size is too large'')) (\<lambda>_. Inr value)"

definition checkedLz4Size :: "u64 \<Rightarrow> int result" where
  "checkedLz4Size value =
     res_bind (throw_if (value > 2 ^ 31 - 1) (Length_error ''LZ4 input exceeds the API limit'')) (\<lambda>_. Inr (uint value))"

text \<open>
  The three virtual functions, per codec.  \<open>compressInto\<close> returns what it writes at the start of its
  output, whose size is the argument.
\<close>

record CompressionCodec =
  codec_compressInto :: "u8 list \<Rightarrow> size_t \<Rightarrow> u8 list result"
  codec_compress :: "u8 list \<Rightarrow> u64 \<Rightarrow> u8 list result"
  codec_decompress :: "u8 list \<Rightarrow> u64 \<Rightarrow> u64 \<Rightarrow> u8 list result"

abbreviation vec_size :: "'a list \<Rightarrow> size_t" where
  "vec_size xs \<equiv> of_nat (length xs)"

definition NoneCompressionCodec :: CompressionCodec where
  "NoneCompressionCodec = \<lparr>
     codec_compressInto = (\<lambda>input outputSize.
       res_bind (throw_if (unat outputSize < length input) (Length_error ''Uncompressed output buffer is too small'')) (\<lambda>_.
       Inr input)),
     codec_compress = (\<lambda>input maxOutputSize.
       res_bind (checkedCompressionSize (vec_size input) maxOutputSize) (\<lambda>_. Inr input)),
     codec_decompress = (\<lambda>input expectedOutputSize maxOutputSize.
       res_bind (checkedCompressionSize expectedOutputSize maxOutputSize) (\<lambda>outputSize.
       res_bind (throw_if (length input \<noteq> unat outputSize)
         (Invalid_argument ''Uncompressed payload size does not match metadata'')) (\<lambda>_. Inr input)))\<rparr>"

definition Lz4CompressionCodec :: "lz4 \<Rightarrow> CompressionCodec" where
  "Lz4CompressionCodec z = \<lparr>
     codec_compressInto = (\<lambda>input outputSize.
       res_bind (checkedLz4Size (vec_size input)) (\<lambda>inputSize.
       res_bind (checkedLz4Size outputSize) (\<lambda>outputCapacity.
       let written = LZ4_compress_default z input outputCapacity
       in res_bind (throw_if (int (length written) \<le> 0) (Length_error ''LZ4 compression output exceeds the limit'')) (\<lambda>_.
          Inr written)))),
     codec_compress = (\<lambda>input maxOutputSize.
       res_bind (checkedLz4Size (vec_size input)) (\<lambda>inputSize.
       res_bind (checkedLz4Size (min maxOutputSize (word_of_int (LZ4_compressBound z inputSize)))) (\<lambda>outputCapacity.
       let written = LZ4_compress_default z input outputCapacity
       in res_bind (throw_if (int (length written) \<le> 0) (Length_error ''LZ4 compression output exceeds the limit'')) (\<lambda>_.
          Inr written)))),
     codec_decompress = (\<lambda>input expectedOutputSize maxOutputSize.
       res_bind (checkedCompressionSize expectedOutputSize maxOutputSize) (\<lambda>outputSize.
       res_bind (checkedLz4Size (vec_size input)) (\<lambda>inputSize.
       res_bind (checkedLz4Size outputSize) (\<lambda>outputCapacity.
       case LZ4_decompress_safe z input outputCapacity of
         None \<Rightarrow> Inl (Invalid_argument ''LZ4 decompression size mismatch'')
       | Some output \<Rightarrow>
           res_bind (throw_if (int (length output) \<noteq> outputCapacity) (Invalid_argument ''LZ4 decompression size mismatch'')) (\<lambda>_.
           Inr output)))))\<rparr>"

definition CompressionCodecs_forAlgorithm :: "lz4 \<Rightarrow> u16 \<Rightarrow> CompressionCodec result" where
  "CompressionCodecs_forAlgorithm z algorithm =
     (if algorithm = CompressionAlgorithm_none then Inr NoneCompressionCodec
      else if algorithm = CompressionAlgorithm_lz4 then Inr (Lz4CompressionCodec z)
      else Inl (Invalid_argument (''Compression codec is not implemented: ''
        @ (if algorithm = CompressionAlgorithm_lz4 then ''lz4'' else ''unknown''))))"

section \<open>Facts\<close>

lemmas compression_defs = CompressionAlgorithm_none_def CompressionAlgorithm_lz4_def

lemma ChunkIdentity_validate_Inr [res_elim]:
  "ChunkIdentity_validate c = Inr u \<longleftrightarrow> ComputationIdentity_validate (ci_computation c) = Inr ()
     \<and> BlockLocation_validate (ci_location c) (ci_computation c) = Inr ()"
  by (simp add: ChunkIdentity_validate_def res_elim)

lemma ChunkIdentity_create_Inr:
  "ChunkIdentity_create i l = Inr c \<longleftrightarrow> c = \<lparr>ci_computation = i, ci_location = l\<rparr> \<and> ChunkIdentity_validate c = Inr ()"
  by (auto simp: ChunkIdentity_create_def Let_def res_bind_eq_Inr_iff)

lemma ChunkMetadata_validate_Inr:
  "ChunkMetadata_validate m = Inr u \<longleftrightarrow> ChunkIdentity_validate (cm_identity m) = Inr () \<and> cm_formatVersion m = 1
     \<and> cm_uncompressedSize m \<le> maxChunkPayloadBytes \<and> cm_storedSize m \<le> maxChunkPayloadBytes
     \<and> cm_checksumAlgorithm m = 1 \<and> (cm_compression m = 0 \<or> cm_compression m = 1)"
  by (auto simp: ChunkMetadata_validate_def res_bind_eq_Inr_iff chunkFormatVersion_def ChunkChecksumAlgorithm_crc32c_def
      compression_defs not_less)

lemma max_payload [simp]: "unat maxChunkPayloadBytes = 2 ^ 30"
  by (simp add: maxChunkPayloadBytes_def push_bit_eq_mult)

lemma chunkName_inject: "chunkName a = chunkName b \<longleftrightarrow> a = b"
proof -
  have "chunkName a = chunkName b \<longleftrightarrow> ci_computation a = ci_computation b \<and> ci_location a = ci_location b"
    by (auto simp: chunkName_def identityName_inject number_sep unat_inject)
  then show ?thesis
    by auto
qed

text \<open>A stored payload is restored by the codec that stored it.\<close>

lemma none_restores:
  assumes "length payload \<le> 2 ^ 30"
  shows "codec_decompress NoneCompressionCodec payload (vec_size payload) maxChunkPayloadBytes = Inr payload"
  using assms by (simp add: NoneCompressionCodec_def checkedCompressionSize_def word_less_nat_alt not_less unat_of_nat_u64 throw_if_def)

context lz4_library begin

lemma lz4_restores:
  assumes "codec_compressInto (Lz4CompressionCodec z) payload n = Inr stored" and "n \<le> maxChunkPayloadBytes"
    and "length payload \<le> 2 ^ 30"
  shows "codec_decompress (Lz4CompressionCodec z) stored (vec_size payload) maxChunkPayloadBytes = Inr payload"
    and "length stored \<le> unat n"
proof -
  have s: "stored = LZ4_compress_default z payload (uint n)" "stored \<noteq> []"
    using assms(1) by (auto simp: Lz4CompressionCodec_def checkedLz4Size_def res_elim Let_def)
  have "int (length stored) \<le> int (unat n)"
    unfolding s(1) uint_nat [symmetric] by (rule compress_fits) simp
  then show n: "length stored \<le> unat n"
    by (simp only: of_nat_le_iff)
  moreover have "unat n \<le> 2 ^ 30"
    using assms(2) by (simp add: word_le_nat_alt)
  ultimately have le: "length stored \<le> 2 ^ 30"
    by simp
  have small: "unat (vec_size stored) = length stored" "unat (vec_size payload) = length payload"
    by (rule unat_of_nat_u64; use le assms(3) in simp)+
  have lim: "\<not> 2147483647 < vec_size stored" "\<not> 2147483647 < vec_size payload" "\<not> maxChunkPayloadBytes < vec_size payload"
    unfolding word_less_nat_alt small max_payload using le assms(3) by simp_all
  have cap: "uint (vec_size payload) = int (length payload)"
    unfolding uint_nat small ..
  have "LZ4_decompress_safe z stored (uint (vec_size payload)) = Some payload"
    using decompress_compress [of payload "uint n"] s unfolding cap by simp
  then show "codec_decompress (Lz4CompressionCodec z) stored (vec_size payload) maxChunkPayloadBytes = Inr payload"
    using lim cap by (simp add: Lz4CompressionCodec_def checkedCompressionSize_def checkedLz4Size_def)
qed

end

text \<open>A library that stores its input behind a marker byte satisfies the laws.\<close>

definition lz4_ref :: lz4 where
  "lz4_ref = \<lparr>
     LZ4_compressBound = (\<lambda>n. n + 1),
     LZ4_compress_default = (\<lambda>bs cap. if int (length bs) < cap then 0 # bs else []),
     LZ4_decompress_safe = (\<lambda>bs cap. case bs of [] \<Rightarrow> None | b # out \<Rightarrow> if int (length out) \<le> cap then Some out else None)\<rparr>"

interpretation lz4_ref: lz4_library lz4_ref
  by unfold_locales (auto simp: lz4_ref_def split: list.splits if_splits)

end
