(* ===== verification/Chunk_Codec.thy ===== *)
theory Chunk_Codec
  imports Chunk_Types
begin

text \<open>
  The version-1 chunk format (src/src/storage/ChunkCodec.cpp): a 132-byte header, the stored payload,
  and a CRC32C over the whole with the checksum slot zeroed.  The encoder fills a buffer whose size
  comes from the metadata; a write past its end is the outcome \<open>None\<close>.
\<close>

section \<open>Operations\<close>

record Chunk =
  chunk_metadata :: ChunkMetadata
  chunk_p :: int
  chunk_q :: int
  chunk_t :: int

definition chunkMagic :: "u8 list" where
  "chunkMagic = map (\<lambda>c. of_nat (of_char c)) ''GMPICHNK''"

definition chunkHeaderSize :: u16 where "chunkHeaderSize = 132"

definition chunkChecksumOffset :: nat where "chunkChecksumOffset = 128"

definition chunkChecksumSize :: nat where "chunkChecksumSize = 4"

definition chunk_checkedSize :: "u64 \<Rightarrow> size_t result" where
  "chunk_checkedSize value =
     res_bind (throw_if (value > maxChunkPayloadBytes) (Length_error ''Chunk payload length is too large'')) (\<lambda>_. Inr value)"

definition chunk_checkedAdd :: "size_t \<Rightarrow> size_t \<Rightarrow> size_t result" where
  "chunk_checkedAdd left right =
     res_bind (throw_if (right > - 1 - left) (Overflow_error ''Chunk payload size overflow'')) (\<lambda>_. Inr (left + right))"

definition calculateChecksum :: "sse42 option \<Rightarrow> u8 list \<Rightarrow> u32 result" where
  "calculateChecksum cpu bytes =
     res_bind (throw_if (length bytes < unat chunkHeaderSize)
       (Invalid_argument ''Truncated chunk checksum input'')) (\<lambda>_.
     let checksum = CRC32C_calculate cpu (take chunkChecksumOffset bytes) 0;
         checksum = CRC32C_calculate cpu (replicate chunkChecksumSize 0) checksum;
         checksum = CRC32C_calculate cpu (drop (chunkChecksumOffset + chunkChecksumSize) bytes) checksum
     in Inr checksum)"

definition canonicalPayload ::
  "SerializedGMPInteger \<Rightarrow> SerializedGMPInteger \<Rightarrow> SerializedGMPInteger \<Rightarrow> u8 list result" where
  "canonicalPayload p q t =
     res_bind (chunk_checkedAdd (vec_size (ser_magnitude p)) (vec_size (ser_magnitude q))) (\<lambda>s.
     res_bind (chunk_checkedAdd s (vec_size (ser_magnitude t))) (\<lambda>_.
     Inr (ser_magnitude p @ ser_magnitude q @ ser_magnitude t)))"

text \<open>The header, with the value of its checksum slot.\<close>

definition chunkHeader ::
  "ChunkMetadata \<Rightarrow> SerializedGMPInteger \<Rightarrow> SerializedGMPInteger \<Rightarrow> SerializedGMPInteger \<Rightarrow> u32 \<Rightarrow> u8 list" where
  "chunkHeader m p q t c =
     chunkMagic @ appendU16 (cm_formatVersion m) @ appendU16 chunkHeaderSize @ appendU32 0
     @ appendU16 (id_algorithm (ci_computation (cm_identity m)))
     @ appendU16 (id_arithmeticVersion (ci_computation (cm_identity m)))
     @ appendU16 (id_formulaVersion (ci_computation (cm_identity m))) @ appendU16 0
     @ appendU64 (id_requestedDigits (ci_computation (cm_identity m)))
     @ appendU32 (id_guardDigits (ci_computation (cm_identity m))) @ appendU32 0
     @ appendU64 (id_workingDigits (ci_computation (cm_identity m)))
     @ appendU64 (id_termCount (ci_computation (cm_identity m)))
     @ appendU64 (loc_start (ci_location (cm_identity m))) @ appendU64 (loc_end (ci_location (cm_identity m)))
     @ appendU32 (loc_treeLevel (ci_location (cm_identity m)))
     @ appendU16 (cm_compression m) @ appendU16 (cm_checksumAlgorithm m)
     @ appendU16 (of_nat chunkChecksumSize) @ appendU16 0
     @ appendU64 (cm_uncompressedSize m) @ appendU64 (cm_storedSize m)
     @ appendU8 (ser_sign p) @ appendU8 (ser_sign q) @ appendU8 (ser_sign t) @ appendU8 0
     @ appendU64 (vec_size (ser_magnitude p)) @ appendU64 (vec_size (ser_magnitude q))
     @ appendU64 (vec_size (ser_magnitude t)) @ appendU32 c"

definition makeHeader ::
  "ChunkMetadata \<Rightarrow> SerializedGMPInteger \<Rightarrow> SerializedGMPInteger \<Rightarrow> SerializedGMPInteger \<Rightarrow> u8 list result" where
  "makeHeader m p q t =
     (let header = chunkHeader m p q t 0
      in res_bind (throw_if (length header \<noteq> unat chunkHeaderSize)
           (Logic_error ''Chunk header size invariant failed'')) (\<lambda>_. Inr header))"

definition createMetadata ::
  "sse42 option \<Rightarrow> gmp \<Rightarrow> lz4 \<Rightarrow> ChunkIdentity \<Rightarrow> int \<Rightarrow> int \<Rightarrow> int \<Rightarrow> u16 \<Rightarrow> ChunkMetadata result" where
  "createMetadata cpu g z identity p q t compression =
     res_bind (GMPSerialization_encode g p) (\<lambda>serializedP.
     res_bind (GMPSerialization_encode g q) (\<lambda>serializedQ.
     res_bind (GMPSerialization_encode g t) (\<lambda>serializedT.
     res_bind (canonicalPayload serializedP serializedQ serializedT) (\<lambda>payload.
     res_bind (CompressionCodecs_forAlgorithm z compression) (\<lambda>codec.
     res_bind (codec_compress codec payload maxChunkPayloadBytes) (\<lambda>stored.
     res_bind (ChunkMetadata_create identity (vec_size payload) (vec_size stored) ChunkChecksumAlgorithm_crc32c 0
       compression chunkFormatVersion) (\<lambda>metadata.
     res_bind (makeHeader metadata serializedP serializedQ serializedT) (\<lambda>header.
     res_bind (calculateChecksum cpu (header @ stored)) (\<lambda>checksum.
     Inr (metadata\<lparr>cm_checksumValue := checksum\<rparr>))))))))))"

text \<open>
  Filling the payload part of the output, zeroed and as long as the metadata says.  Without
  compression the three magnitudes are copied to it before any comparison of the sizes.
\<close>

definition fillPayload ::
  "lz4 \<Rightarrow> ChunkMetadata \<Rightarrow> SerializedGMPInteger \<Rightarrow> SerializedGMPInteger \<Rightarrow> SerializedGMPInteger
   \<Rightarrow> (u8 list \<times> size_t) result option" where
  "fillPayload z m p q t =
     (let room = unat (cm_storedSize m);
          filled = (\<lambda>bs. bs @ replicate (room - length bs) 0);
          payload = ser_magnitude p @ ser_magnitude q @ ser_magnitude t
      in if cm_compression m = CompressionAlgorithm_none
         then if room < length payload then None else Some (Inr (filled payload, vec_size payload))
         else Some (res_bind (canonicalPayload p q t) (\<lambda>payload.
           res_bind (CompressionCodecs_forAlgorithm z (cm_compression m)) (\<lambda>codec.
           res_bind (codec_compressInto codec payload (cm_storedSize m)) (\<lambda>written.
           Inr (filled written, vec_size written))))))"

definition encodeSerialized ::
  "gmp \<Rightarrow> Chunk \<Rightarrow> (SerializedGMPInteger \<times> SerializedGMPInteger \<times> SerializedGMPInteger) result" where
  "encodeSerialized g chunk =
     res_bind (ChunkMetadata_validate (chunk_metadata chunk)) (\<lambda>_.
     res_bind (GMPSerialization_encode g (chunk_p chunk)) (\<lambda>serializedP.
     res_bind (GMPSerialization_encode g (chunk_q chunk)) (\<lambda>serializedQ.
     res_bind (GMPSerialization_encode g (chunk_t chunk)) (\<lambda>serializedT.
     let payloadSize = vec_size (ser_magnitude serializedP) + vec_size (ser_magnitude serializedQ)
           + vec_size (ser_magnitude serializedT)
     in res_bind (throw_if (cm_uncompressedSize (chunk_metadata chunk) \<noteq> payloadSize)
          (Invalid_argument ''Chunk uncompressed size metadata does not match payload'')) (\<lambda>_.
        Inr (serializedP, serializedQ, serializedT))))))"

definition finishEncode :: "sse42 option \<Rightarrow> ChunkMetadata \<Rightarrow> u8 list \<Rightarrow> u8 list \<times> size_t \<Rightarrow> u8 list result" where
  "finishEncode cpu m header = (\<lambda>(payload, written).
     res_bind (throw_if (written \<noteq> cm_storedSize m)
       (Invalid_argument ''Chunk stored size metadata does not match payload'')) (\<lambda>_.
     res_bind (calculateChecksum cpu (header @ payload)) (\<lambda>checksum.
     res_bind (throw_if (cm_checksumValue m \<noteq> checksum)
       (Invalid_argument ''Chunk checksum metadata does not match payload'')) (\<lambda>_.
     Inr (storeU32 (header @ payload) chunkChecksumOffset checksum)))))"

definition ChunkCodec_encode :: "sse42 option \<Rightarrow> gmp \<Rightarrow> lz4 \<Rightarrow> Chunk \<Rightarrow> u8 list result option" where
  "ChunkCodec_encode cpu g z chunk =
     (case encodeSerialized g chunk of
        Inl e \<Rightarrow> Some (Inl e)
      | Inr (p, q, t) \<Rightarrow>
          (case makeHeader (chunk_metadata chunk) p q t of
             Inl e \<Rightarrow> Some (Inl e)
           | Inr header \<Rightarrow>
               map_option (\<lambda>r. res_bind r (finishEncode cpu (chunk_metadata chunk) header))
                 (fillPayload z (chunk_metadata chunk) p q t)))"

abbreviation truncated_chunk :: string where
  "truncated_chunk \<equiv> ''Truncated runtime chunk''"

definition decodeChunkComputation :: "(u8 list, ComputationIdentity) action" where
  "decodeChunkComputation =
     st_bind (readU16 truncated_chunk) (\<lambda>algorithm.
     st_bind (readU16 truncated_chunk) (\<lambda>arithmeticVersion.
     st_bind (readU16 truncated_chunk) (\<lambda>formulaVersion.
     st_bind (readU16 truncated_chunk) (\<lambda>reserved.
     st_bind (st_throw_if (reserved \<noteq> 0) (Invalid_argument ''Non-zero runtime chunk reserved field'')) (\<lambda>_.
     st_bind (readU64 truncated_chunk) (\<lambda>requestedDigits.
     st_bind (readU32 truncated_chunk) (\<lambda>guardDigits.
     st_bind (readU32 truncated_chunk) (\<lambda>reserved.
     st_bind (st_throw_if (reserved \<noteq> 0) (Invalid_argument ''Non-zero runtime chunk reserved field'')) (\<lambda>_.
     st_bind (readU64 truncated_chunk) (\<lambda>workingDigits.
     st_bind (readU64 truncated_chunk) (\<lambda>termCount.
     let computation = \<lparr>id_algorithm = algorithm, id_arithmeticVersion = arithmeticVersion, id_formulaVersion = formulaVersion,
           id_requestedDigits = requestedDigits, id_guardDigits = guardDigits, id_workingDigits = workingDigits,
           id_termCount = termCount\<rparr>
     in st_bind (st_lift (ComputationIdentity_validate computation)) (\<lambda>_. st_return computation))))))))))))"

definition decodeChunkLocation :: "ComputationIdentity \<Rightarrow> (u8 list, BlockLocation) action" where
  "decodeChunkLocation computation =
     st_bind (readU64 truncated_chunk) (\<lambda>s.
     st_bind (readU64 truncated_chunk) (\<lambda>e.
     st_bind (readU32 truncated_chunk) (\<lambda>treeLevel.
     let location = \<lparr>loc_start = s, loc_end = e, loc_treeLevel = treeLevel\<rparr>
     in st_bind (st_lift (BlockLocation_validate location computation)) (\<lambda>_. st_return location))))"

definition decodeChunkPrefix :: "(u8 list, unit) action" where
  "decodeChunkPrefix =
     st_bind (reader_take truncated_chunk (length chunkMagic)) (\<lambda>magic.
     st_bind (st_throw_if (magic \<noteq> chunkMagic) (Invalid_argument ''Invalid runtime chunk magic'')) (\<lambda>_.
     st_bind (readU16 truncated_chunk) (\<lambda>version.
     st_bind (st_throw_if (version \<noteq> chunkFormatVersion) (Invalid_argument ''Unsupported runtime chunk version'')) (\<lambda>_.
     st_bind (readU16 truncated_chunk) (\<lambda>headerSize.
     st_bind (st_throw_if (headerSize \<noteq> chunkHeaderSize) (Invalid_argument ''Unsupported runtime chunk version'')) (\<lambda>_.
     st_bind (readU32 truncated_chunk) (\<lambda>flags.
     st_throw_if (flags \<noteq> 0) (Invalid_argument ''Unsupported runtime chunk flags''))))))))"

record chunk_fields =
  cf_compression :: u16
  cf_checksumAlgorithm :: u16
  cf_uncompressedSize :: u64
  cf_storedSize :: u64
  cf_signs :: "u8 \<times> u8 \<times> u8"
  cf_lengths :: "size_t \<times> size_t \<times> size_t"
  cf_checksumValue :: u32

definition decodeChunkFields :: "(u8 list, chunk_fields) action" where
  "decodeChunkFields =
     st_bind (readU16 truncated_chunk) (\<lambda>compression.
     st_bind (readU16 truncated_chunk) (\<lambda>checksumAlgorithm.
     st_bind (readU16 truncated_chunk) (\<lambda>checksumLength.
     st_bind (st_throw_if (unat checksumLength \<noteq> chunkChecksumSize)
       (Invalid_argument ''Invalid runtime chunk checksum metadata'')) (\<lambda>_.
     st_bind (readU16 truncated_chunk) (\<lambda>reserved.
     st_bind (st_throw_if (reserved \<noteq> 0) (Invalid_argument ''Invalid runtime chunk checksum metadata'')) (\<lambda>_.
     st_bind (readU64 truncated_chunk) (\<lambda>uncompressedSize.
     st_bind (readU64 truncated_chunk) (\<lambda>storedSize.
     st_bind (readU8 truncated_chunk) (\<lambda>pSign.
     st_bind (readU8 truncated_chunk) (\<lambda>qSign.
     st_bind (readU8 truncated_chunk) (\<lambda>tSign.
     st_bind (readU8 truncated_chunk) (\<lambda>reserved.
     st_bind (st_throw_if (reserved \<noteq> 0) (Invalid_argument ''Non-zero runtime chunk reserved field'')) (\<lambda>_.
     st_bind (readU64 truncated_chunk) (\<lambda>p.
     st_bind (st_lift (chunk_checkedSize p)) (\<lambda>pLength.
     st_bind (readU64 truncated_chunk) (\<lambda>q.
     st_bind (st_lift (chunk_checkedSize q)) (\<lambda>qLength.
     st_bind (readU64 truncated_chunk) (\<lambda>t.
     st_bind (st_lift (chunk_checkedSize t)) (\<lambda>tLength.
     st_bind (readU32 truncated_chunk) (\<lambda>checksumValue.
     st_return \<lparr>cf_compression = compression, cf_checksumAlgorithm = checksumAlgorithm, cf_uncompressedSize = uncompressedSize,
       cf_storedSize = storedSize, cf_signs = (pSign, qSign, tSign), cf_lengths = (pLength, qLength, tLength),
       cf_checksumValue = checksumValue\<rparr>))))))))))))))))))))"

text \<open>The payload, split into the three magnitudes.\<close>

definition decodeChunkPayload :: "gmp \<Rightarrow> chunk_fields \<Rightarrow> u8 list \<Rightarrow> (int \<times> int \<times> int) result" where
  "decodeChunkPayload g f payload =
     (case (cf_signs f, cf_lengths f) of ((pSign, qSign, tSign), (pLength, qLength, tLength)) \<Rightarrow>
        res_bind (chunk_checkedAdd pLength qLength) (\<lambda>s.
        res_bind (chunk_checkedAdd s tLength) (\<lambda>payloadLength.
        res_bind (throw_if (unat payloadLength \<noteq> length payload)
          (Invalid_argument ''Runtime chunk payload lengths mismatch'')) (\<lambda>_.
        res_bind (GMPSerialization_decode g pSign (take (unat pLength) payload)) (\<lambda>p.
        res_bind (GMPSerialization_decode g qSign (take (unat qLength) (drop (unat pLength) payload))) (\<lambda>q.
        res_bind (GMPSerialization_decode g tSign (take (unat tLength) (drop (unat (pLength + qLength)) payload))) (\<lambda>t.
        Inr (p, q, t))))))))"

definition decodeChunk :: "sse42 option \<Rightarrow> gmp \<Rightarrow> lz4 \<Rightarrow> u8 list \<Rightarrow> (u8 list, Chunk) action" where
  "decodeChunk cpu g z bytes =
     st_bind decodeChunkPrefix (\<lambda>_.
     st_bind decodeChunkComputation (\<lambda>computation.
     st_bind (decodeChunkLocation computation) (\<lambda>location.
     st_bind decodeChunkFields (\<lambda>f.
     st_bind (st_lift (ChunkIdentity_create computation location)) (\<lambda>identity.
     st_bind (st_lift (ChunkMetadata_create identity (cf_uncompressedSize f) (cf_storedSize f) (cf_checksumAlgorithm f)
       (cf_checksumValue f) (cf_compression f) chunkFormatVersion)) (\<lambda>metadata.
     st_bind (st_lift (calculateChecksum cpu bytes)) (\<lambda>calculatedChecksum.
     st_bind (\<lambda>rest. (Inr (length rest), rest)) (\<lambda>remaining.
     st_bind (st_throw_if (unat (cf_storedSize f) \<noteq> remaining \<or> cf_checksumValue f \<noteq> calculatedChecksum)
       (Invalid_argument ''Runtime chunk checksum or size mismatch'')) (\<lambda>_.
     st_bind (reader_take truncated_chunk remaining) (\<lambda>stored.
     st_bind (st_lift (CompressionCodecs_forAlgorithm z (cf_compression f))) (\<lambda>codec.
     st_bind (st_lift (codec_decompress codec stored (cf_uncompressedSize f) maxChunkPayloadBytes)) (\<lambda>payload.
     st_bind (st_lift (decodeChunkPayload g f payload)) (\<lambda>(p, q, t).
     st_return \<lparr>chunk_metadata = metadata, chunk_p = p, chunk_q = q, chunk_t = t\<rparr>)))))))))))))"

definition ChunkCodec_decode :: "sse42 option \<Rightarrow> gmp \<Rightarrow> lz4 \<Rightarrow> u8 list \<Rightarrow> Chunk result" where
  "ChunkCodec_decode cpu g z bytes = fst (decodeChunk cpu g z bytes bytes)"

section \<open>The layout of a chunk\<close>

lemma length_chunkHeader: "length (chunkHeader m p q t c) = 132"
  by (simp add: chunkHeader_def chunkMagic_def)

lemma makeHeader_eq: "makeHeader m p q t = Inr (chunkHeader m p q t 0)"
  by (simp add: makeHeader_def length_chunkHeader chunkHeaderSize_def)

lemma chunkHeader_split: "\<exists>pre. length pre = 128 \<and> (\<forall>c. chunkHeader m p q t c = pre @ appendU32 c)"
proof -
  have "\<exists>pre. \<forall>c. chunkHeader m p q t c = pre @ appendU32 c"
    unfolding chunkHeader_def append_assoc [symmetric] by blast
  then obtain pre where "\<And>c. chunkHeader m p q t c = pre @ appendU32 c"
    by blast
  then show ?thesis
    using length_chunkHeader [of m p q t 0] by (intro exI [of _ pre]) simp
qed

text \<open>The checksum leaves its slot out, so storing it does not change it.\<close>

lemma calculateChecksum_slot:
  "calculateChecksum cpu (chunkHeader m p q t c @ bs) = calculateChecksum cpu (chunkHeader m p q t c' @ bs)"
proof -
  obtain pre where "length pre = 128" "\<And>c. chunkHeader m p q t c = pre @ appendU32 c"
    using chunkHeader_split by blast
  then show ?thesis
    by (simp add: calculateChecksum_def chunkChecksumOffset_def chunkChecksumSize_def)
qed

lemma calculateChecksum_total: "132 \<le> length bytes \<Longrightarrow> \<exists>c. calculateChecksum cpu bytes = Inr c"
  by (simp add: calculateChecksum_def chunkHeaderSize_def)

lemma store_chunk_checksum:
  "storeU32 (chunkHeader m p q t c @ bs) chunkChecksumOffset c' = chunkHeader m p q t c' @ bs"
proof -
  obtain pre where "length pre = 128" "\<And>c. chunkHeader m p q t c = pre @ appendU32 c"
    using chunkHeader_split by blast
  then show ?thesis
    by (simp add: storeU32_def chunkChecksumOffset_def)
qed

lemma chunk_checkedAdd_Inr:
  "chunk_checkedAdd a b = Inr s \<longleftrightarrow> unat a + unat b < 2 ^ 64 \<and> unat s = unat a + unat b"
proof -
  have "unat (- 1 - a) = 2 ^ 64 - 1 - unat a"
    by (subst unat_sub_le) (simp_all add: unat_max_word)
  then have "\<not> b > - 1 - a \<longleftrightarrow> unat a + unat b < 2 ^ 64"
    using unat_u64_less [of a] by (auto simp: word_less_nat_alt)
  then show ?thesis
    by (auto simp: chunk_checkedAdd_def res_elim word_unat_eq_iff unat_add_no_wrap)
qed

section \<open>Encoding and decoding\<close>

abbreviation serialized :: "gmp \<Rightarrow> int \<Rightarrow> SerializedGMPInteger" where
  "serialized g a \<equiv> \<lparr>ser_sign = GMPSerialization_sign g a, ser_magnitude = mpz_export_be g a\<rparr>"

definition chunk_payload :: "gmp \<Rightarrow> Chunk \<Rightarrow> u8 list" where
  "chunk_payload g c = mpz_export_be g (chunk_p c) @ mpz_export_be g (chunk_q c) @ mpz_export_be g (chunk_t c)"

definition values_fit :: "Chunk \<Rightarrow> bool" where
  "values_fit c \<longleftrightarrow> gmp_fits (chunk_p c) \<and> gmp_fits (chunk_q c) \<and> gmp_fits (chunk_t c)"

context gmp_library begin

lemma serialize_fits: "gmp_fits a \<Longrightarrow> GMPSerialization_encode g a = Inr (serialized g a)"
  by (rule magnitude_codec) (auto simp: GMPSerialization_encode_def)

lemma export_length_fits: "gmp_fits a \<Longrightarrow> length (mpz_export_be g a) < 2 ^ 61"
proof (cases "a = 0")
  case False
  assume "gmp_fits a"
  then have "nat (bitlen \<bar>a\<bar>) \<le> 2 ^ 64 - 8"
    by (simp add: gmp_fits_def nat_le_iff)
  then show ?thesis
    using export_bitlen [OF False] by simp
qed (simp add: mpz_export_zero)

lemma decodeChunkPayload_ok:
  assumes fits: "values_fit c" and small: "length (chunk_payload g c) \<le> 2 ^ 30"
    and f: "cf_signs f = (GMPSerialization_sign g (chunk_p c), GMPSerialization_sign g (chunk_q c), GMPSerialization_sign g (chunk_t c))"
      "cf_lengths f = (vec_size (mpz_export_be g (chunk_p c)), vec_size (mpz_export_be g (chunk_q c)), vec_size (mpz_export_be g (chunk_t c)))"
  shows "decodeChunkPayload g f (chunk_payload g c) = Inr (chunk_p c, chunk_q c, chunk_t c)"
proof -
  let ?n = "\<lambda>a. length (mpz_export_be g a)"
  have len: "?n (chunk_p c) + ?n (chunk_q c) + ?n (chunk_t c) \<le> 2 ^ 30"
    using small by (simp add: chunk_payload_def)
  have u: "unat (vec_size (mpz_export_be g a)) = ?n a" if "?n a \<le> 2 ^ 30" for a
    using that by (intro unat_of_nat_u64) simp
  have us: "unat (vec_size (mpz_export_be g (chunk_p c))) = ?n (chunk_p c)" "unat (vec_size (mpz_export_be g (chunk_q c))) = ?n (chunk_q c)"
    "unat (vec_size (mpz_export_be g (chunk_t c))) = ?n (chunk_t c)"
    using len by (intro u; simp)+
  obtain a :: u64 where a: "unat a = ?n (chunk_p c) + ?n (chunk_q c)"
    using ex_unat_u64 [of "?n (chunk_p c) + ?n (chunk_q c)"] len by auto
  obtain b :: u64 where b: "unat b = ?n (chunk_p c) + ?n (chunk_q c) + ?n (chunk_t c)"
    using ex_unat_u64 [of "?n (chunk_p c) + ?n (chunk_q c) + ?n (chunk_t c)"] len by auto
  have add: "chunk_checkedAdd (vec_size (mpz_export_be g (chunk_p c))) (vec_size (mpz_export_be g (chunk_q c))) = Inr a"
    "chunk_checkedAdd a (vec_size (mpz_export_be g (chunk_t c))) = Inr b"
    unfolding chunk_checkedAdd_Inr us a b using len by simp_all
  have wa: "vec_size (mpz_export_be g (chunk_p c)) + vec_size (mpz_export_be g (chunk_q c)) = a"
    using add(1) by (auto simp: chunk_checkedAdd_def res_elim)
  have dec: "GMPSerialization_decode g (GMPSerialization_sign g x) (mpz_export_be g x) = Inr x" if "gmp_fits x" for x
    by (rule magnitude_codec [OF that])
  show ?thesis
    using fits by (simp only: decodeChunkPayload_def f prod.case add res_bind_Inr wa us a b chunk_payload_def values_fit_def)
      (simp add: dec)
qed

end

lemma decodeChunkPrefix_ok:
  "decodeChunkPrefix (chunkMagic @ appendU16 1 @ appendU16 chunkHeaderSize @ appendU32 0 @ rest) = (Inr (), rest)"
  by (simp add: decodeChunkPrefix_def st_bind_def chunkFormatVersion_def)

lemma decodeChunkComputation_ok:
  "ComputationIdentity_validate i = Inr () \<Longrightarrow>
   decodeChunkComputation (appendU16 (id_algorithm i) @ appendU16 (id_arithmeticVersion i)
     @ appendU16 (id_formulaVersion i) @ appendU16 0 @ appendU64 (id_requestedDigits i)
     @ appendU32 (id_guardDigits i) @ appendU32 0 @ appendU64 (id_workingDigits i)
     @ appendU64 (id_termCount i) @ rest) = (Inr i, rest)"
  by (cases i) (simp add: decodeChunkComputation_def st_bind_def Let_def)

lemma decodeChunkLocation_ok:
  "BlockLocation_validate l i = Inr () \<Longrightarrow>
   decodeChunkLocation i (appendU64 (loc_start l) @ appendU64 (loc_end l) @ appendU32 (loc_treeLevel l) @ rest) = (Inr l, rest)"
  by (cases l) (simp add: decodeChunkLocation_def st_bind_def Let_def)

lemma decodeChunkFields_ok:
  assumes "n \<le> maxChunkPayloadBytes" "n' \<le> maxChunkPayloadBytes" "n'' \<le> maxChunkPayloadBytes"
  shows "decodeChunkFields (appendU16 compression @ appendU16 algorithm @ appendU16 (of_nat chunkChecksumSize) @ appendU16 0
     @ appendU64 u @ appendU64 s @ appendU8 a @ appendU8 b @ appendU8 c @ appendU8 0
     @ appendU64 n @ appendU64 n' @ appendU64 n'' @ appendU32 sm @ rest)
   = (Inr \<lparr>cf_compression = compression, cf_checksumAlgorithm = algorithm, cf_uncompressedSize = u, cf_storedSize = s,
        cf_signs = (a, b, c), cf_lengths = (n, n', n''), cf_checksumValue = sm\<rparr>, rest)"
  using assms by (simp add: decodeChunkFields_def st_bind_def chunkChecksumSize_def chunk_checkedSize_def not_less throw_if_def)

lemma decode_chunk_ok:
  assumes g: "gmp_library g" and m: "ChunkMetadata_validate m = Inr ()" and c: "c = \<lparr>chunk_metadata = m, chunk_p = p, chunk_q = q, chunk_t = t\<rparr>"
    and fits: "values_fit c" and size: "length (chunk_payload g c) = unat (cm_uncompressedSize m)"
    and stored: "length stored = unat (cm_storedSize m)"
    and codec: "CompressionCodecs_forAlgorithm z (cm_compression m) = Inr codec"
      "codec_decompress codec stored (cm_uncompressedSize m) maxChunkPayloadBytes = Inr (chunk_payload g c)"
    and sum: "calculateChecksum cpu (chunkHeader m (serialized g p) (serialized g q) (serialized g t) (cm_checksumValue m) @ stored)
      = Inr (cm_checksumValue m)"
  shows "ChunkCodec_decode cpu g z (chunkHeader m (serialized g p) (serialized g q) (serialized g t) (cm_checksumValue m) @ stored) = Inr c"
proof -
  let ?bytes = "chunkHeader m (serialized g p) (serialized g q) (serialized g t) (cm_checksumValue m) @ stored"
  let ?f = "\<lparr>cf_compression = cm_compression m, cf_checksumAlgorithm = cm_checksumAlgorithm m,
     cf_uncompressedSize = cm_uncompressedSize m, cf_storedSize = cm_storedSize m,
     cf_signs = (GMPSerialization_sign g p, GMPSerialization_sign g q, GMPSerialization_sign g t),
     cf_lengths = (vec_size (mpz_export_be g p), vec_size (mpz_export_be g q), vec_size (mpz_export_be g t)),
     cf_checksumValue = cm_checksumValue m\<rparr>"
  have v: "ComputationIdentity_validate (ci_computation (cm_identity m)) = Inr ()"
    "BlockLocation_validate (ci_location (cm_identity m)) (ci_computation (cm_identity m)) = Inr ()" "cm_formatVersion m = 1"
    "cm_uncompressedSize m \<le> maxChunkPayloadBytes"
    using m by (simp_all add: ChunkMetadata_validate_Inr ChunkIdentity_validate_Inr)
  have small: "length (chunk_payload g c) \<le> 2 ^ 30"
    unfolding size using v(4) by (simp add: word_le_nat_alt)
  have "vec_size (mpz_export_be g a) \<le> maxChunkPayloadBytes" if "length (mpz_export_be g a) \<le> length (chunk_payload g c)" for a
    unfolding word_le_nat_alt max_payload using that small by (subst unat_of_nat_u64) simp_all
  then have n: "vec_size (mpz_export_be g p) \<le> maxChunkPayloadBytes" "vec_size (mpz_export_be g q) \<le> maxChunkPayloadBytes"
    "vec_size (mpz_export_be g t) \<le> maxChunkPayloadBytes"
    by (simp_all add: chunk_payload_def c)
  have pl: "decodeChunkPayload g ?f (chunk_payload g c) = Inr (p, q, t)"
    using gmp_library.decodeChunkPayload_ok [OF g fits small, of ?f] by (simp add: c)
  have id: "ChunkIdentity_create (ci_computation (cm_identity m)) (ci_location (cm_identity m)) = Inr (cm_identity m)"
    using v(1,2) by (simp add: ChunkIdentity_create_Inr ChunkIdentity_validate_Inr)
  have md: "ChunkMetadata_create (cm_identity m) (cm_uncompressedSize m) (cm_storedSize m) (cm_checksumAlgorithm m)
      (cm_checksumValue m) (cm_compression m) chunkFormatVersion = Inr m"
  proof -
    have "\<lparr>cm_identity = cm_identity m, cm_uncompressedSize = cm_uncompressedSize m, cm_storedSize = cm_storedSize m,
        cm_checksumAlgorithm = cm_checksumAlgorithm m, cm_checksumValue = cm_checksumValue m, cm_compression = cm_compression m,
        cm_formatVersion = chunkFormatVersion\<rparr> = m"
      using v(3) by (simp add: chunkFormatVersion_def)
    then show ?thesis
      by (simp add: ChunkMetadata_create_def m)
  qed
  have take: "reader_take truncated_chunk (length stored) stored = (Inr stored, [])"
    by (simp add: reader_take_def)
  have "decodeChunk cpu g z bytes ?bytes = (Inr c, [])" if "calculateChecksum cpu bytes = Inr (cm_checksumValue m)" for bytes
    unfolding decodeChunk_def chunkHeader_def append_assoc v(3)
    by (simp add: st_bind_def decodeChunkPrefix_ok decodeChunkComputation_ok [OF v(1)] decodeChunkLocation_ok [OF v(2)]
        decodeChunkFields_ok [OF n] id md that stored [symmetric] take codec pl) (simp add: c)
  then show ?thesis
    using sum by (simp add: ChunkCodec_decode_def)
qed

text \<open>What a successful encoding consists of.\<close>

lemma encodeSerialized_fits:
  assumes g: "gmp_library g" and fits: "values_fit c"
  shows "encodeSerialized g c = Inr r \<longleftrightarrow> ChunkMetadata_validate (chunk_metadata c) = Inr ()
    \<and> unat (cm_uncompressedSize (chunk_metadata c)) = length (chunk_payload g c)
    \<and> r = (serialized g (chunk_p c), serialized g (chunk_q c), serialized g (chunk_t c))"
proof -
  let ?n = "\<lambda>a. length (mpz_export_be g a)"
  let ?w = "vec_size (mpz_export_be g (chunk_p c)) + vec_size (mpz_export_be g (chunk_q c)) + vec_size (mpz_export_be g (chunk_t c))"
  have f: "gmp_fits (chunk_p c)" "gmp_fits (chunk_q c)" "gmp_fits (chunk_t c)"
    using fits by (simp_all add: values_fit_def)
  note l = f [THEN gmp_library.export_length_fits [OF g]]
  have eq: "?w = of_nat (length (chunk_payload g c))"
    by (simp add: chunk_payload_def)
  have "length (chunk_payload g c) < 2 ^ 64"
    using l by (simp add: chunk_payload_def)
  then have w: "unat ?w = length (chunk_payload g c)"
    unfolding eq by (rule unat_of_nat_u64)
  show ?thesis
    by (auto simp: encodeSerialized_def f [THEN gmp_library.serialize_fits [OF g]] res_bind_eq_Inr_iff word_unat_eq_iff w simp del: of_nat_add)
qed

lemma fillPayload_restores:
  assumes z: "lz4_library z" and m: "ChunkMetadata_validate m = Inr ()"
    and payload: "ser_magnitude p @ ser_magnitude q @ ser_magnitude t = payload" "length payload \<le> 2 ^ 30"
    and fill: "fillPayload z m p q t = Some (Inr (stored, cm_storedSize m))"
  shows "length stored = unat (cm_storedSize m) \<and> (\<exists>codec. CompressionCodecs_forAlgorithm z (cm_compression m) = Inr codec
    \<and> codec_decompress codec stored (vec_size payload) maxChunkPayloadBytes = Inr payload)"
proof (cases "cm_compression m = CompressionAlgorithm_none")
  case True
  then have "vec_size payload = cm_storedSize m" "stored = payload @ replicate (unat (cm_storedSize m) - length payload) 0"
    using fill payload(1) by (auto simp: fillPayload_def Let_def split: if_splits)
  moreover have "unat (vec_size payload) = length payload"
    using payload(2) by (intro unat_of_nat_u64) simp
  ultimately show ?thesis
    using True none_restores [OF payload(2)] by (auto simp: CompressionCodecs_forAlgorithm_def)
next
  case False
  then have lz: "CompressionCodecs_forAlgorithm z (cm_compression m) = Inr (Lz4CompressionCodec z)"
    using m by (auto simp: CompressionCodecs_forAlgorithm_def ChunkMetadata_validate_Inr compression_defs)
  obtain w where w: "codec_compressInto (Lz4CompressionCodec z) payload (cm_storedSize m) = Inr w"
    "vec_size w = cm_storedSize m" "stored = w @ replicate (unat (cm_storedSize m) - length w) 0"
    using False fill payload(1) lz
    by (auto simp: fillPayload_def Let_def canonicalPayload_def res_bind_eq_Inr_iff)
  have le: "cm_storedSize m \<le> maxChunkPayloadBytes"
    using m by (simp add: ChunkMetadata_validate_Inr)
  have "length w \<le> unat (cm_storedSize m)"
    by (rule lz4_library.lz4_restores(2) [OF z w(1) le payload(2)])
  then have "unat (vec_size w) = length w"
    using unat_u64_less [of "cm_storedSize m"] by (intro unat_of_nat_u64) simp
  then have "length w = unat (cm_storedSize m)"
    using w(2) by simp
  then show ?thesis
    using lz w(3) lz4_library.lz4_restores(1) [OF z w(1) le payload(2)] by simp
qed

lemma encode_chunk_Inr:
  assumes g: "gmp_library g" and fits: "values_fit c" and enc: "ChunkCodec_encode cpu g z c = Some (Inr bytes)"
  obtains stored where "ChunkMetadata_validate (chunk_metadata c) = Inr ()"
    "unat (cm_uncompressedSize (chunk_metadata c)) = length (chunk_payload g c)"
    "fillPayload z (chunk_metadata c) (serialized g (chunk_p c)) (serialized g (chunk_q c)) (serialized g (chunk_t c))
       = Some (Inr (stored, cm_storedSize (chunk_metadata c)))"
    "bytes = chunkHeader (chunk_metadata c) (serialized g (chunk_p c)) (serialized g (chunk_q c)) (serialized g (chunk_t c))
       (cm_checksumValue (chunk_metadata c)) @ stored"
    "calculateChecksum cpu bytes = Inr (cm_checksumValue (chunk_metadata c))"
proof -
  let ?m = "chunk_metadata c"
  let ?h = "chunkHeader ?m (serialized g (chunk_p c)) (serialized g (chunk_q c)) (serialized g (chunk_t c))"
  obtain r where r: "encodeSerialized g c = Inr r"
    using enc by (cases "encodeSerialized g c") (auto simp: ChunkCodec_encode_def)
  then have v: "ChunkMetadata_validate ?m = Inr ()" "unat (cm_uncompressedSize ?m) = length (chunk_payload g c)"
    "r = (serialized g (chunk_p c), serialized g (chunk_q c), serialized g (chunk_t c))"
    by (simp_all add: encodeSerialized_fits [OF g fits])
  obtain f where f: "fillPayload z ?m (serialized g (chunk_p c)) (serialized g (chunk_q c)) (serialized g (chunk_t c)) = Some f"
    "res_bind f (finishEncode cpu ?m (?h 0)) = Inr bytes"
    using enc r v(3) by (auto simp: ChunkCodec_encode_def makeHeader_eq)
  then obtain stored where s: "f = Inr (stored, cm_storedSize ?m)" "calculateChecksum cpu (?h 0 @ stored) = Inr (cm_checksumValue ?m)"
    "bytes = storeU32 (?h 0 @ stored) chunkChecksumOffset (cm_checksumValue ?m)"
    by (auto simp: finishEncode_def res_bind_eq_Inr_iff)
  have "bytes = ?h (cm_checksumValue ?m) @ stored"
    using s(3) by (simp add: store_chunk_checksum)
  then show thesis
    using that [OF v(1,2)] f(1) s(1,2) calculateChecksum_slot by metis
qed

lemma chunk_decodes:
  assumes g: "gmp_library g" and z: "lz4_library z" and fits: "values_fit c"
    and enc: "ChunkCodec_encode cpu g z c = Some (Inr bytes)"
  shows "ChunkCodec_decode cpu g z bytes = Inr c"
proof -
  let ?m = "chunk_metadata c"
  obtain stored where e: "ChunkMetadata_validate ?m = Inr ()" "unat (cm_uncompressedSize ?m) = length (chunk_payload g c)"
    "fillPayload z ?m (serialized g (chunk_p c)) (serialized g (chunk_q c)) (serialized g (chunk_t c)) = Some (Inr (stored, cm_storedSize ?m))"
    "bytes = chunkHeader ?m (serialized g (chunk_p c)) (serialized g (chunk_q c)) (serialized g (chunk_t c)) (cm_checksumValue ?m) @ stored"
    "calculateChecksum cpu bytes = Inr (cm_checksumValue ?m)"
    by (rule encode_chunk_Inr [OF g fits enc])
  have "length (chunk_payload g c) \<le> 2 ^ 30"
    using e(1) unfolding e(2) [symmetric] by (simp add: ChunkMetadata_validate_Inr word_le_nat_alt)
  then obtain codec where s: "length stored = unat (cm_storedSize ?m)" "CompressionCodecs_forAlgorithm z (cm_compression ?m) = Inr codec"
    "codec_decompress codec stored (vec_size (chunk_payload g c)) maxChunkPayloadBytes = Inr (chunk_payload g c)"
    using fillPayload_restores [OF z e(1) _ _ e(3), of "chunk_payload g c"] by (auto simp: chunk_payload_def)
  have "vec_size (chunk_payload g c) = cm_uncompressedSize ?m"
    unfolding e(2) [symmetric] by simp
  then show ?thesis
    using decode_chunk_ok [OF g e(1) _ fits e(2) [symmetric] s(1,2) _ e(5) [unfolded e(4)]] s(3) e(4) by simp
qed

lemma canonicalPayload_ok:
  assumes "length (ser_magnitude p @ ser_magnitude q @ ser_magnitude t) < 2 ^ 64"
  shows "canonicalPayload p q t = Inr (ser_magnitude p @ ser_magnitude q @ ser_magnitude t)"
proof -
  obtain a :: u64 where a: "unat a = length (ser_magnitude p) + length (ser_magnitude q)"
    using ex_unat_u64 [of "length (ser_magnitude p) + length (ser_magnitude q)"] assms by auto
  obtain b :: u64 where b: "unat b = length (ser_magnitude p) + length (ser_magnitude q) + length (ser_magnitude t)"
    using ex_unat_u64 [of "length (ser_magnitude p) + length (ser_magnitude q) + length (ser_magnitude t)"] assms by auto
  have us: "unat (vec_size (ser_magnitude p)) = length (ser_magnitude p)" "unat (vec_size (ser_magnitude q)) = length (ser_magnitude q)"
    "unat (vec_size (ser_magnitude t)) = length (ser_magnitude t)"
    by (rule unat_of_nat_u64; use assms in simp)+
  have "chunk_checkedAdd (vec_size (ser_magnitude p)) (vec_size (ser_magnitude q)) = Inr a"
    "chunk_checkedAdd a (vec_size (ser_magnitude t)) = Inr b"
    unfolding chunk_checkedAdd_Inr us a b using assms by simp_all
  then show ?thesis
    by (simp add: canonicalPayload_def)
qed

text \<open>Without compression the metadata made for a chunk fits it.\<close>

lemma created_encodes:
  assumes g: "gmp_library g" and i: "ChunkIdentity_validate i = Inr ()" and fits: "gmp_fits p" "gmp_fits q" "gmp_fits t"
    and small: "payload_length g p q t \<le> 2 ^ 30"
  shows "\<exists>m bytes. createMetadata cpu g z i p q t CompressionAlgorithm_none = Inr m \<and> cm_identity m = i
    \<and> ChunkCodec_encode cpu g z \<lparr>chunk_metadata = m, chunk_p = p, chunk_q = q, chunk_t = t\<rparr> = Some (Inr bytes)
    \<and> length bytes = 132 + payload_length g p q t"
proof -
  let ?P = "mpz_export_be g p @ mpz_export_be g q @ mpz_export_be g t"
  let ?h = "\<lambda>m. chunkHeader m (serialized g p) (serialized g q) (serialized g t)"
  have len: "length ?P \<le> 2 ^ 30" "unat (vec_size ?P) = length ?P"
    using small unat_of_nat_u64 [of "length ?P"] by (simp_all add: payload_length_def)
  define m where "m = \<lparr>cm_identity = i, cm_uncompressedSize = vec_size ?P, cm_storedSize = vec_size ?P, cm_checksumAlgorithm = 1,
    cm_checksumValue = 0, cm_compression = 0, cm_formatVersion = 1\<rparr>"
  have lim: "vec_size ?P \<le> maxChunkPayloadBytes"
    unfolding word_le_nat_alt len(2) max_payload by (rule len(1))
  have valid: "ChunkMetadata_validate (m\<lparr>cm_checksumValue := x\<rparr>) = Inr ()" for x
    using i lim by (simp add: ChunkMetadata_validate_Inr m_def)
  obtain c where c: "calculateChecksum cpu (?h m 0 @ ?P) = Inr c"
    using calculateChecksum_total [of "?h m 0 @ ?P" cpu] by (auto simp: length_chunkHeader)
  have head: "?h (m\<lparr>cm_checksumValue := x\<rparr>) y = ?h m y" for x y
    by (simp add: chunkHeader_def)
  have "canonicalPayload (serialized g p) (serialized g q) (serialized g t) = Inr ?P"
    using canonicalPayload_ok [of "serialized g p" "serialized g q" "serialized g t"] len(1) by simp
  moreover have "codec_compress NoneCompressionCodec ?P maxChunkPayloadBytes = Inr ?P"
    using lim by (simp add: NoneCompressionCodec_def checkedCompressionSize_def throw_if_def del: of_nat_add length_append)
  moreover have "ChunkMetadata_create i (vec_size ?P) (vec_size ?P) ChunkChecksumAlgorithm_crc32c 0 CompressionAlgorithm_none chunkFormatVersion = Inr m"
    using valid [of 0] by (simp add: ChunkMetadata_create_def ChunkChecksumAlgorithm_crc32c_def compression_defs chunkFormatVersion_def m_def)
  ultimately have cm: "createMetadata cpu g z i p q t CompressionAlgorithm_none = Inr (m\<lparr>cm_checksumValue := c\<rparr>)"
    using c by (simp add: createMetadata_def fits [THEN gmp_library.serialize_fits [OF g]] CompressionCodecs_forAlgorithm_def makeHeader_eq
        del: of_nat_add length_append)
  let ?c = "\<lparr>chunk_metadata = m\<lparr>cm_checksumValue := c\<rparr>, chunk_p = p, chunk_q = q, chunk_t = t\<rparr>"
  have "encodeSerialized g ?c = Inr (serialized g p, serialized g q, serialized g t)"
    using valid [of c] fits len(2) by (simp add: encodeSerialized_fits [OF g] values_fit_def chunk_payload_def m_def)
  moreover have "fillPayload z (m\<lparr>cm_checksumValue := c\<rparr>) (serialized g p) (serialized g q) (serialized g t)
      = Some (Inr (?P, cm_storedSize m))"
    using len(2) by (simp add: fillPayload_def Let_def m_def compression_defs)
  ultimately have "ChunkCodec_encode cpu g z ?c = Some (Inr (?h m c @ ?P))"
    using c by (simp add: ChunkCodec_encode_def makeHeader_eq finishEncode_def head store_chunk_checksum)
  then show ?thesis
    using cm by (auto simp: length_chunkHeader payload_length_def m_def)
qed

text \<open>The chunk format keeps the contract of a checksummed format, so it detects damage as the other two do.\<close>

lemma decodeChunkPrefix_Inr: "decodeChunkPrefix bs = (Inr u, rest) \<Longrightarrow> \<exists>pre. bs = pre @ rest \<and> length pre = 16"
  by (auto simp: decodeChunkPrefix_def st_bind_eq_Inr read_iff reader_take_iff chunkMagic_def)

lemma decodeChunkComputation_Inr: "decodeChunkComputation bs = (Inr i, rest) \<Longrightarrow> \<exists>pre. bs = pre @ rest \<and> length pre = 40"
  by (auto simp: decodeChunkComputation_def st_bind_eq_Inr read_iff Let_def)

lemma decodeChunkLocation_Inr: "decodeChunkLocation i bs = (Inr l, rest) \<Longrightarrow> \<exists>pre. bs = pre @ rest \<and> length pre = 20"
  by (auto simp: decodeChunkLocation_def st_bind_eq_Inr read_iff Let_def)

lemma decodeChunkFields_Inr:
  "decodeChunkFields bs = (Inr f, rest) \<Longrightarrow> \<exists>pre. bs = pre @ appendU32 (cf_checksumValue f) @ rest \<and> length pre = 52"
proof -
  assume "decodeChunkFields bs = (Inr f, rest)"
  then obtain c a n u s x y z' p q t sm where
    "bs = (appendU16 c @ appendU16 a @ appendU16 n @ appendU16 0 @ appendU64 u @ appendU64 s @ appendU8 x @ appendU8 y @ appendU8 z'
       @ appendU8 0 @ appendU64 p @ appendU64 q @ appendU64 t) @ appendU32 sm @ rest" "cf_checksumValue f = sm"
    by (auto simp: decodeChunkFields_def st_bind_eq_Inr read_iff)
  then show ?thesis
    by (intro exI [of _ "appendU16 c @ appendU16 a @ appendU16 n @ appendU16 0 @ appendU64 u @ appendU64 s @ appendU8 x @ appendU8 y @ appendU8 z'
       @ appendU8 0 @ appendU64 p @ appendU64 q @ appendU64 t"]) simp
qed

lemma chunk_checksummed:
  assumes "cpu_ok cpu"
  shows "checksummed_format (ChunkCodec_decode cpu g z) 128"
proof
  fix bytes c
  assume "ChunkCodec_decode cpu g z bytes = Inr c"
  then obtain rest where "decodeChunk cpu g z bytes bytes = (Inr c, rest)"
    unfolding ChunkCodec_decode_def by (cases "decodeChunk cpu g z bytes bytes") simp
  then obtain b1 b2 b3 b4 i l f u where d: "decodeChunkPrefix bytes = (Inr u, b1)" "decodeChunkComputation b1 = (Inr i, b2)"
    "decodeChunkLocation i b2 = (Inr l, b3)" "decodeChunkFields b3 = (Inr f, b4)" "calculateChecksum cpu bytes = Inr (cf_checksumValue f)"
    unfolding decodeChunk_def st_bind_eq_Inr st_basic by (elim exE conjE) (rule that, assumption+, simp)
  obtain p1 p2 p3 p4 where p: "bytes = p1 @ b1" "b1 = p2 @ b2" "b2 = p3 @ b3" "b3 = p4 @ appendU32 (cf_checksumValue f) @ b4"
    "length p1 = 16" "length p2 = 40" "length p3 = 20" "length p4 = 52"
    using decodeChunkPrefix_Inr [OF d(1)] decodeChunkComputation_Inr [OF d(2)] decodeChunkLocation_Inr [OF d(3)]
      decodeChunkFields_Inr [OF d(4)] by blast
  define pre where "pre = p1 @ p2 @ p3 @ p4"
  have pre: "bytes = pre @ appendU32 (cf_checksumValue f) @ b4" "length pre = 128"
    using p by (simp_all add: pre_def)
  have "crc_ref (slot_zeroed 128 bytes) 0 = cf_checksumValue f"
    using d(5) by (auto simp: calculateChecksum_def res_elim chunkChecksumOffset_def chunkChecksumSize_def
        crc_calculate_eq [OF assms] crc_ref_append slot_zeroed_def)
  then show "128 + 4 \<le> length bytes \<and> take 4 (drop 128 bytes) = appendU32 (crc_ref (slot_zeroed 128 bytes) 0)"
    using pre by simp
qed

interpretation portable_chunk: checksummed_format "ChunkCodec_decode None gmp_ref lz4_ref" 128
  by (rule chunk_checksummed) simp

section \<open>Properties\<close>

text \<open>
  C27: Every chunk the encoder produces decodes to the chunk that was encoded, metadata and values, for
  both compressions and any LZ4 that restores what it compressed.  Without compression every
  valid identity with a payload of at most 2 ^ 30 bytes gets metadata with which it encodes.
\<close>

theorem ChunkCodec_roundtrip:
  assumes "gmp_library g" and "lz4_library z" and "gmp_fits p" and "gmp_fits q" and "gmp_fits t"
  shows "(\<forall>m bytes. ChunkCodec_encode cpu g z \<lparr>chunk_metadata = m, chunk_p = p, chunk_q = q, chunk_t = t\<rparr> = Some (Inr bytes)
      \<longrightarrow> ChunkCodec_decode cpu g z bytes = Inr \<lparr>chunk_metadata = m, chunk_p = p, chunk_q = q, chunk_t = t\<rparr>)
    \<and> (\<forall>i. ChunkIdentity_validate i = Inr () \<and> payload_length g p q t \<le> 2 ^ 30 \<longrightarrow>
        (\<exists>m bytes. createMetadata cpu g z i p q t CompressionAlgorithm_none = Inr m \<and> cm_identity m = i
          \<and> ChunkCodec_encode cpu g z \<lparr>chunk_metadata = m, chunk_p = p, chunk_q = q, chunk_t = t\<rparr> = Some (Inr bytes)))"
  using chunk_decodes [OF assms(1,2)] created_encodes [OF assms(1) _ assms(3-5)] assms(3-5)
  by (fastforce simp: values_fit_def)

lemma sample_values_fit: "gmp_fits 5" "gmp_fits 24" "gmp_fits (- 7)" "payload_length gmp_ref 5 24 (- 7) \<le> 2 ^ 30"
proof -
  show "payload_length gmp_ref 5 24 (- 7) \<le> 2 ^ 30"
    by (simp add: payload_length_def gmp_ref_def be_bytes.simps)
qed (use sample_fits in \<open>simp_all add: block_fits_def\<close>)

definition sample_chunk_identity :: ChunkIdentity where
  "sample_chunk_identity = \<lparr>ci_computation = sample_identity, ci_location = \<lparr>loc_start = 1, loc_end = 3, loc_treeLevel = 1\<rparr>\<rparr>"

lemma sample_chunk_valid: "ChunkIdentity_validate sample_chunk_identity = Inr ()"
  by code_simp

theorem ChunkCodec_roundtrip_witness:
  "\<exists>m bytes. createMetadata None gmp_ref lz4_ref sample_chunk_identity 5 24 (- 7) CompressionAlgorithm_none = Inr m
    \<and> ChunkCodec_encode None gmp_ref lz4_ref \<lparr>chunk_metadata = m, chunk_p = 5, chunk_q = 24, chunk_t = - 7\<rparr> = Some (Inr bytes)
    \<and> ChunkCodec_decode None gmp_ref lz4_ref bytes = Inr \<lparr>chunk_metadata = m, chunk_p = 5, chunk_q = 24, chunk_t = - 7\<rparr>"
  using ChunkCodec_roundtrip [OF gmp_ref.gmp_library_axioms lz4_ref.lz4_library_axioms sample_values_fit(1-3), of None]
    sample_chunk_valid sample_values_fit(4) by blast

text \<open>
  C29: The encoder writes past its output buffer exactly when the metadata is valid, claims no
  compression and the true payload size, but a smaller stored size: the sizes are compared only
  after the magnitudes were copied.
\<close>

theorem ChunkCodec_encode_overrun:
  assumes "gmp_library g" and "gmp_fits p" and "gmp_fits q" and "gmp_fits t"
  shows "ChunkCodec_encode cpu g z \<lparr>chunk_metadata = m, chunk_p = p, chunk_q = q, chunk_t = t\<rparr> = None \<longleftrightarrow>
    ChunkMetadata_validate m = Inr () \<and> cm_compression m = CompressionAlgorithm_none
    \<and> unat (cm_uncompressedSize m) = payload_length g p q t \<and> cm_storedSize m < cm_uncompressedSize m"
proof -
  let ?c = "\<lparr>chunk_metadata = m, chunk_p = p, chunk_q = q, chunk_t = t\<rparr>"
  have fits: "values_fit ?c" and len: "length (chunk_payload g ?c) = payload_length g p q t"
    using assms(2-4) by (simp_all add: values_fit_def chunk_payload_def payload_length_def)
  have "ChunkCodec_encode cpu g z ?c = None \<longleftrightarrow> (\<exists>r. encodeSerialized g ?c = Inr r \<and> (case r of (a, b, c) \<Rightarrow> fillPayload z m a b c = None))"
    by (auto simp: ChunkCodec_encode_def makeHeader_eq split: sum.splits prod.splits)
  also have "\<dots> \<longleftrightarrow> ChunkMetadata_validate m = Inr () \<and> unat (cm_uncompressedSize m) = payload_length g p q t
      \<and> fillPayload z m (serialized g p) (serialized g q) (serialized g t) = None"
    using encodeSerialized_fits [OF assms(1) fits] len by auto
  also have "fillPayload z m (serialized g p) (serialized g q) (serialized g t) = None
      \<longleftrightarrow> cm_compression m = CompressionAlgorithm_none \<and> unat (cm_storedSize m) < payload_length g p q t"
    by (simp add: fillPayload_def Let_def payload_length_def)
  finally show ?thesis
    by (auto simp: word_less_nat_alt)
qed

theorem ChunkCodec_encode_overrun_witness:
  "ChunkCodec_encode None gmp_ref lz4_ref \<lparr>chunk_metadata = \<lparr>cm_identity = sample_chunk_identity, cm_uncompressedSize = 3,
     cm_storedSize = 1, cm_checksumAlgorithm = 1, cm_checksumValue = 0, cm_compression = 0, cm_formatVersion = 1\<rparr>,
     chunk_p = 5, chunk_q = 24, chunk_t = - 7\<rparr> = None"
proof -
  have "payload_length gmp_ref 5 24 (- 7) = 3"
    by (simp add: payload_length_def gmp_ref_def be_bytes.simps)
  then show ?thesis
    using sample_chunk_valid
    by (simp add: ChunkCodec_encode_overrun [OF gmp_ref.gmp_library_axioms sample_values_fit(1-3)] ChunkMetadata_validate_Inr
        compression_defs maxChunkPayloadBytes_def)
qed

end
