(* ===== verification/Ordered_Map.thy ===== *)
theory Ordered_Map
  imports Main
begin

text \<open>
  \<open>std::map\<close> and \<open>std::set\<close> as the program uses them: the list of the entries in key order, searched
  with the comparison operator of the key.  Laws hold for every comparison that is the order of an
  injective key into a linear order.
\<close>

section \<open>Operations\<close>

type_synonym ('k, 'v) omap = "('k \<times> 'v) list"

fun map_find :: "('k \<Rightarrow> 'k \<Rightarrow> bool) \<Rightarrow> 'k \<Rightarrow> ('k, 'v) omap \<Rightarrow> 'v option" where
  "map_find lt k [] = None"
| "map_find lt k ((k', v) # m) =
     (if lt k k' then None else if lt k' k then map_find lt k m else Some v)"

text \<open>\<open>emplace\<close> leaves an existing entry alone.\<close>

fun map_emplace :: "('k \<Rightarrow> 'k \<Rightarrow> bool) \<Rightarrow> 'k \<Rightarrow> 'v \<Rightarrow> ('k, 'v) omap \<Rightarrow> ('k, 'v) omap" where
  "map_emplace lt k v [] = [(k, v)]"
| "map_emplace lt k v ((k', v') # m) =
     (if lt k k' then (k, v) # (k', v') # m
      else if lt k' k then (k', v') # map_emplace lt k v m
      else (k', v') # m)"

fun map_erase :: "('k \<Rightarrow> 'k \<Rightarrow> bool) \<Rightarrow> 'k \<Rightarrow> ('k, 'v) omap \<Rightarrow> ('k, 'v) omap" where
  "map_erase lt k [] = []"
| "map_erase lt k ((k', v) # m) =
     (if lt k k' then (k', v) # m else if lt k' k then (k', v) # map_erase lt k m else m)"

text \<open>\<open>m[k]\<close> changed in place, from a default value when the key is new.\<close>

fun map_update :: "('k \<Rightarrow> 'k \<Rightarrow> bool) \<Rightarrow> 'k \<Rightarrow> 'v \<Rightarrow> ('v \<Rightarrow> 'v) \<Rightarrow> ('k, 'v) omap \<Rightarrow> ('k, 'v) omap" where
  "map_update lt k d f [] = [(k, f d)]"
| "map_update lt k d f ((k', v) # m) =
     (if lt k k' then (k, f d) # (k', v) # m
      else if lt k' k then (k', v) # map_update lt k d f m
      else (k', f v) # m)"

section \<open>Laws\<close>

definition ordered_by :: "('k \<Rightarrow> 'o :: linorder) \<Rightarrow> ('k, 'v) omap \<Rightarrow> bool" where
  "ordered_by key m \<longleftrightarrow> sorted_wrt (<) (map (key \<circ> fst) m)"

lemma ordered_simps [simp]:
  "ordered_by key []"
  "ordered_by key ((k, v) # m) \<longleftrightarrow> (\<forall>(k', v') \<in> set m. key k < key k') \<and> ordered_by key m"
  by (auto simp: ordered_by_def)

lemma ordered_append:
  "ordered_by key (m @ n) \<longleftrightarrow> ordered_by key m \<and> ordered_by key n \<and> (\<forall>x \<in> set m. \<forall>y \<in> set n. key (fst x) < key (fst y))"
  by (auto simp: ordered_by_def sorted_wrt_append)

locale ordered_map =
  fixes lt :: "'k \<Rightarrow> 'k \<Rightarrow> bool"
    and key :: "'k \<Rightarrow> 'o :: linorder"
  assumes lt_key: "lt a b \<longleftrightarrow> key a < key b"
    and key_inject: "key a = key b \<Longrightarrow> a = b"
begin

lemma ordered_distinct: "ordered_by key m \<Longrightarrow> distinct (map fst m)"
  by (induction m) force+

lemma same_key: "\<not> lt a b \<Longrightarrow> \<not> lt b a \<Longrightarrow> a = b"
  using lt_key key_inject by (metis antisym_conv3)

lemma find_eq: "ordered_by key m \<Longrightarrow> map_find lt k m = map_of m k"
proof (induction m)
  case (Cons x m)
  obtain k' v where x: "x = (k', v)"
    by (cases x)
  have "map_of m k = None" if "lt k k'"
    using Cons.prems that by (force simp: x lt_key map_of_eq_None_iff)
  moreover have "k' \<noteq> k" if "lt k k' \<or> lt k' k"
    using that by (auto simp: lt_key)
  ultimately show ?case
    using Cons same_key [of k k'] by (auto simp: x)
qed simp

lemma emplace_new: "ordered_by key m \<Longrightarrow> map_of m k = None \<Longrightarrow>
  ordered_by key (map_emplace lt k v m) \<and> set (map_emplace lt k v m) = insert (k, v) (set m)"
proof (induction m)
  case (Cons x m)
  obtain k' w where x: "x = (k', w)"
    by (cases x)
  have "map_of m k = None" "k' \<noteq> k"
    using Cons.prems(2) by (auto simp: x split: if_splits)
  then consider "lt k k'" | "lt k' k" "\<not> lt k k'"
    using same_key by blast
  then show ?case
  proof cases
    case 1
    then show ?thesis
      using Cons.prems(1) by (auto simp: x lt_key)
  next
    case 2
    have "ordered_by key (map_emplace lt k v m)" "set (map_emplace lt k v m) = insert (k, v) (set m)"
      using Cons \<open>map_of m k = None\<close> by (simp_all add: x)
    moreover have "key k' < key k"
      using 2 lt_key by blast
    ultimately show ?thesis
      using Cons.prems(1) 2 by (auto simp: x)
  qed
qed simp

lemma emplace_last: "ordered_by key m \<Longrightarrow> \<forall>(k', v') \<in> set m. key k' < key k \<Longrightarrow> map_emplace lt k v m = m @ [(k, v)]"
  by (induction m) (auto simp: lt_key)

lemma erase_eq: "ordered_by key m \<Longrightarrow> map_erase lt k m = filter (\<lambda>x. fst x \<noteq> k) m"
proof (induction m)
  case (Cons x m)
  obtain k' w where x: "x = (k', w)"
    by (cases x)
  have later: "filter (\<lambda>x. fst x \<noteq> k) m = m" if "\<not> lt k' k"
    using Cons.prems that by (fastforce simp: x lt_key filter_id_conv)
  moreover have "k' \<noteq> k" if "lt k k' \<or> lt k' k"
    using that by (auto simp: lt_key)
  ultimately show ?case
    using Cons same_key [of k k'] by (auto simp: x lt_key)
qed simp

lemma erase_ordered: "ordered_by key m \<Longrightarrow> ordered_by key (map_erase lt k m)"
  unfolding erase_eq by (induction m) auto

lemma update_ordered: "ordered_by key m \<Longrightarrow> ordered_by key (map_update lt k d f m) \<and> fst ` set (map_update lt k d f m) = insert k (fst ` set m)"
proof (induction m)
  case (Cons x m)
  obtain k' w where x: "x = (k', w)"
    by (cases x)
  have IH: "ordered_by key (map_update lt k d f m)" "fst ` set (map_update lt k d f m) = insert k (fst ` set m)"
    using Cons by (auto simp: x)
  have keys: "(\<forall>(k'', v'') \<in> set (map_update lt k d f m). key k' < key k'') \<longleftrightarrow> (\<forall>a \<in> insert k (fst ` set m). key k' < key a)"
    unfolding IH(2) [symmetric] by auto
  consider "lt k k'" | "lt k' k" "\<not> lt k k'" | "k' = k"
    using same_key by blast
  then show ?case
  proof cases
    case 1
    then show ?thesis
      using Cons.prems by (auto simp: x lt_key)
  next
    case 2
    moreover have "key k' < key k"
      using 2 lt_key by blast
    ultimately show ?thesis
      using Cons.prems IH keys by (auto simp: x)
  next
    case 3
    moreover have "\<not> lt k k"
      by (simp add: lt_key)
    ultimately show ?thesis
      using Cons.prems by (auto simp: x)
  qed
qed simp

lemma update_find: "ordered_by key m \<Longrightarrow>
  map_of (map_update lt k d f m) = (map_of m)(k \<mapsto> f (case map_of m k of None \<Rightarrow> d | Some v \<Rightarrow> v))"
proof (induction m)
  case (Cons x m)
  obtain k' w where x: "x = (k', w)"
    by (cases x)
  have new: "map_of m k = None" if "lt k k'"
    using Cons.prems that by (force simp: x lt_key map_of_eq_None_iff)
  moreover have "k' \<noteq> k" if "lt k k' \<or> lt k' k"
    using that by (auto simp: lt_key)
  ultimately show ?case
    using Cons same_key [of k k'] by (auto simp: x fun_upd_twist)
qed simp

lemma update_last: "ordered_by key m \<Longrightarrow> \<forall>(k', v') \<in> set m. key k' < key k \<Longrightarrow> map_update lt k d f m = m @ [(k, f d)]"
  by (induction m) (auto simp: lt_key)

lemma update_at_last: "\<forall>(k', v') \<in> set m. key k' < key k \<Longrightarrow> map_update lt k d f (m @ [(k, v)]) = m @ [(k, f v)]"
  by (induction m) (auto simp: lt_key)

end

end
