(* ===== verification/Chunk_Index.thy ===== *)
theory Chunk_Index
  imports Chunk_Types Ordered_Map
begin

text \<open>
  The index of the chunks on disk (src/src/storage/ChunkIndex.cpp): a map from identities to storage
  metadata in which no two ranges of a tree level overlap, and its checksummed byte format.  A read
  outside the bytes that are deserialized is the outcome \<open>None\<close>.
\<close>

section \<open>Operations\<close>

record ChunkIndexEntry =
  ie_identity :: ChunkIdentity
  ie_storageFile :: string
  ie_uncompressedSize :: u64
  ie_storedSize :: u64
  ie_checksumAlgorithm :: u16
  ie_checksumValue :: u32
  ie_formatVersion :: u16

type_synonym ChunkIndex = "(ChunkIdentity, ChunkIndexEntry) omap"

definition indexMagic :: "u8 list" where
  "indexMagic = map (\<lambda>c. of_nat (of_char c)) ''PICHIDX'' @ [0]"

definition index_formatVersion :: u16 where "index_formatVersion = 1"

definition identitySize :: nat where "identitySize = 53"

definition index_checksumSize :: nat where "index_checksumSize = 4"

abbreviation truncated_index :: string where
  "truncated_index \<equiv> ''truncated chunk index''"

definition encodeIndexIdentity :: "ChunkIdentity \<Rightarrow> u8 list" where
  "encodeIndexIdentity c =
     appendU8 (ucast (id_algorithm (ci_computation c)))
     @ appendU16 (id_arithmeticVersion (ci_computation c)) @ appendU16 (id_formulaVersion (ci_computation c))
     @ appendU64 (id_requestedDigits (ci_computation c)) @ appendU32 (id_guardDigits (ci_computation c))
     @ appendU64 (id_workingDigits (ci_computation c)) @ appendU64 (id_termCount (ci_computation c))
     @ appendU32 (loc_treeLevel (ci_location c)) @ appendU64 (loc_start (ci_location c)) @ appendU64 (loc_end (ci_location c))"

definition decodeIndexIdentity :: "(u8 list, ChunkIdentity) action" where
  "decodeIndexIdentity =
     st_bind (\<lambda>rest. (throw_if (length rest < identitySize) (Invalid_argument ''truncated chunk identity''), rest)) (\<lambda>_.
     st_bind (readU8 truncated_index) (\<lambda>algorithm.
     st_bind (readU16 truncated_index) (\<lambda>arithmeticVersion.
     st_bind (readU16 truncated_index) (\<lambda>formulaVersion.
     st_bind (readU64 truncated_index) (\<lambda>requestedDigits.
     st_bind (readU32 truncated_index) (\<lambda>guardDigits.
     st_bind (readU64 truncated_index) (\<lambda>workingDigits.
     st_bind (readU64 truncated_index) (\<lambda>termCount.
     st_bind (readU32 truncated_index) (\<lambda>treeLevel.
     st_bind (readU64 truncated_index) (\<lambda>s.
     st_bind (readU64 truncated_index) (\<lambda>e.
     st_lift (ChunkIdentity_create
       \<lparr>id_algorithm = ucast algorithm, id_arithmeticVersion = arithmeticVersion, id_formulaVersion = formulaVersion,
         id_requestedDigits = requestedDigits, id_guardDigits = guardDigits, id_workingDigits = workingDigits,
         id_termCount = termCount\<rparr>
       \<lparr>loc_start = s, loc_end = e, loc_treeLevel = treeLevel\<rparr>))))))))))))"

definition overlaps :: "ChunkIdentity \<Rightarrow> ChunkIdentity \<Rightarrow> bool" where
  "overlaps a b \<longleftrightarrow> ci_computation a = ci_computation b
     \<and> loc_treeLevel (ci_location a) = loc_treeLevel (ci_location b)
     \<and> loc_start (ci_location a) < loc_end (ci_location b) \<and> loc_start (ci_location b) < loc_end (ci_location a)"

definition ChunkIndex_create :: ChunkIndex where
  "ChunkIndex_create = []"

definition index_contains :: "ChunkIdentity \<Rightarrow> ChunkIndex \<Rightarrow> bool" where
  "index_contains identity index \<longleftrightarrow> map_find ChunkIdentity_less identity index \<noteq> None"

text \<open>The characters of \<open>find_first_of\<close>: the C string ends at its NUL, which is not among them.\<close>

definition ChunkIndex_add :: "ChunkIndexEntry \<Rightarrow> ChunkIndex \<Rightarrow> ChunkIndex result" where
  "ChunkIndex_add entry index =
     res_bind (ChunkIdentity_validate (ie_identity entry)) (\<lambda>_.
     res_bind (throw_if (ie_storageFile entry = [] \<or> set (ie_storageFile entry) \<inter> {CHR ''/'', CHR 0x5C} \<noteq> {})
       (Invalid_argument ''chunk index storage file must be a plain filename'')) (\<lambda>_.
     res_bind (throw_if (ie_formatVersion entry \<noteq> chunkFormatVersion \<or> ie_checksumAlgorithm entry \<noteq> ChunkChecksumAlgorithm_crc32c)
       (Invalid_argument ''unsupported chunk index metadata'')) (\<lambda>_.
     res_bind (throw_if (ie_uncompressedSize entry > maxChunkPayloadBytes \<or> ie_storedSize entry > maxChunkPayloadBytes)
       (Invalid_argument ''chunk index size exceeds limit'')) (\<lambda>_.
     res_bind (throw_if (index_contains (ie_identity entry) index) (Invalid_argument ''duplicate chunk identity'')) (\<lambda>_.
     res_bind (throw_if (\<exists>(identity, existing) \<in> set index. overlaps identity (ie_identity entry))
       (Invalid_argument ''overlapping chunk ranges'')) (\<lambda>_.
     Inr (map_emplace ChunkIdentity_less (ie_identity entry) entry index)))))))"

definition ChunkIndex_add_metadata :: "ChunkMetadata \<Rightarrow> ChunkIndex \<Rightarrow> ChunkIndex result" where
  "ChunkIndex_add_metadata m index =
     res_bind (deterministicFilename (cm_identity m)) (\<lambda>name.
     ChunkIndex_add \<lparr>ie_identity = cm_identity m, ie_storageFile = name, ie_uncompressedSize = cm_uncompressedSize m,
       ie_storedSize = cm_storedSize m, ie_checksumAlgorithm = cm_checksumAlgorithm m, ie_checksumValue = cm_checksumValue m,
       ie_formatVersion = cm_formatVersion m\<rparr> index)"

definition ChunkIndex_remove :: "ChunkIdentity \<Rightarrow> ChunkIndex \<Rightarrow> ChunkIndex" where
  "ChunkIndex_remove identity index = map_erase ChunkIdentity_less identity index"

definition index_at :: "ChunkIdentity \<Rightarrow> ChunkIndex \<Rightarrow> ChunkIndexEntry result" where
  "index_at identity index =
     (case map_find ChunkIdentity_less identity index of
        None \<Rightarrow> Inl (Out_of_range ''chunk identity not found'') | Some entry \<Rightarrow> Inr entry)"

definition index_entries :: "ChunkIndex \<Rightarrow> ChunkIndexEntry list" where
  "index_entries index = map snd index"

text \<open>\<open>storedBytes\<close>: the sum, which stops at the largest number.\<close>

fun storedBytesLoop :: "u64 \<Rightarrow> ChunkIndex \<Rightarrow> u64" where
  "storedBytesLoop subtotal [] = subtotal"
| "storedBytesLoop subtotal ((identity, entry) # rest) =
     (if - 1 - subtotal < ie_storedSize entry then - 1 else storedBytesLoop (subtotal + ie_storedSize entry) rest)"

definition storedBytes :: "ChunkIndex \<Rightarrow> u64" where
  "storedBytes index = storedBytesLoop 0 index"

definition index_size :: "ChunkIndex \<Rightarrow> size_t" where
  "index_size index = of_nat (length index)"

definition encodeIndexEntry :: "ChunkIndexEntry \<Rightarrow> u8 list result" where
  "encodeIndexEntry entry =
     res_bind (throw_if (length (ie_storageFile entry) > unat (- 1 :: u32)) (Length_error ''chunk filename too long'')) (\<lambda>_.
     Inr (encodeIndexIdentity (ie_identity entry) @ appendU32 (of_nat (length (ie_storageFile entry)))
       @ map (\<lambda>c. of_nat (of_char c)) (ie_storageFile entry)
       @ appendU64 (ie_uncompressedSize entry) @ appendU64 (ie_storedSize entry) @ appendU16 (ie_checksumAlgorithm entry)
       @ appendU32 (ie_checksumValue entry) @ appendU16 (ie_formatVersion entry)))"

fun encodeIndexEntries :: "ChunkIndex \<Rightarrow> u8 list result" where
  "encodeIndexEntries [] = Inr []"
| "encodeIndexEntries ((identity, entry) # rest) =
     res_bind (encodeIndexEntry entry) (\<lambda>bytes. res_bind (encodeIndexEntries rest) (\<lambda>more. Inr (bytes @ more)))"

definition ChunkIndex_serialize :: "sse42 option \<Rightarrow> ChunkIndex \<Rightarrow> u8 list result" where
  "ChunkIndex_serialize cpu index =
     res_bind (throw_if (length index > unat (- 1 :: u32)) (Length_error ''too many chunk index entries'')) (\<lambda>_.
     res_bind (encodeIndexEntries index) (\<lambda>entries.
     let out = indexMagic @ appendU16 index_formatVersion @ appendU32 (of_nat (length index)) @ entries
     in Inr (out @ appendU32 (CRC32C_calculate cpu out 0))))"

text \<open>
  The name of an entry: its length is compared with what remains before the checksum, in unsigned
  arithmetic, and then that many bytes are read.
\<close>

definition readIndexName :: "(u8 list, string) paction" where
  "readIndexName =
     p_bind (p_lift (readU32 truncated_index)) (\<lambda>len rest.
     if ucast len > (vec_size rest - of_nat index_checksumSize :: u64)
     then Some (Inl (Invalid_argument ''invalid chunk filename length''), rest)
     else if unat len > length rest then None
     else Some (Inr (map (\<lambda>b. char_of (unat b)) (take (unat len) rest)), drop (unat len) rest))"

definition decodeIndexEntry :: "(u8 list, ChunkIndexEntry) paction" where
  "decodeIndexEntry =
     p_bind (p_lift decodeIndexIdentity) (\<lambda>identity.
     p_bind readIndexName (\<lambda>filename.
     p_lift (
       st_bind (readU64 truncated_index) (\<lambda>uncompressedSize.
       st_bind (readU64 truncated_index) (\<lambda>storedSize.
       st_bind (readU16 truncated_index) (\<lambda>checksumAlgorithm.
       st_bind (readU32 truncated_index) (\<lambda>checksumValue.
       st_bind (readU16 truncated_index) (\<lambda>version.
       st_return \<lparr>ie_identity = identity, ie_storageFile = filename, ie_uncompressedSize = uncompressedSize,
         ie_storedSize = storedSize, ie_checksumAlgorithm = checksumAlgorithm, ie_checksumValue = checksumValue,
         ie_formatVersion = version\<rparr>))))))))"

fun decodeIndexEntries :: "nat \<Rightarrow> ChunkIndex \<Rightarrow> (u8 list, ChunkIndex) paction" where
  "decodeIndexEntries 0 index = p_lift (st_return index)"
| "decodeIndexEntries (Suc n) index =
     p_bind decodeIndexEntry (\<lambda>entry.
     p_bind (p_lift (st_lift (ChunkIndex_add entry index))) (\<lambda>index. decodeIndexEntries n index))"

definition decodeIndex :: "(u8 list, ChunkIndex) paction" where
  "decodeIndex =
     p_bind (p_lift (readU16 truncated_index)) (\<lambda>version.
     p_bind (p_lift (st_throw_if (version \<noteq> index_formatVersion) (Invalid_argument ''unsupported chunk index version''))) (\<lambda>_.
     p_bind (p_lift (readU32 truncated_index)) (\<lambda>count.
     p_bind (decodeIndexEntries (unat count) ChunkIndex_create) (\<lambda>index.
     p_lift (\<lambda>rest. (res_bind (throw_if (length rest \<noteq> index_checksumSize)
       (Invalid_argument ''trailing chunk index data'')) (\<lambda>_. Inr index), rest))))))"

definition ChunkIndex_deserialize :: "sse42 option \<Rightarrow> u8 list \<Rightarrow> ChunkIndex result option" where
  "ChunkIndex_deserialize cpu bytes =
     (if length bytes < length indexMagic + 2 + 4 + index_checksumSize then Some (Inl (Invalid_argument ''truncated chunk index''))
      else
        let checksumOffset = length bytes - index_checksumSize
        in if CRC32C_calculate cpu (take checksumOffset bytes) 0 \<noteq> shift_in 0 (drop checksumOffset bytes)
           then Some (Inl (Invalid_argument ''chunk index checksum mismatch''))
           else if take (length indexMagic) bytes \<noteq> indexMagic then Some (Inl (Invalid_argument ''invalid chunk index magic''))
           else map_option fst (decodeIndex (drop (length indexMagic) bytes)))"

definition ChunkIndex_save :: "os_env \<Rightarrow> sse42 option \<Rightarrow> path \<Rightarrow> ChunkIndex \<Rightarrow> (os, unit) paction" where
  "ChunkIndex_save env cpu path index =
     p_bind (p_lift (st_throw_if (parent_path path = [] \<and> path_filename path = []) (Invalid_argument ''chunk index path is empty''))) (\<lambda>_.
     p_bind (if parent_path path \<noteq> [] then p_lift (create_directories env) else p_lift (st_return ())) (\<lambda>_.
     p_bind (p_lift (st_lift (ChunkIndex_serialize cpu index))) (\<lambda>bytes.
     AtomicFileCommit_write env None path bytes)))"

definition ChunkIndex_load :: "os_env \<Rightarrow> sse42 option \<Rightarrow> path \<Rightarrow> (os, ChunkIndex) paction" where
  "ChunkIndex_load env cpu path s =
     (case stream_read env path s of
        (None, s') \<Rightarrow> Some (Inl (Runtime_error ''cannot open chunk index''), s')
      | (Some bytes, s') \<Rightarrow> map_option (\<lambda>r. (r, s')) (ChunkIndex_deserialize cpu bytes))"

section \<open>The map of the index\<close>

definition chunk_key :: "ChunkIdentity \<Rightarrow> (u16 \<times> u16 \<times> u16 \<times> u64 \<times> u32 \<times> u64 \<times> u64) \<times> u64 \<times> u64 \<times> u32" where
  "chunk_key c = (identity_key (ci_computation c), location_key (ci_location c))"

lemma pair_less: "(a :: 'a :: linorder, b :: 'b :: linorder) < (c, d) \<longleftrightarrow> (if a \<noteq> c then a < c else b < d)"
  by auto

interpretation chunk_map: ordered_map ChunkIdentity_less chunk_key
proof
  fix a b :: ChunkIdentity
  show "ChunkIdentity_less a b \<longleftrightarrow> chunk_key a < chunk_key b"
    by (simp only: ChunkIdentity_less_def chunk_key_def pair_less ComputationIdentity_less_key BlockLocation_less_key identity_key_inject)
  show "chunk_key a = chunk_key b \<Longrightarrow> a = b"
    by (cases a; cases b) (simp add: chunk_key_def identity_key_inject location_key_inject)
qed

text \<open>An entry the index accepts, and the invariant of the index.\<close>

definition entry_ok :: "ChunkIndexEntry \<Rightarrow> bool" where
  "entry_ok e \<longleftrightarrow> ChunkIdentity_validate (ie_identity e) = Inr () \<and> ie_storageFile e \<noteq> []
     \<and> CHR ''/'' \<notin> set (ie_storageFile e) \<and> CHR 0x5C \<notin> set (ie_storageFile e) \<and> ie_formatVersion e = 1 \<and> ie_checksumAlgorithm e = 1
     \<and> ie_uncompressedSize e \<le> maxChunkPayloadBytes \<and> ie_storedSize e \<le> maxChunkPayloadBytes"

definition index_ok :: "ChunkIndex \<Rightarrow> bool" where
  "index_ok idx \<longleftrightarrow> ordered_by chunk_key idx \<and> (\<forall>(k, e) \<in> set idx. ie_identity e = k \<and> entry_ok e)
     \<and> (\<forall>(k, e) \<in> set idx. \<forall>(k', e') \<in> set idx. k \<noteq> k' \<longrightarrow> \<not> overlaps k k')"

lemma overlaps_sym: "overlaps a b \<Longrightarrow> overlaps b a"
  by (auto simp: overlaps_def)

lemma index_ok_find: "index_ok idx \<Longrightarrow> map_find ChunkIdentity_less k idx = map_of idx k"
  by (simp add: index_ok_def chunk_map.find_eq)

lemma index_ok_create: "index_ok ChunkIndex_create"
  by (simp add: index_ok_def ChunkIndex_create_def)

lemma ChunkIndex_add_Inr:
  "index_ok idx \<Longrightarrow> ChunkIndex_add e idx = Inr idx' \<longleftrightarrow> entry_ok e \<and> map_of idx (ie_identity e) = None
     \<and> (\<forall>(k, x) \<in> set idx. \<not> overlaps k (ie_identity e)) \<and> idx' = map_emplace ChunkIdentity_less (ie_identity e) e idx"
  by (auto simp: ChunkIndex_add_def res_bind_eq_Inr_iff entry_ok_def index_contains_def index_ok_find chunkFormatVersion_def
      ChunkChecksumAlgorithm_crc32c_def not_less)

lemma index_ok_add:
  assumes "index_ok idx" and "ChunkIndex_add e idx = Inr idx'"
  shows "index_ok idx' \<and> set idx' = insert (ie_identity e, e) (set idx) \<and> map_of idx (ie_identity e) = None"
proof -
  have a: "entry_ok e" "map_of idx (ie_identity e) = None" "\<forall>(k, x) \<in> set idx. \<not> overlaps k (ie_identity e)"
    "idx' = map_emplace ChunkIdentity_less (ie_identity e) e idx"
    using assms(2) unfolding ChunkIndex_add_Inr [OF assms(1)] by blast+
  have "ordered_by chunk_key idx'" "set idx' = insert (ie_identity e, e) (set idx)"
    using chunk_map.emplace_new [of idx "ie_identity e" e] assms(1) a(2,4) by (simp_all add: index_ok_def)
  then show ?thesis
    using assms(1) a(1-3) by (auto simp: index_ok_def dest: overlaps_sym)
qed

lemma index_ok_remove: "index_ok idx \<Longrightarrow> index_ok (ChunkIndex_remove k idx) \<and> ChunkIndex_remove k idx = filter (\<lambda>x. fst x \<noteq> k) idx"
  using chunk_map.erase_ordered [of idx k] by (auto simp: index_ok_def ChunkIndex_remove_def chunk_map.erase_eq)

section \<open>The byte format\<close>

lemma length_encodeIndexIdentity: "length (encodeIndexIdentity c) = 53"
  by (simp add: encodeIndexIdentity_def)

lemma decodeIndexIdentity_ok:
  assumes "ChunkIdentity_validate c = Inr ()"
  shows "decodeIndexIdentity (encodeIndexIdentity c @ rest) = (Inr c, rest)"
proof -
  have "id_algorithm (ci_computation c) = 1"
    using assms by (simp add: ChunkIdentity_validate_Inr ComputationIdentity_validate_Inr)
  then have alg: "(ucast (ucast (id_algorithm (ci_computation c)) :: u8) :: u16) = id_algorithm (ci_computation c)"
    by simp
  have "ChunkIdentity_create (ci_computation c) (ci_location c) = Inr c"
    using assms by (simp add: ChunkIdentity_create_Inr)
  moreover have fields: "\<lparr>id_algorithm = id_algorithm i, id_arithmeticVersion = id_arithmeticVersion i, id_formulaVersion = id_formulaVersion i,
      id_requestedDigits = id_requestedDigits i, id_guardDigits = id_guardDigits i, id_workingDigits = id_workingDigits i,
      id_termCount = id_termCount i\<rparr> = i" "\<lparr>loc_start = loc_start l, loc_end = loc_end l, loc_treeLevel = loc_treeLevel l\<rparr> = l" for i l
    by simp_all
  moreover have "length (encodeIndexIdentity c @ rest) \<ge> 53"
    by (simp add: length_encodeIndexIdentity)
  ultimately show ?thesis
    unfolding decodeIndexIdentity_def identitySize_def
    by (subst st_bind_Inr) (auto simp: throw_if_def, simp only: encodeIndexIdentity_def append_assoc st_bind_def alg read_append prod.case sum.case fields st_basic)
qed

lemma char_bytes: "map (\<lambda>b :: u8. char_of (unat b)) (map (\<lambda>c. of_nat (of_char c)) cs) = cs"
proof -
  have "char_of (unat (of_nat (of_char c) :: u8)) = c" for c :: char
  proof -
    have "(of_char c :: nat) = of_char c mod 256"
      by (metis char_of_char of_char_of)
    then have "(of_char c :: nat) < 256"
      by (metis mod_less_divisor zero_less_numeral)
    then show ?thesis
      by (simp add: unat_of_nat)
  qed
  then show ?thesis
    by (simp add: comp_def)
qed

lemma encodeIndexEntry_Inr:
  "encodeIndexEntry e = Inr bs \<longleftrightarrow> length (ie_storageFile e) < 2 ^ 32
     \<and> bs = encodeIndexIdentity (ie_identity e) @ appendU32 (of_nat (length (ie_storageFile e)))
       @ map (\<lambda>c. of_nat (of_char c)) (ie_storageFile e) @ appendU64 (ie_uncompressedSize e) @ appendU64 (ie_storedSize e)
       @ appendU16 (ie_checksumAlgorithm e) @ appendU32 (ie_checksumValue e) @ appendU16 (ie_formatVersion e)"
proof -
  have "unat (- 1 :: u32) = 2 ^ 32 - 1"
    by (simp add: unat_max_word)
  then show ?thesis
    by (auto simp: encodeIndexEntry_def res_bind_eq_Inr_iff)
qed

lemma readIndexName_ok:
  assumes "length name < 2 ^ 32" and "length name + length rest < 2 ^ 64" and "4 \<le> length rest"
  shows "readIndexName (appendU32 (of_nat (length name)) @ map (\<lambda>c. of_nat (of_char c)) name @ rest) = Some (Inr name, rest)"
proof -
  let ?after = "map (\<lambda>c. of_nat (of_char c)) name @ rest :: u8 list"
  have len: "unat (of_nat (length name) :: u32) = length name"
    using assms(1) by (simp add: unat_of_nat)
  have eq: "vec_size ?after - of_nat index_checksumSize = (of_nat (length name + length rest - 4) :: u64)"
    using assms(3) by (simp add: index_checksumSize_def of_nat_diff)
  have "unat (of_nat (length name + length rest - 4) :: u64) = length name + length rest - 4"
    using assms(2) by (intro unat_of_nat_u64) simp
  then have "\<not> ucast (of_nat (length name) :: u32) > (vec_size ?after - of_nat index_checksumSize :: u64)"
    unfolding eq word_less_nat_alt unat_ucast_u32_u64 len using assms(3) by simp
  moreover have "\<not> length name > length ?after"
    by simp
  ultimately show ?thesis
    using char_bytes [of name] by (simp add: readIndexName_def p_bind_def len del: length_append)
qed

lemma decodeIndexEntry_ok:
  assumes "entry_ok e" and "encodeIndexEntry e = Inr bs" and "length (bs @ rest) < 2 ^ 64"
  shows "decodeIndexEntry (bs @ rest) = Some (Inr e, rest)"
proof -
  let ?tail = "appendU64 (ie_uncompressedSize e) @ appendU64 (ie_storedSize e) @ appendU16 (ie_checksumAlgorithm e)
    @ appendU32 (ie_checksumValue e) @ appendU16 (ie_formatVersion e) @ rest"
  have bs: "bs = encodeIndexIdentity (ie_identity e) @ appendU32 (of_nat (length (ie_storageFile e)))
       @ map (\<lambda>c. of_nat (of_char c)) (ie_storageFile e) @ appendU64 (ie_uncompressedSize e) @ appendU64 (ie_storedSize e)
       @ appendU16 (ie_checksumAlgorithm e) @ appendU32 (ie_checksumValue e) @ appendU16 (ie_formatVersion e)"
    and n: "length (ie_storageFile e) < 2 ^ 32"
    using assms(2) by (simp_all add: encodeIndexEntry_Inr)
  have "readIndexName (appendU32 (of_nat (length (ie_storageFile e))) @ map (\<lambda>c. of_nat (of_char c)) (ie_storageFile e) @ ?tail)
      = Some (Inr (ie_storageFile e), ?tail)"
    using n assms(3) by (intro readIndexName_ok) (simp_all add: bs)
  moreover have "ChunkIdentity_validate (ie_identity e) = Inr ()"
    using assms(1) by (simp add: entry_ok_def)
  ultimately show ?thesis
    by (simp add: decodeIndexEntry_def p_bind_def bs decodeIndexIdentity_ok) (simp add: st_bind_def)
qed

lemma index_ok_prefix: "index_ok (pre @ idx) \<Longrightarrow> index_ok pre"
  unfolding index_ok_def ordered_append set_append by blast

lemma decodeIndexEntries_ok:
  "index_ok (pre @ idx) \<Longrightarrow> encodeIndexEntries idx = Inr bs \<Longrightarrow> length (bs @ rest) < 2 ^ 64 \<Longrightarrow>
   decodeIndexEntries (length idx) pre (bs @ rest) = Some (Inr (pre @ idx), rest)"
proof (induction idx arbitrary: pre bs)
  case (Cons x idx)
  obtain k e where x: "x = (k, e)"
    by (cases x)
  obtain b bs' where b: "encodeIndexEntry e = Inr b" "encodeIndexEntries idx = Inr bs'" "bs = b @ bs'"
    using Cons.prems(2) by (auto simp: x res_bind_eq_Inr_iff)
  have okp: "index_ok pre"
    using Cons.prems(1) by (rule index_ok_prefix)
  have ke: "ie_identity e = k" "entry_ok e"
    using Cons.prems(1) by (simp_all add: x index_ok_def)
  have below: "\<forall>(k', v') \<in> set pre. chunk_key k' < chunk_key k"
    using Cons.prems(1) unfolding index_ok_def ordered_append x by auto
  have "map_of pre k = None"
  proof (rule ccontr)
    assume "map_of pre k \<noteq> None"
    then obtain v where "(k, v) \<in> set pre"
      using map_of_SomeD by fast
    then show False
      using below by auto
  qed
  moreover have "\<not> overlaps k' k" if "(k', v') \<in> set pre" for k' v'
  proof -
    have "k' \<noteq> k"
      using below that by auto
    moreover have "(k', v') \<in> set (pre @ x # idx)" "(k, e) \<in> set (pre @ x # idx)"
      using that by (simp_all add: x)
    ultimately show ?thesis
      using Cons.prems(1) unfolding index_ok_def by blast
  qed
  then have "\<forall>(k', v') \<in> set pre. \<not> overlaps k' k"
    by blast
  moreover have "ordered_by chunk_key pre"
    using okp by (simp add: index_ok_def)
  then have "map_emplace ChunkIdentity_less k e pre = pre @ [(k, e)]"
    by (rule chunk_map.emplace_last [OF _ below])
  ultimately have "ChunkIndex_add e pre = Inr (pre @ [(k, e)])"
    unfolding ChunkIndex_add_Inr [OF okp] ke(1) using ke(2) by simp
  moreover have "decodeIndexEntry (b @ bs' @ rest) = Some (Inr e, bs' @ rest)"
    using Cons.prems(3) by (intro decodeIndexEntry_ok [OF ke(2) b(1)]) (simp add: b(3))
  ultimately show ?case
    using Cons.IH [of "pre @ [(k, e)]" bs'] Cons.prems(1,3) b by (simp add: x p_bind_def)
qed simp

lemma deserialize_serialized:
  assumes ok: "index_ok idx" and ser: "ChunkIndex_serialize cpu idx = Inr bytes" and small: "length bytes < 2 ^ 64"
  shows "ChunkIndex_deserialize cpu bytes = Some (Inr idx)"
proof -
  obtain es where es: "encodeIndexEntries idx = Inr es" and n: "length idx \<le> unat (- 1 :: u32)"
    and bytes: "bytes = (indexMagic @ appendU16 index_formatVersion @ appendU32 (of_nat (length idx)) @ es)
      @ appendU32 (CRC32C_calculate cpu (indexMagic @ appendU16 index_formatVersion @ appendU32 (of_nat (length idx)) @ es) 0)"
    using ser by (auto simp: ChunkIndex_serialize_def res_bind_eq_Inr_iff Let_def)
  let ?out = "indexMagic @ appendU16 index_formatVersion @ appendU32 (of_nat (length idx)) @ es"
  let ?sum = "appendU32 (CRC32C_calculate cpu ?out 0)"
  have len: "length indexMagic = 8"
    by (simp add: indexMagic_def)
  have count: "unat (of_nat (length idx) :: u32) = length idx"
    using n by (simp add: unat_of_nat unat_max_word)
  have "decodeIndexEntries (length idx) [] (es @ ?sum) = Some (Inr ([] @ idx), ?sum)"
    by (rule decodeIndexEntries_ok [OF _ es]) (use ok small bytes in simp_all)
  then have dec: "decodeIndex (appendU16 index_formatVersion @ appendU32 (of_nat (length idx)) @ es @ ?sum) = Some (Inr idx, ?sum)"
    by (simp add: decodeIndex_def p_bind_def count ChunkIndex_create_def index_checksumSize_def)
  have off: "length bytes - index_checksumSize = length ?out"
    unfolding bytes by (simp add: index_checksumSize_def)
  have parts: "take (length ?out) bytes = ?out" "drop (length ?out) bytes = ?sum" "take 8 bytes = indexMagic"
    "drop 8 bytes = appendU16 index_formatVersion @ appendU32 (of_nat (length idx)) @ es @ ?sum"
    unfolding bytes using len by simp_all
  have "\<not> length bytes < 8 + 2 + 4 + index_checksumSize"
    unfolding bytes by (simp add: len index_checksumSize_def)
  then show ?thesis
    by (simp only: ChunkIndex_deserialize_def Let_def off parts len dec shift_in_appendU32) simp
qed

lemma map_of_insert_distinct:
  assumes "set m' = insert (k, v) (set m)" and "distinct (map fst m)" and "distinct (map fst m')" and "map_of m k = None"
  shows "map_of m' = (map_of m)(k \<mapsto> v)"
proof
  fix x
  have k: "(k, y) \<notin> set m" for y
    using assms(4) by (metis option.simps(3) weak_map_of_SomeI)
  show "map_of m' x = ((map_of m)(k \<mapsto> v)) x"
  proof (cases "x = k")
    case True
    then show ?thesis
      using assms(1,3) by (simp add: map_of_is_SomeI)
  next
    case False
    have "map_of m' x = Some y \<longleftrightarrow> map_of m x = Some y" for y
      using assms(1-3) False by (simp add: map_of_eq_Some_iff)
    then show ?thesis
      using False by (metis fun_upd_other not_Some_eq)
  qed
qed

lemma map_of_filter_key: "map_of (filter (\<lambda>x. fst x \<noteq> k) m) k' = (if k' = k then None else map_of m k')"
  by (induction m) auto

section \<open>Properties\<close>

text \<open>
  C28: The index stays well formed (entries valid, in key order, no two overlapping ranges of a tree
  level) under adding and removing; what was added is found; and an index that serializes to bytes is
  deserialized to the same index.
\<close>

theorem ChunkIndex_roundtrip:
  assumes "index_ok idx"
  shows "(\<forall>e idx'. ChunkIndex_add e idx = Inr idx' \<longrightarrow> index_ok idx' \<and> index_at (ie_identity e) idx' = Inr e
      \<and> (\<forall>k. k \<noteq> ie_identity e \<longrightarrow> index_at k idx' = index_at k idx))
    \<and> (\<forall>k. index_ok (ChunkIndex_remove k idx) \<and> \<not> index_contains k (ChunkIndex_remove k idx)
      \<and> (\<forall>k'. k' \<noteq> k \<longrightarrow> index_at k' (ChunkIndex_remove k idx) = index_at k' idx))
    \<and> (\<forall>bytes. ChunkIndex_serialize cpu idx = Inr bytes \<and> length bytes < 2 ^ 64 \<longrightarrow> ChunkIndex_deserialize cpu bytes = Some (Inr idx))"
proof (intro conjI allI impI; (elim conjE)?)
  fix e idx' assume "ChunkIndex_add e idx = Inr idx'"
  note a = index_ok_add [OF assms this]
  then show ok: "index_ok idx'" by blast
  have "map_of idx' = (map_of idx)(ie_identity e \<mapsto> e)"
    using a assms by (intro map_of_insert_distinct) (simp_all add: index_ok_def chunk_map.ordered_distinct)
  then show "index_at (ie_identity e) idx' = Inr e" "\<And>k. k \<noteq> ie_identity e \<Longrightarrow> index_at k idx' = index_at k idx"
    by (simp_all add: index_at_def index_ok_find ok assms)
next
  fix k
  show ok: "index_ok (ChunkIndex_remove k idx)"
    using index_ok_remove [OF assms] by blast
  have "map_of (ChunkIndex_remove k idx) k' = (if k' = k then None else map_of idx k')" for k'
    using index_ok_remove [OF assms, of k] map_of_filter_key [of k idx k'] by simp
  then show "\<not> index_contains k (ChunkIndex_remove k idx)"
    "\<And>k'. k' \<noteq> k \<Longrightarrow> index_at k' (ChunkIndex_remove k idx) = index_at k' idx"
    by (simp_all add: index_at_def index_contains_def index_ok_find ok assms)
next
  fix bytes assume "ChunkIndex_serialize cpu idx = Inr bytes" "length bytes < 2 ^ 64"
  then show "ChunkIndex_deserialize cpu bytes = Some (Inr idx)"
    by (rule deserialize_serialized [OF assms])
qed

definition sample_index_entry :: ChunkIndexEntry where
  "sample_index_entry = \<lparr>ie_identity = \<lparr>ci_computation = sample_identity, ci_location = \<lparr>loc_start = 1, loc_end = 3, loc_treeLevel = 1\<rparr>\<rparr>,
     ie_storageFile = ''a.chunk'', ie_uncompressedSize = 3, ie_storedSize = 3, ie_checksumAlgorithm = 1, ie_checksumValue = 9,
     ie_formatVersion = 1\<rparr>"

lemma sample_index_entry_ok: "entry_ok sample_index_entry"
  by code_simp

theorem ChunkIndex_roundtrip_witness:
  "\<exists>idx bytes. ChunkIndex_add sample_index_entry ChunkIndex_create = Inr idx \<and> index_at (ie_identity sample_index_entry) idx = Inr sample_index_entry
    \<and> ChunkIndex_serialize None idx = Inr bytes \<and> ChunkIndex_deserialize None bytes = Some (Inr idx)"
proof -
  let ?e = sample_index_entry
  let ?idx = "[(ie_identity ?e, ?e)]"
  have add: "ChunkIndex_add ?e ChunkIndex_create = Inr ?idx"
    using sample_index_entry_ok unfolding ChunkIndex_add_Inr [OF index_ok_create] by (simp add: ChunkIndex_create_def)
  then have idx: "index_ok ?idx" "index_at (ie_identity ?e) ?idx = Inr ?e"
    using ChunkIndex_roundtrip [OF index_ok_create, of None] by blast+
  obtain b where "encodeIndexEntry ?e = Inr b" "length b < 1000"
    by (simp add: encodeIndexEntry_Inr sample_index_entry_def length_encodeIndexIdentity)
  then obtain bytes where "ChunkIndex_serialize None ?idx = Inr bytes" "length bytes < 2 ^ 64"
    by (simp add: ChunkIndex_serialize_def unat_max_word Let_def indexMagic_def)
  then show ?thesis
    using add idx ChunkIndex_roundtrip [OF idx(1), of None] by blast
qed

text \<open>
  A file with a correct checksum that announces one entry but ends after its identity is not
  rejected: the room left for the name is computed with unsigned wrap-around, so that the checksum
  is taken for the length of the name and as many bytes are read past the end of the file.
\<close>

theorem ChunkIndex_deserialize_overrun:
  fixes cpu :: "sse42 option" and c :: ChunkIdentity
  defines "out \<equiv> indexMagic @ appendU16 index_formatVersion @ appendU32 1 @ encodeIndexIdentity c"
  assumes "ChunkIdentity_validate c = Inr ()" and "CRC32C_calculate cpu out 0 \<noteq> 0"
  shows "ChunkIndex_deserialize cpu (out @ appendU32 (CRC32C_calculate cpu out 0)) = None"
proof -
  let ?crc = "CRC32C_calculate cpu out 0"
  have len: "length indexMagic = 8"
    by (simp add: indexMagic_def)
  have "readIndexName (appendU32 ?crc) = None"
  proof -
    have "unat (- 4 :: u64) = 2 ^ 64 - 4"
      by simp
    then have "\<not> ucast ?crc > (vec_size ([] :: u8 list) - of_nat index_checksumSize :: u64)"
      using unsigned_less [of ?crc, where ?'a = nat] by (simp add: word_less_nat_alt index_checksumSize_def)
    moreover have "0 < unat ?crc"
      using assms(3) by (simp add: unat_gt_0)
    moreover have "readU32 truncated_index (appendU32 ?crc) = (Inr ?crc, [])"
      using u32_field.get_put [of truncated_index ?crc "[]"] by simp
    ultimately show ?thesis
      by (simp add: readIndexName_def p_bind_def)
  qed
  then have "decodeIndexEntry (encodeIndexIdentity c @ appendU32 ?crc) = None"
    by (simp add: decodeIndexEntry_def p_bind_def decodeIndexIdentity_ok assms(2))
  then have dec: "decodeIndex (appendU16 index_formatVersion @ appendU32 1 @ encodeIndexIdentity c @ appendU32 ?crc) = None"
    by (simp add: decodeIndex_def p_bind_def)
  have "\<not> length (out @ appendU32 ?crc) < 8 + 2 + 4 + index_checksumSize"
    by (simp add: out_def len index_checksumSize_def)
  moreover have "length (out @ appendU32 ?crc) - index_checksumSize = length out"
    by (simp add: index_checksumSize_def)
  moreover have "take 8 (out @ appendU32 ?crc) = indexMagic"
    "drop 8 (out @ appendU32 ?crc) = appendU16 index_formatVersion @ appendU32 1 @ encodeIndexIdentity c @ appendU32 ?crc"
    by (simp_all add: out_def len)
  ultimately show ?thesis
    by (simp only: ChunkIndex_deserialize_def Let_def len dec) simp
qed

theorem ChunkIndex_deserialize_overrun_witness: "\<exists>bytes. ChunkIndex_deserialize None bytes = None"
proof -
  define c where "c = (\<lambda>l. \<lparr>ci_computation = sample_identity, ci_location = \<lparr>loc_start = 1, loc_end = 3, loc_treeLevel = l\<rparr>\<rparr>)"
  define out where "out = (\<lambda>l. indexMagic @ appendU16 index_formatVersion @ appendU32 1 @ encodeIndexIdentity (c l))"
  define pre where "pre = indexMagic @ appendU16 index_formatVersion @ appendU32 1 @ take 33 (encodeIndexIdentity (c 0))"
  have out: "out l = pre @ appendU32 l @ appendU64 1 @ appendU64 3" for l
    by (simp add: out_def pre_def encodeIndexIdentity_def c_def)
  have "CRC32C_calculate None (out 0) 0 \<noteq> CRC32C_calculate None (out 1) 0"
    using crc_burst [of "appendU32 0" "appendU32 1" pre "appendU64 1 @ appendU64 3" 0] by (simp add: out crc_calculate_eq u32_field.put_inject)
  then obtain l where "CRC32C_calculate None (out l) 0 \<noteq> 0"
    by metis
  moreover have "ChunkIdentity_validate (c l) = Inr ()"
    using sample_identity_valid by (simp add: ChunkIdentity_validate_Inr c_def BlockLocation_validate_Inr sample_identity_def)
  ultimately show ?thesis
    using ChunkIndex_deserialize_overrun [of "c l" None] by (auto simp: out_def)
qed

end
