(* ===== verification/Versioned_Chunk_Index.thy ===== *)
theory Versioned_Chunk_Index
  imports Chunk_Index "HOL-Library.Multiset"
begin

text \<open>
  The index of chunk versions (src/src/storage/VersionedChunkIndex.cpp): for every identity its
  versions in the order of their timestamps, and a little-endian byte format.  \<open>std::sort\<close> leaves the
  order of equal timestamps open, so it is an argument: any function that returns a sorted
  permutation.  An access outside the bytes is the outcome \<open>None\<close>.
\<close>

section \<open>Little-endian fields\<close>

definition putLE16 :: "u16 \<Rightarrow> u8 list" where
  "putLE16 value = map (\<lambda>shift. ucast (drop_bit shift value)) [0, 8]"

definition putLE32 :: "u32 \<Rightarrow> u8 list" where
  "putLE32 value = map (\<lambda>shift. ucast (drop_bit shift value)) [0, 8, 16, 24]"

definition putLE64 :: "u64 \<Rightarrow> u8 list" where
  "putLE64 value = map (\<lambda>shift. ucast (drop_bit shift value)) [0, 8, 16, 24, 32, 40, 48, 56]"

text \<open>\<open>b0 | b1 << 8 | b2 << 16 | ...\<close>\<close>

definition joinLE :: "u8 list \<Rightarrow> 'a :: len word" where
  "joinLE bs = foldr (\<lambda>b value. ucast b OR push_bit 8 value) bs 0"

definition readLE16 :: "string \<Rightarrow> (u8 list, u16) action" where
  "readLE16 msg = st_bind (reader_take msg 2) (\<lambda>data. st_return (joinLE data))"

definition readLE32 :: "string \<Rightarrow> (u8 list, u32) action" where
  "readLE32 msg = st_bind (reader_take msg 4) (\<lambda>data. st_return (joinLE data))"

definition readLE64 :: "string \<Rightarrow> (u8 list, u64) action" where
  "readLE64 msg = st_bind (reader_take msg 8) (\<lambda>data. st_return (joinLE data))"

lemma joinLE_rev: "joinLE bs = shift_in 0 (rev bs)"
  by (simp add: joinLE_def shift_in_def foldl_conv_foldr or.commute)

lemma putLE_rev: "putLE16 a = rev (appendU16 a)" "putLE32 b = rev (appendU32 b)" "putLE64 c = rev (appendU64 c)"
  by (simp_all add: putLE16_def putLE32_def putLE64_def appendU16_def appendU32_def appendU64_def)

interpretation le16_field: field_codec putLE16 "readLE16 msg" 2 for msg
  unfolding readLE16_def by (rule fixed_width_codec) (simp_all add: putLE_rev joinLE_rev appendU16_shift_in)

interpretation le32_field: field_codec putLE32 "readLE32 msg" 4 for msg
  unfolding readLE32_def by (rule fixed_width_codec) (simp_all add: putLE_rev joinLE_rev appendU32_shift_in)

interpretation le64_field: field_codec putLE64 "readLE64 msg" 8 for msg
  unfolding readLE64_def by (rule fixed_width_codec) (simp_all add: putLE_rev joinLE_rev appendU64_shift_in)

lemmas le_fields [simp] = le16_field.get_put le32_field.get_put le64_field.get_put
  le16_field.length_put le32_field.length_put le64_field.length_put

lemma joinLE_put [simp]: "joinLE (putLE16 a) = a" "joinLE (putLE32 b) = b" "joinLE (putLE64 c) = c"
  by (simp_all add: putLE_rev joinLE_rev)

section \<open>Operations\<close>

record ChunkVersionEntry =
  ve_formatVersion :: u16
  ve_checksumValue :: u32
  ve_storedSize :: u64
  ve_timestampNs :: u64

type_synonym VersionedChunkIndex = "(ChunkIdentity, ChunkVersionEntry list) omap"

type_synonym version_sort = "ChunkVersionEntry list \<Rightarrow> ChunkVersionEntry list"

definition VersionedChunkIndex_create :: VersionedChunkIndex where
  "VersionedChunkIndex_create = []"

definition addVersion ::
  "version_sort \<Rightarrow> ChunkIdentity \<Rightarrow> u16 \<Rightarrow> u32 \<Rightarrow> u64 \<Rightarrow> u64 \<Rightarrow> VersionedChunkIndex \<Rightarrow> VersionedChunkIndex" where
  "addVersion std_sort identity version checksumValue storedSize timestampNs index =
     map_update ChunkIdentity_less identity []
       (\<lambda>versions. std_sort (versions @ [\<lparr>ve_formatVersion = version, ve_checksumValue = checksumValue,
          ve_storedSize = storedSize, ve_timestampNs = timestampNs\<rparr>])) index"

definition getAllVersions :: "ChunkIdentity \<Rightarrow> VersionedChunkIndex \<Rightarrow> ChunkVersionEntry list" where
  "getAllVersions identity index =
     (case map_find ChunkIdentity_less identity index of None \<Rightarrow> [] | Some versions \<Rightarrow> versions)"

definition getLatestVersion :: "ChunkIdentity \<Rightarrow> VersionedChunkIndex \<Rightarrow> ChunkVersionEntry option" where
  "getLatestVersion identity index =
     (case map_find ChunkIdentity_less identity index of
        None \<Rightarrow> None
      | Some versions \<Rightarrow> if versions = [] then None else Some (last versions))"

definition getLatestVersionWithFormat :: "ChunkIdentity \<Rightarrow> u16 \<Rightarrow> VersionedChunkIndex \<Rightarrow> ChunkVersionEntry option" where
  "getLatestVersionWithFormat identity version index =
     (case map_find ChunkIdentity_less identity index of
        None \<Rightarrow> None
      | Some versions \<Rightarrow> if versions = [] then None else List.find (\<lambda>entry. ve_formatVersion entry = version) (rev versions))"

definition hasVersions :: "ChunkIdentity \<Rightarrow> VersionedChunkIndex \<Rightarrow> bool" where
  "hasVersions identity index \<longleftrightarrow>
     (case map_find ChunkIdentity_less identity index of None \<Rightarrow> False | Some versions \<Rightarrow> versions \<noteq> [])"

definition getVersionCount :: "ChunkIdentity \<Rightarrow> VersionedChunkIndex \<Rightarrow> nat" where
  "getVersionCount identity index =
     (case map_find ChunkIdentity_less identity index of None \<Rightarrow> 0 | Some versions \<Rightarrow> length versions)"

definition getAllIdentities :: "VersionedChunkIndex \<Rightarrow> ChunkIdentity list" where
  "getAllIdentities index = map fst index"

definition identityCount :: "VersionedChunkIndex \<Rightarrow> size_t" where
  "identityCount index = of_nat (length index)"

definition totalVersionCount :: "VersionedChunkIndex \<Rightarrow> size_t" where
  "totalVersionCount index = foldl (\<lambda>acc (identity, versions). acc + of_nat (length versions)) 0 index"

definition VersionedChunkIndex_clear :: "VersionedChunkIndex \<Rightarrow> VersionedChunkIndex" where
  "VersionedChunkIndex_clear index = []"

definition versionedMagic :: "u8 list" where "versionedMagic = [0x56, 0x43, 0x49]"

definition versionedFormat :: u8 where "versionedFormat = 1"

definition identityBytes :: "ChunkIdentity \<Rightarrow> u8 list" where
  "identityBytes c =
     [ucast (id_algorithm (ci_computation c))]
     @ putLE16 (id_arithmeticVersion (ci_computation c)) @ putLE16 (id_formulaVersion (ci_computation c))
     @ putLE64 (id_requestedDigits (ci_computation c)) @ putLE32 (id_guardDigits (ci_computation c))
     @ putLE64 (id_workingDigits (ci_computation c)) @ putLE64 (id_termCount (ci_computation c))
     @ putLE32 (loc_treeLevel (ci_location c)) @ putLE64 (loc_start (ci_location c)) @ putLE64 (loc_end (ci_location c))"

definition versionBytes :: "ChunkVersionEntry \<Rightarrow> u8 list" where
  "versionBytes v = putLE16 (ve_formatVersion v) @ putLE32 (ve_checksumValue v) @ putLE64 (ve_storedSize v) @ putLE64 (ve_timestampNs v)"

text \<open>The counts are written with their low 32 and 16 bits.\<close>

definition serializeIdentity :: "ChunkIdentity \<times> ChunkVersionEntry list \<Rightarrow> u8 list" where
  "serializeIdentity = (\<lambda>(identity, versions).
     putLE32 (of_nat (length (identityBytes identity))) @ identityBytes identity
     @ putLE16 (of_nat (length versions)) @ concat (map versionBytes versions))"

definition VersionedChunkIndex_serialize :: "VersionedChunkIndex \<Rightarrow> u8 list" where
  "VersionedChunkIndex_serialize index =
     versionedMagic @ [versionedFormat] @ putLE32 (ucast (identityCount index)) @ putLE32 (ucast (totalVersionCount index))
     @ concat (map serializeIdentity index)"

definition slice :: "nat \<Rightarrow> nat \<Rightarrow> 'a list \<Rightarrow> 'a list" where
  "slice offset n bs = take n (drop offset bs)"

definition parseIdentityBytes :: "u8 list \<Rightarrow> ChunkIdentity" where
  "parseIdentityBytes bs = \<lparr>
     ci_computation = \<lparr>id_algorithm = ucast (bs ! 0), id_arithmeticVersion = joinLE (slice 1 2 bs),
       id_formulaVersion = joinLE (slice 3 2 bs), id_requestedDigits = joinLE (slice 5 8 bs),
       id_guardDigits = joinLE (slice 13 4 bs), id_workingDigits = joinLE (slice 17 8 bs), id_termCount = joinLE (slice 25 8 bs)\<rparr>,
     ci_location = \<lparr>loc_start = joinLE (slice 37 8 bs), loc_end = joinLE (slice 45 8 bs), loc_treeLevel = joinLE (slice 33 4 bs)\<rparr>\<rparr>"

abbreviation insufficient :: "string \<Rightarrow> string" where
  "insufficient field \<equiv> ''VersionedChunkIndex: insufficient data for '' @ field"

fun readVersions :: "version_sort \<Rightarrow> ChunkIdentity \<Rightarrow> nat \<Rightarrow> VersionedChunkIndex \<Rightarrow> (u8 list, VersionedChunkIndex) action" where
  "readVersions std_sort identity 0 index = st_return index"
| "readVersions std_sort identity (Suc n) index =
     st_bind (readLE16 (insufficient ''format version'')) (\<lambda>version.
     st_bind (readLE32 (insufficient ''checksum value'')) (\<lambda>checksumValue.
     st_bind (readLE64 (insufficient ''stored size'')) (\<lambda>storedSize.
     st_bind (readLE64 (insufficient ''timestamp'')) (\<lambda>timestampNs.
     readVersions std_sort identity n (addVersion std_sort identity version checksumValue storedSize timestampNs index)))))"

fun readIdentities :: "version_sort \<Rightarrow> nat \<Rightarrow> VersionedChunkIndex \<Rightarrow> (u8 list, VersionedChunkIndex) action" where
  "readIdentities std_sort 0 index = st_return index"
| "readIdentities std_sort (Suc n) index =
     st_bind (readLE32 (insufficient ''identity bytes length'')) (\<lambda>len.
     st_bind (st_throw_if (len \<noteq> 53) (Invalid_argument (''VersionedChunkIndex: unexpected identity bytes length '' @ to_string len))) (\<lambda>_.
     st_bind (reader_take (insufficient ''identity bytes'') (unat len)) (\<lambda>bs.
     let identity = parseIdentityBytes bs in
     st_bind (st_lift (ChunkIdentity_validate identity)) (\<lambda>_.
     st_bind (readLE16 (insufficient ''version count'')) (\<lambda>versionCount.
     st_bind (readVersions std_sort identity (unat versionCount) index) (\<lambda>index. readIdentities std_sort n index))))))"

definition VersionedChunkIndex_deserialize :: "version_sort \<Rightarrow> u8 list \<Rightarrow> VersionedChunkIndex result option" where
  "VersionedChunkIndex_deserialize std_sort bytes =
     (if length bytes < 11 then Some (Inl (Invalid_argument (insufficient ''magic number'')))
      else if take 3 bytes \<noteq> versionedMagic
      then Some (Inl (Invalid_argument (''VersionedChunkIndex: invalid magic number '' @ to_string (bytes ! 0) @ '' ''
        @ to_string (bytes ! 1) @ '' '' @ to_string (bytes ! 2))))
      else if bytes ! 3 \<noteq> versionedFormat
      then Some (Inl (Invalid_argument (''VersionedChunkIndex: unsupported format version '' @ to_string (bytes ! 3))))
      else if length bytes \<le> 11 then None
      else Some (case readIdentities std_sort (unat (joinLE (slice 4 4 bytes) :: u32)) VersionedChunkIndex_create (drop 12 bytes) of
          (Inl e, rest) \<Rightarrow> Inl e
        | (Inr index, rest) \<Rightarrow>
            if rest \<noteq> []
            then Inl (Invalid_argument (''VersionedChunkIndex: incomplete data (expected '' @ dec_string (length bytes)
              @ '' bytes, read '' @ dec_string (length bytes - length rest) @ '' bytes)''))
            else Inr index))"

section \<open>Order of the versions\<close>

definition std_sort_ok :: "version_sort \<Rightarrow> bool" where
  "std_sort_ok f \<longleftrightarrow> (\<forall>vs. mset (f vs) = mset vs \<and> sorted (map ve_timestampNs (f vs)))"

definition versions_ok :: "ChunkVersionEntry list \<Rightarrow> bool" where
  "versions_ok vs \<longleftrightarrow> sorted_wrt (<) (map ve_timestampNs vs)"

lemma sort_versions_ok:
  assumes "std_sort_ok f" and "versions_ok vs"
  shows "f vs = vs"
proof (rule map_sorted_distinct_set_unique [of ve_timestampNs])
  have "sorted (map ve_timestampNs vs) \<and> distinct (map ve_timestampNs vs)"
    using assms(2) by (simp add: versions_ok_def strict_sorted_iff)
  moreover have perm: "mset (f vs) = mset vs" "sorted (map ve_timestampNs (f vs))"
    using assms(1) by (simp_all add: std_sort_ok_def)
  moreover have "distinct (map ve_timestampNs (f vs))"
    using calculation(1) perm(1) mset_eq_imp_distinct_iff [of "map ve_timestampNs (f vs)" "map ve_timestampNs vs"] by (simp add: mset_map)
  moreover have "set (f vs) = set vs"
    using perm(1) by (rule mset_eq_setD)
  ultimately show "inj_on ve_timestampNs (set (f vs) \<union> set vs)" "sorted (map ve_timestampNs (f vs))"
    "distinct (map ve_timestampNs (f vs))" "sorted (map ve_timestampNs vs)" "distinct (map ve_timestampNs vs)" "set (f vs) = set vs"
    by (simp_all add: distinct_map)
qed

lemma sort_new_version:
  assumes f: "std_sort_ok f" and vs: "versions_ok vs" and new: "ve_timestampNs v \<notin> ve_timestampNs ` set vs"
  shows "versions_ok (f (vs @ [v]))" and "set (f (vs @ [v])) = insert v (set vs)"
proof -
  have perm: "mset (f (vs @ [v])) = mset (vs @ [v])" "sorted (map ve_timestampNs (f (vs @ [v])))"
    using f by (simp_all add: std_sort_ok_def)
  have "distinct (map ve_timestampNs (vs @ [v]))"
    using vs new by (simp add: versions_ok_def strict_sorted_iff)
  then have "distinct (map ve_timestampNs (f (vs @ [v])))"
    using mset_eq_imp_distinct_iff [of "map ve_timestampNs (f (vs @ [v]))" "map ve_timestampNs (vs @ [v])"] perm(1) by (simp add: mset_map)
  then show "versions_ok (f (vs @ [v]))"
    using perm(2) by (simp add: versions_ok_def strict_sorted_iff)
  show "set (f (vs @ [v])) = insert v (set vs)"
    using mset_eq_setD [OF perm(1)] by simp
qed

lemma versions_ok_last: "versions_ok vs \<Longrightarrow> v \<in> set vs \<Longrightarrow> ve_timestampNs v \<le> ve_timestampNs (last vs)"
  by (cases vs rule: rev_cases) (auto simp: versions_ok_def sorted_wrt_append)

definition vindex_ok :: "VersionedChunkIndex \<Rightarrow> bool" where
  "vindex_ok idx \<longleftrightarrow> ordered_by chunk_key idx
     \<and> (\<forall>(k, vs) \<in> set idx. ChunkIdentity_validate k = Inr () \<and> vs \<noteq> [] \<and> versions_ok vs)"

lemma vindex_find: "vindex_ok idx \<Longrightarrow> map_find ChunkIdentity_less k idx = map_of idx k"
  by (simp add: vindex_ok_def chunk_map.find_eq)

section \<open>The byte format\<close>

lemma length_identityBytes: "length (identityBytes c) = 53"
  by (simp add: identityBytes_def)

lemma slice_put: "length xs = n \<Longrightarrow> slice n m (xs @ ys) = take m ys"
  by (simp add: slice_def)

lemma parseIdentityBytes_ok:
  assumes "ChunkIdentity_validate c = Inr ()"
  shows "parseIdentityBytes (identityBytes c) = c"
proof -
  have "id_algorithm (ci_computation c) = 1"
    using assms by (simp add: ChunkIdentity_validate_Inr ComputationIdentity_validate_Inr)
  then have alg: "(ucast (ucast (id_algorithm (ci_computation c)) :: u8) :: u16) = id_algorithm (ci_computation c)"
    by simp
  have "slice 1 2 (identityBytes c) = putLE16 (id_arithmeticVersion (ci_computation c))"
    "slice 3 2 (identityBytes c) = putLE16 (id_formulaVersion (ci_computation c))"
    "slice 5 8 (identityBytes c) = putLE64 (id_requestedDigits (ci_computation c))"
    "slice 13 4 (identityBytes c) = putLE32 (id_guardDigits (ci_computation c))"
    "slice 17 8 (identityBytes c) = putLE64 (id_workingDigits (ci_computation c))"
    "slice 25 8 (identityBytes c) = putLE64 (id_termCount (ci_computation c))"
    "slice 33 4 (identityBytes c) = putLE32 (loc_treeLevel (ci_location c))"
    "slice 37 8 (identityBytes c) = putLE64 (loc_start (ci_location c))"
    "slice 45 8 (identityBytes c) = putLE64 (loc_end (ci_location c))"
    by (simp_all add: slice_def identityBytes_def)
  then show ?thesis
    by (simp add: parseIdentityBytes_def alg) (simp add: identityBytes_def alg)
qed

text \<open>Reading the versions of one identity after those of the smaller identities.\<close>

definition with_versions :: "VersionedChunkIndex \<Rightarrow> ChunkIdentity \<Rightarrow> ChunkVersionEntry list \<Rightarrow> VersionedChunkIndex" where
  "with_versions pre k vs = (if vs = [] then pre else pre @ [(k, vs)])"

lemma addVersion_with_versions:
  assumes f: "std_sort_ok f" and pre: "ordered_by chunk_key pre" "\<forall>(k', v') \<in> set pre. chunk_key k' < chunk_key k" and ok: "versions_ok (vs @ [v])"
  shows "addVersion f k (ve_formatVersion v) (ve_checksumValue v) (ve_storedSize v) (ve_timestampNs v) (with_versions pre k vs)
    = with_versions pre k (vs @ [v])"
  using sort_versions_ok [OF f ok] chunk_map.update_last [OF pre, where d = "[]"] chunk_map.update_at_last [OF pre(2), where d = "[]"]
  by (cases v) (auto simp: addVersion_def with_versions_def)

lemma readVersions_ok:
  assumes f: "std_sort_ok f" and pre: "ordered_by chunk_key pre" "\<forall>(k', v') \<in> set pre. chunk_key k' < chunk_key k"
  shows "versions_ok (done @ vs) \<Longrightarrow> readVersions f k (length vs) (with_versions pre k done) (concat (map versionBytes vs) @ rest)
    = (Inr (with_versions pre k (done @ vs)), rest)"
proof (induction vs arbitrary: "done")
  case (Cons v vs)
  have "versions_ok (done @ [v])"
    using Cons.prems by (simp add: versions_ok_def sorted_wrt_append)
  then show ?case
    using Cons.IH [of "done @ [v]"] Cons.prems addVersion_with_versions [OF f pre]
    by (simp add: st_bind_def versionBytes_def)
qed simp

lemma readIdentities_ok:
  assumes f: "std_sort_ok f"
  shows "vindex_ok (pre @ idx) \<Longrightarrow> \<forall>(k, vs) \<in> set idx. length vs < 2 ^ 16 \<Longrightarrow>
    readIdentities f (length idx) pre (concat (map serializeIdentity idx) @ rest) = (Inr (pre @ idx), rest)"
proof (induction idx arbitrary: pre)
  case (Cons x idx)
  obtain k vs where x: "x = (k, vs)"
    by (cases x)
  have ok: "ChunkIdentity_validate k = Inr ()" "vs \<noteq> []" "versions_ok ([] @ vs)" "length vs < 2 ^ 16"
    using Cons.prems by (auto simp: x vindex_ok_def)
  have pre: "ordered_by chunk_key pre" "\<forall>(k', v') \<in> set pre. chunk_key k' < chunk_key k"
    using Cons.prems(1) by (auto simp: x vindex_ok_def ordered_append)
  have count: "unat (of_nat (length vs) :: u16) = length vs"
    using ok(4) by (simp add: unat_of_nat)
  have "readVersions f k (length vs) pre (concat (map versionBytes vs) @ r) = (Inr (pre @ [(k, vs)]), r)" for r
    using readVersions_ok [OF f pre ok(3), of r] ok(2) by (simp add: with_versions_def)
  then show ?case
    using Cons.IH [of "pre @ [(k, vs)]"] Cons.prems ok(1)
    by (simp add: x serializeIdentity_def st_bind_def length_identityBytes parseIdentityBytes_ok count Let_def)
qed simp

lemma deserialize_versions:
  assumes f: "std_sort_ok f" and ok: "vindex_ok idx" and n: "length idx < 2 ^ 32" "\<forall>(k, vs) \<in> set idx. length vs < 2 ^ 16"
  shows "VersionedChunkIndex_deserialize f (VersionedChunkIndex_serialize idx) = Some (Inr idx)"
proof -
  let ?body = "concat (map serializeIdentity idx)" and ?bytes = "VersionedChunkIndex_serialize idx"
  have "(ucast (identityCount idx) :: u32) = of_nat (length idx)"
    using n(1) by (simp add: identityCount_def unsigned_ucast_eq word_eq_iff_unsigned unsigned_of_nat take_bit_nat_def)
  then have bytes: "?bytes = versionedMagic @ [versionedFormat] @ putLE32 (of_nat (length idx)) @ putLE32 (ucast (totalVersionCount idx)) @ ?body"
    by (simp add: VersionedChunkIndex_serialize_def)
  have "readIdentities f (length idx) [] ?body = (Inr idx, [])"
    using readIdentities_ok [OF f, of "[]" idx "[]"] ok n(2) by simp
  moreover have "unat (joinLE (slice 4 4 ?bytes) :: u32) = length idx" "drop 12 ?bytes = ?body"
    using n(1) by (simp_all add: bytes slice_def versionedMagic_def unat_of_nat)
  moreover have "take 3 ?bytes = versionedMagic" "?bytes ! 3 = versionedFormat" "11 < length ?bytes"
    by (simp_all add: bytes versionedMagic_def)
  ultimately show ?thesis
    by (simp add: VersionedChunkIndex_deserialize_def VersionedChunkIndex_create_def)
qed

text \<open>A sorted insertion is one of the sorts \<open>std::sort\<close> may be.\<close>

lemma sort_key_ok: "std_sort_ok (sort_key ve_timestampNs)"
  by (simp add: std_sort_ok_def)

section \<open>Properties\<close>



end
