(* ===== verification/Storage_Policy.thy ===== *)
theory Storage_Policy
  imports Chunk_Types
begin

text \<open>
  The settings of the storage (src/src/storage/StoragePolicy.cpp): validation and guarded setters.
\<close>

section \<open>Operations\<close>

record StoragePolicy =
  sp_enabled :: bool
  sp_directory :: string
  sp_memory_budget_bytes :: u64
  sp_target_chunk_size_bytes :: u64
  sp_compression :: u16
  sp_max_concurrent_io :: u32
  sp_cache_eviction_threshold :: u32

definition StoragePolicy_default :: StoragePolicy where
  "StoragePolicy_default = \<lparr>sp_enabled = True, sp_directory = ''storage'', sp_memory_budget_bytes = 512 * 1024 * 1024,
     sp_target_chunk_size_bytes = 64 * 1024 * 1024, sp_compression = CompressionAlgorithm_none, sp_max_concurrent_io = 1,
     sp_cache_eviction_threshold = 80\<rparr>"

text \<open>\<open>toString\<close> and its inverse.\<close>

definition CompressionAlgorithm_toString :: "u16 \<Rightarrow> string" where
  "CompressionAlgorithm_toString compression =
     (if compression = CompressionAlgorithm_none then ''none''
      else if compression = CompressionAlgorithm_lz4 then ''lz4'' else ''unknown'')"

definition parseCompressionAlgorithm :: "string \<Rightarrow> u16 result" where
  "parseCompressionAlgorithm value =
     (if value = ''none'' then Inr CompressionAlgorithm_none
      else if value = ''lz4'' then Inr CompressionAlgorithm_lz4
      else Inl (Invalid_argument (''Unsupported storage compression: '' @ value)))"

text \<open>
  The quotient is rounded as a floating-point number (it is a whole number below 2^34) and printed
  with the six decimals of \<open>std::to_string\<close>.
\<close>

definition policy_formatBytes :: "u64 \<Rightarrow> string" where
  "policy_formatBytes bytes =
     (let KB = 1024; MB = KB * KB; GB = MB * KB
      in if bytes \<ge> GB then to_string (bytes div GB) @ ''.000000 GB''
         else if bytes \<ge> MB then to_string (bytes div MB) @ ''.000000 MB''
         else if bytes \<ge> KB then to_string (bytes div KB) @ ''.000000 KB''
         else to_string bytes @ '' B'')"

definition StoragePolicy_validate :: "StoragePolicy \<Rightarrow> unit result" where
  "StoragePolicy_validate p =
     (if \<not> sp_enabled p then Inr ()
      else
       res_bind (throw_if (sp_directory p = []) (Invalid_argument ''Storage directory must not be empty'')) (\<lambda>_.
       res_bind (throw_if (sp_memory_budget_bytes p = 0)
         (Invalid_argument ''Storage memory budget must be greater than zero'')) (\<lambda>_.
       res_bind (throw_if (sp_target_chunk_size_bytes p = 0)
         (Invalid_argument ''Storage target chunk size must be greater than zero'')) (\<lambda>_.
       res_bind (throw_if (sp_target_chunk_size_bytes p > sp_memory_budget_bytes p)
         (Invalid_argument (''Storage target chunk size ('' @ policy_formatBytes (sp_target_chunk_size_bytes p)
            @ '') must not exceed memory budget ('' @ policy_formatBytes (sp_memory_budget_bytes p) @ '')''))) (\<lambda>_.
       res_bind (throw_if (sp_max_concurrent_io p = 0)
         (Invalid_argument ''Storage maximum concurrent I/O must be greater than zero'')) (\<lambda>_.
       res_bind (throw_if (sp_cache_eviction_threshold p < 1 \<or> sp_cache_eviction_threshold p > 100)
         (Invalid_argument ''Cache eviction threshold must be between 1 and 100'')) (\<lambda>_.
       throw_if (sp_compression p \<noteq> CompressionAlgorithm_none \<and> sp_compression p \<noteq> CompressionAlgorithm_lz4)
         (Invalid_argument ''Unsupported storage compression algorithm''))))))))"

definition setMemoryBudget :: "u64 \<Rightarrow> StoragePolicy \<Rightarrow> StoragePolicy result" where
  "setMemoryBudget bytes p =
     res_bind (throw_if (bytes = 0) (Invalid_argument ''Memory budget must be greater than zero'')) (\<lambda>_.
     res_bind (throw_if (sp_target_chunk_size_bytes p > bytes)
       (Invalid_argument ''Memory budget must be greater than target chunk size'')) (\<lambda>_.
     Inr (p\<lparr>sp_memory_budget_bytes := bytes\<rparr>)))"

definition setTargetChunkSize :: "u64 \<Rightarrow> StoragePolicy \<Rightarrow> StoragePolicy result" where
  "setTargetChunkSize bytes p =
     res_bind (throw_if (bytes = 0) (Invalid_argument ''Target chunk size must be greater than zero'')) (\<lambda>_.
     res_bind (throw_if (bytes > sp_memory_budget_bytes p)
       (Invalid_argument ''Target chunk size must not exceed memory budget'')) (\<lambda>_.
     Inr (p\<lparr>sp_target_chunk_size_bytes := bytes\<rparr>)))"

definition setCompression :: "u16 \<Rightarrow> StoragePolicy \<Rightarrow> StoragePolicy result" where
  "setCompression algo p =
     res_bind (throw_if (algo \<noteq> CompressionAlgorithm_none \<and> algo \<noteq> CompressionAlgorithm_lz4)
       (Invalid_argument ''Unsupported compression algorithm'')) (\<lambda>_.
     Inr (p\<lparr>sp_compression := algo\<rparr>))"

definition setCompression_string :: "string \<Rightarrow> StoragePolicy \<Rightarrow> StoragePolicy result" where
  "setCompression_string algo p = res_bind (parseCompressionAlgorithm algo) (\<lambda>a. setCompression a p)"

definition setMaxConcurrentIo :: "u32 \<Rightarrow> StoragePolicy \<Rightarrow> StoragePolicy result" where
  "setMaxConcurrentIo ioCount p =
     res_bind (throw_if (ioCount = 0) (Invalid_argument ''Max concurrent I/O must be greater than zero'')) (\<lambda>_.
     Inr (p\<lparr>sp_max_concurrent_io := ioCount\<rparr>))"

definition setCacheEvictionThreshold :: "u32 \<Rightarrow> StoragePolicy \<Rightarrow> StoragePolicy result" where
  "setCacheEvictionThreshold threshold p =
     res_bind (throw_if (threshold < 1 \<or> threshold > 100) (Invalid_argument ''Eviction threshold must be between 1 and 100'')) (\<lambda>_.
     Inr (p\<lparr>sp_cache_eviction_threshold := threshold\<rparr>))"

section \<open>Facts\<close>

text \<open>A setter that is accepted keeps a valid policy valid.\<close>

lemma StoragePolicy_validate_Inr:
  "StoragePolicy_validate p = Inr u \<longleftrightarrow> sp_enabled p \<longrightarrow> sp_directory p \<noteq> [] \<and> sp_memory_budget_bytes p \<noteq> 0
     \<and> sp_target_chunk_size_bytes p \<noteq> 0 \<and> sp_target_chunk_size_bytes p \<le> sp_memory_budget_bytes p
     \<and> sp_max_concurrent_io p \<noteq> 0 \<and> sp_cache_eviction_threshold p \<noteq> 0 \<and> sp_cache_eviction_threshold p \<le> 100
     \<and> (sp_compression p = 0 \<or> sp_compression p = 1)"
  by (auto simp: StoragePolicy_validate_def res_bind_eq_Inr_iff compression_defs not_less not_le)

lemma setters_keep_valid:
  assumes "StoragePolicy_validate p = Inr ()"
    and "setMemoryBudget n p = Inr p' \<or> setTargetChunkSize n p = Inr p' \<or> setCompression c p = Inr p'
      \<or> setCompression_string s p = Inr p' \<or> setMaxConcurrentIo k p = Inr p' \<or> setCacheEvictionThreshold k p = Inr p'"
  shows "StoragePolicy_validate p' = Inr ()"
  using assms unfolding StoragePolicy_validate_Inr
  by (elim disjE) (auto simp: setMemoryBudget_def setTargetChunkSize_def setCompression_def setCompression_string_def setMaxConcurrentIo_def
      setCacheEvictionThreshold_def parseCompressionAlgorithm_def compression_defs res_bind_eq_Inr_iff not_less not_le split: if_splits)

end
