(* ===== verification/Chunk_Store.thy ===== *)
theory Chunk_Store
  imports Chunk_Codec Storage_Policy Checkpoint_Quarantine "HOL-Library.Char_ord" "HOL-Library.List_Lexorder"
begin

text \<open>
  The files of the chunks (src/src/storage/ChunkStore.cpp): a chunk is written to a file in the
  directory \<open>.tmp\<close>, synced, renamed to its deterministic name and the storage directory is synced.
  The measurement of times and the hint to drop cached pages change no state and are left out.
\<close>

section \<open>Operations\<close>

definition is_regular_file :: "os_env \<Rightarrow> path \<Rightarrow> (os, bool) action" where
  "is_regular_file env p = fs_exists env p"

definition readFile :: "os_env \<Rightarrow> path \<Rightarrow> (os, u8 list) action" where
  "readFile env path s =
     (case stream_read env path s of
        (None, s') \<Rightarrow> (Inl (Runtime_error (''cannot open chunk file: '' @ path_string path)), s')
      | (Some bytes, s') \<Rightarrow>
          st_bind (sys_checked ''cannot stat chunk file'' (sys_call env (\<lambda>d. d))) (\<lambda>_.
          st_bind (st_throw_if (length bytes > unat (- 1 :: size_t) \<or> length bytes > 2 ^ 63 - 1)
            (Length_error ''chunk file is too large to read'')) (\<lambda>_.
          if bytes = [] then st_return bytes
          else (\<lambda>s. case sys_call env (\<lambda>d. d) s of
              (Some e, s') \<Rightarrow> (Inl (Runtime_error (''cannot read complete chunk file: '' @ path_string path)), s')
            | (None, s') \<Rightarrow> (Inr bytes, s')))) s')"

definition ChunkStore_create :: "os_env \<Rightarrow> StoragePolicy \<Rightarrow> (disk \<Rightarrow> string \<Rightarrow> bool) \<Rightarrow> (os, unit) action" where
  "ChunkStore_create env policy directory_exists =
     st_bind (st_lift (StoragePolicy_validate policy)) (\<lambda>_.
     st_bind (sys_checked ''cannot get status'' (sys_call env (\<lambda>d. d))) (\<lambda>_ s.
     if directory_exists (os_disk s) (sp_directory policy) then (Inr (), s)
     else sys_checked ''create storage directory'' (sys_call env (\<lambda>d. d)) s))"

definition chunkPath :: "StoragePolicy \<Rightarrow> string \<Rightarrow> path result" where
  "chunkPath policy chunkId = res_bind (createChunkFilename chunkId) (\<lambda>name. Inr (Path (sp_directory policy) name))"

definition atomicRename :: "os_env \<Rightarrow> path \<Rightarrow> path \<Rightarrow> (os, bool) action" where
  "atomicRename env source target s =
     (case sys_rename env source target s of (Some e, s') \<Rightarrow> (Inr False, s') | (None, s') \<Rightarrow> (Inr True, s'))"

definition ChunkStore_syncDirectory :: "os_env \<Rightarrow> StoragePolicy \<Rightarrow> (os, unit) action" where
  "ChunkStore_syncDirectory env policy =
     st_bind (sys_checked ''open storage directory'' (sys_call env (\<lambda>d. d))) (\<lambda>_.
     sys_checked ''sync storage directory'' (sys_call env (disk_sync_dir (sp_directory policy))))"

definition syncFile :: "os_env \<Rightarrow> path \<Rightarrow> (os, unit) action" where
  "syncFile env path s =
     (case dk_names (os_disk s) path of
        None \<Rightarrow> (Inl (System_error ''open chunk file''), tick s (os_disk s))
      | Some ino \<Rightarrow>
          st_bind (sys_checked ''open chunk file'' (sys_call env (\<lambda>d. d))) (\<lambda>_.
          sys_checked ''sync chunk file'' (sys_call env (disk_fsync ino))) s)"

definition temporaryDirectory :: "StoragePolicy \<Rightarrow> string" where
  "temporaryDirectory policy = sp_directory policy @ ''/.tmp''"

definition createTemporaryFile :: "os_env \<Rightarrow> StoragePolicy \<Rightarrow> path \<Rightarrow> (os, path) action" where
  "createTemporaryFile env policy target =
     st_bind (create_directories env) (\<lambda>_.
     st_return (Path (temporaryDirectory policy) (path_filename target @ ''.tmp.'' @ dec_string (env_pid env))))"

definition removeTemporaryFile :: "os_env \<Rightarrow> path \<Rightarrow> (os, unit) action" where
  "removeTemporaryFile env path s = (Inr (), snd (fs_remove env path s))"

text \<open>The \<open>try\<close> block of \<open>store\<close>.\<close>

definition publishChunk :: "os_env \<Rightarrow> StoragePolicy \<Rightarrow> path \<Rightarrow> path \<Rightarrow> u8 list \<Rightarrow> (os, unit) action" where
  "publishChunk env policy target temp encoded =
     st_bind (\<lambda>s. case stream_create env temp s of (fd, s') \<Rightarrow>
       (case fd of None \<Rightarrow> Inl (Runtime_error ''cannot create temporary chunk'') | Some ino \<Rightarrow> Inr ino, s')) (\<lambda>ino.
     st_bind (\<lambda>s. case stream_write env ino encoded s of (good, s') \<Rightarrow>
       (throw_if (\<not> good) (Runtime_error ''cannot write temporary chunk''), s')) (\<lambda>_.
     st_bind (syncFile env temp) (\<lambda>_.
     st_bind (atomicRename env temp target) (\<lambda>renamed.
     st_bind (st_throw_if (\<not> renamed) (Runtime_error ''cannot publish chunk atomically'')) (\<lambda>_.
     ChunkStore_syncDirectory env policy)))))"

definition ChunkStore_store ::
  "os_env \<Rightarrow> sse42 option \<Rightarrow> gmp \<Rightarrow> lz4 \<Rightarrow> StoragePolicy \<Rightarrow> Chunk \<Rightarrow> (os, string) paction" where
  "ChunkStore_store env cpu g z policy chunk =
     p_bind (p_lift (st_lift (ChunkMetadata_validate (chunk_metadata chunk)))) (\<lambda>_.
     p_bind (p_lift (st_throw_if (cm_compression (chunk_metadata chunk) \<noteq> sp_compression policy)
       (Invalid_argument ''chunk compression does not match storage policy''))) (\<lambda>_.
     p_bind (\<lambda>s. map_option (\<lambda>r. (r, s)) (ChunkCodec_encode cpu g z chunk)) (\<lambda>encoded.
     p_bind (p_lift (st_lift (deterministicFilename (cm_identity (chunk_metadata chunk))))) (\<lambda>id.
     p_bind (p_lift (st_lift (chunkPath policy id))) (\<lambda>target.
     p_bind (p_lift (createTemporaryFile env policy target)) (\<lambda>temp.
     p_bind (p_on_error (p_lift (publishChunk env policy target temp encoded)) (removeTemporaryFile env temp)) (\<lambda>_.
     p_lift (st_return id))))))))"

definition ChunkStore_load ::
  "os_env \<Rightarrow> sse42 option \<Rightarrow> gmp \<Rightarrow> lz4 \<Rightarrow> StoragePolicy \<Rightarrow> string \<Rightarrow> (os, Chunk option) action" where
  "ChunkStore_load env cpu g z policy chunkId =
     st_bind (st_lift (chunkPath policy chunkId)) (\<lambda>path.
     st_bind (is_regular_file env path) (\<lambda>there.
     if \<not> there then st_return None
     else st_bind (readFile env path) (\<lambda>bytes.
       st_bind (st_lift (ChunkCodec_decode cpu g z bytes)) (\<lambda>chunk. st_return (Some chunk)))))"

definition ChunkStore_contains :: "os_env \<Rightarrow> StoragePolicy \<Rightarrow> string \<Rightarrow> (os, bool) action" where
  "ChunkStore_contains env policy chunkId =
     st_bind (st_lift (chunkPath policy chunkId)) (\<lambda>path. is_regular_file env path)"

definition ChunkStore_remove :: "os_env \<Rightarrow> StoragePolicy \<Rightarrow> string \<Rightarrow> (os, bool) action" where
  "ChunkStore_remove env policy chunkId =
     st_bind (st_lift (chunkPath policy chunkId)) (\<lambda>path.
     st_bind (\<lambda>s. case fs_remove env path s of (removed, s') \<Rightarrow> (Inr removed, s')) (\<lambda>removed.
     st_bind (if removed then ChunkStore_syncDirectory env policy else st_return ()) (\<lambda>_.
     st_return removed)))"

definition ChunkStore_fileSize :: "os_env \<Rightarrow> StoragePolicy \<Rightarrow> string \<Rightarrow> (os, u64 option) action" where
  "ChunkStore_fileSize env policy chunkId =
     st_bind (st_lift (chunkPath policy chunkId)) (\<lambda>path s.
     case file_size env path s of (Inl e, s') \<Rightarrow> (Inr None, s') | (Inr n, s') \<Rightarrow> (Inr (Some (of_nat n)), s'))"

fun entrySizes :: "os_env \<Rightarrow> path list \<Rightarrow> (os, (path \<times> u64) list) action" where
  "entrySizes env [] = st_return []"
| "entrySizes env (p # ps) =
     st_bind (file_size env p) (\<lambda>n. st_bind (entrySizes env ps) (\<lambda>rest. st_return ((p, of_nat n) # rest)))"

definition listAllFiles :: "os_env \<Rightarrow> listing \<Rightarrow> StoragePolicy \<Rightarrow> (os, (path \<times> u64) list) action" where
  "listAllFiles env ls policy =
     st_bind (sys_checked ''directory iterator cannot open directory'' (sys_call env (\<lambda>d. d))) (\<lambda>_ s.
     st_bind (entrySizes env (filter (\<lambda>p. file_extension (path_filename p) = ''.chunk'') (ls (os_disk s) (sp_directory policy))))
       (\<lambda>files. st_return (sort_key (\<lambda>(p, n). path_filename p) files)) s)"

definition listTemporaryFiles :: "os_env \<Rightarrow> listing \<Rightarrow> (disk \<Rightarrow> string \<Rightarrow> bool) \<Rightarrow> StoragePolicy \<Rightarrow> (os, path list) action" where
  "listTemporaryFiles env ls directory_exists policy =
     st_bind (sys_checked ''cannot get status'' (sys_call env (\<lambda>d. d))) (\<lambda>_ s.
     if \<not> directory_exists (os_disk s) (temporaryDirectory policy) then (Inr [], s)
     else st_bind (sys_checked ''directory iterator cannot open directory'' (sys_call env (\<lambda>d. d))) (\<lambda>_ s.
       (Inr (sort_key path_filename (ls (os_disk s) (temporaryDirectory policy))), s)) s)"

fun removeTemporaryFiles :: "os_env \<Rightarrow> path list \<Rightarrow> (os, unit) action" where
  "removeTemporaryFiles env [] = st_return ()"
| "removeTemporaryFiles env (p # ps) = st_bind (removeTemporaryFile env p) (\<lambda>_. removeTemporaryFiles env ps)"

definition cleanupTemporaryFiles :: "os_env \<Rightarrow> listing \<Rightarrow> (disk \<Rightarrow> string \<Rightarrow> bool) \<Rightarrow> StoragePolicy \<Rightarrow> (os, unit) action" where
  "cleanupTemporaryFiles env ls directory_exists policy =
     st_bind (listTemporaryFiles env ls directory_exists policy) (\<lambda>paths. removeTemporaryFiles env paths)"

text \<open>A handler \<open>catch (const std::exception& error)\<close> that throws another exception.\<close>

definition st_rethrow :: "(cpp_error \<Rightarrow> cpp_error) \<Rightarrow> ('s, 'a) action \<Rightarrow> ('s, 'a) action" where
  "st_rethrow f m s = (case m s of (Inl e, s') \<Rightarrow> (Inl (f e), s') | (Inr x, s') \<Rightarrow> (Inr x, s'))"

definition integrityFailure :: "cpp_error \<Rightarrow> cpp_error" where
  "integrityFailure e = Runtime_error (''chunk integrity check failed: '' @ what e)"

definition verifyDecoded ::
  "sse42 option \<Rightarrow> gmp \<Rightarrow> lz4 \<Rightarrow> StoragePolicy \<Rightarrow> string \<Rightarrow> u8 list \<Rightarrow> Chunk result" where
  "verifyDecoded cpu g z policy expectedId bytes =
     res_bind (ChunkCodec_decode cpu g z bytes) (\<lambda>decoded.
     res_bind (deterministicFilename (cm_identity (chunk_metadata decoded))) (\<lambda>name.
     res_bind (throw_if (name \<noteq> expectedId) (Runtime_error ''chunk identity does not match filename'')) (\<lambda>_.
     res_bind (throw_if (cm_compression (chunk_metadata decoded) \<noteq> sp_compression policy)
       (Runtime_error ''chunk compression does not match storage policy'')) (\<lambda>_.
     Inr decoded))))"

definition verifyChunkIntegrity ::
  "os_env \<Rightarrow> sse42 option \<Rightarrow> gmp \<Rightarrow> lz4 \<Rightarrow> StoragePolicy \<Rightarrow> string \<Rightarrow> (os, bool) action" where
  "verifyChunkIntegrity env cpu g z policy chunkId =
     st_bind (st_lift (chunkPath policy chunkId)) (\<lambda>path.
     st_bind (is_regular_file env path) (\<lambda>there.
     st_bind (st_throw_if (\<not> there) (Runtime_error ''chunk not found'')) (\<lambda>_.
     st_rethrow integrityFailure
       (st_bind (readFile env path) (\<lambda>bytes.
        st_bind (st_lift (verifyDecoded cpu g z policy chunkId bytes)) (\<lambda>_. st_return True))))))"

definition reloadAndVerify ::
  "os_env \<Rightarrow> sse42 option \<Rightarrow> gmp \<Rightarrow> lz4 \<Rightarrow> StoragePolicy \<Rightarrow> string \<Rightarrow> (os, Chunk option) action" where
  "reloadAndVerify env cpu g z policy chunkId =
     st_bind (st_lift (chunkPath policy chunkId)) (\<lambda>path.
     st_bind (is_regular_file env path) (\<lambda>there.
     if \<not> there then st_return None
     else st_bind (readFile env path) (\<lambda>bytes.
       st_bind (st_rethrow integrityFailure (st_lift (verifyDecoded cpu g z policy chunkId bytes))) (\<lambda>chunk.
       st_return (Some chunk)))))"

fun verifyLoop ::
  "os_env \<Rightarrow> sse42 option \<Rightarrow> gmp \<Rightarrow> lz4 \<Rightarrow> StoragePolicy \<Rightarrow> (path \<times> u64) list \<Rightarrow> os \<Rightarrow> (string \<times> bool) list \<times> os" where
  "verifyLoop env cpu g z policy [] s = ([], s)"
| "verifyLoop env cpu g z policy ((path, n) # files) s =
     (case verifyChunkIntegrity env cpu g z policy (path_filename path) s of (r, s') \<Rightarrow>
        let valid = (case r of Inl e \<Rightarrow> False | Inr b \<Rightarrow> b);
            (rest, s'') = verifyLoop env cpu g z policy files s'
        in ((path_filename path, valid) # rest, s''))"

definition verifyAllChunks ::
  "os_env \<Rightarrow> sse42 option \<Rightarrow> gmp \<Rightarrow> lz4 \<Rightarrow> listing \<Rightarrow> StoragePolicy \<Rightarrow> (os, (string \<times> bool) list) action" where
  "verifyAllChunks env cpu g z ls policy =
     st_bind (listAllFiles env ls policy) (\<lambda>files s.
     case verifyLoop env cpu g z policy files s of (checked, s') \<Rightarrow> (Inr checked, s'))"

fun removeInvalid :: "os_env \<Rightarrow> StoragePolicy \<Rightarrow> size_t \<Rightarrow> (string \<times> bool) list \<Rightarrow> (os, size_t) action" where
  "removeInvalid env policy n [] = st_return n"
| "removeInvalid env policy n ((chunkId, valid) # rest) =
     (if valid then removeInvalid env policy n rest
      else st_bind (ChunkStore_remove env policy chunkId) (\<lambda>removed.
        removeInvalid env policy (if removed then n + 1 else n) rest))"

definition removeCorruptedFiles ::
  "os_env \<Rightarrow> sse42 option \<Rightarrow> gmp \<Rightarrow> lz4 \<Rightarrow> listing \<Rightarrow> StoragePolicy \<Rightarrow> (os, size_t) action" where
  "removeCorruptedFiles env cpu g z ls policy =
     st_bind (verifyAllChunks env cpu g z ls policy) (\<lambda>checked. removeInvalid env policy 0 checked)"

section \<open>Names\<close>

lemma number_chars [simp]: "CHR ''/'' \<notin> set (dec_string n)" "CHR 0x5C \<notin> set (dec_string n)"
  using dec_string_digits [of "CHR ''/''" n] dec_string_digits [of "CHR 0x5C" n] by (auto simp: is_digit_iff)

lemma chunkName_chars: "c \<in> set (chunkName i) \<Longrightarrow> c \<noteq> CHR ''/'' \<and> c \<noteq> CHR 0x5C"
  by (auto simp: chunkName_def identityName_def)

lemma chunkName_not_temp: "\<not> is_temp_name (chunkName i)"
  using contains_count [of "''.tmp.''" "chunkName i" "CHR ''.''"] by (auto simp: is_temp_name_def chunkName_def identityName_def)

lemma chunkName_nonempty: "chunkName i \<noteq> []"
  by (simp add: chunkName_def)

lemma chunkPath_chunkName: "chunkPath policy (chunkName i) = Inr (Path (sp_directory policy) (chunkName i))"
  using chunkName_chars by (auto simp: chunkPath_def createChunkFilename_def)

lemma deterministicFilename_Inr:
  "deterministicFilename i = Inr name \<longleftrightarrow> ChunkIdentity_validate i = Inr () \<and> name = chunkName i"
  by (auto simp: deterministicFilename_def res_bind_eq_Inr_iff)

section \<open>Storing\<close>

abbreviation chunk_file :: "StoragePolicy \<Rightarrow> ChunkIdentity \<Rightarrow> path" where
  "chunk_file policy i \<equiv> Path (sp_directory policy) (chunkName i)"

text \<open>A call on a disk that may be anywhere between \<open>d0\<close> and its goal.\<close>

lemma traced_tick_same: "traced J s0 s \<Longrightarrow> traced J s0 (tick s (os_disk s))"
  by (rule traced_tick) (auto dest: traced_disk)

lemma fs_remove_temp:
  "traced (evolves d0 F) s0 s \<Longrightarrow> temp_path p \<Longrightarrow> traced (evolves d0 F) s0 (snd (fs_remove env p s))"
  using traced_tick_same [of "evolves d0 F" s0 s] traced_evolves_step [of d0 F s0 s "disk_unlink p (os_disk s)"]
    evolves_temp_unlink [OF evolves_ok [OF traced_disk [of "evolves d0 F" s0 s]], of p F]
  by (auto simp: fs_remove_def sys_call_def split: option.split)

lemma ChunkStore_syncDirectory_post:
  assumes "traced (evolves d0 F) s0 s"
  shows "st_post (ChunkStore_syncDirectory env policy) s (\<lambda>r s'. traced (evolves d0 F) s0 s'
    \<and> (r = Inr () \<longrightarrow> os_disk s' = disk_sync_dir (sp_directory policy) (os_disk s)))"
proof -
  let ?s1 = "tick s (os_disk s)"
  have s1: "traced (evolves d0 F) s0 ?s1"
    using assms by (rule traced_tick_same)
  have ok: "disk_ok (os_disk s)"
    using evolves_ok traced_disk [OF assms] by blast
  have "traced (evolves d0 F) s0 (tick ?s1 (disk_sync_dir (sp_directory policy) (os_disk s)))"
    using traced_evolves_step [OF s1] evolves_sync_dir [OF ok] by simp
  then show ?thesis
    using s1 traced_tick_same [OF s1]
    by (auto simp: ChunkStore_syncDirectory_def st_post_def st_bind_def sys_checked_def sys_call_def split: option.splits)
qed

lemma stream_create_step:
  assumes "Q (Inl e) (tick s (os_disk s))" and "Q (Inr (dk_next (os_disk s))) (tick s (disk_create p (os_disk s)))"
  shows "st_post (\<lambda>s. case stream_create env p s of (fd, s') \<Rightarrow> (case fd of None \<Rightarrow> Inl e | Some ino \<Rightarrow> Inr ino, s')) s Q"
  using assms by (auto simp: st_post_def stream_create_def sys_call_def split: option.splits)

lemma stream_write_step:
  assumes "\<And>k. Q (Inl e) (tick s (disk_write ino (take k bs) (os_disk s)))" and "Q (Inr ()) (tick s (disk_write ino bs (os_disk s)))"
  shows "st_post (\<lambda>s. case stream_write env ino bs s of (good, s') \<Rightarrow> (throw_if (\<not> good) e, s')) s Q"
  using assms by (auto simp: st_post_def stream_write_def throw_if_def split: option.splits)

lemma syncFile_step:
  assumes "dk_names (os_disk s) p = Some ino" and "\<And>e. Q (Inl e) (tick s (os_disk s))"
    "\<And>e. Q (Inl e) (tick (tick s (os_disk s)) (os_disk s))" "Q (Inr ()) (tick (tick s (os_disk s)) (disk_fsync ino (os_disk s)))"
  shows "st_post (syncFile env p) s Q"
  using assms by (auto simp: st_post_def syncFile_def st_bind_def sys_checked_def sys_call_def split: option.splits)

lemma atomicRename_step:
  assumes "dk_names (os_disk s) p \<noteq> None" and "Q (Inr False) (tick s (os_disk s))"
    "Q (Inr True) (tick s (disk_rename p q (os_disk s)))"
  shows "st_post (atomicRename env p q) s Q"
  using assms by (auto simp: st_post_def atomicRename_def sys_rename_def sys_call_def split: option.splits)

lemma durable_synced:
  assumes "dk_names d p = Some ino" and "binding_outcomes d (Some ino) = {Some bytes}"
  shows "durable (disk_sync_dir (parent_path p) d) p bytes"
proof -
  let ?d = "disk_sync_dir (parent_path p) d"
  have eq: "binding_outcomes ?d (Some ino) = {Some bytes}"
    using assms(2) binding_outcomes_cong [of "Some ino" ?d d] by (simp add: disk_sync_dir_def)
  have "dk_maybe ?d p = {Some ino}" "dk_names ?d p = Some ino"
    using assms(1) by (simp_all add: disk_sync_dir_def)
  then show ?thesis
    using eq content_outcome [of ?d p] by (auto simp: durable_def after_crash_def)
qed

lemma publishChunk_post:
  assumes ok: "disk_ok d0" and start: "traced (same_files temp_path d0) s0 s"
    and temp: "temp_path temp" and target: "target = Path (sp_directory policy) name" "\<not> is_temp_name name"
  shows "st_post (publishChunk env policy target temp encoded) s (\<lambda>r s'. traced (evolves d0 (writes target (Some encoded))) s0 s'
    \<and> (r = Inr () \<longrightarrow> durable (os_disk s') target encoded))" (is "st_post _ s ?Q")
proof -
  let ?F = "writes target (Some encoded)"
  have nt: "\<not> temp_path target"
    using target by simp
  have weaken: "traced (evolves d0 ?F) s0 s'" if "traced (same_files temp_path d0) s0 s'" for s'
    using that by (rule traced_mono) (rule commit_evolves [OF same_files_commit [where T = temp_path, OF _ ok nt]])
  have fail: "?Q (Inl e) s'" if "traced (same_files temp_path d0) s0 s'" for e s'
    using weaken [OF that] by simp
  have same: "traced (same_files temp_path d0) s0 (tick s' d)"
    if "traced (same_files temp_path d0) s0 s'" "temp_file temp_path d0 temp ino bs d" for s' d ino bs
    using that(1) temp_file_same [OF that(2)] by (rule traced_tick)
  let ?s1 = "tick s (disk_create temp (os_disk s))" and ?ino = "dk_next (os_disk s)"
  let ?s2 = "tick ?s1 (disk_write ?ino encoded (os_disk ?s1))"
  let ?s3 = "tick (tick ?s2 (os_disk ?s2)) (disk_fsync ?ino (os_disk ?s2))"
  let ?s4 = "tick ?s3 (disk_rename temp target (os_disk ?s3))"
  have t1: "temp_file temp_path d0 temp ?ino [] (os_disk ?s1)"
    using same_files_create [OF traced_disk [OF start] temp] by simp
  have w: "temp_file temp_path d0 temp ?ino bs (disk_write ?ino bs (os_disk ?s1))" for bs
    using temp_file_write [OF t1, of bs] by simp
  have t3: "temp_file temp_path d0 temp ?ino encoded (os_disk ?s3)" "dk_stable (os_disk ?s3) ?ino"
    using temp_file_fsync [OF w [of encoded]] by simp_all
  have s1: "traced (same_files temp_path d0) s0 ?s1"
    using t1 by (intro same [OF start]) simp
  have s2: "traced (same_files temp_path d0) s0 (tick ?s1 (disk_write ?ino bs (os_disk ?s1)))" for bs
    using same [OF s1 w] .
  have s3: "traced (same_files temp_path d0) s0 ?s3"
    using t3(1) by (intro same [OF traced_tick_same [OF s2]]) simp
  note r = temp_file_rename [OF t3 ok nt]
  have s4: "traced (evolves d0 ?F) s0 ?s4"
    using traced_tick [OF weaken [OF s3] commit_evolves [OF r(1)]] by simp
  have names: "dk_names (os_disk ?s2) temp = Some ?ino" "dk_names (os_disk ?s3) temp \<noteq> None"
    using w [of encoded] t3(1) by (simp_all add: temp_file_def)
  have last: "st_post (ChunkStore_syncDirectory env policy) ?s4 ?Q"
  proof (rule st_post_mono [OF ChunkStore_syncDirectory_post [OF s4]])
    fix u :: "unit result" and s'
    assume "traced (evolves d0 ?F) s0 s' \<and> (u = Inr () \<longrightarrow> os_disk s' = disk_sync_dir (sp_directory policy) (os_disk ?s4))"
    then show "?Q u s'"
      using durable_synced [of "os_disk ?s4" target ?ino encoded] r(2,3) target(1) by simp
  qed
  show ?thesis
    unfolding publishChunk_def st_post_bind
  proof (rule stream_create_step, goal_cases)
    case 1
    then show ?case using fail [OF traced_tick_same [OF start]] by simp
  next
    case 2
    then show ?case
      unfolding sum.case
    proof (rule stream_write_step, goal_cases)
      case (1 k)
      then show ?case using fail [OF s2] by simp
    next
      case 2
      then show ?case
        unfolding sum.case
      proof (rule syncFile_step [OF names(1)], goal_cases)
        case 3
        then show ?case
          unfolding sum.case
          using last fail [OF traced_tick_same [OF s3]]
          by (intro atomicRename_step [OF names(2)]) (simp_all add: throw_if_def)
      qed (use fail [OF traced_tick_same [OF s2]] fail [OF traced_tick_same [OF traced_tick_same [OF s2]]] in simp_all)
    qed
  qed
qed

lemma publishChunk_handled:
  assumes ok: "disk_ok d0" and start: "traced (same_files temp_path d0) s0 s"
    and temp: "temp_path temp" and target: "target = Path (sp_directory policy) name" "\<not> is_temp_name name"
  shows "p_post (p_on_error (p_lift (publishChunk env policy target temp encoded)) (removeTemporaryFile env temp)) s
    (\<lambda>r s'. traced (evolves d0 (writes target (Some encoded))) s0 s' \<and> (r = Inr () \<longrightarrow> durable (os_disk s') target encoded))"
  unfolding p_post_on_error p_post_lift
proof (rule st_post_mono [OF publishChunk_post [OF assms]])
  fix r :: "unit result" and s'
  assume a: "traced (evolves d0 (writes target (Some encoded))) s0 s' \<and> (r = Inr () \<longrightarrow> durable (os_disk s') target encoded)"
  then have "traced (evolves d0 (writes target (Some encoded))) s0 (snd (fs_remove env temp s'))"
    using fs_remove_temp [OF _ temp] by blast
  then show "on_result (\<lambda>e. st_post (removeTemporaryFile env temp) s' (\<lambda>_ u. traced (evolves d0 (writes target (Some encoded))) s0 u
        \<and> (Inl e = Inr () \<longrightarrow> durable (os_disk u) target encoded)))
      (\<lambda>x. traced (evolves d0 (writes target (Some encoded))) s0 s' \<and> (Inr x = Inr () \<longrightarrow> durable (os_disk s') target encoded)) r"
    using a by (cases r) (simp_all add: st_post_def removeTemporaryFile_def)
qed

lemma ChunkStore_store_post:
  fixes policy :: StoragePolicy
  assumes ok: "disk_ok (os_disk s)" and enc: "ChunkCodec_encode cpu g z chunk = Some r0"
  defines "target \<equiv> chunk_file policy (cm_identity (chunk_metadata chunk))"
  shows "p_post (ChunkStore_store env cpu g z policy chunk) s (\<lambda>r s'.
    traced (evolves (os_disk s) (\<lambda>p. case r0 of Inl _ \<Rightarrow> {} | Inr bytes \<Rightarrow> writes target (Some bytes) p)) s s'
    \<and> (\<forall>name. r = Inr name \<longrightarrow> name = chunkName (cm_identity (chunk_metadata chunk))
         \<and> ChunkMetadata_validate (chunk_metadata chunk) = Inr () \<and> cm_compression (chunk_metadata chunk) = sp_compression policy
         \<and> (\<exists>bytes. r0 = Inr bytes \<and> durable (os_disk s') target bytes)))"
    (is "p_post _ s ?Q")
proof -
  let ?i = "cm_identity (chunk_metadata chunk)"
  have same: "traced (evolves (os_disk s) F) s s'" if "traced (\<lambda>d. d = os_disk s) s s'" for F s'
    using that by (rule traced_mono) (simp add: evolves_refl [OF ok])
  have here: "?Q (Inl e) s" for e
    using same [OF traced_here] by simp
  let ?rest = "\<lambda>bytes temp. p_bind (p_on_error (p_lift (publishChunk env policy target temp bytes)) (removeTemporaryFile env temp))
      (\<lambda>_. p_lift (st_return (chunkName ?i)))"
  let ?temp = "Path (temporaryDirectory policy) (path_filename target @ ''.tmp.'' @ dec_string (env_pid env))"
  have rest: "p_post (?rest bytes ?temp) s' ?Q"
    if r0: "r0 = Inr bytes" and v: "ChunkMetadata_validate (chunk_metadata chunk) = Inr ()"
      "cm_compression (chunk_metadata chunk) = sp_compression policy"
      and s': "traced (\<lambda>d. d = os_disk s) s s'" for bytes s'
  proof -
    have "traced (same_files temp_path (os_disk s)) s s'"
      using s' by (rule traced_mono) (simp add: same_files_refl [OF ok])
    moreover have "temp_path ?temp"
      using is_temp_append [of "path_filename target" "dec_string (env_pid env)"] by simp
    ultimately show ?thesis
      unfolding p_post_bind
      by (rule p_post_mono [OF publishChunk_handled [where name = "chunkName ?i", OF ok]])
        (use r0 v in \<open>simp_all add: target_def chunkName_not_temp split: sum.split\<close>)
  qed
  have publish: "p_post (p_bind (p_lift (createTemporaryFile env policy target)) (?rest bytes)) s ?Q"
    if "r0 = Inr bytes" "ChunkMetadata_validate (chunk_metadata chunk) = Inr ()"
      "cm_compression (chunk_metadata chunk) = sp_compression policy" for bytes
    unfolding createTemporaryFile_def p_post_bind [of "p_lift m" for m] p_post_lift st_post_bind
  proof (rule create_directories_post [OF ok], goal_cases)
    case (1 r s')
    then show ?case
      using same [of s'] rest [OF that, of s'] by (cases r) (simp_all del: p_post_bind)
  qed
  have name: "deterministicFilename ?i = Inr (chunkName ?i)" if "ChunkMetadata_validate (chunk_metadata chunk) = Inr ()"
    using that by (simp add: ChunkMetadata_validate_Inr deterministicFilename_Inr)
  consider e where "ChunkStore_store env cpu g z policy chunk s = Some (Inl e, s)"
    | bytes where "r0 = Inr bytes" "ChunkMetadata_validate (chunk_metadata chunk) = Inr ()"
      "cm_compression (chunk_metadata chunk) = sp_compression policy"
      "ChunkStore_store env cpu g z policy chunk s = p_bind (p_lift (createTemporaryFile env policy target)) (?rest bytes) s"
  proof (cases "ChunkMetadata_validate (chunk_metadata chunk)")
    case (Inl e)
    then show thesis
      using that(1) by (simp add: ChunkStore_store_def p_bind_def)
  next
    case (Inr u)
    then show thesis
      using that name chunkPath_chunkName [of policy ?i] enc
      by (cases r0; cases "cm_compression (chunk_metadata chunk) = sp_compression policy")
        (simp_all add: ChunkStore_store_def p_bind_def throw_if_def target_def)
  qed
  then show ?thesis
  proof cases
    case 1
    then show ?thesis
      using here by (simp add: p_post_def)
  next
    case 2
    then show ?thesis
      using publish [OF 2(1-3)] by (simp add: p_post_def)
  qed
qed

section \<open>Reading and removing\<close>

text \<open>Calls that leave the disk as it is.\<close>

abbreviation quiet :: "os \<Rightarrow> os \<Rightarrow> bool" where
  "quiet s s' \<equiv> traced (\<lambda>d. d = os_disk s) s s'"

lemma quiet_disk: "quiet s s' \<Longrightarrow> os_disk s' = os_disk s"
  by (rule traced_disk)

lemma quiet_refl: "quiet s s"
  by (simp add: traced_here)

lemma quiet_tick: "quiet s s' \<Longrightarrow> quiet s (tick s' (os_disk s'))"
  by (rule traced_tick_same)

lemma quiet_evolves: "quiet s s' \<Longrightarrow> disk_ok (os_disk s) \<Longrightarrow> traced (evolves (os_disk s) F) s s'"
  by (erule traced_mono) (simp add: evolves_refl)

lemma quiet_checked: "quiet s0 s \<Longrightarrow> st_post (sys_checked op (sys_call env (\<lambda>d. d))) s (\<lambda>r s'. quiet s0 s')"
  by (rule st_post_checked) (simp_all add: quiet_tick)

lemma is_regular_file_post:
  "quiet s0 s \<Longrightarrow> st_post (is_regular_file env p) s (\<lambda>r s'. quiet s0 s' \<and> (\<forall>b. r = Inr b \<longrightarrow> b = (dk_names (os_disk s0) p \<noteq> None)))"
  using quiet_tick [of s0 s] quiet_disk [of s0 s]
  by (auto simp: is_regular_file_def fs_exists_def st_post_def sys_call_def split: option.split)

lemma readFile_post:
  assumes "quiet s0 s"
  shows "st_post (readFile env p) s (\<lambda>r s'. quiet s0 s' \<and> (\<forall>bytes. r = Inr bytes \<longrightarrow> content (os_disk s0) p = Some bytes))"
proof -
  note q1 = quiet_tick [OF assms]
  note q2 = quiet_tick [OF q1] and d = quiet_disk [OF assms]
  note q3 = quiet_tick [OF q2]
  show ?thesis
    using q1 q2 q3 d
    by (auto simp: readFile_def stream_read_def st_post_def st_bind_def sys_checked_def sys_call_def throw_if_def split: option.splits)
qed

lemma reloadAndVerify_post:
  "st_post (reloadAndVerify env cpu g z policy name) s (\<lambda>r s'. quiet s s' \<and> (\<forall>c. r = Inr (Some c) \<longrightarrow>
     (\<exists>bytes. content (os_disk s) (Path (sp_directory policy) name) = Some bytes \<and> verifyDecoded cpu g z policy name bytes = Inr c)))"
proof (cases "chunkPath policy name")
  case (Inl e)
  then show ?thesis by (simp add: reloadAndVerify_def quiet_refl)
next
  case (Inr p)
  then have p: "p = Path (sp_directory policy) name"
    by (auto simp: chunkPath_def createChunkFilename_def split: if_splits)
  let ?Q = "\<lambda>r s'. quiet s s' \<and> (\<forall>c. r = Inr (Some c) \<longrightarrow>
     (\<exists>bytes. content (os_disk s) (Path (sp_directory policy) name) = Some bytes \<and> verifyDecoded cpu g z policy name bytes = Inr c))"
  have read: "st_post (st_bind (readFile env p) (\<lambda>bytes.
       st_bind (st_rethrow integrityFailure (st_lift (verifyDecoded cpu g z policy name bytes))) (\<lambda>chunk. st_return (Some chunk)))) s' ?Q"
    if "quiet s s'" for s'
    unfolding st_post_bind [of "readFile env p"]
  proof (rule st_post_mono [OF readFile_post [OF that]], goal_cases)
    case (1 r s'')
    then show ?case
      by (cases r) (auto simp: st_post_def st_bind_def st_rethrow_def p split: sum.splits)
  qed
  show ?thesis
    unfolding reloadAndVerify_def Inr st_post_bind st_post_basic sum.case
  proof (rule st_post_mono [OF is_regular_file_post [OF quiet_refl]], goal_cases)
    case (1 r s')
    then show ?case
      using read [of s'] by (cases r) simp_all
  qed
qed

lemma ChunkStore_contains_post: "st_post (ChunkStore_contains env policy name) s (\<lambda>r s'. quiet s s')"
  using st_post_mono [OF is_regular_file_post [OF quiet_refl]]
  by (cases "chunkPath policy name") (auto simp: ChunkStore_contains_def quiet_refl)

lemma ChunkStore_fileSize_post: "st_post (ChunkStore_fileSize env policy name) s (\<lambda>r s'. quiet s s')"
proof (cases "chunkPath policy name")
  case (Inr p)
  show ?thesis
    using quiet_tick [OF quiet_refl [of s]]
    by (simp add: ChunkStore_fileSize_def Inr) (auto simp: st_post_def file_size_def sys_call_def split: option.splits)
qed (simp add: ChunkStore_fileSize_def quiet_refl)

lemma ChunkStore_remove_post:
  assumes ok: "disk_ok (os_disk s)"
  shows "st_post (ChunkStore_remove env policy name) s (\<lambda>r s'.
    traced (evolves (os_disk s) (writes (Path (sp_directory policy) name) None)) s s')" (is "st_post _ s ?Q")
proof (cases "chunkPath policy name")
  case (Inl e)
  then show ?thesis
    using quiet_evolves [OF quiet_refl ok] by (simp add: ChunkStore_remove_def)
next
  case (Inr p)
  then have p: "p = Path (sp_directory policy) name"
    by (auto simp: chunkPath_def createChunkFilename_def split: if_splits)
  let ?F = "writes (Path (sp_directory policy) name) None"
  have "traced (evolves (os_disk s) ?F) s (snd (fs_remove env p s))"
    using quiet_evolves [OF quiet_tick [OF quiet_refl] ok] traced_tick [OF quiet_evolves [OF quiet_refl ok] evolves_unlink [OF ok]] p
    by (auto simp: fs_remove_def sys_call_def split: option.split)
  then have "st_post (\<lambda>s. case fs_remove env p s of (removed, s') \<Rightarrow> (Inr removed, s')) s ?Q"
    by (simp add: st_post_def case_prod_unfold)
  then show ?thesis
    unfolding ChunkStore_remove_def Inr st_post_bind st_post_basic sum.case
  proof (rule st_post_mono, goal_cases)
    case (1 r s')
    then show ?case
      using st_post_mono [OF ChunkStore_syncDirectory_post [OF 1, of env policy]]
      by (cases r) (auto split: sum.split)
  qed
qed

end
