(* ===== verification/Storage_Manager.thy ===== *)
theory Storage_Manager
  imports Chunk_Store Chunk_Index
begin

text \<open>
  The storage of chunks with its index (src/src/storage/StorageManager.cpp): a chunk is published
  before its index entry.  The locks make each operation on the index one step; the set of stores in
  flight keeps two of them from writing the same file.
\<close>

section \<open>Operations\<close>

record StorageManager =
  sm_policy :: StoragePolicy
  sm_index :: ChunkIndex
  sm_inFlightStores :: "string set"

text \<open>A manager in its process.\<close>

record storage_run =
  sr_manager :: StorageManager
  sr_os :: os

record StorageSnapshot =
  snap_indexedChunks :: size_t
  snap_storedBytes :: u64
  snap_residentBytes :: u64
  snap_memoryBudgetBytes :: u64
  snap_entries :: "ChunkIndexEntry list"

abbreviation sr_policy :: "storage_run \<Rightarrow> StoragePolicy" where
  "sr_policy s \<equiv> sm_policy (sr_manager s)"

abbreviation sr_index :: "storage_run \<Rightarrow> ChunkIndex" where
  "sr_index s \<equiv> sm_index (sr_manager s)"

abbreviation sr_disk :: "storage_run \<Rightarrow> disk" where
  "sr_disk s \<equiv> os_disk (sr_os s)"

definition storage_os :: "(os, 'a) paction \<Rightarrow> (storage_run, 'a) paction" where
  "storage_os m s = map_option (\<lambda>(r, x). (r, s\<lparr>sr_os := x\<rparr>)) (m (sr_os s))"

definition storage_act :: "(os, 'a) action \<Rightarrow> (storage_run, 'a) action" where
  "storage_act m s = (case m (sr_os s) of (r, x) \<Rightarrow> (r, s\<lparr>sr_os := x\<rparr>))"

definition makeIndexPath :: "StoragePolicy \<Rightarrow> path" where
  "makeIndexPath policy = Path (sp_directory policy) ''chunk-index-v1.bin''"

definition StorageManager_create ::
  "os_env \<Rightarrow> sse42 option \<Rightarrow> (disk \<Rightarrow> string \<Rightarrow> bool) \<Rightarrow> StoragePolicy \<Rightarrow> (os, StorageManager) paction" where
  "StorageManager_create env cpu directory_exists policy =
     p_bind (p_lift (ChunkStore_create env policy directory_exists)) (\<lambda>_.
     p_bind (p_lift (fs_exists env (makeIndexPath policy))) (\<lambda>there.
     p_bind (if there then ChunkIndex_load env cpu (makeIndexPath policy) else p_lift (st_return ChunkIndex_create)) (\<lambda>index.
     p_lift (st_return \<lparr>sm_policy = policy, sm_index = index, sm_inFlightStores = {}\<rparr>))))"

definition publishIndex :: "os_env \<Rightarrow> sse42 option \<Rightarrow> ChunkIndex \<Rightarrow> (storage_run, unit) paction" where
  "publishIndex env cpu new s =
     p_bind (storage_os (ChunkIndex_save env cpu (makeIndexPath (sr_policy s)) new)) (\<lambda>_ s.
     Some (Inr (), s\<lparr>sr_manager := (sr_manager s)\<lparr>sm_index := new\<rparr>\<rparr>)) s"

text \<open>The claim of a file name, the \<open>try\<close> block and the handler of \<open>store\<close>.\<close>

definition claimStore :: "ChunkIdentity \<Rightarrow> string \<Rightarrow> (storage_run, unit) action" where
  "claimStore identity chunkId s =
     (if index_contains identity (sr_index s) \<or> chunkId \<in> sm_inFlightStores (sr_manager s)
      then (Inl (Invalid_argument ''duplicate chunk identity in storage manager''), s)
      else (Inr (), s\<lparr>sr_manager := (sr_manager s)\<lparr>sm_inFlightStores := insert chunkId (sm_inFlightStores (sr_manager s))\<rparr>\<rparr>))"

definition releaseStore :: "string \<Rightarrow> storage_run \<Rightarrow> storage_run" where
  "releaseStore chunkId s =
     s\<lparr>sr_manager := (sr_manager s)\<lparr>sm_inFlightStores := sm_inFlightStores (sr_manager s) - {chunkId}\<rparr>\<rparr>"

definition storeAndPublish ::
  "os_env \<Rightarrow> sse42 option \<Rightarrow> gmp \<Rightarrow> lz4 \<Rightarrow> Chunk \<Rightarrow> string \<Rightarrow> (storage_run, unit) paction" where
  "storeAndPublish env cpu g z chunk chunkId =
     p_bind (\<lambda>s. storage_os (ChunkStore_store env cpu g z (sr_policy s) chunk) s) (\<lambda>_.
     p_bind (\<lambda>s. p_lift (st_lift (ChunkIndex_add_metadata (chunk_metadata chunk) (sr_index s))) s) (\<lambda>new.
     p_bind (publishIndex env cpu new) (\<lambda>_ s.
     Some (Inr (), releaseStore chunkId s))))"

definition abandonStore :: "os_env \<Rightarrow> string \<Rightarrow> (storage_run, unit) action" where
  "abandonStore env chunkId s =
     (Inr (), releaseStore chunkId (snd (storage_act (ChunkStore_remove env (sr_policy s) chunkId) s)))"

definition StorageManager_store ::
  "os_env \<Rightarrow> sse42 option \<Rightarrow> gmp \<Rightarrow> lz4 \<Rightarrow> Chunk \<Rightarrow> (storage_run, string) paction" where
  "StorageManager_store env cpu g z chunk =
     p_bind (p_lift (st_lift (deterministicFilename (cm_identity (chunk_metadata chunk))))) (\<lambda>chunkId.
     p_bind (p_lift (claimStore (cm_identity (chunk_metadata chunk)) chunkId)) (\<lambda>_.
     p_bind (p_on_error (storeAndPublish env cpu g z chunk chunkId) (abandonStore env chunkId)) (\<lambda>_.
     p_lift (st_return chunkId))))"

definition checkLoaded :: "ChunkIndexEntry \<Rightarrow> ChunkIdentity \<Rightarrow> Chunk \<Rightarrow> unit result" where
  "checkLoaded entry identity chunk =
     res_bind (throw_if (cm_identity (chunk_metadata chunk) \<noteq> identity)
       (Runtime_error ''chunk index identity does not match stored chunk'')) (\<lambda>_.
     throw_if (cm_storedSize (chunk_metadata chunk) \<noteq> ie_storedSize entry
         \<or> cm_checksumValue (chunk_metadata chunk) \<noteq> ie_checksumValue entry)
       (Runtime_error ''chunk index metadata does not match stored chunk''))"

definition StorageManager_load ::
  "os_env \<Rightarrow> sse42 option \<Rightarrow> gmp \<Rightarrow> lz4 \<Rightarrow> ChunkIdentity \<Rightarrow> (storage_run, Chunk option) action" where
  "StorageManager_load env cpu g z identity s =
     (if \<not> index_contains identity (sr_index s) then (Inr None, s)
      else st_bind (st_lift (index_at identity (sr_index s))) (\<lambda>entry.
        st_bind (storage_act (reloadAndVerify env cpu g z (sr_policy s) (ie_storageFile entry))) (\<lambda>loaded.
        case loaded of None \<Rightarrow> st_return None
        | Some chunk \<Rightarrow> st_bind (st_lift (checkLoaded entry identity chunk)) (\<lambda>_. st_return (Some chunk)))) s)"

text \<open>\<open>contains\<close> is \<open>noexcept\<close>: an exception of the file system ends the program.\<close>

definition st_noexcept :: "('s, 'a) action \<Rightarrow> ('s, 'a) action" where
  "st_noexcept m s = (case m s of (Inl e, s') \<Rightarrow> (Inl (Terminated (what e)), s') | (Inr x, s') \<Rightarrow> (Inr x, s'))"

definition StorageManager_contains :: "os_env \<Rightarrow> ChunkIdentity \<Rightarrow> (storage_run, bool) action" where
  "StorageManager_contains env identity s =
     st_noexcept
       (if index_contains identity (sr_index s)
        then st_bind (st_lift (index_at identity (sr_index s))) (\<lambda>entry.
          storage_act (ChunkStore_contains env (sr_policy s) (ie_storageFile entry)))
        else st_return False) s"

definition StorageManager_remove :: "os_env \<Rightarrow> sse42 option \<Rightarrow> ChunkIdentity \<Rightarrow> (storage_run, bool) paction" where
  "StorageManager_remove env cpu identity s =
     (if \<not> index_contains identity (sr_index s) then Some (Inr False, s)
      else p_bind (p_lift (st_lift (index_at identity (sr_index s)))) (\<lambda>entry.
        p_bind (p_lift (storage_act (ChunkStore_remove env (sr_policy s) (ie_storageFile entry)))) (\<lambda>removed.
        if \<not> removed then p_lift (st_return False)
        else p_bind (\<lambda>s. publishIndex env cpu (ChunkIndex_remove identity (sr_index s)) s) (\<lambda>_. p_lift (st_return True)))) s)"

definition StorageManager_snapshot :: "(string \<times> u64) list \<Rightarrow> StorageManager \<Rightarrow> StorageSnapshot" where
  "StorageManager_snapshot residentChunks m =
     \<lparr>snap_indexedChunks = index_size (sm_index m), snap_storedBytes = storedBytes (sm_index m),
      snap_residentBytes = sum_list (map snd residentChunks), snap_memoryBudgetBytes = sp_memory_budget_bytes (sm_policy m),
      snap_entries = index_entries (sm_index m)\<rparr>"

section \<open>What is stored\<close>

text \<open>The chunk of an identity: the one \<open>load\<close> returns when the file system lets it read.\<close>

definition held :: "sse42 option \<Rightarrow> gmp \<Rightarrow> lz4 \<Rightarrow> storage_run \<Rightarrow> ChunkIdentity \<Rightarrow> Chunk option" where
  "held cpu g z s i =
     Option.bind (map_of (sr_index s) i) (\<lambda>e.
     Option.bind (content (sr_disk s) (Path (sp_directory (sr_policy s)) (ie_storageFile e))) (\<lambda>bytes.
     case verifyDecoded cpu g z (sr_policy s) (ie_storageFile e) bytes of
       Inl _ \<Rightarrow> None
     | Inr c \<Rightarrow> if checkLoaded e i c = Inr () then Some c else None))"

text \<open>Entries the manager made: the file of an entry has the deterministic name.\<close>

definition index_named :: "ChunkIndex \<Rightarrow> bool" where
  "index_named idx \<longleftrightarrow> (\<forall>(k, e) \<in> set idx. ie_storageFile e = chunkName k)"

definition storage_inv :: "StoragePolicy \<Rightarrow> storage_run \<Rightarrow> bool" where
  "storage_inv policy s \<longleftrightarrow> sr_policy s = policy \<and> sp_directory policy \<noteq> [] \<and> index_ok (sr_index s) \<and> index_named (sr_index s) \<and> disk_ok (sr_disk s)"

lemma verifyDecoded_Inr:
  "verifyDecoded cpu g z policy name bytes = Inr c \<longleftrightarrow> ChunkCodec_decode cpu g z bytes = Inr c
     \<and> ChunkIdentity_validate (cm_identity (chunk_metadata c)) = Inr () \<and> name = chunkName (cm_identity (chunk_metadata c))
     \<and> cm_compression (chunk_metadata c) = sp_compression policy"
  by (auto simp: verifyDecoded_def res_bind_eq_Inr_iff deterministicFilename_Inr)

lemma checkLoaded_Inr:
  "checkLoaded e i c = Inr u \<longleftrightarrow> cm_identity (chunk_metadata c) = i \<and> cm_storedSize (chunk_metadata c) = ie_storedSize e
     \<and> cm_checksumValue (chunk_metadata c) = ie_checksumValue e"
  by (auto simp: checkLoaded_def res_bind_eq_Inr_iff)

lemma case_result_Some:
  "(case r of Inl e \<Rightarrow> None | Inr c \<Rightarrow> if P c then Some c else None) = Some c \<longleftrightarrow> r = Inr c \<and> P c"
  by (cases r) auto

lemma held_Some:
  "held cpu g z s i = Some c \<longleftrightarrow> (\<exists>e bytes. map_of (sr_index s) i = Some e \<and> ie_storageFile e = chunkName i
     \<and> content (sr_disk s) (chunk_file (sr_policy s) i) = Some bytes \<and> ChunkCodec_decode cpu g z bytes = Inr c
     \<and> ChunkIdentity_validate i = Inr () \<and> cm_compression (chunk_metadata c) = sp_compression (sr_policy s) \<and> checkLoaded e i c = Inr ())"
  by (auto simp: held_def bind_eq_Some_conv case_result_Some verifyDecoded_Inr checkLoaded_Inr)

lemma held_cong:
  assumes "map_of (sr_index s') i = map_of (sr_index s) i" and "sr_policy s' = sr_policy s"
    and "content (sr_disk s') (chunk_file (sr_policy s) i) = content (sr_disk s) (chunk_file (sr_policy s) i)"
  shows "held cpu g z s' i = held cpu g z s i"
proof -
  have "held cpu g z s' i = Some c \<longleftrightarrow> held cpu g z s i = Some c" for c
    unfolding held_Some assms ..
  then show ?thesis
    by (metis not_Some_eq)
qed

section \<open>The operations on what is stored\<close>

lemma p_post_storage_os [simp]: "p_post (storage_os m) s Q = p_post m (sr_os s) (\<lambda>r x. Q r (s\<lparr>sr_os := x\<rparr>))"
  by (auto simp: p_post_def storage_os_def split: option.splits)

lemma st_post_storage_act [simp]: "st_post (storage_act m) s Q = st_post m (sr_os s) (\<lambda>r x. Q r (s\<lparr>sr_os := x\<rparr>))"
  by (simp add: st_post_def storage_act_def split: prod.split)

lemma p_bind_unit: "p_bind m (\<lambda>_. p_lift (st_return ())) = (m :: ('s, unit) paction)"
  by (auto simp: fun_eq_iff p_bind_def split: option.split sum.split)

lemma index_name_not_temp: "\<not> is_temp_name (path_filename (makeIndexPath policy))"
  by (simp add: makeIndexPath_def is_temp_name_def contains.simps)

lemma index_path_not_chunk: "makeIndexPath policy \<noteq> chunk_file policy' i"
  by (simp add: makeIndexPath_def chunkName_def identityName_def)

definition index_writes :: "sse42 option \<Rightarrow> StoragePolicy \<Rightarrow> ChunkIndex \<Rightarrow> path \<Rightarrow> u8 list option set" where
  "index_writes cpu policy index p =
     (case ChunkIndex_serialize cpu index of Inl _ \<Rightarrow> {} | Inr bytes \<Rightarrow> writes (makeIndexPath policy) (Some bytes) p)"

lemma ChunkIndex_save_post:
  assumes "disk_ok (os_disk s)" and "interrupts_end env" and "sp_directory policy \<noteq> []"
  shows "p_post (ChunkIndex_save env cpu (makeIndexPath policy) idx) s (\<lambda>r s'. traced (evolves (os_disk s) (index_writes cpu policy idx)) s s'
    \<and> (r = Inr () \<longrightarrow> (\<exists>bytes. ChunkIndex_serialize cpu idx = Inr bytes \<and> durable (os_disk s') (makeIndexPath policy) bytes)))"
proof -
  have "ChunkIndex_save env cpu (makeIndexPath policy) idx s' = p_bind (p_lift (create_directories env)) (\<lambda>_.
      p_bind (p_lift (st_lift (ChunkIndex_serialize cpu idx))) (\<lambda>bytes.
      p_bind (AtomicFileCommit_write env None (makeIndexPath policy) bytes) (\<lambda>_. p_lift (st_return ())))) s'" for s'
    using assms(3) by (simp add: ChunkIndex_save_def makeIndexPath_def p_bind_def throw_if_def p_bind_unit)
  then show ?thesis
    using store_commit_post [where x = "\<lambda>_. ()" and bytes = "\<lambda>b. b", OF assms(1,2) index_name_not_temp [of policy],
        of "ChunkIndex_serialize cpu idx" None]
    unfolding index_writes_def p_post_def by (auto split: option.splits prod.splits)
qed

lemma publishIndex_post:
  assumes "storage_inv policy s" and "interrupts_end env"
  shows "p_post (publishIndex env cpu new) s (\<lambda>r s'. traced (evolves (sr_disk s) (index_writes cpu policy new)) (sr_os s) (sr_os s')
    \<and> sr_manager s' = (if r = Inr () then (sr_manager s)\<lparr>sm_index := new\<rparr> else sr_manager s)
    \<and> (r = Inr () \<longrightarrow> (\<exists>bytes. ChunkIndex_serialize cpu new = Inr bytes \<and> durable (sr_disk s') (makeIndexPath policy) bytes)))"
proof -
  have s: "disk_ok (sr_disk s)" "sp_directory policy \<noteq> []" "sr_policy s = policy"
    using assms(1) by (simp_all add: storage_inv_def)
  have "p_post (p_bind (storage_os (ChunkIndex_save env cpu (makeIndexPath policy) new)) (\<lambda>_ s.
     Some (Inr (), s\<lparr>sr_manager := (sr_manager s)\<lparr>sm_index := new\<rparr>\<rparr>))) s (\<lambda>r s'. traced (evolves (sr_disk s) (index_writes cpu policy new)) (sr_os s) (sr_os s')
    \<and> sr_manager s' = (if r = Inr () then (sr_manager s)\<lparr>sm_index := new\<rparr> else sr_manager s)
    \<and> (r = Inr () \<longrightarrow> (\<exists>bytes. ChunkIndex_serialize cpu new = Inr bytes \<and> durable (sr_disk s') (makeIndexPath policy) bytes)))"
    unfolding p_post_bind p_post_storage_os
    by (rule p_post_mono [OF ChunkIndex_save_post [OF s(1) assms(2) s(2)]]) (auto simp: p_post_def split: sum.split)
  then show ?thesis
    unfolding publishIndex_def [abs_def] p_post_def s(3) .
qed

lemma evolves_content: "evolves d0 F d \<Longrightarrow> \<not> temp_path p \<Longrightarrow> F p = {} \<Longrightarrow> content d p = content d0 p"
  unfolding evolves_def by fastforce

lemma evolves_durable:
  assumes "evolves d0 F d" and "\<not> temp_path p" and "F p = {}" and "durable d0 p bytes"
  shows "durable d p bytes"
proof -
  have "content d p = Some bytes" "disk_ok d"
    using assms evolves_content evolves_ok by (auto simp: durable_def)
  moreover have "after_crash d p \<subseteq> {Some bytes}"
    using assms unfolding evolves_def durable_def by fastforce
  ultimately show ?thesis
    using content_after_crash [of d p] by (auto simp: durable_def)
qed

text \<open>What a successful store leaves: the entry in the index, and both files complete and durable.\<close>

definition stored_chunk :: "sse42 option \<Rightarrow> gmp \<Rightarrow> lz4 \<Rightarrow> StoragePolicy \<Rightarrow> Chunk \<Rightarrow> ChunkIndex \<Rightarrow> storage_run \<Rightarrow> bool" where
  "stored_chunk cpu g z policy chunk old s \<longleftrightarrow> (\<exists>bytes index_bytes.
     ChunkCodec_encode cpu g z chunk = Some (Inr bytes) \<and> ChunkIndex_add_metadata (chunk_metadata chunk) old = Inr (sr_index s)
     \<and> cm_compression (chunk_metadata chunk) = sp_compression policy
     \<and> durable (sr_disk s) (chunk_file policy (cm_identity (chunk_metadata chunk))) bytes
     \<and> ChunkIndex_serialize cpu (sr_index s) = Inr index_bytes \<and> durable (sr_disk s) (makeIndexPath policy) index_bytes)"

abbreviation other_chunks_same :: "StoragePolicy \<Rightarrow> ChunkIdentity \<Rightarrow> storage_run \<Rightarrow> storage_run \<Rightarrow> bool" where
  "other_chunks_same policy i s s' \<equiv>
     (\<forall>j. j \<noteq> i \<longrightarrow> content (sr_disk s') (chunk_file policy j) = content (sr_disk s) (chunk_file policy j))"

lemma writes_other: "i \<noteq> j \<Longrightarrow> writes (chunk_file policy i) c (chunk_file policy j) = {}"
  by (simp add: writes_def chunkName_inject)

lemma index_writes_chunk: "index_writes cpu policy idx (chunk_file policy j) = {}"
  using index_path_not_chunk [of policy policy j] by (auto simp: index_writes_def writes_def split: sum.split)

lemma ChunkIndex_add_metadata_ok:
  assumes "index_ok idx" and "ChunkIndex_add_metadata m idx = Inr idx'"
  obtains e where "index_ok idx'" "set idx' = insert (cm_identity m, e) (set idx)" "map_of idx' = (map_of idx)(cm_identity m \<mapsto> e)" "ie_storageFile e = chunkName (cm_identity m)"
    "ie_storedSize e = cm_storedSize m" "ie_checksumValue e = cm_checksumValue m" "ChunkIdentity_validate (cm_identity m) = Inr ()"
proof -
  let ?e = "\<lparr>ie_identity = cm_identity m, ie_storageFile = chunkName (cm_identity m), ie_uncompressedSize = cm_uncompressedSize m,
       ie_storedSize = cm_storedSize m, ie_checksumAlgorithm = cm_checksumAlgorithm m, ie_checksumValue = cm_checksumValue m,
       ie_formatVersion = cm_formatVersion m\<rparr>"
  have add: "ChunkIndex_add ?e idx = Inr idx'" "ChunkIdentity_validate (cm_identity m) = Inr ()"
    using assms(2) by (auto simp: ChunkIndex_add_metadata_def res_bind_eq_Inr_iff deterministicFilename_Inr)
  note a = index_ok_add [OF assms(1) add(1)]
  have "map_of idx (cm_identity m) = None"
    using add(1) unfolding ChunkIndex_add_Inr [OF assms(1)] by simp
  then have "map_of idx' = (map_of idx)(cm_identity m \<mapsto> ?e)"
    using a assms(1) by (intro map_of_insert_distinct) (simp_all add: index_ok_def chunk_map.ordered_distinct)
  then show thesis
    using a add(2) by (intro that [of ?e]) simp_all
qed

lemma storeAndPublish_post:
  assumes inv: "storage_inv policy s" and env: "interrupts_end env" and enc: "ChunkCodec_encode cpu g z chunk = Some r0"
  defines "i \<equiv> cm_identity (chunk_metadata chunk)"
  shows "p_post (storeAndPublish env cpu g z chunk name) s (\<lambda>r s'. storage_inv policy s' \<and> other_chunks_same policy i s s'
    \<and> (case r of Inl _ \<Rightarrow> sr_index s' = sr_index s | Inr _ \<Rightarrow> stored_chunk cpu g z policy chunk (sr_index s) s'))"
    (is "p_post _ s ?Q")
proof -
  have s: "disk_ok (sr_disk s)" "sr_policy s = policy" "index_ok (sr_index s)" "sp_directory policy \<noteq> []" "index_named (sr_index s)"
    using inv by (simp_all add: storage_inv_def)
  let ?F = "\<lambda>p. case r0 of Inl _ \<Rightarrow> {} | Inr bytes \<Rightarrow> writes (chunk_file policy i) (Some bytes) p"
  have F: "?F (chunk_file policy j) = {}" if "j \<noteq> i" for j
    using writes_other [of i j] that by (cases r0) auto
  let ?rest = "p_bind (\<lambda>s. p_lift (st_lift (ChunkIndex_add_metadata (chunk_metadata chunk) (sr_index s))) s) (\<lambda>new.
     p_bind (publishIndex env cpu new) (\<lambda>_ s. Some (Inr (), releaseStore name s)))"
  have rest: "p_post ?rest s1 ?Q"
    if s1: "s1 = s\<lparr>sr_os := x\<rparr>" and x: "evolves (sr_disk s) ?F (os_disk x)" and r0: "r0 = Inr bytes"
      and d: "durable (os_disk x) (chunk_file policy i) bytes" "cm_compression (chunk_metadata chunk) = sp_compression policy" for s1 x bytes
  proof (cases "ChunkIndex_add_metadata (chunk_metadata chunk) (sr_index s)")
    case (Inl e)
    then show ?thesis
      using s s1 evolves_ok [OF x] evolves_content [OF x] F chunkName_not_temp
      by (simp add: p_post_def p_bind_def storage_inv_def)
  next
    case (Inr new)
    obtain e where e: "index_ok new" "set new = insert (i, e) (set (sr_index s))" "ie_storageFile e = chunkName i"
      unfolding i_def by (rule ChunkIndex_add_metadata_ok [OF s(3) Inr])
    then have new: "index_ok new" "index_named new"
      using s(5) by (simp_all add: index_named_def)
    have inv1: "storage_inv policy s1"
      using s evolves_ok [OF x] by (simp add: storage_inv_def s1)
    have "p_post (publishIndex env cpu new) s1 (\<lambda>r s'. on_result (\<lambda>e. ?Q (Inl e) s') (\<lambda>_. ?Q (Inr ()) (releaseStore name s')) r)"
    proof (rule p_post_mono [OF publishIndex_post [OF inv1 env]])
      fix r :: "unit result" and s'
      assume a: "traced (evolves (sr_disk s1) (index_writes cpu policy new)) (sr_os s1) (sr_os s')
        \<and> sr_manager s' = (if r = Inr () then (sr_manager s1)\<lparr>sm_index := new\<rparr> else sr_manager s1)
        \<and> (r = Inr () \<longrightarrow> (\<exists>bytes. ChunkIndex_serialize cpu new = Inr bytes \<and> durable (sr_disk s') (makeIndexPath policy) bytes))"
      then have ev: "evolves (os_disk x) (index_writes cpu policy new) (sr_disk s')"
        using traced_disk [of _ "sr_os s1"] by (auto simp: s1)
      have other: "other_chunks_same policy i s s'"
        using evolves_content [OF ev] evolves_content [OF x] F index_writes_chunk chunkName_not_temp by simp
      have "durable (sr_disk s') (chunk_file policy i) bytes"
        using evolves_durable [OF ev _ index_writes_chunk d(1)] chunkName_not_temp by simp
      then have "r = Inr () \<Longrightarrow> stored_chunk cpu g z policy chunk (sr_index s) (releaseStore name s')"
        using a d(2) r0 enc Inr by (auto simp: stored_chunk_def releaseStore_def i_def s1)
      then show "on_result (\<lambda>e. ?Q (Inl e) s') (\<lambda>_. ?Q (Inr ()) (releaseStore name s')) r"
        using a other s new evolves_ok [OF ev] by (cases r) (simp_all add: storage_inv_def s1 releaseStore_def)
    qed
    then show ?thesis
      using Inr s1 by (auto simp: p_post_def p_bind_def split: option.splits sum.splits)
  qed
  have "p_post (p_bind (storage_os (ChunkStore_store env cpu g z policy chunk)) (\<lambda>_. ?rest)) s ?Q"
    unfolding p_post_bind [of "storage_os m" for m] p_post_storage_os
  proof (rule p_post_mono [OF ChunkStore_store_post [OF s(1) enc]], goal_cases)
    case (1 r x)
    have x: "evolves (sr_disk s) ?F (os_disk x)"
      using 1 unfolding i_def by (auto dest: traced_disk)
    have inv1: "storage_inv policy (s\<lparr>sr_os := x\<rparr>)" "other_chunks_same policy i s (s\<lparr>sr_os := x\<rparr>)"
      using s evolves_ok [OF x] evolves_content [OF x] F chunkName_not_temp by (simp_all add: storage_inv_def)
    show ?case
    proof (cases r)
      case (Inr n)
      then obtain bytes where "r0 = Inr bytes" "durable (os_disk x) (chunk_file policy i) bytes"
        "cm_compression (chunk_metadata chunk) = sp_compression policy"
        using 1 unfolding i_def by blast
      then show ?thesis
        using rest [OF refl x, of bytes] Inr by simp
    qed (use inv1 in simp)
  qed
  moreover have "storeAndPublish env cpu g z chunk name s = p_bind (storage_os (ChunkStore_store env cpu g z policy chunk)) (\<lambda>_. ?rest) s"
    by (simp add: storeAndPublish_def p_bind_def s(2))
  ultimately show ?thesis
    unfolding p_post_def by simp
qed

lemma abandonStore_post:
  assumes "storage_inv policy s"
  shows "st_post (abandonStore env (chunkName i)) s (\<lambda>_ s'. storage_inv policy s' \<and> other_chunks_same policy i s s' \<and> sr_index s' = sr_index s)"
proof -
  have s: "disk_ok (sr_disk s)" "sr_policy s = policy" "index_ok (sr_index s)" "sp_directory policy \<noteq> []" "index_named (sr_index s)"
    using assms by (simp_all add: storage_inv_def)
  obtain r x where x: "ChunkStore_remove env policy (chunkName i) (sr_os s) = (r, x)"
    "traced (evolves (sr_disk s) (writes (chunk_file policy i) None)) (sr_os s) x"
    using ChunkStore_remove_post [OF s(1), of env policy "chunkName i"] by (auto simp: st_post_def split: prod.splits)
  note ev = traced_disk [OF x(2)]
  then show ?thesis
    using s x(1) evolves_ok [OF ev] evolves_content [OF ev] writes_other [of i] chunkName_not_temp
    by (simp add: st_post_def abandonStore_def storage_act_def releaseStore_def storage_inv_def)
qed

lemma StorageManager_store_post:
  assumes inv: "storage_inv policy s" and env: "interrupts_end env" and enc: "ChunkCodec_encode cpu g z chunk = Some r0"
  defines "i \<equiv> cm_identity (chunk_metadata chunk)"
  shows "p_post (StorageManager_store env cpu g z chunk) s (\<lambda>r s'. storage_inv policy s' \<and> other_chunks_same policy i s s'
    \<and> (index_contains i (sr_index s) \<longrightarrow> s' = s \<and> (\<exists>e. r = Inl e))
    \<and> (case r of Inl _ \<Rightarrow> sr_index s' = sr_index s | Inr name \<Rightarrow> name = chunkName i \<and> stored_chunk cpu g z policy chunk (sr_index s) s'))"
    (is "p_post _ s ?Q")
proof -
  have here: "?Q (Inl e) s" for e
    using inv by simp
  let ?s = "s\<lparr>sr_manager := (sr_manager s)\<lparr>sm_inFlightStores := insert (chunkName i) (sm_inFlightStores (sr_manager s))\<rparr>\<rparr>"
  let ?guarded = "p_bind (p_on_error (storeAndPublish env cpu g z chunk (chunkName i)) (abandonStore env (chunkName i)))
    (\<lambda>_. p_lift (st_return (chunkName i)))"
  have inv': "storage_inv policy ?s"
    using inv by (simp add: storage_inv_def)
  have "p_post ?guarded ?s ?Q" if new: "\<not> index_contains i (sr_index s)"
    unfolding p_post_bind p_post_on_error
  proof (rule p_post_mono [OF storeAndPublish_post [OF inv' env enc]], fold i_def)
    fix r :: "unit result" and s'
    assume a: "storage_inv policy s' \<and> other_chunks_same policy i ?s s'
      \<and> (case r of Inl _ \<Rightarrow> sr_index s' = sr_index ?s | Inr _ \<Rightarrow> stored_chunk cpu g z policy chunk (sr_index ?s) s')"
    then show "on_result (\<lambda>e. st_post (abandonStore env (chunkName i)) s' (\<lambda>_ u. on_result (\<lambda>e. ?Q (Inl e) u)
          (\<lambda>_. p_post (p_lift (st_return (chunkName i))) u ?Q) (Inl e)))
        (\<lambda>x. on_result (\<lambda>e. ?Q (Inl e) s') (\<lambda>_. p_post (p_lift (st_return (chunkName i))) s' ?Q) (Inr x)) r"
      using new st_post_mono [OF abandonStore_post [of policy s' env i]] by (cases r) auto
  qed
  note attempt = this
  consider e where "StorageManager_store env cpu g z chunk s = Some (Inl e, s)"
    | "\<not> index_contains i (sr_index s)" "StorageManager_store env cpu g z chunk s = ?guarded ?s"
  proof (cases "deterministicFilename i")
    case (Inl e)
    then show thesis
      using that(1) by (simp add: StorageManager_store_def i_def p_bind_def)
  next
    case (Inr name)
    then have "name = chunkName i"
      by (simp add: deterministicFilename_Inr)
    then show thesis
      using that Inr by (cases "index_contains i (sr_index s) \<or> chunkName i \<in> sm_inFlightStores (sr_manager s)")
        (auto simp: StorageManager_store_def i_def p_bind_def claimStore_def)
  qed
  then show ?thesis
  proof cases
    case 1
    then show ?thesis
      using here by (simp add: p_post_def)
  next
    case 2
    then show ?thesis
      using attempt [OF 2(1)] by (simp add: p_post_def)
  qed
qed

text \<open>A chunk that can be stored and read back.\<close>

definition storable :: "sse42 option \<Rightarrow> gmp \<Rightarrow> lz4 \<Rightarrow> Chunk \<Rightarrow> bool" where
  "storable cpu g z c \<longleftrightarrow> values_fit c \<and> ChunkCodec_encode cpu g z c \<noteq> None"

lemma stored_chunk_held:
  assumes "gmp_library g" and "lz4_library z" and "values_fit c" and inv: "storage_inv policy s" "storage_inv policy s'"
    and "other_chunks_same policy (cm_identity (chunk_metadata c)) s s'" and stored: "stored_chunk cpu g z policy c (sr_index s) s'"
  shows "held cpu g z s' = (held cpu g z s)(cm_identity (chunk_metadata c) \<mapsto> c)"
proof
  fix j
  let ?i = "cm_identity (chunk_metadata c)"
  have s: "index_ok (sr_index s)" "sr_policy s = policy" "sr_policy s' = policy"
    using inv by (simp_all add: storage_inv_def)
  obtain bytes where b: "ChunkCodec_encode cpu g z c = Some (Inr bytes)" "cm_compression (chunk_metadata c) = sp_compression policy"
    "content (sr_disk s') (chunk_file policy ?i) = Some bytes" "ChunkIndex_add_metadata (chunk_metadata c) (sr_index s) = Inr (sr_index s')"
    using stored by (auto simp: stored_chunk_def durable_def)
  obtain e where e: "map_of (sr_index s') = (map_of (sr_index s))(?i \<mapsto> e)" "ie_storageFile e = chunkName ?i"
    "ie_storedSize e = cm_storedSize (chunk_metadata c)" "ie_checksumValue e = cm_checksumValue (chunk_metadata c)"
    "ChunkIdentity_validate ?i = Inr ()"
    using ChunkIndex_add_metadata_ok [OF s(1) b(4)] by blast
  show "held cpu g z s' j = ((held cpu g z s)(?i \<mapsto> c)) j"
  proof (cases "j = ?i")
    case True
    have "held cpu g z s' ?i = Some c"
      using e b(2,3) chunk_decodes [OF assms(1-3) b(1)] by (auto simp: held_Some s checkLoaded_Inr)
    then show ?thesis
      using True by simp
  next
    case False
    then have "held cpu g z s' j = held cpu g z s j"
      using e(1) assms(6) by (intro held_cong) (simp_all add: s)
    then show ?thesis
      using False by simp
  qed
qed

lemma failed_store_held:
  assumes "storage_inv policy s" "storage_inv policy s'" and "other_chunks_same policy i s s'" and "sr_index s' = sr_index s"
    and "index_contains i (sr_index s) \<longrightarrow> s' = s"
  shows "held cpu g z s' = held cpu g z s"
proof
  fix j
  show "held cpu g z s' j = held cpu g z s j"
  proof (cases "j = i")
    case True
    have "index_ok (sr_index s)"
      using assms(1) by (simp add: storage_inv_def)
    then have "s' = s \<or> map_of (sr_index s) i = None"
      using assms(5) by (auto simp: index_contains_def index_ok_find)
    then show ?thesis
      using True assms(4) by (auto simp: held_def)
  next
    case False
    then show ?thesis
      using assms(1-4) by (intro held_cong) (simp_all add: storage_inv_def)
  qed
qed

section \<open>The contract of the storage\<close>

text \<open>
  What a client relies on.  \<open>held\<close> is the content of the repository: a store that returns adds its chunk
  and one that throws changes nothing, a load returns only what is held, and removing an identity
  leaves the other chunks alone.
\<close>

locale chunk_repository =
  fixes store :: "Chunk \<Rightarrow> ('s, string) paction"
    and load :: "ChunkIdentity \<Rightarrow> ('s, Chunk option) action"
    and contains :: "ChunkIdentity \<Rightarrow> ('s, bool) action"
    and remove :: "ChunkIdentity \<Rightarrow> ('s, bool) paction"
    and inv :: "'s \<Rightarrow> bool"
    and holds :: "'s \<Rightarrow> ChunkIdentity \<Rightarrow> Chunk option"
    and sound :: "Chunk \<Rightarrow> bool"
  assumes store: "inv s \<Longrightarrow> sound c \<Longrightarrow> p_post (store c) s (\<lambda>r s'. inv s' \<and>
      holds s' = (case r of Inl _ \<Rightarrow> holds s | Inr _ \<Rightarrow> (holds s)(cm_identity (chunk_metadata c) \<mapsto> c)))"
    and load: "inv s \<Longrightarrow> st_post (load i) s (\<lambda>r s'. inv s' \<and> holds s' = holds s \<and> (\<forall>c. r = Inr (Some c) \<longrightarrow> holds s i = Some c))"
    and contains: "inv s \<Longrightarrow> st_post (contains i) s (\<lambda>r s'. inv s' \<and> holds s' = holds s)"
    and remove: "inv s \<Longrightarrow> p_post (remove i) s (\<lambda>r s'. inv s' \<and> (\<forall>j. j \<noteq> i \<longrightarrow> holds s' j = holds s j))"
begin

lemma store_load:
  assumes "inv s" and "sound c"
  shows "p_post (p_bind (store c) (\<lambda>_. p_lift (load (cm_identity (chunk_metadata c))))) s
    (\<lambda>r s'. inv s' \<and> (\<forall>c'. r = Inr (Some c') \<longrightarrow> c' = c \<and> holds s' = (holds s)(cm_identity (chunk_metadata c) \<mapsto> c)))"
  unfolding p_post_bind p_post_lift
proof (rule p_post_mono [OF store [OF assms]], goal_cases)
  case (1 r s')
  then show ?case
    using st_post_mono [OF load [of s' "cm_identity (chunk_metadata c)"]] by (cases r) auto
qed

lemma remove_if_contained:
  assumes "inv s"
  shows "p_post (p_bind (p_lift (contains i)) (\<lambda>there. if there then remove i else p_lift (st_return True))) s
    (\<lambda>r s'. inv s' \<and> (\<forall>j. j \<noteq> i \<longrightarrow> holds s' j = holds s j))"
  unfolding p_post_bind p_post_lift
proof (rule st_post_mono [OF contains [OF assms]], goal_cases)
  case (1 r s')
  then show ?case
    using remove [of s'] by (cases r) auto
qed

end

lemma held_quiet: "storage_inv policy s \<Longrightarrow> quiet (sr_os s) x \<Longrightarrow> storage_inv policy (s\<lparr>sr_os := x\<rparr>) \<and> held cpu g z (s\<lparr>sr_os := x\<rparr>) = held cpu g z s"
  using quiet_disk [of "sr_os s" x] by (auto simp: storage_inv_def held_def fun_eq_iff)

lemma index_contains_at: "index_ok idx \<Longrightarrow> index_contains i idx \<Longrightarrow> \<exists>e. index_at i idx = Inr e \<and> map_of idx i = Some e"
  by (auto simp: index_contains_def index_at_def index_ok_find)

lemma StorageManager_load_post:
  assumes "storage_inv policy s"
  shows "st_post (StorageManager_load env cpu g z i) s (\<lambda>r s'. storage_inv policy s' \<and> held cpu g z s' = held cpu g z s
    \<and> (\<forall>c. r = Inr (Some c) \<longrightarrow> held cpu g z s i = Some c))" (is "st_post _ s ?Q")
proof (cases "index_contains i (sr_index s)")
  case False
  then show ?thesis
    using assms by (simp add: st_post_def StorageManager_load_def)
next
  case True
  then obtain e where e: "index_at i (sr_index s) = Inr e" "map_of (sr_index s) i = Some e"
    using assms index_contains_at by (fastforce simp: storage_inv_def)
  let ?rest = "\<lambda>loaded. case loaded of None \<Rightarrow> st_return None
        | Some chunk \<Rightarrow> st_bind (st_lift (checkLoaded e i chunk)) (\<lambda>_. st_return (Some chunk))"
  have "st_post (st_bind (storage_act (reloadAndVerify env cpu g z (sr_policy s) (ie_storageFile e))) ?rest) s ?Q"
    unfolding st_post_bind st_post_storage_act
  proof (rule st_post_mono [OF reloadAndVerify_post], goal_cases)
    case (1 r x)
    have q: "storage_inv policy (s\<lparr>sr_os := x\<rparr>)" "held cpu g z (s\<lparr>sr_os := x\<rparr>) = held cpu g z s"
      using held_quiet [OF assms] 1 by blast+
    show ?case
    proof (cases r)
      case (Inr l)
      show ?thesis
      proof (cases l)
        case (Some c)
        then obtain bytes where "content (sr_disk s) (Path (sp_directory (sr_policy s)) (ie_storageFile e)) = Some bytes"
          "verifyDecoded cpu g z (sr_policy s) (ie_storageFile e) bytes = Inr c"
          using 1 Inr by auto
        then have "checkLoaded e i c = Inr () \<Longrightarrow> held cpu g z s i = Some c"
          by (simp add: held_def e(2))
        then show ?thesis
          using q Inr Some by (cases "checkLoaded e i c") simp_all
      qed (use q Inr in simp)
    qed (use q in simp)
  qed
  then show ?thesis
    using True e(1) by (simp add: st_post_def StorageManager_load_def [abs_def] st_bind_def)
qed

lemma StorageManager_contains_post:
  assumes "storage_inv policy s"
  shows "st_post (StorageManager_contains env i) s (\<lambda>r s'. storage_inv policy s' \<and> held cpu g z s' = held cpu g z s)"
proof (cases "index_contains i (sr_index s)")
  case True
  then obtain e where e: "index_at i (sr_index s) = Inr e"
    using assms index_contains_at by (fastforce simp: storage_inv_def)
  obtain r x where x: "ChunkStore_contains env (sr_policy s) (ie_storageFile e) (sr_os s) = (r, x)" "quiet (sr_os s) x"
    using ChunkStore_contains_post [of env "sr_policy s" "ie_storageFile e" "sr_os s"] by (auto simp: st_post_def split: prod.splits)
  then show ?thesis
    using True e held_quiet [OF assms x(2), of cpu g z]
    by (cases r) (simp_all add: st_post_def StorageManager_contains_def st_noexcept_def st_bind_def storage_act_def)
qed (use assms in \<open>simp add: st_post_def StorageManager_contains_def st_noexcept_def\<close>)

lemma StorageManager_remove_post:
  assumes inv: "storage_inv policy s" and env: "interrupts_end env"
  shows "p_post (StorageManager_remove env cpu i) s (\<lambda>r s'. storage_inv policy s' \<and> (\<forall>j. j \<noteq> i \<longrightarrow> held cpu g z s' j = held cpu g z s j))"
    (is "p_post _ s ?Q")
proof (cases "index_contains i (sr_index s)")
  case False
  then show ?thesis
    using inv by (simp add: p_post_def StorageManager_remove_def)
next
  case True
  have s: "disk_ok (sr_disk s)" "sr_policy s = policy" "index_ok (sr_index s)" "sp_directory policy \<noteq> []" "index_named (sr_index s)"
    using inv by (simp_all add: storage_inv_def)
  obtain e where e: "index_at i (sr_index s) = Inr e" "map_of (sr_index s) i = Some e"
    using True s index_contains_at by fastforce
  then have name: "ie_storageFile e = chunkName i"
    using s(5) map_of_SomeD by (fastforce simp: index_named_def)
  let ?new = "ChunkIndex_remove i (sr_index s)"
  have new: "index_ok ?new" "?new = filter (\<lambda>x. fst x \<noteq> i) (sr_index s)"
    using index_ok_remove [OF s(3), of i] by blast+
  have named: "index_named ?new"
    using s(5) unfolding new(2) index_named_def by auto
  have others: "map_of ?new j = map_of (sr_index s) j" if "j \<noteq> i" for j
    using map_of_filter_key [of i "sr_index s" j] that unfolding new(2) by simp
  let ?publish = "p_bind (\<lambda>s. publishIndex env cpu (ChunkIndex_remove i (sr_index s)) s) (\<lambda>_. p_lift (st_return True))"
  have publish: "p_post ?publish (s\<lparr>sr_os := x\<rparr>) ?Q"
    if x: "evolves (sr_disk s) (writes (chunk_file policy i) None) (os_disk x)" for x
  proof -
    let ?s = "s\<lparr>sr_os := x\<rparr>"
    have invs: "storage_inv policy ?s"
      using s evolves_ok [OF x] by (simp add: storage_inv_def)
    have "p_post (p_bind (publishIndex env cpu ?new) (\<lambda>_. p_lift (st_return True))) ?s ?Q"
      unfolding p_post_bind
    proof (rule p_post_mono [OF publishIndex_post [OF invs env]], goal_cases)
      case (1 r s')
      then have ev: "evolves (os_disk x) (index_writes cpu policy ?new) (sr_disk s')"
        using traced_disk [of _ "sr_os ?s"] by auto
      have inv': "storage_inv policy s'"
        using 1 s new(1) named evolves_ok [OF ev] by (auto simp: storage_inv_def split: if_splits)
      have "held cpu g z s' j = held cpu g z s j" if "j \<noteq> i" for j
        using 1 s(2) others [OF that] that evolves_content [OF ev _ index_writes_chunk] evolves_content [OF x _ writes_other [of i j]]
          chunkName_not_temp by (intro held_cong) (auto split: if_splits)
      then show ?case
        using inv' by (cases r) simp_all
    qed
    then show ?thesis
      by (simp add: p_post_def p_bind_def)
  qed
  have "p_post (p_bind (p_lift (storage_act (ChunkStore_remove env policy (chunkName i)))) (\<lambda>removed.
      if \<not> removed then p_lift (st_return False) else ?publish)) s ?Q"
    unfolding p_post_bind [of "p_lift m" for m] p_post_lift st_post_storage_act
  proof (rule st_post_mono [OF ChunkStore_remove_post [OF s(1)]], goal_cases)
    case (1 r x)
    note x = traced_disk [OF 1]
    have "storage_inv policy (s\<lparr>sr_os := x\<rparr>)"
      using s evolves_ok [OF x] by (simp add: storage_inv_def)
    moreover have "held cpu g z (s\<lparr>sr_os := x\<rparr>) j = held cpu g z s j" if "j \<noteq> i" for j
      using s(2) that evolves_content [OF x _ writes_other [of i j]] chunkName_not_temp by (intro held_cong) simp_all
    ultimately show ?case
      using publish [OF x] by (cases r) (simp_all del: p_post_bind)
  qed
  then show ?thesis
    using True e(1) name s(2) by (simp add: p_post_def StorageManager_remove_def [abs_def] p_bind_def)
qed

text \<open>The manager keeps the contract, for every behaviour of the operating system.\<close>

definition storage_ready :: "os_env \<Rightarrow> gmp \<Rightarrow> lz4 \<Rightarrow> StoragePolicy \<Rightarrow> storage_run \<Rightarrow> bool" where
  "storage_ready env g z policy s \<longleftrightarrow> interrupts_end env \<and> gmp_library g \<and> lz4_library z \<and> storage_inv policy s"

interpretation repository: chunk_repository "StorageManager_store env cpu g z" "StorageManager_load env cpu g z"
  "StorageManager_contains env" "StorageManager_remove env cpu" "storage_ready env g z policy" "held cpu g z" "storable cpu g z"
proof
  fix s c
  assume s: "storage_ready env g z policy s" and c: "storable cpu g z c"
  let ?i = "cm_identity (chunk_metadata c)"
  obtain r0 where enc: "ChunkCodec_encode cpu g z c = Some r0"
    using c by (auto simp: storable_def)
  have inv: "interrupts_end env" "gmp_library g" "lz4_library z" "storage_inv policy s"
    using s by (simp_all add: storage_ready_def)
  show "p_post (StorageManager_store env cpu g z c) s (\<lambda>r s'. storage_ready env g z policy s' \<and>
      held cpu g z s' = (case r of Inl _ \<Rightarrow> held cpu g z s | Inr _ \<Rightarrow> (held cpu g z s)(?i \<mapsto> c)))"
  proof (rule p_post_mono [OF StorageManager_store_post [OF inv(4,1) enc]], goal_cases)
    case (1 r s')
    then show ?case
      using inv c stored_chunk_held [OF inv(2,3) _ inv(4), of c s' cpu] failed_store_held [OF inv(4), of s' ?i cpu g z]
      by (cases r) (simp_all add: storage_ready_def storable_def)
  qed
next
  fix s i
  assume s: "storage_ready env g z policy s"
  then have inv: "interrupts_end env" "storage_inv policy s"
    by (simp_all add: storage_ready_def)
  show "st_post (StorageManager_load env cpu g z i) s (\<lambda>r s'. storage_ready env g z policy s' \<and> held cpu g z s' = held cpu g z s
      \<and> (\<forall>c. r = Inr (Some c) \<longrightarrow> held cpu g z s i = Some c))"
    by (rule st_post_mono [OF StorageManager_load_post [OF inv(2), of env cpu g z i]]) (use s in \<open>simp add: storage_ready_def\<close>)
  show "st_post (StorageManager_contains env i) s (\<lambda>r s'. storage_ready env g z policy s' \<and> held cpu g z s' = held cpu g z s)"
    by (rule st_post_mono [OF StorageManager_contains_post [OF inv(2), of env i cpu g z]]) (use s in \<open>simp add: storage_ready_def\<close>)
  show "p_post (StorageManager_remove env cpu i) s (\<lambda>r s'. storage_ready env g z policy s' \<and> (\<forall>j. j \<noteq> i \<longrightarrow> held cpu g z s' j = held cpu g z s j))"
    by (rule p_post_mono [OF StorageManager_remove_post [OF inv(2,1), of cpu i g z]]) (use s in \<open>simp add: storage_ready_def\<close>)
qed

section \<open>Properties\<close>

lemma reads_calm: "no_failures env \<Longrightarrow> sys_call env f s = (None, tick s (f (os_disk s)))"
  by (simp add: sys_call_def no_failures_def)

lemma load_held:
  assumes "no_failures env" and inv: "storage_inv policy s" and "held cpu g z s i = Some c"
    and "content (sr_disk s) (chunk_file policy i) = Some bytes" and "length bytes < 2 ^ 63"
  shows "fst (StorageManager_load env cpu g z i s) = Inr (Some c)"
proof -
  obtain e where e: "map_of (sr_index s) i = Some e" "ie_storageFile e = chunkName i" "ChunkCodec_decode cpu g z bytes = Inr c"
    "ChunkIdentity_validate i = Inr ()" "cm_compression (chunk_metadata c) = sp_compression policy" "checkLoaded e i c = Inr ()"
    using assms(3,4) inv by (auto simp: held_Some storage_inv_def)
  have idx: "index_contains i (sr_index s)" "index_at i (sr_index s) = Inr e" "sr_policy s = policy"
    using inv e(1) by (simp_all add: storage_inv_def index_contains_def index_at_def index_ok_find)
  have v: "verifyDecoded cpu g z policy (chunkName i) bytes = Inr c"
    using e by (simp add: verifyDecoded_Inr checkLoaded_Inr)
  have "dk_names (sr_disk s) (chunk_file policy i) \<noteq> None"
    using assms(4) by (auto simp: content_def)
  then have "\<exists>x. reloadAndVerify env cpu g z policy (chunkName i) (sr_os s) = (Inr (Some c), x)"
    using assms(4,5) v chunkPath_chunkName [of policy i]
    by (auto simp: reloadAndVerify_def st_bind_def is_regular_file_def fs_exists_def readFile_def stream_read_def sys_checked_def
        reads_calm [OF assms(1)] throw_if_def unat_max_word st_rethrow_def)
  then show ?thesis
    using idx e(2,6) by (auto simp: StorageManager_load_def st_bind_def storage_act_def)
qed

text \<open>
  C32: Storing a chunk is atomic and durable.  Whatever calls of the operating system fail, the store
  returns and keeps the storage well formed; when it throws, what is stored is as before; when it
  returns, exactly this chunk was added, a load returns it, and after any crash both the chunk file
  and the index file are there and complete.
\<close>

theorem StorageManager_store_durable:
  assumes "gmp_library g" and "lz4_library z" and "interrupts_end env" and "storage_inv policy s" and "values_fit chunk"
    and "ChunkCodec_encode cpu g z chunk \<noteq> None"
  shows "\<exists>r s'. StorageManager_store env cpu g z chunk s = Some (r, s') \<and> storage_inv policy s'
    \<and> (\<forall>e. r = Inl e \<longrightarrow> held cpu g z s' = held cpu g z s)
    \<and> (\<forall>name. r = Inr name \<longrightarrow> (\<exists>bytes index_bytes. let i = cm_identity (chunk_metadata chunk) in
         name = chunkName i \<and> held cpu g z s' = (held cpu g z s)(i \<mapsto> chunk)
         \<and> after_crash (sr_disk s') (chunk_file policy i) = {Some bytes} \<and> ChunkCodec_decode cpu g z bytes = Inr chunk
         \<and> after_crash (sr_disk s') (makeIndexPath policy) = {Some index_bytes} \<and> ChunkIndex_serialize cpu (sr_index s') = Inr index_bytes
         \<and> (\<forall>env'. no_failures env' \<and> length bytes < 2 ^ 63 \<longrightarrow> fst (StorageManager_load env' cpu g z i s') = Inr (Some chunk))))"
proof -
  let ?i = "cm_identity (chunk_metadata chunk)"
  obtain r0 where enc: "ChunkCodec_encode cpu g z chunk = Some r0"
    using assms(6) by auto
  obtain r s' where run: "StorageManager_store env cpu g z chunk s = Some (r, s')" and inv: "storage_inv policy s'"
    and other: "other_chunks_same policy ?i s s'" "index_contains ?i (sr_index s) \<longrightarrow> s' = s"
    and res: "case r of Inl _ \<Rightarrow> sr_index s' = sr_index s | Inr name \<Rightarrow> name = chunkName ?i \<and> stored_chunk cpu g z policy chunk (sr_index s) s'"
    using p_postD [OF StorageManager_store_post [OF assms(4,3) enc]] by blast
  have fail: "held cpu g z s' = held cpu g z s" if "r = Inl e" for e
    using failed_store_held [OF assms(4) inv other(1) _ other(2)] res that by simp
  have good: "\<exists>bytes index_bytes. let i = ?i in name = chunkName i \<and> held cpu g z s' = (held cpu g z s)(i \<mapsto> chunk)
         \<and> after_crash (sr_disk s') (chunk_file policy i) = {Some bytes} \<and> ChunkCodec_decode cpu g z bytes = Inr chunk
         \<and> after_crash (sr_disk s') (makeIndexPath policy) = {Some index_bytes} \<and> ChunkIndex_serialize cpu (sr_index s') = Inr index_bytes
         \<and> (\<forall>env'. no_failures env' \<and> length bytes < 2 ^ 63 \<longrightarrow> fst (StorageManager_load env' cpu g z i s') = Inr (Some chunk))"
    if r: "r = Inr name" for name
  proof -
    have st: "name = chunkName ?i" "stored_chunk cpu g z policy chunk (sr_index s) s'"
      using res r by simp_all
    obtain bytes ib where b: "ChunkCodec_encode cpu g z chunk = Some (Inr bytes)" "durable (sr_disk s') (chunk_file policy ?i) bytes"
      "ChunkIndex_serialize cpu (sr_index s') = Inr ib" "durable (sr_disk s') (makeIndexPath policy) ib"
      using st(2) by (auto simp: stored_chunk_def)
    have h: "held cpu g z s' = (held cpu g z s)(?i \<mapsto> chunk)"
      by (rule stored_chunk_held [OF assms(1,2,5,4) inv other(1) st(2)])
    show ?thesis
      using st(1) h b chunk_decodes [OF assms(1,2,5) b(1)] load_held [OF _ inv, of _ cpu g z ?i chunk bytes]
      by (intro exI [of _ bytes] exI [of _ ib]) (simp add: durable_def Let_def)
  qed
  show ?thesis
    using run inv fail good by blast
qed

definition sample_policy :: StoragePolicy where
  "sample_policy = StoragePolicy_default"

definition sample_storage :: storage_run where
  "sample_storage = \<lparr>sr_manager = \<lparr>sm_policy = sample_policy, sm_index = ChunkIndex_create, sm_inFlightStores = {}\<rparr>, sr_os = fresh_os\<rparr>"

theorem StorageManager_store_durable_witness:
  "\<exists>chunk r s'. chunk_p chunk = 5 \<and> chunk_q chunk = 24 \<and> chunk_t chunk = - 7
    \<and> StorageManager_store calm_env None gmp_ref lz4_ref chunk sample_storage = Some (r, s') \<and> storage_inv sample_policy s'
    \<and> (\<forall>name. r = Inr name \<longrightarrow> held None gmp_ref lz4_ref s' (cm_identity (chunk_metadata chunk)) = Some chunk)"
proof -
  obtain m bytes where "ChunkCodec_encode None gmp_ref lz4_ref \<lparr>chunk_metadata = m, chunk_p = 5, chunk_q = 24, chunk_t = - 7\<rparr> = Some (Inr bytes)"
    using created_encodes [OF gmp_ref.gmp_library_axioms sample_chunk_valid sample_values_fit, of None lz4_ref] by blast
  let ?c = "\<lparr>chunk_metadata = m, chunk_p = 5, chunk_q = 24, chunk_t = - 7\<rparr>"
  note \<open>ChunkCodec_encode None gmp_ref lz4_ref ?c = Some (Inr bytes)\<close>
  moreover have "storage_inv sample_policy sample_storage"
    using disk_ok_empty index_ok_create by (simp add: storage_inv_def sample_storage_def sample_policy_def StoragePolicy_default_def
        index_named_def ChunkIndex_create_def)
  moreover have "values_fit \<lparr>chunk_metadata = m, chunk_p = 5, chunk_q = 24, chunk_t = - 7\<rparr>"
    using sample_values_fit by (simp add: values_fit_def)
  ultimately have "\<exists>r s'. StorageManager_store calm_env None gmp_ref lz4_ref ?c sample_storage = Some (r, s') \<and> storage_inv sample_policy s'
      \<and> (\<forall>name. r = Inr name \<longrightarrow> held None gmp_ref lz4_ref s' = (held None gmp_ref lz4_ref sample_storage)(cm_identity m \<mapsto> ?c))"
    using StorageManager_store_durable [OF gmp_ref.gmp_library_axioms lz4_ref.lz4_library_axioms interrupts_end_calm, of sample_policy
        sample_storage ?c None] unfolding Let_def by (simp only: Chunk.select_convs option.distinct simp_thms) blast
  then obtain r s' where "StorageManager_store calm_env None gmp_ref lz4_ref ?c sample_storage = Some (r, s')" "storage_inv sample_policy s'"
    "\<forall>name. r = Inr name \<longrightarrow> held None gmp_ref lz4_ref s' = (held None gmp_ref lz4_ref sample_storage)(cm_identity m \<mapsto> ?c)"
    by (elim exE conjE)
  then show ?thesis
    by (intro exI [of _ ?c] exI [of _ r] exI [of _ s']) simp
qed

end
