(* ===== verification/Eviction_Plan.thy ===== *)
theory Eviction_Plan
  imports Chunk_Store "HOL-Library.Product_Lexorder"
begin

text \<open>
  Which resident chunks to write out (src/src/storage/ChunkStore.cpp, \<open>MemoryBudget\<close>,
  \<open>getEvictionCandidates\<close>, \<open>EvictionPlan\<close>): the farthest from their merge first, then the largest.
  A \<open>double\<close> is a rational number, or \<open>None\<close> when it is not finite.
\<close>

section \<open>Operations\<close>

type_synonym double = "rat option"

definition saturatingAdd :: "u64 \<Rightarrow> u64 \<Rightarrow> u64" where
  "saturatingAdd a b = (if - 1 - a < b then - 1 else a + b)"

record MemoryBudget =
  mb_resident_bytes :: u64
  mb_storage_bytes :: u64
  mb_budget_bytes :: u64
  mb_target_chunk_size :: u64

definition MemoryBudget_reset :: MemoryBudget where
  "MemoryBudget_reset = \<lparr>mb_resident_bytes = 0, mb_storage_bytes = 0, mb_budget_bytes = 0, mb_target_chunk_size = 0\<rparr>"

definition availableBudget :: "MemoryBudget \<Rightarrow> u64" where
  "availableBudget b = (if mb_resident_bytes b \<ge> mb_budget_bytes b then 0 else mb_budget_bytes b - mb_resident_bytes b)"

definition addResidentBytes :: "u64 \<Rightarrow> MemoryBudget \<Rightarrow> MemoryBudget" where
  "addResidentBytes bytes b = b\<lparr>mb_resident_bytes := saturatingAdd (mb_resident_bytes b) bytes\<rparr>"

definition removeResidentBytes :: "u64 \<Rightarrow> MemoryBudget \<Rightarrow> MemoryBudget" where
  "removeResidentBytes bytes b = b\<lparr>mb_resident_bytes := max (mb_resident_bytes b) bytes - bytes\<rparr>"

definition addStorageBytes :: "u64 \<Rightarrow> MemoryBudget \<Rightarrow> MemoryBudget" where
  "addStorageBytes bytes b = b\<lparr>mb_storage_bytes := saturatingAdd (mb_storage_bytes b) bytes\<rparr>"

definition removeStorageBytes :: "u64 \<Rightarrow> MemoryBudget \<Rightarrow> MemoryBudget" where
  "removeStorageBytes bytes b = b\<lparr>mb_storage_bytes := max (mb_storage_bytes b) bytes - bytes\<rparr>"

definition queryBudget :: "StoragePolicy \<Rightarrow> (string \<times> u64) list \<Rightarrow> (string \<times> u64) list \<Rightarrow> MemoryBudget" where
  "queryBudget policy residentChunks storedChunks =
     (let result = MemoryBudget_reset\<lparr>mb_budget_bytes := sp_memory_budget_bytes policy,
            mb_target_chunk_size := sp_target_chunk_size_bytes policy\<rparr>;
          result = fold (\<lambda>(chunkId, bytes). addResidentBytes bytes) residentChunks result
      in fold (\<lambda>(chunkId, bytes). addStorageBytes bytes) storedChunks result)"

record EvictionCandidate =
  ec_chunkId :: string
  ec_uncompressedSize :: u64
  ec_storedSize :: u64
  ec_evictionScore :: double
  ec_mergeDistance :: double
  ec_reason :: "string option"

record EvictionPlan =
  ep_candidates :: "EvictionCandidate list"
  ep_evictedBytes :: u64
  ep_evictedStoredBytes :: u64
  ep_budgetSatisfied :: bool
  ep_reason :: "string option"

text \<open>The loop over the resident chunks.\<close>

fun collectCandidates ::
  "os_env \<Rightarrow> StoragePolicy \<Rightarrow> (string \<rightharpoonup> double) \<Rightarrow> string set \<Rightarrow> (string \<times> u64) list \<Rightarrow> (os, EvictionCandidate list) action" where
  "collectCandidates env policy distances seen [] = st_return []"
| "collectCandidates env policy distances seen ((chunkId, bytes) # rest) =
     st_bind (st_throw_if (chunkId \<in> seen) (Invalid_argument ''duplicate resident chunk id'')) (\<lambda>_.
     case (case distances chunkId of Some d \<Rightarrow> d | None \<Rightarrow> Some 0) of
       None \<Rightarrow> st_throw (Invalid_argument ''merge distance must be finite and non-negative'')
     | Some distance \<Rightarrow>
         st_bind (st_throw_if (distance < 0) (Invalid_argument ''merge distance must be finite and non-negative'')) (\<lambda>_.
         if distance = 0 \<or> bytes = 0 then collectCandidates env policy distances (insert chunkId seen) rest
         else st_bind (ChunkStore_fileSize env policy chunkId) (\<lambda>stored.
           st_bind (collectCandidates env policy distances (insert chunkId seen) rest) (\<lambda>found.
           st_return (\<lparr>ec_chunkId = chunkId, ec_uncompressedSize = bytes,
             ec_storedSize = (case stored of Some n \<Rightarrow> n | None \<Rightarrow> bytes), ec_evictionScore = Some distance,
             ec_mergeDistance = Some distance, ec_reason = Some ''not_immediately_needed''\<rparr> # found)))))"

text \<open>The comparison of the sort: it is total, since the identities differ.\<close>

definition eviction_key :: "EvictionCandidate \<Rightarrow> rat \<times> int \<times> string" where
  "eviction_key c = (- the (ec_mergeDistance c), - uint (ec_uncompressedSize c), ec_chunkId c)"

definition getEvictionCandidates ::
  "os_env \<Rightarrow> StoragePolicy \<Rightarrow> (string \<times> u64) list \<Rightarrow> (string \<rightharpoonup> double) \<Rightarrow> u64 \<Rightarrow> (os, EvictionCandidate list) action" where
  "getEvictionCandidates env policy residentChunks mergeDistanceMap budget =
     st_bind (st_throw_if (budget = 0) (Invalid_argument ''eviction budget must be greater than zero'')) (\<lambda>_.
     st_bind (collectCandidates env policy mergeDistanceMap {} residentChunks) (\<lambda>result.
     st_return (sort_key eviction_key result)))"

definition updateBudgetStatus :: "u64 \<Rightarrow> u64 \<Rightarrow> EvictionPlan \<Rightarrow> EvictionPlan" where
  "updateBudgetStatus current budget p =
     p\<lparr>ep_budgetSatisfied := (current \<ge> budget),
       ep_reason := (if current \<ge> budget then None else Some ''eviction plan did not free enough resident bytes'')\<rparr>"

fun evictLoop :: "u64 \<Rightarrow> EvictionCandidate list \<Rightarrow> u64 \<Rightarrow> u64 \<Rightarrow> EvictionCandidate list \<times> u64 \<times> u64" where
  "evictLoop neededBytes [] evicted stored = ([], evicted, stored)"
| "evictLoop neededBytes (c # cs) evicted stored =
     (if evicted \<ge> neededBytes then ([], evicted, stored)
      else case evictLoop neededBytes cs (saturatingAdd evicted (ec_uncompressedSize c)) (saturatingAdd stored (ec_storedSize c)) of
             (selected, evicted, stored) \<Rightarrow> (c # selected, evicted, stored))"

definition evictUntilBudgetSatisfied :: "u64 \<Rightarrow> EvictionPlan \<Rightarrow> EvictionPlan" where
  "evictUntilBudgetSatisfied neededBytes p =
     (case evictLoop neededBytes (ep_candidates p) 0 0 of (selected, evicted, stored) \<Rightarrow>
        p\<lparr>ep_candidates := selected, ep_evictedBytes := evicted, ep_evictedStoredBytes := stored\<rparr>)"

definition planEvictions ::
  "os_env \<Rightarrow> StoragePolicy \<Rightarrow> (string \<times> u64) list \<Rightarrow> string set \<Rightarrow> (string \<rightharpoonup> double) \<Rightarrow> u64 \<Rightarrow> (os, EvictionPlan) action" where
  "planEvictions env policy residentChunks residentSet mergeDistanceMap neededBytes =
     st_bind (getEvictionCandidates env policy residentChunks mergeDistanceMap (sp_memory_budget_bytes policy)) (\<lambda>all.
     let plan = evictUntilBudgetSatisfied neededBytes
           \<lparr>ep_candidates = filter (\<lambda>c. ec_chunkId c \<in> residentSet) all, ep_evictedBytes = 0, ep_evictedStoredBytes = 0,
            ep_budgetSatisfied = False, ep_reason = None\<rparr>;
         plan = updateBudgetStatus (ep_evictedBytes plan) neededBytes plan
     in st_return (if \<not> ep_budgetSatisfied plan \<and> ep_reason plan = None
          then plan\<lparr>ep_reason := Some ''resident candidates cannot satisfy requested eviction bytes''\<rparr> else plan))"

section \<open>The plan\<close>

lemma unat_saturatingAdd: "unat (saturatingAdd a b) = min (2 ^ 64 - 1) (unat a + unat b)"
proof -
  have max: "unat (- 1 - a) = 2 ^ 64 - 1 - unat a"
    by (subst unat_sub_le) (simp_all add: unat_max_word)
  show ?thesis
  proof (cases "- 1 - a < b")
    case True
    then show ?thesis
      using unat_u64_less [of a] unat_u64_less [of b] by (simp add: saturatingAdd_def word_less_nat_alt max unat_max_word)
  next
    case False
    then have "unat a + unat b < 2 ^ 64"
      using unat_u64_less [of a] by (simp add: word_less_nat_alt max not_less)
    then show ?thesis
      using False by (simp add: saturatingAdd_def unat_add_lem [THEN iffD1])
  qed
qed

abbreviation freed :: "EvictionCandidate list \<Rightarrow> nat" where
  "freed cs \<equiv> sum_list (map (\<lambda>c. unat (ec_uncompressedSize c)) cs)"

lemma evictLoop_shortest:
  assumes "evictLoop needed cs ev st = (sel, ev', st')"
  shows "\<exists>k \<le> length cs. sel = take k cs \<and> unat ev' = min (2 ^ 64 - 1) (unat ev + freed sel)
    \<and> (\<forall>j < k. unat ev + freed (take j cs) < unat needed) \<and> (ev' \<ge> needed \<longleftrightarrow> unat needed \<le> unat ev + freed cs)"
  using assms
proof (induction cs arbitrary: ev st sel)
  case Nil
  then show ?case
    using unat_u64_less [of ev] by (auto simp: word_le_nat_alt)
next
  case (Cons c cs)
  show ?case
  proof (cases "ev \<ge> needed")
    case True
    then show ?thesis
      using Cons.prems unat_u64_less [of ev] by (auto simp: word_le_nat_alt)
  next
    case False
    let ?ev = "saturatingAdd ev (ec_uncompressedSize c)"
    obtain sel' where sel: "sel = c # sel'"
      and l: "evictLoop needed cs ?ev (saturatingAdd st (ec_storedSize c)) = (sel', ev', st')"
      using Cons.prems False by (auto split: prod.splits)
    obtain k where k: "k \<le> length cs" "sel' = take k cs" "unat ev' = min (2 ^ 64 - 1) (unat ?ev + freed sel')"
      "\<forall>j < k. unat ?ev + freed (take j cs) < unat needed" "ev' \<ge> needed \<longleftrightarrow> unat needed \<le> unat ?ev + freed cs"
      using Cons.IH [OF l] by blast
    have "unat ev + freed (take j (c # cs)) < unat needed" if "j < Suc k" for j
      using that k(4) False unat_u64_less [of needed]
      by (cases j) (auto simp: unat_saturatingAdd word_le_nat_alt not_le min_def split: if_splits)
    then show ?thesis
      using k sel unat_u64_less [of needed]
      by (intro exI [of _ "Suc k"]) (auto simp: unat_saturatingAdd min_def split: if_splits)
  qed
qed

text \<open>The distance of a chunk: 0 when the map does not mention it.\<close>

definition merge_distance :: "(string \<rightharpoonup> double) \<Rightarrow> string \<Rightarrow> rat" where
  "merge_distance distances i = (case distances i of Some (Some d) \<Rightarrow> d | _ \<Rightarrow> 0)"

abbreviation evictable :: "(string \<rightharpoonup> double) \<Rightarrow> string \<times> u64 \<Rightarrow> bool" where
  "evictable distances \<equiv> (\<lambda>(i, bytes). 0 < merge_distance distances i \<and> bytes \<noteq> 0)"

definition collected :: "(string \<rightharpoonup> double) \<Rightarrow> (string \<times> u64) list \<Rightarrow> EvictionCandidate list \<Rightarrow> bool" where
  "collected distances resident cs \<longleftrightarrow>
     map (\<lambda>c. (ec_chunkId c, ec_uncompressedSize c)) cs = filter (evictable distances) resident
     \<and> (\<forall>c \<in> set cs. ec_mergeDistance c = Some (merge_distance distances (ec_chunkId c)))"

lemma quiet_trans: "quiet s s' \<Longrightarrow> quiet s' s'' \<Longrightarrow> quiet s s''"
  using traced_trans [of "\<lambda>d. d = os_disk s" s s' s''] quiet_disk [of s s'] by simp

lemma collectCandidates_post:
  "st_post (collectCandidates env policy distances seen resident) s
     (\<lambda>r s'. quiet s s' \<and> (\<forall>cs. r = Inr cs \<longrightarrow> collected distances resident cs))"
proof (induction env policy distances seen resident arbitrary: s rule: collectCandidates.induct)
  case (1 env policy distances seen)
  show ?case
    by (simp add: st_post_def collected_def quiet_refl)
next
  case (2 env policy distances seen i bytes rest)
  let ?go = "collectCandidates env policy distances (insert i seen) rest"
  let ?Q = "\<lambda>r s'. quiet s s' \<and> (\<forall>cs. r = Inr cs \<longrightarrow> collected distances ((i, bytes) # rest) cs)"
  define d where "d = (case distances i of Some d \<Rightarrow> d | None \<Rightarrow> Some 0)"
  show ?case
  proof (cases "i \<in> seen \<or> d = None \<or> (\<exists>q. d = Some q \<and> q < 0)")
    case True
    then show ?thesis
      by (auto simp: d_def [symmetric] throw_if_def quiet_refl)
  next
    case False
    then obtain q where q: "d = Some q" "0 \<le> q"
      by (cases d) auto
    then have dist: "merge_distance distances i = q"
      by (auto simp: d_def merge_distance_def split: option.splits)
    have guards: "st_post (collectCandidates env policy distances seen ((i, bytes) # rest)) s ?Q
      = st_post (if q = 0 \<or> bytes = 0 then ?go else st_bind (ChunkStore_fileSize env policy i) (\<lambda>stored. st_bind ?go (\<lambda>found.
           st_return (\<lparr>ec_chunkId = i, ec_uncompressedSize = bytes,
             ec_storedSize = (case stored of Some n \<Rightarrow> n | None \<Rightarrow> bytes), ec_evictionScore = Some q,
             ec_mergeDistance = Some q, ec_reason = Some ''not_immediately_needed''\<rparr> # found)))) s ?Q"
      using False q by (simp add: d_def [symmetric] throw_if_def)
    have IH: "st_post ?go s1 (\<lambda>r s'. quiet s1 s' \<and> (\<forall>cs. r = Inr cs \<longrightarrow> collected distances rest cs))" for s1
    proof (cases "q = 0 \<or> bytes = 0")
      case True
      then show ?thesis
        using "2.IH"(1) q(1) by (simp add: d_def)
    next
      case False
      then show ?thesis
        using "2.IH"(2) q(1) by (simp add: d_def)
    qed
    show ?thesis
    proof (cases "q = 0 \<or> bytes = 0")
      case True
      then have "\<not> evictable distances (i, bytes)"
        using dist by auto
      then show ?thesis
        unfolding guards using True IH [of s] by (auto simp: collected_def elim!: st_post_mono)
    next
      case False
      then have ev: "evictable distances (i, bytes)"
        using dist q(2) by simp
      have "st_post (st_bind (ChunkStore_fileSize env policy i) (\<lambda>stored. st_bind ?go (\<lambda>found.
           st_return (\<lparr>ec_chunkId = i, ec_uncompressedSize = bytes,
             ec_storedSize = (case stored of Some n \<Rightarrow> n | None \<Rightarrow> bytes), ec_evictionScore = Some q,
             ec_mergeDistance = Some q, ec_reason = Some ''not_immediately_needed''\<rparr> # found)))) s ?Q"
        unfolding st_post_bind
      proof (rule st_post_mono [OF ChunkStore_fileSize_post], goal_cases)
        case (1 r s1)
        show ?case
        proof (cases r)
          case (Inr stored)
          have "st_post ?go s1 (\<lambda>r s'. quiet s s' \<and> (\<forall>cs. r = Inr cs \<longrightarrow> collected distances rest cs))"
            by (rule st_post_mono [OF IH]) (use quiet_trans [OF 1] in blast)
          then show ?thesis
            unfolding Inr sum.case
            by (rule st_post_mono) (use ev dist in \<open>auto simp: collected_def split: sum.split\<close>)
        qed (use 1 in simp)
      qed
      then show ?thesis
        unfolding guards using False by simp
    qed
  qed
qed

lemma planEvictions_post: "st_post (planEvictions env policy resident ids distances needed) s (\<lambda>r s'. quiet s s')"
proof -
  have "st_post (collectCandidates env policy distances {} resident) s (\<lambda>r s'. quiet s s')"
    by (rule st_post_mono [OF collectCandidates_post]) blast
  then show ?thesis
    by (auto simp: planEvictions_def getEvictionCandidates_def throw_if_def Let_def quiet_refl split: sum.split elim!: st_post_mono)
qed

section \<open>Properties\<close>


definition sample_resident :: "(string \<times> u64) list" where
  "sample_resident = [(''a'', 5), (''b'', 7), (''c'', 3), (''d'', 9)]"

definition sample_distances :: "string \<rightharpoonup> double" where
  "sample_distances = [''a'' \<mapsto> Some 1, ''b'' \<mapsto> Some 1, ''c'' \<mapsto> Some 2, ''d'' \<mapsto> Some 0]"


end
