(* ===== verification/Node_Lifecycle.thy ===== *)
theory Node_Lifecycle
  imports Prelude
begin

text \<open>
  The ownership state of a node between memory and disk (src/src/storage/NodeLifecycle.cpp): each
  operation is a guarded transition that reports whether it applied.
\<close>

section \<open>Operations\<close>

datatype AsyncWriteState = AW_queued | AW_writing | AW_stored | AW_failed | AW_cancelled

datatype NodeLifecycleState = NL_resident | NL_spilling | NL_stored | NL_loading | NL_corrupted | NL_removed

fun NodeLifecycleState_toString :: "NodeLifecycleState \<Rightarrow> string" where
  "NodeLifecycleState_toString NL_resident = ''resident''"
| "NodeLifecycleState_toString NL_spilling = ''spilling''"
| "NodeLifecycleState_toString NL_stored = ''stored''"
| "NodeLifecycleState_toString NL_loading = ''loading''"
| "NodeLifecycleState_toString NL_corrupted = ''corrupted''"
| "NodeLifecycleState_toString NL_removed = ''removed''"

record NodeLifecycle =
  nl_state :: NodeLifecycleState
  nl_error :: "string option"

definition NodeLifecycle_create :: "NodeLifecycleState \<Rightarrow> NodeLifecycle" where
  "NodeLifecycle_create initial = \<lparr>nl_state = initial, nl_error = None\<rparr>"

definition beginSpill :: "NodeLifecycle \<Rightarrow> bool \<times> NodeLifecycle" where
  "beginSpill n =
     (if nl_state n \<noteq> NL_resident then (False, n)
      else (True, n\<lparr>nl_error := None, nl_state := NL_spilling\<rparr>))"

definition completeSpill :: "NodeLifecycle \<Rightarrow> bool \<times> NodeLifecycle" where
  "completeSpill n =
     (if nl_state n \<noteq> NL_spilling then (False, n) else (True, n\<lparr>nl_state := NL_stored\<rparr>))"

definition failSpill :: "NodeLifecycle \<Rightarrow> bool \<times> NodeLifecycle" where
  "failSpill n =
     (if nl_state n \<noteq> NL_spilling then (False, n) else (True, n\<lparr>nl_state := NL_resident\<rparr>))"

definition finishAsyncSpill :: "AsyncWriteState \<Rightarrow> string \<Rightarrow> NodeLifecycle \<Rightarrow> bool \<times> NodeLifecycle" where
  "finishAsyncSpill outcome detail n =
     (if nl_state n \<noteq> NL_spilling then (False, n)
      else if outcome = AW_stored then (True, n\<lparr>nl_state := NL_stored, nl_error := None\<rparr>)
      else if outcome \<noteq> AW_failed \<and> outcome \<noteq> AW_cancelled then (False, n)
      else (False, n\<lparr>nl_state := NL_resident, nl_error := (if detail \<noteq> [] then Some detail else nl_error n)\<rparr>))"

definition beginLoad :: "NodeLifecycle \<Rightarrow> bool \<times> NodeLifecycle" where
  "beginLoad n =
     (if nl_state n \<noteq> NL_stored then (False, n) else (True, n\<lparr>nl_state := NL_loading\<rparr>))"

definition completeLoad :: "NodeLifecycle \<Rightarrow> bool \<times> NodeLifecycle" where
  "completeLoad n =
     (if nl_state n \<noteq> NL_loading then (False, n) else (True, n\<lparr>nl_state := NL_resident\<rparr>))"

definition failLoad :: "bool \<Rightarrow> NodeLifecycle \<Rightarrow> bool \<times> NodeLifecycle" where
  "failLoad artifactExists n =
     (if nl_state n \<noteq> NL_loading then (False, n)
      else (True, n\<lparr>nl_state := (if artifactExists then NL_corrupted else NL_removed)\<rparr>))"

definition lifecycle_remove :: "NodeLifecycle \<Rightarrow> bool \<times> NodeLifecycle" where
  "lifecycle_remove n =
     (if nl_state n \<noteq> NL_stored \<and> nl_state n \<noteq> NL_corrupted then (False, n)
      else (True, n\<lparr>nl_state := NL_removed\<rparr>))"

lemmas lifecycle_defs = NodeLifecycle_create_def beginSpill_def completeSpill_def failSpill_def finishAsyncSpill_def
  beginLoad_def completeLoad_def failLoad_def lifecycle_remove_def

end
