(* ===== verification/Merge_Storage.thy ===== *)
theory Merge_Storage
  imports Storage_Manager Eviction_Plan Node_Lifecycle Range_Bounds Progress_Tracker Binary_Parallel_Correct
begin

text \<open>
  The storage coordinator of a split (src/src/storage/StorageMergeCoordinator.cpp) on its synchronous
  path, with the conversion of nodes to chunks (src/src/storage/BinaryNodeChunkAdapter.cpp).  After a
  level it writes out nodes until the resident bytes fit the budget, and reads them back before the
  next merge.
\<close>

section \<open>Nodes and chunks\<close>

definition toChunk ::
  "sse42 option \<Rightarrow> gmp \<Rightarrow> lz4 \<Rightarrow> BinaryNode \<Rightarrow> ComputationIdentity \<Rightarrow> u32 \<Rightarrow> u16 \<Rightarrow> Chunk result" where
  "toChunk cpu g z node computation treeLevel compression =
     res_bind (throw_if (node_start node \<ge> node_end node)
       (Invalid_argument ''Cannot convert an empty or inverted BinaryNode to a chunk'')) (\<lambda>_.
     res_bind (BlockLocation_create (node_start node) (node_end node) treeLevel computation) (\<lambda>location.
     res_bind (ChunkIdentity_create computation location) (\<lambda>identity.
     res_bind (createMetadata cpu g z identity (node_P node) (node_Q node) (node_T node) compression) (\<lambda>metadata.
     Inr \<lparr>chunk_metadata = metadata, chunk_p = node_P node, chunk_q = node_Q node, chunk_t = node_T node\<rparr>))))"

definition toBinaryNode :: "Chunk \<Rightarrow> BinaryNode result" where
  "toBinaryNode chunk =
     res_bind (ChunkMetadata_validate (chunk_metadata chunk)) (\<lambda>_.
     let location = ci_location (cm_identity (chunk_metadata chunk));
         node = BinaryNode_make (loc_start location) (loc_end location)
     in Inr (node\<lparr>node_P := GMPInteger_set (node_P node) (chunk_p chunk), node_Q := GMPInteger_set (node_Q node) (chunk_q chunk),
          node_T := GMPInteger_set (node_T node) (chunk_t chunk)\<rparr>))"

section \<open>Operations\<close>

record ResidentMergeNode =
  rn_identity :: ChunkIdentity
  rn_chunkId :: string
  rn_residentBytes :: u64
  rn_level :: u32
  rn_lifecycle :: NodeLifecycle
  rn_mergeDistance :: double

text \<open>The coordinator with its manager and its tracker.\<close>

record merge_run =
  mr_storage :: storage_run
  mr_computation :: ComputationIdentity
  mr_progress :: "ProgressTracker option"
  mr_residentNodes :: "ResidentMergeNode list"
  mr_spillCount :: u64
  mr_reloadCount :: u64
  mr_spilledBytes :: u64

definition StorageMergeCoordinator_create ::
  "storage_run \<Rightarrow> ComputationIdentity \<Rightarrow> ProgressTracker option \<Rightarrow> merge_run result" where
  "StorageMergeCoordinator_create manager computation progress =
     res_bind (ComputationIdentity_validate computation) (\<lambda>_.
     Inr \<lparr>mr_storage = manager, mr_computation = computation, mr_progress = progress, mr_residentNodes = [],
       mr_spillCount = 0, mr_reloadCount = 0, mr_spilledBytes = 0\<rparr>)"

definition on_storage :: "(storage_run, 'a) paction \<Rightarrow> (merge_run, 'a) paction" where
  "on_storage m s = map_option (\<lambda>(r, x). (r, s\<lparr>mr_storage := x\<rparr>)) (m (mr_storage s))"

definition merge_do :: "(merge_run \<Rightarrow> merge_run) \<Rightarrow> (merge_run, unit) paction" where
  "merge_do f s = Some (Inr (), f s)"

definition merge_snapshot :: "merge_run \<Rightarrow> StorageSnapshot" where
  "merge_snapshot s =
     StorageManager_snapshot
       (map (\<lambda>n. (rn_chunkId n, rn_residentBytes n))
         (filter (\<lambda>n. nl_state (rn_lifecycle n) = NL_resident \<or> nl_state (rn_lifecycle n) = NL_spilling) (mr_residentNodes s)))
       (sr_manager (mr_storage s))"

definition publishProgress :: "u32 \<Rightarrow> merge_run \<Rightarrow> merge_run" where
  "publishProgress level s =
     (case mr_progress s of None \<Rightarrow> s
      | Some progress \<Rightarrow>
          let current = merge_snapshot s;
              progress = snd (setCurrentMergeLevel level progress);
              progress = setStorageProgress (snap_residentBytes current) (snap_storedBytes current) (snap_indexedChunks current) progress;
              progress = setStorageIoProgress 0 0 0 0 0 0 0 0 progress
          in s\<lparr>mr_progress := Some progress\<rparr>)"

text \<open>The first loop of \<open>observeResidentNodes\<close>: a record per node, in which no identity occurs twice.\<close>

definition residentRecord ::
  "sse42 option \<Rightarrow> gmp \<Rightarrow> lz4 \<Rightarrow> ComputationIdentity \<Rightarrow> u32 \<Rightarrow> size_t \<Rightarrow> BinaryNode \<Rightarrow> ResidentMergeNode result" where
  "residentRecord cpu g z computation level nodeCount node =
     res_bind (throw_if (node_start node \<ge> node_end node)
       (Invalid_argument ''merge coordinator received an invalid BinaryNode range'')) (\<lambda>_.
     res_bind (BlockLocation_create (node_start node) (node_end node) level computation) (\<lambda>location.
     res_bind (ChunkIdentity_create computation location) (\<lambda>identity.
     res_bind (createMetadata cpu g z identity (node_P node) (node_Q node) (node_T node) CompressionAlgorithm_none) (\<lambda>metadata.
     res_bind (deterministicFilename identity) (\<lambda>chunkId.
     Inr \<lparr>rn_identity = identity, rn_chunkId = chunkId, rn_residentBytes = cm_uncompressedSize metadata, rn_level = level,
       rn_lifecycle = NodeLifecycle_create NL_resident, rn_mergeDistance = Some (if nodeCount > 1 then 1 else 0)\<rparr>)))))"

fun residentRecords ::
  "sse42 option \<Rightarrow> gmp \<Rightarrow> lz4 \<Rightarrow> ComputationIdentity \<Rightarrow> u32 \<Rightarrow> size_t \<Rightarrow> string set \<Rightarrow> BinaryNode list \<Rightarrow> ResidentMergeNode list result" where
  "residentRecords cpu g z computation level nodeCount identities [] = Inr []"
| "residentRecords cpu g z computation level nodeCount identities (node # nodes) =
     res_bind (residentRecord cpu g z computation level nodeCount node) (\<lambda>r.
     res_bind (throw_if (rn_chunkId r \<in> identities)
       (Invalid_argument ''merge coordinator received duplicate resident identity'')) (\<lambda>_.
     res_bind (residentRecords cpu g z computation level nodeCount (insert (rn_chunkId r) identities) nodes) (\<lambda>rest.
     Inr (r # rest))))"

fun retireNodes :: "os_env \<Rightarrow> sse42 option \<Rightarrow> ResidentMergeNode list \<Rightarrow> (storage_run, unit) paction" where
  "retireNodes env cpu [] = p_lift (st_return ())"
| "retireNodes env cpu (previous # rest) =
     p_bind (p_bind (p_lift (StorageManager_contains env (rn_identity previous))) (\<lambda>there.
       if there then StorageManager_remove env cpu (rn_identity previous) else p_lift (st_return True))) (\<lambda>gone.
     p_bind (p_lift (st_throw_if (\<not> gone) (Runtime_error ''cannot retire consumed spilled merge node''))) (\<lambda>_.
     retireNodes env cpu rest))"

definition coordinator_observe ::
  "os_env \<Rightarrow> sse42 option \<Rightarrow> gmp \<Rightarrow> lz4 \<Rightarrow> BinaryNode list \<Rightarrow> u32 \<Rightarrow> (merge_run, unit) paction" where
  "coordinator_observe env cpu g z nodes level =
     p_bind (\<lambda>s. Some (residentRecords cpu g z (mr_computation s) level (vec_size nodes) {} nodes, s)) (\<lambda>new.
     p_bind (\<lambda>s. on_storage (retireNodes env cpu (mr_residentNodes s)) s) (\<lambda>_.
     merge_do (\<lambda>s. publishProgress level (s\<lparr>mr_residentNodes := new\<rparr>))))"

text \<open>Changes of one record.\<close>

definition record_at :: "merge_run \<Rightarrow> nat \<Rightarrow> ResidentMergeNode" where
  "record_at s index = mr_residentNodes s ! index"

definition update_record :: "nat \<Rightarrow> (ResidentMergeNode \<Rightarrow> ResidentMergeNode) \<Rightarrow> merge_run \<Rightarrow> merge_run" where
  "update_record index f s = s\<lparr>mr_residentNodes := (mr_residentNodes s)[index := f (record_at s index)]\<rparr>"

definition record_step :: "nat \<Rightarrow> (NodeLifecycle \<Rightarrow> bool \<times> NodeLifecycle) \<Rightarrow> merge_run \<Rightarrow> bool \<times> merge_run" where
  "record_step index f s =
     (case f (rn_lifecycle (record_at s index)) of (done, l) \<Rightarrow> (done, update_record index (\<lambda>r. r\<lparr>rn_lifecycle := l\<rparr>) s))"

definition record_checked :: "nat \<Rightarrow> (NodeLifecycle \<Rightarrow> bool \<times> NodeLifecycle) \<Rightarrow> string \<Rightarrow> (merge_run, unit) paction" where
  "record_checked index f message s =
     (case record_step index f s of (done, s') \<Rightarrow> Some (throw_if (\<not> done) (Logic_error message), s'))"

text \<open>The body of the reload loop: its \<open>try\<close> block and its handler.\<close>

definition reloadNode ::
  "os_env \<Rightarrow> sse42 option \<Rightarrow> gmp \<Rightarrow> lz4 \<Rightarrow> u32 \<Rightarrow> nat \<Rightarrow> BinaryNode \<Rightarrow> (merge_run, BinaryNode) paction" where
  "reloadNode env cpu g z level index node =
     p_bind (\<lambda>s. on_storage (p_lift (StorageManager_load env cpu g z (rn_identity (record_at s index)))) s) (\<lambda>loaded.
     case loaded of
       None \<Rightarrow> p_bind (merge_do (\<lambda>s. snd (record_step index (failLoad False) s))) (\<lambda>_.
         p_lift (st_throw (Runtime_error ''spilled merge node is missing'')))
     | Some chunk \<Rightarrow>
         p_bind (p_lift (st_lift (toBinaryNode chunk))) (\<lambda>restored.
         p_bind (record_checked index completeLoad ''cannot complete spilled node load'') (\<lambda>_.
         p_bind (merge_do (\<lambda>s. publishProgress level (s\<lparr>mr_reloadCount := mr_reloadCount s + 1\<rparr>))) (\<lambda>_.
         p_lift (st_return (node\<lparr>node_P := GMPInteger_set (node_P node) (node_P restored),
           node_Q := GMPInteger_set (node_Q node) (node_Q restored), node_T := GMPInteger_set (node_T node) (node_T restored)\<rparr>))))))"

definition failLoading :: "nat \<Rightarrow> (merge_run, unit) action" where
  "failLoading index s =
     (Inr (), if nl_state (rn_lifecycle (record_at s index)) = NL_loading then snd (record_step index (failLoad True) s) else s)"

definition prepareNode ::
  "os_env \<Rightarrow> sse42 option \<Rightarrow> gmp \<Rightarrow> lz4 \<Rightarrow> u32 \<Rightarrow> nat \<Rightarrow> BinaryNode \<Rightarrow> (merge_run, BinaryNode) paction" where
  "prepareNode env cpu g z level index node =
     p_bind (merge_do (update_record index (\<lambda>r. r\<lparr>rn_mergeDistance := Some 0\<rparr>))) (\<lambda>_ s.
     if rn_level (record_at s index) \<noteq> level \<or> nl_state (rn_lifecycle (record_at s index)) \<noteq> NL_stored then Some (Inr node, s)
     else p_bind (record_checked index beginLoad ''cannot begin spilled node load'') (\<lambda>_.
       p_on_error (reloadNode env cpu g z level index node) (failLoading index)) s)"

fun prepareLoop ::
  "os_env \<Rightarrow> sse42 option \<Rightarrow> gmp \<Rightarrow> lz4 \<Rightarrow> u32 \<Rightarrow> nat list \<Rightarrow> BinaryNode list \<Rightarrow> (merge_run, BinaryNode list) paction" where
  "prepareLoop env cpu g z level [] nodes = p_lift (st_return nodes)"
| "prepareLoop env cpu g z level (index # rest) nodes =
     p_bind (prepareNode env cpu g z level index (nodes ! index)) (\<lambda>node.
     prepareLoop env cpu g z level rest (nodes[index := node]))"

definition coordinator_prepare ::
  "os_env \<Rightarrow> sse42 option \<Rightarrow> gmp \<Rightarrow> lz4 \<Rightarrow> BinaryNode list \<Rightarrow> u32 \<Rightarrow> (merge_run, BinaryNode list) paction" where
  "coordinator_prepare env cpu g z nodes level s =
     (if length nodes \<noteq> length (mr_residentNodes s)
      then Some (Inl (Logic_error ''merge coordinator resident set does not match merge nodes''), s)
      else prepareLoop env cpu g z level [0..<length nodes] nodes s)"

text \<open>Spilling one node: the chunk is stored, then the values are given up.\<close>

definition storeNode ::
  "os_env \<Rightarrow> sse42 option \<Rightarrow> gmp \<Rightarrow> lz4 \<Rightarrow> nat \<Rightarrow> BinaryNode \<Rightarrow> Chunk \<Rightarrow> (merge_run, BinaryNode) paction" where
  "storeNode env cpu g z index node chunk =
     p_bind (on_storage (StorageManager_store env cpu g z chunk)) (\<lambda>_.
     p_bind (merge_do (\<lambda>s. s\<lparr>mr_spillCount := mr_spillCount s + 1,
       mr_spilledBytes := mr_spilledBytes s + cm_storedSize (chunk_metadata chunk)\<rparr>)) (\<lambda>_.
     p_bind (record_checked index completeSpill ''cannot complete merge node spill'') (\<lambda>_.
     p_lift (st_return (clearValues node)))))"

definition failSpilling :: "nat \<Rightarrow> (merge_run, unit) action" where
  "failSpilling index s =
     (Inr (), if nl_state (rn_lifecycle (record_at s index)) = NL_spilling then snd (record_step index failSpill s) else s)"

definition spillNode ::
  "os_env \<Rightarrow> sse42 option \<Rightarrow> gmp \<Rightarrow> lz4 \<Rightarrow> u32 \<Rightarrow> nat \<Rightarrow> BinaryNode \<Rightarrow> (merge_run, BinaryNode) paction" where
  "spillNode env cpu g z level index node =
     p_bind (record_checked index beginSpill ''cannot begin merge node spill'') (\<lambda>_.
     p_bind (\<lambda>s. Some (toChunk cpu g z node (mr_computation s) level (sp_compression (sr_policy (mr_storage s))), s)) (\<lambda>chunk.
     p_on_error (storeNode env cpu g z index node chunk) (failSpilling index)))"

text \<open>The inner loop stops at the first record of the candidate that can be spilled.\<close>

definition spillIndex :: "gmp \<Rightarrow> string \<Rightarrow> u32 \<Rightarrow> BinaryNode list \<Rightarrow> merge_run \<Rightarrow> nat option" where
  "spillIndex g chunkId level nodes s =
     List.find (\<lambda>index. rn_chunkId (record_at s index) = chunkId \<and> rn_level (record_at s index) = level \<and> hasValues g (nodes ! index))
       [0..<length (mr_residentNodes s)]"

fun spillLoop ::
  "os_env \<Rightarrow> sse42 option \<Rightarrow> gmp \<Rightarrow> lz4 \<Rightarrow> u32 \<Rightarrow> EvictionCandidate list \<Rightarrow> BinaryNode list \<Rightarrow> (merge_run, BinaryNode list) paction" where
  "spillLoop env cpu g z level [] nodes = p_lift (st_return nodes)"
| "spillLoop env cpu g z level (candidate # rest) nodes =
     p_bind (\<lambda>s. case spillIndex g (ec_chunkId candidate) level nodes s of
         None \<Rightarrow> Some (Inr nodes, s)
       | Some index \<Rightarrow> p_bind (spillNode env cpu g z level index (nodes ! index)) (\<lambda>node.
           p_lift (st_return (nodes[index := node]))) s) (\<lambda>nodes.
     spillLoop env cpu g z level rest nodes)"

definition failAllSpilling :: "(merge_run, unit) action" where
  "failAllSpilling s =
     (Inr (), s\<lparr>mr_residentNodes := map (\<lambda>r. if nl_state (rn_lifecycle r) = NL_spilling
        then r\<lparr>rn_lifecycle := snd (failSpill (rn_lifecycle r))\<rparr> else r) (mr_residentNodes s)\<rparr>)"

definition coordinator_spill ::
  "os_env \<Rightarrow> sse42 option \<Rightarrow> gmp \<Rightarrow> lz4 \<Rightarrow> BinaryNode list \<Rightarrow> u32 \<Rightarrow> (merge_run, BinaryNode list) paction" where
  "coordinator_spill env cpu g z nodes level s =
     (if length nodes \<noteq> length (mr_residentNodes s)
      then Some (Inl (Logic_error ''merge coordinator resident set does not match spill nodes''), s)
      else
       (let current = merge_snapshot s;
            resident = map (\<lambda>r. (rn_chunkId r, rn_residentBytes r)) (mr_residentNodes s);
            residentSet = set (map rn_chunkId (mr_residentNodes s));
            mergeDistances = map_of (map (\<lambda>r. (rn_chunkId r, rn_mergeDistance r)) (mr_residentNodes s));
            neededBytes = snap_residentBytes current - snap_memoryBudgetBytes current
        in if snap_residentBytes current \<le> snap_memoryBudgetBytes current then Some (Inr nodes, s)
        else p_bind (on_storage (p_lift (storage_act
                 (planEvictions env (sr_policy (mr_storage s)) resident residentSet mergeDistances neededBytes)))) (\<lambda>plan.
             p_bind (p_lift (st_throw_if (\<not> ep_budgetSatisfied plan)
               (Runtime_error ''merge resident set cannot satisfy storage memory budget''))) (\<lambda>_.
             p_bind (p_on_error (spillLoop env cpu g z level (ep_candidates plan) nodes) failAllSpilling) (\<lambda>nodes.
             p_bind (merge_do (publishProgress level)) (\<lambda>_.
             p_lift (st_return nodes))))) s))"

text \<open>
  The overrides of \<open>BinaryMergeCoordinator\<close>.  An operation whose writes are interrupted forever does not
  return; \<open>interrupts_end\<close> excludes it.
\<close>

definition total_action :: "('s, 'a) paction \<Rightarrow> ('s, 'a) action" where
  "total_action m s = (case m s of Some result \<Rightarrow> result | None \<Rightarrow> (Inl (Runtime_error ''storage operation does not return''), s))"

definition storage_coordinator :: "os_env \<Rightarrow> sse42 option \<Rightarrow> gmp \<Rightarrow> lz4 \<Rightarrow> merge_run BinaryMergeCoordinator" where
  "storage_coordinator env cpu g z = \<lparr>
     observeResidentNodes = (\<lambda>nodes level. total_action (coordinator_observe env cpu g z nodes level)),
     prepareMergeNodes = (\<lambda>nodes level. total_action (coordinator_prepare env cpu g z nodes level)),
     spillAfterMergeLevel = (\<lambda>nodes level. total_action (coordinator_spill env cpu g z nodes level))\<rparr>"

section \<open>Chunks of nodes\<close>

lemma createMetadata_Inr:
  assumes "createMetadata cpu g z i p q t compression = Inr m"
  shows "cm_identity m = i" and "cm_compression m = compression" and "ChunkMetadata_validate m = Inr ()"
    and "compression = CompressionAlgorithm_none \<Longrightarrow> cm_storedSize m = cm_uncompressedSize m"
proof -
  obtain P codec stored m0 c where m: "CompressionCodecs_forAlgorithm z compression = Inr codec"
    "codec_compress codec P maxChunkPayloadBytes = Inr stored"
    "ChunkMetadata_create i (vec_size P) (vec_size stored) ChunkChecksumAlgorithm_crc32c 0 compression chunkFormatVersion = Inr m0"
    "m = m0\<lparr>cm_checksumValue := c\<rparr>"
    using assms by (auto simp: createMetadata_def res_bind_eq_Inr_iff)
  then show "cm_identity m = i" "cm_compression m = compression" "ChunkMetadata_validate m = Inr ()"
    by (auto simp: ChunkMetadata_create_def ChunkMetadata_validate_Inr Let_def res_bind_eq_Inr_iff)
  show "cm_storedSize m = cm_uncompressedSize m" if "compression = CompressionAlgorithm_none"
    using m that by (auto simp: CompressionCodecs_forAlgorithm_def NoneCompressionCodec_def ChunkMetadata_create_def Let_def res_bind_eq_Inr_iff)
qed

lemma encode_some:
  assumes "gmp_library g" and "values_fit c" and "cm_compression (chunk_metadata c) = CompressionAlgorithm_none \<Longrightarrow>
    cm_storedSize (chunk_metadata c) = cm_uncompressedSize (chunk_metadata c)"
  shows "ChunkCodec_encode cpu g z c \<noteq> None"
proof (cases "encodeSerialized g c")
  case (Inr r)
  then have r: "unat (cm_uncompressedSize (chunk_metadata c)) = length (chunk_payload g c)"
    "r = (serialized g (chunk_p c), serialized g (chunk_q c), serialized g (chunk_t c))"
    using encodeSerialized_fits [OF assms(1,2)] by auto
  then have "fillPayload z (chunk_metadata c) (serialized g (chunk_p c)) (serialized g (chunk_q c)) (serialized g (chunk_t c)) \<noteq> None"
    using assms(3) by (auto simp: fillPayload_def Let_def chunk_payload_def)
  then show ?thesis
    using Inr r(2) by (simp add: ChunkCodec_encode_def makeHeader_eq)
qed (simp add: ChunkCodec_encode_def)

definition node_identity :: "ComputationIdentity \<Rightarrow> u32 \<Rightarrow> BinaryNode \<Rightarrow> ChunkIdentity" where
  "node_identity computation level n =
     \<lparr>ci_computation = computation, ci_location = \<lparr>loc_start = node_start n, loc_end = node_end n, loc_treeLevel = level\<rparr>\<rparr>"

definition node_fits :: "BinaryNode \<Rightarrow> bool" where
  "node_fits n \<longleftrightarrow> gmp_fits (node_P n) \<and> gmp_fits (node_Q n) \<and> gmp_fits (node_T n)"

definition carries_node :: "Chunk \<Rightarrow> BinaryNode \<Rightarrow> bool" where
  "carries_node c n \<longleftrightarrow> chunk_p c = node_P n \<and> chunk_q c = node_Q n \<and> chunk_t c = node_T n"

lemma toChunk_Inr:
  assumes "gmp_library g" and "node_fits n" and "toChunk cpu g z n computation level compression = Inr c"
  shows "cm_identity (chunk_metadata c) = node_identity computation level n" and "carries_node c n" and "storable cpu g z c"
proof -
  obtain m where m: "createMetadata cpu g z (node_identity computation level n) (node_P n) (node_Q n) (node_T n) compression = Inr m"
    "c = \<lparr>chunk_metadata = m, chunk_p = node_P n, chunk_q = node_Q n, chunk_t = node_T n\<rparr>"
    using assms(3) by (auto simp: toChunk_def BlockLocation_create_def ChunkIdentity_create_def Let_def res_bind_eq_Inr_iff node_identity_def)
  note i = createMetadata_Inr [OF m(1)]
  show "cm_identity (chunk_metadata c) = node_identity computation level n" "carries_node c n"
    by (simp_all add: m(2) i carries_node_def)
  have fits: "values_fit c"
    using assms(2) by (simp add: m(2) values_fit_def node_fits_def)
  then show "storable cpu g z c"
    using encode_some [OF assms(1) fits, of cpu z] i(2,4) by (simp add: storable_def m(2))
qed

lemma toBinaryNode_Inr:
  "toBinaryNode c = Inr n \<Longrightarrow> node_P n = chunk_p c \<and> node_Q n = chunk_q c \<and> node_T n = chunk_t c"
  by (auto simp: toBinaryNode_def res_bind_eq_Inr_iff Let_def GMPInteger_set_def)

section \<open>The contract\<close>

text \<open>What a record says of its node, and where the node of the row is: in memory, or in the storage.\<close>

definition record_for :: "ComputationIdentity \<Rightarrow> u32 \<Rightarrow> BinaryNode \<Rightarrow> ResidentMergeNode \<Rightarrow> bool" where
  "record_for computation level n r \<longleftrightarrow> rn_identity r = node_identity computation level n \<and> rn_chunkId r = chunkName (rn_identity r)
     \<and> rn_level r = level"

definition node_kept :: "(ChunkIdentity \<Rightarrow> Chunk option) \<Rightarrow> ResidentMergeNode \<Rightarrow> BinaryNode \<Rightarrow> BinaryNode \<Rightarrow> bool" where
  "node_kept h r n x \<longleftrightarrow>
     (case nl_state (rn_lifecycle r) of
        NL_resident \<Rightarrow> x = n
      | NL_stored \<Rightarrow> x = clearValues n \<and> (\<exists>c. h (rn_identity r) = Some c \<and> carries_node c n)
      | _ \<Rightarrow> False)"

definition rows_kept ::
  "(ChunkIdentity \<Rightarrow> Chunk option) \<Rightarrow> ComputationIdentity \<Rightarrow> ResidentMergeNode list \<Rightarrow> u32 \<Rightarrow> BinaryNode list \<Rightarrow> BinaryNode list \<Rightarrow> bool" where
  "rows_kept h computation records level row nodes \<longleftrightarrow> length records = length row \<and> length nodes = length row
     \<and> distinct (map rn_identity records) \<and> (\<forall>k < length row. record_for computation level (row ! k) (records ! k)
       \<and> node_fits (row ! k) \<and> node_kept h (records ! k) (row ! k) (nodes ! k))"

abbreviation merge_holds :: "sse42 option \<Rightarrow> gmp \<Rightarrow> lz4 \<Rightarrow> merge_run \<Rightarrow> u32 \<Rightarrow> BinaryNode list \<Rightarrow> BinaryNode list \<Rightarrow> bool" where
  "merge_holds cpu g z s level row nodes \<equiv>
     rows_kept (held cpu g z (mr_storage s)) (mr_computation s) (mr_residentNodes s) level row nodes"

definition merge_inv :: "os_env \<Rightarrow> gmp \<Rightarrow> lz4 \<Rightarrow> StoragePolicy \<Rightarrow> merge_run \<Rightarrow> bool" where
  "merge_inv env g z policy s \<longleftrightarrow> storage_ready env g z policy (mr_storage s) \<and> id_termCount (mr_computation s) \<le> 2 ^ 50"

text \<open>One record and one node change together, and the storage only for this record.\<close>

lemma rows_kept_update:
  assumes "rows_kept h computation records level row nodes" and "k < length row"
    and "rn_identity r = rn_identity (records ! k)" "rn_chunkId r = rn_chunkId (records ! k)" "rn_level r = rn_level (records ! k)"
    and "node_kept h' r (row ! k) x" and "\<And>i. i \<noteq> rn_identity (records ! k) \<Longrightarrow> h' i = h i"
  shows "rows_kept h' computation (records[k := r]) level row (nodes[k := x])"
proof -
  have len: "length records = length row" "length nodes = length row" and dist: "distinct (map rn_identity records)"
    using assms(1) by (simp_all add: rows_kept_def)
  have ids: "map rn_identity (records[k := r]) = map rn_identity records"
    by (rule nth_equalityI) (use assms(2,3) len in \<open>simp_all add: nth_list_update\<close>)
  have kept: "node_kept h' (records ! j) (row ! j) (nodes ! j)" if "j < length row" "j \<noteq> k" for j
  proof -
    have "rn_identity (records ! j) \<noteq> rn_identity (records ! k)"
      using dist that assms(2) len by (simp add: distinct_conv_nth)
    moreover have "node_kept h (records ! j) (row ! j) (nodes ! j)"
      using assms(1) that by (simp add: rows_kept_def)
    ultimately show ?thesis
      using assms(7) by (simp add: node_kept_def split: NodeLifecycleState.splits)
  qed
  show ?thesis
    unfolding rows_kept_def
  proof (intro conjI allI impI)
    fix j assume j: "j < length row"
    have j0: "record_for computation level (row ! j) (records ! j) \<and> node_fits (row ! j)"
      using assms(1) j by (simp add: rows_kept_def)
    then show "record_for computation level (row ! j) (records[k := r] ! j)" "node_fits (row ! j)"
      using assms(2-5) len j by (cases "j = k"; simp add: record_for_def)+
    show "node_kept h' (records[k := r] ! j) (row ! j) (nodes[k := x] ! j)"
      using kept [OF j] assms(6) j len by (cases "j = k") simp_all
  qed (use len dist ids in simp_all)
qed

lemma merge_run_sel [simp]:
  "mr_storage (publishProgress level s) = mr_storage s" "mr_computation (publishProgress level s) = mr_computation s"
  "mr_residentNodes (publishProgress level s) = mr_residentNodes s"
  "mr_storage (update_record k f s) = mr_storage s" "mr_computation (update_record k f s) = mr_computation s"
  "mr_residentNodes (update_record k f s) = (mr_residentNodes s)[k := f (mr_residentNodes s ! k)]"
  by (simp_all add: publishProgress_def update_record_def record_at_def Let_def split: option.split)

lemma merge_inv_frame:
  "mr_storage s' = mr_storage s \<Longrightarrow> mr_computation s' = mr_computation s \<Longrightarrow> merge_inv env g z policy s' = merge_inv env g z policy s"
  by (simp add: merge_inv_def)

lemma p_post_on_storage [simp]: "p_post (on_storage m) s Q = p_post m (mr_storage s) (\<lambda>r x. Q r (s\<lparr>mr_storage := x\<rparr>))"
  by (auto simp: p_post_def on_storage_def split: option.splits)

lemma p_post_merge_do [simp]: "p_post (merge_do f) s Q = Q (Inr ()) (f s)"
  by (simp add: p_post_def merge_do_def)

lemma p_post_pure [simp]: "p_post (\<lambda>s. Some (f s, s)) s Q = Q (f s) s"
  by (simp add: p_post_def)

lemma p_post_if [simp]:
  "p_post (\<lambda>s. if c s then m s else n s) s Q = (if c s then p_post m s Q else p_post n s Q)"
  by (simp add: p_post_def)

lemma record_step_eq:
  "record_step k f s = (fst (f (rn_lifecycle (mr_residentNodes s ! k))),
     update_record k (\<lambda>r. r\<lparr>rn_lifecycle := snd (f (rn_lifecycle (mr_residentNodes s ! k)))\<rparr>) s)"
  by (simp add: record_step_def record_at_def case_prod_unfold)

lemma p_post_record_checked [simp]:
  "p_post (record_checked k f message) s Q = (let l = f (rn_lifecycle (mr_residentNodes s ! k)) in
     Q (throw_if (\<not> fst l) (Logic_error message)) (update_record k (\<lambda>r. r\<lparr>rn_lifecycle := snd l\<rparr>) s))"
  by (simp add: p_post_def record_checked_def record_step_eq Let_def)

lemma handlers_frame:
  "st_post (failLoading k) s (\<lambda>_ s'. mr_storage s' = mr_storage s \<and> mr_computation s' = mr_computation s)"
  "st_post (failSpilling k) s (\<lambda>_ s'. mr_storage s' = mr_storage s \<and> mr_computation s' = mr_computation s)"
  "st_post failAllSpilling s (\<lambda>_ s'. mr_storage s' = mr_storage s \<and> mr_computation s' = mr_computation s)"
  by (simp_all add: st_post_def failLoading_def failSpilling_def failAllSpilling_def record_step_eq)

lemma handled_post:
  assumes "p_post m s (\<lambda>r s'. merge_inv env g z policy s' \<and> (\<forall>x. r = Inr x \<longrightarrow> Q x s'))"
    and "\<And>s. st_post h s (\<lambda>_ s'. mr_storage s' = mr_storage s \<and> mr_computation s' = mr_computation s)"
  shows "p_post (p_on_error m h) s (\<lambda>r s'. merge_inv env g z policy s' \<and> (\<forall>x. r = Inr x \<longrightarrow> Q x s'))"
  unfolding p_post_on_error
proof (rule p_post_mono [OF assms(1)], goal_cases)
  case (1 r s')
  then have "st_post h s' (\<lambda>_ u. merge_inv env g z policy u)"
    by (intro st_post_mono [OF assms(2) [of s']]) (simp add: merge_inv_def)
  then show ?case
    using 1 by (cases r) simp_all
qed

text \<open>A node is given up only when its chunk is held.\<close>

lemma spillNode_post:
  assumes inv: "merge_inv env g z policy s" and kept: "merge_holds cpu g z s level row nodes" and k: "k < length row"
    and vals: "hasValues g (nodes ! k)"
  shows "p_post (spillNode env cpu g z level k (nodes ! k)) s
    (\<lambda>r s'. merge_inv env g z policy s' \<and> (\<forall>x. r = Inr x \<longrightarrow> merge_holds cpu g z s' level row (nodes[k := x])))"
    (is "p_post _ s ?Q")
proof -
  let ?r = "mr_residentNodes s ! k" and ?l = "rn_lifecycle (mr_residentNodes s ! k)"
  have ready: "storage_ready env g z policy (mr_storage s)" and g: "gmp_library g"
    using inv by (simp_all add: merge_inv_def storage_ready_def)
  have kr: "record_for (mr_computation s) level (row ! k) ?r" "node_fits (row ! k)" "node_kept (held cpu g z (mr_storage s)) ?r (row ! k) (nodes ! k)"
    and len: "length (mr_residentNodes s) = length row"
    using kept k by (simp_all add: rows_kept_def)
  have res: "nl_state ?l = NL_resident" "nodes ! k = row ! k"
    using kr(3) vals gmp_library.not_hasValues_clear [OF g] by (auto simp: node_kept_def split: NodeLifecycleState.splits)
  let ?s1 = "update_record k (\<lambda>r. r\<lparr>rn_lifecycle := snd (beginSpill ?l)\<rparr>) s"
  let ?chunk = "toChunk cpu g z (row ! k) (mr_computation s) level (sp_compression (sr_policy (mr_storage s)))"
  have store: "p_post (storeNode env cpu g z k (row ! k) c) ?s1 ?Q" if c: "?chunk = Inr c" for c
  proof -
    note tc = toChunk_Inr [OF g kr(2) c]
    have i: "cm_identity (chunk_metadata c) = rn_identity ?r"
      using tc(1) kr(1) by (simp add: record_for_def)
    have st: "p_post (StorageManager_store env cpu g z c) (mr_storage ?s1) (\<lambda>r x. storage_ready env g z policy x \<and>
        held cpu g z x = (case r of Inl _ \<Rightarrow> held cpu g z (mr_storage s) | Inr _ \<Rightarrow> (held cpu g z (mr_storage s))(rn_identity ?r \<mapsto> c)))"
      using repository.store [OF ready tc(3)] unfolding i by simp
    show ?thesis
      unfolding storeNode_def p_post_bind p_post_on_storage
    proof (rule p_post_mono [OF st], goal_cases)
      case (1 r x)
      show ?case
      proof (cases r)
        case (Inl e)
        then show ?thesis
          using 1 inv by (simp add: merge_inv_def)
      next
        case (Inr name)
        let ?r' = "?r\<lparr>rn_lifecycle := snd (completeSpill (snd (beginSpill ?l)))\<rparr>"
        have "rows_kept (held cpu g z x) (mr_computation s) ((mr_residentNodes s)[k := ?r']) level row (nodes[k := clearValues (row ! k)])"
          using 1 Inr tc(2) res by (intro rows_kept_update [OF kept k]) (simp_all add: node_kept_def lifecycle_defs)
        then show ?thesis
          using 1 inv Inr res(1) k len by (simp add: merge_inv_def lifecycle_defs Let_def throw_if_def)
      qed
    qed
  qed
  show ?thesis
  proof (cases ?chunk)
    case (Inl e)
    then show ?thesis
      unfolding spillNode_def using res inv by (simp add: lifecycle_defs Let_def throw_if_def merge_inv_def)
  next
    case (Inr c)
    have "p_post (p_on_error (storeNode env cpu g z k (row ! k) c) (failSpilling k)) ?s1 ?Q"
      by (rule handled_post [OF store [OF Inr] handlers_frame(2)])
    then show ?thesis
      unfolding spillNode_def using res Inr by (simp add: lifecycle_defs Let_def throw_if_def)
  qed
qed

lemma spillLoop_post:
  "merge_inv env g z policy s \<Longrightarrow> merge_holds cpu g z s level row nodes \<Longrightarrow>
   p_post (spillLoop env cpu g z level candidates nodes) s
     (\<lambda>r s'. merge_inv env g z policy s' \<and> (\<forall>ns. r = Inr ns \<longrightarrow> merge_holds cpu g z s' level row ns))"
proof (induction candidates arbitrary: nodes s)
  case (Cons c candidates)
  let ?Q = "\<lambda>r s'. merge_inv env g z policy s' \<and> (\<forall>ns. r = Inr ns \<longrightarrow> merge_holds cpu g z s' level row ns)"
  have len: "length (mr_residentNodes s) = length row"
    using Cons.prems(2) by (simp add: rows_kept_def)
  let ?first = "\<lambda>s. case spillIndex g (ec_chunkId c) level nodes s of None \<Rightarrow> Some (Inr nodes, s)
       | Some index \<Rightarrow> p_bind (spillNode env cpu g z level index (nodes ! index)) (\<lambda>node. p_lift (st_return (nodes[index := node]))) s"
  have "p_post ?first s ?Q"
  proof (cases "spillIndex g (ec_chunkId c) level nodes s")
    case None
    then show ?thesis
      using Cons.prems by (simp add: p_post_def)
  next
    case (Some k)
    then have k: "k < length row" "hasValues g (nodes ! k)"
      using len by (auto simp: spillIndex_def find_Some_iff)
    have "p_post (p_bind (spillNode env cpu g z level k (nodes ! k)) (\<lambda>node. p_lift (st_return (nodes[k := node])))) s ?Q"
      unfolding p_post_bind by (rule p_post_mono [OF spillNode_post [OF Cons.prems k]]) (simp split: sum.split)
    then show ?thesis
      using Some by (simp add: p_post_def)
  qed
  then show ?case
    unfolding spillLoop.simps p_post_bind
  proof (rule p_post_mono, goal_cases)
    case (1 r s')
    then show ?case
      using Cons.IH by (cases r) simp_all
  qed
qed simp

lemma coordinator_spill_post:
  assumes inv: "merge_inv env g z policy s" and kept: "merge_holds cpu g z s level row row"
  shows "p_post (coordinator_spill env cpu g z row level) s
    (\<lambda>r s'. merge_inv env g z policy s' \<and> (\<forall>ns. r = Inr ns \<longrightarrow> merge_holds cpu g z s' level row ns))"
    (is "p_post _ s ?Q")
proof -
  have len: "length row = length (mr_residentNodes s)"
    using kept by (simp add: rows_kept_def)
  have ready: "storage_inv policy (mr_storage s)"
    using inv by (simp add: merge_inv_def storage_ready_def)
  have spill: "p_post (p_bind (on_storage (p_lift (storage_act (planEvictions env (sr_policy (mr_storage s)) resident ids distances needed)))) (\<lambda>plan.
      p_bind (p_lift (st_throw_if (\<not> ep_budgetSatisfied plan) e)) (\<lambda>_.
      p_bind (p_on_error (spillLoop env cpu g z level (ep_candidates plan) row) failAllSpilling) (\<lambda>nodes.
      p_bind (merge_do (publishProgress level)) (\<lambda>_. p_lift (st_return nodes)))))) s ?Q" for resident ids distances needed e
  proof -
    obtain r x where x: "planEvictions env (sr_policy (mr_storage s)) resident ids distances needed (sr_os (mr_storage s)) = (r, x)"
      by (cases "planEvictions env (sr_policy (mr_storage s)) resident ids distances needed (sr_os (mr_storage s))")
    have "quiet (sr_os (mr_storage s)) x"
      using planEvictions_post [of env "sr_policy (mr_storage s)" resident ids distances needed "sr_os (mr_storage s)"] x
      by (simp add: st_post_def)
    then have q: "storage_inv policy ((mr_storage s)\<lparr>sr_os := x\<rparr>)" "held cpu g z ((mr_storage s)\<lparr>sr_os := x\<rparr>) = held cpu g z (mr_storage s)"
      using held_quiet [OF ready] by blast+
    let ?s = "s\<lparr>mr_storage := (mr_storage s)\<lparr>sr_os := x\<rparr>\<rparr>"
    have s': "merge_inv env g z policy ?s" "merge_holds cpu g z ?s level row row"
      using inv kept q by (simp_all add: merge_inv_def storage_ready_def)
    have "p_post (p_on_error (spillLoop env cpu g z level cs row) failAllSpilling) ?s ?Q" for cs
      by (rule handled_post [OF spillLoop_post [OF s'] handlers_frame(3)])
    then have loop: "p_post (p_bind (p_on_error (spillLoop env cpu g z level cs row) failAllSpilling) (\<lambda>nodes.
        p_bind (merge_do (publishProgress level)) (\<lambda>_. p_lift (st_return nodes)))) ?s ?Q" for cs
      unfolding p_post_bind by (rule p_post_mono) (simp add: merge_inv_def split: sum.split)
    have run: "st_post (planEvictions env (sr_policy (mr_storage s)) resident ids distances needed) (sr_os (mr_storage s)) R = R r x" for R
      by (simp add: st_post_def x)
    show ?thesis
      unfolding p_post_bind [of "on_storage m" for m] p_post_on_storage p_post_lift st_post_storage_act run
        p_post_bind [of "p_lift m" for m] st_post_throw_if
      using s'(1) loop by (cases r) (simp_all add: throw_if_def del: p_post_bind)
  qed
  show ?thesis
  proof (cases "snap_residentBytes (merge_snapshot s) \<le> snap_memoryBudgetBytes (merge_snapshot s)")
    case True
    then show ?thesis
      using assms len by (simp add: p_post_def coordinator_spill_def Let_def)
  next
    case False
    then show ?thesis
      using spill len by (simp add: p_post_def coordinator_spill_def Let_def)
  qed
qed

text \<open>A node that was given up comes back from the storage as it was.\<close>

lemma restored_eq:
  assumes "carries_node c n" and "toBinaryNode c = Inr m"
  shows "(clearValues n)\<lparr>node_P := GMPInteger_set a (node_P m), node_Q := GMPInteger_set b (node_Q m), node_T := GMPInteger_set d (node_T m)\<rparr> = n"
  using assms(1) toBinaryNode_Inr [OF assms(2)] by (cases n) (simp add: carries_node_def clearValues_def GMPInteger_set_def)

lemma prepareNode_post:
  assumes inv: "merge_inv env g z policy s" and kept: "merge_holds cpu g z s level row nodes" and k: "k < length row"
  shows "p_post (prepareNode env cpu g z level k (nodes ! k)) s
    (\<lambda>r s'. merge_inv env g z policy s' \<and> (\<forall>x. r = Inr x \<longrightarrow> merge_holds cpu g z s' level row (nodes[k := x]) \<and> x = row ! k))"
    (is "p_post _ s ?Q")
proof -
  let ?r = "mr_residentNodes s ! k" and ?l = "rn_lifecycle (mr_residentNodes s ! k)" and ?h = "held cpu g z (mr_storage s)"
  let ?s0 = "update_record k (\<lambda>r. r\<lparr>rn_mergeDistance := Some 0\<rparr>) s"
  have ready: "storage_ready env g z policy (mr_storage s)"
    using inv by (simp add: merge_inv_def)
  have kr: "record_for (mr_computation s) level (row ! k) ?r" "node_kept ?h ?r (row ! k) (nodes ! k)"
    and len: "length (mr_residentNodes s) = length row" "length nodes = length row"
    using kept k by (simp_all add: rows_kept_def)
  then consider "nl_state ?l = NL_resident" "nodes ! k = row ! k"
    | c where "nl_state ?l = NL_stored" "nodes ! k = clearValues (row ! k)" "?h (rn_identity ?r) = Some c" "carries_node c (row ! k)"
    by (auto simp: node_kept_def split: NodeLifecycleState.splits)
  then show ?thesis
  proof cases
    case 1
    have "rows_kept ?h (mr_computation s) ((mr_residentNodes s)[k := ?r\<lparr>rn_mergeDistance := Some 0\<rparr>]) level row (nodes[k := nodes ! k])"
      using 1 by (intro rows_kept_update [OF kept k]) (simp_all add: node_kept_def)
    then show ?thesis
      using 1 inv k len by (simp add: prepareNode_def record_at_def merge_inv_def)
  next
    case (2 c)
    let ?s1 = "update_record k (\<lambda>r. r\<lparr>rn_lifecycle := snd (beginLoad ?l)\<rparr>) ?s0"
    have load: "p_post (\<lambda>s. on_storage (p_lift (StorageManager_load env cpu g z (rn_identity (record_at s k)))) s) ?s1 R
        = st_post (StorageManager_load env cpu g z (rn_identity ?r)) (mr_storage s) (\<lambda>r x. R r (?s1\<lparr>mr_storage := x\<rparr>))" for R
      using p_post_on_storage [of "p_lift (StorageManager_load env cpu g z (rn_identity ?r))" ?s1 R]
      using k len unfolding p_post_lift by (simp add: p_post_def record_at_def)
    have "p_post (reloadNode env cpu g z level k (nodes ! k)) ?s1 ?Q"
      unfolding reloadNode_def p_post_bind load
    proof (rule st_post_mono [OF repository.load [OF ready, of cpu "rn_identity ?r"]], goal_cases)
      case (1 r x)
      have inv1: "merge_inv env g z policy (?s1\<lparr>mr_storage := x\<rparr>)"
        using 1 inv by (simp add: merge_inv_def)
      show ?case
      proof (cases r)
        case (Inr loaded)
        show ?thesis
        proof (cases loaded)
          case None
          then show ?thesis
            using Inr inv1 by (simp add: record_step_eq merge_inv_def)
        next
          case (Some c')
          then have c': "c' = c"
            using 1 Inr 2(3) by simp
          let ?r' = "?r\<lparr>rn_mergeDistance := Some 0, rn_lifecycle := snd (completeLoad (snd (beginLoad ?l)))\<rparr>"
          have kept': "rows_kept (held cpu g z x) (mr_computation s) ((mr_residentNodes s)[k := ?r']) level row (nodes[k := row ! k])"
            using 1 2(1) by (intro rows_kept_update [OF kept k]) (simp_all add: node_kept_def lifecycle_defs)
          show ?thesis
          proof (cases "toBinaryNode c")
            case (Inl e)
            then show ?thesis
              using Inr Some c' inv1 by simp
          next
            case Inr': (Inr m)
            show ?thesis
              using Inr Some c' inv1 Inr' kept' 2(1,2) k len restored_eq [OF 2(4) Inr']
              by (simp add: lifecycle_defs Let_def throw_if_def merge_inv_def)
          qed
        qed
      qed (use inv1 in simp)
    qed
    then have "p_post (p_on_error (reloadNode env cpu g z level k (nodes ! k)) (failLoading k)) ?s1 ?Q"
      by (rule handled_post [OF _ handlers_frame(1)])
    then show ?thesis
      using 2 k len kr(1) by (simp add: prepareNode_def record_for_def record_at_def lifecycle_defs throw_if_def Let_def)
  qed
qed

lemma prepareLoop_post:
  "merge_inv env g z policy s \<Longrightarrow> merge_holds cpu g z s level row nodes \<Longrightarrow> set ks \<subseteq> {..<length row} \<Longrightarrow>
   p_post (prepareLoop env cpu g z level ks nodes) s (\<lambda>r s'. merge_inv env g z policy s' \<and>
     (\<forall>ns. r = Inr ns \<longrightarrow> length ns = length row \<and> (\<forall>k < length row. k \<in> set ks \<or> nodes ! k = row ! k \<longrightarrow> ns ! k = row ! k)))"
proof (induction ks arbitrary: nodes s)
  case Nil
  then show ?case
    by (simp add: rows_kept_def)
next
  case (Cons k ks)
  have k: "k < length row" and len: "length nodes = length row"
    using Cons.prems(2,3) by (simp_all add: rows_kept_def)
  show ?case
    unfolding prepareLoop.simps p_post_bind
  proof (rule p_post_mono [OF prepareNode_post [OF Cons.prems(1,2) k]], goal_cases)
    case (1 r s')
    show ?case
    proof (cases r)
      case (Inr x)
      then have "merge_inv env g z policy s'" "merge_holds cpu g z s' level row (nodes[k := row ! k])" "x = row ! k"
        using 1 by auto
      then show ?thesis
        using Inr Cons.prems(3) k len
        by (auto simp: nth_list_update elim!: p_post_mono [OF Cons.IH [of s' "nodes[k := row ! k]"]])
    qed (use 1 in simp)
  qed
qed

lemma coordinator_prepare_post:
  assumes inv: "merge_inv env g z policy s" and kept: "merge_holds cpu g z s level row nodes"
  shows "p_post (coordinator_prepare env cpu g z nodes level) s (\<lambda>r s'. merge_inv env g z policy s' \<and> (\<forall>ns. r = Inr ns \<longrightarrow> ns = row))"
proof -
  have len: "length (mr_residentNodes s) = length row" "length nodes = length row"
    using kept by (simp_all add: rows_kept_def)
  have "p_post (prepareLoop env cpu g z level [0..<length nodes] nodes) s (\<lambda>r s'. merge_inv env g z policy s' \<and> (\<forall>ns. r = Inr ns \<longrightarrow> ns = row))"
  proof (rule p_post_mono [OF prepareLoop_post [OF assms]])
    show "set [0..<length nodes] \<subseteq> {..<length row}"
      using len by auto
  qed (use len in \<open>auto intro: nth_equalityI\<close>)
  then show ?thesis
    using len by (simp add: coordinator_prepare_def [abs_def])
qed

section \<open>Observing a level\<close>

lemma residentRecord_Inr:
  assumes "residentRecord cpu g z computation level nodeCount n = Inr r"
  shows "record_for computation level n r" and "nl_state (rn_lifecycle r) = NL_resident" and "node_end n \<le> id_termCount computation"
  using assms by (auto simp: residentRecord_def BlockLocation_create_def ChunkIdentity_create_def Let_def res_bind_eq_Inr_iff deterministicFilename_Inr
      record_for_def node_identity_def lifecycle_defs BlockLocation_validate_Inr)

lemma residentRecords_Inr:
  "residentRecords cpu g z computation level nodeCount ids row = Inr rs \<Longrightarrow> length rs = length row
     \<and> (\<forall>k < length row. record_for computation level (row ! k) (rs ! k) \<and> nl_state (rn_lifecycle (rs ! k)) = NL_resident
          \<and> node_end (row ! k) \<le> id_termCount computation)
     \<and> distinct (map rn_chunkId rs) \<and> set (map rn_chunkId rs) \<inter> ids = {}"
proof (induction row arbitrary: ids rs)
  case (Cons n row)
  obtain r rest where r: "residentRecord cpu g z computation level nodeCount n = Inr r" "rn_chunkId r \<notin> ids"
    "residentRecords cpu g z computation level nodeCount (insert (rn_chunkId r) ids) row = Inr rest" "rs = r # rest"
    using Cons.prems by (auto simp: res_bind_eq_Inr_iff)
  note rest = Cons.IH [OF r(3)]
  have "record_for computation level ((n # row) ! k) (rs ! k) \<and> nl_state (rn_lifecycle (rs ! k)) = NL_resident
      \<and> node_end ((n # row) ! k) \<le> id_termCount computation" if "k < length (n # row)" for k
    using that rest residentRecord_Inr [OF r(1)] by (cases k) (simp_all add: r(4))
  then show ?case
    using rest r(2) by (auto simp: r(4))
qed simp

lemma contiguous_nodes:
  assumes "contiguous a b row" and "n \<in> set row"
  shows "\<exists>x y. x < y \<and> y \<le> b \<and> n = pqt_node x y"
proof -
  obtain bs where bs: "bs \<noteq> []" "last bs = b" "sorted_wrt (<) bs" "row = row_of pqt_node bs"
    using assms(1) by (auto simp: contiguous_def)
  have "\<exists>x y. x < y \<and> y \<in> set bs \<and> n = pqt_node x y"
    using bs(3) assms(2) unfolding bs(4) by (induction pqt_node bs rule: row_of.induct) auto
  then show ?thesis
    using contiguous_bounds(2) [OF bs(3,1)] bs(2) by blast
qed

lemma retireNodes_post:
  "storage_ready env g z policy s \<Longrightarrow> p_post (retireNodes env cpu rs) s (\<lambda>r s'. storage_ready env g z policy s')"
proof (induction rs arbitrary: s)
  case (Cons r rs)
  show ?case
    unfolding retireNodes.simps p_post_bind [of "p_bind m f" for m f]
  proof (rule p_post_mono [OF repository.remove_if_contained [OF Cons.prems]], goal_cases)
    case (1 x s')
    then show ?case
      using Cons.IH [of s'] by (cases x) (simp_all add: throw_if_def)
  qed
qed simp

lemma observed_kept:
  assumes g: "gmp_library g" and row: "contiguous a b row" "b < 2 ^ 64" and terms: "id_termCount computation \<le> 2 ^ 50"
    and rs: "residentRecords cpu g z computation level nodeCount {} row = Inr rs"
  shows "rows_kept h computation rs level row row"
proof -
  note r = residentRecords_Inr [OF rs]
  have ids: "map rn_chunkId rs = map chunkName (map rn_identity rs)"
    unfolding map_map by (rule nth_equalityI) (use r in \<open>simp_all add: record_for_def\<close>)
  then have "distinct (map rn_identity rs)"
    using r by (metis distinct_map)
  moreover have "node_fits (row ! k)" if k: "k < length row" for k
  proof -
    obtain x y where n: "x < y" "y \<le> b" "row ! k = pqt_node x y"
      using contiguous_nodes [OF row(1)] k nth_mem by metis
    have "of_nat y \<le> id_termCount computation"
      using r k n(3) by (auto simp: pqt_node_def)
    then have "(of_nat y :: u64) \<le> 2 ^ 50"
      using terms by (rule order.trans)
    then have "y \<le> 2 ^ 50"
      using n(2) row(2) by (simp add: word_le_nat_alt unat_of_nat)
    then show ?thesis
      using range_fits [OF g _ n(1)] by (simp add: n(3) node_fits_def pqt_node_def block_fits_def)
  qed
  ultimately show ?thesis
    using r by (simp add: rows_kept_def node_kept_def)
qed

lemma coordinator_observe_post:
  assumes inv: "merge_inv env g z policy s" and row: "contiguous a b row" "b < 2 ^ 64"
  shows "p_post (coordinator_observe env cpu g z row level) s
    (\<lambda>r s'. merge_inv env g z policy s' \<and> (r = Inr () \<longrightarrow> merge_holds cpu g z s' level row row))" (is "p_post _ s ?Q")
proof (cases "residentRecords cpu g z (mr_computation s) level (vec_size row) {} row")
  case (Inl e)
  then show ?thesis
    using inv by (simp add: coordinator_observe_def)
next
  case (Inr rs)
  have ready: "storage_ready env g z policy (mr_storage s)" and g: "gmp_library g" and terms: "id_termCount (mr_computation s) \<le> 2 ^ 50"
    using inv by (simp_all add: merge_inv_def storage_ready_def)
  let ?rest = "p_bind (on_storage (retireNodes env cpu (mr_residentNodes s)))
    (\<lambda>_. merge_do (\<lambda>s. publishProgress level (s\<lparr>mr_residentNodes := rs\<rparr>)))"
  have "p_post ?rest s ?Q"
    unfolding p_post_bind p_post_on_storage
    by (rule p_post_mono [OF retireNodes_post [OF ready]])
      (use inv observed_kept [OF g row terms Inr] in \<open>simp add: merge_inv_def split: sum.split\<close>)
  moreover have "coordinator_observe env cpu g z row level s = ?rest s"
    by (simp add: coordinator_observe_def p_bind_def Inr)
  ultimately show ?thesis
    by (simp add: p_post_def)
qed

section \<open>The coordinator in a split\<close>

lemma total_action_ok:
  "p_post m s (\<lambda>r s'. \<forall>x. r = Inr x \<longrightarrow> Q x s') \<Longrightarrow> st_ok (\<lambda>_. True) (total_action m) s Q"
  by (auto simp: p_post_def st_ok_def total_action_def split: option.splits sum.splits)

interpretation storage_merge: merge_coordinator "Some (storage_coordinator env cpu g z)" "\<lambda>_. True"
  "merge_inv env g z policy" "merge_holds cpu g z"
proof
  fix m a b row level c nodes
  assume m: "Some (storage_coordinator env cpu g z) = Some m" and row: "contiguous a b row" "b < 2 ^ 64" and inv: "merge_inv env g z policy c"
  show "st_ok (\<lambda>_. True) (observeResidentNodes m row level) c (\<lambda>_ c'. merge_inv env g z policy c' \<and> merge_holds cpu g z c' level row row)"
    using m coordinator_observe_post [OF inv row, of cpu level]
    by (auto simp: storage_coordinator_def intro!: total_action_ok elim!: p_post_mono)
  show "st_ok (\<lambda>_. True) (spillAfterMergeLevel m row level) c
      (\<lambda>nodes c'. length nodes = length row \<and> merge_inv env g z policy c' \<and> merge_holds cpu g z c' level row nodes)"
    if "merge_holds cpu g z c level row row"
    using m coordinator_spill_post [OF inv that]
    by (auto simp: storage_coordinator_def rows_kept_def intro!: total_action_ok elim!: p_post_mono)
  show "st_ok (\<lambda>_. True) (prepareMergeNodes m nodes level) c (\<lambda>nodes' c'. nodes' = row \<and> merge_inv env g z policy c')"
    if "merge_holds cpu g z c level row nodes"
    using m coordinator_prepare_post [OF inv that]
    by (auto simp: storage_coordinator_def intro!: total_action_ok elim!: p_post_mono)
qed

section \<open>Properties\<close>

text \<open>
  C31: A split that moves nodes to disk computes what the sequential split computes.  For every
  scheduler, every accepted frontier of correct seeds, every memory budget and every behaviour of the
  file system, the split with the storage coordinator returns; a result is the node of the sequential
  split, whatever was written out and read back on the way; and the storage and its index are well
  formed at the end.
\<close>

theorem out_of_core_split_correct:
  assumes coord: "env_coordinator env = Some (storage_coordinator oenv cpu g z)"
    and check: "checkpoint_coordinator (env_checkpoint env) (\<lambda>_. True) saved" and ex: "executor_ok ex" and range: "s < e"
    and opts: "sequentialCutoff options \<noteq> 0" "tasksPerWorker options \<noteq> 0"
    and seeds: "sortAndValidateFrontier g frontier s e = Inr seeds" "seeds_ok seeds"
    and start: "merge_inv oenv g z policy (st_coordinator st)" "saved (unat s) (unat e) (st_checkpoint st)"
  shows "\<exists>r st'. splitParallel g ex options env s e frontier st = Some (r, st')
    \<and> (\<forall>node. r = Inr node \<longrightarrow> splitSequential g s e = Some (Inr node)
         \<and> saved (unat s) (unat e) (st_checkpoint st') \<and> storage_inv policy (mr_storage (st_coordinator st')))"
proof -
  have g: "gmp_library g"
    using start(1) by (simp add: merge_inv_def storage_ready_def)
  have run: "split_run g env (\<lambda>_. True) (merge_inv oenv g z policy) (merge_holds cpu g z) saved"
    using g check storage_merge.merge_coordinator_axioms [of oenv cpu g z policy]
    by (intro split_run.intro) (simp_all add: coord)
  note ok = p_okD [OF split_run.splitParallel_ok [OF run range opts ex seeds start]]
  show ?thesis
    using ok range by (fastforce simp: gmp_library.splitSequential_eq [OF g] merge_inv_def storage_ready_def)
qed

definition small_policy :: StoragePolicy where
  "small_policy = StoragePolicy_default\<lparr>sp_memory_budget_bytes := 1, sp_target_chunk_size_bytes := 1\<rparr>"

definition small_storage :: storage_run where
  "small_storage = \<lparr>sr_manager = \<lparr>sm_policy = small_policy, sm_index = ChunkIndex_create, sm_inFlightStores = {}\<rparr>, sr_os = fresh_os\<rparr>"

definition small_env :: "(unit, merge_run, unit) split_env" where
  "small_env = \<lparr>env_observer = None, env_coordinator = Some (storage_coordinator calm_env None gmp_ref lz4_ref), env_checkpoint = None\<rparr>"

theorem out_of_core_split_correct_witness:
  "\<exists>c r st'. StorageMergeCoordinator_create small_storage sample_identity None = Inr c
    \<and> splitParallel gmp_ref reversed_executor \<lparr>sequentialCutoff = 2, tasksPerWorker = 4\<rparr> small_env 0 7 []
        \<lparr>st_observer = (), st_coordinator = c, st_checkpoint = ()\<rparr> = Some (r, st')
    \<and> (\<forall>node. r = Inr node \<longrightarrow> splitSequential gmp_ref 0 7 = Some (Inr node))"
proof -
  obtain c where c: "StorageMergeCoordinator_create small_storage sample_identity None = Inr c"
    "mr_storage c = small_storage" "mr_computation c = sample_identity"
    by (simp add: StorageMergeCoordinator_create_def sample_identity_valid)
  have "storage_inv small_policy small_storage"
    using disk_ok_empty index_ok_create by (simp add: storage_inv_def small_storage_def small_policy_def StoragePolicy_default_def
        index_named_def ChunkIndex_create_def)
  then have inv: "merge_inv calm_env gmp_ref lz4_ref small_policy c"
    using c gmp_ref.gmp_library_axioms lz4_ref.lz4_library_axioms
    by (simp add: merge_inv_def storage_ready_def interrupts_end_calm sample_identity_def)
  have ex: "executor_ok reversed_executor"
    by (simp add: executor_ok_def reversed_executor_def)
  have "(0 :: u64) < 7" "sortAndValidateFrontier gmp_ref [] 0 7 = Inr []" "seeds_ok []"
    by (simp_all add: sortAndValidateFrontier_def seeds_ok_def)
  from out_of_core_split_correct [OF _ _ ex this(1) _ _ this(2,3), of small_env calm_env None lz4_ref "\<lambda>_ _ _. True"
      "\<lparr>sequentialCutoff = 2, tasksPerWorker = 4\<rparr>" small_policy "\<lparr>st_observer = (), st_coordinator = c, st_checkpoint = ()\<rparr>"]
  show ?thesis
    using inv c(1) no_checkpoint.checkpoint_coordinator_axioms
    by (auto simp: small_env_def checkpoint_coordinator_def)
qed

end
