(* ===== verification/Input_Stream.thy ===== *)
theory Input_Stream
  imports Posix_Files
begin

text \<open>
  A \<open>std::ifstream\<close> that is read piece by piece: the bytes after its position, and its state after each
  read.  A read may fail as the environment says, after fewer bytes than were requested.  The file does not change
  while it is read.
\<close>

datatype stream_state = Stream_good | Stream_eof | Stream_bad

definition stream_open :: "os_env \<Rightarrow> path \<Rightarrow> os \<Rightarrow> u8 list option \<times> os" where
  "stream_open env p s =
     (case sys_call env (\<lambda>d. d) s of (Some e, s') \<Rightarrow> (None, s') | (None, s') \<Rightarrow> (content (os_disk s) p, s'))"

text \<open>\<open>read\<close> of \<open>n\<close> characters: what was delivered, the state, and what is left.\<close>

definition stream_take :: "os_env \<Rightarrow> nat \<Rightarrow> u8 list \<Rightarrow> os \<Rightarrow> (u8 list \<times> stream_state \<times> u8 list) \<times> os" where
  "stream_take env n rest s =
     (case env_errno env (os_calls s) of
        Some e \<Rightarrow> (let got = take (min (n - 1) (env_accepts env (os_calls s))) rest in ((got, Stream_bad, drop (length got) rest), tick s (os_disk s)))
      | None \<Rightarrow> ((take n rest, if n \<le> length rest then Stream_good else Stream_eof, drop n rest), tick s (os_disk s)))"

lemma os_disk_tick_same [simp]: "os_disk (tick s (os_disk s)) = os_disk s"
  by (simp add: tick_def)

lemma stream_open_disk: "stream_open env p s = (r, s') \<Longrightarrow> os_disk s' = os_disk s \<and> (\<forall>bs. r = Some bs \<longrightarrow> content (os_disk s) p = Some bs)"
  by (auto simp: stream_open_def sys_call_def split: option.splits)

lemma stream_take_delivers:
  assumes "stream_take env n rest s = ((got, st, rest'), s')"
  shows "rest = got @ rest'" and "length got \<le> n" and "os_disk s' = os_disk s" and "st = Stream_good \<Longrightarrow> length got = n"
    and "st = Stream_eof \<Longrightarrow> rest' = [] \<and> length got < n"
  using assms by (auto simp: stream_take_def Let_def min_def split: option.splits if_splits)

lemma stream_calm:
  assumes "\<And>n. env_errno env n = None"
  shows "stream_open env p s = (content (os_disk s) p, tick s (os_disk s))"
    and "stream_take env n rest s = ((take n rest, if n \<le> length rest then Stream_good else Stream_eof, drop n rest), tick s (os_disk s))"
  using assms by (simp_all add: stream_open_def stream_take_def sys_call_def)

text \<open>A process whose disk holds one file.\<close>

definition file_os :: "path \<Rightarrow> u8 list \<Rightarrow> os" where
  "file_os p bs = fresh_os\<lparr>os_disk := disk_write (dk_next empty_disk) bs (disk_create p empty_disk)\<rparr>"

lemma content_file_os: "content (os_disk (file_os p bs)) p = Some bs"
  by (simp add: file_os_def content_def disk_write_def disk_create_def)

end
