(* ===== verification/Sha256.thy ===== *)
theory Sha256
  imports Input_Stream Checkpoint_Manifest
begin

text \<open>
  SHA-256 (src/verification/SHA256.cpp): the context with its buffer of unprocessed bytes, the
  compression of a block, padding, the digest of a text and of the prefix of a file, and the digest
  as hexadecimal text.  The reference is the standard's definition on the whole padded message.
\<close>

unbundle bit_operations_syntax

section \<open>Definitions\<close>

definition ROUND_CONSTANTS :: "u32 list" where
  "ROUND_CONSTANTS = [
    0x428a2f98, 0x71374491, 0xb5c0fbcf, 0xe9b5dba5,
    0x3956c25b, 0x59f111f1, 0x923f82a4, 0xab1c5ed5,
    0xd807aa98, 0x12835b01, 0x243185be, 0x550c7dc3,
    0x72be5d74, 0x80deb1fe, 0x9bdc06a7, 0xc19bf174,
    0xe49b69c1, 0xefbe4786, 0x0fc19dc6, 0x240ca1cc,
    0x2de92c6f, 0x4a7484aa, 0x5cb0a9dc, 0x76f988da,
    0x983e5152, 0xa831c66d, 0xb00327c8, 0xbf597fc7,
    0xc6e00bf3, 0xd5a79147, 0x06ca6351, 0x14292967,
    0x27b70a85, 0x2e1b2138, 0x4d2c6dfc, 0x53380d13,
    0x650a7354, 0x766a0abb, 0x81c2c92e, 0x92722c85,
    0xa2bfe8a1, 0xa81a664b, 0xc24b8b70, 0xc76c51a3,
    0xd192e819, 0xd6990624, 0xf40e3585, 0x106aa070,
    0x19a4c116, 0x1e376c08, 0x2748774c, 0x34b0bcb5,
    0x391c0cb3, 0x4ed8aa4a, 0x5b9cca4f, 0x682e6ff3,
    0x748f82ee, 0x78a5636f, 0x84c87814, 0x8cc70208,
    0x90befffa, 0xa4506ceb, 0xbef9a3f7, 0xc67178f2]"

text \<open>\<open>state_\<close> and \<open>buffer_\<close> have a fixed length; \<open>sha_bufferSize\<close> bytes of the buffer are in use.\<close>

record SHA256 =
  sha_state :: "u32 list"
  sha_buffer :: "u8 list"
  sha_bufferSize :: nat
  sha_totalBytes :: u64
  sha_finalized :: bool
  sha_digest :: "u8 list"

definition loadBigEndian :: "u8 list \<Rightarrow> u32" where
  "loadBigEndian bytes = push_bit 24 (ucast (bytes ! 0)) OR push_bit 16 (ucast (bytes ! 1))
     OR push_bit 8 (ucast (bytes ! 2)) OR ucast (bytes ! 3)"

definition SHA256_create :: SHA256 where
  "SHA256_create = \<lparr>sha_state = [0x6a09e667, 0xbb67ae85, 0x3c6ef372, 0xa54ff53a, 0x510e527f, 0x9b05688c, 0x1f83d9ab, 0x5be0cd19],
     sha_buffer = replicate 64 0, sha_bufferSize = 0, sha_totalBytes = 0, sha_finalized = False, sha_digest = replicate 32 0\<rparr>"

text \<open>The message schedule, word by word, from the first sixteen words.\<close>

definition nextSchedule :: "u32 list \<Rightarrow> nat \<Rightarrow> u32" where
  "nextSchedule schedule index =
     (let s0 = word_rotr 7 (schedule ! (index - 15)) XOR word_rotr 18 (schedule ! (index - 15)) XOR drop_bit 3 (schedule ! (index - 15));
          s1 = word_rotr 17 (schedule ! (index - 2)) XOR word_rotr 19 (schedule ! (index - 2)) XOR drop_bit 10 (schedule ! (index - 2))
      in schedule ! (index - 16) + s0 + schedule ! (index - 7) + s1)"

definition makeSchedule :: "u8 list \<Rightarrow> u32 list" where
  "makeSchedule block =
     foldl (\<lambda>schedule index. schedule @ [nextSchedule schedule index])
       (map (\<lambda>index. loadBigEndian (drop (index * 4) block)) [0..<16]) [16..<64]"

text \<open>One round on the eight working variables.\<close>

fun sha_round :: "u32 list \<Rightarrow> u32 \<times> u32 \<Rightarrow> u32 list" where
  "sha_round [a, b, c, d, e, f, g, h] (constant, word) =
     (let sum1 = word_rotr 6 e XOR word_rotr 11 e XOR word_rotr 25 e;
          choice = (e AND f) XOR (NOT e AND g);
          temporary1 = h + sum1 + choice + constant + word;
          sum0 = word_rotr 2 a XOR word_rotr 13 a XOR word_rotr 22 a;
          majority = (a AND b) XOR (a AND c) XOR (b AND c);
          temporary2 = sum0 + majority
      in [temporary1 + temporary2, a, b, c, d + temporary1, e, f, g])"
| "sha_round v kw = v"

definition sha_compress :: "u32 list \<Rightarrow> u8 list \<Rightarrow> u32 list" where
  "sha_compress state block = map2 (+) state (foldl sha_round state (zip ROUND_CONSTANTS (makeSchedule block)))"

definition transform :: "u8 list \<Rightarrow> SHA256 \<Rightarrow> SHA256" where
  "transform block c = c\<lparr>sha_state := sha_compress (sha_state c) (take 64 block)\<rparr>"

text \<open>\<open>std::memcpy\<close> into the buffer at an offset.\<close>

definition copy_at :: "nat \<Rightarrow> 'a list \<Rightarrow> 'a list \<Rightarrow> 'a list" where
  "copy_at offset src dst = take offset dst @ src @ drop (offset + length src) dst"

fun updateLoop :: "u8 list \<Rightarrow> SHA256 \<Rightarrow> u8 list \<times> SHA256" where
  "updateLoop bytes c = (if 64 \<le> length bytes then updateLoop (drop 64 bytes) (transform bytes c) else (bytes, c))"

declare updateLoop.simps [simp del]

definition fillBuffer :: "u8 list \<Rightarrow> SHA256 \<Rightarrow> u8 list \<times> SHA256" where
  "fillBuffer bytes c =
     (if sha_bufferSize c \<noteq> 0
      then let copied = min (length bytes) (64 - sha_bufferSize c);
               c = c\<lparr>sha_buffer := copy_at (sha_bufferSize c) (take copied bytes) (sha_buffer c), sha_bufferSize := sha_bufferSize c + copied\<rparr>;
               c = (if sha_bufferSize c = 64 then (transform (sha_buffer c) c)\<lparr>sha_bufferSize := 0\<rparr> else c)
           in (drop copied bytes, c)
      else (bytes, c))"

definition SHA256_update :: "u8 list \<Rightarrow> (SHA256, unit) action" where
  "SHA256_update bytes c =
     (if sha_finalized c then (Inl (Logic_error ''Cannot update a finalized SHA-256 context''), c)
      else if length bytes > unat (- 1 div 8 - sha_totalBytes c) then (Inl (Length_error ''SHA-256 input bit length overflows uint64''), c)
      else case fillBuffer bytes (c\<lparr>sha_totalBytes := sha_totalBytes c + of_nat (length bytes)\<rparr>) of (rest, c) \<Rightarrow>
           case updateLoop rest c of (rest, c) \<Rightarrow>
             (Inr (), if rest \<noteq> [] then c\<lparr>sha_bufferSize := length rest, sha_buffer := copy_at 0 rest (sha_buffer c)\<rparr> else c))"

definition digestBytes :: "u32 list \<Rightarrow> u8 list" where
  "digestBytes state = concat (map (\<lambda>w. map (\<lambda>byte. ucast (drop_bit (24 - byte * 8) w)) [0..<4]) state)"

text \<open>The eight bytes of the bit length, written from the end of the buffer backwards.\<close>

definition lengthBytes :: "u64 \<Rightarrow> u8 list" where
  "lengthBytes bitLength = rev (map (\<lambda>index. ucast (drop_bit (index * 8) bitLength)) [0..<8])"

definition SHA256_finalize :: "SHA256 \<Rightarrow> u8 list \<times> SHA256" where
  "SHA256_finalize c =
     (if sha_finalized c then (sha_digest c, c)
      else let bitLength = sha_totalBytes c * 8;
               c = c\<lparr>sha_buffer := (sha_buffer c)[sha_bufferSize c := 0x80], sha_bufferSize := sha_bufferSize c + 1\<rparr>;
               c = (if sha_bufferSize c > 56
                    then let b = copy_at (sha_bufferSize c) (replicate (64 - sha_bufferSize c) 0) (sha_buffer c)
                         in (transform b (c\<lparr>sha_buffer := b\<rparr>))\<lparr>sha_bufferSize := 0\<rparr>
                    else c);
               b = copy_at (sha_bufferSize c) (replicate (56 - sha_bufferSize c) 0) (sha_buffer c);
               b = copy_at 56 (lengthBytes bitLength) b;
               c = (transform b (c\<lparr>sha_buffer := b\<rparr>))\<lparr>sha_bufferSize := 0\<rparr>;
               c = c\<lparr>sha_digest := digestBytes (sha_state c), sha_finalized := True\<rparr>
           in (sha_digest c, c))"

definition SHA256_hash :: "string \<Rightarrow> u8 list result" where
  "SHA256_hash bytes = (case SHA256_update (string_bytes bytes) SHA256_create of
     (Inl e, c) \<Rightarrow> Inl e | (Inr _, c) \<Rightarrow> Inr (fst (SHA256_finalize c)))"

definition toHex :: "u8 list \<Rightarrow> string" where
  "toHex digest = concat (map (\<lambda>b. [''0123456789abcdef'' ! unat (drop_bit 4 b), ''0123456789abcdef'' ! unat (b AND 0x0f)]) digest)"

text \<open>The digest of the first \<open>byteCount\<close> bytes of a file, read in pieces of 64 KiB.\<close>

function hashLoop :: "os_env \<Rightarrow> u8 list \<Rightarrow> nat \<Rightarrow> SHA256 \<Rightarrow> (os, SHA256) action" where
  "hashLoop env rest remaining c s =
     (if remaining = 0 then (Inr c, s)
      else let requested = min remaining 65536 in
        case stream_take env requested rest s of ((got, _, rest), s) \<Rightarrow>
          if got = [] then (Inl (Runtime_error ''File ended before the SHA-256 prefix was complete''), s)
          else case SHA256_update got c of
            (Inl e, c) \<Rightarrow> (Inl e, s)
          | (Inr _, c) \<Rightarrow>
              if length got \<noteq> requested \<and> remaining - length got \<noteq> 0
              then (Inl (Runtime_error ''Failed while reading SHA-256 file prefix''), s)
              else hashLoop env rest (remaining - length got) c s)"
  by auto
termination
  by (relation "measure (\<lambda>(_, _, remaining, _, _). remaining)") auto

declare hashLoop.simps [simp del]

definition hashFilePrefix :: "os_env \<Rightarrow> path \<Rightarrow> u64 \<Rightarrow> (os, u8 list) action" where
  "hashFilePrefix env p byteCount s =
     (case stream_open env p s of
        (None, s) \<Rightarrow> (Inl (Runtime_error ''Cannot open file for SHA-256 hashing''), s)
      | (Some rest, s) \<Rightarrow>
          (case hashLoop env rest (unat byteCount) SHA256_create s of
             (Inl e, s) \<Rightarrow> (Inl e, s) | (Inr c, s) \<Rightarrow> (Inr (fst (SHA256_finalize c)), s)))"

section \<open>The standard\<close>

text \<open>The padded message and the digest of its blocks, as FIPS 180-4 defines them.\<close>

fun sha_blocks :: "u32 list \<Rightarrow> u8 list \<Rightarrow> u32 list" where
  "sha_blocks st bs = (if length bs < 64 then st else sha_blocks (sha_compress st (take 64 bs)) (drop 64 bs))"

declare sha_blocks.simps [simp del]

definition sha_pad :: "u8 list \<Rightarrow> u8 list" where
  "sha_pad m = m @ 0x80 # replicate ((119 - length m mod 64) mod 64) 0 @ lengthBytes (of_nat (8 * length m))"

definition sha256_spec :: "u8 list \<Rightarrow> u8 list" where
  "sha256_spec m = digestBytes (sha_blocks (sha_state SHA256_create) (sha_pad m))"

lemma sha_blocks_append: "64 dvd length a \<Longrightarrow> sha_blocks st (a @ b) = sha_blocks (sha_blocks st a) b"
proof (induction st a rule: sha_blocks.induct)
  case (1 st a)
  show ?case
  proof (cases "length a < 64")
    case True
    then have "a = []"
      using "1.prems" by (auto dest: dvd_imp_le)
    then show ?thesis
      by (simp add: sha_blocks.simps [of _ "[]"])
  next
    case False
    then show ?thesis
      using "1.IH" "1.prems" by (simp add: sha_blocks.simps [of st "a @ b"] sha_blocks.simps [of st a] dvd_diff_nat)
  qed
qed

lemma sha_blocks_one: "length a = 64 \<Longrightarrow> sha_blocks st a = sha_compress st a"
  by (simp add: sha_blocks.simps [of st a] sha_blocks.simps [of _ "[]"])

section \<open>The context holds the message\<close>

definition sha_holds :: "u8 list \<Rightarrow> SHA256 \<Rightarrow> bool" where
  "sha_holds m c \<longleftrightarrow> \<not> sha_finalized c \<and> sha_bufferSize c < 64 \<and> length (sha_buffer c) = 64
     \<and> unat (sha_totalBytes c) = length m \<and> length m < 2 ^ 61
     \<and> (\<exists>a. m = a @ take (sha_bufferSize c) (sha_buffer c) \<and> 64 dvd length a \<and> sha_state c = sha_blocks (sha_state SHA256_create) a)"

lemma sha_holds_create: "sha_holds [] SHA256_create"
  by (simp add: sha_holds_def SHA256_create_def sha_blocks.simps)

lemma length_copy_at: "offset + length xs \<le> length ys \<Longrightarrow> length (copy_at offset xs ys) = length ys"
  by (simp add: copy_at_def)

lemma take_copy_at: "offset \<le> length ys \<Longrightarrow> take (offset + length xs) (copy_at offset xs ys) = take offset ys @ xs"
  by (simp add: copy_at_def)

text \<open>What the loops leave: whole blocks in the state, the rest in the buffer or still to come.\<close>

definition sha_part :: "u8 list \<Rightarrow> u8 list \<Rightarrow> SHA256 \<Rightarrow> bool" where
  "sha_part m rest c \<longleftrightarrow> \<not> sha_finalized c \<and> sha_bufferSize c < 64 \<and> length (sha_buffer c) = 64
     \<and> (\<exists>a. m = a @ take (sha_bufferSize c) (sha_buffer c) @ rest \<and> 64 dvd length a \<and> sha_state c = sha_blocks (sha_state SHA256_create) a)"

lemma fillBuffer_part:
  assumes "sha_part m [] c" and "fillBuffer bytes c = (rest, c')"
  shows "sha_part (m @ bytes) rest c' \<and> (sha_bufferSize c' = 0 \<or> rest = []) \<and> sha_totalBytes c' = sha_totalBytes c"
proof (cases "sha_bufferSize c = 0")
  case True
  then show ?thesis
    using assms by (auto simp: fillBuffer_def sha_part_def)
next
  case False
  define copied where "copied = min (length bytes) (64 - sha_bufferSize c)"
  define b where "b = copy_at (sha_bufferSize c) (take copied bytes) (sha_buffer c)"
  obtain a where c: "\<not> sha_finalized c" "sha_bufferSize c < 64" "length (sha_buffer c) = 64" "64 dvd length a"
      "m = a @ take (sha_bufferSize c) (sha_buffer c)" "sha_state c = sha_blocks (sha_state SHA256_create) a"
    using assms(1) by (auto simp: sha_part_def)
  have len: "length (take copied bytes) = copied" "sha_bufferSize c + copied \<le> 64"
    using c(2) by (simp_all add: copied_def)
  have b: "length b = 64" "take (sha_bufferSize c + copied) b = take (sha_bufferSize c) (sha_buffer c) @ take copied bytes"
    using len c(2,3) length_copy_at [of "sha_bufferSize c" "take copied bytes" "sha_buffer c"]
      take_copy_at [of "sha_bufferSize c" "sha_buffer c" "take copied bytes"] by (simp_all add: b_def)
  show ?thesis
  proof (cases "sha_bufferSize c + copied = 64")
    case full: True
    then have c': "rest = drop copied bytes" "c' = c\<lparr>sha_buffer := b, sha_state := sha_compress (sha_state c) b, sha_bufferSize := 0\<rparr>"
      using assms(2) False b(1) by (auto simp: fillBuffer_def Let_def copied_def [symmetric] b_def [symmetric] transform_def)
    have "b = take (sha_bufferSize c) (sha_buffer c) @ take copied bytes"
      using b full by (metis take_all_iff order_refl)
    then have "m @ bytes = (a @ b) @ rest"
      by (simp add: c(5) c'(1))
    moreover have "sha_compress (sha_state c) b = sha_blocks (sha_state SHA256_create) (a @ b)"
      using c(4,6) b(1) by (simp add: sha_blocks_append sha_blocks_one)
    ultimately show ?thesis
      using c b(1) unfolding sha_part_def c'(2) by (intro conjI exI [of _ "a @ b"]) simp_all
  next
    case more: False
    then have all: "copied = length bytes"
      using len(2) by (simp add: copied_def)
    then have c': "rest = []" "c' = c\<lparr>sha_buffer := b, sha_bufferSize := sha_bufferSize c + copied\<rparr>"
      using assms(2) False more by (auto simp: fillBuffer_def Let_def copied_def [symmetric] b_def)
    show ?thesis
      using c b len more all unfolding sha_part_def c'(2) by (intro conjI exI [of _ a]) (simp_all add: c'(1))
  qed
qed

lemma updateLoop_part:
  "sha_part m bytes c \<Longrightarrow> sha_bufferSize c = 0 \<Longrightarrow> updateLoop bytes c = (rest, c') \<Longrightarrow>
   sha_part m rest c' \<and> length rest < 64 \<and> sha_bufferSize c' = 0 \<and> sha_totalBytes c' = sha_totalBytes c"
proof (induction bytes c rule: updateLoop.induct)
  case (1 bytes c)
  show ?case
  proof (cases "64 \<le> length bytes")
    case False
    then show ?thesis
      using "1.prems" by (simp add: updateLoop.simps)
  next
    case True
    obtain a where a: "m = a @ bytes" "64 dvd length a" "sha_state c = sha_blocks (sha_state SHA256_create) a"
      using "1.prems"(1,2) by (auto simp: sha_part_def)
    then have "sha_blocks (sha_state SHA256_create) (a @ take 64 bytes) = sha_compress (sha_state c) (take 64 bytes)"
      using True by (simp add: sha_blocks_append sha_blocks_one)
    then have "sha_part m (drop 64 bytes) (transform bytes c)"
      using "1.prems"(1,2) a True unfolding sha_part_def
      by (intro conjI exI [of _ "a @ take 64 bytes"]) (simp_all add: transform_def)
    then show ?thesis
      using "1.IH" [OF True] "1.prems"(2,3) True by (simp add: updateLoop.simps [of bytes] transform_def)
  qed
qed

lemma SHA256_update_holds:
  assumes "sha_holds m c" and "length m + length bytes < 2 ^ 61"
  shows "\<exists>c'. SHA256_update bytes c = (Inr (), c') \<and> sha_holds (m @ bytes) c'"
proof -
  define c0 where "c0 = c\<lparr>sha_totalBytes := sha_totalBytes c + of_nat (length bytes)\<rparr>"
  have c: "\<not> sha_finalized c" "unat (sha_totalBytes c) = length m" "length m < 2 ^ 61"
    using assms(1) by (simp_all add: sha_holds_def)
  have n: "unat (of_nat (length bytes) :: u64) = length bytes"
    using assms(2) by (intro unat_of_nat_u64) simp
  have room: "unat (- 1 div 8 - sha_totalBytes c) = 2 ^ 61 - 1 - length m"
  proof -
    have "unat (- 1 div 8 :: u64) = 2 ^ 61 - 1"
      by (simp add: unat_div unat_max_word)
    then show ?thesis
      using c by (subst unat_sub_le) (simp_all add: word_le_nat_alt)
  qed
  have total: "unat (sha_totalBytes c0) = length m + length bytes"
    using c n assms(2) unat_add_no_wrap [of "sha_totalBytes c" "of_nat (length bytes)"] by (simp add: c0_def)
  have p0: "sha_part m [] c0"
    using assms(1) by (simp add: sha_holds_def sha_part_def c0_def)
  obtain rest c1 where f: "fillBuffer bytes c0 = (rest, c1)"
    by (metis surj_pair)
  note p1 = fillBuffer_part [OF p0 f]
  obtain rest' c2 where u: "updateLoop rest c1 = (rest', c2)"
    by (metis surj_pair)
  have p2: "sha_part (m @ bytes) rest' c2 \<and> length rest' < 64 \<and> (sha_bufferSize c2 = 0 \<or> rest' = []) \<and> sha_totalBytes c2 = sha_totalBytes c1"
  proof (cases "sha_bufferSize c1 = 0")
    case True
    then show ?thesis
      using updateLoop_part [OF _ True u] p1 by blast
  next
    case False
    then have "rest' = []" "c2 = c1"
      using p1 u by (simp_all add: updateLoop.simps)
    then show ?thesis
      using p1 False by auto
  qed
  define c3 where "c3 = (if rest' \<noteq> [] then c2\<lparr>sha_bufferSize := length rest', sha_buffer := copy_at 0 rest' (sha_buffer c2)\<rparr> else c2)"
  have "SHA256_update bytes c = (Inr (), c3)"
    using c(1) room assms(2) f u by (simp add: SHA256_update_def c0_def [symmetric] c3_def)
  moreover have "sha_holds (m @ bytes) c3"
  proof -
    obtain a where a: "m @ bytes = a @ take (sha_bufferSize c2) (sha_buffer c2) @ rest'" "64 dvd length a"
        "sha_state c2 = sha_blocks (sha_state SHA256_create) a"
      and o: "\<not> sha_finalized c2" "sha_bufferSize c2 < 64" "length (sha_buffer c2) = 64"
      using p2 unfolding sha_part_def by blast
    have "unat (sha_totalBytes c2) = length (m @ bytes)"
      using p1 p2 total by simp
    moreover have "length (m @ bytes) < 2 ^ 61"
      using assms(2) by simp
    ultimately have o: "\<not> sha_finalized c2" "sha_bufferSize c2 < 64" "length (sha_buffer c2) = 64"
        "unat (sha_totalBytes c2) = length (m @ bytes)" "length (m @ bytes) < 2 ^ 61"
      using o by simp_all
    show ?thesis
      using a o conjunct2 [OF p2] take_copy_at [of 0 "sha_buffer c2" rest'] length_copy_at [of 0 rest' "sha_buffer c2"]
      unfolding sha_holds_def by (intro conjI exI [of _ a]) (auto simp: c3_def simp del: length_append)
  qed
  ultimately show ?thesis
    by blast
qed

lemma length_lengthBytes [simp]: "length (lengthBytes n) = 8"
  by (simp add: lengthBytes_def)

lemma two_blocks:
  assumes "length x = 64" and "length y = 64" and "64 dvd length a"
  shows "sha_blocks st (a @ x @ y) = sha_compress (sha_compress (sha_blocks st a) x) y"
  using assms by (simp add: sha_blocks_append sha_blocks_one)

lemma one_block:
  assumes "length x = 64" and "64 dvd length a"
  shows "sha_blocks st (a @ x) = sha_compress (sha_blocks st a) x"
  using assms by (simp add: sha_blocks_append sha_blocks_one)

lemma SHA256_finalize_spec:
  assumes "sha_holds m c"
  shows "fst (SHA256_finalize c) = sha256_spec m" and "sha_finalized (snd (SHA256_finalize c))"
    and "sha_digest (snd (SHA256_finalize c)) = sha256_spec m"
proof -
  define n where "n = sha_bufferSize c"
  define tl_bytes where "tl_bytes = take n (sha_buffer c)"
  obtain a where c: "\<not> sha_finalized c" "n < 64" "length (sha_buffer c) = 64" "64 dvd length a" "m = a @ tl_bytes"
      "sha_state c = sha_blocks (sha_state SHA256_create) a" "unat (sha_totalBytes c) = length m"
    using assms by (auto simp: sha_holds_def n_def tl_bytes_def)
  have len: "length tl_bytes = n" "length m mod 64 = n"
    using c(2-5) by (auto simp: tl_bytes_def mod_add_left_eq [symmetric, of "length a"] dvd_eq_mod_eq_0)
  have "sha_totalBytes c = of_nat (length m)"
    using c(7) by (metis of_nat_unat ucast_id)
  then have bits: "sha_totalBytes c * 8 = of_nat (8 * length m)"
    by (simp add: mult.commute)
  define L where "L = lengthBytes (sha_totalBytes c * 8)"
  define b where "b = (sha_buffer c)[n := 0x80]"
  have b: "take (Suc n) b = tl_bytes @ [0x80]" "length b = 64"
    using c(2,3) by (simp_all add: b_def tl_bytes_def take_Suc_conv_app_nth)
  have "\<exists>c'. SHA256_finalize c = (sha256_spec m, c') \<and> sha_finalized c' \<and> sha_digest c' = sha256_spec m"
  proof (cases "Suc n > 56")
    case True
    define x where "x = copy_at (Suc n) (replicate (63 - n) 0) b"
    define y where "y = copy_at 56 L (copy_at 0 (replicate 56 0) x)"
    have x: "x = tl_bytes @ 0x80 # replicate (63 - n) 0" "length x = 64"
      using b c(2) len(1) by (simp_all add: x_def copy_at_def)
    then have y: "y = replicate 56 0 @ L" "length y = 64"
      by (simp_all add: y_def copy_at_def L_def)
    have "sha_pad m = a @ x @ y"
      using True c(2,5) len by (simp add: sha_pad_def x y L_def bits flip: replicate_add)
    then have "digestBytes (sha_compress (sha_compress (sha_state c) x) y) = sha256_spec m"
      by (simp only: sha256_spec_def two_blocks [OF x(2) y(2) c(4)] c(6))
    then show ?thesis
      using True c(1) x(2) y(2) unfolding SHA256_finalize_def
      by (simp add: Let_def transform_def n_def [symmetric] b_def [symmetric] x_def [symmetric] L_def [symmetric] y_def [symmetric])
  next
    case False
    define y where "y = copy_at 56 L (copy_at (Suc n) (replicate (55 - n) 0) b)"
    have "56 - n = Suc (55 - n)"
      using False by simp
    then have y: "y = tl_bytes @ 0x80 # replicate (55 - n) 0 @ L" "length y = 64"
      using b c(2) len(1) False by (simp_all add: y_def copy_at_def L_def)
    have "(119 - n) mod 64 = 55 - n"
      using False by (simp add: mod_if)
    then have "sha_pad m = a @ y"
      using c(5) len by (simp add: sha_pad_def y L_def bits)
    then have "digestBytes (sha_compress (sha_state c) y) = sha256_spec m"
      by (simp only: sha256_spec_def one_block [OF y(2) c(4)] c(6))
    then show ?thesis
      using False c(1) y(2) unfolding SHA256_finalize_def
      by (simp add: Let_def transform_def n_def [symmetric] b_def [symmetric] L_def [symmetric] y_def [symmetric])
  qed
  then show "fst (SHA256_finalize c) = sha256_spec m" "sha_finalized (snd (SHA256_finalize c))" "sha_digest (snd (SHA256_finalize c)) = sha256_spec m"
    by auto
qed

lemma hashLoop_spec:
  assumes "sha_holds m c" and "length m + remaining < 2 ^ 61"
  shows "st_post (hashLoop env rest remaining c) s (\<lambda>r s'. os_disk s' = os_disk s
    \<and> on_result (\<lambda>e. \<exists>text. e = Runtime_error text) (\<lambda>c'. remaining \<le> length rest \<and> sha_holds (m @ take remaining rest) c') r)"
  using assms
proof (induction remaining arbitrary: rest c s m rule: less_induct)
  case (less remaining)
  show ?case
  proof (cases "remaining = 0")
    case True
    then show ?thesis
      using less.prems by (simp add: st_post_def hashLoop.simps)
  next
    case False
    define requested where "requested = min remaining 65536"
    obtain got st rest' s' where take: "stream_take env requested rest s = ((got, st, rest'), s')"
      by (metis surj_pair)
    note d = stream_take_delivers [OF take]
    show ?thesis
    proof (cases "got = []")
      case True
      then show ?thesis
        using False take d(3) by (simp add: st_post_def hashLoop.simps [of env rest] Let_def requested_def)
    next
      case got: False
      have le: "length got \<le> remaining"
        using d(2) by (simp add: requested_def)
      obtain c' where u: "SHA256_update got c = (Inr (), c')" "sha_holds (m @ got) c'"
        using SHA256_update_holds [OF less.prems(1), of got] less.prems(2) le by auto
      show ?thesis
      proof (cases "length got \<noteq> requested \<and> remaining - length got \<noteq> 0")
        case True
        then show ?thesis
          using False take d(3) got u by (simp add: st_post_def hashLoop.simps [of env rest] Let_def requested_def)
      next
        case go: False
        have "hashLoop env rest remaining c s = hashLoop env rest' (remaining - length got) c' s'"
          using False take got u go by (auto simp: hashLoop.simps [of env rest remaining] Let_def requested_def)
        moreover have "st_post (hashLoop env rest' (remaining - length got) c') s' (\<lambda>r s''. os_disk s'' = os_disk s'
            \<and> on_result (\<lambda>e. \<exists>text. e = Runtime_error text) (\<lambda>c''. remaining - length got \<le> length rest'
              \<and> sha_holds ((m @ got) @ take (remaining - length got) rest') c'') r)"
          using got le less.prems(2) False u(2) by (intro less.IH) simp_all
        ultimately show ?thesis
          using d(1,3) le by (auto simp: st_post_def split: prod.splits sum.splits)
      qed
    qed
  qed
qed

lemma hashLoop_returns:
  assumes "sha_holds m c" and "length m + remaining < 2 ^ 61" and "\<And>n. env_errno env n = None" and "remaining \<le> length rest"
  shows "\<exists>c' s'. hashLoop env rest remaining c s = (Inr c', s') \<and> os_disk s' = os_disk s"
  using assms
proof (induction remaining arbitrary: rest c s m rule: less_induct)
  case (less remaining)
  show ?case
  proof (cases "remaining = 0")
    case False
    define n where "n = min remaining 65536"
    have n: "n \<le> remaining" "0 < n" "n \<le> length rest"
      using False less.prems(4) by (simp_all add: n_def)
    obtain c' where u: "SHA256_update (take n rest) c = (Inr (), c')" "sha_holds (m @ take n rest) c'"
      using SHA256_update_holds [OF less.prems(1), of "take n rest"] less.prems(2) n by auto
    have "hashLoop env rest remaining c s = hashLoop env (drop n rest) (remaining - n) c' (tick s (os_disk s))"
      using False u n by (auto simp: hashLoop.simps [of env rest remaining] Let_def stream_calm [OF less.prems(3)] n_def [symmetric])
    then show ?thesis
      using less.IH [of "remaining - n" "m @ take n rest" c' "drop n rest" "tick s (os_disk s)"] less.prems n u(2) by simp
  qed (simp add: hashLoop.simps)
qed

lemma SHA256_hash_spec: "length m < 2 ^ 61 \<Longrightarrow> SHA256_hash m = Inr (sha256_spec (string_bytes m))"
proof -
  assume "length m < 2 ^ 61"
  then obtain c where "SHA256_update (string_bytes m) SHA256_create = (Inr (), c)" "sha_holds (string_bytes m) c"
    using SHA256_update_holds [OF sha_holds_create, of "string_bytes m"] by auto
  then show ?thesis
    by (simp add: SHA256_hash_def SHA256_finalize_spec)
qed

lemma hashFilePrefix_spec:
  assumes "unat n < 2 ^ 61"
  shows "\<exists>r s'. hashFilePrefix env p n s = (r, s') \<and> os_disk s' = os_disk s
    \<and> (\<forall>digest. r = Inr digest \<longrightarrow> (\<exists>bytes. content (os_disk s) p = Some bytes \<and> unat n \<le> length bytes \<and> digest = sha256_spec (take (unat n) bytes)))
    \<and> (\<forall>bytes. (\<forall>i. env_errno env i = None) \<and> content (os_disk s) p = Some bytes \<and> unat n \<le> length bytes \<longrightarrow> (\<exists>digest. r = Inr digest))"
proof -
  obtain o1 s1 where o: "stream_open env p s = (o1, s1)"
    by (metis surj_pair)
  note od = stream_open_disk [OF o]
  show ?thesis
  proof (cases o1)
    case None
    then have "content (os_disk s) p = None" if "\<forall>i. env_errno env i = None"
      using o that stream_calm(1) [of env p s] by simp
    then show ?thesis
      using o None od by (auto simp: hashFilePrefix_def)
  next
    case (Some rest)
    obtain q s2 where l: "hashLoop env rest (unat n) SHA256_create s1 = (q, s2)"
      by (metis surj_pair)
    have spec: "os_disk s2 = os_disk s1" "\<And>c. q = Inr c \<Longrightarrow> unat n \<le> length rest \<and> sha_holds (take (unat n) rest) c"
      using hashLoop_spec [OF sha_holds_create, of "unat n" env rest s1] assms l by (auto simp: st_post_def)
    have calm: "\<exists>c. q = Inr c" if "\<forall>i. env_errno env i = None" "unat n \<le> length rest"
      using hashLoop_returns [OF sha_holds_create, of "unat n" env rest s1] that assms l by auto
    show ?thesis
      using o Some od l spec calm SHA256_finalize_spec(1) by (cases q) (auto simp: hashFilePrefix_def)
  qed
qed

section \<open>Properties\<close>

definition sha_updates :: "u8 list list \<Rightarrow> (SHA256, unit) action" where
  "sha_updates pieces = foldr (\<lambda>p m. st_bind (SHA256_update p) (\<lambda>_. m)) pieces (st_return ())"

lemma sha_updates_holds:
  "sha_holds m c \<Longrightarrow> length m + length (concat pieces) < 2 ^ 61 \<Longrightarrow> \<exists>c'. sha_updates pieces c = (Inr (), c') \<and> sha_holds (m @ concat pieces) c'"
proof (induction pieces arbitrary: m c)
  case (Cons p pieces)
  obtain c1 where "SHA256_update p c = (Inr (), c1)" "sha_holds (m @ p) c1"
    using SHA256_update_holds [OF Cons.prems(1), of p] Cons.prems(2) by auto
  then show ?case
    using Cons.IH [of "m @ p" c1] Cons.prems(2) by (auto simp: sha_updates_def st_bind_def)
qed (simp add: sha_updates_def)


text \<open>The published digest of the three letters \<open>abc\<close>.\<close>

lemma sha256_abc: "toHex (sha256_spec [97, 98, 99]) = ''ba7816bf8f01cfea414140de5dae2223b00361a396177a9cb410ff61f20015ad''"
  by code_simp


end
