(* ===== verification/Final_Report.thy ===== *)
theory Final_Report
  imports Prelude
begin

text \<open>
  The results of the final verification (src/verification/FinalVerification.cpp): one result per
  stage, whose constructor rejects contradictory results, and the report, whose status is the worst
  status of its checks.  Durations are elapsed times of the steady clock, which is never negative; they are
  only reported, so every check that the code times is modelled with duration zero.
\<close>

section \<open>Definitions\<close>

datatype VerificationStatus = VS_passed | VS_failed | VS_skipped | VS_inconclusive

datatype VerificationStage = Stage_outputStructure | Stage_knownDigits | Stage_hash | Stage_bbp | Stage_manifest

datatype VerificationReason =
    VR_fileReadFailed | VR_invalidOutputPrefix | VR_invalidOutputLength | VR_invalidOutputCharacter | VR_trailingData
  | VR_knownDigitsMismatch | VR_hashMismatch | VR_bbpMismatch | VR_insufficientPrecision | VR_unsupportedVersion
  | VR_invalidManifest | VR_operationFailed

record VerificationIdentity =
  vi_requestedDigits :: u64
  vi_guardDigits :: u32
  vi_workingDigits :: u64
  vi_termCount :: u64

record VerificationDiagnostic =
  vd_stage :: VerificationStage
  vd_reason :: VerificationReason
  vd_detail :: string
  vd_offset :: "u64 option"

record VerificationCheckResult =
  vc_stage :: VerificationStage
  vc_status :: VerificationStatus
  vc_duration :: int
  vc_diagnostics :: "VerificationDiagnostic list"

record FinalVerificationReport =
  fr_identity :: VerificationIdentity
  fr_status :: VerificationStatus
  fr_checks :: "VerificationCheckResult list"

fun severity :: "VerificationStatus \<Rightarrow> int" where
  "severity VS_skipped = 0"
| "severity VS_passed = 1"
| "severity VS_inconclusive = 2"
| "severity VS_failed = 3"

definition VerificationCheckResult_create ::
  "VerificationStage \<Rightarrow> VerificationStatus \<Rightarrow> int \<Rightarrow> VerificationDiagnostic list \<Rightarrow> VerificationCheckResult result" where
  "VerificationCheckResult_create stage status duration diagnostics =
     res_bind (throw_if (duration < 0) (Invalid_argument ''Verification duration cannot be negative'')) (\<lambda>_.
     res_bind (throw_if (status = VS_passed \<and> diagnostics \<noteq> []) (Invalid_argument ''Passed verification result cannot contain diagnostics'')) (\<lambda>_.
     res_bind (throw_if ((status = VS_failed \<or> status = VS_inconclusive) \<and> diagnostics = [])
       (Invalid_argument ''Failed or inconclusive verification requires diagnostics'')) (\<lambda>_.
     res_bind (throw_if (list_ex (\<lambda>d. vd_stage d \<noteq> stage) diagnostics)
       (Invalid_argument ''Verification diagnostic stage does not match its result'')) (\<lambda>_.
     Inr \<lparr>vc_stage = stage, vc_status = status, vc_duration = duration, vc_diagnostics = diagnostics\<rparr>))))"

fun reportLoop :: "VerificationStage list \<Rightarrow> VerificationStatus \<Rightarrow> VerificationCheckResult list \<Rightarrow> VerificationStatus result" where
  "reportLoop prior status [] = Inr status"
| "reportLoop prior status (check # checks) =
     res_bind (throw_if (vc_stage check \<in> set prior) (Invalid_argument ''Final verification report contains a duplicate stage'')) (\<lambda>_.
     reportLoop (prior @ [vc_stage check]) (if severity (vc_status check) > severity status then vc_status check else status) checks)"

definition FinalVerificationReport_create :: "VerificationIdentity \<Rightarrow> VerificationCheckResult list \<Rightarrow> FinalVerificationReport result" where
  "FinalVerificationReport_create identity checks =
     res_bind (throw_if (vi_requestedDigits identity = 0 \<or> vi_workingDigits identity < vi_requestedDigits identity \<or> vi_termCount identity = 0)
       (Invalid_argument ''Invalid final verification identity'')) (\<lambda>_.
     res_bind (throw_if (checks = []) (Invalid_argument ''Final verification report requires at least one check'')) (\<lambda>_.
     res_bind (reportLoop [] VS_skipped checks) (\<lambda>status.
     Inr \<lparr>fr_identity = identity, fr_status = status, fr_checks = checks\<rparr>)))"

definition report_find :: "VerificationStage \<Rightarrow> FinalVerificationReport \<Rightarrow> VerificationCheckResult option" where
  "report_find stage report = find (\<lambda>check. vc_stage check = stage) (fr_checks report)"

fun VerificationStatus_toString :: "VerificationStatus \<Rightarrow> string" where
  "VerificationStatus_toString VS_passed = ''passed''"
| "VerificationStatus_toString VS_failed = ''failed''"
| "VerificationStatus_toString VS_skipped = ''skipped''"
| "VerificationStatus_toString VS_inconclusive = ''inconclusive''"

fun VerificationStage_toString :: "VerificationStage \<Rightarrow> string" where
  "VerificationStage_toString Stage_outputStructure = ''output_structure''"
| "VerificationStage_toString Stage_knownDigits = ''known_digits''"
| "VerificationStage_toString Stage_hash = ''hash''"
| "VerificationStage_toString Stage_bbp = ''bbp''"
| "VerificationStage_toString Stage_manifest = ''manifest''"

fun VerificationReason_toString :: "VerificationReason \<Rightarrow> string" where
  "VerificationReason_toString VR_fileReadFailed = ''file_read_failed''"
| "VerificationReason_toString VR_invalidOutputPrefix = ''invalid_output_prefix''"
| "VerificationReason_toString VR_invalidOutputLength = ''invalid_output_length''"
| "VerificationReason_toString VR_invalidOutputCharacter = ''invalid_output_character''"
| "VerificationReason_toString VR_trailingData = ''trailing_data''"
| "VerificationReason_toString VR_knownDigitsMismatch = ''known_digits_mismatch''"
| "VerificationReason_toString VR_hashMismatch = ''hash_mismatch''"
| "VerificationReason_toString VR_bbpMismatch = ''bbp_mismatch''"
| "VerificationReason_toString VR_insufficientPrecision = ''insufficient_precision''"
| "VerificationReason_toString VR_unsupportedVersion = ''unsupported_version''"
| "VerificationReason_toString VR_invalidManifest = ''invalid_manifest''"
| "VerificationReason_toString VR_operationFailed = ''operation_failed''"

section \<open>Well-formed results\<close>

definition check_ok :: "VerificationCheckResult \<Rightarrow> bool" where
  "check_ok c \<longleftrightarrow> 0 \<le> vc_duration c \<and> (vc_status c = VS_passed \<longrightarrow> vc_diagnostics c = [])
     \<and> (vc_status c \<in> {VS_failed, VS_inconclusive} \<longrightarrow> vc_diagnostics c \<noteq> []) \<and> (\<forall>d \<in> set (vc_diagnostics c). vd_stage d = vc_stage c)"

lemma VerificationCheckResult_create_iff:
  "VerificationCheckResult_create stage status duration diagnostics = Inr c \<longleftrightarrow>
     c = \<lparr>vc_stage = stage, vc_status = status, vc_duration = duration, vc_diagnostics = diagnostics\<rparr> \<and> check_ok c"
  by (auto simp: VerificationCheckResult_create_def check_ok_def res_elim list_ex_iff)

fun worst :: "VerificationStatus \<Rightarrow> VerificationCheckResult list \<Rightarrow> VerificationStatus" where
  "worst status [] = status"
| "worst status (c # cs) = worst (if severity (vc_status c) > severity status then vc_status c else status) cs"

lemma reportLoop_eq:
  "reportLoop prior status checks =
     (if distinct (map vc_stage checks) \<and> set (map vc_stage checks) \<inter> set prior = {} then Inr (worst status checks)
      else Inl (Invalid_argument ''Final verification report contains a duplicate stage''))"
  by (induction checks arbitrary: prior status) (auto simp: res_bind_throw_if)

lemma worst_upper: "severity status \<le> severity (worst status cs) \<and> (\<forall>c \<in> set cs. severity (vc_status c) \<le> severity (worst status cs))"
proof (induction cs arbitrary: status)
  case (Cons c cs)
  show ?case
    using Cons.IH [of "vc_status c"] Cons.IH [of status] by auto
qed simp

lemma worst_member: "worst status cs = status \<or> worst status cs \<in> vc_status ` set cs"
proof (induction cs arbitrary: status)
  case (Cons c cs)
  show ?case
    using Cons.IH [of "vc_status c"] Cons.IH [of status] by auto
qed simp

lemma severity_le_passed: "severity s \<le> severity VS_passed \<longleftrightarrow> s = VS_passed \<or> s = VS_skipped"
  by (cases s) simp_all

text \<open>A report is passed exactly when every check passed or was skipped, and one passed.\<close>

lemma worst_passed:
  "worst VS_skipped cs = VS_passed \<longleftrightarrow> (\<forall>c \<in> set cs. vc_status c \<in> {VS_passed, VS_skipped}) \<and> (\<exists>c \<in> set cs. vc_status c = VS_passed)"
proof
  assume "worst VS_skipped cs = VS_passed"
  then show "(\<forall>c \<in> set cs. vc_status c \<in> {VS_passed, VS_skipped}) \<and> (\<exists>c \<in> set cs. vc_status c = VS_passed)"
    using worst_upper [of VS_skipped cs] worst_member [of VS_skipped cs] severity_le_passed by auto
next
  assume a: "(\<forall>c \<in> set cs. vc_status c \<in> {VS_passed, VS_skipped}) \<and> (\<exists>c \<in> set cs. vc_status c = VS_passed)"
  then obtain c where c: "c \<in> set cs" "vc_status c = VS_passed"
    by blast
  then have "1 \<le> severity (worst VS_skipped cs)"
    using worst_upper [of VS_skipped cs] by fastforce
  moreover have "worst VS_skipped cs \<in> {VS_passed, VS_skipped}"
    using a worst_member [of VS_skipped cs] by auto
  ultimately show "worst VS_skipped cs = VS_passed"
    by auto
qed

end
