(* ===== verification/Output_Inspection.thy ===== *)
theory Output_Inspection
  imports Final_Report Input_Stream Checkpoint_Manifest
begin

text \<open>
  The structure of the output (src/verification/CanonicalDecimal.cpp, FinalOutputInspector.cpp): the
  text \<open>3.\<close> with exactly the requested digits, in memory or in a file that ends with one newline, and
  the diagnostic of the first deviation.
\<close>

section \<open>Canonical text\<close>

record CanonicalDecimal =
  cd_bytes :: string
  cd_requestedDigits :: u64

record CanonicalDecimalInspection =
  ci_verification :: VerificationCheckResult
  ci_decimal :: "CanonicalDecimal option"

definition fractionalDigits :: "CanonicalDecimal \<Rightarrow> string" where
  "fractionalDigits decimal = drop 2 (cd_bytes decimal)"

definition inspection_accepted :: "CanonicalDecimalInspection \<Rightarrow> bool" where
  "inspection_accepted i \<longleftrightarrow> vc_status (ci_verification i) = VS_passed \<and> ci_decimal i \<noteq> None"

definition structureFailure :: "VerificationReason \<Rightarrow> string \<Rightarrow> u64 option \<Rightarrow> VerificationCheckResult result" where
  "structureFailure reason detail offset = VerificationCheckResult_create Stage_outputStructure VS_failed 0
     [\<lparr>vd_stage = Stage_outputStructure, vd_reason = reason, vd_detail = detail, vd_offset = offset\<rparr>]"

definition decimal_rejection :: "VerificationReason \<Rightarrow> string \<Rightarrow> u64 option \<Rightarrow> CanonicalDecimalInspection result" where
  "decimal_rejection reason detail offset =
     res_bind (structureFailure reason detail offset) (\<lambda>check. Inr \<lparr>ci_verification = check, ci_decimal = None\<rparr>)"

definition not_digit :: "char \<Rightarrow> bool" where
  "not_digit c \<longleftrightarrow> of_char c < (48 :: nat) \<or> 57 < (of_char c :: nat)"

fun findNonDigit :: "nat \<Rightarrow> string \<Rightarrow> nat option" where
  "findNonDigit offset [] = None"
| "findNonDigit offset (c # cs) = (if not_digit c then Some offset else findNonDigit (Suc offset) cs)"

definition inspectCanonicalDecimal :: "string \<Rightarrow> u64 \<Rightarrow> CanonicalDecimalInspection result" where
  "inspectCanonicalDecimal candidate requested =
     (if requested = 0 then decimal_rejection VR_operationFailed ''Requested digit count must be greater than zero'' None
      else if requested > - 1 - 2
      then decimal_rejection VR_invalidOutputLength ''Canonical decimal length does not fit this platform'' None
      else let expectedSize = requested + 2 in
        if length candidate < 2 \<or> candidate ! 0 \<noteq> CHR ''3'' \<or> candidate ! 1 \<noteq> CHR ''.''
        then decimal_rejection VR_invalidOutputPrefix ''Canonical decimal must begin with 3.''
               (Some (if candidate \<noteq> [] \<and> candidate ! 0 = CHR ''3'' then 1 else 0))
        else if length candidate > unat expectedSize
        then decimal_rejection VR_trailingData ''Canonical decimal contains trailing data'' (Some expectedSize)
        else if length candidate < unat expectedSize
        then decimal_rejection VR_invalidOutputLength ''Canonical decimal has fewer digits than requested'' (Some (of_nat (length candidate)))
        else case findNonDigit 2 (drop 2 candidate) of
          Some offset \<Rightarrow> decimal_rejection VR_invalidOutputCharacter ''Canonical decimal contains a non-ASCII digit'' (Some (of_nat offset))
        | None \<Rightarrow>
            res_bind (VerificationCheckResult_create Stage_outputStructure VS_passed 0 []) (\<lambda>check.
            Inr \<lparr>ci_verification = check, ci_decimal = Some \<lparr>cd_bytes = candidate, cd_requestedDigits = requested\<rparr>\<rparr>))"

section \<open>Output files\<close>

record InspectedOutputFile =
  io_path :: path
  io_fileSize :: u64
  io_canonicalByteCount :: u64
  io_requestedDigits :: u64

record OutputFileInspection =
  oi_verification :: VerificationCheckResult
  oi_file :: "InspectedOutputFile option"

definition file_accepted :: "OutputFileInspection \<Rightarrow> bool" where
  "file_accepted i \<longleftrightarrow> vc_status (oi_verification i) = VS_passed \<and> oi_file i \<noteq> None"

definition inspectMemory :: "string \<Rightarrow> u64 \<Rightarrow> CanonicalDecimalInspection result" where
  "inspectMemory candidate requested = inspectCanonicalDecimal candidate requested"

definition file_rejection :: "VerificationReason \<Rightarrow> string \<Rightarrow> u64 option \<Rightarrow> OutputFileInspection result" where
  "file_rejection reason detail offset =
     res_bind (structureFailure reason detail offset) (\<lambda>check. Inr \<lparr>oi_verification = check, oi_file = None\<rparr>)"

text \<open>The tests of one character at its offset; a rejection is its reason and detail.\<close>

definition inspectChar :: "u64 \<Rightarrow> u64 \<Rightarrow> u64 \<Rightarrow> u8 \<Rightarrow> (VerificationReason \<times> string) option" where
  "inspectChar canonicalBytes expectedFileSize offset v =
     (if offset = 0 \<and> v \<noteq> 51 then Some (VR_invalidOutputPrefix, ''Canonical output file must begin with 3.'')
      else if offset = 1 \<and> v \<noteq> 46 then Some (VR_invalidOutputPrefix, ''Canonical output file must begin with 3.'')
      else if offset \<ge> 2 \<and> offset < canonicalBytes \<and> (v < 48 \<or> v > 57)
      then Some (VR_invalidOutputCharacter, ''Canonical output file contains a non-ASCII digit'')
      else if offset = canonicalBytes \<and> v \<noteq> 10
      then Some (VR_invalidOutputCharacter, ''Canonical output file must end with one newline'')
      else if offset \<ge> expectedFileSize then Some (VR_trailingData, ''Canonical output file contains trailing data'')
      else None)"

fun inspectChars :: "u64 \<Rightarrow> u64 \<Rightarrow> u64 \<Rightarrow> u8 list \<Rightarrow> (VerificationReason \<times> string \<times> u64) + u64" where
  "inspectChars canonicalBytes expectedFileSize offset [] = Inr offset"
| "inspectChars canonicalBytes expectedFileSize offset (v # vs) =
     (case inspectChar canonicalBytes expectedFileSize offset v of
        Some (reason, detail) \<Rightarrow> Inl (reason, detail, offset)
      | None \<Rightarrow> inspectChars canonicalBytes expectedFileSize (offset + 1) vs)"

function inspectLoop :: "os_env \<Rightarrow> u64 \<Rightarrow> u64 \<Rightarrow> u8 list \<Rightarrow> u64 \<Rightarrow> os \<Rightarrow> ((VerificationReason \<times> string \<times> u64) + (stream_state \<times> u64)) \<times> os" where
  "inspectLoop env canonicalBytes expectedFileSize rest offset s =
     (case stream_take env 65536 rest s of ((got, state, rest'), s') \<Rightarrow>
        case inspectChars canonicalBytes expectedFileSize offset got of
          Inl e \<Rightarrow> (Inl e, s')
        | Inr offset' \<Rightarrow>
            if state = Stream_good then inspectLoop env canonicalBytes expectedFileSize rest' offset' s'
            else (Inr (state, offset'), s'))"
  by auto
termination
proof (relation "measure (\<lambda>(_, _, _, rest, _, _). length rest)", simp_all, goal_cases)
  case (1 env canonicalBytes expectedFileSize rest offset s p s' got q state rest' offset')
  then have t: "stream_take env 65536 rest s = ((got, Stream_good, rest'), s')"
    by (metis prod.collapse)
  show ?case
    using stream_take_delivers(1) [OF t] stream_take_delivers(4) [OF t] by simp
qed

declare inspectLoop.simps [simp del]

definition inspectFile :: "os_env \<Rightarrow> path \<Rightarrow> u64 \<Rightarrow> (os, OutputFileInspection) action" where
  "inspectFile env p requested s =
     (if requested = 0 then (file_rejection VR_operationFailed ''Requested digit count must be greater than zero'' None, s)
      else if requested > - 1 - 3 then (file_rejection VR_invalidOutputLength ''Expected output file length overflows uint64'' None, s)
      else case stream_open env p s of
        (None, s) \<Rightarrow> (file_rejection VR_fileReadFailed ''Cannot open final output file'' None, s)
      | (Some rest, s) \<Rightarrow>
          let canonicalBytes = requested + 2; expectedFileSize = canonicalBytes + 1 in
          case inspectLoop env canonicalBytes expectedFileSize rest 0 s of
            (Inl (reason, detail, offset), s) \<Rightarrow> (file_rejection reason detail (Some offset), s)
          | (Inr (state, offset), s) \<Rightarrow>
              if state \<noteq> Stream_eof then (file_rejection VR_fileReadFailed ''Failed while reading final output file'' (Some offset), s)
              else if offset \<noteq> expectedFileSize
              then (file_rejection VR_invalidOutputLength ''Canonical output file has an unexpected length'' (Some offset), s)
              else (res_bind (VerificationCheckResult_create Stage_outputStructure VS_passed 0 []) (\<lambda>check.
                Inr \<lparr>oi_verification = check, oi_file = Some \<lparr>io_path = p, io_fileSize = offset,
                  io_canonicalByteCount = canonicalBytes, io_requestedDigits = requested\<rparr>\<rparr>), s))"

section \<open>What is accepted\<close>

definition canonical_text :: "u64 \<Rightarrow> string \<Rightarrow> bool" where
  "canonical_text n s \<longleftrightarrow> n \<noteq> 0 \<and> (\<exists>ds. s = ''3.'' @ ds \<and> length ds = unat n \<and> (\<forall>c \<in> set ds. \<not> not_digit c))"

lemma findNonDigit_None: "findNonDigit k s = None \<longleftrightarrow> (\<forall>c \<in> set s. \<not> not_digit c)"
  by (induction s arbitrary: k) auto

lemma structureFailure_eq:
  "structureFailure reason detail offset = Inr \<lparr>vc_stage = Stage_outputStructure, vc_status = VS_failed, vc_duration = 0,
     vc_diagnostics = [\<lparr>vd_stage = Stage_outputStructure, vd_reason = reason, vd_detail = detail, vd_offset = offset\<rparr>]\<rparr>"
  by (simp add: structureFailure_def VerificationCheckResult_create_iff check_ok_def)

lemma structurePassed_eq:
  "VerificationCheckResult_create Stage_outputStructure VS_passed 0 [] = Inr \<lparr>vc_stage = Stage_outputStructure, vc_status = VS_passed,
     vc_duration = 0, vc_diagnostics = []\<rparr>"
  by (simp add: VerificationCheckResult_create_iff check_ok_def)

text \<open>The shape of every inspection: a well-formed result of its stage, with the decimal exactly when it passed.\<close>

definition structure_check :: "bool \<Rightarrow> VerificationCheckResult \<Rightarrow> bool" where
  "structure_check good c \<longleftrightarrow> check_ok c \<and> vc_stage c = Stage_outputStructure \<and> vc_status c = (if good then VS_passed else VS_failed)"

lemma unat_plus_2: "\<not> n > - 1 - (2 :: u64) \<Longrightarrow> unat (n + 2) = unat n + 2"
proof -
  assume "\<not> n > - 1 - (2 :: u64)"
  moreover have "unat (- 1 - 2 :: u64) = 2 ^ 64 - 3"
    by simp
  ultimately show ?thesis
    using unat_add_no_wrap [of n 2] by (simp add: word_less_nat_alt)
qed

lemma canonical_text_iff:
  assumes "n \<noteq> 0"
  shows "canonical_text n s \<longleftrightarrow> 2 \<le> length s \<and> s ! 0 = CHR ''3'' \<and> s ! 1 = CHR ''.'' \<and> length s = unat n + 2 \<and> findNonDigit 2 (drop 2 s) = None"
proof
  assume "canonical_text n s"
  then show "2 \<le> length s \<and> s ! 0 = CHR ''3'' \<and> s ! 1 = CHR ''.'' \<and> length s = unat n + 2 \<and> findNonDigit 2 (drop 2 s) = None"
    by (auto simp: canonical_text_def findNonDigit_None)
next
  assume a: "2 \<le> length s \<and> s ! 0 = CHR ''3'' \<and> s ! 1 = CHR ''.'' \<and> length s = unat n + 2 \<and> findNonDigit 2 (drop 2 s) = None"
  then obtain c d ds where "s = c # d # ds"
    by (metis Suc_le_length_iff numeral_2_eq_2)
  then show "canonical_text n s"
    using a assms by (auto simp: canonical_text_def findNonDigit_None)
qed

lemma inspectCanonicalDecimal_exact:
  "\<exists>i. inspectCanonicalDecimal s n = Inr i \<and> structure_check (canonical_text n s \<and> n \<le> - 1 - 2) (ci_verification i)
     \<and> ci_decimal i = (if canonical_text n s \<and> n \<le> - 1 - 2 then Some \<lparr>cd_bytes = s, cd_requestedDigits = n\<rparr> else None)"
proof (cases "n = 0 \<or> n > - 1 - 2")
  case True
  then have "\<not> (canonical_text n s \<and> n \<le> - 1 - 2)"
    by (auto simp: canonical_text_def)
  then show ?thesis
    using True by (auto simp: inspectCanonicalDecimal_def decimal_rejection_def structureFailure_eq structure_check_def check_ok_def)
next
  case False
  then have n: "n \<noteq> 0" "\<not> n > - 1 - 2" "n \<le> - 1 - 2" "unat (n + 2) = unat n + 2"
    using unat_plus_2 [of n] by (simp_all add: not_less)
  show ?thesis
    using n unfolding inspectCanonicalDecimal_def canonical_text_iff [OF n(1)] Let_def
    by (auto simp: decimal_rejection_def structureFailure_eq structurePassed_eq structure_check_def check_ok_def not_less split: option.split)
qed

lemma inspectChars_Inr:
  "inspectChars cb ef offset bs = Inr offset' \<longleftrightarrow>
     offset' = offset + of_nat (length bs) \<and> (\<forall>i < length bs. inspectChar cb ef (offset + of_nat i) (bs ! i) = None)"
proof (induction bs arbitrary: offset)
  case (Cons b bs)
  show ?case
    by (cases "inspectChar cb ef offset b") (auto simp: Cons.IH All_less_Suc2 ac_simps)
qed auto

lemma inspectChars_append:
  "inspectChars cb ef offset (xs @ ys) = (case inspectChars cb ef offset xs of Inl e \<Rightarrow> Inl e | Inr o' \<Rightarrow> inspectChars cb ef o' ys)"
  by (induction xs arbitrary: offset) (auto split: option.splits)

lemma inspectLoop_eof:
  "inspectLoop env cb ef rest offset s = (r, s') \<Longrightarrow> os_disk s' = os_disk s \<and> (\<forall>o'. r = Inr (Stream_eof, o') \<longrightarrow> inspectChars cb ef offset rest = Inr o')"
proof (induction "length rest" arbitrary: rest offset s rule: less_induct)
  case less
  obtain got state rest' s1 where t: "stream_take env 65536 rest s = ((got, state, rest'), s1)"
    by (metis surj_pair)
  note d = stream_take_delivers [OF t]
  show ?case
  proof (cases "inspectChars cb ef offset got")
    case (Inl e)
    then show ?thesis
      using less.prems t d(3) by (auto simp: inspectLoop.simps)
  next
    case (Inr o1)
    show ?thesis
    proof (cases "state = Stream_good")
      case True
      then have "inspectLoop env cb ef rest' o1 s1 = (r, s')"
        using less.prems t Inr by (simp add: inspectLoop.simps [of env cb ef rest])
      moreover have "length rest' < length rest"
        using d(1) d(4) [OF True] by simp
      ultimately show ?thesis
        using less.hyps [of rest' o1 s1] d(1,3) Inr by (simp add: inspectChars_append)
    next
      case False
      then have "r = Inr (state, o1)" "s' = s1"
        using less.prems t Inr by (simp_all add: inspectLoop.simps [of env cb ef rest])
      then show ?thesis
        using Inr d(1,3,5) by auto
    qed
  qed
qed

lemma inspectLoop_calm:
  assumes "\<And>n. env_errno env n = None"
  shows "\<exists>s'. inspectLoop env cb ef rest offset s =
    (case inspectChars cb ef offset rest of Inl e \<Rightarrow> Inl e | Inr o' \<Rightarrow> Inr (Stream_eof, o'), s') \<and> os_disk s' = os_disk s"
proof (induction "length rest" arbitrary: rest offset s rule: less_induct)
  case less
  define n :: nat where "n = 65536"
  have whole: "inspectChars cb ef offset rest = (case inspectChars cb ef offset (take n rest) of Inl e \<Rightarrow> Inl e
      | Inr o' \<Rightarrow> inspectChars cb ef o' (drop n rest))"
    using inspectChars_append [of cb ef offset "take n rest" "drop n rest"] by simp
  have loop: "inspectLoop env cb ef rest offset s = (case inspectChars cb ef offset (take n rest) of
      Inl e \<Rightarrow> (Inl e, tick s (os_disk s))
    | Inr o' \<Rightarrow> if n \<le> length rest then inspectLoop env cb ef (drop n rest) o' (tick s (os_disk s)) else (Inr (Stream_eof, o'), tick s (os_disk s)))"
    by (subst inspectLoop.simps) (simp add: stream_calm [OF assms] n_def [symmetric] split: sum.split)
  show ?case
  proof (cases "inspectChars cb ef offset (take n rest)")
    case (Inl e)
    then show ?thesis
      by (simp add: whole loop)
  next
    case (Inr o1)
    show ?thesis
    proof (cases "n \<le> length rest")
      case True
      then have "length (drop n rest) < length rest"
        by (simp add: n_def)
      then show ?thesis
        using less [of "drop n rest" o1 "tick s (os_disk s)"] True by (simp add: whole loop Inr)
    next
      case False
      then show ?thesis
        by (simp add: whole loop Inr)
    qed
  qed
qed

text \<open>The bytes of an output file: a canonical text and a newline.\<close>

lemma unat_char: "unat (of_nat (of_char c) :: u8) = of_char c"
  by (simp add: unat_of_nat)

lemma not_digit_byte: "not_digit c \<longleftrightarrow> (of_nat (of_char c) :: u8) < 48 \<or> (of_nat (of_char c) :: u8) > 57"
  by (simp add: not_digit_def word_less_nat_alt unat_char)

lemma unat_plus_3:
  assumes "n \<le> - 1 - (3 :: u64)"
  shows "unat n + 3 < 2 ^ 64" and "unat (n + 2) = unat n + 2" and "unat (n + 2 + 1) = unat n + 3"
proof -
  have "unat (- 1 - 3 :: u64) = 2 ^ 64 - 4"
    by simp
  then show *: "unat n + 3 < 2 ^ 64"
    using assms by (simp add: word_le_nat_alt)
  then show 2: "unat (n + 2) = unat n + 2"
    using unat_add_no_wrap [of n 2] by simp
  then show "unat (n + 2 + 1) = unat n + 3"
    using unat_add_no_wrap [of "n + 2" 1] * by simp
qed

lemma inspectChar_at:
  assumes "n \<le> - 1 - 3" and "i < 2 ^ 64"
  shows "inspectChar (n + 2) (n + 2 + 1) (of_nat i) v = None \<longleftrightarrow>
    i < unat n + 3 \<and> (i = 0 \<longrightarrow> v = 51) \<and> (i = 1 \<longrightarrow> v = 46) \<and> (2 \<le> i \<and> i < unat n + 2 \<longrightarrow> 48 \<le> v \<and> v \<le> 57) \<and> (i = unat n + 2 \<longrightarrow> v = 10)"
proof -
  have i: "unat (of_nat i :: u64) = i"
    using assms(2) by (simp add: unat_of_nat)
  note n = unat_plus_3 [OF assms(1)]
  have k: "(of_nat i :: u64) = 0 \<longleftrightarrow> i = 0" "(of_nat i :: u64) = 1 \<longleftrightarrow> i = 1" "(of_nat i :: u64) \<ge> 2 \<longleftrightarrow> i \<ge> 2"
    "of_nat i < n + 2 \<longleftrightarrow> i < unat n + 2" "of_nat i = n + 2 \<longleftrightarrow> i = unat n + 2" "of_nat i \<ge> n + 2 + 1 \<longleftrightarrow> i \<ge> unat n + 3"
    by (simp_all only: word_unat_eq_iff word_less_nat_alt word_le_nat_alt i n unat_0 unat_1) simp_all
  show ?thesis
    unfolding inspectChar_def k by (auto simp: not_less not_le)
qed

lemma file_layout:
  "length bs = N + 3 \<and> (\<forall>i < N + 3. (i = 0 \<longrightarrow> bs ! i = (51 :: u8)) \<and> (i = 1 \<longrightarrow> bs ! i = 46)
      \<and> (2 \<le> i \<and> i < N + 2 \<longrightarrow> 48 \<le> bs ! i \<and> bs ! i \<le> 57) \<and> (i = N + 2 \<longrightarrow> bs ! i = 10))
   \<longleftrightarrow> (\<exists>ds. bs = [51, 46] @ ds @ [10] \<and> length ds = N \<and> (\<forall>d \<in> set ds. 48 \<le> d \<and> d \<le> 57))"
  (is "?A \<longleftrightarrow> ?B")
proof
  assume a: ?A
  then obtain x y zs where bs: "bs = x # y # zs" and zs: "length zs = Suc N"
    by (metis (no_types, lifting) Suc_length_conv add_Suc_right numeral_3_eq_3 add.right_neutral)
  then obtain ds l where z: "zs = ds @ [l]" "length ds = N"
    by (metis append_butlast_last_id length_append_singleton list.size(3) nat.inject nat.simps(3))
  have "48 \<le> ds ! j \<and> ds ! j \<le> 57" if "j < N" for j
    using a that z(2) by (auto simp: bs z nth_append dest!: spec [of _ "j + 2"])
  moreover have "x = 51"
    using a bs by (auto dest!: spec [of _ 0])
  moreover have "y = 46"
    using a bs by (auto dest!: spec [of _ 1])
  moreover have "l = 10"
    using a bs z by (auto simp: nth_append dest!: spec [of _ "N + 2"])
  ultimately show ?B
    using bs z by (auto simp: in_set_conv_nth)
next
  assume ?B
  then obtain ds where ds: "bs = [51, 46] @ ds @ [10]" "length ds = N" "\<forall>d \<in> set ds. 48 \<le> d \<and> d \<le> 57"
    by blast
  have "bs ! i = ds ! (i - 2)" if "2 \<le> i" "i < N + 2" for i
    using that ds(1,2) by (simp add: nth_append nth_Cons' numeral_2_eq_2) linarith
  then have "48 \<le> bs ! i \<and> bs ! i \<le> 57" if "2 \<le> i" "i < N + 2" for i
    using that ds(2,3) nth_mem [of "i - 2" ds] by simp
  then show ?A
    using ds(1,2) by (auto simp: nth_append)
qed

lemma canonical_bytes:
  "canonical_text n s \<and> bs = string_bytes s @ [10] \<longleftrightarrow>
     n \<noteq> 0 \<and> (\<exists>ds. s = ''3.'' @ ds \<and> bs = [51, 46] @ string_bytes ds @ [10] \<and> length ds = unat n \<and> (\<forall>d \<in> set (string_bytes ds). 48 \<le> d \<and> d \<le> 57))"
  by (auto simp: canonical_text_def string_bytes_def not_digit_byte not_less)

lemma output_bytes:
  assumes "n \<noteq> 0" and "n \<le> - 1 - 3"
  shows "inspectChars (n + 2) (n + 2 + 1) 0 bs = Inr (n + 2 + 1) \<longleftrightarrow> (\<exists>s. canonical_text n s \<and> bs = string_bytes s @ [10])"
proof -
  let ?N = "unat n"
  note w = unat_plus_3 [OF assms(2)]
  have "inspectChars (n + 2) (n + 2 + 1) 0 bs = Inr (n + 2 + 1) \<longleftrightarrow>
    length bs = ?N + 3 \<and> (\<forall>i < length bs. inspectChar (n + 2) (n + 2 + 1) (of_nat i) (bs ! i) = None)" (is "?L \<longleftrightarrow> ?R")
  proof
    assume l: ?L
    then have all: "\<forall>i < length bs. inspectChar (n + 2) (n + 2 + 1) (of_nat i) (bs ! i) = None" and len: "of_nat (length bs) = n + 2 + 1"
      by (simp_all only: inspectChars_Inr add_0) auto
    have "\<not> ?N + 3 < length bs"
      using all inspectChar_at [OF assms(2) w(1)] by blast
    then have "unat (of_nat (length bs) :: u64) = length bs"
      using w(1) by (simp add: unat_of_nat)
    then show ?R
      using all len w(3) by simp
  next
    assume r: ?R
    have "(of_nat (?N + 3) :: u64) = n + 2 + 1"
      by (simp only: word_unat_eq_iff w(3)) (use w(1) in \<open>simp add: unat_of_nat del: of_nat_add\<close>)
    then show ?L
      using r by (simp add: inspectChars_Inr)
  qed
  also have "\<dots> \<longleftrightarrow> (\<exists>ds. bs = [51, 46] @ ds @ [10] \<and> length ds = ?N \<and> (\<forall>d \<in> set ds. 48 \<le> d \<and> d \<le> 57))"
    unfolding file_layout [symmetric]
  proof (intro conj_cong refl)
    assume len: "length bs = ?N + 3"
    have "inspectChar (n + 2) (n + 2 + 1) (of_nat i) (bs ! i) = None \<longleftrightarrow> (i = 0 \<longrightarrow> bs ! i = 51) \<and> (i = 1 \<longrightarrow> bs ! i = 46)
        \<and> (2 \<le> i \<and> i < ?N + 2 \<longrightarrow> 48 \<le> bs ! i \<and> bs ! i \<le> 57) \<and> (i = ?N + 2 \<longrightarrow> bs ! i = 10)" if "i < ?N + 3" for i
      using inspectChar_at [OF assms(2) less_trans [OF that w(1)], of "bs ! i"] that by blast
    then show "(\<forall>i < length bs. inspectChar (n + 2) (n + 2 + 1) (of_nat i) (bs ! i) = None) \<longleftrightarrow> (\<forall>i < ?N + 3. (i = 0 \<longrightarrow> bs ! i = 51)
        \<and> (i = 1 \<longrightarrow> bs ! i = 46) \<and> (2 \<le> i \<and> i < ?N + 2 \<longrightarrow> 48 \<le> bs ! i \<and> bs ! i \<le> 57) \<and> (i = ?N + 2 \<longrightarrow> bs ! i = 10))"
      unfolding len by blast
  qed
  also have "\<dots> \<longleftrightarrow> (\<exists>s. canonical_text n s \<and> bs = string_bytes s @ [10])"
    unfolding canonical_bytes using assms(1) by (metis length_string_bytes(1) string_bytes_string)
  finally show ?thesis .
qed

lemma inspectFile_exact:
  assumes "inspectFile env p n s = (r, s')"
  shows "\<exists>i. r = Inr i \<and> os_disk s' = os_disk s \<and> structure_check (oi_file i \<noteq> None) (oi_verification i)
    \<and> (\<forall>f. oi_file i = Some f \<longrightarrow> f = \<lparr>io_path = p, io_fileSize = n + 2 + 1, io_canonicalByteCount = n + 2, io_requestedDigits = n\<rparr>
         \<and> n \<le> - 1 - 3 \<and> (\<exists>t. canonical_text n t \<and> content (os_disk s) p = Some (string_bytes t @ [10])))"
proof (cases "n = 0 \<or> n > - 1 - 3")
  case True
  then show ?thesis
    using assms by (auto simp: inspectFile_def file_rejection_def structureFailure_eq structure_check_def check_ok_def split: if_splits)
next
  case False
  then have n: "n \<noteq> 0" "n \<le> - 1 - 3" "\<not> n > - 1 - 3"
    by (simp_all add: not_less)
  obtain o1 s1 where o: "stream_open env p s = (o1, s1)"
    by (metis surj_pair)
  note disk = stream_open_disk [OF o]
  show ?thesis
  proof (cases o1)
    case None
    then show ?thesis
      using assms n o disk by (auto simp: inspectFile_def file_rejection_def structureFailure_eq structure_check_def check_ok_def)
  next
    case (Some rest)
    obtain q s2 where l: "inspectLoop env (n + 2) (n + 2 + 1) rest 0 s1 = (q, s2)"
      by (metis surj_pair)
    note e = inspectLoop_eof [OF l]
    show ?thesis
    proof (cases "q = Inr (Stream_eof, n + 2 + 1)")
      case True
      then have "r = Inr \<lparr>oi_verification = \<lparr>vc_stage = Stage_outputStructure, vc_status = VS_passed, vc_duration = 0, vc_diagnostics = []\<rparr>,
          oi_file = Some \<lparr>io_path = p, io_fileSize = n + 2 + 1, io_canonicalByteCount = n + 2, io_requestedDigits = n\<rparr>\<rparr>" "s' = s2"
        using assms n o Some l by (simp_all add: inspectFile_def Let_def structurePassed_eq)
      moreover have "\<exists>t. canonical_text n t \<and> content (os_disk s) p = Some (string_bytes t @ [10])"
        using e True output_bytes [OF n(1,2), of rest] disk Some by auto
      ultimately show ?thesis
        using e disk n(2) by (simp add: structure_check_def check_ok_def)
    next
      case False
      then have "\<exists>reason detail offset. (r, s') = (file_rejection reason detail offset, s2)"
        using assms n o Some l by (auto simp: inspectFile_def Let_def split: sum.splits prod.splits if_splits)
      then show ?thesis
        using e disk by (auto simp: file_rejection_def structureFailure_eq structure_check_def check_ok_def)
    qed
  qed
qed

lemma inspectFile_calm:
  assumes calm: "\<And>k. env_errno env k = None" and t: "canonical_text n t" and n: "n \<le> - 1 - 3"
    and c: "content (os_disk s) p = Some (string_bytes t @ [10])"
  shows "\<exists>i. fst (inspectFile env p n s) = Inr i \<and> file_accepted i"
proof -
  have n0: "n \<noteq> 0"
    using t by (simp add: canonical_text_def)
  have "inspectChars (n + 2) (n + 2 + 1) 0 (string_bytes t @ [10]) = Inr (n + 2 + 1)"
    using output_bytes [OF n0 n] t by blast
  moreover obtain s1 where o: "stream_open env p s = (Some (string_bytes t @ [10]), s1)"
    using stream_calm(1) [OF calm] c by (metis surj_pair prod.inject)
  ultimately obtain s2 where "inspectLoop env (n + 2) (n + 2 + 1) (string_bytes t @ [10]) 0 s1 = (Inr (Stream_eof, n + 2 + 1), s2)"
    using inspectLoop_calm [OF calm, of "n + 2" "n + 2 + 1" "string_bytes t @ [10]" 0 s1] by auto
  then show ?thesis
    using n0 n o by (auto simp: inspectFile_def Let_def structurePassed_eq file_accepted_def not_less)
qed

section \<open>Properties\<close>

text \<open>
  C39: The inspection of the output never throws, and it accepts exactly the canonical text.  In memory a
  candidate is accepted if and only if it is \<open>3.\<close> followed by the requested number of digits.  A file
  is accepted only when it holds such a text and one newline, whichever calls fail, and it is accepted
  when no call fails; the file is left alone and the result satisfies the contract of its class.
\<close>

theorem OutputInspection_exact:
  "\<exists>m f s'. inspectMemory t n = Inr m \<and> check_ok (ci_verification m)
     \<and> (inspection_accepted m \<longleftrightarrow> canonical_text n t \<and> n \<le> - 1 - 2)
     \<and> (inspection_accepted m \<longrightarrow> ci_decimal m = Some \<lparr>cd_bytes = t, cd_requestedDigits = n\<rparr>)
     \<and> inspectFile env p n s = (Inr f, s') \<and> os_disk s' = os_disk s \<and> check_ok (oi_verification f)
     \<and> (file_accepted f \<longrightarrow> n \<le> - 1 - 3 \<and> (\<exists>t. canonical_text n t \<and> content (os_disk s) p = Some (string_bytes t @ [10])))
     \<and> ((\<forall>k. env_errno env k = None) \<and> n \<le> - 1 - 3 \<and> canonical_text n t \<and> content (os_disk s) p = Some (string_bytes t @ [10]) \<longrightarrow> file_accepted f)"
proof -
  obtain m where m: "inspectCanonicalDecimal t n = Inr m" "structure_check (canonical_text n t \<and> n \<le> - 1 - 2) (ci_verification m)"
      "ci_decimal m = (if canonical_text n t \<and> n \<le> - 1 - 2 then Some \<lparr>cd_bytes = t, cd_requestedDigits = n\<rparr> else None)"
    using inspectCanonicalDecimal_exact by blast
  obtain r s' where r: "inspectFile env p n s = (r, s')"
    by (metis surj_pair)
  obtain f where f: "r = Inr f" "os_disk s' = os_disk s" "structure_check (oi_file f \<noteq> None) (oi_verification f)"
      "\<And>i. oi_file f = Some i \<Longrightarrow> n \<le> - 1 - 3 \<and> (\<exists>t. canonical_text n t \<and> content (os_disk s) p = Some (string_bytes t @ [10]))"
    using inspectFile_exact [OF r] by auto
  have "file_accepted f" if "\<forall>k. env_errno env k = None" "n \<le> - 1 - 3" "canonical_text n t" "content (os_disk s) p = Some (string_bytes t @ [10])"
    using inspectFile_calm [of env n t s p] that r f(1) by auto
  then show ?thesis
    using m f r unfolding inspectMemory_def
    by (intro exI [of _ m] exI [of _ f] exI [of _ s']) (auto simp: structure_check_def inspection_accepted_def file_accepted_def)
qed

theorem OutputInspection_exact_witness:
  "\<exists>f s'. inspectFile calm_env (Path ''out'' ''pi.txt'') 2 (file_os (Path ''out'' ''pi.txt'') (string_bytes ''3.14'' @ [10])) = (Inr f, s') \<and> file_accepted f"
proof -
  have "canonical_text 2 ''3.14''"
    unfolding canonical_text_def by (intro conjI exI [of _ "''14''"]) (auto simp: not_digit_def)
  then show ?thesis
    using OutputInspection_exact [of "''3.14''" 2 calm_env "Path ''out'' ''pi.txt''" "file_os (Path ''out'' ''pi.txt'') (string_bytes ''3.14'' @ [10])"]
    by (auto simp: content_file_os calm_env_def)
qed

end
