(* ===== verification/Pi_Reference.thy ===== *)
theory Pi_Reference
  imports Prelude
begin

text \<open>
  The digits of \<open>pi\<close>: the numerator and denominator of a partial sum of the arctangent series, the bounds
  of \<open>pi\<close> that Machin's formula gives, and the decimal value of a string of digits.
\<close>

section \<open>Partial sums of the arctangent series\<close>

text \<open>After \<open>k\<close> terms of the series at \<open>1 / m\<close>: the sign of the next term, its odd number, the numerator, the denominator and the product of the odd numbers.\<close>

primrec arctan_fraction :: "int \<Rightarrow> nat \<Rightarrow> int \<times> int \<times> int \<times> int \<times> int" where
  "arctan_fraction m 0 = (1, 1, 0, m, 1)"
| "arctan_fraction m (Suc k) = (case arctan_fraction m k of (sign, j, n, d, f) \<Rightarrow>
     (- sign, j + 2, (n * j + sign * f) * (m * m), d * j * (m * m), f * j))"

definition arctan_partial :: "int \<Rightarrow> nat \<Rightarrow> real" where
  "arctan_partial m k = (\<Sum>i<k. (- 1) ^ i * (1 / real (i * 2 + 1) * (1 / real_of_int m) ^ (i * 2 + 1)))"

lemma arctan_fraction_eq:
  assumes "0 < m" and "arctan_fraction m k = (sign, j, n, d, f)"
  shows "sign = (- 1) ^ k \<and> j = 2 * int k + 1 \<and> 0 < f \<and> d = m ^ (2 * k + 1) * f \<and> real_of_int n / real_of_int d = arctan_partial m k"
  using assms(2)
proof (induction k arbitrary: sign j n d f)
  case 0
  then show ?case
    by (auto simp: arctan_partial_def)
next
  case (Suc k)
  obtain sg j' n' d' f' where e: "arctan_fraction m k = (sg, j', n', d', f')"
    by (metis surj_pair)
  note ih = Suc.IH [OF e]
  have new: "sign = - sg" "j = j' + 2" "n = (n' * j' + sg * f') * (m * m)" "d = d' * j' * (m * m)" "f = f' * j'"
    using Suc.prems e by auto
  have j: "0 < j'"
    using ih by simp
  have "real_of_int n / real_of_int d = real_of_int n' / real_of_int d' + real_of_int sg * real_of_int f' / (real_of_int d' * real_of_int j')"
    using ih assms(1) j by (simp add: new divide_simps) (simp add: algebra_simps)
  also have "real_of_int sg * real_of_int f' / (real_of_int d' * real_of_int j') = (- 1) ^ k * (1 / real (k * 2 + 1) * (1 / real_of_int m) ^ (k * 2 + 1))"
    using ih assms(1) by (simp add: divide_simps) (simp add: algebra_simps)
  also have "real_of_int n' / real_of_int d' = arctan_partial m k"
    using ih by blast
  finally have "real_of_int n / real_of_int d = arctan_partial m (Suc k)"
    by (simp only: arctan_partial_def sum.lessThan_Suc)
  moreover have "d = m ^ (2 * Suc k + 1) * f"
    using ih by (simp add: new power2_eq_square algebra_simps)
  ultimately show ?case
    using ih j by (simp add: new)
qed

lemma arctan_bounds:
  assumes "1 < m"
  shows "arctan_partial m (2 * k) \<le> arctan (1 / real_of_int m)" and "arctan (1 / real_of_int m) \<le> arctan_partial m (2 * k + 1)"
proof -
  let ?x = "1 / real_of_int m"
  let ?a = "\<lambda>n. 1 / real (n * 2 + 1) * ?x ^ (n * 2 + 1)"
  have x: "\<bar>?x\<bar> \<le> 1"
    using assms by simp
  have "0 < ?a 0"
    using assms by simp
  then have "(\<Sum>i. (- 1) ^ i * ?a i) \<in> {\<Sum>i<2 * k. (- 1) ^ i * ?a i .. \<Sum>i<2 * k + 1. (- 1) ^ i * ?a i}"
    using summable_Leibniz(2) [OF zeroseq_arctan_series [OF x] monoseq_arctan_series [OF x]] by blast
  then show "arctan_partial m (2 * k) \<le> arctan ?x" "arctan ?x \<le> arctan_partial m (2 * k + 1)"
    using arctan_series [OF x] by (simp_all add: arctan_partial_def)
qed

section \<open>Bounds of pi\<close>

text \<open>The partial sums to 106 decimals.\<close>

definition decimal_of :: "int \<Rightarrow> int \<times> int \<times> int \<times> int \<times> int \<Rightarrow> bool" where
  "decimal_of q r = (case r of (_, _, n, d, _) \<Rightarrow> let e = n * 10 ^ 106 - q * d in 0 \<le> e \<and> e \<le> d)"

definition arctan_5 :: int where
  "arctan_5 = 1973955598498807583700497651947902934475851037878521015176889402410339699782437857326978280372880441126281"

definition arctan_239 :: int where
  "arctan_239 = 41840760020747238645382149592854527410480653076319508270196128871817783414228932737826058136229094549754"

definition pi_digits :: int where
  "pi_digits = 314159265358979323846264338327950288419716939937510582097494459230781640628620899862803482534211706798"

lemma arctan_5_decimal: "decimal_of arctan_5 (arctan_fraction 5 76)"
  by code_simp

lemma arctan_239_decimal: "decimal_of arctan_239 (arctan_fraction 239 22)"
  by code_simp

lemma decimal_of_bounds:
  assumes "1 < m" and "decimal_of q (arctan_fraction m (2 * k))" and "10 ^ 106 \<le> m ^ (4 * k + 1)"
  shows "real_of_int q \<le> 10 ^ 106 * arctan (1 / real_of_int m)" and "10 ^ 106 * arctan (1 / real_of_int m) \<le> real_of_int q + 2"
proof -
  obtain sg j n d f where e: "arctan_fraction m (2 * k) = (sg, j, n, d, f)"
    by (metis surj_pair)
  have f: "0 < d" "real_of_int n / real_of_int d = arctan_partial m (2 * k)"
    using arctan_fraction_eq [OF _ e] assms(1) by (simp, metis zero_less_one less_trans)
  have q: "q * d \<le> n * 10 ^ 106" "n * 10 ^ 106 \<le> (q + 1) * d"
    using assms(2) e by (simp_all add: decimal_of_def Let_def algebra_simps)
  have "real_of_int q * real_of_int d \<le> real_of_int n * 10 ^ 106" "real_of_int n * 10 ^ 106 \<le> (real_of_int q + 1) * real_of_int d"
    using q [THEN of_int_le_iff [THEN iffD2, where ?'a1 = real]] by simp_all
  then have p: "real_of_int q \<le> 10 ^ 106 * arctan_partial m (2 * k)" "10 ^ 106 * arctan_partial m (2 * k) \<le> real_of_int q + 1"
    using f(1) unfolding f(2) [symmetric] by (simp_all add: field_simps)
  then show "real_of_int q \<le> 10 ^ 106 * arctan (1 / real_of_int m)"
    using arctan_bounds(1) [OF assms(1), of k] by simp
  have large: "(10 :: real) ^ 106 \<le> real_of_int m ^ (4 * k + 1)"
    using assms(3) [THEN of_int_le_iff [THEN iffD2, where ?'a1 = real]] by simp
  have "z * (1 / (c * x)) \<le> 1" if "z \<le> x" "1 \<le> c" "0 < x" for z x c :: real
  proof -
    have "x \<le> c * x"
      using that by (simp add: mult_le_cancel_right1)
    then have "z \<le> c * x"
      using that by linarith
    then show ?thesis
      using that by (simp add: divide_simps)
  qed
  from this [OF large, of "real (4 * k + 1)"]
  have small: "10 ^ 106 * (1 / (real (4 * k + 1) * real_of_int m ^ (4 * k + 1))) \<le> 1"
    using assms(1) by simp
  have step: "arctan_partial m (2 * k + 1) = arctan_partial m (2 * k) + 1 / (real (4 * k + 1) * real_of_int m ^ (4 * k + 1))"
    by (simp add: arctan_partial_def power_divide mult.assoc)
  have "10 ^ 106 * arctan (1 / real_of_int m) \<le> 10 ^ 106 * arctan_partial m (2 * k + 1)"
    using arctan_bounds(2) [OF assms(1), of k] by simp
  then have "10 ^ 106 * arctan (1 / real_of_int m) \<le> 10 ^ 106 * arctan_partial m (2 * k) + 10 ^ 106 * (1 / (real (4 * k + 1) * real_of_int m ^ (4 * k + 1)))"
    unfolding step distrib_left .
  then show "10 ^ 106 * arctan (1 / real_of_int m) \<le> real_of_int q + 2"
    using p(2) small by linarith
qed

lemma machin_interval:
  fixes x y a b :: real
  assumes "p = 16 * x - 4 * y" and "a \<le> x" and "x \<le> a + 2" and "b \<le> y" and "y \<le> b + 2"
  shows "16 * a - 4 * (b + 2) \<le> p" and "p \<le> 16 * (a + 2) - 4 * b"
  using assms by simp_all

lemma pi_decimal: "\<lfloor>10 ^ 101 * pi\<rfloor> = pi_digits"
proof (rule floor_unique)
  have pi: "10 ^ 106 * pi = 16 * (10 ^ 106 * arctan (1 / real_of_int 5)) - 4 * (10 ^ 106 * arctan (1 / real_of_int 239))"
    using machin by simp
  have "(10 :: int) ^ 106 \<le> 5 ^ (4 * 38 + 1)" "(10 :: int) ^ 106 \<le> 239 ^ (4 * 11 + 1)"
    by simp_all
  then have b: "real_of_int arctan_5 \<le> 10 ^ 106 * arctan (1 / real_of_int 5)" "10 ^ 106 * arctan (1 / real_of_int 5) \<le> real_of_int arctan_5 + 2"
    "real_of_int arctan_239 \<le> 10 ^ 106 * arctan (1 / real_of_int 239)" "10 ^ 106 * arctan (1 / real_of_int 239) \<le> real_of_int arctan_239 + 2"
    using decimal_of_bounds [of 5 arctan_5 38] decimal_of_bounds [of 239 arctan_239 11] arctan_5_decimal arctan_239_decimal by simp_all
  have "real_of_int (16 * arctan_5 - 4 * (arctan_239 + 2)) \<le> 10 ^ 106 * pi" "10 ^ 106 * pi \<le> real_of_int (16 * (arctan_5 + 2) - 4 * arctan_239)"
    using machin_interval [OF pi b] by (simp_all only: of_int_diff of_int_mult of_int_add of_int_numeral)
  moreover have "pi_digits * 10 ^ 5 \<le> 16 * arctan_5 - 4 * (arctan_239 + 2)" "16 * (arctan_5 + 2) - 4 * arctan_239 < (pi_digits + 1) * 10 ^ 5"
    by (simp_all add: pi_digits_def arctan_5_def arctan_239_def)
  ultimately have "real_of_int (pi_digits * 10 ^ 5) \<le> 10 ^ 106 * pi" "10 ^ 106 * pi < real_of_int ((pi_digits + 1) * 10 ^ 5)"
    by (meson of_int_le_iff of_int_less_iff order.trans order.strict_trans1)+
  then show "real_of_int pi_digits \<le> 10 ^ 101 * pi" "10 ^ 101 * pi < real_of_int pi_digits + 1"
    by simp_all
qed

section \<open>Decimal strings\<close>

definition digit_value :: "char \<Rightarrow> nat" where
  "digit_value c = of_char c - 48"

definition digits_value :: "string \<Rightarrow> nat" where
  "digits_value s = foldl (\<lambda>v c. 10 * v + digit_value c) 0 s"

lemma digits_value_snoc [simp]: "digits_value (s @ [c]) = 10 * digits_value s + digit_value c"
  by (simp add: digits_value_def)

lemma digits_value_Nil [simp]: "digits_value [] = 0"
  by (simp add: digits_value_def)

lemma digits_value_append: "digits_value (s @ t) = digits_value s * 10 ^ length t + digits_value t"
proof (induction t rule: rev_induct)
  case (snoc c t)
  then show ?case
    by (simp flip: append_assoc)
qed simp

end
