(* ===== verification/Known_Digits.thy ===== *)
theory Known_Digits
  imports Output_Inspection Pi_Reference
begin

text \<open>
  The comparison with the published digits (src/verification/KnownDigitsVerifier.cpp).  The reference of
  101 digits is proved to be the start of \<open>pi\<close>, so that the comparison is about \<open>pi\<close> and not about a table.
\<close>

section \<open>Definitions\<close>

definition KNOWN_DIGITS_REFERENCE_VERSION :: u32 where
  "KNOWN_DIGITS_REFERENCE_VERSION = 1"

definition PUBLISHED_REFERENCE_DIGITS :: u64 where
  "PUBLISHED_REFERENCE_DIGITS = 100"

definition REFERENCE_FRACTIONAL_DIGITS :: string where
  "REFERENCE_FRACTIONAL_DIGITS =
     ''14159265358979323846264338327950288419716939937510'' @
     ''582097494459230781640628620899862803482534211706798''"

record KnownDigitsVerification =
  kd_verification :: VerificationCheckResult
  kd_referenceVersion :: u32
  kd_referenceDigits :: u64
  kd_comparedDigits :: u64

definition known_matched :: "KnownDigitsVerification \<Rightarrow> bool" where
  "known_matched k \<longleftrightarrow> vc_status (kd_verification k) = VS_passed"

definition referenceFractionalDigits :: string where
  "referenceFractionalDigits = take (unat PUBLISHED_REFERENCE_DIGITS) REFERENCE_FRACTIONAL_DIGITS"

text \<open>The loop that adds one to the last digit and carries.\<close>

fun roundUpLoop :: "nat \<Rightarrow> string \<Rightarrow> string" where
  "roundUpLoop 0 expected = expected"
| "roundUpLoop (Suc index) expected =
     (if expected ! index \<noteq> CHR ''9'' then expected[index := char_of ((of_char (expected ! index) :: nat) + 1)]
      else roundUpLoop index (expected[index := CHR ''0'']))"

definition expectedPrefix :: "u64 \<Rightarrow> string" where
  "expectedPrefix requested =
     (let compared = min requested PUBLISHED_REFERENCE_DIGITS;
          expected = take (unat compared) REFERENCE_FRACTIONAL_DIGITS in
      if requested \<le> PUBLISHED_REFERENCE_DIGITS \<and> (of_char (REFERENCE_FRACTIONAL_DIGITS ! unat requested) :: nat) \<ge> of_char (CHR ''5'')
      then roundUpLoop (length expected) expected else expected)"

text \<open>
  The first difference; the expected digits are as many as are compared, and both callers pass at least
  as many.
\<close>

fun firstMismatch :: "u64 \<Rightarrow> string \<Rightarrow> string \<Rightarrow> u64 option" where
  "firstMismatch index (a # actual) (e # expected) = (if a \<noteq> e then Some index else firstMismatch (index + 1) actual expected)"
| "firstMismatch index _ _ = None"

definition known_diagnostic :: "VerificationReason \<Rightarrow> string \<Rightarrow> u64 option \<Rightarrow> VerificationDiagnostic" where
  "known_diagnostic reason detail offset = \<lparr>vd_stage = Stage_knownDigits, vd_reason = reason, vd_detail = detail, vd_offset = offset\<rparr>"

definition known_result :: "VerificationCheckResult \<Rightarrow> u64 \<Rightarrow> KnownDigitsVerification" where
  "known_result check compared = \<lparr>kd_verification = check, kd_referenceVersion = KNOWN_DIGITS_REFERENCE_VERSION,
     kd_referenceDigits = PUBLISHED_REFERENCE_DIGITS, kd_comparedDigits = compared\<rparr>"

definition known_compare :: "string \<Rightarrow> u64 \<Rightarrow> KnownDigitsVerification result" where
  "known_compare digits requested =
     (let compared = min requested PUBLISHED_REFERENCE_DIGITS;
          diagnostics = (case firstMismatch 0 digits (expectedPrefix requested) of
              None \<Rightarrow> []
            | Some index \<Rightarrow> [known_diagnostic VR_knownDigitsMismatch ''Canonical decimal differs from known pi prefix'' (Some (index + 2))]);
          status = (if diagnostics = [] then VS_passed else VS_failed) in
      res_bind (VerificationCheckResult_create Stage_knownDigits status 0 diagnostics) (\<lambda>check. Inr (known_result check compared)))"

definition known_readFailure :: "string \<Rightarrow> KnownDigitsVerification result" where
  "known_readFailure detail =
     res_bind (VerificationCheckResult_create Stage_knownDigits VS_failed 0 [known_diagnostic VR_fileReadFailed detail None]) (\<lambda>check.
     Inr (known_result check 0))"

definition KnownDigitsVerifier_verify :: "CanonicalDecimal \<Rightarrow> KnownDigitsVerification result" where
  "KnownDigitsVerifier_verify decimal = known_compare (fractionalDigits decimal) (cd_requestedDigits decimal)"

definition inspected_metadata_ok :: "InspectedOutputFile \<Rightarrow> bool" where
  "inspected_metadata_ok f \<longleftrightarrow> \<not> (io_requestedDigits f = 0 \<or> io_requestedDigits f > - 1 - 3
     \<or> io_canonicalByteCount f \<noteq> io_requestedDigits f + 2 \<or> io_fileSize f \<noteq> io_canonicalByteCount f + 1)"

definition KnownDigitsVerifier_verifyFile :: "os_env \<Rightarrow> InspectedOutputFile \<Rightarrow> (os, KnownDigitsVerification) action" where
  "KnownDigitsVerifier_verifyFile env f s =
     (if \<not> inspected_metadata_ok f then (known_readFailure ''Invalid inspected output metadata'', s)
      else let compared = min (io_requestedDigits f) PUBLISHED_REFERENCE_DIGITS; requiredBytes = unat (compared + 2) in
        case stream_open env (io_path f) s of
          (None, s) \<Rightarrow> (known_readFailure ''Cannot open output file for known-digits verification'', s)
        | (Some rest, s) \<Rightarrow>
            case stream_take env requiredBytes rest s of
              ((got, _, _), s) \<Rightarrow>
                if length got \<noteq> requiredBytes then (known_readFailure ''Output file ended before the known prefix'', s)
                else let prefix = bytes_string got in
                  if prefix ! 0 \<noteq> CHR ''3'' \<or> prefix ! 1 \<noteq> CHR ''.''
                  then (res_bind (VerificationCheckResult_create Stage_knownDigits VS_failed 0
                          [known_diagnostic VR_knownDigitsMismatch ''Canonical decimal prefix changed after inspection''
                             (Some (if prefix ! 0 = CHR ''3'' then 1 else 0))]) (\<lambda>check.
                        Inr (known_result check compared)), s)
                  else (known_compare (drop 2 prefix) (io_requestedDigits f), s))"

section \<open>The digits of a string and of a number\<close>

lemma digit_value_less: "\<not> not_digit c \<Longrightarrow> digit_value c < 10"
  unfolding not_digit_def digit_value_def by linarith

lemma digit_value_eq: "\<not> not_digit c \<Longrightarrow> \<not> not_digit d \<Longrightarrow> digit_value c = digit_value d \<longleftrightarrow> c = d"
  unfolding not_digit_def digit_value_def by (metis diff_diff_cancel diff_le_self le_add_diff_inverse not_less of_char_eq_iff)

definition all_digits :: "string \<Rightarrow> bool" where
  "all_digits s \<longleftrightarrow> (\<forall>c \<in> set s. \<not> not_digit c)"

lemma all_digits_simps [simp]: "all_digits []" "all_digits (s @ t) \<longleftrightarrow> all_digits s \<and> all_digits t" "all_digits (c # s) \<longleftrightarrow> \<not> not_digit c \<and> all_digits s"
  by (auto simp: all_digits_def)

lemma all_digits_take: "all_digits s \<Longrightarrow> all_digits (take n s)" "all_digits s \<Longrightarrow> all_digits (drop n s)"
  by (auto simp: all_digits_def dest: in_set_takeD in_set_dropD)

lemma digits_value_less: "all_digits s \<Longrightarrow> digits_value s < 10 ^ length s"
proof (induction s rule: rev_induct)
  case (snoc c s)
  then show ?case
    using digit_value_less [of c] by simp
qed simp

lemma digits_value_inj: "all_digits s \<Longrightarrow> all_digits t \<Longrightarrow> length s = length t \<Longrightarrow> digits_value s = digits_value t \<longleftrightarrow> s = t"
proof (induction s arbitrary: t rule: rev_induct)
  case (snoc c s)
  then obtain d u where t: "t = u @ [d]"
    by (cases t rule: rev_exhaust) auto
  then have "digit_value c < 10" "digit_value d < 10" "digit_value c = digit_value d \<longleftrightarrow> c = d"
    using snoc.prems digit_value_less digit_value_eq by simp_all
  moreover have "digits_value s = digits_value u \<longleftrightarrow> s = u"
    using snoc by (simp add: t)
  ultimately show ?case
    using snoc.prems by (auto simp: t)
qed simp

lemma digits_value_take: "all_digits s \<Longrightarrow> n \<le> length s \<Longrightarrow> digits_value (take n s) = digits_value s div 10 ^ (length s - n)"
  using digits_value_append [of "take n s" "drop n s"] digits_value_less [OF all_digits_take(2), of s n] by simp

text \<open>Rounding up adds one, unless every digit is a nine.\<close>

lemma roundUpLoop_append: "k \<le> length s \<Longrightarrow> roundUpLoop k (s @ t) = roundUpLoop k s @ t"
  by (induction k arbitrary: s) (auto simp: nth_append list_update_append)

lemma roundUpLoop_snoc:
  "roundUpLoop (Suc (length s)) (s @ [c]) =
     (if c \<noteq> CHR ''9'' then s @ [char_of ((of_char c :: nat) + 1)] else roundUpLoop (length s) s @ [CHR ''0''])"
  using roundUpLoop_append [of "length s" s "[CHR ''0'']"] by simp

lemma next_digit:
  assumes "\<not> not_digit c" and "c \<noteq> CHR ''9''"
  shows "\<not> not_digit (char_of ((of_char c :: nat) + 1))" and "digit_value (char_of ((of_char c :: nat) + 1)) = digit_value c + 1"
proof -
  have "of_char c \<noteq> (57 :: nat)"
    using assms(2) of_char_eq_iff [of c "CHR ''9''", where ?'a = nat] by simp
  then have c: "48 \<le> (of_char c :: nat)" "(of_char c :: nat) < 57"
    using assms(1) by (auto simp: not_digit_def)
  then have "of_char (char_of ((of_char c :: nat) + 1) :: char) = (of_char c :: nat) + 1"
    by simp
  then show "\<not> not_digit (char_of ((of_char c :: nat) + 1))" "digit_value (char_of ((of_char c :: nat) + 1)) = digit_value c + 1"
    using c unfolding not_digit_def digit_value_def by simp_all
qed

lemma roundUpLoop_value:
  assumes "all_digits s" and "\<exists>c \<in> set s. c \<noteq> CHR ''9''"
  shows "all_digits (roundUpLoop (length s) s) \<and> length (roundUpLoop (length s) s) = length s
    \<and> digits_value (roundUpLoop (length s) s) = digits_value s + 1"
  using assms
proof (induction s rule: rev_induct)
  case (snoc c s)
  show ?case
  proof (cases "c = CHR ''9''")
    case True
    moreover have "\<not> not_digit (CHR ''0'')" "digit_value (CHR ''0'') = 0" "digit_value (CHR ''9'') = 9"
      by (simp_all add: not_digit_def digit_value_def)
    ultimately show ?thesis
      using snoc by (simp add: roundUpLoop_snoc del: roundUpLoop.simps)
  next
    case False
    then show ?thesis
      using snoc.prems next_digit [of c] by (simp add: roundUpLoop_snoc del: roundUpLoop.simps)
  qed
qed simp

section \<open>The expected digits are those of pi\<close>

lemma reference_digits: "all_digits REFERENCE_FRACTIONAL_DIGITS" "length REFERENCE_FRACTIONAL_DIGITS = 101"
  "hd REFERENCE_FRACTIONAL_DIGITS \<noteq> CHR ''9''"
  by (simp_all add: REFERENCE_FRACTIONAL_DIGITS_def not_digit_def)

lemma reference_value: "int (digits_value REFERENCE_FRACTIONAL_DIGITS) = \<lfloor>10 ^ 101 * (pi - 3)\<rfloor>"
proof -
  have "int (digits_value REFERENCE_FRACTIONAL_DIGITS) = pi_digits - 3 * 10 ^ 101"
    by (simp add: REFERENCE_FRACTIONAL_DIGITS_def digits_value_def digit_value_def pi_digits_def)
  also have "\<dots> = \<lfloor>10 ^ 101 * pi - of_int (3 * 10 ^ 101)\<rfloor>"
    unfolding pi_decimal [symmetric] by (rule floor_diff_of_int [symmetric])
  finally show ?thesis
    by (simp add: algebra_simps)
qed

lemma reference_prefix:
  assumes "k \<le> 101"
  shows "int (digits_value (take k REFERENCE_FRACTIONAL_DIGITS)) = \<lfloor>10 ^ k * (pi - 3)\<rfloor>"
proof -
  have split: "(10 :: real) ^ 101 = 10 ^ k * 10 ^ (101 - k)"
    using assms by (simp flip: power_add)
  have scale: "10 ^ k * (pi - 3) = 10 ^ 101 * (pi - 3) / real_of_int (10 ^ (101 - k))"
    unfolding split by simp
  have "int (digits_value (take k REFERENCE_FRACTIONAL_DIGITS)) = int (digits_value REFERENCE_FRACTIONAL_DIGITS) div 10 ^ (101 - k)"
    using assms by (simp add: digits_value_take reference_digits zdiv_int)
  also have "\<dots> = \<lfloor>10 ^ k * (pi - 3)\<rfloor>"
    unfolding scale reference_value by (rule floor_divide_real_eq_div [symmetric]) simp
  finally show ?thesis .
qed

lemma round_by_digit:
  fixes y :: real
  shows "round y = (if 5 \<le> \<lfloor>10 * y\<rfloor> - 10 * \<lfloor>y\<rfloor> then \<lfloor>y\<rfloor> + 1 else \<lfloor>y\<rfloor>)"
proof -
  have y: "real_of_int \<lfloor>y\<rfloor> \<le> y" "y < real_of_int \<lfloor>y\<rfloor> + 1"
    by linarith+
  show ?thesis
  proof (cases "5 \<le> \<lfloor>10 * y\<rfloor> - 10 * \<lfloor>y\<rfloor>")
    case True
    then have "5 + 10 * \<lfloor>y\<rfloor> \<le> \<lfloor>10 * y\<rfloor>"
      by simp
    then have "real_of_int (5 + 10 * \<lfloor>y\<rfloor>) \<le> 10 * y"
      by (simp only: le_floor_iff)
    then have "round y = \<lfloor>y\<rfloor> + 1"
      unfolding round_def by (intro floor_unique) (use y in linarith)+
    then show ?thesis
      using True by simp
  next
    case False
    then have "\<lfloor>10 * y\<rfloor> < 5 + 10 * \<lfloor>y\<rfloor>"
      by simp
    then have "10 * y < real_of_int (5 + 10 * \<lfloor>y\<rfloor>)"
      by (simp only: floor_less_iff)
    then have "round y = \<lfloor>y\<rfloor>"
      unfolding round_def by (intro floor_unique) (use y in linarith)+
    then show ?thesis
      using False by simp
  qed
qed

lemma reference_digit:
  assumes "k \<le> 100"
  shows "(of_char (REFERENCE_FRACTIONAL_DIGITS ! k) :: nat) \<ge> of_char (CHR ''5'') \<longleftrightarrow> 5 \<le> \<lfloor>10 ^ Suc k * (pi - 3)\<rfloor> - 10 * \<lfloor>10 ^ k * (pi - 3)\<rfloor>"
proof -
  let ?c = "REFERENCE_FRACTIONAL_DIGITS ! k"
  have "\<not> not_digit ?c"
    using reference_digits(1,2) assms by (simp add: all_digits_def)
  then have c: "(of_char ?c :: nat) \<ge> of_char (CHR ''5'') \<longleftrightarrow> 5 \<le> digit_value ?c"
    by (auto simp: not_digit_def digit_value_def)
  have "take (Suc k) REFERENCE_FRACTIONAL_DIGITS = take k REFERENCE_FRACTIONAL_DIGITS @ [?c]"
    using assms reference_digits(2) by (simp add: take_Suc_conv_app_nth)
  then have "\<lfloor>10 ^ Suc k * (pi - 3)\<rfloor> = 10 * \<lfloor>10 ^ k * (pi - 3)\<rfloor> + int (digit_value ?c)"
    using reference_prefix [of k] reference_prefix [of "Suc k"] assms by (simp del: power_Suc)
  then show ?thesis
    unfolding c by simp
qed

definition pi_prefix :: "nat \<Rightarrow> int" where
  "pi_prefix n = (if n \<le> 100 then round (10 ^ n * (pi - 3)) else \<lfloor>10 ^ 100 * (pi - 3)\<rfloor>)"

lemma expectedPrefix_pi:
  assumes "n \<noteq> 0"
  shows "all_digits (expectedPrefix n) \<and> length (expectedPrefix n) = min (unat n) 100 \<and> int (digits_value (expectedPrefix n)) = pi_prefix (unat n)"
proof (cases "n \<le> 100")
  case False
  then have "min n 100 = 100" "\<not> unat n \<le> 100"
    by (auto simp: word_le_nat_alt min_def)
  then show ?thesis
    using False reference_prefix [of 100] reference_digits
    by (simp add: expectedPrefix_def PUBLISHED_REFERENCE_DIGITS_def Let_def pi_prefix_def all_digits_take)
next
  case True
  define k where "k = unat n"
  let ?s = "take k REFERENCE_FRACTIONAL_DIGITS"
  have k: "1 \<le> k" "k \<le> 100" and m: "min n 100 = n"
    using True assms unat_eq_zero [of n] by (auto simp: word_le_nat_alt k_def simp del: unat_eq_zero)
  have "hd ?s \<noteq> CHR ''9''" "?s \<noteq> []"
    using k reference_digits by (auto simp: hd_take)
  then have nine: "\<exists>c \<in> set ?s. c \<noteq> CHR ''9''"
    using hd_in_set by blast
  have s: "all_digits ?s" "length ?s = k"
    using k reference_digits by (simp_all add: all_digits_take)
  have val: "int (digits_value ?s) = \<lfloor>10 ^ k * (pi - 3)\<rfloor>"
    using k by (simp add: reference_prefix)
  have "expectedPrefix n = (if 5 \<le> \<lfloor>10 * (10 ^ k * (pi - 3))\<rfloor> - 10 * \<lfloor>10 ^ k * (pi - 3)\<rfloor> then roundUpLoop k ?s else ?s)"
    using True reference_digit [OF k(2)] s(2) unfolding expectedPrefix_def PUBLISHED_REFERENCE_DIGITS_def Let_def m k_def [symmetric]
    by (simp add: mult.assoc)
  then show ?thesis
    using roundUpLoop_value [OF s(1) nine] s val k unfolding k_def [symmetric] pi_prefix_def round_by_digit [of "10 ^ k * (pi - 3)"] by auto
qed

section \<open>The comparison\<close>

lemma firstMismatch_None: "length expected \<le> length actual \<Longrightarrow> firstMismatch i actual expected = None \<longleftrightarrow> take (length expected) actual = expected"
  by (induction i actual expected rule: firstMismatch.induct) auto

text \<open>The digits agree with \<open>pi\<close>: all of them, rounded, up to one hundred; else the first hundred, truncated.\<close>

definition known_prefix :: "u64 \<Rightarrow> string \<Rightarrow> bool" where
  "known_prefix n ds \<longleftrightarrow> int (digits_value (take 100 ds)) = pi_prefix (unat n)"

lemma expected_iff_known:
  assumes "n \<noteq> 0" and "all_digits ds" and "length ds = unat n"
  shows "take (min (unat n) 100) ds = expectedPrefix n \<longleftrightarrow> known_prefix n ds"
proof -
  note e = expectedPrefix_pi [OF assms(1)]
  let ?m = "min (unat n) 100"
  have same: "take ?m ds = take 100 ds"
    using assms(3) by (auto simp: min_def)
  have "take ?m ds = expectedPrefix n \<longleftrightarrow> digits_value (take ?m ds) = digits_value (expectedPrefix n)"
    using digits_value_inj [of "take ?m ds" "expectedPrefix n"] e assms by (auto simp: all_digits_take)
  also have "\<dots> \<longleftrightarrow> known_prefix n ds"
    using e by (simp add: known_prefix_def same) linarith
  finally show ?thesis .
qed

text \<open>A result of this stage that is passed exactly under the given condition.\<close>

definition known_outcome :: "bool \<Rightarrow> KnownDigitsVerification \<Rightarrow> bool" where
  "known_outcome good k \<longleftrightarrow> check_ok (kd_verification k) \<and> vc_stage (kd_verification k) = Stage_knownDigits
     \<and> vc_status (kd_verification k) = (if good then VS_passed else VS_failed)"

lemma known_failure:
  "\<exists>k. res_bind (VerificationCheckResult_create Stage_knownDigits VS_failed 0 [known_diagnostic reason detail offset]) (\<lambda>check. Inr (known_result check c)) = Inr k
     \<and> known_outcome False k"
  by (auto simp: res_elim VerificationCheckResult_create_iff check_ok_def known_outcome_def known_result_def known_diagnostic_def)

lemma known_compare_exact:
  assumes "n \<noteq> 0" and "min (unat n) 100 \<le> length ds"
  shows "\<exists>k. known_compare ds n = Inr k \<and> known_outcome (take (min (unat n) 100) ds = expectedPrefix n) k"
proof -
  have "firstMismatch 0 ds (expectedPrefix n) = None \<longleftrightarrow> take (min (unat n) 100) ds = expectedPrefix n"
    using firstMismatch_None [of "expectedPrefix n" ds 0] expectedPrefix_pi [OF assms(1)] assms(2) by auto
  then show ?thesis
    by (auto simp: known_compare_def Let_def known_result_def known_outcome_def known_diagnostic_def VerificationCheckResult_create_iff check_ok_def
        res_elim split: option.split)
qed

lemma KnownDigitsVerifier_verify_exact:
  assumes "canonical_text n t"
  shows "\<exists>k. KnownDigitsVerifier_verify \<lparr>cd_bytes = t, cd_requestedDigits = n\<rparr> = Inr k \<and> known_outcome (known_prefix n (drop 2 t)) k"
proof -
  have t: "n \<noteq> 0" "all_digits (drop 2 t)" "length (drop 2 t) = unat n"
    using assms by (auto simp: canonical_text_def all_digits_def)
  then show ?thesis
    using known_compare_exact [of n "drop 2 t"] expected_iff_known [OF t]
    by (simp add: KnownDigitsVerifier_verify_def fractionalDigits_def)
qed

lemma required_bytes: "unat (min n PUBLISHED_REFERENCE_DIGITS + 2) = min (unat n) 100 + 2"
proof -
  have "unat (min n 100) = min (unat n) 100"
    by (simp add: min_def word_le_nat_alt)
  then show ?thesis
    using unat_add_no_wrap [of "min n 100" 2] by (simp add: PUBLISHED_REFERENCE_DIGITS_def)
qed

lemma prefix_bytes:
  assumes "length got = m + 2"
  shows "(bytes_string got ! 0 = CHR ''3'' \<and> bytes_string got ! 1 = CHR ''.'' \<and> drop 2 (bytes_string got) = e) \<longleftrightarrow> got = string_bytes (''3.'' @ e)"
proof -
  obtain a b rest where g: "bytes_string got = a # b # rest"
    using assms by (metis add_2_eq_Suc' length_string_bytes(2) length_Suc_conv)
  have "got = string_bytes (''3.'' @ e) \<longleftrightarrow> bytes_string got = ''3.'' @ e"
    by (metis bytes_string_bytes string_bytes_string)
  then show ?thesis
    unfolding g by auto
qed

definition known_file :: "u64 \<Rightarrow> u8 list \<Rightarrow> bool" where
  "known_file n bs \<longleftrightarrow> take (min (unat n) 100 + 2) bs = string_bytes (''3.'' @ expectedPrefix n)"

text \<open>What a verified file must hold, and what suffices when no call fails.\<close>

definition known_on_disk :: "os_env \<Rightarrow> InspectedOutputFile \<Rightarrow> os \<Rightarrow> KnownDigitsVerification result \<times> os \<Rightarrow> bool" where
  "known_on_disk env f s run \<longleftrightarrow> (\<exists>k good s'. run = (Inr k, s') \<and> os_disk s' = os_disk s \<and> known_outcome good k
     \<and> (good \<longrightarrow> inspected_metadata_ok f \<and> (\<exists>bs. content (os_disk s) (io_path f) = Some bs \<and> known_file (io_requestedDigits f) bs))
     \<and> (\<not> good \<longrightarrow> \<not> ((\<forall>i. env_errno env i = None) \<and> inspected_metadata_ok f
          \<and> (\<exists>bs. content (os_disk s) (io_path f) = Some bs \<and> known_file (io_requestedDigits f) bs))))"

lemma known_on_disk_failure:
  assumes "os_disk s1 = os_disk s"
    and "\<not> ((\<forall>i. env_errno env i = None) \<and> inspected_metadata_ok f \<and> (\<exists>bs. content (os_disk s) (io_path f) = Some bs \<and> known_file (io_requestedDigits f) bs))"
  shows "known_on_disk env f s (res_bind (VerificationCheckResult_create Stage_knownDigits VS_failed 0 [known_diagnostic reason detail offset])
      (\<lambda>check. Inr (known_result check c)), s1)"
proof -
  obtain k where "res_bind (VerificationCheckResult_create Stage_knownDigits VS_failed 0 [known_diagnostic reason detail offset])
      (\<lambda>check. Inr (known_result check c)) = Inr k" "known_outcome False k"
    using known_failure by blast
  then show ?thesis
    unfolding known_on_disk_def using assms by (intro exI [of _ k] exI [of _ False] exI [of _ s1]) simp
qed

lemma known_on_disk_prefix:
  assumes f: "inspected_metadata_ok f" and bs: "content (os_disk s) (io_path f) = Some bs" and disk: "os_disk s2 = os_disk s"
    and got: "got = take (min (unat (io_requestedDigits f)) 100 + 2) bs" "length got = min (unat (io_requestedDigits f)) 100 + 2"
    and start: "bytes_string got ! 0 = CHR ''3''" "bytes_string got ! 1 = CHR ''.''"
  shows "known_on_disk env f s (known_compare (drop 2 (bytes_string got)) (io_requestedDigits f), s2)"
proof -
  let ?n = "io_requestedDigits f"
  have n: "?n \<noteq> 0"
    using f by (simp add: inspected_metadata_ok_def)
  obtain k where k: "known_compare (drop 2 (bytes_string got)) ?n = Inr k" "known_outcome (drop 2 (bytes_string got) = expectedPrefix ?n) k"
    using known_compare_exact [OF n, of "drop 2 (bytes_string got)"] got(2) by auto
  have "known_file ?n bs \<longleftrightarrow> drop 2 (bytes_string got) = expectedPrefix ?n"
    unfolding known_file_def got(1) [symmetric] using prefix_bytes [OF got(2), of "expectedPrefix ?n"] start by blast
  then show ?thesis
    unfolding known_on_disk_def using k bs disk f
    by (intro exI [of _ k] exI [of _ "drop 2 (bytes_string got) = expectedPrefix ?n"] exI [of _ s2]) auto
qed

lemma known_file_length:
  assumes "n \<noteq> 0" and "known_file n bs"
  shows "length (take (min (unat n) 100 + 2) bs) = min (unat n) 100 + 2"
  using assms expectedPrefix_pi [OF assms(1)] by (simp add: known_file_def)

lemma KnownDigitsVerifier_verifyFile_exact: "known_on_disk env f s (KnownDigitsVerifier_verifyFile env f s)"
proof (cases "inspected_metadata_ok f")
  case False
  then show ?thesis
    by (simp add: KnownDigitsVerifier_verifyFile_def known_readFailure_def known_on_disk_failure)
next
  case meta: True
  let ?n = "io_requestedDigits f" and ?m = "min (unat (io_requestedDigits f)) 100"
  have n: "?n \<noteq> 0"
    using meta by (simp add: inspected_metadata_ok_def)
  obtain o1 s1 where o: "stream_open env (io_path f) s = (o1, s1)"
    by (metis surj_pair)
  note disk = stream_open_disk [OF o]
  show ?thesis
  proof (cases o1)
    case None
    have "content (os_disk s) (io_path f) = None" if "\<forall>i. env_errno env i = None"
      using that o None by (simp add: stream_calm)
    then show ?thesis
      using meta o disk None by (auto simp: KnownDigitsVerifier_verifyFile_def known_readFailure_def Let_def intro!: known_on_disk_failure)
  next
    case (Some rest)
    obtain got st rest' s2 where t: "stream_take env (?m + 2) rest s1 = ((got, st, rest'), s2)"
      by (metis surj_pair)
    note d = stream_take_delivers [OF t]
    have bytes: "content (os_disk s) (io_path f) = Some rest" "os_disk s2 = os_disk s"
      using disk Some d(3) by auto
    have whole: "got = take (?m + 2) rest" if "length got = ?m + 2 \<or> (\<forall>i. env_errno env i = None)"
      using that d(1) t stream_calm(2) [of env "?m + 2" rest s1] by auto
    let ?p = "bytes_string got"
    have short: "\<not> ((\<forall>i. env_errno env i = None) \<and> known_file ?n rest)" if "length got \<noteq> ?m + 2"
      using known_file_length [OF n, of rest] whole that by auto
    have changed: "\<not> known_file ?n rest" if "length got = ?m + 2" "\<not> (?p ! 0 = CHR ''3'' \<and> ?p ! 1 = CHR ''.'')"
      using prefix_bytes [OF that(1), of "expectedPrefix ?n"] whole that by (auto simp: known_file_def)
    show ?thesis
      using meta o Some t bytes short changed whole
      by (auto simp: KnownDigitsVerifier_verifyFile_def known_readFailure_def required_bytes Let_def
          intro!: known_on_disk_failure known_on_disk_prefix)
  qed
qed

lemma string_bytes_inj: "string_bytes s = string_bytes t \<longleftrightarrow> s = t"
  by (metis bytes_string_bytes)

lemma known_file_text:
  assumes "canonical_text n t"
  shows "known_file n (string_bytes t @ [10]) \<longleftrightarrow> known_prefix n (drop 2 t)"
proof -
  obtain ds where t: "t = ''3.'' @ ds" "length ds = unat n" "all_digits ds" "n \<noteq> 0"
    using assms by (auto simp: canonical_text_def all_digits_def)
  have "take (min (unat n) 100 + 2) (string_bytes t @ [10]) = string_bytes (take (min (unat n) 100 + 2) t)"
    using t(1,2) by (simp add: string_bytes_def take_map)
  also have "take (min (unat n) 100 + 2) t = ''3.'' @ take (min (unat n) 100) ds"
    by (simp add: t(1) numeral_2_eq_2)
  finally show ?thesis
    using expected_iff_known [OF t(4,3,2)] by (simp add: known_file_def string_bytes_inj t(1))
qed

section \<open>Properties\<close>

text \<open>
  C36: The comparison with the published digits decides whether the output starts with the digits of \<open>pi\<close>.
  For a canonical text of up to one hundred digits it passes exactly when the digits are \<open>pi\<close> rounded to
  that many decimals, and for more digits exactly when the first hundred are those of \<open>pi\<close>.  On a file it
  never throws, passes only in that case whichever calls fail, and passes in that case when none fails.
\<close>

theorem KnownDigits_pi:
  assumes t: "canonical_text n t"
  defines "correct \<equiv> (if unat n \<le> 100 then int (digits_value (drop 2 t)) = round (10 ^ unat n * (pi - 3))
      else int (digits_value (take 100 (drop 2 t))) = \<lfloor>10 ^ 100 * (pi - 3)\<rfloor>)"
  shows "(\<exists>k. KnownDigitsVerifier_verify \<lparr>cd_bytes = t, cd_requestedDigits = n\<rparr> = Inr k \<and> check_ok (kd_verification k) \<and> (known_matched k \<longleftrightarrow> correct))
    \<and> (n \<le> - 1 - 3 \<and> content (os_disk s) p = Some (string_bytes t @ [10]) \<longrightarrow>
        (\<exists>k s'. KnownDigitsVerifier_verifyFile env \<lparr>io_path = p, io_fileSize = n + 2 + 1, io_canonicalByteCount = n + 2, io_requestedDigits = n\<rparr> s = (Inr k, s')
           \<and> os_disk s' = os_disk s \<and> check_ok (kd_verification k) \<and> (known_matched k \<longrightarrow> correct) \<and> ((\<forall>i. env_errno env i = None) \<and> correct \<longrightarrow> known_matched k)))"
proof -
  have len: "length (drop 2 t) = unat n" and n: "n \<noteq> 0"
    using t by (auto simp: canonical_text_def)
  then have c: "known_prefix n (drop 2 t) \<longleftrightarrow> correct"
    by (auto simp: known_prefix_def pi_prefix_def correct_def)
  show ?thesis
  proof (intro conjI impI)
    show "\<exists>k. KnownDigitsVerifier_verify \<lparr>cd_bytes = t, cd_requestedDigits = n\<rparr> = Inr k \<and> check_ok (kd_verification k) \<and> (known_matched k \<longleftrightarrow> correct)"
      using KnownDigitsVerifier_verify_exact [OF t] c by (auto simp: known_outcome_def known_matched_def)
  next
    let ?f = "\<lparr>io_path = p, io_fileSize = n + 2 + 1, io_canonicalByteCount = n + 2, io_requestedDigits = n\<rparr>"
    assume a: "n \<le> - 1 - 3 \<and> content (os_disk s) p = Some (string_bytes t @ [10])"
    then have "inspected_metadata_ok ?f"
      using n by (simp add: inspected_metadata_ok_def not_less)
    then show "\<exists>k s'. KnownDigitsVerifier_verifyFile env ?f s = (Inr k, s') \<and> os_disk s' = os_disk s \<and> check_ok (kd_verification k)
        \<and> (known_matched k \<longrightarrow> correct) \<and> ((\<forall>i. env_errno env i = None) \<and> correct \<longrightarrow> known_matched k)"
      using KnownDigitsVerifier_verifyFile_exact [of env ?f s] a known_file_text [OF t] c
      by (auto simp: known_on_disk_def known_outcome_def known_matched_def) blast+
  qed
qed

lemma canonical_sample: "canonical_text 2 ''3.14''"
  unfolding canonical_text_def by (intro conjI exI [of _ "''14''"]) (auto simp: not_digit_def)

theorem KnownDigits_pi_witness:
  "\<exists>k. KnownDigitsVerifier_verify \<lparr>cd_bytes = ''3.14'', cd_requestedDigits = 2\<rparr> = Inr k \<and> (known_matched k \<longleftrightarrow> 14 = round (10 ^ 2 * (pi - 3)))"
  using KnownDigits_pi [OF canonical_sample, of fresh_os "Path [] []" calm_env] by (auto simp: digits_value_def digit_value_def)

end
