(* ===== verification/Long_Double.thy ===== *)
theory Long_Double
  imports Prelude
begin

text \<open>
  The finite values of \<open>long double\<close> as rational numbers.  C++ leaves the format open, so a format is a
  parameter: its rounding function and its \<open>epsilon\<close>.  The locale \<open>long_double\<close> states what the standard
  and IEEE 754 promise of every format; the x87 extended format (64 bits of precision, to the
  nearest, ties to even) is the instance of the Linux target.
\<close>

section \<open>Formats and operations\<close>

record long_double_format =
  ld_round :: "rat \<Rightarrow> rat"
  ld_epsilon :: rat

definition ld_add :: "long_double_format \<Rightarrow> rat \<Rightarrow> rat \<Rightarrow> rat" where
  "ld_add f x y = ld_round f (x + y)"

definition ld_sub :: "long_double_format \<Rightarrow> rat \<Rightarrow> rat \<Rightarrow> rat" where
  "ld_sub f x y = ld_round f (x - y)"

definition ld_mul :: "long_double_format \<Rightarrow> rat \<Rightarrow> rat \<Rightarrow> rat" where
  "ld_mul f x y = ld_round f (x * y)"

definition ld_div :: "long_double_format \<Rightarrow> rat \<Rightarrow> rat \<Rightarrow> rat" where
  "ld_div f x y = ld_round f (x / y)"

text \<open>The conversion of an unsigned integer, and \<open>std::floor\<close>, which is exact.\<close>

definition ld_of :: "long_double_format \<Rightarrow> 'a::len word \<Rightarrow> rat" where
  "ld_of f w = ld_round f (of_int (uint w))"

definition ld_floor :: "rat \<Rightarrow> rat" where
  "ld_floor x = of_int \<lfloor>x\<rfloor>"

lemmas ld_defs = ld_add_def ld_sub_def ld_mul_def ld_div_def ld_of_def

text \<open>
  Every operation is off by at most \<open>epsilon\<close> times the exact result, in every rounding mode, powers of
  16 are represented exactly, and \<open>epsilon\<close> is at most 1e-9.
\<close>

locale long_double =
  fixes f :: long_double_format
  assumes epsilon_pos: "0 < ld_epsilon f"
    and epsilon_small: "ld_epsilon f \<le> 1 / 10 ^ 9"
    and round_error: "\<bar>ld_round f x - x\<bar> \<le> ld_epsilon f * \<bar>x\<bar>"
    and round_power: "ld_round f ((1 / 16) ^ k) = (1 / 16) ^ k"
begin

lemma round_nonneg: "0 \<le> x \<Longrightarrow> 0 \<le> ld_round f x"
proof -
  assume "0 \<le> x"
  moreover have "ld_epsilon f * x \<le> 1 * x"
    using epsilon_small \<open>0 \<le> x\<close> by (intro mult_right_mono) simp_all
  ultimately show ?thesis
    using round_error [of x] by simp
qed

lemma round_within:
  assumes "\<bar>x\<bar> \<le> b"
  shows "\<bar>ld_round f x - x\<bar> \<le> ld_epsilon f * b"
  using order_trans [OF round_error mult_left_mono [OF assms]] epsilon_pos by simp

lemma round_le: "0 \<le> x \<Longrightarrow> x \<le> b \<Longrightarrow> ld_round f x \<le> b + ld_epsilon f * b"
  using round_within [of x b] by simp

lemma round_ge: "0 \<le> x \<Longrightarrow> x - ld_epsilon f * x \<le> ld_round f x"
  using round_error [of x] by simp

end

section \<open>Rounding to the nearest\<close>

definition nearest_even :: "rat \<Rightarrow> int" where
  "nearest_even y = (let n = \<lfloor>y\<rfloor>; r = y - of_int n in
     if r < 1 / 2 then n else if 1 / 2 < r then n + 1 else if even n then n else n + 1)"

lemma nearest_even_error: "\<bar>of_int (nearest_even y) - y\<bar> \<le> 1 / 2"
proof -
  have "of_int \<lfloor>y\<rfloor> \<le> y" "y < of_int \<lfloor>y\<rfloor> + 1"
    by linarith+
  then show ?thesis
    unfolding nearest_even_def Let_def by (simp add: abs_if; linarith)
qed

lemma nearest_even_of_int [simp]: "nearest_even (of_int n) = n"
  by (simp add: nearest_even_def)

text \<open>
  The scaling \<open>2 ^ s\<close> that gives a positive number \<open>a / b\<close> an integer part of exactly \<open>p\<close> bits, found from
  the bit lengths of numerator and denominator.
\<close>

function bit_length :: "int \<Rightarrow> int" where
  "bit_length n = (if n \<le> 0 then 0 else bit_length (n div 2) + 1)"
  by auto
termination
  by (relation "measure nat") auto

declare bit_length.simps [simp del]

definition two_to :: "int \<Rightarrow> rat" where
  "two_to s = 2 powi s"

definition scale_of :: "nat \<Rightarrow> rat \<Rightarrow> int" where
  "scale_of p x = (case quotient_of x of (a, b) \<Rightarrow>
     let s = int p - (bit_length a - bit_length b) in
     if 2 ^ p \<le> x * two_to s then s - 1 else s)"

definition round_bits :: "nat \<Rightarrow> rat \<Rightarrow> rat" where
  "round_bits p x =
     (if x = 0 then 0
      else let s = scale_of p \<bar>x\<bar> in
        (if 0 < x then 1 else - 1) * of_int (nearest_even (\<bar>x\<bar> * two_to s)) / two_to s)"

lemma two_to_pos [simp]: "0 < two_to s"
  by (simp add: two_to_def)

lemma two_to_nonzero [simp]: "two_to s \<noteq> 0"
  by (metis two_to_pos less_irrefl)

lemma two_to_Suc: "two_to (s - 1) = two_to s / 2"
  by (simp add: two_to_def power_int_diff)

lemma two_to_diff: "two_to (int m - int n) = 2 ^ m / 2 ^ n"
  by (simp add: two_to_def power_int_diff)

lemma bit_length_bounds: "0 < n \<Longrightarrow> 0 < bit_length n \<and> two_to (bit_length n - 1) \<le> of_int n \<and> of_int n < two_to (bit_length n)"
proof (induction n rule: bit_length.induct)
  case (1 n)
  show ?case
  proof (cases "n = 1")
    case True
    then show ?thesis
      by (simp add: bit_length.simps two_to_def)
  next
    case False
    define m where "m = n div 2"
    have m: "0 < m" "2 * m \<le> n" "n < 2 * m + 2"
      using "1.prems" False by (simp_all add: m_def)
    have ih: "0 < bit_length m" "two_to (bit_length m - 1) \<le> of_int m" "of_int m < two_to (bit_length m)"
      using "1.IH" "1.prems" m(1) by (simp_all add: m_def)
    have L: "bit_length n = bit_length m + 1"
      using "1.prems" by (simp add: bit_length.simps [of n] m_def)
    obtain k where k: "two_to (bit_length m) = of_int k"
      using ih(1) by (intro that [of "2 ^ nat (bit_length m)"]) (simp add: two_to_def power_int_def)
    then have "m + 1 \<le> k"
      using ih(3) by simp
    then have "n < 2 * k"
      using m(3) by simp
    then have "of_int n < (of_int (2 * k) :: rat)"
      by (simp only: of_int_less_iff)
    then have "of_int n < (2 * of_int k :: rat)"
      by simp
    moreover have "two_to (bit_length n) = 2 * two_to (bit_length m)"
      using two_to_Suc [of "bit_length n"] by (simp add: L)
    moreover have "(of_int (2 * m) :: rat) \<le> of_int n"
      using m(2) by (simp only: of_int_le_iff)
    ultimately show ?thesis
      using ih two_to_Suc [of "bit_length m"] by (simp add: L k)
  qed
qed

lemma scale_of_bits:
  assumes "0 < x" and "0 < p"
  shows "2 ^ (p - 1) \<le> x * two_to (scale_of p x)"
proof -
  obtain a b where q: "quotient_of x = (a, b)"
    by (metis surj_pair)
  have b: "0 < b" and x: "x = of_int a / of_int b"
    using quotient_of_denom_pos [OF q] quotient_of_div [OF q] by simp_all
  then have a: "0 < a"
    using assms(1) by (simp add: zero_less_divide_iff)
  define m n where "m = bit_length a" and "n = bit_length b"
  have ar: "two_to (m - 1) \<le> of_int a" and br: "of_int b \<le> two_to n"
    using bit_length_bounds [OF a] bit_length_bounds [OF b] by (simp_all add: m_def n_def)
  define s where "s = int p - (m - n)"
  have "(2 :: rat) ^ (p - 1) = two_to (m - 1) / two_to n * two_to s"
    using assms(2) by (simp add: s_def two_to_def power_int_diff power_diff)
  also have "\<dots> \<le> of_int a / of_int b * two_to s"
    using ar br b a by (intro mult_right_mono frac_le) (simp_all add: less_imp_le)
  finally have low: "2 ^ (p - 1) \<le> x * two_to s"
    by (simp add: x)
  have "scale_of p x = (if 2 ^ p \<le> x * two_to s then s - 1 else s)"
    by (simp add: scale_of_def q m_def n_def s_def Let_def)
  moreover have "(2 :: rat) ^ p = 2 * 2 ^ (p - 1)"
    using assms(2) by (simp flip: power_Suc)
  ultimately show ?thesis
    using low by (simp add: two_to_Suc)
qed

lemma round_bits_error:
  assumes "0 < p"
  shows "\<bar>round_bits p x - x\<bar> \<le> (1 / 2 ^ p) * \<bar>x\<bar>"
proof (cases "x = 0")
  case False
  define s where "s = scale_of p \<bar>x\<bar>"
  define y where "y = \<bar>x\<bar> * two_to s"
  have low: "2 ^ (p - 1) \<le> y"
    unfolding y_def s_def using False assms by (intro scale_of_bits) simp_all
  have r: "round_bits p x - x = (if 0 < x then 1 else - 1) * ((of_int (nearest_even y) - y) / two_to s)"
  proof -
    have "round_bits p x = (if 0 < x then 1 else - 1) * of_int (nearest_even y) / two_to s"
      using False by (simp add: round_bits_def Let_def y_def s_def)
    moreover have "x = (if 0 < x then 1 else - 1) * (y / two_to s)"
      by (simp add: y_def abs_if)
    ultimately show ?thesis
      by (cases "0 < x") (simp_all add: diff_divide_distrib)
  qed
  have "\<bar>round_bits p x - x\<bar> = \<bar>of_int (nearest_even y) - y\<bar> / two_to s"
    unfolding r by (simp add: abs_mult abs_of_pos)
  also have "\<dots> \<le> (1 / 2) / two_to s"
    using nearest_even_error [of y] by (intro divide_right_mono) (simp_all add: less_imp_le)
  also have "\<dots> \<le> (1 / 2 ^ p * y) / two_to s"
  proof (intro divide_right_mono)
    have "1 / 2 = (1 / 2 ^ p :: rat) * 2 ^ (p - 1)"
      using assms by (simp add: power_diff)
    also have "\<dots> \<le> 1 / 2 ^ p * y"
      using low by (intro mult_left_mono) simp_all
    finally show "1 / 2 \<le> 1 / 2 ^ p * y" .
  qed (simp add: less_imp_le)
  also have "\<dots> = 1 / 2 ^ p * \<bar>x\<bar>"
    using two_to_pos [of s] by (simp add: y_def)
  finally show ?thesis .
qed (simp add: round_bits_def)

lemma round_bits_power:
  assumes "0 < p"
  shows "round_bits p ((1 / 16) ^ k) = (1 / 16) ^ k"
proof -
  have eq: "(1 / 16 :: rat) ^ k = 1 / 2 ^ (4 * k)"
    by (simp add: power_mult power_one_over)
  have "quotient_of (1 / 2 ^ (4 * k) :: rat) = (1, 2 ^ (4 * k))"
    using quotient_of_Fract [of 1 "2 ^ (4 * k)"] by (simp add: Fract_of_int_quotient normalize_stable)
  moreover have "bit_length (2 ^ n) = int n + 1" for n
    by (induction n) (simp_all add: bit_length.simps)
  moreover have "bit_length 1 = 1"
    by (simp add: bit_length.simps)
  moreover have "two_to (int p + int (4 * k)) = 2 ^ p * 2 ^ (4 * k)"
    using two_to_diff [of "p + 4 * k" 0] by (simp add: power_add)
  ultimately have "scale_of p (1 / 2 ^ (4 * k)) = int p + int (4 * k) - 1"
    by (simp add: scale_of_def Let_def)
  then have "1 / 2 ^ (4 * k) * two_to (scale_of p (1 / 2 ^ (4 * k))) = 2 ^ (p - 1)"
    using assms two_to_Suc [of "int p + int (4 * k)"] two_to_diff [of "p + 4 * k" 0]
    by (simp add: power_add power_diff)
  then show ?thesis
    unfolding eq round_bits_def
    using nearest_even_of_int [of "2 ^ (p - 1)"] two_to_pos [of "scale_of p (1 / 2 ^ (4 * k))"]
    by (simp add: Let_def field_simps)
qed

definition x87_extended :: long_double_format where
  "x87_extended = \<lparr>ld_round = round_bits 64, ld_epsilon = 1 / 2 ^ 63\<rparr>"

interpretation x87: long_double x87_extended
proof
  show "0 < ld_epsilon x87_extended" "ld_epsilon x87_extended \<le> 1 / 10 ^ 9"
    by (simp_all add: x87_extended_def)
  show "\<bar>ld_round x87_extended x - x\<bar> \<le> ld_epsilon x87_extended * \<bar>x\<bar>" for x
    using round_bits_error [of 64 x] abs_ge_zero [of x] by (simp add: x87_extended_def)
  show "ld_round x87_extended ((1 / 16) ^ k) = (1 / 16) ^ k" for k
    using round_bits_power [of 64 k] by (simp add: x87_extended_def)
qed

end
