(* ===== verification/Bbp_Series.thy ===== *)
theory Bbp_Series
  imports Complex_Main
begin

text \<open>
  The Bailey-Borwein-Plouffe series, from which single hexadecimal digits of pi can be computed: the
  value of the series is pi.  The proof compares a power series with an antiderivative made of
  logarithms and an arcus tangens.
\<close>

section \<open>The series\<close>

definition bbp_term :: "nat \<Rightarrow> nat \<Rightarrow> real" where
  "bbp_term j k = 1 / (16 ^ k * (8 * real k + real j))"

definition bbp_sum :: "nat \<Rightarrow> real" where
  "bbp_sum j = (\<Sum>k. bbp_term j k)"

lemma bbp_term_nonneg: "0 \<le> bbp_term j k"
  by (simp add: bbp_term_def)

lemma bbp_term_le: "0 < j \<Longrightarrow> bbp_term j k \<le> (1 / 16) ^ k"
proof -
  assume "0 < j"
  then have "1 \<le> 8 * real k + real j"
    by simp
  then have "(16 :: real) ^ k * 1 \<le> 16 ^ k * (8 * real k + real j)"
    by (intro mult_left_mono) simp_all
  then show ?thesis
    by (simp add: bbp_term_def power_one_over frac_le)
qed

lemma bbp_summable: "0 < j \<Longrightarrow> summable (bbp_term j)"
  by (rule summable_comparison_test' [of "\<lambda>k. (1 / 16) ^ k" 0]) (simp_all add: bbp_term_nonneg bbp_term_le summable_geometric)

section \<open>The power series\<close>

text \<open>The derivative has the coefficients 4, -2, -1, -1 at the positions 0, 3, 4, 5 modulo 8.\<close>

definition bbp_weight :: "nat \<Rightarrow> real" where
  "bbp_weight r = (if r = 0 then 4 else if r = 3 then - 2 else if r = 4 \<or> r = 5 then - 1 else 0)"

definition bbp_coefficient :: "nat \<Rightarrow> real" where
  "bbp_coefficient n = bbp_weight (n mod 8) * (1 / 16) ^ (n div 8)"

definition bbp_function :: "real \<Rightarrow> real" where
  "bbp_function y = (\<Sum>n. bbp_coefficient n / real (Suc n) * y ^ Suc n)"

lemma block_sum: "sum f {k * 8..<k * 8 + (8 :: nat)} =
    f (8 * k) + f (8 * k + 1) + f (8 * k + 2) + f (8 * k + 3) + f (8 * k + 4) + f (8 * k + 5) + f (8 * k + 6) + (f (8 * k + 7) :: real)"
proof -
  have "{k * 8..<k * 8 + 8} = {8 * k, 8 * k + 1, 8 * k + 2, 8 * k + 3, 8 * k + 4, 8 * k + 5, 8 * k + 6, 8 * k + 7}"
    by auto
  then show ?thesis
    by simp
qed

lemma coefficient_block:
  "bbp_coefficient (8 * k) = 4 * (1 / 16) ^ k" "bbp_coefficient (8 * k + 1) = 0" "bbp_coefficient (8 * k + 2) = 0"
  "bbp_coefficient (8 * k + 3) = - 2 * (1 / 16) ^ k" "bbp_coefficient (8 * k + 4) = - ((1 / 16) ^ k)"
  "bbp_coefficient (8 * k + 5) = - ((1 / 16) ^ k)" "bbp_coefficient (8 * k + 6) = 0" "bbp_coefficient (8 * k + 7) = 0"
proof -
  have "(8 * k + r) mod 8 = r" "(8 * k + r) div 8 = k" if "r < 8" for r
    using that by simp_all
  from this [of 0] this [of 1] this [of 2] this [of 3] this [of 4] this [of 5] this [of 6] this [of 7]
  show "bbp_coefficient (8 * k) = 4 * (1 / 16) ^ k" "bbp_coefficient (8 * k + 1) = 0" "bbp_coefficient (8 * k + 2) = 0"
    "bbp_coefficient (8 * k + 3) = - 2 * (1 / 16) ^ k" "bbp_coefficient (8 * k + 4) = - ((1 / 16) ^ k)"
    "bbp_coefficient (8 * k + 5) = - ((1 / 16) ^ k)" "bbp_coefficient (8 * k + 6) = 0" "bbp_coefficient (8 * k + 7) = 0"
    by (simp_all add: bbp_coefficient_def bbp_weight_def)
qed

lemma coefficient_bound: "\<bar>bbp_coefficient n\<bar> \<le> 4 * (7 / 5) ^ 7 * (5 / 7) ^ n"
proof -
  have "(1 / 16 :: real) ^ (n div 8) \<le> ((5 / 7) ^ 8) ^ (n div 8)"
    by (rule power_mono) (simp_all add: power_divide)
  also have "\<dots> = (5 / 7) ^ (8 * (n div 8))"
    by (simp add: power_mult)
  also have "\<dots> * (5 / 7) ^ 7 \<le> (5 / 7) ^ (8 * (n div 8)) * (5 / 7) ^ (n mod 8)"
    by (intro mult_left_mono power_decreasing) (simp_all add: less_Suc_eq_le [symmetric])
  also have "\<dots> = (5 / 7) ^ n"
    by (simp flip: power_add)
  finally have "(1 / 16 :: real) ^ (n div 8) * (5 / 7) ^ 7 \<le> (5 / 7) ^ n"
    by simp
  then have "(1 / 16 :: real) ^ (n div 8) \<le> (7 / 5) ^ 7 * (5 / 7) ^ n"
    by (simp add: field_simps)
  moreover have "\<bar>bbp_weight (n mod 8)\<bar> \<le> 4"
    by (simp add: bbp_weight_def)
  ultimately have "\<bar>bbp_weight (n mod 8)\<bar> * (1 / 16) ^ (n div 8) \<le> 4 * ((7 / 5) ^ 7 * (5 / 7) ^ n)"
    by (intro mult_mono) simp_all
  then show ?thesis
    by (simp add: bbp_coefficient_def abs_mult)
qed

lemma coefficients_summable:
  assumes "\<bar>y\<bar> < 6 / 5"
  shows "summable (\<lambda>n. bbp_coefficient n * y ^ n)"
proof (rule summable_comparison_test' [of "\<lambda>n. 4 * (7 / 5) ^ 7 * (6 / 7) ^ n" 0])
  show "summable (\<lambda>n. 4 * (7 / 5) ^ 7 * (6 / 7 :: real) ^ n)"
    by (intro summable_mult summable_geometric) simp
  fix n
  have "\<bar>bbp_coefficient n\<bar> * \<bar>y\<bar> ^ n \<le> 4 * (7 / 5) ^ 7 * (5 / 7) ^ n * (6 / 5) ^ n"
    using assms by (intro mult_mono coefficient_bound power_mono) simp_all
  also have "\<dots> = 4 * (7 / 5) ^ 7 * (6 / 7) ^ n"
    by (simp flip: power_mult_distrib add: mult.assoc)
  finally show "norm (bbp_coefficient n * y ^ n) \<le> 4 * (7 / 5) ^ 7 * (6 / 7) ^ n"
    by (simp add: abs_mult power_abs)
qed

lemma coefficients_sum:
  assumes "\<bar>y\<bar> < 6 / 5"
  shows "(\<Sum>n. bbp_coefficient n * y ^ n) = 16 * (4 - 2 * y ^ 3 - y ^ 4 - y ^ 5) / (16 - y ^ 8)"
proof -
  let ?p = "4 - 2 * y ^ 3 - y ^ 4 - y ^ 5"
  have "\<bar>y\<bar> ^ 8 \<le> (6 / 5) ^ 8"
    using assms by (intro power_mono) simp_all
  then have small: "\<bar>y ^ 8 / 16\<bar> < 1"
    by (simp add: power_abs power_divide)
  have "sum (\<lambda>n. bbp_coefficient n * y ^ n) {k * 8..<k * 8 + 8} = ?p * (y ^ 8 / 16) ^ k" for k
    by (simp only: block_sum coefficient_block power_add power_mult power_divide [of "y ^ 8"]) (simp add: power_one_over field_simps)
  then have "(\<lambda>k. ?p * (y ^ 8 / 16) ^ k) sums (\<Sum>n. bbp_coefficient n * y ^ n)"
    using sums_group [OF summable_sums [OF coefficients_summable [OF assms]], of 8] by simp
  moreover have "(\<lambda>k. ?p * (y ^ 8 / 16) ^ k) sums (?p * (1 / (1 - y ^ 8 / 16)))"
    using small by (intro sums_mult geometric_sums) simp
  ultimately have "(\<Sum>n. bbp_coefficient n * y ^ n) = ?p * (1 / (1 - y ^ 8 / 16))"
    by (rule sums_unique2)
  also have "\<dots> = 16 * ?p / (16 - y ^ 8)"
    by (simp add: field_simps)
  finally show ?thesis .
qed

lemma bbp_function_derivative:
  assumes "\<bar>y\<bar> < 6 / 5"
  shows "(bbp_function has_real_derivative 16 * (4 - 2 * y ^ 3 - y ^ 4 - y ^ 5) / (16 - y ^ 8)) (at y)"
proof -
  have "DERIV (\<lambda>x. \<Sum>n. bbp_coefficient n / real (Suc n) * x ^ Suc n) y :>
      (\<Sum>n. bbp_coefficient n / real (Suc n) * real (Suc n) * y ^ n)"
  proof (rule DERIV_power_series' [of "6 / 5"])
    show "summable (\<lambda>n. bbp_coefficient n / real (Suc n) * real (Suc n) * x ^ n)" if "x \<in> {- (6 / 5)<..<6 / 5}" for x
      using coefficients_summable [of x] that by (simp add: abs_if)
  qed (use assms in auto)
  then show ?thesis
    using coefficients_sum [OF assms] unfolding bbp_function_def by simp
qed

section \<open>The antiderivative\<close>

definition bbp_primitive :: "real \<Rightarrow> real" where
  "bbp_primitive y = 2 * ln (2 - y\<^sup>2) - 2 * ln (y\<^sup>2 - 2 * y + 2) + 4 * arctan (y - 1)"

lemma bbp_rational:
  fixes y :: real
  assumes "2 - y\<^sup>2 > 0"
  shows "2 * (- 2 * y / (2 - y\<^sup>2)) - 2 * ((2 * y - 2) / (y\<^sup>2 - 2 * y + 2)) + 4 * (1 / (1 + (y - 1)\<^sup>2))
    = 16 * (4 - 2 * y ^ 3 - y ^ 4 - y ^ 5) / (16 - y ^ 8)"
proof -
  have partial: "(- 4 * y * b - (4 * y - 8) * a) / (a * b) = 2 * (- 2 * y / a) - 2 * ((2 * y - 2) / b) + 4 * (1 / b)"
    if "a \<noteq> 0" "b \<noteq> 0" for a b :: real
    using that by (simp add: field_simps)
  have a: "y\<^sup>2 - 2 * y + 2 = 1 + (y - 1)\<^sup>2" "y\<^sup>2 + 2 * y + 2 = 1 + (y + 1)\<^sup>2"
    by (simp_all add: power2_eq_square algebra_simps)
  have pos: "0 < y\<^sup>2 - 2 * y + 2" "0 < y\<^sup>2 + 2 * y + 2" "0 < y\<^sup>2 + 2"
    unfolding a by (simp_all add: add_pos_nonneg add_nonneg_pos)
  have f: "16 - y ^ 8 = (2 - y\<^sup>2) * (y\<^sup>2 - 2 * y + 2) * ((y\<^sup>2 + 2) * (y\<^sup>2 + 2 * y + 2))"
    by (simp add: algebra_simps power2_eq_square eval_nat_numeral)
  have n: "4 - 2 * y ^ 3 - y ^ 4 - y ^ 5 = (1 - y) * ((y\<^sup>2 + 2) * (y\<^sup>2 + 2 * y + 2))"
    by (simp add: algebra_simps power2_eq_square eval_nat_numeral)
  have "16 * (4 - 2 * y ^ 3 - y ^ 4 - y ^ 5) / (16 - y ^ 8) = 16 * (1 - y) / ((2 - y\<^sup>2) * (y\<^sup>2 - 2 * y + 2))"
    unfolding f n using pos by simp
  also have "16 * (1 - y) = - 4 * y * (y\<^sup>2 - 2 * y + 2) - (4 * y - 8) * (2 - y\<^sup>2)"
    by (simp add: algebra_simps power2_eq_square)
  also have "\<dots> / ((2 - y\<^sup>2) * (y\<^sup>2 - 2 * y + 2))
      = 2 * (- 2 * y / (2 - y\<^sup>2)) - 2 * ((2 * y - 2) / (y\<^sup>2 - 2 * y + 2)) + 4 * (1 / (y\<^sup>2 - 2 * y + 2))"
    by (rule partial) (use assms pos in auto)
  finally show ?thesis
    unfolding a by simp
qed

lemma bbp_primitive_derivative:
  assumes "\<bar>y\<bar> < 6 / 5"
  shows "(bbp_primitive has_real_derivative 16 * (4 - 2 * y ^ 3 - y ^ 4 - y ^ 5) / (16 - y ^ 8)) (at y)"
proof -
  have "y\<^sup>2 \<le> (6 / 5)\<^sup>2"
    using assms by (simp add: abs_le_square_iff [symmetric])
  then have pos: "0 < 2 - y\<^sup>2"
    by (simp add: power2_eq_square)
  have q: "y\<^sup>2 - 2 * y + 2 = 1 + (y - 1)\<^sup>2"
    by (simp add: power2_eq_square algebra_simps)
  have "0 < y\<^sup>2 - 2 * y + 2"
    unfolding q by (simp add: add_pos_nonneg)
  then have "(bbp_primitive has_real_derivative
      2 * (- 2 * y / (2 - y\<^sup>2)) - 2 * ((2 * y - 2) / (y\<^sup>2 - 2 * y + 2)) + 4 * (1 / (1 + (y - 1)\<^sup>2))) (at y)"
    unfolding bbp_primitive_def using pos
    by (auto intro!: derivative_eq_intros simp: power2_eq_square divide_simps)
  then show ?thesis
    unfolding bbp_rational [OF pos] .
qed

lemma bbp_function_1: "bbp_function 1 = pi"
proof -
  have "DERIV (\<lambda>y. bbp_function y - bbp_primitive y) y :> 0" if "y \<in> {- (6 / 5)<..<6 / 5}" for y
    using DERIV_diff [OF bbp_function_derivative [of y] bbp_primitive_derivative [of y]] that by (simp add: abs_if)
  then have "bbp_function 1 - bbp_primitive 1 = bbp_function 0 - bbp_primitive 0"
    by (intro DERIV_isconst3 [of "- (6 / 5)" "6 / 5"]) auto
  moreover have "bbp_function 0 = 0"
    by (simp add: bbp_function_def)
  moreover have "bbp_primitive 1 = 0" "bbp_primitive 0 = - pi"
    by (simp_all add: bbp_primitive_def arctan_minus arctan_one)
  ultimately show ?thesis
    by simp
qed

section \<open>The formula\<close>

lemma bbp_function_sums: "(\<lambda>n. bbp_coefficient n / real (Suc n)) sums pi"
proof -
  have "summable (\<lambda>n. bbp_coefficient n / real (Suc n))"
  proof (rule summable_comparison_test' [of "\<lambda>n. 4 * (7 / 5) ^ 7 * (5 / 7) ^ n" 0])
    show "summable (\<lambda>n. 4 * (7 / 5) ^ 7 * (5 / 7 :: real) ^ n)"
      by (intro summable_mult summable_geometric) simp
    fix n
    have "\<bar>bbp_coefficient n\<bar> / real (Suc n) \<le> \<bar>bbp_coefficient n\<bar>"
      using mult_left_mono [of 1 "1 + real n" "\<bar>bbp_coefficient n\<bar>"] by (simp add: divide_le_eq)
    then show "norm (bbp_coefficient n / real (Suc n)) \<le> 4 * (7 / 5) ^ 7 * (5 / 7) ^ n"
      using coefficient_bound [of n] by simp
  qed
  then show ?thesis
    using bbp_function_1 summable_sums by (fastforce simp: bbp_function_def)
qed

theorem bbp_pi: "4 * bbp_sum 1 - 2 * bbp_sum 4 - bbp_sum 5 - bbp_sum 6 = pi"
proof -
  have "sum (\<lambda>n. bbp_coefficient n / real (Suc n)) {k * 8..<k * 8 + 8}
      = 4 * bbp_term 1 k - 2 * bbp_term 4 k - bbp_term 5 k - bbp_term 6 k" for k
    by (simp only: block_sum coefficient_block) (simp add: bbp_term_def power_one_over algebra_simps)
  then have "(\<lambda>k. 4 * bbp_term 1 k - 2 * bbp_term 4 k - bbp_term 5 k - bbp_term 6 k) sums pi"
    using sums_group [OF bbp_function_sums, of 8] by simp
  moreover have "(\<lambda>k. 4 * bbp_term 1 k - 2 * bbp_term 4 k - bbp_term 5 k - bbp_term 6 k)
      sums (4 * bbp_sum 1 - 2 * bbp_sum 4 - bbp_sum 5 - bbp_sum 6)"
    unfolding bbp_sum_def by (intro sums_diff sums_mult summable_sums bbp_summable) simp_all
  ultimately show ?thesis
    by (rule sums_unique2 [symmetric])
qed

end
