(* ===== verification/Bbp_Digit.thy ===== *)
theory Bbp_Digit
  imports Long_Double Bbp_Series
begin

text \<open>
  The calculator of single hexadecimal digits of pi (src/verification/BBPHexDigit.cpp): modular
  arithmetic on 64-bit words, the two loops of a series in \<open>long double\<close>, and the decision whether the
  error bound leaves one digit.  A digit it resolves is the digit of pi, in every format of \<open>long double\<close>.
\<close>

unbundle bit_operations_syntax

lemma unat_half: "unat (drop_bit 1 w) = unat (w :: u64) div 2"
  by (simp add: drop_bit_eq_div unat_div)

lemma half_less: "w \<noteq> 0 \<Longrightarrow> unat (drop_bit 1 w) < unat (w :: u64)"
  unfolding unat_half by (simp add: unat_gt_0)

section \<open>Definitions\<close>

datatype BBPDigitStatus = BBP_resolved | BBP_inconclusive

record BBPHexDigit =
  bbp_position :: u64
  bbp_status :: BBPDigitStatus
  bbp_digit :: "u8 option"
  bbp_errorBound :: rat
  bbp_tailTerms :: u32

record SeriesResult =
  sr_fractional :: rat
  sr_tailBound :: rat
  sr_tailTerms :: u32

definition addModulo :: "u64 \<Rightarrow> u64 \<Rightarrow> u64 \<Rightarrow> u64" where
  "addModulo left right modulus =
     (if left \<ge> modulus - right then left - (modulus - right) else left + right)"

function multiplyLoop :: "u64 \<Rightarrow> u64 \<Rightarrow> u64 \<Rightarrow> u64 \<Rightarrow> u64" where
  "multiplyLoop modulus result left right =
     (if right = 0 then result
      else let result = (if right AND 1 \<noteq> 0 then addModulo result left modulus else result);
               right = drop_bit 1 right;
               left = (if right \<noteq> 0 then addModulo left left modulus else left)
           in multiplyLoop modulus result left right)"
  by auto
termination
  by (relation "measure (\<lambda>(_, _, _, right). unat right)") (simp_all del: One_nat_def add: half_less)

definition multiplyModulo :: "u64 \<Rightarrow> u64 \<Rightarrow> u64 \<Rightarrow> u64" where
  "multiplyModulo left right modulus =
     (if left = 0 \<or> right \<le> - 1 div left then (left * right) mod modulus
      else multiplyLoop modulus 0 (left mod modulus) right)"

function powerLoop :: "u64 \<Rightarrow> u64 \<Rightarrow> u64 \<Rightarrow> u64 \<Rightarrow> u64" where
  "powerLoop modulus result base exponent =
     (if exponent = 0 then result
      else let result = (if exponent AND 1 \<noteq> 0 then multiplyModulo result base modulus else result);
               exponent = drop_bit 1 exponent;
               base = (if exponent \<noteq> 0 then multiplyModulo base base modulus else base)
           in powerLoop modulus result base exponent)"
  by auto
termination
  by (relation "measure (\<lambda>(_, _, _, exponent). unat exponent)") (simp_all del: One_nat_def add: half_less)

definition power16Modulo :: "u64 \<Rightarrow> u64 \<Rightarrow> u64" where
  "power16Modulo exponent modulus = powerLoop modulus (1 mod modulus) (16 mod modulus) exponent"

text \<open>The sum of the terms up to the position, reduced to its fractional part after every term.\<close>

function headLoop :: "long_double_format \<Rightarrow> u64 \<Rightarrow> u64 \<Rightarrow> u64 \<Rightarrow> rat \<Rightarrow> rat" where
  "headLoop f position offset k acc =
     (let denominator = 8 * k + offset;
          acc = ld_add f acc (ld_div f (ld_of f (power16Modulo (position - k) denominator)) (ld_of f denominator));
          acc = ld_sub f acc (ld_floor acc)
      in if k = position then acc else headLoop f position offset (k + 1) acc)"
  by auto
termination
proof (relation "measure (\<lambda>(_, position, _, k, _). unat (position - k))")
  fix f :: long_double_format and position offset k :: u64 and acc :: rat and denominator acc' acc''
  assume "k \<noteq> position"
  then have "position - k \<noteq> 0"
    by simp
  then have "unat (position - k - 1) < unat (position - k)"
    by (metis measure_unat)
  then show "((f, position, offset, k + 1, acc''), f, position, offset, k, acc) \<in> measure (\<lambda>(_, position, _, k, _). unat (position - k))"
    by (simp add: algebra_simps)
qed simp

text \<open>At most 64 further terms, until the power of 16 is no larger than \<open>epsilon\<close>.\<close>

function tailLoop :: "long_double_format \<Rightarrow> u64 \<Rightarrow> rat \<Rightarrow> rat \<Rightarrow> u64 \<Rightarrow> u32 \<Rightarrow> rat \<times> rat \<times> u64 \<times> u32" where
  "tailLoop f offset acc pwr k tailTerms =
     (if tailTerms < 64
      then let denominator = 8 * k + offset;
               acc = ld_add f acc (ld_div f pwr (ld_of f denominator));
               pwr' = ld_div f pwr 16
           in if pwr' \<le> ld_epsilon f then (acc, pwr', k + 1, tailTerms + 1)
              else tailLoop f offset acc pwr' (k + 1) (tailTerms + 1)
      else (acc, pwr, k, tailTerms))"
  by auto
termination
  by (relation "measure (\<lambda>(_, _, _, _, _, tailTerms). 64 - unat tailTerms)") (auto simp: word_less_nat_alt unat_word_ariths)

definition series :: "long_double_format \<Rightarrow> u64 \<Rightarrow> u64 \<Rightarrow> SeriesResult" where
  "series f position offset =
     (let acc = headLoop f position offset 0 0 in
      case tailLoop f offset acc (ld_div f 1 16) (position + 1) 0 of (acc, pwr, k, tailTerms) \<Rightarrow>
        \<lparr>sr_fractional = ld_sub f acc (ld_floor acc),
         sr_tailBound = ld_mul f (ld_div f pwr (ld_of f (8 * k + offset))) (ld_div f 16 15),
         sr_tailTerms = tailTerms\<rparr>)"

definition maximumPosition :: u64 where
  "maximumPosition = (- 1 - 6) div 8 - 65"

definition bbp_resolved :: "BBPHexDigit \<Rightarrow> bool" where
  "bbp_resolved d \<longleftrightarrow> bbp_status d = BBP_resolved \<and> bbp_digit d \<noteq> None"

text \<open>The conversion of the floor, a number from 0 to 16, to a byte is \<open>word_of_int\<close>.\<close>

definition decideDigit :: "long_double_format \<Rightarrow> u64 \<Rightarrow> SeriesResult \<Rightarrow> SeriesResult \<Rightarrow> SeriesResult \<Rightarrow> SeriesResult \<Rightarrow> BBPHexDigit" where
  "decideDigit f position s1 s4 s5 s6 =
     (let fraction = ld_sub f (ld_sub f (ld_sub f (ld_mul f 4 (sr_fractional s1)) (ld_mul f 2 (sr_fractional s4)))
            (sr_fractional s5)) (sr_fractional s6);
          fraction = ld_sub f fraction (ld_floor fraction);
          tailBound = ld_add f (ld_add f (ld_add f (ld_mul f 4 (sr_tailBound s1)) (ld_mul f 2 (sr_tailBound s4)))
            (sr_tailBound s5)) (sr_tailBound s6);
          operationCount = ld_add f (ld_add f (ld_add f (ld_add f (ld_mul f (ld_of f (position + 1)) 4)
            (ld_of f (sr_tailTerms s1))) (ld_of f (sr_tailTerms s4))) (ld_of f (sr_tailTerms s5))) (ld_of f (sr_tailTerms s6));
          roundingBound = ld_mul f (ld_mul f 64 (ld_epsilon f)) (max 1 operationCount);
          errorBound = ld_add f tailBound roundingBound;
          scaled = ld_mul f fraction 16;
          lowerBoundary = ld_floor scaled;
          distance = min (ld_sub f scaled lowerBoundary) (ld_sub f (ld_add f lowerBoundary 1) scaled);
          tailTerms = max (max (max (sr_tailTerms s1) (sr_tailTerms s4)) (sr_tailTerms s5)) (sr_tailTerms s6)
      in if ld_mul f errorBound 16 \<ge> distance
         then \<lparr>bbp_position = position, bbp_status = BBP_inconclusive, bbp_digit = None, bbp_errorBound = errorBound, bbp_tailTerms = tailTerms\<rparr>
         else \<lparr>bbp_position = position, bbp_status = BBP_resolved, bbp_digit = Some (word_of_int \<lfloor>lowerBoundary\<rfloor>),
               bbp_errorBound = errorBound, bbp_tailTerms = tailTerms\<rparr>)"

definition BBPHexDigit_calculate :: "long_double_format \<Rightarrow> u64 \<Rightarrow> BBPHexDigit result" where
  "BBPHexDigit_calculate f position =
     res_bind (throw_if (position > maximumPosition) (Out_of_range ''BBP hexadecimal position is too large'')) (\<lambda>_.
     Inr (decideDigit f position (series f position 1) (series f position 4) (series f position 5) (series f position 6)))"

declare multiplyLoop.simps [simp del] powerLoop.simps [simp del] headLoop.simps [simp del] tailLoop.simps [simp del]

section \<open>Modular arithmetic\<close>

lemma odd_half:
  fixes w :: u64
  shows "w AND 1 \<noteq> 0 \<longleftrightarrow> odd (unat w)" and "unat w = 2 * (unat w div 2) + (if odd (unat w) then 1 else 0)"
proof -
  have "odd (unat w) \<longleftrightarrow> odd w"
    using bit_unsigned_iff [of w 0, where ?'a = nat] by (simp add: bit_0)
  then show "w AND 1 \<noteq> 0 \<longleftrightarrow> odd (unat w)"
    by (simp add: and_one_eq mod_2_eq_odd)
qed simp

lemma addModulo_eq:
  assumes "unat l < unat m" and "unat r < unat m"
  shows "unat (addModulo l r m) = (unat l + unat r) mod unat m"
proof -
  have d: "unat (m - r) = unat m - unat r"
    using assms(2) by (intro unat_sub_le) (simp add: word_le_nat_alt)
  show ?thesis
  proof (cases "l \<ge> m - r")
    case True
    then have "unat m \<le> unat l + unat r"
      using d by (simp add: word_le_nat_alt)
    moreover have "unat (l - (m - r)) = unat l - (unat m - unat r)"
      using True d by (simp add: unat_sub_le)
    ultimately show ?thesis
      using True assms by (simp add: addModulo_def mod_if)
  next
    case False
    then have "unat l + unat r < unat m"
      using d by (simp add: word_le_nat_alt)
    moreover from this have "unat (l + r) = unat l + unat r"
      using unat_u64_less [of m] by (intro unat_add_no_wrap) simp
    ultimately show ?thesis
      using False by (simp add: addModulo_def)
  qed
qed

lemma multiplyLoop_eq:
  assumes "unat result < unat m" and "unat left < unat m"
  shows "unat (multiplyLoop m result left right) = (unat result + unat left * unat right) mod unat m"
  using assms
proof (induction m result left right rule: multiplyLoop.induct)
  case (1 m result left right)
  show ?case
  proof (cases "right = 0")
    case True
    then show ?thesis
      using "1.prems" by (simp add: multiplyLoop.simps)
  next
    case False
    define result' where "result' = (if right AND 1 \<noteq> 0 then addModulo result left m else result)"
    define half where "half = drop_bit 1 right"
    define left' where "left' = (if half \<noteq> 0 then addModulo left left m else left)"
    have r: "unat result' = (unat result + unat left * (unat right mod 2)) mod unat m"
      using "1.prems" by (simp add: result'_def odd_half(1) addModulo_eq mod_2_eq_odd)
    have l: "unat left' * unat half mod unat m = unat left * 2 * unat half mod unat m" "unat left' < unat m"
      using "1.prems" by (auto simp: left'_def addModulo_eq mod_mult_left_eq mod_mult_right_eq mult_2 [symmetric] mult.commute)
    have "unat (multiplyLoop m result left right) = unat (multiplyLoop m result' left' half)"
      using False by (subst multiplyLoop.simps) (simp add: result'_def half_def left'_def Let_def)
    also have "\<dots> = (unat result' + unat left' * unat half) mod unat m"
      unfolding result'_def left'_def half_def
      by (rule "1.IH" [OF False refl refl refl])
        (use r l(2) "1.prems" in \<open>simp_all add: result'_def left'_def half_def\<close>)
    also have "\<dots> = (unat result + unat left * (unat right mod 2) + unat left * 2 * unat half) mod unat m"
      by (rule mod_add_cong) (simp_all add: r l(1))
    also have "unat result + unat left * (unat right mod 2) + unat left * 2 * unat half = unat result + unat left * unat right"
      by (simp add: half_def unat_half [unfolded One_nat_def] algebra_simps flip: distrib_left)
    finally show ?thesis .
  qed
qed

lemma multiplyModulo_eq:
  assumes "0 < unat m"
  shows "unat (multiplyModulo left right m) = (unat left * unat right) mod unat m"
proof (cases "left = 0 \<or> right \<le> - 1 div left")
  case True
  have "unat left * unat right < 2 ^ 64"
  proof (cases "left = 0")
    case False
    then have "unat right \<le> (2 ^ 64 - 1) div unat left"
      using True by (simp add: word_le_nat_alt unat_div unat_max_word)
    then have "unat right * unat left \<le> 2 ^ 64 - 1"
      using False by (simp add: less_eq_div_iff_mult_less_eq unat_gt_0)
    then show ?thesis
      by (simp add: mult.commute)
  qed simp
  then have "unat (left * right) = unat left * unat right"
    by (intro unat_mult_no_wrap) simp
  then show ?thesis
    using True by (simp add: multiplyModulo_def unat_mod)
next
  case False
  then show ?thesis
    using assms by (simp add: multiplyModulo_def multiplyLoop_eq unat_mod mod_mult_left_eq)
qed

lemma powerLoop_eq:
  assumes "unat result < unat m" and "unat base < unat m"
  shows "unat (powerLoop m result base exponent) = (unat result * unat base ^ unat exponent) mod unat m"
  using assms
proof (induction m result base exponent rule: powerLoop.induct)
  case (1 m result base exponent)
  show ?case
  proof (cases "exponent = 0")
    case True
    then show ?thesis
      using "1.prems" by (simp add: powerLoop.simps)
  next
    case False
    have m: "0 < unat m"
      using "1.prems" by simp
    define result' where "result' = (if exponent AND 1 \<noteq> 0 then multiplyModulo result base m else result)"
    define half where "half = drop_bit 1 exponent"
    define base' where "base' = (if half \<noteq> 0 then multiplyModulo base base m else base)"
    have r: "unat result' = (unat result * unat base ^ (unat exponent mod 2)) mod unat m"
      using "1.prems" m by (simp add: result'_def odd_half(1) multiplyModulo_eq mod_2_eq_odd)
    have l: "unat base' ^ unat half mod unat m = (unat base ^ 2) ^ unat half mod unat m" "unat base' < unat m"
      using "1.prems" m by (auto simp: base'_def multiplyModulo_eq power_mod power2_eq_square)
    have "unat (powerLoop m result base exponent) = unat (powerLoop m result' base' half)"
      using False by (subst powerLoop.simps) (simp add: result'_def half_def base'_def Let_def)
    also have "\<dots> = (unat result' * unat base' ^ unat half) mod unat m"
      unfolding result'_def base'_def half_def
      by (rule "1.IH" [OF False refl refl refl])
        (use r l(2) m in \<open>simp_all add: result'_def base'_def half_def\<close>)
    also have "\<dots> = (unat result * unat base ^ (unat exponent mod 2) * (unat base ^ 2) ^ unat half) mod unat m"
      by (rule mod_mult_cong) (simp_all only: r l(1) mod_mod_trivial)
    also have "unat result * unat base ^ (unat exponent mod 2) * (unat base ^ 2) ^ unat half = unat result * unat base ^ unat exponent"
      by (simp add: half_def unat_half [unfolded One_nat_def] mult.assoc flip: power_mult power_add)
    finally show ?thesis .
  qed
qed

lemma power16Modulo_eq:
  assumes "0 < unat m"
  shows "unat (power16Modulo e m) = 16 ^ unat e mod unat m"
proof -
  have "unat (1 mod m) < unat m" "unat (16 mod m) < unat m"
    using assms unat_mod [of 1 m] unat_mod [of 16 m] by simp_all
  then have "unat (power16Modulo e m) = (unat (1 mod m) * unat (16 mod m) ^ unat e) mod unat m"
    by (simp only: power16Modulo_def powerLoop_eq)
  also have "\<dots> = (1 * 16 ^ unat e) mod unat m"
    by (rule mod_mult_cong) (simp_all add: unat_mod power_mod)
  finally show ?thesis
    by simp
qed

section \<open>Errors modulo one\<close>

text \<open>The number \<open>s\<close> stands for \<open>v\<close> up to an integer and an error of at most \<open>b\<close>.\<close>

definition near :: "rat \<Rightarrow> rat \<Rightarrow> rat \<Rightarrow> bool" where
  "near v s b \<longleftrightarrow> (\<exists>n :: int. \<bar>v - of_int n - s\<bar> \<le> b)"

lemma near_refl: "0 \<le> b \<Longrightarrow> near v v b"
  unfolding near_def by (rule exI [of _ 0]) simp

lemma near_mono: "near v s b \<Longrightarrow> b \<le> c \<Longrightarrow> near v s c"
  unfolding near_def by (meson order_trans)

lemma near_trans: "near v s b \<Longrightarrow> near s u c \<Longrightarrow> b + c \<le> d \<Longrightarrow> near v u d"
proof -
  assume "near v s b" "near s u c" "b + c \<le> d"
  then obtain m n :: int where "\<bar>v - of_int m - s\<bar> \<le> b" "\<bar>s - of_int n - u\<bar> \<le> c"
    by (auto simp: near_def)
  then have "\<bar>v - of_int (m + n) - u\<bar> \<le> d"
    using \<open>b + c \<le> d\<close> by simp
  then show ?thesis
    unfolding near_def by blast
qed

lemma near_add: "near v s b \<Longrightarrow> near w u c \<Longrightarrow> near (v + w) (s + u) (b + c)"
proof -
  assume "near v s b" "near w u c"
  then obtain m n :: int where "\<bar>v - of_int m - s\<bar> \<le> b" "\<bar>w - of_int n - u\<bar> \<le> c"
    by (auto simp: near_def)
  then have "\<bar>(v + w) - of_int (m + n) - (s + u)\<bar> \<le> b + c"
    by simp
  then show ?thesis
    unfolding near_def by blast
qed

lemma near_mult: "near v s b \<Longrightarrow> near (of_int k * v) (of_int k * s) (\<bar>of_int k\<bar> * b)"
proof -
  assume "near v s b"
  then obtain m :: int where "\<bar>v - of_int m - s\<bar> \<le> b"
    by (auto simp: near_def)
  then have "\<bar>of_int k * (v - of_int m - s)\<bar> \<le> \<bar>of_int k\<bar> * b"
    by (simp add: abs_mult mult_left_mono)
  then have "\<bar>of_int k * v - of_int (k * m) - of_int k * s\<bar> \<le> \<bar>of_int k\<bar> * b"
    by (simp add: algebra_simps)
  then show ?thesis
    unfolding near_def by blast
qed

lemma near_error: "\<bar>u - v\<bar> \<le> b \<Longrightarrow> near v u b"
  unfolding near_def by (rule exI [of _ 0]) (simp add: abs_minus_commute)

lemma near_floor: "\<bar>u - (v - ld_floor v)\<bar> \<le> b \<Longrightarrow> near v u b"
  unfolding near_def ld_floor_def by (rule exI [of _ "\<lfloor>v\<rfloor>"]) (simp add: abs_minus_commute algebra_simps)

lemma near_fraction:
  assumes "0 < (m :: nat)"
  shows "near (of_nat n / of_nat m) (of_nat (n mod m) / of_nat m) 0"
proof -
  have "(of_nat n :: rat) = of_nat (n div m) * of_nat m + of_nat (n mod m)"
    by (metis div_mult_mod_eq of_nat_add of_nat_mult)
  then have "(of_nat n :: rat) / of_nat m = of_int (int (n div m)) + of_nat (n mod m) / of_nat m"
    using assms by (simp add: field_simps)
  then show ?thesis
    unfolding near_def by (intro exI [of _ "int (n div m)"]) simp
qed

section \<open>Rounding errors of a series\<close>

definition head_sum :: "nat \<Rightarrow> nat \<Rightarrow> nat \<Rightarrow> rat" where
  "head_sum d j n = (\<Sum>i<n. 16 ^ (d - i) / of_nat (8 * i + j))"

definition tail_sum :: "nat \<Rightarrow> nat \<Rightarrow> nat \<Rightarrow> rat" where
  "tail_sum d j n = (\<Sum>i<n. (1 / 16) ^ Suc i / of_nat (8 * (d + 1 + i) + j))"

context long_double
begin

lemma quotient_error:
  assumes "0 \<le> x" and "0 < y" and "\<bar>x' - x\<bar> \<le> ld_epsilon f * x" and "\<bar>y' - y\<bar> \<le> ld_epsilon f * y"
  shows "\<bar>ld_div f x' y' - x / y\<bar> \<le> 4 * ld_epsilon f * (x / y)"
proof -
  define e where "e = ld_epsilon f"
  have e: "0 < e" "e \<le> 1 / 10"
    using epsilon_pos epsilon_small by (simp_all add: e_def)
  have x: "(1 - e) * x \<le> x'" "x' \<le> (1 + e) * x" "0 \<le> x'" and y: "(1 - e) * y \<le> y'" "y' \<le> (1 + e) * y"
    using assms e mult_right_mono [of e 1 x] by (simp_all add: e_def [symmetric] algebra_simps)
  have ye: "0 < (1 - e) * y"
    using e assms(2) by simp
  have y': "0 < y'"
    using ye y(1) by (rule less_le_trans)
  have "x' / y' \<le> ((1 + e) * x) / ((1 - e) * y)"
    using x y ye e assms by (intro frac_le) simp_all
  also have "\<dots> = (1 + e) / (1 - e) * (x / y)"
    by simp
  also have "\<dots> \<le> (1 + 5 / 2 * e) * (x / y)"
  proof (rule mult_right_mono)
    have "e * e \<le> e * (1 / 10)"
      using e by (intro mult_left_mono) simp_all
    then show "(1 + e) / (1 - e) \<le> 1 + 5 / 2 * e"
      using e by (simp add: divide_le_eq algebra_simps)
  qed (use assms in simp)
  finally have up: "x' / y' \<le> (1 + 5 / 2 * e) * (x / y)" .
  have "(1 - 2 * e) * (x / y) \<le> (1 - e) / (1 + e) * (x / y)"
    using e assms by (intro mult_right_mono) (simp_all add: le_divide_eq algebra_simps)
  also have "\<dots> = ((1 - e) * x) / ((1 + e) * y)"
    by simp
  also have "\<dots> \<le> x' / y'"
    using x y y' e assms by (intro frac_le) simp_all
  finally have lo: "(1 - 2 * e) * (x / y) \<le> x' / y'" .
  have q: "0 \<le> x / y" "0 \<le> e * (x / y)"
    using assms e by simp_all
  have near: "\<bar>x' / y' - x / y\<bar> \<le> 5 / 2 * (e * (x / y))"
    using up lo q by (simp add: algebra_simps abs_le_iff)
  have "0 \<le> x' / y'" "e * (x / y) \<le> 1 / 10 * (x / y)"
    using x(3) y' mult_right_mono [OF e(2) q(1)] by simp_all
  then have "\<bar>x' / y'\<bar> \<le> 3 / 2 * (x / y)"
    using near q(1) by linarith
  then have "\<bar>ld_round f (x' / y') - x' / y'\<bar> \<le> e * (3 / 2 * (x / y))"
    unfolding e_def by (rule round_within)
  then have "\<bar>ld_round f (x' / y') - x / y\<bar> \<le> 4 * (e * (x / y))"
    using near by linarith
  then show ?thesis
    by (simp add: ld_div_def e_def)
qed

lemma of_error: "\<bar>ld_of f w - of_nat (unat w)\<bar> \<le> ld_epsilon f * of_nat (unat w)"
proof -
  have "of_int (uint w) = (of_nat (unat w) :: rat)"
    by (simp only: uint_nat of_int_of_nat_eq)
  then show ?thesis
    using round_error [of "of_nat (unat w)"] by (simp only: ld_of_def abs_of_nat)
qed

lemma fraction_range: "0 \<le> ld_sub f x (ld_floor x)" "ld_sub f x (ld_floor x) \<le> 1 + ld_epsilon f" "near x (ld_sub f x (ld_floor x)) (ld_epsilon f)"
proof -
  have r: "0 \<le> x - ld_floor x" "x - ld_floor x \<le> 1"
    unfolding ld_floor_def by linarith+
  show "0 \<le> ld_sub f x (ld_floor x)"
    unfolding ld_sub_def by (rule round_nonneg [OF r(1)])
  show "ld_sub f x (ld_floor x) \<le> 1 + ld_epsilon f"
    using round_le [OF r] by (simp add: ld_sub_def)
  show "near x (ld_sub f x (ld_floor x)) (ld_epsilon f)"
    using round_within [of "x - ld_floor x" 1] r by (intro near_floor) (simp add: ld_sub_def)
qed

lemma add_step:
  assumes "near v s b" and "0 \<le> s" and "s \<le> c" and "0 \<le> q" and "\<bar>r - q\<bar> \<le> 4 * ld_epsilon f * q"
  shows "0 \<le> ld_add f s r" and "ld_add f s r \<le> s + q + ld_epsilon f * (c + 6 * q)"
    and "near (v + q) (ld_add f s r) (b + ld_epsilon f * (c + 6 * q))"
proof -
  define e where "e = ld_epsilon f"
  have e: "0 < e" "4 * e \<le> 1"
    using epsilon_pos epsilon_small by (simp_all add: e_def)
  have "4 * e * q \<le> 1 * q"
    using e assms(4) by (intro mult_right_mono) simp_all
  then have r: "0 \<le> r" "r \<le> 2 * q"
    using assms(5) by (simp_all add: e_def)
  then have "\<bar>ld_add f s r - (s + r)\<bar> \<le> e * (c + 2 * q)"
    unfolding ld_add_def e_def using assms(2,3) by (intro round_within) simp
  then have d: "\<bar>ld_add f s r - (s + q)\<bar> \<le> e * (c + 6 * q)"
    using assms(5) by (simp add: e_def [symmetric] algebra_simps)
  then show "ld_add f s r \<le> s + q + ld_epsilon f * (c + 6 * q)"
    by (simp add: e_def)
  show "0 \<le> ld_add f s r"
    unfolding ld_add_def using r assms(2) by (intro round_nonneg) simp
  show "near (v + q) (ld_add f s r) (b + ld_epsilon f * (c + 6 * q))"
    using near_add [OF assms(1) near_refl [of 0 q]] near_error [OF d]
    by (rule near_trans) (simp_all add: e_def)
qed

lemma head_step:
  assumes "near v s b" and "0 \<le> s" and "s \<le> 2" and "unat m = M" and "0 < M"
  shows "let x = ld_add f s (ld_div f (ld_of f (power16Modulo n m)) (ld_of f m)); s' = ld_sub f x (ld_floor x)
    in near (v + 16 ^ unat n / of_nat M) s' (b + 9 * ld_epsilon f) \<and> 0 \<le> s' \<and> s' \<le> 2"
proof -
  define r where "r = 16 ^ unat n mod M"
  define q where "q = (of_nat r / of_nat M :: rat)"
  define x where "x = ld_add f s (ld_div f (ld_of f (power16Modulo n m)) (ld_of f m))"
  have "r \<le> M"
    using assms(5) by (simp add: r_def less_imp_le)
  then have q: "0 \<le> q" "q \<le> 1"
    by (simp_all add: q_def divide_le_eq)
  have r: "unat (power16Modulo n m) = r"
    using assms(4,5) by (simp add: power16Modulo_eq r_def)
  have "\<bar>ld_div f (ld_of f (power16Modulo n m)) (ld_of f m) - q\<bar> \<le> 4 * ld_epsilon f * q"
    unfolding q_def using assms(5) of_error [of "power16Modulo n m", unfolded r] of_error [of m, unfolded assms(4)]
    by (intro quotient_error) simp_all
  note a = add_step [OF assms(1,2,3) q(1) this, folded x_def]
  have "ld_epsilon f * (2 + 6 * q) \<le> ld_epsilon f * 8"
    using epsilon_pos q(2) by (intro mult_left_mono) simp_all
  then have "0 + (b + ld_epsilon f * (2 + 6 * q)) \<le> b + ld_epsilon f * 8"
    by simp
  moreover have "near (v + 16 ^ unat n / of_nat M) (v + q) 0"
    using near_add [OF near_refl [of 0 v] near_fraction [OF assms(5), of "16 ^ unat n"]] by (simp add: q_def r_def)
  ultimately have "near (v + 16 ^ unat n / of_nat M) x (b + ld_epsilon f * 8)"
    using near_trans [OF _ a(3)] by blast
  then have "near (v + 16 ^ unat n / of_nat M) (ld_sub f x (ld_floor x)) (b + 9 * ld_epsilon f)"
    using fraction_range(3) by (rule near_trans) simp
  then show ?thesis
    using fraction_range(1,2) [of x] epsilon_small by (simp add: Let_def x_def)
qed

lemma head_iteration:
  assumes "8 * d + 6 < 2 ^ 64" and "unat position = d" and "unat offset = j" and "0 < j" and "j \<le> 6" and "unat k = i" and "i \<le> d"
    and "near (head_sum d j i) acc (9 * ld_epsilon f * of_nat i)" and "0 \<le> acc" and "acc \<le> 2"
    and s: "s = (let x = ld_add f acc (ld_div f (ld_of f (power16Modulo (position - k) (8 * k + offset))) (ld_of f (8 * k + offset)))
      in ld_sub f x (ld_floor x))"
  shows "near (head_sum d j (Suc i)) s (9 * ld_epsilon f * of_nat (Suc i)) \<and> 0 \<le> s \<and> s \<le> 2"
proof -
  have "unat (8 * k + offset) = 8 * i + j"
    using assms unat_mult_no_wrap [of 8 k] unat_add_no_wrap [of "8 * k" offset] by simp
  moreover have "unat (position - k) = d - i"
    using assms by (simp add: unat_sub_le word_le_nat_alt)
  ultimately show ?thesis
    using head_step [OF assms(8-10), of "8 * k + offset" "8 * i + j" "position - k"] assms(4)
    by (simp add: Let_def head_sum_def s algebra_simps)
qed

lemma headLoop_near:
  assumes "8 * d + 6 < 2 ^ 64" and "unat position = d" and "unat offset = j" and "0 < j" and "j \<le> 6" and "unat k = i" and "i \<le> d"
    and "near (head_sum d j i) acc (9 * ld_epsilon f * of_nat i)" and "0 \<le> acc" and "acc \<le> 2"
  shows "near (head_sum d j (d + 1)) (headLoop f position offset k acc) (9 * ld_epsilon f * of_nat (d + 1))
    \<and> 0 \<le> headLoop f position offset k acc \<and> headLoop f position offset k acc \<le> 2"
  using assms(6-)
proof (induction "d - i" arbitrary: k i acc)
  case prems: (0 i k acc)
  define s where "s = (let x = ld_add f acc (ld_div f (ld_of f (power16Modulo (position - k) (8 * k + offset))) (ld_of f (8 * k + offset)))
    in ld_sub f x (ld_floor x))"
  have "k = position"
    using prems assms(2) by (simp add: word_unat_eq_iff)
  then have "headLoop f position offset k acc = s"
    by (subst headLoop.simps) (simp add: s_def Let_def)
  moreover have "near (head_sum d j (Suc i)) s (9 * ld_epsilon f * of_nat (Suc i)) \<and> 0 \<le> s \<and> s \<le> 2"
    by (rule head_iteration [OF assms(1-5) _ _ _ _ _ s_def]) (use prems in auto)
  ultimately show ?case
    using prems by simp
next
  case (Suc n)
  define s where "s = (let x = ld_add f acc (ld_div f (ld_of f (power16Modulo (position - k) (8 * k + offset))) (ld_of f (8 * k + offset)))
    in ld_sub f x (ld_floor x))"
  have k: "k \<noteq> position" "unat (k + 1) = Suc i"
    using Suc.hyps(2) Suc.prems(1) assms(1,2) unat_add_no_wrap [of k 1] by auto
  then have "headLoop f position offset k acc = headLoop f position offset (k + 1) s"
    by (subst headLoop.simps) (simp add: s_def Let_def)
  moreover have "near (head_sum d j (Suc i)) s (9 * ld_epsilon f * of_nat (Suc i)) \<and> 0 \<le> s \<and> s \<le> 2"
    by (rule head_iteration [OF assms(1-5) _ _ _ _ _ s_def]) (use Suc.prems in auto)
  ultimately show ?case
    using Suc.hyps(1) [of "Suc i" "k + 1" s] Suc.hyps(2) k(2) by simp
qed

lemma tail_iteration:
  fixes offset :: u64
  assumes "8 * (d + 65) + 6 < 2 ^ 64" and "unat offset = j" and "0 < j" and "j \<le> 6" and "i < 64"
    and "near (v + tail_sum d j i) acc (b + 9 * ld_epsilon f * of_nat i)" and "0 \<le> acc" and "acc \<le> 2 + of_nat i / 16"
    and s: "s = ld_add f acc (ld_div f ((1 / 16) ^ Suc i) (ld_of f (8 * of_nat (d + 1 + i) + offset)))"
  shows "near (v + tail_sum d j (Suc i)) s (b + 9 * ld_epsilon f * of_nat (Suc i)) \<and> 0 \<le> s \<and> s \<le> 2 + of_nat (Suc i) / 16"
proof -
  define M where "M = 8 * (d + 1 + i) + j"
  define q where "q = ((1 / 16) ^ Suc i / of_nat M :: rat)"
  define k where "k = (of_nat (d + 1 + i) :: u64)"
  have "unat k = d + 1 + i"
    unfolding k_def using assms(1,5) by (intro unat_of_nat_u64) simp
  then have m: "unat (8 * k + offset) = M"
    using assms unat_mult_no_wrap [of 8 k] unat_add_no_wrap [of "8 * k" offset] by (simp add: M_def)
  have "(1 / 16 :: rat) ^ Suc i \<le> 1 / 16" "9 \<le> (of_nat M :: rat)"
    using power_decreasing [of 1 "Suc i" "1 / 16 :: rat"] assms(3) by (simp_all add: M_def)
  then have "q \<le> (1 / 16) / 9"
    unfolding q_def by (intro frac_le) simp_all
  then have q: "0 \<le> q" "q \<le> 1 / 144"
    by (simp_all add: q_def)
  have "0 < M"
    by (simp add: M_def)
  then have "\<bar>ld_div f ((1 / 16) ^ Suc i) (ld_of f (8 * k + offset)) - q\<bar> \<le> 4 * ld_epsilon f * q"
    unfolding q_def using epsilon_pos of_error [of "8 * k + offset", unfolded m]
    by (intro quotient_error) simp_all
  moreover have "acc \<le> 6"
    using assms(5,8) by simp
  ultimately have a: "0 \<le> s" "s \<le> acc + q + ld_epsilon f * (6 + 6 * q)"
      "near (v + tail_sum d j i + q) s (b + 9 * ld_epsilon f * of_nat i + ld_epsilon f * (6 + 6 * q))"
    using add_step [OF assms(6,7) _ q(1)] unfolding s k_def by blast+
  have "ld_epsilon f * (6 + 6 * q) \<le> ld_epsilon f * 9"
    using epsilon_pos q(2) by (intro mult_left_mono) simp_all
  moreover have "ld_epsilon f * 9 \<le> 1 / 100"
    using epsilon_small by simp
  ultimately have e: "ld_epsilon f * (6 + 6 * q) \<le> ld_epsilon f * 9" "ld_epsilon f * 9 \<le> 1 / 100"
    by simp_all
  have "v + tail_sum d j i + q = v + tail_sum d j (Suc i)"
    by (simp add: tail_sum_def q_def M_def)
  moreover have "b + 9 * ld_epsilon f * of_nat i + ld_epsilon f * (6 + 6 * q) \<le> b + 9 * ld_epsilon f * of_nat (Suc i)"
    using e(1) by (simp add: distrib_left)
  ultimately have "near (v + tail_sum d j (Suc i)) s (b + 9 * ld_epsilon f * of_nat (Suc i))"
    using near_mono [OF a(3)] by metis
  moreover have "s \<le> 2 + of_nat (Suc i) / 16"
    using a(2) e q(2) assms(8) unfolding of_nat_Suc add_divide_distrib by linarith
  ultimately show ?thesis
    using a(1) by blast
qed

lemma next_power: "ld_div f ((1 / 16) ^ Suc i) 16 = (1 / 16) ^ Suc (Suc i)"
  using round_power [of "Suc (Suc i)"] by (simp add: ld_div_def)

lemma tailLoop_near:
  fixes offset :: u64
  assumes "8 * (d + 65) + 6 < 2 ^ 64" and "unat offset = j" and "0 < j" and "j \<le> 6" and "i < 64"
    and "near (v + tail_sum d j i) acc (b + 9 * ld_epsilon f * of_nat i)" and "0 \<le> acc" and "acc \<le> 2 + of_nat i / 16"
  shows "\<exists>n acc'. tailLoop f offset acc ((1 / 16) ^ Suc i) (of_nat (d + 1 + i)) (of_nat i)
      = (acc', (1 / 16) ^ Suc n, of_nat (d + 1 + n), of_nat n) \<and> 1 \<le> n \<and> n \<le> 64
    \<and> near (v + tail_sum d j n) acc' (b + 9 * ld_epsilon f * of_nat n)"
  using assms(5-)
proof (induction "63 - i" arbitrary: i acc)
  case prems: (0 i acc)
  define s where "s = ld_add f acc (ld_div f ((1 / 16) ^ Suc i) (ld_of f (8 * of_nat (d + 1 + i) + offset)))"
  have i: "i = 63"
    using prems by simp
  have "near (v + tail_sum d j (Suc i)) s (b + 9 * ld_epsilon f * of_nat (Suc i)) \<and> 0 \<le> s \<and> s \<le> 2 + of_nat (Suc i) / 16"
    by (rule tail_iteration [OF assms(1-4) prems(2-5) s_def])
  moreover have "tailLoop f offset acc ((1 / 16) ^ Suc i) (of_nat (d + 1 + i)) (of_nat i)
      = (s, (1 / 16) ^ Suc (Suc i), of_nat (d + 1 + Suc i), of_nat (Suc i))"
    using next_power [of i]
    by (subst tailLoop.simps) (simp add: i s_def Let_def tailLoop.simps)
  ultimately show ?case
    by (intro exI [of _ "Suc i"] exI [of _ s]) (simp add: i)
next
  case (Suc n)
  define s where "s = ld_add f acc (ld_div f ((1 / 16) ^ Suc i) (ld_of f (8 * of_nat (d + 1 + i) + offset)))"
  have "near (v + tail_sum d j (Suc i)) s (b + 9 * ld_epsilon f * of_nat (Suc i)) \<and> 0 \<le> s \<and> s \<le> 2 + of_nat (Suc i) / 16"
    by (rule tail_iteration [OF assms(1-4) Suc.prems s_def])
  note s = conjunct1 [OF this] conjunct2 [OF this]
  have "(of_nat i :: u32) < 64"
    using Suc.prems(1) by (simp add: word_less_nat_alt unat_of_nat)
  then have "tailLoop f offset acc ((1 / 16) ^ Suc i) (of_nat (d + 1 + i)) (of_nat i) =
      (if (1 / 16) ^ Suc (Suc i) \<le> ld_epsilon f then (s, (1 / 16) ^ Suc (Suc i), of_nat (d + 1 + Suc i), of_nat (Suc i))
       else tailLoop f offset s ((1 / 16) ^ Suc (Suc i)) (of_nat (d + 1 + Suc i)) (of_nat (Suc i)))"
    using next_power [of i] by (subst tailLoop.simps) (simp add: s_def Let_def ac_simps del: power_Suc)
  moreover have "\<exists>n acc'. tailLoop f offset s ((1 / 16) ^ Suc (Suc i)) (of_nat (d + 1 + Suc i)) (of_nat (Suc i))
      = (acc', (1 / 16) ^ Suc n, of_nat (d + 1 + n), of_nat n) \<and> 1 \<le> n \<and> n \<le> 64
    \<and> near (v + tail_sum d j n) acc' (b + 9 * ld_epsilon f * of_nat n)"
    using Suc.hyps s by (intro Suc.hyps(1)) simp_all
  ultimately show ?case
    using s(1) Suc.prems(1) by (cases "(1 / 16) ^ Suc (Suc i) \<le> ld_epsilon f") (auto simp del: power_Suc)
qed

lemma round_small: "0 \<le> x \<Longrightarrow> x \<le> 1 \<Longrightarrow> x - ld_epsilon f \<le> ld_round f x \<and> ld_round f x \<le> x + ld_epsilon f"
  using round_within [of x 1] by (simp, linarith)

lemma round_relative: "0 \<le> x \<Longrightarrow> 999 / 1000 * x \<le> ld_round f x"
  using round_ge [of x] mult_right_mono [OF epsilon_small, of x] by simp

lemma tail_bound:
  fixes offset :: u64
  assumes "8 * (d + 65) + 6 < 2 ^ 64" and "unat offset = j" and "0 < j" and "j \<le> 6" and "1 \<le> n" and "n \<le> 64"
    and B: "B = ld_mul f (ld_div f ((1 / 16) ^ Suc n) (ld_of f (8 * of_nat (d + 1 + n) + offset))) (ld_div f 16 15)"
  shows "0 \<le> B \<and> B \<le> 1 / 100 \<and> (1 / 16) ^ Suc n / of_nat (8 * (d + 1 + n) + j) * (16 / 15) \<le> B + ld_epsilon f"
proof -
  define e where "e = ld_epsilon f"
  define M where "M = 8 * (d + 1 + n) + j"
  define q where "q = ((1 / 16) ^ Suc n / of_nat M :: rat)"
  define k where "k = (of_nat (d + 1 + n) :: u64)"
  define x where "x = ld_div f ((1 / 16) ^ Suc n) (ld_of f (8 * k + offset))"
  define c where "c = ld_div f 16 15"
  have e: "0 < e" "e \<le> 1 / 1000"
    using epsilon_pos epsilon_small by (simp_all add: e_def)
  have "unat k = d + 1 + n"
    unfolding k_def using assms(1,6) by (intro unat_of_nat_u64) simp
  then have m: "unat (8 * k + offset) = M"
    using assms unat_mult_no_wrap [of 8 k] unat_add_no_wrap [of "8 * k" offset] by (simp add: M_def)
  have "(1 / 16 :: rat) ^ Suc n \<le> (1 / 16) ^ 2"
    using assms(5) by (intro power_decreasing) simp_all
  moreover have M: "9 \<le> (of_nat M :: rat)" "0 < M"
    using assms(3) by (simp_all add: M_def)
  ultimately have "q \<le> (1 / 16) ^ 2 / 9"
    unfolding q_def by (intro frac_le) simp_all
  then have q0: "0 \<le> q" "q \<le> 1 / 2000"
    by (simp_all add: q_def power2_eq_square)
  have q: "0 \<le> q" "q \<le> 1 / 2000" "0 \<le> e * q" "e * q \<le> e * (1 / 2000)" "e * q \<le> 1 / 1000 * q"
    using q0 mult_left_mono [OF q0(2)] mult_right_mono [OF e(2) q0(1)] e(1) by simp_all
  have "\<bar>x - q\<bar> \<le> 4 * ld_epsilon f * q"
    unfolding x_def q_def using epsilon_pos M(2) of_error [of "8 * k + offset", unfolded m]
    by (intro quotient_error) simp_all
  then have x: "q - 4 * (e * q) \<le> x" "x \<le> q + 4 * (e * q)"
    by (simp_all add: e_def)
  have "\<bar>c - 16 / 15\<bar> \<le> e * 2"
    unfolding c_def ld_div_def e_def by (rule round_within) simp
  then have c: "16 / 15 - 2 * e \<le> c" "c \<le> 16 / 15 + 2 * e"
    by linarith+
  have "(q - 4 * (e * q)) * (16 / 15 - 2 * e) = 16 / 15 * q - 94 / 15 * (e * q) + 8 * (e * q * e)"
    by (simp add: field_simps)
  moreover have "0 \<le> e * q * e"
    using e q by simp
  ultimately have "16 / 15 * q - 7 * (e * q) \<le> (q - 4 * (e * q)) * (16 / 15 - 2 * e)"
    using q(3) by linarith
  also have "\<dots> \<le> x * c"
    using x c e q by (intro mult_mono) simp_all
  finally have lo: "16 / 15 * q - 7 * (e * q) \<le> x * c" .
  have up: "x * c \<le> (2 * q) * 2"
    using x c e q by (intro mult_mono) simp_all
  have nonneg: "0 \<le> x * c"
    using x c e q by simp
  have "\<bar>B - x * c\<bar> \<le> e * (1 / 30)"
    unfolding B ld_mul_def x_def [unfolded k_def, symmetric] c_def [symmetric] e_def
    using up nonneg q(2) by (intro round_within) simp
  moreover have "0 \<le> B"
    unfolding B ld_mul_def x_def [unfolded k_def, symmetric] c_def [symmetric] using nonneg by (rule round_nonneg)
  ultimately have "0 \<le> B" "B \<le> 1 / 100" "q * (16 / 15) \<le> B + e"
    using lo up q e by linarith+
  then show ?thesis
    by (simp add: q_def M_def e_def)
qed

lemma series_near:
  assumes "8 * (d + 65) + 6 < 2 ^ 64" and "unat position = d" and "unat offset = j" and "0 < j" and "j \<le> 6"
  shows "\<exists>n. 1 \<le> n \<and> n \<le> 64 \<and> sr_tailTerms (series f position offset) = of_nat n
    \<and> near (head_sum d j (d + 1) + tail_sum d j n) (sr_fractional (series f position offset)) (9 * ld_epsilon f * of_nat (d + 1 + n) + ld_epsilon f)
    \<and> 0 \<le> sr_fractional (series f position offset) \<and> sr_fractional (series f position offset) \<le> 1 + ld_epsilon f
    \<and> 0 \<le> sr_tailBound (series f position offset) \<and> sr_tailBound (series f position offset) \<le> 1 / 100
    \<and> (1 / 16) ^ Suc n / of_nat (8 * (d + 1 + n) + j) * (16 / 15) \<le> sr_tailBound (series f position offset) + ld_epsilon f"
proof -
  define acc where "acc = headLoop f position offset 0 0"
  have acc: "near (head_sum d j (d + 1)) acc (9 * ld_epsilon f * of_nat (d + 1))" "0 \<le> acc" "acc \<le> 2"
    using headLoop_near [OF _ assms(2-5), of 0 0 0] assms(1) by (simp_all add: acc_def head_sum_def near_refl)
  have "(of_nat d :: u64) = position"
    by (simp flip: assms(2))
  then have start: "ld_div f 1 16 = (1 / 16) ^ Suc 0" "position + 1 = of_nat (d + 1 + 0)" "(0 :: u32) = of_nat 0"
    using round_power [of 1] by (simp_all add: ld_div_def add.commute)
  have near0: "near (head_sum d j (d + 1) + tail_sum d j 0) acc (9 * ld_epsilon f * of_nat (d + 1) + 9 * ld_epsilon f * of_nat 0)"
      "acc \<le> 2 + of_nat 0 / 16"
    using acc by (simp_all add: tail_sum_def)
  obtain n acc' where n: "1 \<le> n" "n \<le> 64"
    and loop: "tailLoop f offset acc (ld_div f 1 16) (position + 1) 0 = (acc', (1 / 16) ^ Suc n, of_nat (d + 1 + n), of_nat n)"
    and near: "near (head_sum d j (d + 1) + tail_sum d j n) acc' (9 * ld_epsilon f * of_nat (d + 1) + 9 * ld_epsilon f * of_nat n)"
    using tailLoop_near [OF assms(1,3-5) _ near0(1) acc(2) near0(2)] unfolding start by auto
  define B where "B = ld_mul f (ld_div f ((1 / 16) ^ Suc n) (ld_of f (8 * of_nat (d + 1 + n) + offset))) (ld_div f 16 15)"
  have "series f position offset = \<lparr>sr_fractional = ld_sub f acc' (ld_floor acc'), sr_tailBound = B, sr_tailTerms = of_nat n\<rparr>"
    using loop by (simp add: series_def Let_def acc_def B_def)
  moreover have "near (head_sum d j (d + 1) + tail_sum d j n) (ld_sub f acc' (ld_floor acc')) (9 * ld_epsilon f * of_nat (d + 1 + n) + ld_epsilon f)"
    using near fraction_range(3) by (rule near_trans) (simp add: distrib_left)
  moreover have "0 \<le> B \<and> B \<le> 1 / 100 \<and> (1 / 16) ^ Suc n / of_nat (8 * (d + 1 + n) + j) * (16 / 15) \<le> B + ld_epsilon f"
    by (rule tail_bound [OF assms(1,3-5) n B_def])
  ultimately show ?thesis
    using n fraction_range(1,2) [of acc'] by (intro exI [of _ n]) simp
qed

end

section \<open>The series of pi\<close>

lemma of_rat_head: "real_of_rat (head_sum d j (d + 1)) = 16 ^ d * (\<Sum>i<d + 1. bbp_term j i)"
proof -
  have "real_of_rat (16 ^ (d - i) / of_nat (8 * i + j)) = 16 ^ d * bbp_term j i" if "i < d + 1" for i
    using that by (simp add: of_rat_divide of_rat_power of_rat_add of_rat_mult bbp_term_def power_diff)
  then show ?thesis
    by (simp only: head_sum_def of_rat_sum sum_distrib_left) (simp cong: sum.cong_simp)
qed

lemma of_rat_tail: "real_of_rat (tail_sum d j n) = 16 ^ d * (\<Sum>i<n. bbp_term j (i + (d + 1)))"
proof -
  have "real_of_rat ((1 / 16) ^ Suc i / of_nat (8 * (d + 1 + i) + j)) = 16 ^ d * bbp_term j (i + (d + 1))" for i
  proof -
    have "real_of_rat ((1 / 16) ^ Suc i / of_nat (8 * (d + 1 + i) + j)) = (1 / 16) ^ Suc i / real (8 * (d + 1 + i) + j)"
      by (simp add: of_rat_divide of_rat_power of_rat_add of_rat_mult)
    moreover have "bbp_term j (i + (d + 1)) = 1 / (16 ^ d * 16 ^ Suc i * real (8 * (d + 1 + i) + j))"
      by (simp add: bbp_term_def power_add algebra_simps)
    ultimately show ?thesis
      by (simp add: power_one_over)
  qed
  then show ?thesis
    by (simp only: tail_sum_def of_rat_sum sum_distrib_left)
qed

lemma bbp_remainder:
  assumes "0 < j"
  shows "\<exists>rest. 16 ^ d * bbp_sum j = real_of_rat (head_sum d j (d + 1) + tail_sum d j n) + rest \<and> 0 \<le> rest
    \<and> rest \<le> real_of_rat ((1 / 16) ^ Suc n / of_nat (8 * (d + 1 + n) + j) * (16 / 15))"
proof (intro exI conjI)
  let ?m = "n + (d + 1)" and ?b = "1 / (16 ^ Suc n * real (8 * (d + 1 + n) + j))"
  have split: "bbp_sum j = (\<Sum>i. bbp_term j (i + ?m)) + (\<Sum>i<?m. bbp_term j i)"
    unfolding bbp_sum_def by (rule suminf_split_initial_segment [OF bbp_summable [OF assms]])
  have "(\<Sum>i<?m. bbp_term j i) = (\<Sum>i<d + 1. bbp_term j i) + (\<Sum>i<n. bbp_term j (i + (d + 1)))"
    using sum.nat_group [of "bbp_term j"] by (induction n) (simp_all add: add.assoc)
  then show "16 ^ d * bbp_sum j = real_of_rat (head_sum d j (d + 1) + tail_sum d j n) + 16 ^ d * (\<Sum>i. bbp_term j (i + ?m))"
    unfolding split of_rat_add of_rat_head of_rat_tail by (simp add: distrib_left)
  have s: "summable (\<lambda>i. bbp_term j (i + ?m))"
    by (rule summable_iff_shift [THEN iffD2, OF bbp_summable [OF assms]])
  then show "0 \<le> 16 ^ d * (\<Sum>i. bbp_term j (i + ?m))"
    by (simp add: suminf_nonneg bbp_term_nonneg)
  have le: "16 ^ d * bbp_term j (i + ?m) \<le> ?b * (1 / 16) ^ i" for i
  proof -
    have "(16 :: real) ^ (i + ?m) = 16 ^ d * (16 ^ Suc n * 16 ^ i)"
      by (simp add: power_add)
    then have "16 ^ d * bbp_term j (i + ?m) = 1 / (16 ^ Suc n * 16 ^ i * (8 * real (i + ?m) + real j))"
      by (simp add: bbp_term_def mult.assoc del: power_Suc)
    also have "\<dots> \<le> 1 / (16 ^ Suc n * 16 ^ i * real (8 * (d + 1 + n) + j))"
      using assms by (intro frac_le mult_left_mono mult_pos_pos) simp_all
    also have "\<dots> = ?b * (1 / 16) ^ i"
      by (simp add: power_one_over)
    finally show ?thesis .
  qed
  have "16 ^ d * (\<Sum>i. bbp_term j (i + ?m)) = (\<Sum>i. 16 ^ d * bbp_term j (i + ?m))"
    using s by (rule suminf_mult [symmetric])
  also have "\<dots> \<le> (\<Sum>i. ?b * (1 / 16) ^ i)"
    using s by (intro suminf_le le summable_mult summable_geometric) simp_all
  also have "\<dots> = ?b * (16 / 15)"
    by (subst suminf_mult) (simp_all add: suminf_geometric)
  also have "\<dots> = real_of_rat ((1 / 16) ^ Suc n / of_nat (8 * (d + 1 + n) + j) * (16 / 15))"
    by (simp add: of_rat_divide of_rat_power of_rat_add of_rat_mult power_one_over)
  finally show "16 ^ d * (\<Sum>i. bbp_term j (i + ?m)) \<le> real_of_rat ((1 / 16) ^ Suc n / of_nat (8 * (d + 1 + n) + j) * (16 / 15))" .
qed

section \<open>The decision\<close>

context long_double
begin

lemma combined_near:
  assumes n1: "near a1 s1 b1" and n4: "near a4 s4 b4" and n5: "near a5 s5 b5" and n6: "near a6 s6 b6"
    and r: "0 \<le> s1" "s1 \<le> 2" "0 \<le> s4" "s4 \<le> 2" "0 \<le> s5" "s5 \<le> 2" "0 \<le> s6" "s6 \<le> 2"
    and c: "c = ld_sub f (ld_sub f (ld_sub f (ld_mul f 4 s1) (ld_mul f 2 s4)) s5) s6"
  shows "near (4 * a1 - 2 * a4 - a5 - a6) c (4 * b1 + 2 * b4 + b5 + b6 + 48 * ld_epsilon f)"
proof -
  define e where "e = ld_epsilon f"
  have e: "0 < e" "e \<le> 1 / 1000"
    using epsilon_pos epsilon_small by (simp_all add: e_def)
  define m1 where "m1 = ld_mul f 4 s1"
  define m4 where "m4 = ld_mul f 2 s4"
  define x where "x = ld_sub f m1 m4"
  define y where "y = ld_sub f x s5"
  have m: "\<bar>m1 - 4 * s1\<bar> \<le> e * 8" "\<bar>m4 - 2 * s4\<bar> \<le> e * 4"
    unfolding m1_def m4_def ld_mul_def e_def using r by (auto intro!: round_within)
  have x: "\<bar>x - (m1 - m4)\<bar> \<le> e * 9"
    unfolding x_def ld_sub_def e_def using m r e by (intro round_within) linarith
  have y: "\<bar>y - (x - s5)\<bar> \<le> e * 12"
    unfolding y_def ld_sub_def e_def using m x r e by (intro round_within) linarith
  have "\<bar>c - (y - s6)\<bar> \<le> e * 15"
    unfolding c ld_sub_def [of f y] m1_def [symmetric] m4_def [symmetric] x_def [symmetric] y_def [symmetric] e_def
    using m x y r e by (intro round_within) linarith
  then have "\<bar>c - (4 * s1 + (- 2) * s4 + (- 1) * s5 + (- 1) * s6)\<bar> \<le> 48 * e"
    using m x y by linarith
  note d = near_error [OF this]
  have "near (4 * a1 + (- 2) * a4 + (- 1) * a5 + (- 1) * a6) (4 * s1 + (- 2) * s4 + (- 1) * s5 + (- 1) * s6) (4 * b1 + 2 * b4 + b5 + b6)"
    using near_add [OF near_add [OF near_add [OF near_mult [OF n1, of 4] near_mult [OF n4, of "- 2"]] near_mult [OF n5, of "- 1"]] near_mult [OF n6, of "- 1"]]
    by simp
  from near_trans [OF this d] show ?thesis
    by (simp add: e_def)
qed

text \<open>The bound the code computes covers the tails and \<open>62 * epsilon\<close> for every operation it counts.\<close>

lemma tail_total:
  assumes B: "0 \<le> B1" "B1 \<le> 1 / 100" "0 \<le> B4" "B4 \<le> 1 / 100" "0 \<le> B5" "B5 \<le> 1 / 100" "0 \<le> B6" "B6 \<le> 1 / 100"
    and tb: "tb = ld_add f (ld_add f (ld_add f (ld_mul f 4 B1) (ld_mul f 2 B4)) B5) B6"
  shows "4 * B1 + 2 * B4 + B5 + B6 - 5 * ld_epsilon f \<le> tb \<and> 0 \<le> tb \<and> tb \<le> 1"
proof -
  define e where "e = ld_epsilon f"
  have e: "0 < e" "e \<le> 1 / 1000"
    using epsilon_pos epsilon_small by (simp_all add: e_def)
  define x1 where "x1 = ld_mul f 4 B1"
  define x4 where "x4 = ld_mul f 2 B4"
  define x where "x = ld_add f x1 x4"
  define y where "y = ld_add f x B5"
  have m: "4 * B1 - e \<le> x1" "x1 \<le> 4 * B1 + e" "0 \<le> x1" "2 * B4 - e \<le> x4" "x4 \<le> 2 * B4 + e" "0 \<le> x4"
    unfolding x1_def x4_def ld_mul_def e_def using round_small [of "4 * B1"] round_small [of "2 * B4"] B
    by (simp_all add: round_nonneg)
  then have "0 \<le> x1 + x4" "x1 + x4 \<le> 1"
    using B e by linarith+
  note x = conjunct1 [OF round_small [OF this]] conjunct2 [OF round_small [OF this]] round_nonneg [OF this(1)]
  have x: "x1 + x4 - e \<le> x" "x \<le> x1 + x4 + e" "0 \<le> x"
    using x by (simp_all add: x_def ld_add_def e_def)
  then have "0 \<le> x + B5" "x + B5 \<le> 1"
    using m B e by linarith+
  note y = conjunct1 [OF round_small [OF this]] conjunct2 [OF round_small [OF this]] round_nonneg [OF this(1)]
  have y: "x + B5 - e \<le> y" "y \<le> x + B5 + e" "0 \<le> y"
    using y by (simp_all add: y_def ld_add_def e_def)
  then have "0 \<le> y + B6" "y + B6 \<le> 1"
    using x m B e by linarith+
  note z = conjunct1 [OF round_small [OF this]] conjunct2 [OF round_small [OF this]] round_nonneg [OF this(1)]
  have "y + B6 - e \<le> tb" "tb \<le> y + B6 + e" "0 \<le> tb"
    using z unfolding tb x1_def [symmetric] x4_def [symmetric] x_def [symmetric] y_def [symmetric] by (simp_all add: ld_add_def e_def)
  then show ?thesis
    using y x m B e unfolding e_def [symmetric] by linarith
qed

lemma ld_of_relative: "999 / 1000 * of_nat (unat w) \<le> ld_of f w" "0 \<le> ld_of f w"
proof -
  have "of_int (uint w) = (of_nat (unat w) :: rat)"
    by (simp only: uint_nat of_int_of_nat_eq)
  then show "999 / 1000 * of_nat (unat w) \<le> ld_of f w" "0 \<le> ld_of f w"
    using round_relative [of "of_nat (unat w)"] round_nonneg [of "of_nat (unat w)"] by (simp_all only: ld_of_def of_nat_0_le_iff)
qed

lemma ld_add_relative: "0 \<le> x \<Longrightarrow> 0 \<le> y \<Longrightarrow> 999 / 1000 * (x + y) \<le> ld_add f x y \<and> 0 \<le> ld_add f x y"
  unfolding ld_add_def using round_relative [of "x + y"] round_nonneg [of "x + y"] by simp

lemma ld_mul_relative: "0 \<le> x \<Longrightarrow> 0 \<le> y \<Longrightarrow> 999 / 1000 * (x * y) \<le> ld_mul f x y \<and> 0 \<le> ld_mul f x y"
  unfolding ld_mul_def using round_relative [of "x * y"] round_nonneg [of "x * y"] by simp

lemma operation_count:
  fixes w :: u64 and t1 t4 t5 t6 :: u32
  assumes oc: "oc = ld_add f (ld_add f (ld_add f (ld_add f (ld_mul f (ld_of f w) 4) (ld_of f t1)) (ld_of f t4)) (ld_of f t5)) (ld_of f t6)"
    and n: "n = of_nat (4 * unat w + unat t1 + unat t4 + unat t5 + unat t6)"
  shows "99 / 100 * n \<le> oc"
proof -
  define a where "a = ld_mul f (ld_of f w) 4"
  define a1 where "a1 = ld_add f a (ld_of f t1)"
  define a4 where "a4 = ld_add f a1 (ld_of f t4)"
  define a5 where "a5 = ld_add f a4 (ld_of f t5)"
  have a: "999 / 1000 * (ld_of f w * 4) \<le> a" "0 \<le> a"
    using ld_mul_relative [OF ld_of_relative(2) [of w], of 4] by (simp_all add: a_def)
  have a1: "999 / 1000 * (a + ld_of f t1) \<le> a1" "0 \<le> a1"
    using ld_add_relative [OF a(2) ld_of_relative(2) [of t1]] by (simp_all add: a1_def)
  have a4: "999 / 1000 * (a1 + ld_of f t4) \<le> a4" "0 \<le> a4"
    using ld_add_relative [OF a1(2) ld_of_relative(2) [of t4]] by (simp_all add: a4_def)
  have a5: "999 / 1000 * (a4 + ld_of f t5) \<le> a5" "0 \<le> a5"
    using ld_add_relative [OF a4(2) ld_of_relative(2) [of t5]] by (simp_all add: a5_def)
  have last: "999 / 1000 * (a5 + ld_of f t6) \<le> oc"
    using ld_add_relative [OF a5(2) ld_of_relative(2) [of t6]] by (simp add: oc a_def a1_def a4_def a5_def)
  have "99 / 100 * (4 * W + T1 + T4 + T5 + T6) \<le> oc"
    if "0 \<le> W" "0 \<le> T1" "0 \<le> T4" "0 \<le> T5" "0 \<le> T6" "999 / 1000 * W \<le> ld_of f w" "999 / 1000 * T1 \<le> ld_of f t1"
      "999 / 1000 * T4 \<le> ld_of f t4" "999 / 1000 * T5 \<le> ld_of f t5" "999 / 1000 * T6 \<le> ld_of f t6" for W T1 T4 T5 T6
  proof -
    have "998 / 1000 * (4 * W) \<le> a"
      using that(1,6) a(1) by simp
    then have "997 / 1000 * (4 * W + T1) \<le> a1"
      using that(1,2,7) a1(1) by simp
    then have "996 / 1000 * (4 * W + T1 + T4) \<le> a4"
      using that(1-3,8) a4(1) by simp
    then have "995 / 1000 * (4 * W + T1 + T4 + T5) \<le> a5"
      using that(1-4,9) a5(1) by simp
    then show ?thesis
      using that(1-5,10) last by simp
  qed
  note this [OF of_nat_0_le_iff of_nat_0_le_iff of_nat_0_le_iff of_nat_0_le_iff of_nat_0_le_iff
      ld_of_relative(1) ld_of_relative(1) ld_of_relative(1) ld_of_relative(1) ld_of_relative(1)]
  then show ?thesis
    unfolding n by (simp only: of_nat_add of_nat_mult of_nat_numeral)
qed

lemma error_bound:
  assumes tb: "0 \<le> tb" "tb \<le> 1" and oc: "99 / 100 * n \<le> oc" and n: "0 \<le> n"
    and eb: "eb = ld_add f tb (ld_mul f (ld_mul f 64 (ld_epsilon f)) (max 1 oc))"
  shows "16 * tb + 992 * (ld_epsilon f * n) - 32 * ld_epsilon f \<le> ld_mul f eb 16"
proof -
  define e where "e = ld_epsilon f"
  have e: "0 < e" "e \<le> 1 / 1000000"
    using epsilon_pos epsilon_small by (simp_all add: e_def)
  define c where "c = ld_mul f 64 e"
  define rb where "rb = ld_mul f c (max 1 oc)"
  have c: "999 / 1000 * (64 * e) \<le> c" "0 \<le> c"
    using ld_mul_relative [of 64 e] e by (simp_all add: c_def)
  have "999 / 1000 * (64 * e) * (99 / 100 * n) \<le> c * max 1 oc"
    using c oc e n by (intro mult_mono) (simp_all add: le_max_iff_disj)
  moreover have rb: "999 / 1000 * (c * max 1 oc) \<le> rb" "0 \<le> rb"
    using ld_mul_relative [OF c(2), of "max 1 oc"] by (simp_all add: rb_def)
  ultimately have rb1: "63 * (e * n) \<le> rb"
    using e n mult_nonneg_nonneg [of e n] by simp
  have "eb = ld_round f (tb + rb)"
    by (simp add: eb ld_add_def rb_def c_def e_def)
  moreover have "0 \<le> tb + rb"
    using tb rb by simp
  ultimately have eb1: "tb + rb - e * (tb + rb) \<le> eb" "0 \<le> eb"
    using round_ge [of "tb + rb"] round_nonneg [of "tb + rb"] by (simp_all add: e_def)
  have small: "e * tb \<le> e" "e * rb \<le> 1 / 1000000 * rb"
    using mult_left_mono [OF tb(2), of e] mult_right_mono [OF e(2) rb(2)] e by simp_all
  have "(1 - e) * (tb - e + 999 / 1000 * rb) \<le> (1 - e) * eb"
  proof (rule mult_left_mono)
    show "tb - e + 999 / 1000 * rb \<le> eb"
      using eb1(1) small rb(2) unfolding distrib_left by linarith
  qed (use e in simp)
  moreover have "16 * ((1 - e) * eb) \<le> ld_mul f eb 16"
    using round_ge [of "eb * 16"] eb1(2) by (simp add: ld_mul_def e_def algebra_simps)
  moreover have "tb - e + 999 / 1000 * rb - e * tb - 999 / 1000 * (e * rb) \<le> (1 - e) * (tb - e + 999 / 1000 * rb)"
    by (simp add: field_simps)
  ultimately have "16 * (tb - 2 * e + 998 / 1000 * rb) \<le> ld_mul f eb 16"
    using small rb(2) by simp
  moreover have "0 \<le> e * n"
    using e n by simp
  ultimately show ?thesis
    using rb1 by (simp add: e_def)
qed

lemma digit_boundaries:
  assumes "0 \<le> x" and "x \<le> 1 + ld_epsilon f" and scaled: "scaled = ld_mul f x 16" and lb: "lb = ld_floor scaled"
    and "bound < min (ld_sub f scaled lb) (ld_sub f (ld_add f lb 1) scaled)"
  shows "bound - 18 * ld_epsilon f < 16 * x - lb" and "bound - 38 * ld_epsilon f < lb + 1 - 16 * x" and "0 \<le> \<lfloor>lb\<rfloor>"
proof -
  define e where "e = ld_epsilon f"
  have e: "0 < e" "e \<le> 1 / 1000"
    using epsilon_pos epsilon_small by (simp_all add: e_def)
  have x: "x \<le> 1 + e"
    using assms(2) by (simp add: e_def)
  have s: "\<bar>scaled - x * 16\<bar> \<le> e * 17"
    unfolding scaled ld_mul_def e_def using assms(1) x e by (intro round_within) simp
  have s0: "0 \<le> scaled"
    unfolding scaled ld_mul_def using assms(1) by (intro round_nonneg) simp
  have s18: "scaled \<le> 18"
    using s x e by linarith
  have l: "0 \<le> lb" "lb \<le> scaled" "scaled < lb + 1"
    unfolding lb ld_floor_def using s0 by (simp, linarith, linarith)
  then have "\<bar>ld_sub f scaled lb - (scaled - lb)\<bar> \<le> e * 1"
    unfolding ld_sub_def e_def by (intro round_within) linarith
  then show "bound - 18 * ld_epsilon f < 16 * x - lb"
    using assms(5) s unfolding e_def [symmetric] by linarith
  define l1 where "l1 = ld_add f lb 1"
  have l1: "\<bar>l1 - (lb + 1)\<bar> \<le> e * 19"
    unfolding l1_def ld_add_def e_def using l s18 by (intro round_within) linarith
  have "\<bar>l1 - scaled\<bar> \<le> 2"
    using l l1 e by linarith
  then have "\<bar>ld_sub f l1 scaled - (l1 - scaled)\<bar> \<le> e * 2"
    unfolding ld_sub_def e_def by (rule round_within)
  then show "bound - 38 * ld_epsilon f < lb + 1 - 16 * x"
    using assms(5) s l1 unfolding e_def [symmetric] l1_def [symmetric] by linarith
  show "0 \<le> \<lfloor>lb\<rfloor>"
    using l(1) by simp
qed

text \<open>What is known of the result of a series: its value up to an integer, and its tail bound.\<close>

definition series_ok :: "nat \<Rightarrow> nat \<Rightarrow> SeriesResult \<Rightarrow> rat \<Rightarrow> rat \<Rightarrow> bool" where
  "series_ok d n s a r \<longleftrightarrow> 1 \<le> n \<and> unat (sr_tailTerms s) = n
     \<and> near a (sr_fractional s) (9 * ld_epsilon f * of_nat (d + 1 + n) + ld_epsilon f)
     \<and> 0 \<le> sr_fractional s \<and> sr_fractional s \<le> 2 \<and> 0 \<le> sr_tailBound s \<and> sr_tailBound s \<le> 1 / 100
     \<and> r \<le> sr_tailBound s + ld_epsilon f"

lemma decide_interval:
  assumes "unat (position + 1) = d + 1" and s1: "series_ok d n1 s1 a1 r1" and s4: "series_ok d n4 s4 a4 r4"
    and s5: "series_ok d n5 s5 a5 r5" and s6: "series_ok d n6 s6 a6 r6"
    and digit: "bbp_digit (decideDigit f position s1 s4 s5 s6) = Some digit"
  shows "\<exists>n lb :: int. digit = word_of_int lb \<and> 0 \<le> lb \<and> lb \<le> 15
    \<and> of_int lb + 16 * (2 * r4 + r5 + r6) \<le> 16 * (4 * a1 - 2 * a4 - a5 - a6 - of_int n)
    \<and> 16 * (4 * a1 - 2 * a4 - a5 - a6 - of_int n) + 64 * r1 < of_int lb + 1"
proof -
  define e where "e = ld_epsilon f"
  have e: "0 < e" "e \<le> 1 / 1000"
    using epsilon_pos epsilon_small by (simp_all add: e_def)
  define c where "c = ld_sub f (ld_sub f (ld_sub f (ld_mul f 4 (sr_fractional s1)) (ld_mul f 2 (sr_fractional s4)))
            (sr_fractional s5)) (sr_fractional s6)"
  define x where "x = ld_sub f c (ld_floor c)"
  define tb where "tb = ld_add f (ld_add f (ld_add f (ld_mul f 4 (sr_tailBound s1)) (ld_mul f 2 (sr_tailBound s4)))
            (sr_tailBound s5)) (sr_tailBound s6)"
  define oc where "oc = ld_add f (ld_add f (ld_add f (ld_add f (ld_mul f (ld_of f (position + 1)) 4)
            (ld_of f (sr_tailTerms s1))) (ld_of f (sr_tailTerms s4))) (ld_of f (sr_tailTerms s5))) (ld_of f (sr_tailTerms s6))"
  define eb where "eb = ld_add f tb (ld_mul f (ld_mul f 64 (ld_epsilon f)) (max 1 oc))"
  define scaled where "scaled = ld_mul f x 16"
  define lb where "lb = ld_floor scaled"
  define N where "N = 4 * (d + 1) + n1 + n4 + n5 + n6"
  define z where "z = e * of_nat N"
  have dec: "ld_mul f eb 16 < min (ld_sub f scaled lb) (ld_sub f (ld_add f lb 1) scaled)" "digit = word_of_int \<lfloor>lb\<rfloor>"
    using digit by (auto simp: decideDigit_def Let_def c_def x_def tb_def oc_def eb_def scaled_def lb_def split: if_splits)
  have tb: "4 * sr_tailBound s1 + 2 * sr_tailBound s4 + sr_tailBound s5 + sr_tailBound s6 - 5 * e \<le> tb" "0 \<le> tb" "tb \<le> 1"
    using tail_total [OF _ _ _ _ _ _ _ _ tb_def] s1 s4 s5 s6 by (simp_all add: series_ok_def e_def)
  have "99 / 100 * of_nat N \<le> oc"
    using s1 s4 s5 s6 by (intro operation_count [OF oc_def]) (simp add: N_def series_ok_def assms(1))
  from error_bound [OF tb(2,3) this _ eb_def]
  have bound: "16 * tb + 992 * z - 32 * e \<le> ld_mul f eb 16"
    by (simp add: z_def e_def)
  have x: "0 \<le> x" "x \<le> 1 + ld_epsilon f"
    using fraction_range [of c] by (simp_all add: x_def)
  note digit_boundaries [OF x scaled_def lb_def dec(1)]
  then have b: "ld_mul f eb 16 - 18 * e < 16 * x - lb" "ld_mul f eb 16 - 38 * e < lb + 1 - 16 * x" "0 \<le> \<lfloor>lb\<rfloor>"
    by (simp_all add: e_def)
  have n: "1 \<le> n1" "1 \<le> n4" "1 \<le> n5" "1 \<le> n6"
    using s1 s4 s5 s6 by (simp_all add: series_ok_def)
  define P Q1 Q4 Q5 Q6 where "P = e * of_nat (d + 1)" and "Q1 = e * of_nat n1" and "Q4 = e * of_nat n4"
    and "Q5 = e * of_nat n5" and "Q6 = e * of_nat n6"
  have z: "z = 4 * P + Q1 + Q4 + Q5 + Q6"
    unfolding P_def Q1_def Q4_def Q5_def Q6_def z_def N_def
    by (simp only: of_nat_add of_nat_mult of_nat_numeral distrib_left mult.left_commute)
  have one: "e \<le> P" "e \<le> Q1" "e \<le> Q4" "e \<le> Q5" "e \<le> Q6"
    using e n by (simp_all add: P_def Q1_def Q4_def Q5_def Q6_def)
  have prod: "9 * e * of_nat (d + 1 + m) = 9 * P + 9 * (e * of_nat m)" for m
    unfolding P_def by (simp only: of_nat_add distrib_left mult.assoc)
  have "near (4 * a1 - 2 * a4 - a5 - a6) c (4 * (9 * e * of_nat (d + 1 + n1) + e) + 2 * (9 * e * of_nat (d + 1 + n4) + e)
      + (9 * e * of_nat (d + 1 + n5) + e) + (9 * e * of_nat (d + 1 + n6) + e) + 48 * e)"
    unfolding e_def using s1 s4 s5 s6 by (intro combined_near [OF _ _ _ _ _ _ _ _ _ _ _ _ c_def]) (simp_all add: series_ok_def)
  then have "near (4 * a1 - 2 * a4 - a5 - a6) x (36 * z + 57 * e)"
  proof (rule near_trans [OF _ fraction_range(3) [of c, folded x_def e_def]])
    show "4 * (9 * e * of_nat (d + 1 + n1) + e) + 2 * (9 * e * of_nat (d + 1 + n4) + e)
      + (9 * e * of_nat (d + 1 + n5) + e) + (9 * e * of_nat (d + 1 + n6) + e) + 48 * e + e \<le> 36 * z + 57 * e"
      unfolding prod Q1_def [symmetric] Q4_def [symmetric] Q5_def [symmetric] Q6_def [symmetric] z using one e by simp
  qed
  then obtain k :: int where k: "\<bar>4 * a1 - 2 * a4 - a5 - a6 - of_int k - x\<bar> \<le> 36 * z + 57 * e"
    by (auto simp: near_def)
  have z8: "8 * e \<le> z"
    using z one by linarith
  have r: "r1 \<le> sr_tailBound s1 + e" "r4 \<le> sr_tailBound s4 + e" "r5 \<le> sr_tailBound s5 + e" "r6 \<le> sr_tailBound s6 + e"
      "0 \<le> sr_tailBound s1" "0 \<le> sr_tailBound s4" "0 \<le> sr_tailBound s5" "0 \<le> sr_tailBound s6"
    using s1 s4 s5 s6 by (simp_all add: series_ok_def e_def)
  have low: "lb + 16 * (2 * r4 + r5 + r6) \<le> 16 * (4 * a1 - 2 * a4 - a5 - a6 - of_int k)"
    using b(1) bound tb(1) k r z8 e(1) unfolding abs_le_iff by (simp add: algebra_simps)
  have up: "16 * (4 * a1 - 2 * a4 - a5 - a6 - of_int k) + 64 * r1 < lb + 1"
    using b(2) bound tb(1) k r z8 e(1) unfolding abs_le_iff by (simp add: algebra_simps)
  have "lb < 16"
    using b(1) bound tb(2) x(2) z8 e(1) unfolding e_def [symmetric] by linarith
  moreover have int: "lb = of_int \<lfloor>lb\<rfloor>"
    by (simp add: lb_def ld_floor_def)
  ultimately have "\<lfloor>lb\<rfloor> \<le> 15"
    by (simp add: floor_less_iff)
  then show ?thesis
    using low up int dec(2) b(3) by (intro exI [of _ k] exI [of _ "\<lfloor>lb\<rfloor>"]) simp
qed

lemma series_ok_series:
  assumes "8 * (d + 65) + 6 < 2 ^ 64" and "unat position = d" and "unat offset = j" and "0 < j" and "j \<le> 6"
  shows "\<exists>n. series_ok d n (series f position offset) (head_sum d j (d + 1) + tail_sum d j n)
    ((1 / 16) ^ Suc n / of_nat (8 * (d + 1 + n) + j) * (16 / 15))"
proof -
  obtain n where n: "1 \<le> n" "n \<le> 64" "sr_tailTerms (series f position offset) = of_nat n"
      "near (head_sum d j (d + 1) + tail_sum d j n) (sr_fractional (series f position offset)) (9 * ld_epsilon f * of_nat (d + 1 + n) + ld_epsilon f)"
      "0 \<le> sr_fractional (series f position offset)" "sr_fractional (series f position offset) \<le> 1 + ld_epsilon f"
      "0 \<le> sr_tailBound (series f position offset)" "sr_tailBound (series f position offset) \<le> 1 / 100"
      "(1 / 16) ^ Suc n / of_nat (8 * (d + 1 + n) + j) * (16 / 15) \<le> sr_tailBound (series f position offset) + ld_epsilon f"
    using series_near [OF assms] by blast
  moreover have "unat (of_nat n :: u32) = n"
    using n(2) by (simp add: unat_of_nat)
  moreover have "1 + ld_epsilon f \<le> 2"
    using epsilon_small by simp
  ultimately show ?thesis
    unfolding series_ok_def by (intro exI [of _ n]) (metis order_trans)
qed

end

text \<open>From the rational bounds to the bounds of a sum with omitted tails.\<close>

lemma interval_shift:
  fixes a1 a4 a5 a6 r1 r4 r5 r6 t1 t4 t5 t6 k l :: real
  assumes "0 \<le> t1" "t1 \<le> r1" "0 \<le> t4" "t4 \<le> r4" "0 \<le> t5" "t5 \<le> r5" "0 \<le> t6" "t6 \<le> r6"
    and "l + 16 * (2 * r4 + r5 + r6) \<le> 16 * (4 * a1 - 2 * a4 - a5 - a6 - k)"
    and "16 * (4 * a1 - 2 * a4 - a5 - a6 - k) + 64 * r1 < l + 1"
  shows "l \<le> 16 * (4 * (a1 + t1) - 2 * (a4 + t4) - (a5 + t5) - (a6 + t6) - k)"
    and "16 * (4 * (a1 + t1) - 2 * (a4 + t4) - (a5 + t5) - (a6 + t6) - k) < l + 1"
  using assms by (simp_all add: algebra_simps)

lemma floor_digit:
  fixes v :: real
  assumes "of_int lb \<le> 16 * (v - of_int k)" and "16 * (v - of_int k) < of_int lb + 1" and "0 \<le> lb" and "lb \<le> 15"
  shows "\<lfloor>16 * v\<rfloor> mod 16 = lb"
proof -
  have "\<lfloor>16 * v\<rfloor> = lb + 16 * k"
    using assms by (intro floor_unique) simp_all
  then show ?thesis
    using assms by simp
qed

lemma decided_digit:
  assumes "long_double f" and "8 * (d + 65) + 6 < 2 ^ 64" and "unat position = d"
    and "bbp_digit (decideDigit f position (series f position 1) (series f position 4) (series f position 5) (series f position 6)) = Some digit"
  shows "int (unat digit) = \<lfloor>16 * (16 ^ d * pi)\<rfloor> mod 16"
proof -
  let ?a = "\<lambda>j n. head_sum d j (d + 1) + tail_sum d j n" and ?r = "\<lambda>j n. (1 / 16) ^ Suc n / of_nat (8 * (d + 1 + n) + j) * (16 / 15) :: rat"
  note ok = long_double.series_ok_series [OF assms(1-3)]
  obtain n1 n4 n5 n6 where n: "long_double.series_ok f d n1 (series f position 1) (?a 1 n1) (?r 1 n1)"
      "long_double.series_ok f d n4 (series f position 4) (?a 4 n4) (?r 4 n4)"
      "long_double.series_ok f d n5 (series f position 5) (?a 5 n5) (?r 5 n5)"
      "long_double.series_ok f d n6 (series f position 6) (?a 6 n6) (?r 6 n6)"
    using ok [of 1 1] ok [of 4 4] ok [of 5 5] ok [of 6 6] by auto
  have "unat (position + 1) = d + 1"
    using assms(2,3) unat_add_no_wrap [of position 1] by simp
  from long_double.decide_interval [OF assms(1) this n assms(4)] obtain k lb :: int where lb: "digit = word_of_int lb" "0 \<le> lb" "lb \<le> 15"
    and low: "of_int lb + 16 * (2 * ?r 4 n4 + ?r 5 n5 + ?r 6 n6) \<le> 16 * (4 * ?a 1 n1 - 2 * ?a 4 n4 - ?a 5 n5 - ?a 6 n6 - of_int k)"
    and up: "16 * (4 * ?a 1 n1 - 2 * ?a 4 n4 - ?a 5 n5 - ?a 6 n6 - of_int k) + 64 * ?r 1 n1 < of_int lb + 1"
    by blast
  obtain t1 t4 t5 t6 where t: "16 ^ d * bbp_sum 1 = real_of_rat (?a 1 n1) + t1" "0 \<le> t1" "t1 \<le> real_of_rat (?r 1 n1)"
      "16 ^ d * bbp_sum 4 = real_of_rat (?a 4 n4) + t4" "0 \<le> t4" "t4 \<le> real_of_rat (?r 4 n4)"
      "16 ^ d * bbp_sum 5 = real_of_rat (?a 5 n5) + t5" "0 \<le> t5" "t5 \<le> real_of_rat (?r 5 n5)"
      "16 ^ d * bbp_sum 6 = real_of_rat (?a 6 n6) + t6" "0 \<le> t6" "t6 \<le> real_of_rat (?r 6 n6)"
    using bbp_remainder [of 1 d n1] bbp_remainder [of 4 d n4] bbp_remainder [of 5 d n5] bbp_remainder [of 6 d n6] by auto
  have v: "16 ^ d * pi = 4 * (16 ^ d * bbp_sum 1) - 2 * (16 ^ d * bbp_sum 4) - 16 ^ d * bbp_sum 5 - 16 ^ d * bbp_sum 6"
    unfolding bbp_pi [symmetric] by (simp add: algebra_simps)
  have rlow: "of_int lb + 16 * (2 * real_of_rat (?r 4 n4) + real_of_rat (?r 5 n5) + real_of_rat (?r 6 n6))
      \<le> 16 * (4 * real_of_rat (?a 1 n1) - 2 * real_of_rat (?a 4 n4) - real_of_rat (?a 5 n5) - real_of_rat (?a 6 n6) - of_int k)"
    using of_rat_less_eq [where ?'a = real, THEN iffD2, OF low] by (simp only: of_rat_add of_rat_diff of_rat_mult of_rat_of_int_eq of_rat_numeral_eq)
  have rup: "16 * (4 * real_of_rat (?a 1 n1) - 2 * real_of_rat (?a 4 n4) - real_of_rat (?a 5 n5) - real_of_rat (?a 6 n6) - of_int k)
      + 64 * real_of_rat (?r 1 n1) < of_int lb + 1"
    using of_rat_less [where ?'a = real, THEN iffD2, OF up] by (simp only: of_rat_add of_rat_diff of_rat_mult of_rat_of_int_eq of_rat_numeral_eq of_rat_1)
  have "\<lfloor>16 * (16 ^ d * pi)\<rfloor> mod 16 = lb"
  proof (rule floor_digit [OF _ _ lb(2,3), of _ k])
    show "of_int lb \<le> 16 * (16 ^ d * pi - of_int k)" "16 * (16 ^ d * pi - of_int k) < of_int lb + 1"
      unfolding v t(1,4,7,10) using interval_shift [OF t(2,3,5,6,8,9,11,12) rlow rup] .
  qed
  moreover have "int (unat digit) = lb"
    using lb by (simp add: uint_word_of_int unat_eq_nat_uint)
  ultimately show ?thesis
    by simp
qed

text \<open>Every position up to the maximum has a result, and a resolved digit is the one of pi.\<close>

lemma calculate_digit:
  assumes "long_double f" and max: "position \<le> maximumPosition"
  shows "\<exists>d. BBPHexDigit_calculate f position = Inr d \<and> bbp_position d = position
    \<and> (bbp_resolved d \<longrightarrow> (\<exists>digit. bbp_digit d = Some digit \<and> int (unat digit) = \<lfloor>16 ^ (unat position + 1) * pi\<rfloor> mod 16))"
proof -
  let ?d = "decideDigit f position (series f position 1) (series f position 4) (series f position 5) (series f position 6)"
  have "unat maximumPosition = 2305843009213693886"
    by (simp add: maximumPosition_def)
  then have small: "8 * (unat position + 65) + 6 < 2 ^ 64"
    using max by (simp add: word_le_nat_alt)
  have "BBPHexDigit_calculate f position = Inr ?d"
    using max by (simp add: BBPHexDigit_calculate_def res_bind_throw_if not_less)
  moreover have "bbp_position ?d = position"
    by (simp add: decideDigit_def Let_def)
  moreover have "\<exists>digit. bbp_digit ?d = Some digit \<and> int (unat digit) = \<lfloor>16 ^ (unat position + 1) * pi\<rfloor> mod 16" if res: "bbp_resolved ?d"
  proof -
    obtain digit where digit: "bbp_digit ?d = Some digit"
      using res by (auto simp: bbp_resolved_def)
    then show ?thesis
      using decided_digit [OF assms(1) small refl] by (auto simp: mult.assoc)
  qed
  ultimately show ?thesis
    by blast
qed

section \<open>Properties\<close>

text \<open>
  C34: A hexadecimal digit that the calculator resolves is the digit of pi.  In every format of
  \<open>long double\<close> whose operations are rounded as the standard promises, the calculator returns for
  every position up to its maximum, and a resolved digit at position \<open>p\<close> is the digit number \<open>p + 1\<close> of pi
  after the hexadecimal point.
\<close>

theorem BBPHexDigit_correct:
  assumes "long_double f"
  shows "(position \<le> maximumPosition \<longleftrightarrow> (\<exists>d. BBPHexDigit_calculate f position = Inr d))
    \<and> (\<forall>d. BBPHexDigit_calculate f position = Inr d \<and> bbp_resolved d \<longrightarrow> bbp_position d = position
       \<and> (\<exists>digit. bbp_digit d = Some digit \<and> int (unat digit) = \<lfloor>16 ^ (unat position + 1) * pi\<rfloor> mod 16))"
proof -
  have "position \<le> maximumPosition \<longleftrightarrow> (\<exists>d. BBPHexDigit_calculate f position = Inr d)"
    by (auto simp: BBPHexDigit_calculate_def res_bind_throw_if not_less)
  then show ?thesis
    using calculate_digit [OF assms, of position] by auto
qed

text \<open>Exact arithmetic is a format too; with it the first digit is computed by simplification.\<close>

definition exact_format :: long_double_format where
  "exact_format = \<lparr>ld_round = (\<lambda>x. x), ld_epsilon = 1 / 10 ^ 9\<rparr>"

interpretation exact: long_double exact_format
  by unfold_locales (simp_all add: exact_format_def)

lemmas exact_eval = series_def headLoop.simps tailLoop.simps exact_format_def ld_defs ld_floor_def power16Modulo_def powerLoop.simps Let_def

lemma exact_series:
  "series exact_format 0 1 = \<lparr>sr_fractional = 3097366979641073 / 431119374955315200, sr_tailBound = 1 / 261724569600, sr_tailTerms = 7\<rparr>"
  "series exact_format 0 4 = \<lparr>sr_fractional = 12353474966347 / 48366700462080, sr_tailBound = 1 / 273804165120, sr_tailTerms = 7\<rparr>"
  "series exact_format 0 5 = \<lparr>sr_fractional = 156346616217573071 / 762656905469362176, sr_tailBound = 1 / 277830696960, sr_tailTerms = 7\<rparr>"
  "series exact_format 0 6 = \<lparr>sr_fractional = 12952038853670471 / 75602733595361280, sr_tailBound = 1 / 281857228800, sr_tailTerms = 7\<rparr>"
  by (simp_all add: exact_eval floor_eq_iff)

lemma exact_digit: "\<exists>d. BBPHexDigit_calculate exact_format 0 = Inr d \<and> bbp_resolved d \<and> bbp_digit d = Some 2"
proof -
  have "\<lfloor>- (4462318275316126542667236163 / 5198369158853231585211187200) :: rat\<rfloor> = - 1"
      "\<lfloor>- (4462318275316126542667236163 / 324898072428326974075699200) + 16 :: rat\<rfloor> = 2"
    by (simp_all add: floor_eq_iff)
  then show ?thesis
    unfolding BBPHexDigit_calculate_def exact_series
    by (simp add: decideDigit_def Let_def bbp_resolved_def exact_format_def ld_defs ld_floor_def maximumPosition_def min_def max_def)
qed

theorem BBPHexDigit_correct_witness:
  "(\<exists>d. BBPHexDigit_calculate exact_format 0 = Inr d \<and> bbp_resolved d \<and> bbp_digit d = Some 2) \<and> \<lfloor>16 * pi\<rfloor> mod 16 = 2"
  using BBPHexDigit_correct [OF exact.long_double_axioms, of 0] exact_digit by auto

end
