(* ===== verification/Decimal_Hex.thy ===== *)
theory Decimal_Hex
  imports Known_Digits Bbp_Digit Gmp_Integer
begin

text \<open>
  The hexadecimal digits of the decimal output (src/verification/DecimalHexDigit.cpp): the digits as a
  fraction of two GMP integers, read from memory or from the file in chunks of nine digits, and the digit
  that the whole interval of half a decimal unit around the fraction has.
\<close>

section \<open>GMP\<close>

text \<open>
  The functions of GMP this file calls directly: \<open>mpz_set_str\<close> with base 10 (\<open>None\<close> is the return value \<open>-1\<close>),
  the operations with an \<open>unsigned long\<close>, and the shift.
\<close>

record gmp_text =
  mpz_set_str_10 :: "string \<Rightarrow> int option"
  mpz_mul_ui :: "int \<Rightarrow> u64 \<Rightarrow> int"
  mpz_add_ui :: "int \<Rightarrow> u64 \<Rightarrow> int"
  mpz_mul_2exp :: "int \<Rightarrow> u64 \<Rightarrow> int"

locale gmp_text_library =
  fixes h :: gmp_text
  assumes mpz_set_str: "s \<noteq> [] \<Longrightarrow> all_digits s \<Longrightarrow> mpz_set_str_10 h s = Some (int (digits_value s))"
    and mpz_mul_ui: "mpz_mul_ui h a w = a * uint w"
    and mpz_add_ui: "mpz_add_ui h a w = a + uint w"
    and mpz_mul_2exp: "mpz_mul_2exp h a w = a * 2 ^ unat w"

definition gmp_text_ref :: gmp_text where
  "gmp_text_ref = \<lparr>mpz_set_str_10 = (\<lambda>s. if s = [] \<or> list_ex not_digit s then None else Some (int (digits_value s))),
     mpz_mul_ui = (\<lambda>a w. a * uint w), mpz_add_ui = (\<lambda>a w. a + uint w), mpz_mul_2exp = (\<lambda>a w. a * 2 ^ unat w)\<rparr>"

interpretation text_ref: gmp_text_library gmp_text_ref
  by unfold_locales (auto simp: gmp_text_ref_def list_ex_iff all_digits_def)

section \<open>Definitions\<close>

record DecimalHexDigit =
  dh_position :: u64
  dh_status :: BBPDigitStatus
  dh_digit :: "u8 option"

record DecimalHexDigitExtractor =
  dx_numerator :: int
  dx_denominator :: int
  dx_requestedDigits :: u64

definition parseFraction :: "gmp_text \<Rightarrow> CanonicalDecimal \<Rightarrow> int result" where
  "parseFraction h decimal =
     (case mpz_set_str_10 h (drop 2 (cd_bytes decimal)) of
        None \<Rightarrow> Inl (Invalid_argument ''Invalid canonical decimal digits'')
      | Some v \<Rightarrow> Inr v)"

fun chunkLoop :: "u64 \<Rightarrow> string \<Rightarrow> u64 result" where
  "chunkLoop chunk [] = Inr chunk"
| "chunkLoop chunk (digit # digits) =
     (if not_digit digit then Inl (Runtime_error ''Output changed after inspection'')
      else chunkLoop (chunk * 10 + of_nat (of_char digit - 48)) digits)"

fun scaleLoop :: "u64 \<Rightarrow> string \<Rightarrow> u64" where
  "scaleLoop scale [] = scale"
| "scaleLoop scale (digit # digits) = scaleLoop (scale * 10) digits"

definition appendDecimalChunk :: "gmp_text \<Rightarrow> int \<Rightarrow> string \<Rightarrow> int result" where
  "appendDecimalChunk h v digits =
     res_bind (chunkLoop 0 digits) (\<lambda>chunk.
     Inr (mpz_add_ui h (mpz_mul_ui h v (scaleLoop 1 digits)) chunk))"

definition hex_resolved :: "DecimalHexDigit \<Rightarrow> bool" where
  "hex_resolved d \<longleftrightarrow> dh_status d = BBP_resolved \<and> dh_digit d \<noteq> None"

definition extractor_create :: "gmp \<Rightarrow> int \<Rightarrow> u64 \<Rightarrow> DecimalHexDigitExtractor result" where
  "extractor_create g numerator requested =
     res_bind (throw_if (requested = 0) (Invalid_argument ''Decimal hex extraction requires digits'')) (\<lambda>_.
     res_bind (GMPInteger_setPowerOfTen g requested) (\<lambda>denominator.
     Inr \<lparr>dx_numerator = numerator, dx_denominator = denominator, dx_requestedDigits = requested\<rparr>))"

definition extractor_ofDecimal :: "gmp \<Rightarrow> gmp_text \<Rightarrow> CanonicalDecimal \<Rightarrow> DecimalHexDigitExtractor result" where
  "extractor_ofDecimal g h decimal =
     res_bind (parseFraction h decimal) (\<lambda>numerator. extractor_create g numerator (cd_requestedDigits decimal))"

text \<open>A read on a stream that is no longer good delivers nothing.\<close>

definition stream_next :: "os_env \<Rightarrow> nat \<Rightarrow> stream_state \<Rightarrow> u8 list \<Rightarrow> os \<Rightarrow> (u8 list \<times> stream_state \<times> u8 list) \<times> os" where
  "stream_next env n state rest s = (if state = Stream_good then stream_take env n rest s else (([], state, rest), s))"

function convertLoop :: "os_env \<Rightarrow> gmp_text \<Rightarrow> u64 \<Rightarrow> int \<Rightarrow> stream_state \<Rightarrow> u8 list \<Rightarrow> os \<Rightarrow> (cpp_error + (int \<times> stream_state \<times> u8 list)) \<times> os" where
  "convertLoop env h remaining numerator state rest s =
     (if remaining = 0 then (Inr (numerator, state, rest), s)
      else let n = min remaining 9 in
        case stream_next env (unat n) state rest s of
          ((got, state, rest), s) \<Rightarrow>
            if length got \<noteq> unat n then (Inl (Runtime_error ''Output ended during decimal conversion''), s)
            else case appendDecimalChunk h numerator (bytes_string got) of
              Inl e \<Rightarrow> (Inl e, s)
            | Inr numerator \<Rightarrow> convertLoop env h (remaining - n) numerator state rest s)"
  by auto
termination
  by (relation "measure (\<lambda>(_, _, remaining, _). unat remaining)") (auto simp: unat_sub_le min_def word_less_nat_alt word_le_nat_alt unat_gt_0)

declare convertLoop.simps [simp del]

definition extractor_fromFile :: "os_env \<Rightarrow> gmp \<Rightarrow> gmp_text \<Rightarrow> InspectedOutputFile \<Rightarrow> (os, DecimalHexDigitExtractor) action" where
  "extractor_fromFile env g h f s =
     (if \<not> inspected_metadata_ok f then (Inl (Invalid_argument ''Invalid inspected output metadata''), s)
      else case stream_open env (io_path f) s of
        (None, s) \<Rightarrow> (Inl (Runtime_error ''Output changed after inspection''), s)
      | (Some rest, s) \<Rightarrow>
          case stream_take env 2 rest s of ((prefix, state, rest), s) \<Rightarrow>
            if state \<noteq> Stream_good \<or> prefix ! 0 \<noteq> 51 \<or> prefix ! 1 \<noteq> 46
            then (Inl (Runtime_error ''Output changed after inspection''), s)
            else case convertLoop env h (io_requestedDigits f) GMPInteger_default state rest s of
              (Inl e, s) \<Rightarrow> (Inl e, s)
            | (Inr (numerator, state, rest), s) \<Rightarrow>
                case stream_next env 1 state rest s of ((newline, state, rest), s) \<Rightarrow>
                  if newline \<noteq> [10] then (Inl (Runtime_error ''Output framing changed after inspection''), s)
                  else case stream_next env 1 state rest s of ((peeked, _, _), s) \<Rightarrow>
                    if peeked \<noteq> [] then (Inl (Runtime_error ''Output framing changed after inspection''), s)
                    else (extractor_create g numerator (io_requestedDigits f), s))"

definition extractor_extract :: "gmp \<Rightarrow> gmp_text \<Rightarrow> DecimalHexDigitExtractor \<Rightarrow> u64 \<Rightarrow> DecimalHexDigit result" where
  "extractor_extract g h x position =
     (if position = - 1 \<or> position + 1 > - 1 div 4 then Inl (Out_of_range ''Hexadecimal position is too large'')
      else let shift = 4 * (position + 1);
               center = mpz_mul_2exp h (GMPInteger_copy (dx_numerator x)) (shift + 1);
               radius = mpz_mul_2exp h (GMPInteger_of_u64 g 1) shift;
               doubledDenominator = mpz_mul_2exp h (GMPInteger_copy (dx_denominator x)) 1 in
        res_bind (GMPInteger_floorDivide g (GMPInteger_sub g (GMPInteger_copy center) radius) doubledDenominator) (\<lambda>lower.
        res_bind (GMPInteger_floorDivide g (GMPInteger_add g (GMPInteger_copy center) radius) doubledDenominator) (\<lambda>upper.
        if GMPInteger_compare g lower upper \<noteq> 0
        then Inr \<lparr>dh_position = position, dh_status = BBP_inconclusive, dh_digit = None\<rparr>
        else Inr \<lparr>dh_position = position, dh_status = BBP_resolved, dh_digit = Some (ucast (mpz_fdiv_ui g lower 16))\<rparr>)))"

section \<open>The fraction\<close>

text \<open>The extractor of the digits of a canonical text.\<close>

definition extractor_of :: "u64 \<Rightarrow> string \<Rightarrow> DecimalHexDigitExtractor" where
  "extractor_of n ds = \<lparr>dx_numerator = int (digits_value ds), dx_denominator = 10 ^ unat n, dx_requestedDigits = n\<rparr>"

lemma extractor_create_eq:
  assumes "gmp_library g" and "n \<noteq> 0"
  shows "extractor_create g v n = Inr \<lparr>dx_numerator = v, dx_denominator = 10 ^ unat n, dx_requestedDigits = n\<rparr>"
  using assms(2) by (simp add: extractor_create_def GMPInteger_setPowerOfTen_def gmp_library.mpz_ui_pow_ui [OF assms(1)])

lemma chunkLoop_value:
  "all_digits ds \<Longrightarrow> (unat c + 1) * 10 ^ length ds \<le> 2 ^ 64 \<Longrightarrow>
    \<exists>w. chunkLoop c ds = Inr w \<and> unat w = unat c * 10 ^ length ds + digits_value ds"
proof (induction ds arbitrary: c)
  case (Cons d ds)
  have d: "digit_value d < 10" "\<not> not_digit d" "all_digits ds"
    using Cons.prems(1) digit_value_less by auto
  have bound: "(unat c * 10 + digit_value d + 1) * 10 ^ length ds \<le> 2 ^ 64"
  proof -
    have "(unat c * 10 + digit_value d + 1) * 10 ^ length ds \<le> ((unat c + 1) * 10) * 10 ^ length ds"
      using d(1) by (intro mult_right_mono) simp_all
    also have "\<dots> = (unat c + 1) * 10 ^ length (d # ds)"
      by (simp add: algebra_simps)
    finally show ?thesis
      using Cons.prems(2) by linarith
  qed
  have "unat c * 10 + digit_value d + 1 \<le> (unat c * 10 + digit_value d + 1) * 10 ^ length ds"
    using mult_le_mono2 [of 1 "10 ^ length ds" "unat c * 10 + digit_value d + 1"] by simp
  then have fits: "unat c * 10 + digit_value d < 2 ^ 64"
    using bound by linarith
  let ?c = "c * 10 + of_nat (of_char d - 48)"
  have "unat ?c = unat c * 10 + digit_value d"
  proof -
    have "unat (c * 10) = unat c * 10"
      using unat_mult_no_wrap [of c 10] fits by simp
    moreover have "unat (of_nat (of_char d - 48) :: u64) = digit_value d"
      using d(1) by (simp add: digit_value_def unat_of_nat)
    ultimately show ?thesis
      using unat_add_no_wrap [of "c * 10" "of_nat (of_char d - 48)"] fits by simp
  qed
  moreover have "digits_value (d # ds) = digit_value d * 10 ^ length ds + digits_value ds"
    using digits_value_append [of "[d]" ds] digits_value_snoc [of "[]" d] by simp
  ultimately show ?case
    using Cons.IH [OF d(3), of ?c] bound d(2) by (simp add: algebra_simps)
qed simp

lemma scaleLoop_value: "unat c * 10 ^ length ds < 2 ^ 64 \<Longrightarrow> unat (scaleLoop c ds) = unat c * 10 ^ length ds"
proof (induction ds arbitrary: c)
  case (Cons d ds)
  have "unat c * 10 \<le> unat c * 10 * 10 ^ length ds"
    by simp
  also have "\<dots> = unat c * 10 ^ length (d # ds)"
    by simp
  finally have "unat c * 10 < 2 ^ 64"
    using Cons.prems by linarith
  then have "unat (c * 10) = unat c * 10"
    using unat_mult_no_wrap [of c 10] by simp
  then show ?case
    using Cons by (simp add: mult.assoc)
qed simp

lemma appendDecimalChunk_value:
  assumes "gmp_text_library h" and "all_digits ds" and "length ds \<le> 9"
  shows "appendDecimalChunk h v ds = Inr (v * 10 ^ length ds + int (digits_value ds))"
proof -
  have small: "(10 :: nat) ^ length ds \<le> 10 ^ 9"
    using assms(3) by (intro power_increasing) simp_all
  obtain w where w: "chunkLoop 0 ds = Inr w" "unat w = digits_value ds"
    using chunkLoop_value [OF assms(2), of 0] small by auto
  have "unat (scaleLoop 1 ds) = 10 ^ length ds"
    using scaleLoop_value [of 1 ds] small by simp
  then have "uint (scaleLoop 1 ds) = 10 ^ length ds" "uint w = int (digits_value ds)"
    using w(2) by (simp_all add: uint_nat)
  then show ?thesis
    using w(1) by (simp add: appendDecimalChunk_def gmp_text_library.mpz_add_ui [OF assms(1)] gmp_text_library.mpz_mul_ui [OF assms(1)])
qed

section \<open>Reading the file\<close>

lemma stream_next_delivers:
  assumes "stream_next env n st rest s = ((got, st', rest'), s')"
  shows "rest = got @ rest'" and "os_disk s' = os_disk s" and "(\<forall>i. env_errno env i = None) \<and> st = Stream_good \<and> n \<le> length rest \<Longrightarrow> st' = Stream_good \<and> length got = n"
    and "rest = [] \<Longrightarrow> got = []"
proof -
  have good: "stream_take env n rest s = ((got, st', rest'), s')" if "st = Stream_good"
    using assms that by (simp add: stream_next_def)
  have other: "got = [] \<and> st' = st \<and> rest' = rest \<and> s' = s" if "st \<noteq> Stream_good"
    using assms that by (simp add: stream_next_def)
  show 1: "rest = got @ rest'"
    using stream_take_delivers(1) [OF good] other by (cases "st = Stream_good") blast+
  show "os_disk s' = os_disk s"
    using stream_take_delivers(3) [OF good] other by (cases "st = Stream_good") blast+
  show "st' = Stream_good \<and> length got = n" if "(\<forall>i. env_errno env i = None) \<and> st = Stream_good \<and> n \<le> length rest"
    using good that stream_calm(2) [of env n rest s] by auto
  show "got = []" if "rest = []"
    using 1 that by simp
qed

definition converted :: "os_env \<Rightarrow> stream_state \<Rightarrow> int \<Rightarrow> u8 list \<Rightarrow> os \<Rightarrow> (cpp_error + (int \<times> stream_state \<times> u8 list)) \<times> os \<Rightarrow> bool" where
  "converted env st v tail s run \<longleftrightarrow> os_disk (snd run) = os_disk s
     \<and> (\<forall>r. fst run = Inr r \<longrightarrow> fst r = v \<and> snd (snd r) = tail)
     \<and> ((\<forall>i. env_errno env i = None) \<and> st = Stream_good \<longrightarrow> fst run = Inr (v, Stream_good, tail))"

lemma split_value:
  assumes "k \<le> length ds"
  shows "(v * 10 ^ k + int (digits_value (take k ds))) * 10 ^ length (drop k ds) + int (digits_value (drop k ds)) = v * 10 ^ length ds + int (digits_value ds)"
proof -
  have "digits_value ds = digits_value (take k ds) * 10 ^ length (drop k ds) + digits_value (drop k ds)"
    using digits_value_append [of "take k ds" "drop k ds"] by simp
  then have "int (digits_value ds) = int (digits_value (take k ds)) * 10 ^ length (drop k ds) + int (digits_value (drop k ds))"
    by simp
  moreover have "(10 :: int) ^ length ds = 10 ^ k * 10 ^ length (drop k ds)"
    using assms by (simp flip: power_add)
  ultimately show ?thesis
    by (simp add: algebra_simps)
qed

lemma convertLoop_value:
  assumes h: "gmp_text_library h"
  shows "all_digits ds \<Longrightarrow> length ds = unat remaining \<Longrightarrow> rest = string_bytes ds @ tail \<Longrightarrow>
    converted env st (v * 10 ^ length ds + int (digits_value ds)) tail s (convertLoop env h remaining v st rest s)"
proof (induction "unat remaining" arbitrary: remaining ds v st rest s rule: less_induct)
  case less
  show ?case
  proof (cases "remaining = 0")
    case True
    then show ?thesis
      using less.prems by (simp add: convertLoop.simps [of env h 0] converted_def string_bytes_def)
  next
    case False
    define n where "n = min remaining 9"
    have n: "unat n = min (unat remaining) 9" "unat n \<le> length ds" "0 < unat n" "n \<le> remaining"
      using False less.prems(2) by (auto simp: n_def min_def word_le_nat_alt unat_gt_0)
    let ?a = "take (unat n) ds" and ?b = "drop (unat n) ds"
    have ab: "string_bytes ds = string_bytes ?a @ string_bytes ?b"
      unfolding string_bytes_def by (simp flip: map_append)
    obtain got st' rest' s' where t: "stream_next env (unat n) st rest s = ((got, st', rest'), s')"
      by (metis surj_pair)
    note d = stream_next_delivers [OF t]
    show ?thesis
    proof (cases "length got = unat n")
      case short: False
      then have "convertLoop env h remaining v st rest s = (Inl (Runtime_error ''Output ended during decimal conversion''), s')"
        using False t by (simp add: convertLoop.simps [of env h remaining] n_def [symmetric] Let_def)
      moreover have "\<not> ((\<forall>i. env_errno env i = None) \<and> st = Stream_good)"
        using d(3) n(2) short less.prems(3) by auto
      ultimately show ?thesis
        using d(2) by (simp add: converted_def)
    next
      case True
      then have got: "got = string_bytes ?a" "rest' = string_bytes ?b @ tail"
        using d(1) less.prems(3) n(2) append_eq_append_conv [of got "string_bytes ?a" rest' "string_bytes ?b @ tail"] by (auto simp: ab)
      have "all_digits ?a" "length ?a \<le> 9" "length ?a = unat n"
        using n(1,2) less.prems(1) by (simp_all add: all_digits_take)
      then have "appendDecimalChunk h v (bytes_string got) = Inr (v * 10 ^ unat n + int (digits_value ?a))"
        using appendDecimalChunk_value [OF h, of ?a v] by (simp only: got(1) bytes_string_bytes)
      then have step: "convertLoop env h remaining v st rest s = convertLoop env h (remaining - n) (v * 10 ^ unat n + int (digits_value ?a)) st' rest' s'"
        using False t True by (simp add: convertLoop.simps [of env h remaining] n_def [symmetric] Let_def)
      have m: "unat (remaining - n) = unat remaining - unat n" "length ?b = unat remaining - unat n"
        using n(4) less.prems(2) by (simp_all add: unat_sub_le)
      have "converted env st' ((v * 10 ^ unat n + int (digits_value ?a)) * 10 ^ length ?b + int (digits_value ?b)) tail s'
          (convertLoop env h (remaining - n) (v * 10 ^ unat n + int (digits_value ?a)) st' rest' s')"
        by (rule less.hyps) (use m n got(2) less.prems(1,2) in \<open>simp_all add: all_digits_take\<close>)
      then have "converted env st' (v * 10 ^ length ds + int (digits_value ds)) tail s'
          (convertLoop env h (remaining - n) (v * 10 ^ unat n + int (digits_value ?a)) st' rest' s')"
        unfolding split_value [OF n(2)] .
      moreover have "(\<forall>i. env_errno env i = None) \<and> st = Stream_good \<longrightarrow> st' = Stream_good"
        using d(3) n(2) less.prems by auto
      ultimately show ?thesis
        using d(2) unfolding step converted_def by metis
    qed
  qed
qed

text \<open>The end of the file: what follows the digits is one newline.\<close>

definition framed :: "os_env \<Rightarrow> gmp \<Rightarrow> u64 \<Rightarrow> int \<Rightarrow> stream_state \<Rightarrow> u8 list \<Rightarrow> (os, DecimalHexDigitExtractor) action" where
  "framed env g n v st rest s =
     (case stream_next env 1 st rest s of ((newline, st, rest), s) \<Rightarrow>
        if newline \<noteq> [10] then (Inl (Runtime_error ''Output framing changed after inspection''), s)
        else case stream_next env 1 st rest s of ((peeked, _, _), s) \<Rightarrow>
          if peeked \<noteq> [] then (Inl (Runtime_error ''Output framing changed after inspection''), s)
          else (extractor_create g v n, s))"

lemma framed_value:
  fixes v :: int and n :: u64
  assumes "gmp_library g" and "n \<noteq> 0"
  defines "x \<equiv> \<lparr>dx_numerator = v, dx_denominator = 10 ^ unat n, dx_requestedDigits = n\<rparr>"
  shows "os_disk (snd (framed env g n v st [10] s)) = os_disk s \<and> (\<forall>y. fst (framed env g n v st [10] s) = Inr y \<longrightarrow> y = x)
    \<and> ((\<forall>i. env_errno env i = None) \<and> st = Stream_good \<longrightarrow> fst (framed env g n v st [10] s) = Inr x)"
proof -
  obtain a st1 rest1 s1 where 1: "stream_next env 1 st [10] s = ((a, st1, rest1), s1)"
    by (metis surj_pair)
  obtain b st2 rest2 s2 where 2: "stream_next env 1 st1 rest1 s1 = ((b, st2, rest2), s2)"
    by (metis surj_pair)
  note d1 = stream_next_delivers [OF 1] and d2 = stream_next_delivers [OF 2]
  have "a = [10] \<Longrightarrow> b = []"
    using d1(1) d2(4) by simp
  moreover have "a = [10]" if "(\<forall>i. env_errno env i = None) \<and> st = Stream_good"
    using d1(1,3) that by (cases a) auto
  ultimately show ?thesis
    using d1(2) d2(2) unfolding framed_def 1 by (auto simp: 2 x_def extractor_create_eq [OF assms(1,2)] simp del: One_nat_def)
qed

lemma fromFile_steps:
  assumes "inspected_metadata_ok f"
  shows "extractor_fromFile env g h f s =
    (case stream_open env (io_path f) s of
        (None, s) \<Rightarrow> (Inl (Runtime_error ''Output changed after inspection''), s)
      | (Some rest, s) \<Rightarrow>
          case stream_take env 2 rest s of ((prefix, st, rest), s) \<Rightarrow>
            if st \<noteq> Stream_good \<or> prefix ! 0 \<noteq> 51 \<or> prefix ! 1 \<noteq> 46
            then (Inl (Runtime_error ''Output changed after inspection''), s)
            else case convertLoop env h (io_requestedDigits f) 0 st rest s of
              (Inl e, s) \<Rightarrow> (Inl e, s)
            | (Inr (v, st, rest), s) \<Rightarrow> framed env g (io_requestedDigits f) v st rest s)"
  unfolding extractor_fromFile_def framed_def GMPInteger_default_def by (simp only: assms simp_thms if_False)

text \<open>The extractor of a file that holds a canonical text is the one of its digits, when it is created at all.\<close>

lemma extractor_fromFile_value:
  assumes g: "gmp_library g" and h: "gmp_text_library h" and t: "canonical_text n t" and n: "n \<le> - 1 - 3"
    and disk: "content (os_disk s) p = Some (string_bytes t @ [10])"
    and run: "extractor_fromFile env g h \<lparr>io_path = p, io_fileSize = n + 2 + 1, io_canonicalByteCount = n + 2, io_requestedDigits = n\<rparr> s = (r, s')"
  shows "os_disk s' = os_disk s \<and> (\<forall>x. r = Inr x \<longrightarrow> x = extractor_of n (drop 2 t)) \<and> ((\<forall>i. env_errno env i = None) \<longrightarrow> r = Inr (extractor_of n (drop 2 t)))"
proof -
  let ?calm = "\<forall>i. env_errno env i = None"
  obtain ds where ds: "t = ''3.'' @ ds" "length ds = unat n" "all_digits ds" "n \<noteq> 0"
    using t by (auto simp: canonical_text_def all_digits_def)
  have bytes: "string_bytes t @ [10] = [51, 46] @ string_bytes ds @ [10]"
    by (simp add: ds(1) string_bytes_def)
  have "inspected_metadata_ok \<lparr>io_path = p, io_fileSize = n + 2 + 1, io_canonicalByteCount = n + 2, io_requestedDigits = n\<rparr>"
    using ds(4) n by (simp add: inspected_metadata_ok_def not_less)
  note steps = run [unfolded fromFile_steps [OF this], simplified]
  obtain o1 s1 where o: "stream_open env p s = (o1, s1)"
    by (metis surj_pair)
  note od = stream_open_disk [OF o]
  show ?thesis
  proof (cases o1)
    case None
    then have "\<not> ?calm"
      using o disk stream_calm(1) [of env p s] by fastforce
    then show ?thesis
      using steps o None od by auto
  next
    case (Some rest)
    then have rest: "rest = [51, 46] @ string_bytes ds @ [10]"
      using od disk bytes by simp
    obtain pre st rest1 s2 where k: "stream_take env 2 rest s1 = ((pre, st, rest1), s2)"
      by (metis surj_pair)
    note d = stream_take_delivers [OF k]
    show ?thesis
    proof (cases "st = Stream_good")
      case False
      then have "\<not> ?calm"
        using k rest stream_calm(2) [of env 2 rest s1] by fastforce
      then show ?thesis
        using steps o Some k False od d(3) by auto
    next
      case True
      then have pre: "pre = [51, 46]" "rest1 = string_bytes ds @ [10]"
        using d(1,4) rest append_eq_append_conv [of pre "[51, 46]" rest1 "string_bytes ds @ [10]"] by auto
      let ?v = "int (digits_value ds)"
      obtain q s3 where c: "convertLoop env h n 0 st rest1 s2 = (q, s3)"
        by (metis surj_pair)
      have conv: "converted env st ?v [10] s2 (q, s3)"
        using convertLoop_value [OF h ds(3,2) pre(2), of env st 0 s2] c by simp
      have x: "extractor_of n (drop 2 t) = \<lparr>dx_numerator = ?v, dx_denominator = 10 ^ unat n, dx_requestedDigits = n\<rparr>"
        by (simp add: extractor_of_def ds(1))
      show ?thesis
      proof (cases q)
        case (Inl e)
        then show ?thesis
          using steps o Some k True pre c conv od d(3) by (auto simp: converted_def)
      next
        case (Inr q')
        then obtain st3 where q: "q = Inr (?v, st3, [10])" "?calm \<longrightarrow> st3 = Stream_good"
          using conv True by (cases q') (auto simp: converted_def)
        have "(r, s') = framed env g n ?v st3 [10] s3"
          using steps o Some k True pre c q(1) by simp
        then show ?thesis
          using framed_value [OF g ds(4), of env ?v st3 s3] q(2) conv od d(3) x by (metis converted_def fst_conv snd_conv)
      qed
    qed
  qed
qed

lemma extractor_ofDecimal_value:
  assumes g: "gmp_library g" and h: "gmp_text_library h" and t: "canonical_text n t"
  shows "extractor_ofDecimal g h \<lparr>cd_bytes = t, cd_requestedDigits = n\<rparr> = Inr (extractor_of n (drop 2 t))"
proof -
  have ds: "all_digits (drop 2 t)" "drop 2 t \<noteq> []" "n \<noteq> 0"
    using t unat_eq_zero [of n] by (auto simp: canonical_text_def all_digits_def simp del: unat_eq_zero)
  then show ?thesis
    by (simp add: extractor_ofDecimal_def parseFraction_def gmp_text_library.mpz_set_str [OF h] extractor_create_eq [OF g] extractor_of_def)
qed

section \<open>The digit\<close>

lemma floor_fraction_constant:
  fixes x :: real and a b c :: int
  assumes "0 < c" and "a div c = b div c" and "real_of_int a \<le> real_of_int c * x" and "real_of_int c * x \<le> real_of_int b"
  shows "\<lfloor>x\<rfloor> = a div c"
proof (rule floor_unique)
  have "real_of_int (a div c) \<le> real_of_int a / real_of_int c" 
    using assms(1) by (metis floor_divide_of_int_eq of_int_floor_le)
  also have "\<dots> \<le> x"
    using assms(1,3) by (simp add: field_simps)
  finally show "real_of_int (a div c) \<le> x" .
  have "x \<le> real_of_int b / real_of_int c"
    using assms(1,4) by (simp add: field_simps)
  also have "\<dots> < real_of_int (b div c) + 1"
    unfolding floor_divide_of_int_eq [of b c, where ?'a = real, symmetric] by linarith
  finally show "x < real_of_int (a div c) + 1"
    by (simp add: assms(2))
qed

lemma shift_words:
  fixes p :: u64
  assumes "unat p + 1 \<le> (2 ^ 64 - 1) div 4"
  shows "p \<noteq> - 1" and "\<not> p + 1 > - 1 div 4" and "unat (4 * (p + 1)) = 4 * (unat p + 1)" and "unat (4 * (p + 1) + 1) = 4 * (unat p + 1) + 1"
proof -
  show "p \<noteq> - 1"
    using assms unat_max_word [where 'a = 64] by auto
  have p: "unat (p + 1) = unat p + 1"
    using assms unat_add_no_wrap [of p 1] by simp
  then show "\<not> p + 1 > - 1 div 4"
    using assms by (simp add: word_less_nat_alt)
  show 4: "unat (4 * (p + 1)) = 4 * (unat p + 1)"
    using assms p unat_mult_no_wrap [of 4 "p + 1"] by simp
  show "unat (4 * (p + 1) + 1) = 4 * (unat p + 1) + 1"
    using assms 4 unat_add_no_wrap [of "4 * (p + 1)" 1] by simp
qed

lemma power_16: "(2 :: int) ^ (4 * k) = 16 ^ k" "(2 :: int) ^ (4 * k + 1) = 2 * 16 ^ k"
  by (simp_all add: power_mult)

lemma extract_digit:
  fixes ds :: string and n p :: u64
  assumes g: "gmp_library g" and h: "gmp_text_library h" and p: "unat p + 1 \<le> (2 ^ 64 - 1) div 4"
  defines "lower \<equiv> 16 ^ (unat p + 1) * (2 * int (digits_value ds) - 1) div (2 * 10 ^ unat n)"
    and "upper \<equiv> 16 ^ (unat p + 1) * (2 * int (digits_value ds) + 1) div (2 * 10 ^ unat n)"
  shows "extractor_extract g h (extractor_of n ds) p = Inr (if lower = upper
      then \<lparr>dh_position = p, dh_status = BBP_resolved, dh_digit = Some (ucast (mpz_fdiv_ui g lower 16))\<rparr>
      else \<lparr>dh_position = p, dh_status = BBP_inconclusive, dh_digit = None\<rparr>)"
proof -
  let ?N = "int (digits_value ds)" and ?D = "(10 :: int) ^ unat n"
  note w = shift_words [OF p]
  have c: "mpz_mul_2exp h ?N (4 * (p + 1) + 1) = ?N * (2 * 16 ^ (unat p + 1))" "mpz_mul_2exp h 1 (4 * (p + 1)) = 16 ^ (unat p + 1)"
      "mpz_mul_2exp h ?D 1 = 2 * ?D"
    by (simp_all only: gmp_text_library.mpz_mul_2exp [OF h] w(3,4) power_16 unat_1 mult_1) simp
  have one: "mpz_init_set_ui g 1 = 1"
    using gmp_library.mpz_init_set_ui [OF g, of 1] by simp
  have l: "mpz_fdiv_q g (mpz_sub g (?N * (2 * 16 ^ (unat p + 1))) (16 ^ (unat p + 1))) (2 * ?D) = lower"
    using gmp_library.mpz_fdiv_q [OF g] by (simp add: gmp_library.mpz_sub [OF g] lower_def algebra_simps)
  have u: "mpz_fdiv_q g (mpz_add g (?N * (2 * 16 ^ (unat p + 1))) (16 ^ (unat p + 1))) (2 * ?D) = upper"
    using gmp_library.mpz_fdiv_q [OF g] by (simp add: gmp_library.mpz_add [OF g] upper_def algebra_simps)
  have cmp: "mpz_cmp g a b = 0 \<longleftrightarrow> a = b" for a b
    using gmp_library.mpz_cmp_less [OF g, of a b] gmp_library.mpz_cmp_greater [OF g, of a b] by linarith
  have D: "mpz_sgn g (2 * ?D) \<noteq> 0"
    by (simp add: gmp_library.mpz_sgn [OF g])
  show ?thesis
    unfolding extractor_extract_def extractor_of_def Let_def GMPInteger_defs GMPInteger_floorDivide_def DecimalHexDigitExtractor.select_convs c one l u
    using w(1,2) D by (simp add: cmp)
qed

text \<open>The numbers that the digits may stand for: half a unit of the last decimal digit around them.\<close>

definition half_unit :: "u64 \<Rightarrow> string \<Rightarrow> real \<Rightarrow> bool" where
  "half_unit n ds x \<longleftrightarrow> \<bar>x - real (digits_value ds) / 10 ^ unat n\<bar> \<le> 1 / 2 / 10 ^ unat n"

lemma half_unit_scaled:
  assumes "half_unit n ds x"
  shows "real_of_int (16 ^ k * (2 * int (digits_value ds) - 1)) \<le> real_of_int (2 * 10 ^ unat n) * (16 ^ k * x)"
    and "real_of_int (2 * 10 ^ unat n) * (16 ^ k * x) \<le> real_of_int (16 ^ k * (2 * int (digits_value ds) + 1))"
proof -
  let ?N = "real (digits_value ds)" and ?D = "(10 :: real) ^ unat n"
  have "\<bar>x * ?D - ?N\<bar> \<le> 1 / 2"
    using assms by (simp add: half_unit_def field_simps)
  then have "2 * ?N - 1 \<le> 2 * (x * ?D)" "2 * (x * ?D) \<le> 2 * ?N + 1"
    unfolding abs_le_iff by linarith+
  then have "2 * ?N - 1 \<le> 2 * ?D * x" "2 * ?D * x \<le> 2 * ?N + 1"
    by (simp_all only: mult.assoc mult.commute [of x])
  then have "16 ^ k * (2 * ?N - 1) \<le> 16 ^ k * (2 * ?D * x)" "16 ^ k * (2 * ?D * x) \<le> 16 ^ k * (2 * ?N + 1)"
    by (intro mult_left_mono; simp)+
  then show "real_of_int (16 ^ k * (2 * int (digits_value ds) - 1)) \<le> real_of_int (2 * 10 ^ unat n) * (16 ^ k * x)"
      "real_of_int (2 * 10 ^ unat n) * (16 ^ k * x) \<le> real_of_int (16 ^ k * (2 * int (digits_value ds) + 1))"
    by (simp_all add: mult.assoc mult.left_commute)
qed

lemma byte_of_remainder:
  fixes w :: u64
  assumes "uint w = v mod 16"
  shows "int (unat (ucast w :: u8)) = v mod 16"
proof -
  have "unat w < 16"
    using assms pos_mod_bound [of 16 v] by (simp add: unat_eq_nat_uint)
  then have "unat (ucast w :: u8) = unat w"
    by (simp add: unsigned_ucast_eq take_bit_nat_eq_self)
  then show ?thesis
    using assms by (metis uint_nat)
qed

lemma extract_resolved:
  assumes g: "gmp_library g" and h: "gmp_text_library h" and p: "unat p + 1 \<le> (2 ^ 64 - 1) div 4"
  shows "\<exists>d. extractor_extract g h (extractor_of n ds) p = Inr d \<and> dh_position d = p
    \<and> (hex_resolved d \<longrightarrow> (\<exists>digit k. dh_digit d = Some digit \<and> int (unat digit) = k mod 16 \<and> (\<forall>x. half_unit n ds x \<longrightarrow> \<lfloor>16 ^ (unat p + 1) * x\<rfloor> = k)))
    \<and> (\<not> hex_resolved d \<longrightarrow> dh_digit d = None \<and> (\<exists>x y. half_unit n ds x \<and> half_unit n ds y \<and> \<lfloor>16 ^ (unat p + 1) * x\<rfloor> \<noteq> \<lfloor>16 ^ (unat p + 1) * y\<rfloor>))"
proof -
  let ?k = "unat p + 1" and ?N = "int (digits_value ds)" and ?D = "(2 :: int) * 10 ^ unat n"
  let ?lower = "16 ^ ?k * (2 * ?N - 1) div ?D" and ?upper = "16 ^ ?k * (2 * ?N + 1) div ?D"
  note e = extract_digit [OF g h p, where ds = ds and n = n]
  show ?thesis
  proof (cases "?lower = ?upper")
    case True
    have "int (unat (ucast (mpz_fdiv_ui g ?lower 16) :: u8)) = ?lower mod 16"
      using byte_of_remainder [of "mpz_fdiv_ui g ?lower 16" ?lower] gmp_library.mpz_fdiv_ui [OF g, of 16 ?lower] by simp
    moreover have "\<lfloor>16 ^ ?k * x\<rfloor> = ?lower" if "half_unit n ds x" for x
      by (rule floor_fraction_constant [OF _ True half_unit_scaled [OF that]]) simp
    moreover have "extractor_extract g h (extractor_of n ds) p
        = Inr \<lparr>dh_position = p, dh_status = BBP_resolved, dh_digit = Some (ucast (mpz_fdiv_ui g ?lower 16))\<rparr>"
      using e unfolding if_P [OF True] .
    ultimately show ?thesis
      unfolding hex_resolved_def by (intro exI [of _ "\<lparr>dh_position = p, dh_status = BBP_resolved, dh_digit = Some (ucast (mpz_fdiv_ui g ?lower 16))\<rparr>"]) auto
  next
    case False
    let ?x = "(real (digits_value ds) - 1 / 2) / 10 ^ unat n" and ?y = "(real (digits_value ds) + 1 / 2) / 10 ^ unat n"
    have "half_unit n ds ?x" "half_unit n ds ?y"
      by (simp_all add: half_unit_def field_simps)
    moreover have "16 ^ ?k * ?x = real_of_int (16 ^ ?k * (2 * ?N - 1)) / real_of_int ?D" "16 ^ ?k * ?y = real_of_int (16 ^ ?k * (2 * ?N + 1)) / real_of_int ?D"
      by (simp_all add: field_simps)
    then have "\<lfloor>16 ^ ?k * ?x\<rfloor> = ?lower" "\<lfloor>16 ^ ?k * ?y\<rfloor> = ?upper"
      by (simp_all only: floor_divide_of_int_eq)
    ultimately have "\<exists>x y. half_unit n ds x \<and> half_unit n ds y \<and> \<lfloor>16 ^ ?k * x\<rfloor> \<noteq> \<lfloor>16 ^ ?k * y\<rfloor>"
      using False by metis
    moreover have "extractor_extract g h (extractor_of n ds) p = Inr \<lparr>dh_position = p, dh_status = BBP_inconclusive, dh_digit = None\<rparr>"
      using e unfolding if_not_P [OF False] .
    ultimately show ?thesis
      by (auto simp: hex_resolved_def simp del: power_Suc)
  qed
qed

section \<open>Properties\<close>

text \<open>
  C37: The hexadecimal digit extracted from the output is exact.  For a canonical text, in memory or in an
  unchanged file, the extractor represents its digits (from a file it is created when no read fails, and never with other
  digits).  A digit is resolved exactly when all numbers within half a unit of the last decimal place have
  the same integer part at this position, and it is then the hexadecimal digit of each of them.
\<close>

theorem DecimalHexDigit_exact:
  assumes g: "gmp_library g" and h: "gmp_text_library h" and t: "canonical_text n t" and p: "unat p + 1 \<le> (2 ^ 64 - 1) div 4"
  shows "\<exists>x d. extractor_ofDecimal g h \<lparr>cd_bytes = t, cd_requestedDigits = n\<rparr> = Inr x \<and> extractor_extract g h x p = Inr d
    \<and> (n \<le> - 1 - 3 \<and> content (os_disk s) q = Some (string_bytes t @ [10]) \<longrightarrow>
        (\<exists>r s'. extractor_fromFile env g h \<lparr>io_path = q, io_fileSize = n + 2 + 1, io_canonicalByteCount = n + 2, io_requestedDigits = n\<rparr> s = (r, s')
          \<and> os_disk s' = os_disk s \<and> (r = Inr x \<or> (\<exists>e. r = Inl e) \<and> \<not> (\<forall>i. env_errno env i = None))))
    \<and> (hex_resolved d \<longleftrightarrow> (\<forall>v w. half_unit n (drop 2 t) v \<and> half_unit n (drop 2 t) w \<longrightarrow> \<lfloor>16 ^ (unat p + 1) * v\<rfloor> = \<lfloor>16 ^ (unat p + 1) * w\<rfloor>))
    \<and> (hex_resolved d \<longrightarrow> (\<exists>digit. dh_digit d = Some digit \<and> (\<forall>v. half_unit n (drop 2 t) v \<longrightarrow> int (unat digit) = \<lfloor>16 ^ (unat p + 1) * v\<rfloor> mod 16)))"
proof -
  let ?x = "extractor_of n (drop 2 t)"
  obtain d where d: "extractor_extract g h ?x p = Inr d"
      "hex_resolved d \<longrightarrow> (\<exists>digit k. dh_digit d = Some digit \<and> int (unat digit) = k mod 16 \<and> (\<forall>x. half_unit n (drop 2 t) x \<longrightarrow> \<lfloor>16 ^ (unat p + 1) * x\<rfloor> = k))"
      "\<not> hex_resolved d \<longrightarrow> (\<exists>x y. half_unit n (drop 2 t) x \<and> half_unit n (drop 2 t) y \<and> \<lfloor>16 ^ (unat p + 1) * x\<rfloor> \<noteq> \<lfloor>16 ^ (unat p + 1) * y\<rfloor>)"
    using extract_resolved [OF g h p, of n "drop 2 t"] by blast
  have f: "\<exists>r s'. extractor_fromFile env g h \<lparr>io_path = q, io_fileSize = n + 2 + 1, io_canonicalByteCount = n + 2, io_requestedDigits = n\<rparr> s = (r, s')
      \<and> os_disk s' = os_disk s \<and> (r = Inr ?x \<or> (\<exists>e. r = Inl e) \<and> \<not> (\<forall>i. env_errno env i = None))"
    if "n \<le> - 1 - 3" "content (os_disk s) q = Some (string_bytes t @ [10])"
  proof -
    obtain r s' where r: "extractor_fromFile env g h \<lparr>io_path = q, io_fileSize = n + 2 + 1, io_canonicalByteCount = n + 2, io_requestedDigits = n\<rparr> s = (r, s')"
      by (metis surj_pair)
    then show ?thesis
      using extractor_fromFile_value [OF g h t that r] by (cases r) auto
  qed
  have same: "hex_resolved d \<longleftrightarrow> (\<forall>v w. half_unit n (drop 2 t) v \<and> half_unit n (drop 2 t) w \<longrightarrow> \<lfloor>16 ^ (unat p + 1) * v\<rfloor> = \<lfloor>16 ^ (unat p + 1) * w\<rfloor>)"
    using d(2,3) by metis
  have digit: "hex_resolved d \<longrightarrow> (\<exists>digit. dh_digit d = Some digit \<and> (\<forall>v. half_unit n (drop 2 t) v \<longrightarrow> int (unat digit) = \<lfloor>16 ^ (unat p + 1) * v\<rfloor> mod 16))"
    using d(2) by metis
  show ?thesis
    using extractor_ofDecimal_value [OF g h t] d(1) f same digit by (intro exI [of _ ?x] exI [of _ d]) blast
qed

text \<open>The digits \<open>14\<close> and all numbers from \<open>0.135\<close> to \<open>0.145\<close> have the hexadecimal digit 2.\<close>

theorem DecimalHexDigit_exact_witness:
  "\<exists>x d digit. extractor_ofDecimal gmp_ref gmp_text_ref \<lparr>cd_bytes = ''3.14'', cd_requestedDigits = 2\<rparr> = Inr x
     \<and> extractor_extract gmp_ref gmp_text_ref x 0 = Inr d \<and> hex_resolved d \<and> dh_digit d = Some digit \<and> int (unat digit) = 2"
proof -
  have "unat (0 :: u64) + 1 \<le> (2 ^ 64 - 1) div 4"
    by simp
  note e = DecimalHexDigit_exact [OF gmp_ref.gmp_library_axioms text_ref.gmp_text_library_axioms canonical_sample this, of fresh_os "Path [] []" calm_env]
  have v: "\<lfloor>16 * v\<rfloor> = 2" if "half_unit 2 (drop 2 ''3.14'') v" for v
    using that unfolding half_unit_def floor_eq_iff by (simp add: digits_value_def digit_value_def abs_if split: if_splits)
  have h: "half_unit 2 (drop 2 ''3.14'') (14 / 100)"
    by (simp add: half_unit_def digits_value_def digit_value_def)
  from e obtain x d where x: "extractor_ofDecimal gmp_ref gmp_text_ref \<lparr>cd_bytes = ''3.14'', cd_requestedDigits = 2\<rparr> = Inr x"
      "extractor_extract gmp_ref gmp_text_ref x 0 = Inr d"
      "hex_resolved d \<longleftrightarrow> (\<forall>v w. half_unit 2 (drop 2 ''3.14'') v \<and> half_unit 2 (drop 2 ''3.14'') w \<longrightarrow> \<lfloor>16 ^ (unat (0 :: u64) + 1) * v\<rfloor> = \<lfloor>16 ^ (unat (0 :: u64) + 1) * w\<rfloor>)"
      "hex_resolved d \<longrightarrow> (\<exists>digit. dh_digit d = Some digit \<and> (\<forall>v. half_unit 2 (drop 2 ''3.14'') v \<longrightarrow> int (unat digit) = \<lfloor>16 ^ (unat (0 :: u64) + 1) * v\<rfloor> mod 16))"
    by blast
  have r: "hex_resolved d"
    unfolding x(3) using v by simp
  then obtain digit where "dh_digit d = Some digit" "int (unat digit) = \<lfloor>16 ^ (unat (0 :: u64) + 1) * (14 / 100 :: real)\<rfloor> mod 16"
    using x(4) h by blast
  then show ?thesis
    using x(1,2) r v [OF h] by (intro exI [of _ x] exI [of _ d] exI [of _ digit]) simp
qed

end
