(* ===== verification/Bbp_Samples.thy ===== *)
theory Bbp_Samples
  imports Bbp_Digit Final_Report
begin

text \<open>
  The choice of the sampled positions (src/verification/BBPSamplePolicy.cpp): a few early ones, the
  quarters, positions derived from the identity of the run, and probing from the start when these collide.
\<close>

unbundle bit_operations_syntax

lemma unat_next: "a < b \<Longrightarrow> unat (a + 1) = unat a + 1" for a b :: u64
  using unat_add_no_wrap [of a 1] unat_u64_less [of b] by (simp add: word_less_nat_alt)

lemma next_closer: "a < b \<Longrightarrow> unat (b - (a + 1)) < unat (b - a)" for a b :: u64
proof -
  assume "a < b"
  moreover from this have "a + 1 \<le> b"
    by (simp add: inc_le)
  ultimately show ?thesis
    using unat_next [of a b] unat_sub_le [of a b] unat_sub_le [of "a + 1" b] by (simp add: word_less_nat_alt word_le_nat_alt)
qed

section \<open>Definitions\<close>

definition mix :: "u64 \<Rightarrow> u64" where
  "mix v =
     (let v = v + 0x9e3779b97f4a7c15;
          v = (v XOR drop_bit 30 v) * 0xbf58476d1ce4e5b9;
          v = (v XOR drop_bit 27 v) * 0x94d049bb133111eb
      in v XOR drop_bit 31 v)"

definition identitySeed :: "VerificationIdentity \<Rightarrow> u64" where
  "identitySeed identity =
     (let seed = mix (vi_requestedDigits identity);
          seed = seed XOR mix (ucast (vi_guardDigits identity) + 0x100000001);
          seed = seed XOR mix (vi_workingDigits identity + 0x200000003);
          seed = seed XOR mix (vi_termCount identity + 0x300000007)
      in mix seed)"

definition fractionOf :: "u64 \<Rightarrow> u64 \<Rightarrow> u64 \<Rightarrow> u64" where
  "fractionOf v numerator denominator = (v div denominator) * numerator + ((v mod denominator) * numerator) div denominator"

definition addUnique :: "u64 list \<Rightarrow> u64 \<Rightarrow> u64 \<Rightarrow> size_t \<Rightarrow> u64 list" where
  "addUnique positions position safeCount maximumSamples =
     (if position \<ge> safeCount \<or> length positions \<ge> unat maximumSamples then positions
      else if position \<notin> set positions then positions @ [position] else positions)"

definition DEFAULT_BBP_SAMPLE_COUNT :: size_t where
  "DEFAULT_BBP_SAMPLE_COUNT = 8"

definition MAXIMUM_BBP_SAMPLE_COUNT :: size_t where
  "MAXIMUM_BBP_SAMPLE_COUNT = 32"

record BBPSamplePolicy =
  sp_maximumSamples :: size_t

definition BBPSamplePolicy_create :: "size_t \<Rightarrow> BBPSamplePolicy result" where
  "BBPSamplePolicy_create maximumSamples =
     res_bind (throw_if (maximumSamples = 0 \<or> maximumSamples > MAXIMUM_BBP_SAMPLE_COUNT)
       (Invalid_argument ''BBP sample count must be between 1 and 32'')) (\<lambda>_.
     Inr \<lparr>sp_maximumSamples = maximumSamples\<rparr>)"

definition safePositionCount :: "u64 \<Rightarrow> u64" where
  "safePositionCount requested =
     (if requested \<le> 2 then 0
      else let usable = requested - 2;
               precisionBound = (usable div 100) * 83 + ((usable mod 100) * 83) div 100
           in min precisionBound (maximumPosition + 1))"

text \<open>The identity-derived positions; \<open>attempt\<close> counts to four times the number of samples.\<close>

function deriveLoop :: "size_t \<Rightarrow> u64 \<Rightarrow> u64 list \<Rightarrow> u64 \<Rightarrow> size_t \<Rightarrow> u64 list" where
  "deriveLoop maximumSamples safeCount positions state attempt =
     (if length positions < unat maximumSamples \<and> attempt < maximumSamples * 4
      then let state = mix (state + attempt) in
           deriveLoop maximumSamples safeCount (addUnique positions (state mod safeCount) safeCount maximumSamples) state (attempt + 1)
      else positions)"
  by auto
termination
  by (relation "measure (\<lambda>(maximumSamples, _, _, _, attempt). unat (maximumSamples * 4 - attempt))")
    (simp_all add: next_closer)

function probeLoop :: "size_t \<Rightarrow> u64 \<Rightarrow> u64 list \<Rightarrow> u64 \<Rightarrow> u64 list" where
  "probeLoop maximumSamples safeCount positions position =
     (if length positions < unat maximumSamples \<and> position < safeCount
      then probeLoop maximumSamples safeCount (addUnique positions position safeCount maximumSamples) (position + 1)
      else positions)"
  by auto
termination
  by (relation "measure (\<lambda>(_, safeCount, _, position). unat (safeCount - position))")
    (simp_all add: next_closer)

declare deriveLoop.simps [simp del] probeLoop.simps [simp del]

definition samples_select :: "BBPSamplePolicy \<Rightarrow> VerificationIdentity \<Rightarrow> u64 list" where
  "samples_select policy identity =
     (let safeCount = safePositionCount (vi_requestedDigits identity); maximumSamples = sp_maximumSamples policy in
      if safeCount = 0 then []
      else let add = (\<lambda>positions position. addUnique positions position safeCount maximumSamples);
               positions = foldl add [] [0, 1, 2];
               lastPosition = safeCount - 1;
               positions = add positions (fractionOf lastPosition 1 4);
               positions = add positions (fractionOf lastPosition 1 2);
               positions = add positions (fractionOf lastPosition 3 4);
               positions = deriveLoop maximumSamples safeCount positions (identitySeed identity) 0;
               positions = probeLoop maximumSamples safeCount positions 0
           in sort positions)"

section \<open>The selection\<close>

definition sampling :: "size_t \<Rightarrow> u64 \<Rightarrow> u64 list \<Rightarrow> bool" where
  "sampling m c ps \<longleftrightarrow> distinct ps \<and> (\<forall>p \<in> set ps. p < c) \<and> length ps \<le> unat m"

lemma addUnique_sampling: "sampling m c ps \<Longrightarrow> sampling m c (addUnique ps p c m)"
  by (auto simp: sampling_def addUnique_def)

lemma addUnique_mono: "set ps \<subseteq> set (addUnique ps p c m)"
  by (auto simp: addUnique_def)

lemma addUnique_adds: "p < c \<Longrightarrow> length ps < unat m \<Longrightarrow> p \<in> set (addUnique ps p c m)"
  by (auto simp: addUnique_def)

lemma deriveLoop_sampling: "sampling m c ps \<Longrightarrow> sampling m c (deriveLoop m c ps state attempt) \<and> set ps \<subseteq> set (deriveLoop m c ps state attempt)"
proof (induction m c ps state attempt rule: deriveLoop.induct)
  case (1 m c ps state attempt)
  show ?case
    using 1 addUnique_sampling [of m c ps] addUnique_mono [of ps "mix (state + attempt) mod c" c m] by (subst (1 2) deriveLoop.simps) (auto simp: Let_def)
qed

text \<open>Probing stops with enough samples, or it has tried every position.\<close>

lemma probeLoop_sampling:
  assumes "sampling m c ps" and "\<forall>q < p. q < c \<longrightarrow> q \<in> set ps"
  defines "r \<equiv> probeLoop m c ps p"
  shows "sampling m c r \<and> set ps \<subseteq> set r \<and> (length r = unat m \<or> (\<forall>q < c. q \<in> set r))"
  using assms(1,2) unfolding r_def
proof (induction m c ps p rule: probeLoop.induct)
  case (1 m c ps p)
  show ?case
  proof (cases "length ps < unat m \<and> p < c")
    case True
    let ?ps = "addUnique ps p c m"
    have "q = p \<or> q < p" if "q < p + 1" for q
      using that unat_next [of p c] True by (auto simp: word_less_nat_alt word_unat_eq_iff)
    then have "\<forall>q < p + 1. q < c \<longrightarrow> q \<in> set ?ps"
      using "1.prems"(2) addUnique_adds [of p c ps m] addUnique_mono [of ps p c m] True by blast
    then have "sampling m c (probeLoop m c ?ps (p + 1)) \<and> set ?ps \<subseteq> set (probeLoop m c ?ps (p + 1))
        \<and> (length (probeLoop m c ?ps (p + 1)) = unat m \<or> (\<forall>q < c. q \<in> set (probeLoop m c ?ps (p + 1))))"
      using "1.IH" [OF True addUnique_sampling [OF "1.prems"(1)]] by blast
    moreover have "probeLoop m c ps p = probeLoop m c ?ps (p + 1)"
      using True by (simp add: probeLoop.simps [of m c ps])
    ultimately show ?thesis
      using addUnique_mono [of ps p c m] by auto
  next
    case False
    then have "length ps = unat m \<or> (\<forall>q < c. q \<in> set ps)"
      using "1.prems" by (auto simp: sampling_def)
    then show ?thesis
      using False "1.prems"(1) by (auto simp: probeLoop.simps [of m c ps])
  qed
qed

lemma foldl_sampling:
  "sampling m c ps \<Longrightarrow> sampling m c (foldl (\<lambda>ps p. addUnique ps p c m) ps qs)"
  by (induction qs arbitrary: ps) (auto simp: addUnique_sampling)

lemma sampling_full:
  assumes "sampling m c r" and "length r = unat m \<or> (\<forall>q < c. q \<in> set r)"
  shows "length r = min (unat m) (unat c)"
proof -
  have r: "set r \<subseteq> {..<c}" "card (set r) = length r" "length r \<le> unat m"
    using assms(1) by (auto simp: sampling_def distinct_card)
  have card: "card {..<c} = unat c"
  proof -
    have "bij_betw unat {..<c} {..<unat c}"
      unfolding bij_betw_def
    proof
      show "inj_on unat {..<c}"
        by (auto intro!: inj_onI simp: word_unat_eq_iff)
      show "unat ` {..<c} = {..<unat c}"
      proof (intro equalityI subsetI)
        fix k
        assume "k \<in> {..<unat c}"
        then have "k < unat c" "unat (of_nat k :: u64) = k"
          using unat_u64_less [of c] by (auto intro!: unat_of_nat_u64)
        then show "k \<in> unat ` {..<c}"
          by (intro image_eqI [of _ _ "of_nat k"]) (auto simp: word_less_nat_alt)
      qed (auto simp: word_less_nat_alt)
    qed
    then show ?thesis
      using bij_betw_same_card by fastforce
  qed
  have le: "length r \<le> unat c"
    using card_mono [OF _ r(1)] r(2) card by simp
  show ?thesis
  proof (cases "length r = unat m")
    case False
    then have "{..<c} \<subseteq> set r"
      using assms(2) by auto
    then have "unat c \<le> length r"
      using card_mono [of "set r" "{..<c}"] card r(2) by simp
    then show ?thesis
      using le r(3) by simp
  qed (use le in simp)
qed

text \<open>Every sampled position keeps a distance of two decimal digits from the precision of the output.\<close>

lemma scaled_fraction: "(u div 100) * 83 + ((u mod 100) * 83) div 100 = (83 * u) div (100 :: nat)"
proof -
  have "83 * u = 83 * (u mod 100) + 83 * (u div 100) * 100"
    by (metis (no_types) distrib_left mult.assoc mod_mult_div_eq mult.commute)
  then show ?thesis
    by (metis add.commute div_mult_self1 mult.commute zero_neq_numeral)
qed

lemma safePositionCount_value:
  assumes "n > 2"
  shows "unat (safePositionCount n) = min ((83 * (unat n - 2)) div 100) (unat maximumPosition + 1)"
proof -
  define u where "u = n - 2"
  have u: "unat u = unat n - 2"
    using assms unat_sub_le [of 2 n] by (simp add: u_def)
  have "unat (u div 100) = unat u div 100" "unat (u mod 100) = unat u mod 100"
    by (simp_all add: unat_div unat_mod)
  moreover have "unat u < 2 ^ 64"
    by (rule unat_u64_less)
  ultimately have "unat ((u div 100) * 83) = unat u div 100 * 83" "unat ((u mod 100) * 83) = unat u mod 100 * 83"
    using unat_mult_no_wrap [of "u div 100" 83] unat_mult_no_wrap [of "u mod 100" 83] by simp_all
  then have "unat (((u mod 100) * 83) div 100) = (unat u mod 100 * 83) div 100" "unat ((u div 100) * 83) = unat u div 100 * 83"
    by (simp_all add: unat_div)
  then have "unat ((u div 100) * 83 + ((u mod 100) * 83) div 100) = unat u div 100 * 83 + (unat u mod 100 * 83) div 100"
    using unat_add_no_wrap [of "(u div 100) * 83" "((u mod 100) * 83) div 100"] unat_u64_less [of u] by simp
  then have "unat ((u div 100) * 83 + ((u mod 100) * 83) div 100) = (83 * (unat n - 2)) div 100"
    unfolding scaled_fraction u .
  moreover have "unat (maximumPosition + 1) = unat maximumPosition + 1"
    by (simp add: maximumPosition_def)
  ultimately show ?thesis
    using assms by (simp add: safePositionCount_def Let_def u_def [symmetric] min_def word_le_nat_alt del: One_nat_def)
qed

lemma safe_precision:
  assumes "p < safePositionCount n"
  shows "16 ^ (unat p + 1) * 100 \<le> (10 :: nat) ^ unat n" and "p \<le> maximumPosition"
proof -
  have n: "n > 2"
    using assms by (auto simp: safePositionCount_def not_le split: if_splits)
  then have u: "2 < unat n"
    by (simp add: word_less_nat_alt)
  have p: "unat p + 1 \<le> (83 * (unat n - 2)) div 100" "unat p \<le> unat maximumPosition"
    using assms safePositionCount_value [OF n] by (auto simp: word_less_nat_alt)
  then show "p \<le> maximumPosition"
    by (simp add: word_le_nat_alt)
  have "(16 ^ (unat p + 1)) ^ 100 = (16 :: nat) ^ ((unat p + 1) * 100)"
    by (rule power_mult [symmetric])
  also have "\<dots> \<le> 16 ^ (83 * (unat n - 2))"
    using p(1) by (intro power_increasing) simp_all
  also have "\<dots> = (16 ^ 83) ^ (unat n - 2)"
    by (rule power_mult)
  also have "\<dots> \<le> (10 ^ 100) ^ (unat n - 2)"
    by (rule power_mono) simp_all
  also have "\<dots> = (10 ^ (unat n - 2)) ^ 100"
    by (simp only: power_mult [symmetric] mult.commute)
  finally have "(16 :: nat) ^ (unat p + 1) \<le> 10 ^ (unat n - 2)"
    using power_le_imp_le_base [of "16 ^ (unat p + 1)" 99 "10 ^ (unat n - 2) :: nat"] by (simp only: numeral_nat)
  moreover have "(10 :: nat) ^ unat n = 10 ^ (unat n - 2) * 100"
    using u power_add [of "10 :: nat" "unat n - 2" 2] by (simp only: le_add_diff_inverse2 less_imp_le) simp
  ultimately show "16 ^ (unat p + 1) * 100 \<le> (10 :: nat) ^ unat n"
    by simp
qed

lemma select_samples:
  fixes policy identity
  defines "r \<equiv> samples_select policy identity" and "c \<equiv> safePositionCount (vi_requestedDigits identity)"
  shows "sorted r" and "distinct r" and "\<forall>p \<in> set r. p < c" and "length r = min (unat (sp_maximumSamples policy)) (unat c)"
proof -
  let ?m = "sp_maximumSamples policy"
  show "sorted r"
    by (simp add: r_def samples_select_def Let_def)
  have "sampling ?m c r \<and> (length r = unat ?m \<or> (\<forall>q < c. q \<in> set r))"
  proof (cases "c = 0")
    case True
    then show ?thesis
      by (simp add: r_def samples_select_def c_def Let_def sampling_def)
  next
    case False
    define ps where "ps = addUnique (addUnique (addUnique (foldl (\<lambda>ps p. addUnique ps p c ?m) [] [0, 1, 2])
      (fractionOf (c - 1) 1 4) c ?m) (fractionOf (c - 1) 1 2) c ?m) (fractionOf (c - 1) 3 4) c ?m"
    have "sampling ?m c ps"
      unfolding ps_def by (intro addUnique_sampling foldl_sampling) (simp add: sampling_def)
    then have d: "sampling ?m c (deriveLoop ?m c ps (identitySeed identity) 0)"
      using deriveLoop_sampling by blast
    have "r = sort (probeLoop ?m c (deriveLoop ?m c ps (identitySeed identity) 0) 0)"
      using False by (simp add: r_def samples_select_def c_def [symmetric] Let_def ps_def)
    then show ?thesis
      using probeLoop_sampling [OF d, of 0] by (simp add: sampling_def)
  qed
  then show "distinct r" "\<forall>p \<in> set r. p < c" "length r = min (unat ?m) (unat c)"
    using sampling_full by (auto simp: sampling_def)
qed

section \<open>Properties\<close>

text \<open>
  C40: The sampled positions are sorted and distinct, as many as the policy allows or as there are safe
  ones, and each is safe: the calculator accepts it, and the output has two decimal digits more than the
  position needs.  No word of the computation wraps around on the way to the bound.
\<close>

theorem BBPSamplePolicy_select_safe:
  assumes "BBPSamplePolicy_create m = Inr policy"
  shows "sorted (samples_select policy identity) \<and> distinct (samples_select policy identity)
    \<and> length (samples_select policy identity) = min (unat m) (unat (safePositionCount (vi_requestedDigits identity)))
    \<and> length (samples_select policy identity) \<le> 32
    \<and> (\<forall>p \<in> set (samples_select policy identity). p \<le> maximumPosition \<and> 16 ^ (unat p + 1) * 100 \<le> (10 :: nat) ^ unat (vi_requestedDigits identity))
    \<and> (samples_select policy identity = [] \<longleftrightarrow> vi_requestedDigits identity \<le> 3)"
proof -
  have m: "sp_maximumSamples policy = m" "unat m \<noteq> 0" "unat m \<le> 32"
    using assms by (auto simp: BBPSamplePolicy_create_def MAXIMUM_BBP_SAMPLE_COUNT_def res_elim not_less word_le_nat_alt unat_eq_zero)
  note s = select_samples [where policy = policy and identity = identity, unfolded m(1)]
  let ?n = "vi_requestedDigits identity"
  have "unat (safePositionCount ?n) = 0 \<longleftrightarrow> ?n \<le> 3"
  proof (cases "?n > 2")
    case True
    then show ?thesis
      using safePositionCount_value [OF True] by (auto simp: word_less_nat_alt word_le_nat_alt)
  next
    case False
    then show ?thesis
      by (auto simp: safePositionCount_def not_less word_le_nat_alt)
  qed
  then have "samples_select policy identity = [] \<longleftrightarrow> ?n \<le> 3"
    using s(4) m(2) by (metis length_0_conv min_0L min_0R min_def)
  then show ?thesis
    using s m(3) safe_precision by auto
qed

definition sample_run :: VerificationIdentity where
  "sample_run = \<lparr>vi_requestedDigits = 10, vi_guardDigits = 20, vi_workingDigits = 30, vi_termCount = 4\<rparr>"

theorem BBPSamplePolicy_select_safe_witness:
  "length (samples_select \<lparr>sp_maximumSamples = 8\<rparr> sample_run) = 6 \<and> sorted (samples_select \<lparr>sp_maximumSamples = 8\<rparr> sample_run)
     \<and> list_all (\<lambda>p. p \<le> maximumPosition) (samples_select \<lparr>sp_maximumSamples = 8\<rparr> sample_run)"
proof -
  have "unat (safePositionCount 10) = 6"
    using safePositionCount_value [of 10] by (simp add: maximumPosition_def)
  then show ?thesis
    using BBPSamplePolicy_select_safe [of 8 "\<lparr>sp_maximumSamples = 8\<rparr>" sample_run]
    by (simp add: BBPSamplePolicy_create_def MAXIMUM_BBP_SAMPLE_COUNT_def sample_run_def list_all_iff)
qed

end
