(* ===== verification/Final_Verifier.thy ===== *)
theory Final_Verifier
  imports Sha256 Decimal_Hex Bbp_Samples
begin

text \<open>
  The final verification (src/verification/FinalVerifier.cpp): the structure of the output, the known
  digits, the hash, and the sampled hexadecimal digits, collected in a report.  The format of \<open>long double\<close>
  and GMP are parameters.
\<close>

section \<open>Definitions\<close>

record BBPSampleVerification =
  bs_position :: u64
  bs_status :: VerificationStatus
  bs_bbpDigit :: "u8 option"
  bs_outputDigit :: "u8 option"
  bs_bbpErrorBound :: rat

record FinalVerificationRun =
  fv_report :: FinalVerificationReport
  fv_sha256 :: "u8 list option"
  fv_knownDigits :: "KnownDigitsVerification option"
  fv_bbpSamples :: "BBPSampleVerification list"

definition check_skipped :: "VerificationStage \<Rightarrow> VerificationCheckResult result" where
  "check_skipped stage = VerificationCheckResult_create stage VS_skipped 0 []"

definition check_failed :: "VerificationStage \<Rightarrow> VerificationReason \<Rightarrow> string \<Rightarrow> VerificationCheckResult result" where
  "check_failed stage reason detail = VerificationCheckResult_create stage VS_failed 0
     [\<lparr>vd_stage = stage, vd_reason = reason, vd_detail = detail, vd_offset = None\<rparr>]"

record BBPCheck =
  bc_check :: VerificationCheckResult
  bc_samples :: "BBPSampleVerification list"

definition bbp_diagnostic :: "VerificationReason \<Rightarrow> string \<Rightarrow> u64 \<Rightarrow> VerificationDiagnostic" where
  "bbp_diagnostic reason detail position = \<lparr>vd_stage = Stage_bbp, vd_reason = reason, vd_detail = detail, vd_offset = Some position\<rparr>"

text \<open>The loop over the sampled positions, with the samples, the diagnostics and the aggregate status.\<close>

fun samplesLoop :: "long_double_format \<Rightarrow> gmp \<Rightarrow> gmp_text \<Rightarrow> DecimalHexDigitExtractor \<Rightarrow> u64 list \<Rightarrow> BBPSampleVerification list
    \<Rightarrow> VerificationDiagnostic list \<Rightarrow> VerificationStatus \<Rightarrow> (BBPSampleVerification list \<times> VerificationDiagnostic list \<times> VerificationStatus) result" where
  "samplesLoop ld g h x [] samples diagnostics aggregate = Inr (samples, diagnostics, aggregate)"
| "samplesLoop ld g h x (position # positions) samples diagnostics aggregate =
     res_bind (BBPHexDigit_calculate ld position) (\<lambda>expected.
     res_bind (extractor_extract g h x position) (\<lambda>actual.
     let (status, aggregate, diagnostics) =
       (if \<not> bbp_resolved expected \<or> \<not> hex_resolved actual
        then (VS_inconclusive, if aggregate \<noteq> VS_failed then VS_inconclusive else aggregate,
              diagnostics @ [bbp_diagnostic VR_insufficientPrecision ''BBP sample interval does not resolve to one digit'' position])
        else if bbp_digit expected \<noteq> dh_digit actual
        then (VS_failed, VS_failed, diagnostics @ [bbp_diagnostic VR_bbpMismatch ''BBP digit differs from canonical decimal output'' position])
        else (VS_passed, aggregate, diagnostics));
       sample = \<lparr>bs_position = position, bs_status = status, bs_bbpDigit = bbp_digit expected,
                 bs_outputDigit = dh_digit actual, bs_bbpErrorBound = bbp_errorBound expected\<rparr>
     in samplesLoop ld g h x positions (samples @ [sample]) diagnostics aggregate))"

definition verifySamples :: "long_double_format \<Rightarrow> gmp \<Rightarrow> gmp_text \<Rightarrow> DecimalHexDigitExtractor \<Rightarrow> VerificationIdentity \<Rightarrow> BBPSamplePolicy \<Rightarrow> BBPCheck result" where
  "verifySamples ld g h x identity policy =
     (let positions = samples_select policy identity in
      if positions = [] then res_bind (check_skipped Stage_bbp) (\<lambda>check. Inr \<lparr>bc_check = check, bc_samples = []\<rparr>)
      else res_bind (samplesLoop ld g h x positions [] [] VS_passed) (\<lambda>(samples, diagnostics, aggregate).
           res_bind (VerificationCheckResult_create Stage_bbp aggregate 0 diagnostics) (\<lambda>check.
           Inr \<lparr>bc_check = check, bc_samples = samples\<rparr>)))"

definition stoppedAfterStructure :: "VerificationIdentity \<Rightarrow> VerificationCheckResult \<Rightarrow> FinalVerificationRun result" where
  "stoppedAfterStructure identity structure =
     res_bind (check_skipped Stage_knownDigits) (\<lambda>known.
     res_bind (check_skipped Stage_hash) (\<lambda>hash.
     res_bind (check_skipped Stage_bbp) (\<lambda>bbp.
     res_bind (FinalVerificationReport_create identity [structure, known, hash, bbp]) (\<lambda>report.
     Inr \<lparr>fv_report = report, fv_sha256 = None, fv_knownDigits = None, fv_bbpSamples = []\<rparr>))))"

definition verifyMemory :: "long_double_format \<Rightarrow> gmp \<Rightarrow> gmp_text \<Rightarrow> string \<Rightarrow> VerificationIdentity \<Rightarrow> BBPSamplePolicy \<Rightarrow> FinalVerificationRun result" where
  "verifyMemory ld g h candidate identity policy =
     res_bind (inspectMemory candidate (vi_requestedDigits identity)) (\<lambda>inspection.
     if \<not> inspection_accepted inspection then stoppedAfterStructure identity (ci_verification inspection)
     else let decimal = the (ci_decimal inspection) in
       res_bind (KnownDigitsVerifier_verify decimal) (\<lambda>known.
       res_bind (SHA256_hash (cd_bytes decimal)) (\<lambda>digest.
       res_bind (VerificationCheckResult_create Stage_hash VS_passed 0 []) (\<lambda>hashCheck.
       res_bind (extractor_ofDecimal g h decimal) (\<lambda>x.
       res_bind (verifySamples ld g h x identity policy) (\<lambda>bbp.
       res_bind (FinalVerificationReport_create identity [ci_verification inspection, kd_verification known, hashCheck, bc_check bbp]) (\<lambda>report.
       Inr \<lparr>fv_report = report, fv_sha256 = Some digest, fv_knownDigits = Some known, fv_bbpSamples = bc_samples bbp\<rparr>)))))))"

text \<open>The hash of the file; an exception becomes a failed check.\<close>

definition hashStage :: "os_env \<Rightarrow> InspectedOutputFile \<Rightarrow> (os, u8 list option \<times> VerificationCheckResult) action" where
  "hashStage env f s =
     (case hashFilePrefix env (io_path f) (io_canonicalByteCount f) s of
        (Inr digest, s) \<Rightarrow> (res_bind (VerificationCheckResult_create Stage_hash VS_passed 0 []) (\<lambda>check. Inr (Some digest, check)), s)
      | (Inl e, s) \<Rightarrow> (res_bind (check_failed Stage_hash VR_fileReadFailed (what e)) (\<lambda>check. Inr (None, check)), s))"

text \<open>The samples of the file; an exception of the extractor or of the loop becomes a failed check without samples.\<close>

definition bbpStage :: "os_env \<Rightarrow> long_double_format \<Rightarrow> gmp \<Rightarrow> gmp_text \<Rightarrow> InspectedOutputFile \<Rightarrow> VerificationIdentity \<Rightarrow> BBPSamplePolicy \<Rightarrow> (os, BBPCheck) action" where
  "bbpStage env ld g h f identity policy s =
     (case extractor_fromFile env g h f s of (r, s) \<Rightarrow>
        case res_bind r (\<lambda>x. verifySamples ld g h x identity policy) of
          Inr bbp \<Rightarrow> (Inr bbp, s)
        | Inl e \<Rightarrow> (res_bind (check_failed Stage_bbp VR_operationFailed (what e)) (\<lambda>check. Inr \<lparr>bc_check = check, bc_samples = []\<rparr>), s))"

text \<open>The stages after the structure was accepted.\<close>

definition verifyInspected :: "os_env \<Rightarrow> long_double_format \<Rightarrow> gmp \<Rightarrow> gmp_text \<Rightarrow> VerificationCheckResult \<Rightarrow> InspectedOutputFile
    \<Rightarrow> VerificationIdentity \<Rightarrow> BBPSamplePolicy \<Rightarrow> (os, FinalVerificationRun) action" where
  "verifyInspected env ld g h structure f identity policy =
     st_bind (KnownDigitsVerifier_verifyFile env f) (\<lambda>known.
     st_bind (hashStage env f) (\<lambda>(digest, hashCheck).
     st_bind (bbpStage env ld g h f identity policy) (\<lambda>bbp.
     st_lift (res_bind (FinalVerificationReport_create identity [structure, kd_verification known, hashCheck, bc_check bbp]) (\<lambda>report.
       Inr \<lparr>fv_report = report, fv_sha256 = digest, fv_knownDigits = Some known, fv_bbpSamples = bc_samples bbp\<rparr>)))))"

definition verifyFile :: "os_env \<Rightarrow> long_double_format \<Rightarrow> gmp \<Rightarrow> gmp_text \<Rightarrow> path \<Rightarrow> VerificationIdentity \<Rightarrow> BBPSamplePolicy \<Rightarrow> (os, FinalVerificationRun) action" where
  "verifyFile env ld g h p identity policy =
     st_bind (inspectFile env p (vi_requestedDigits identity)) (\<lambda>inspection.
     if \<not> file_accepted inspection then st_lift (stoppedAfterStructure identity (oi_verification inspection))
     else verifyInspected env ld g h (oi_verification inspection) (the (oi_file inspection)) identity policy)"

fun replaceHash :: "VerificationCheckResult list \<Rightarrow> VerificationCheckResult list result" where
  "replaceHash [] = Inr []"
| "replaceHash (check # checks) =
     res_bind (if vc_stage check = Stage_hash
       then VerificationCheckResult_create Stage_hash VS_failed (vc_duration check)
         [\<lparr>vd_stage = Stage_hash, vd_reason = VR_hashMismatch, vd_detail = ''Canonical SHA-256 differs from verification manifest'', vd_offset = None\<rparr>]
       else Inr check) (\<lambda>check.
     res_bind (replaceHash checks) (\<lambda>checks. Inr (check # checks)))"

definition verifyFileExpecting ::
  "os_env \<Rightarrow> long_double_format \<Rightarrow> gmp \<Rightarrow> gmp_text \<Rightarrow> path \<Rightarrow> VerificationIdentity \<Rightarrow> u8 list \<Rightarrow> BBPSamplePolicy \<Rightarrow> (os, FinalVerificationRun) action" where
  "verifyFileExpecting env ld g h p identity expectedSha256 policy =
     st_bind (verifyFile env ld g h p identity policy) (\<lambda>run.
     if fv_sha256 run = None \<or> fv_sha256 run = Some expectedSha256 then st_return run
     else st_lift (res_bind (replaceHash (fr_checks (fv_report run))) (\<lambda>checks.
       res_bind (FinalVerificationReport_create identity checks) (\<lambda>report. Inr (run\<lparr>fv_report := report\<rparr>)))))"

section \<open>The sampled digits\<close>

text \<open>Every number the output may stand for has the hexadecimal digit of pi at this position.\<close>

definition sample_agrees :: "u64 \<Rightarrow> string \<Rightarrow> u64 \<Rightarrow> bool" where
  "sample_agrees n ds p \<longleftrightarrow> (\<forall>x. half_unit n ds x \<longrightarrow> \<lfloor>16 ^ (unat p + 1) * x\<rfloor> mod 16 = \<lfloor>16 ^ (unat p + 1) * pi\<rfloor> mod 16)"

lemma fraction_digit: "\<lfloor>16 ^ (k + 1) * (pi - 3)\<rfloor> mod 16 = \<lfloor>16 ^ (k + 1) * pi\<rfloor> mod 16"
proof -
  have "16 ^ (k + 1) * (pi - 3) = 16 ^ (k + 1) * pi - real_of_int (16 * (3 * 16 ^ k))"
    by (simp add: algebra_simps)
  then have "\<lfloor>16 ^ (k + 1) * (pi - 3)\<rfloor> = \<lfloor>16 ^ (k + 1) * pi\<rfloor> - 16 * (3 * 16 ^ k)"
    by (simp only: floor_diff_of_int)
  then show ?thesis
    by (metis mod_diff_eq mod_mult_self1_is_0 diff_zero mod_mod_trivial)
qed

lemma position_fits: "p \<le> maximumPosition \<Longrightarrow> unat p + 1 \<le> (2 ^ 64 - 1) div 4"
  by (simp add: word_le_nat_alt maximumPosition_def)

definition samples_inv :: "VerificationDiagnostic list \<Rightarrow> VerificationStatus \<Rightarrow> bool" where
  "samples_inv diagnostics aggregate \<longleftrightarrow> aggregate \<noteq> VS_skipped \<and> (aggregate = VS_passed \<longleftrightarrow> diagnostics = []) \<and> (\<forall>d \<in> set diagnostics. vd_stage d = Stage_bbp)"

lemma samplesLoop_spec:
  assumes "long_double ld" and "gmp_library g" and "gmp_text_library h"
  shows "\<forall>p \<in> set ps. p \<le> maximumPosition \<Longrightarrow> samples_inv ds0 a0 \<Longrightarrow>
    \<exists>ss ds1 a1. samplesLoop ld g h (extractor_of n ds) ps ss0 ds0 a0 = Inr (ss, ds1, a1) \<and> samples_inv ds1 a1
      \<and> map bs_position ss = map bs_position ss0 @ ps
      \<and> (a1 = VS_passed \<longrightarrow> a0 = VS_passed \<and> (\<forall>p \<in> set ps. sample_agrees n ds p))
      \<and> (half_unit n ds (pi - 3) \<and> a0 \<noteq> VS_failed \<longrightarrow> a1 \<noteq> VS_failed)"
proof (induction ps arbitrary: ss0 ds0 a0)
  case Nil
  then show ?case
    by simp
next
  case (Cons p ps)
  have p: "p \<le> maximumPosition"
    using Cons.prems(1) by simp
  obtain e where e: "BBPHexDigit_calculate ld p = Inr e"
      "bbp_resolved e \<longrightarrow> (\<exists>digit. bbp_digit e = Some digit \<and> int (unat digit) = \<lfloor>16 ^ (unat p + 1) * pi\<rfloor> mod 16)"
    using calculate_digit [OF assms(1) p] by blast
  obtain a where a: "extractor_extract g h (extractor_of n ds) p = Inr a"
      "hex_resolved a \<longrightarrow> (\<exists>digit k. dh_digit a = Some digit \<and> int (unat digit) = k mod 16 \<and> (\<forall>x. half_unit n ds x \<longrightarrow> \<lfloor>16 ^ (unat p + 1) * x\<rfloor> = k))"
    using extract_resolved [OF assms(2,3) position_fits [OF p]] by blast
  have agrees: "sample_agrees n ds p" if "bbp_resolved e" "hex_resolved a" "bbp_digit e = dh_digit a"
    using e(2) a(2) that by (auto simp: sample_agrees_def)
  have same: "bbp_digit e = dh_digit a" if r: "bbp_resolved e" "hex_resolved a" "half_unit n ds (pi - 3)"
  proof -
    obtain u where u: "bbp_digit e = Some u" "int (unat u) = \<lfloor>16 ^ (unat p + 1) * pi\<rfloor> mod 16"
      using e(2) r(1) by blast
    obtain v k where v: "dh_digit a = Some v" "int (unat v) = k mod 16" "\<forall>x. half_unit n ds x \<longrightarrow> \<lfloor>16 ^ (unat p + 1) * x\<rfloor> = k"
      using a(2) r(2) by blast
    have "int (unat v) = int (unat u)"
      using u(2) v(2,3) r(3) fraction_digit [of "unat p"] by metis
    then have "v = u"
      by (simp only: of_nat_eq_iff word_unat_eq_iff)
    then show ?thesis
      using u(1) v(1) by simp
  qed
  define sample where "sample st = \<lparr>bs_position = p, bs_status = st, bs_bbpDigit = bbp_digit e, bs_outputDigit = dh_digit a, bs_bbpErrorBound = bbp_errorBound e\<rparr>" for st
  have pos: "bs_position (sample st) = p" for st
    by (simp add: sample_def)
  consider (unresolved) "\<not> bbp_resolved e \<or> \<not> hex_resolved a" | (differ) "bbp_resolved e" "hex_resolved a" "bbp_digit e \<noteq> dh_digit a"
    | (agree) "bbp_resolved e" "hex_resolved a" "bbp_digit e = dh_digit a"
    by blast
  then show ?case
  proof cases
    case unresolved
    let ?a = "if a0 \<noteq> VS_failed then VS_inconclusive else a0"
    let ?d = "ds0 @ [bbp_diagnostic VR_insufficientPrecision ''BBP sample interval does not resolve to one digit'' p]"
    have step: "samplesLoop ld g h (extractor_of n ds) (p # ps) ss0 ds0 a0 = samplesLoop ld g h (extractor_of n ds) ps (ss0 @ [sample VS_inconclusive]) ?d ?a"
      using unresolved by (simp add: e(1) a(1) sample_def)
    have "samples_inv ?d ?a"
      using Cons.prems(2) by (auto simp: samples_inv_def bbp_diagnostic_def)
    then show ?thesis
      unfolding step using Cons.IH [of ?d ?a "ss0 @ [sample VS_inconclusive]"] Cons.prems(1) by (auto simp: pos split: if_splits)
  next
    case differ
    let ?d = "ds0 @ [bbp_diagnostic VR_bbpMismatch ''BBP digit differs from canonical decimal output'' p]"
    have step: "samplesLoop ld g h (extractor_of n ds) (p # ps) ss0 ds0 a0 = samplesLoop ld g h (extractor_of n ds) ps (ss0 @ [sample VS_failed]) ?d VS_failed"
      using differ by (simp add: e(1) a(1) sample_def)
    have "samples_inv ?d VS_failed"
      using Cons.prems(2) by (auto simp: samples_inv_def bbp_diagnostic_def)
    then show ?thesis
      unfolding step using Cons.IH [of ?d VS_failed "ss0 @ [sample VS_failed]"] Cons.prems(1) same differ by (auto simp: pos)
  next
    case agree
    have step: "samplesLoop ld g h (extractor_of n ds) (p # ps) ss0 ds0 a0 = samplesLoop ld g h (extractor_of n ds) ps (ss0 @ [sample VS_passed]) ds0 a0"
      using agree by (simp add: e(1) a(1) sample_def)
    show ?thesis
      unfolding step using Cons.IH [of ds0 a0 "ss0 @ [sample VS_passed]"] Cons.prems agrees agree by (auto simp: pos)
  qed
qed

lemma check_skipped_eq: "check_skipped stage = Inr \<lparr>vc_stage = stage, vc_status = VS_skipped, vc_duration = 0, vc_diagnostics = []\<rparr>"
  by (simp add: check_skipped_def VerificationCheckResult_create_iff check_ok_def)

lemma check_failed_eq: "check_failed stage reason detail = Inr \<lparr>vc_stage = stage, vc_status = VS_failed, vc_duration = 0,
    vc_diagnostics = [\<lparr>vd_stage = stage, vd_reason = reason, vd_detail = detail, vd_offset = None\<rparr>]\<rparr>"
  by (simp add: check_failed_def VerificationCheckResult_create_iff check_ok_def)

lemma hash_passed_eq: "VerificationCheckResult_create Stage_hash VS_passed 0 [] = Inr \<lparr>vc_stage = Stage_hash, vc_status = VS_passed, vc_duration = 0, vc_diagnostics = []\<rparr>"
  by (simp add: VerificationCheckResult_create_iff check_ok_def)

text \<open>What the last stage says about the digits.\<close>

definition bbp_outcome :: "u64 \<Rightarrow> string \<Rightarrow> u64 list \<Rightarrow> BBPCheck \<Rightarrow> bool" where
  "bbp_outcome n ds ps b \<longleftrightarrow> check_ok (bc_check b) \<and> vc_stage (bc_check b) = Stage_bbp
     \<and> (vc_status (bc_check b) \<in> {VS_passed, VS_skipped} \<longrightarrow> map bs_position (bc_samples b) = ps \<and> (\<forall>p \<in> set ps. sample_agrees n ds p))"

lemma verifySamples_spec:
  assumes "long_double ld" and "gmp_library g" and "gmp_text_library h"
  shows "\<exists>b. verifySamples ld g h (extractor_of n ds) identity policy = Inr b \<and> bbp_outcome n ds (samples_select policy identity) b
    \<and> (half_unit n ds (pi - 3) \<longrightarrow> vc_status (bc_check b) \<noteq> VS_failed)"
proof (cases "samples_select policy identity = []")
  case True
  then show ?thesis
    by (simp add: verifySamples_def check_skipped_eq bbp_outcome_def check_ok_def)
next
  case False
  have "\<forall>p \<in> set (samples_select policy identity). p \<le> maximumPosition"
    using select_samples(3) safe_precision(2) by blast
  moreover have "samples_inv [] VS_passed"
    by (simp add: samples_inv_def)
  ultimately obtain ss ds1 a1 where l: "samplesLoop ld g h (extractor_of n ds) (samples_select policy identity) [] [] VS_passed = Inr (ss, ds1, a1)"
      "samples_inv ds1 a1" "map bs_position ss = samples_select policy identity"
      "a1 = VS_passed \<longrightarrow> (\<forall>p \<in> set (samples_select policy identity). sample_agrees n ds p)" "half_unit n ds (pi - 3) \<longrightarrow> a1 \<noteq> VS_failed"
    using samplesLoop_spec [OF assms, of "samples_select policy identity" "[]" VS_passed n ds "[]"] by auto
  let ?c = "\<lparr>vc_stage = Stage_bbp, vc_status = a1, vc_duration = 0, vc_diagnostics = ds1\<rparr>"
  have ok: "check_ok ?c" and ns: "a1 \<noteq> VS_skipped"
    using l(2) by (auto simp: samples_inv_def check_ok_def)
  then have c: "VerificationCheckResult_create Stage_bbp a1 0 ds1 = Inr ?c"
    by (simp add: VerificationCheckResult_create_iff)
  show ?thesis
    using False l ok ns by (simp add: verifySamples_def c bbp_outcome_def)
qed

section \<open>Correct outputs\<close>

text \<open>The digits are the fraction of pi rounded to the nearest multiple of the last place.\<close>

definition rounded_pi :: "u64 \<Rightarrow> string \<Rightarrow> bool" where
  "rounded_pi n ds \<longleftrightarrow> \<bar>(pi - 3) - real (digits_value ds) / 10 ^ unat n\<bar> < 1 / 2 / 10 ^ unat n"

lemma rounded_pi_half_unit: "rounded_pi n ds \<Longrightarrow> half_unit n ds (pi - 3)"
  by (simp add: rounded_pi_def half_unit_def)

lemma rounded_pi_scaled: "rounded_pi n ds \<Longrightarrow> \<bar>10 ^ unat n * (pi - 3) - real (digits_value ds)\<bar> < 1 / 2"
  by (simp add: rounded_pi_def field_simps)

text \<open>The digit after the hundredth of pi is an eight, so rounding at a later place does not reach the first hundred.\<close>

lemma pi_digit_101: "\<lfloor>10 ^ 101 * (pi - 3)\<rfloor> = 10 * \<lfloor>10 ^ 100 * (pi - 3)\<rfloor> + 8"
proof -
  have r: "take 101 REFERENCE_FRACTIONAL_DIGITS = take 100 REFERENCE_FRACTIONAL_DIGITS @ [CHR ''8'']"
    by (simp add: REFERENCE_FRACTIONAL_DIGITS_def)
  have "int (digits_value (take 101 REFERENCE_FRACTIONAL_DIGITS)) = 10 * int (digits_value (take 100 REFERENCE_FRACTIONAL_DIGITS)) + 8"
    unfolding r digits_value_snoc by (simp add: digit_value_def)
  then show ?thesis
    by (simp only: reference_prefix order.refl numeral_le_iff) (simp add: reference_prefix)
qed

lemma long_prefix:
  fixes x c :: real
  assumes "m + 8 / 10 \<le> x" and "x < m + 9 / 10" and "10 \<le> c" and "\<bar>c * x - v\<bar> < 1 / 2"
  shows "c * m \<le> v" and "v < c * (m + 1)"
proof -
  have "c * (m + 8 / 10) \<le> c * x" "c * x \<le> c * (m + 9 / 10)"
    using assms by (intro mult_left_mono; simp)+
  then have "c * m + c * (8 / 10) \<le> c * x" "c * x \<le> c * m + c * (9 / 10)"
    by (simp_all only: distrib_left)
  then show "c * m \<le> v" "v < c * (m + 1)"
    unfolding distrib_left using assms(3,4) by linarith+
qed

lemma rounded_pi_known:
  assumes "rounded_pi n ds" and "all_digits ds" and "length ds = unat n"
  shows "known_prefix n ds"
proof (cases "unat n \<le> 100")
  case True
  have "round (10 ^ unat n * (pi - 3)) = int (digits_value ds)"
    using rounded_pi_scaled [OF assms(1)] by (intro round_unique') simp
  then show ?thesis
    using True assms(3) by (simp add: known_prefix_def pi_prefix_def)
next
  case False
  define j where "j = unat n - 100"
  let ?m = "\<lfloor>10 ^ 100 * (pi - 3)\<rfloor>" and ?x = "10 ^ 100 * (pi - 3)" and ?N = "digits_value ds"
  have n: "unat n = 100 + j" "1 \<le> j"
    using False by (simp_all add: j_def)
  have "of_int (10 * ?m + 8) \<le> 10 ^ 101 * (pi - 3)" "10 ^ 101 * (pi - 3) < of_int (10 * ?m + 8) + 1"
    unfolding pi_digit_101 [symmetric] by linarith+
  then have x: "of_int ?m + 8 / 10 \<le> ?x" "?x < of_int ?m + 9 / 10"
    by (simp_all add: field_simps)
  have "(10 :: real) \<le> 10 ^ j"
    using n(2) power_increasing [of 1 j "10 :: real"] by simp
  moreover have "\<bar>10 ^ j * ?x - real ?N\<bar> < 1 / 2"
    using rounded_pi_scaled [OF assms(1)] unfolding n(1) power_add by (simp add: mult.assoc mult.left_commute)
  ultimately have "10 ^ j * of_int ?m \<le> real ?N" "real ?N < 10 ^ j * (of_int ?m + 1)"
    using long_prefix [OF x] by blast+
  then have "real_of_int (10 ^ j * ?m) \<le> real_of_int (int ?N)" "real_of_int (int ?N) < real_of_int (10 ^ j * (?m + 1))"
    by simp_all
  then have b: "10 ^ j * ?m \<le> int ?N" "int ?N < 10 ^ j * (?m + 1)"
    by (simp_all only: of_int_le_iff of_int_less_iff)
  have "int ?N div 10 ^ j = ?m"
    by (rule int_div_pos_eq [where r = "int ?N - 10 ^ j * ?m"]) (use b in \<open>simp_all add: algebra_simps\<close>)
  then show ?thesis
    using False n(1) assms(2,3) by (simp add: known_prefix_def pi_prefix_def digits_value_take zdiv_int)
qed

section \<open>The report\<close>

definition identity_ok :: "VerificationIdentity \<Rightarrow> bool" where
  "identity_ok i \<longleftrightarrow> vi_requestedDigits i \<noteq> 0 \<and> vi_requestedDigits i \<le> vi_workingDigits i \<and> vi_termCount i \<noteq> 0"

lemma report_create:
  "identity_ok i \<Longrightarrow> checks \<noteq> [] \<Longrightarrow> distinct (map vc_stage checks) \<Longrightarrow>
    FinalVerificationReport_create i checks = Inr \<lparr>fr_identity = i, fr_status = worst VS_skipped checks, fr_checks = checks\<rparr>"
  by (simp add: FinalVerificationReport_create_def identity_ok_def not_less res_bind_throw_if reportLoop_eq)

text \<open>The contract of a run: the four stages in order, each a well-formed result, and the worst status.\<close>

definition run_ok :: "VerificationIdentity \<Rightarrow> FinalVerificationRun \<Rightarrow> bool" where
  "run_ok i run \<longleftrightarrow> fr_identity (fv_report run) = i
     \<and> map vc_stage (fr_checks (fv_report run)) = [Stage_outputStructure, Stage_knownDigits, Stage_hash, Stage_bbp]
     \<and> (\<forall>c \<in> set (fr_checks (fv_report run)). check_ok c) \<and> fr_status (fv_report run) = worst VS_skipped (fr_checks (fv_report run))"

lemma stopped_spec:
  assumes "identity_ok i" and "structure_check False c"
  shows "\<exists>run. stoppedAfterStructure i c = Inr run \<and> run_ok i run \<and> fr_status (fv_report run) = VS_failed \<and> fv_sha256 run = None"
  using assms by (simp add: stoppedAfterStructure_def check_skipped_eq report_create structure_check_def run_ok_def check_ok_def)

lemma status_passed_or_failed:
  "worst VS_skipped [a, b, c, d] = VS_passed \<Longrightarrow> {vc_status a, vc_status b, vc_status c, vc_status d} \<subseteq> {VS_passed, VS_skipped}"
  "vc_status a \<noteq> VS_failed \<Longrightarrow> vc_status b \<noteq> VS_failed \<Longrightarrow> vc_status c \<noteq> VS_failed \<Longrightarrow> vc_status d \<noteq> VS_failed \<Longrightarrow> worst VS_skipped [a, b, c, d] \<noteq> VS_failed"
  using worst_passed [of "[a, b, c, d]"] worst_member [of VS_skipped "[a, b, c, d]"] by auto

text \<open>What a passed run says about the text: the known digits and every sampled digit are those of pi.\<close>

definition verified_digits :: "BBPSamplePolicy \<Rightarrow> VerificationIdentity \<Rightarrow> string \<Rightarrow> bool" where
  "verified_digits policy i t \<longleftrightarrow> canonical_text (vi_requestedDigits i) t \<and> known_prefix (vi_requestedDigits i) (drop 2 t)
     \<and> (\<forall>p \<in> set (samples_select policy i). sample_agrees (vi_requestedDigits i) (drop 2 t) p)"

lemma four_checks:
  assumes "identity_ok i" and "structure_check True a" and "known_outcome good k" and "check_ok c" and "vc_stage c = Stage_hash" and "bbp_outcome n ds ps b"
  shows "FinalVerificationReport_create i [a, kd_verification k, c, bc_check b] =
      Inr \<lparr>fr_identity = i, fr_status = worst VS_skipped [a, kd_verification k, c, bc_check b], fr_checks = [a, kd_verification k, c, bc_check b]\<rparr>"
    and "run_ok i \<lparr>fv_report = \<lparr>fr_identity = i, fr_status = worst VS_skipped [a, kd_verification k, c, bc_check b], fr_checks = [a, kd_verification k, c, bc_check b]\<rparr>,
           fv_sha256 = digest, fv_knownDigits = known, fv_bbpSamples = samples\<rparr>"
    and "worst VS_skipped [a, kd_verification k, c, bc_check b] = VS_passed \<Longrightarrow> good \<and> vc_status c \<noteq> VS_failed \<and> (\<forall>p \<in> set ps. sample_agrees n ds p)"
    and "good \<Longrightarrow> vc_status c \<noteq> VS_failed \<Longrightarrow> vc_status (bc_check b) \<noteq> VS_failed \<Longrightarrow> worst VS_skipped [a, kd_verification k, c, bc_check b] \<noteq> VS_failed"
proof -
  note stages = assms(2-6) [unfolded structure_check_def known_outcome_def bbp_outcome_def]
  show "FinalVerificationReport_create i [a, kd_verification k, c, bc_check b] =
      Inr \<lparr>fr_identity = i, fr_status = worst VS_skipped [a, kd_verification k, c, bc_check b], fr_checks = [a, kd_verification k, c, bc_check b]\<rparr>"
    using stages by (intro report_create assms(1)) auto
  show "run_ok i \<lparr>fv_report = \<lparr>fr_identity = i, fr_status = worst VS_skipped [a, kd_verification k, c, bc_check b], fr_checks = [a, kd_verification k, c, bc_check b]\<rparr>,
      fv_sha256 = digest, fv_knownDigits = known, fv_bbpSamples = samples\<rparr>"
    using stages by (simp add: run_ok_def)
  show "good \<and> vc_status c \<noteq> VS_failed \<and> (\<forall>p \<in> set ps. sample_agrees n ds p)" if "worst VS_skipped [a, kd_verification k, c, bc_check b] = VS_passed"
    using status_passed_or_failed(1) [OF that] stages by (auto split: if_splits)
  show "worst VS_skipped [a, kd_verification k, c, bc_check b] \<noteq> VS_failed" if "good" "vc_status c \<noteq> VS_failed" "vc_status (bc_check b) \<noteq> VS_failed"
    using that stages by (intro status_passed_or_failed(2)) auto
qed

lemma verifyMemory_spec:
  assumes lib: "long_double ld" "gmp_library g" "gmp_text_library h" and i: "identity_ok i" and small: "unat (vi_requestedDigits i) + 2 < 2 ^ 61"
  shows "\<exists>run. verifyMemory ld g h t i policy = Inr run \<and> run_ok i run
    \<and> (fr_status (fv_report run) = VS_passed \<longrightarrow> verified_digits policy i t \<and> fv_sha256 run = Some (sha256_spec (string_bytes t)))
    \<and> (canonical_text (vi_requestedDigits i) t \<and> rounded_pi (vi_requestedDigits i) (drop 2 t) \<longrightarrow> fr_status (fv_report run) \<noteq> VS_failed)"
proof -
  let ?n = "vi_requestedDigits i" and ?ds = "drop 2 t"
  have n: "?n \<le> - 1 - 2"
    using small by (simp add: word_le_nat_alt)
  obtain m where m: "inspectCanonicalDecimal t ?n = Inr m" "structure_check (canonical_text ?n t) (ci_verification m)"
      "ci_decimal m = (if canonical_text ?n t then Some \<lparr>cd_bytes = t, cd_requestedDigits = ?n\<rparr> else None)"
    using inspectCanonicalDecimal_exact [of t ?n] n by auto
  show ?thesis
  proof (cases "canonical_text ?n t")
    case False
    then show ?thesis
      using stopped_spec [OF i, of "ci_verification m"] m by (auto simp: verifyMemory_def inspectMemory_def inspection_accepted_def)
  next
    case True
    then have ds: "all_digits ?ds" "length ?ds = unat ?n" "length t = unat ?n + 2"
      by (auto simp: canonical_text_def all_digits_def)
    obtain k where k: "KnownDigitsVerifier_verify \<lparr>cd_bytes = t, cd_requestedDigits = ?n\<rparr> = Inr k" "known_outcome (known_prefix ?n ?ds) k"
      using KnownDigitsVerifier_verify_exact [OF True] by blast
    obtain b where b: "verifySamples ld g h (extractor_of ?n ?ds) i policy = Inr b" "bbp_outcome ?n ?ds (samples_select policy i) b"
        "half_unit ?n ?ds (pi - 3) \<longrightarrow> vc_status (bc_check b) \<noteq> VS_failed"
      using verifySamples_spec [OF lib] by blast
    let ?c = "\<lparr>vc_stage = Stage_hash, vc_status = VS_passed, vc_duration = 0, vc_diagnostics = []\<rparr>"
    let ?checks = "[ci_verification m, kd_verification k, ?c, bc_check b]"
    have c: "check_ok ?c" "vc_stage ?c = Stage_hash"
      by (simp_all add: check_ok_def)
    note r = four_checks [OF i _ k(2) c b(2), of "ci_verification m"]
    have run: "verifyMemory ld g h t i policy = Inr \<lparr>fv_report = \<lparr>fr_identity = i, fr_status = worst VS_skipped ?checks, fr_checks = ?checks\<rparr>,
        fv_sha256 = Some (sha256_spec (string_bytes t)), fv_knownDigits = Some k, fv_bbpSamples = bc_samples b\<rparr>"
      using m True k(1) b(1) r(1) SHA256_hash_spec [of t] ds(3) small extractor_ofDecimal_value [OF lib(2,3) True]
      by (simp add: verifyMemory_def inspectMemory_def inspection_accepted_def structure_check_def hash_passed_eq)
    have s: "structure_check True (ci_verification m)"
      using m(2) True by simp
    show ?thesis
      unfolding run using r(2-4) [OF s] True rounded_pi_known [OF _ ds(1,2)] rounded_pi_half_unit b(3)
      by (auto simp: verified_digits_def)
  qed
qed

section \<open>Files\<close>

text \<open>A disk on which the output file holds a canonical text, with the metadata of its inspection.\<close>

definition inspected :: "path \<Rightarrow> u64 \<Rightarrow> InspectedOutputFile" where
  "inspected p n = \<lparr>io_path = p, io_fileSize = n + 2 + 1, io_canonicalByteCount = n + 2, io_requestedDigits = n\<rparr>"

definition holds_text :: "os \<Rightarrow> path \<Rightarrow> u64 \<Rightarrow> string \<Rightarrow> bool" where
  "holds_text s p n t \<longleftrightarrow> canonical_text n t \<and> unat n + 2 < 2 ^ 61 \<and> content (os_disk s) p = Some (string_bytes t @ [10])"

lemma holds_text_bounds:
  assumes "holds_text s p n t"
  shows "n \<le> - 1 - 3" and "unat (n + 2) = unat n + 2" and "unat (n + 2) < 2 ^ 61" and "length t = unat n + 2" and "inspected_metadata_ok (inspected p n)"
proof -
  have small: "unat n + 2 < 2 ^ 61" and t: "canonical_text n t"
    using assms by (simp_all add: holds_text_def)
  show n: "n \<le> - 1 - 3"
    using small by (simp add: word_le_nat_alt)
  then show 2: "unat (n + 2) = unat n + 2"
    by (rule unat_plus_3)
  then show "unat (n + 2) < 2 ^ 61"
    using small by simp
  show "length t = unat n + 2"
    using t by (auto simp: canonical_text_def)
  show "inspected_metadata_ok (inspected p n)"
    using n t by (simp add: inspected_metadata_ok_def inspected_def canonical_text_def not_less)
qed

lemma known_on_text:
  assumes t: "holds_text s p n t"
  shows "\<exists>k good s'. KnownDigitsVerifier_verifyFile env (inspected p n) s = (Inr k, s') \<and> os_disk s' = os_disk s \<and> known_outcome good k
    \<and> (good \<longrightarrow> known_prefix n (drop 2 t)) \<and> ((\<forall>i. env_errno env i = None) \<and> known_prefix n (drop 2 t) \<longrightarrow> good)"
proof -
  have sel: "io_path (inspected p n) = p" "io_requestedDigits (inspected p n) = n"
    by (simp_all add: inspected_def)
  have onfile: "(\<exists>bs. content (os_disk s) p = Some bs \<and> known_file n bs) \<longleftrightarrow> known_prefix n (drop 2 t)"
    using known_file_text t by (simp add: holds_text_def)
  obtain k good s' where "KnownDigitsVerifier_verifyFile env (inspected p n) s = (Inr k, s')" "os_disk s' = os_disk s" "known_outcome good k"
      "good \<longrightarrow> inspected_metadata_ok (inspected p n) \<and> known_prefix n (drop 2 t)"
      "\<not> good \<longrightarrow> \<not> ((\<forall>i. env_errno env i = None) \<and> inspected_metadata_ok (inspected p n) \<and> known_prefix n (drop 2 t))"
    using KnownDigitsVerifier_verifyFile_exact [of env "inspected p n" s, unfolded known_on_disk_def sel onfile] by (elim exE conjE)
  then show ?thesis
    using holds_text_bounds(5) [OF t] by (intro exI [of _ k] exI [of _ good] exI [of _ s'] conjI) blast+
qed

lemma hashStage_spec:
  assumes "holds_text s p n t"
  shows "\<exists>d c s'. hashStage env (inspected p n) s = (Inr (d, c), s') \<and> os_disk s' = os_disk s \<and> check_ok c \<and> vc_stage c = Stage_hash
    \<and> (vc_status c \<noteq> VS_failed \<longrightarrow> d = Some (sha256_spec (string_bytes t))) \<and> (d = None \<longrightarrow> vc_status c = VS_failed)
    \<and> ((\<forall>i. env_errno env i = None) \<longrightarrow> vc_status c \<noteq> VS_failed)"
proof -
  note b = holds_text_bounds [OF assms]
  have disk: "content (os_disk s) p = Some (string_bytes t @ [10])"
    using assms by (simp add: holds_text_def)
  have all: "take (unat (n + 2)) (string_bytes t @ [10]) = string_bytes t" "unat (n + 2) \<le> length (string_bytes t @ [10])"
    using b(2,4) by simp_all
  obtain r s' where r: "hashFilePrefix env p (n + 2) s = (r, s')" "os_disk s' = os_disk s"
      "\<And>digest. r = Inr digest \<Longrightarrow> digest = sha256_spec (string_bytes t)" "(\<forall>i. env_errno env i = None) \<longrightarrow> (\<exists>digest. r = Inr digest)"
    using hashFilePrefix_spec [OF b(3), of env p s] disk all by auto
  show ?thesis
    using r by (cases r) (auto simp: hashStage_def inspected_def hash_passed_eq check_failed_eq check_ok_def)
qed

lemma bbpStage_spec:
  assumes lib: "long_double ld" "gmp_library g" "gmp_text_library h" and t: "holds_text s p n t"
  shows "\<exists>b s'. bbpStage env ld g h (inspected p n) i policy s = (Inr b, s') \<and> os_disk s' = os_disk s \<and> bbp_outcome n (drop 2 t) (samples_select policy i) b
    \<and> ((\<forall>k. env_errno env k = None) \<and> half_unit n (drop 2 t) (pi - 3) \<longrightarrow> vc_status (bc_check b) \<noteq> VS_failed)"
proof -
  obtain r s' where r: "extractor_fromFile env g h (inspected p n) s = (r, s')"
    by (metis surj_pair)
  have x: "os_disk s' = os_disk s \<and> (\<forall>x. r = Inr x \<longrightarrow> x = extractor_of n (drop 2 t)) \<and> ((\<forall>k. env_errno env k = None) \<longrightarrow> r = Inr (extractor_of n (drop 2 t)))"
    by (rule extractor_fromFile_value [OF lib(2,3) _ holds_text_bounds(1) [OF t] _ r [unfolded inspected_def]])
      (use t in \<open>simp_all add: holds_text_def\<close>)
  obtain b where b: "verifySamples ld g h (extractor_of n (drop 2 t)) i policy = Inr b" "bbp_outcome n (drop 2 t) (samples_select policy i) b"
      "half_unit n (drop 2 t) (pi - 3) \<longrightarrow> vc_status (bc_check b) \<noteq> VS_failed"
    using verifySamples_spec [OF lib] by blast
  show ?thesis
  proof (cases r)
    case (Inl e)
    then have "\<not> (\<forall>k. env_errno env k = None)"
      using x by blast
    then show ?thesis
      using r x Inl by (auto simp: bbpStage_def check_failed_eq bbp_outcome_def check_ok_def)
  next
    case (Inr y)
    then show ?thesis
      using r x b by (auto simp: bbpStage_def)
  qed
qed

text \<open>The run on an accepted file, stage by stage.\<close>

lemma accepted_run:
  assumes lib: "long_double ld" "gmp_library g" "gmp_text_library h" and i: "identity_ok i" and t: "holds_text s p (vi_requestedDigits i) t"
    and c: "structure_check True a"
  shows "\<exists>run s'. verifyInspected env ld g h a (inspected p (vi_requestedDigits i)) i policy s = (Inr run, s')
    \<and> os_disk s' = os_disk s \<and> run_ok i run
    \<and> (fr_status (fv_report run) = VS_passed \<longrightarrow> verified_digits policy i t \<and> fv_sha256 run = Some (sha256_spec (string_bytes t)))
    \<and> ((\<forall>k. env_errno env k = None) \<and> rounded_pi (vi_requestedDigits i) (drop 2 t) \<longrightarrow> fr_status (fv_report run) \<noteq> VS_failed)"
proof -
  let ?n = "vi_requestedDigits i" and ?ds = "drop 2 t" and ?calm = "\<forall>k. env_errno env k = None"
  note meta = holds_text_bounds(5) [OF t]
  have canon: "canonical_text ?n t" and disk: "content (os_disk s) p = Some (string_bytes t @ [10])"
    using t by (simp_all add: holds_text_def)
  have ds: "all_digits ?ds" "length ?ds = unat ?n"
    using canon by (auto simp: canonical_text_def all_digits_def)
  obtain k good s1 where k: "KnownDigitsVerifier_verifyFile env (inspected p ?n) s = (Inr k, s1)" "os_disk s1 = os_disk s" "known_outcome good k"
      "good \<longrightarrow> known_prefix ?n ?ds" "?calm \<and> known_prefix ?n ?ds \<longrightarrow> good"
    using known_on_text [OF t, of env] by blast
  have t1: "holds_text s1 p ?n t"
    using t k(2) by (simp add: holds_text_def)
  obtain d hc s2 where hs: "hashStage env (inspected p ?n) s1 = (Inr (d, hc), s2)" "os_disk s2 = os_disk s1" "check_ok hc" "vc_stage hc = Stage_hash"
      "vc_status hc \<noteq> VS_failed \<longrightarrow> d = Some (sha256_spec (string_bytes t))" "?calm \<longrightarrow> vc_status hc \<noteq> VS_failed"
    using hashStage_spec [OF t1, of env] by blast
  have t2: "holds_text s2 p ?n t"
    using t1 hs(2) by (simp add: holds_text_def)
  obtain b s3 where b: "bbpStage env ld g h (inspected p ?n) i policy s2 = (Inr b, s3)" "os_disk s3 = os_disk s2"
      "bbp_outcome ?n ?ds (samples_select policy i) b" "?calm \<and> half_unit ?n ?ds (pi - 3) \<longrightarrow> vc_status (bc_check b) \<noteq> VS_failed"
    using bbpStage_spec [OF lib t2, of env i policy] by blast
  note r = four_checks [OF i c k(3) hs(3,4) b(3)]
  let ?run = "\<lparr>fv_report = \<lparr>fr_identity = i, fr_status = worst VS_skipped [a, kd_verification k, hc, bc_check b], fr_checks = [a, kd_verification k, hc, bc_check b]\<rparr>,
      fv_sha256 = d, fv_knownDigits = Some k, fv_bbpSamples = bc_samples b\<rparr>"
  have "fr_status (fv_report ?run) = VS_passed \<longrightarrow> verified_digits policy i t \<and> fv_sha256 ?run = Some (sha256_spec (string_bytes t))"
    using r(3) canon k(4) hs(5) by (simp add: verified_digits_def)
  moreover have "?calm \<and> rounded_pi ?n ?ds \<longrightarrow> fr_status (fv_report ?run) \<noteq> VS_failed"
  proof
    assume "?calm \<and> rounded_pi ?n ?ds"
    then have "good" "vc_status hc \<noteq> VS_failed" "vc_status (bc_check b) \<noteq> VS_failed"
      using k(5) hs(6) b(4) rounded_pi_known [OF _ ds] rounded_pi_half_unit by blast+
    then show "fr_status (fv_report ?run) \<noteq> VS_failed"
      using r(4) by simp
  qed
  moreover have "os_disk s3 = os_disk s"
    using k(2) hs(2) b(2) by simp
  moreover have "verifyInspected env ld g h a (inspected p ?n) i policy s = (Inr ?run, s3)"
    by (simp add: verifyInspected_def st_bind_def k(1) hs(1) b(1) r(1))
  ultimately show ?thesis
    using r(2) by blast
qed

lemma verifyFile_spec:
  assumes lib: "long_double ld" "gmp_library g" "gmp_text_library h" and i: "identity_ok i" and small: "unat (vi_requestedDigits i) + 2 < 2 ^ 61"
  shows "\<exists>run s'. verifyFile env ld g h p i policy s = (Inr run, s') \<and> os_disk s' = os_disk s \<and> run_ok i run
    \<and> (fr_status (fv_report run) = VS_passed \<longrightarrow> (\<exists>t. content (os_disk s) p = Some (string_bytes t @ [10]) \<and> verified_digits policy i t
          \<and> fv_sha256 run = Some (sha256_spec (string_bytes t))))
    \<and> (\<forall>t. (\<forall>k. env_errno env k = None) \<and> content (os_disk s) p = Some (string_bytes t @ [10]) \<and> canonical_text (vi_requestedDigits i) t
          \<and> rounded_pi (vi_requestedDigits i) (drop 2 t) \<longrightarrow> fr_status (fv_report run) \<noteq> VS_failed)"
proof -
  let ?n = "vi_requestedDigits i"
  obtain q s1 where q: "inspectFile env p ?n s = (q, s1)"
    by (metis surj_pair)
  obtain m where m: "q = Inr m" "os_disk s1 = os_disk s" "structure_check (oi_file m \<noteq> None) (oi_verification m)"
      "\<And>f. oi_file m = Some f \<Longrightarrow> f = inspected p ?n \<and> (\<exists>t. canonical_text ?n t \<and> content (os_disk s) p = Some (string_bytes t @ [10]))"
    using inspectFile_exact [OF q] unfolding inspected_def by blast
  have accepted: "file_accepted m \<longleftrightarrow> oi_file m \<noteq> None"
    using m(3) by (auto simp: file_accepted_def structure_check_def)
  have n: "?n \<le> - 1 - 3"
    using small by (simp add: word_le_nat_alt)
  show ?thesis
  proof (cases "oi_file m")
    case None
    then obtain run where run: "stoppedAfterStructure i (oi_verification m) = Inr run" "run_ok i run" "fr_status (fv_report run) = VS_failed"
      using stopped_spec [OF i] m(3) by auto
    have "\<not> ((\<forall>k. env_errno env k = None) \<and> content (os_disk s) p = Some (string_bytes t @ [10]) \<and> canonical_text ?n t)" for t
    proof
      assume "(\<forall>k. env_errno env k = None) \<and> content (os_disk s) p = Some (string_bytes t @ [10]) \<and> canonical_text ?n t"
      then have "\<exists>j. fst (inspectFile env p ?n s) = Inr j \<and> file_accepted j"
        by (intro inspectFile_calm [OF _ _ n]) auto
      then show False
        using q m(1) accepted None by simp
    qed
    then show ?thesis
      using run m(1,2) None accepted by (auto simp: verifyFile_def st_bind_def [of "inspectFile env p ?n"] q m(1))
  next
    case (Some f)
    then obtain t where t: "f = inspected p ?n" "canonical_text ?n t" "content (os_disk s) p = Some (string_bytes t @ [10])"
      using m(4) by blast
    then have h: "holds_text s1 p ?n t"
      using small m(2) by (simp add: holds_text_def)
    have c: "structure_check True (oi_verification m)"
      using m(3) Some by simp
    have run: "verifyFile env ld g h p i policy s = verifyInspected env ld g h (oi_verification m) (inspected p ?n) i policy s1"
      using accepted Some t(1) by (simp add: verifyFile_def st_bind_def q m(1))
    have unique: "u = t" if "content (os_disk s) p = Some (string_bytes u @ [10])" for u
      using that t(3) by (simp add: string_bytes_inj)
    show ?thesis
      unfolding run using accepted_run [OF lib i h c, of env policy] m(2) t(3) unique by fastforce
  qed
qed

lemma replaceHash_spec:
  "\<forall>c \<in> set cs. check_ok c \<Longrightarrow> \<exists>cs'. replaceHash cs = Inr cs' \<and> map vc_stage cs' = map vc_stage cs
     \<and> (\<forall>c \<in> set cs'. check_ok c \<and> (vc_stage c = Stage_hash \<longrightarrow> vc_status c = VS_failed))"
proof (induction cs)
  case (Cons c cs)
  then obtain cs' where "replaceHash cs = Inr cs'" "map vc_stage cs' = map vc_stage cs"
      "\<forall>c \<in> set cs'. check_ok c \<and> (vc_stage c = Stage_hash \<longrightarrow> vc_status c = VS_failed)"
    by auto
  moreover have "VerificationCheckResult_create Stage_hash VS_failed (vc_duration c)
      [\<lparr>vd_stage = Stage_hash, vd_reason = VR_hashMismatch, vd_detail = ''Canonical SHA-256 differs from verification manifest'', vd_offset = None\<rparr>]
    = Inr \<lparr>vc_stage = Stage_hash, vc_status = VS_failed, vc_duration = vc_duration c, vc_diagnostics =
      [\<lparr>vd_stage = Stage_hash, vd_reason = VR_hashMismatch, vd_detail = ''Canonical SHA-256 differs from verification manifest'', vd_offset = None\<rparr>]\<rparr>"
    using Cons.prems by (simp add: VerificationCheckResult_create_iff check_ok_def)
  ultimately show ?case
    using Cons.prems by (auto simp: check_ok_def)
qed simp

lemma verifyFileExpecting_spec:
  assumes lib: "long_double ld" "gmp_library g" "gmp_text_library h" and i: "identity_ok i" and small: "unat (vi_requestedDigits i) + 2 < 2 ^ 61"
  shows "\<exists>run s'. verifyFileExpecting env ld g h p i expected policy s = (Inr run, s') \<and> os_disk s' = os_disk s \<and> run_ok i run
    \<and> (fr_status (fv_report run) = VS_passed \<longrightarrow> (\<exists>t. content (os_disk s) p = Some (string_bytes t @ [10]) \<and> verified_digits policy i t
          \<and> expected = sha256_spec (string_bytes t)))"
proof -
  obtain run s' where v: "verifyFile env ld g h p i policy s = (Inr run, s')" "os_disk s' = os_disk s" "run_ok i run"
      "fr_status (fv_report run) = VS_passed \<longrightarrow> (\<exists>t. content (os_disk s) p = Some (string_bytes t @ [10]) \<and> verified_digits policy i t
          \<and> fv_sha256 run = Some (sha256_spec (string_bytes t)))"
    using verifyFile_spec [OF assms, of env p policy s] by blast
  show ?thesis
  proof (cases "fv_sha256 run = None \<or> fv_sha256 run = Some expected")
    case True
    then have "verifyFileExpecting env ld g h p i expected policy s = (Inr run, s')"
      by (simp add: verifyFileExpecting_def st_bind_def v(1))
    then show ?thesis
      using v True by auto
  next
    case False
    obtain cs where cs: "replaceHash (fr_checks (fv_report run)) = Inr cs" "map vc_stage cs = map vc_stage (fr_checks (fv_report run))"
        "\<forall>c \<in> set cs. check_ok c \<and> (vc_stage c = Stage_hash \<longrightarrow> vc_status c = VS_failed)"
      using replaceHash_spec [of "fr_checks (fv_report run)"] v(3) by (auto simp: run_ok_def)
    have stages: "map vc_stage cs = [Stage_outputStructure, Stage_knownDigits, Stage_hash, Stage_bbp]"
      using cs(2) v(3) by (simp add: run_ok_def)
    then have "Stage_hash \<in> vc_stage ` set cs" "cs \<noteq> []" "distinct (map vc_stage cs)"
      by (simp_all flip: set_map) auto
    then have bad: "worst VS_skipped cs \<noteq> VS_passed"
      using worst_passed [of cs] cs(3) by force
    let ?run = "run\<lparr>fv_report := \<lparr>fr_identity = i, fr_status = worst VS_skipped cs, fr_checks = cs\<rparr>\<rparr>"
    have "verifyFileExpecting env ld g h p i expected policy s = (Inr ?run, s')"
      using False report_create [OF i \<open>cs \<noteq> []\<close> \<open>distinct (map vc_stage cs)\<close>] by (auto simp: verifyFileExpecting_def st_bind_def v(1) cs(1))
    then show ?thesis
      using bad stages cs(3) v(2) by (intro exI [of _ ?run] exI [of _ s']) (simp add: run_ok_def)
  qed
qed

section \<open>Properties\<close>


text \<open>
  C6: A passed verification proves the sampled digits.  When the report is passed, the text is canonical, its first
  digits are those of pi, and at every sampled position all numbers within half a unit of the last place
  have the hexadecimal digit of pi; the recorded digest is the SHA-256 of the text.  For a file this is
  about what the disk holds, whichever calls fail, and with an expected digest the digest of the file is the expected one.
\<close>

theorem FinalVerifier_sound:
  assumes "long_double ld" and "gmp_library g" and "gmp_text_library h" and "identity_ok i" and "unat (vi_requestedDigits i) + 2 < 2 ^ 61"
  shows "(\<forall>run. verifyMemory ld g h t i policy = Inr run \<and> fr_status (fv_report run) = VS_passed \<longrightarrow>
        verified_digits policy i t \<and> fv_sha256 run = Some (sha256_spec (string_bytes t)))
    \<and> (\<forall>run s'. verifyFile env ld g h p i policy s = (Inr run, s') \<and> fr_status (fv_report run) = VS_passed \<longrightarrow>
        (\<exists>t. content (os_disk s) p = Some (string_bytes t @ [10]) \<and> verified_digits policy i t \<and> fv_sha256 run = Some (sha256_spec (string_bytes t))))
    \<and> (\<forall>run s'. verifyFileExpecting env ld g h p i expected policy s = (Inr run, s') \<and> fr_status (fv_report run) = VS_passed \<longrightarrow>
        (\<exists>t. content (os_disk s) p = Some (string_bytes t @ [10]) \<and> verified_digits policy i t \<and> expected = sha256_spec (string_bytes t)))"
  using verifyMemory_spec [OF assms, of t policy] verifyFile_spec [OF assms, of env p policy s] verifyFileExpecting_spec [OF assms, of env p expected policy s]
  by auto

text \<open>
  C7: A correct output is never reported as wrong.  When the text is pi rounded to the requested digits, its
  verification in memory does not fail, and neither does the verification of the file that holds it when no call fails:
  the status is passed, or inconclusive when a sampled digit cannot be decided.
\<close>

theorem FinalVerifier_accepts_pi:
  assumes "long_double ld" and "gmp_library g" and "gmp_text_library h" and "identity_ok i" and "unat (vi_requestedDigits i) + 2 < 2 ^ 61"
    and "canonical_text (vi_requestedDigits i) t" and "rounded_pi (vi_requestedDigits i) (drop 2 t)"
  shows "(\<exists>run. verifyMemory ld g h t i policy = Inr run \<and> fr_status (fv_report run) \<noteq> VS_failed)
    \<and> ((\<forall>k. env_errno env k = None) \<and> content (os_disk s) p = Some (string_bytes t @ [10]) \<longrightarrow>
        (\<exists>run s'. verifyFile env ld g h p i policy s = (Inr run, s') \<and> fr_status (fv_report run) \<noteq> VS_failed))"
  using verifyMemory_spec [OF assms(1-5), of t policy] verifyFile_spec [OF assms(1-5), of env p policy s] assms(6,7)
  by blast

section \<open>A small run\<close>

definition sample_final :: VerificationIdentity where
  "sample_final = \<lparr>vi_requestedDigits = 2, vi_guardDigits = 20, vi_workingDigits = 22, vi_termCount = 3\<rparr>"

lemma sample_final_ok: "identity_ok sample_final" "unat (vi_requestedDigits sample_final) + 2 < 2 ^ 61" "vi_requestedDigits sample_final = 2"
  by (simp_all add: identity_ok_def sample_final_def)

lemma sample_rounded: "rounded_pi 2 (drop 2 ''3.14'')"
proof -
  have "real_of_int pi_digits \<le> 10 ^ 101 * pi" "10 ^ 101 * pi < real_of_int pi_digits + 1"
    using pi_decimal by linarith+
  then have "314 / 100 < pi" "pi < 3145 / 1000"
    by (simp_all add: pi_digits_def)
  then show ?thesis
    by (simp add: rounded_pi_def digits_value_def digit_value_def abs_if)
qed

lemma sample_passes: "\<exists>run. verifyMemory exact_format gmp_ref gmp_text_ref ''3.14'' sample_final \<lparr>sp_maximumSamples = 8\<rparr> = Inr run \<and> fr_status (fv_report run) = VS_passed"
proof -
  have 1: "inspectMemory ''3.14'' 2 = Inr \<lparr>ci_verification = \<lparr>vc_stage = Stage_outputStructure, vc_status = VS_passed, vc_duration = 0, vc_diagnostics = []\<rparr>,
      ci_decimal = Some \<lparr>cd_bytes = ''3.14'', cd_requestedDigits = 2\<rparr>\<rparr>"
    by code_simp
  have 2: "KnownDigitsVerifier_verify \<lparr>cd_bytes = ''3.14'', cd_requestedDigits = 2\<rparr> = Inr (known_result \<lparr>vc_stage = Stage_knownDigits, vc_status = VS_passed,
      vc_duration = 0, vc_diagnostics = []\<rparr> 2)"
    by code_simp
  have 3: "samples_select \<lparr>sp_maximumSamples = 8\<rparr> sample_final = []"
    by (simp add: samples_select_def sample_final_def safePositionCount_def)
  obtain digest where 4: "SHA256_hash ''3.14'' = Inr digest"
    using SHA256_hash_spec [of "''3.14''"] by simp
  have 5: "extractor_ofDecimal gmp_ref gmp_text_ref \<lparr>cd_bytes = ''3.14'', cd_requestedDigits = 2\<rparr> = Inr (extractor_of 2 (drop 2 ''3.14''))"
    by (rule extractor_ofDecimal_value [OF gmp_ref.gmp_library_axioms text_ref.gmp_text_library_axioms canonical_sample])
  show ?thesis
    using sample_final_ok(1)
    by (simp add: verifyMemory_def sample_final_ok(3) 1 2 4 5 inspection_accepted_def hash_passed_eq verifySamples_def 3 check_skipped_eq known_result_def report_create)
qed

lemmas sample_library = exact.long_double_axioms gmp_ref.gmp_library_axioms text_ref.gmp_text_library_axioms


theorem FinalVerifier_sound_witness:
  "\<exists>run. verifyMemory exact_format gmp_ref gmp_text_ref ''3.14'' sample_final \<lparr>sp_maximumSamples = 8\<rparr> = Inr run
     \<and> fv_sha256 run = Some (sha256_spec (string_bytes ''3.14'')) \<and> known_prefix 2 ''14''"
  using FinalVerifier_sound [OF sample_library sample_final_ok(1,2), of "''3.14''" "\<lparr>sp_maximumSamples = 8\<rparr>" calm_env "Path [] []" fresh_os "[]"] sample_passes
  by (auto simp: verified_digits_def sample_final_ok(3))

theorem FinalVerifier_accepts_pi_witness:
  "\<exists>run s'. verifyFile calm_env exact_format gmp_ref gmp_text_ref (Path ''out'' ''pi.txt'') sample_final \<lparr>sp_maximumSamples = 8\<rparr>
      (file_os (Path ''out'' ''pi.txt'') (string_bytes ''3.14'' @ [10])) = (Inr run, s') \<and> fr_status (fv_report run) \<noteq> VS_failed"
  using FinalVerifier_accepts_pi [OF sample_library sample_final_ok(1,2), of "''3.14''" "\<lparr>sp_maximumSamples = 8\<rparr>" calm_env
      "file_os (Path ''out'' ''pi.txt'') (string_bytes ''3.14'' @ [10])" "Path ''out'' ''pi.txt''"] canonical_sample sample_rounded
  by (simp add: sample_final_ok(3) content_file_os calm_env_def)

end
