(* ===== verification/Spec2Isabelle.thy ===== *)
theory Spec2Isabelle
  imports Chudnovsky_Parallel Block_Validator Modular_Verifier Crash_Recovery Chunk_Codec Versioned_Chunk_Index Merge_Storage Final_Verifier
begin

text \<open>
  givemepi computes decimal digits of pi with the Chudnovsky series by binary splitting, in parallel,
  with checkpoints on disk from which a killed run goes on.  This development models that program and
  proves it correct.

  \<^bold>\<open>How the program is put together.\<close>
  A precision policy turns the requested digits into working digits and a number of terms; the
  splitter computes the integers P, Q and T of all terms, sequentially or as tasks of an executor;
  the calculator turns Q and T into the digit string.  While the parallel splitter merges, it hands
  its frontier (the computed ranges that no merge has used yet) to a checkpoint writer, which stores
  every range as a block file and then replaces one manifest that names them.  A second coordinator keeps
  the split within a memory budget: it writes nodes to chunk files and reads them back before they are
  merged.  A later run loads the
  manifest, validates every block, moves what it rejects into a quarantine directory and starts from
  the blocks it accepts.  A progress tracker follows all of this.  When the digits are written, the final
  verification inspects the output, compares it with known digits, hashes it and checks sampled hexadecimal
  digits with an independent formula.

  \<^bold>\<open>The theories and the code they model\<close> (paths under src/, headers under src/include).

  \<^item> Prelude: exceptions as values (\<open>cpp_error + 'a\<close>), two monads over a state (\<open>action\<close> for code that
    returns, \<open>paction\<close> for code with a loop that might not), post-condition rules, machine-word lemmas.
  \<^item> Gmp_Integer (src/bigint/GMPInteger.cpp): the wrapper.  GMP itself is a record of functions, \<open>gmp\<close>;
    the locale \<open>gmp_library\<close> holds the documented laws the code relies on, interpreted on \<open>gmp_ref\<close>.
  \<^item> Split_Scheme, Binary_Node, Binary_Splitter (src/binary): the contract of a binary splitting as a
    locale; nodes, leaves, merge and the sequential split with their closed forms.
  \<^item> Chudnovsky_Series, Precision_Policy, Progress_Tracker, Chudnovsky_Calculator (src/chudnovsky,
    src/progress): the analysis of the series, the policy arithmetic at its machine widths, the
    progress state machine, and the calculation with all its error branches.
  \<^item> Binary_Parallel, Binary_Parallel_Correct, Chudnovsky_Parallel: the parallel splitter with seeds
    taken over from checkpoints, for every executor that runs each submitted task once, in any order;
    coordinators and observers are parameters under the locales they have to satisfy.
  \<^item> Byte_Codec, Crc32c, Checksummed_Format, Gmp_Serialization, Checkpoint_Types,
    Checkpoint_Block_Codec, Checkpoint_Manifest (src/checkpoint): the two file formats byte by byte.
    Both codecs interpret the locale \<open>checksummed_format\<close>, which yields the detection of damage.
  \<^item> Checkpoint_Validation, Manifest_Validator, Block_Validator, Modular_Verifier: the validators
    of a resume, every diagnostic included.
  \<^item> Posix_Files: the operating system the checkpoint code talks to.  A disk has names, files, the
    synced part of each file, and the unsynced history of each directory entry; \<open>after_crash\<close> is the set of
    contents a crash may leave.  Each call may fail as the environment says, and the trace of all
    disks a run passes through is part of the state.
  \<^item> Atomic_Commit, Checkpoint_Store, Frontier_Writer: durable replacement of a file, the block and
    manifest store, and the checkpoint writer.
  \<^item> Checkpointed_Split: the frontier writer as the checkpoint coordinator of the parallel splitter.
  \<^item> Checkpoint_Inspection, Checkpoint_Quarantine, Resume_Planner, Crash_Recovery: the way back, from
    a disk after a crash to the seeds and the writer of the next run.
  \<^item> Chunk_Types, Chunk_Codec, Ordered_Map, Chunk_Index, Versioned_Chunk_Index (src/storage): identities,
    metadata and compression of runtime chunks, the chunk format, and the two indexes with their byte
    formats.  LZ4 is a record of functions under the locale \<open>lz4_library\<close>; \<open>std::map\<close> is the locale
    \<open>ordered_map\<close>; \<open>std::sort\<close>, which leaves the order of equal keys open, is an argument where that shows.
  \<^item> Node_Lifecycle, Storage_Policy, Chunk_Store, Eviction_Plan, Storage_Manager, Merge_Storage (src/storage):
    the life of a node that is moved to disk and back, the storage settings, the chunk files, the choice of
    nodes to move, the manager of chunk files and index (its contract is the locale \<open>chunk_repository\<close>), and
    the coordinator, which interprets the splitter's locale \<open>merge_coordinator\<close>.  Range_Bounds bounds the
    lengths of the integers of a range.
  \<^item> Bbp_Series, Long_Double, Bbp_Digit (src/verification/BBPHexDigit.cpp): the formula of Bailey, Borwein and
    Plouffe for pi, proved; \<open>long double\<close> as rational numbers rounded by a format, a parameter under the locale
    \<open>long_double\<close>, which the 64-bit format of x87 interprets; the calculator of a hexadecimal digit.
  \<^item> Input_Stream, Sha256, Final_Report, Output_Inspection, Pi_Reference, Known_Digits, Bbp_Samples, Decimal_Hex,
    Final_Verifier (src/verification): reading a file in pieces, the streaming digest, the report, the structure of
    the output, the first 101 decimals of pi (proved with Machin's formula), the comparison with them, the sampled
    positions, the hexadecimal digits of the output, and the verifier that runs these stages.  The GMP functions that
    only this part calls are a second record, \<open>gmp_text\<close>, with the locale \<open>gmp_text_library\<close>.

  \<^bold>\<open>What the theorems show.\<close>
  The digit string is the Chudnovsky sum within half a unit of its last place and a share of the guard digits (the
  error bounds and the sign of every term are proved; that the series sums to a known multiple of 1/pi is not).  The parallel
  splitter, with seeds, coordinators and any executor, computes what the sequential one computes.
  The tracker only takes the transitions of its table.  Every format decodes what it encoded, accepts
  nothing else where it is canonical, and rejects damage of up to four neighbouring bytes.  A file commit
  is atomic and durable at every call; at every moment of a checkpointed run the disk is one from which a
  run can resume, and the planner, the quarantine and the next writer do resume from it.  A stored chunk
  survives every crash together with its index entry, and a split that moves nodes to disk when they
  exceed the memory budget still computes what the sequential one computes.  The final verification always
  reports, passes only when the known and the sampled digits are those of pi, and never rejects a correctly
  rounded pi.

  \<^bold>\<open>Bounds and fuel.\<close>
  Retry loops of the source have its own bound (128 attempts).  The only loop without one, \<open>writeAll\<close>, which
  repeats interrupted writes, is a \<open>partial_function\<close>; it returns for every environment that does not
  interrupt forever (\<open>interrupts_end\<close>).  Recovery is proved for up to 2 ^ 50 terms, so that all lengths fit 64 bits.

  \<^bold>\<open>Not modelled.\<close>
  Directories have no state of their own (creating one may fail, but its parent is not synced by the
  code either); closing descriptors while an exception passes has no effect on the disk.  Console
  output, JSON progress text and floating-point estimates, the thread pool and its lock-free queue, the
  asynchronous reader and writer threads, the manifest of the final verification, option parsing and CPU detection
  are outside; the manifest of this development names them one by one.
\<close>

section \<open>The calculation\<close>

text \<open>
  C4: The split of the first \<open>n\<close> terms holds the partial sum of the Chudnovsky series exactly: the
  quotient of its T and Q is the sum of the first \<open>n\<close> terms, and what is missing to the whole
  series is at most the first term left out.
\<close>

theorem splitSequential_series:
  assumes "gmp_library g" and "n \<noteq> 0"
  shows "\<exists>node. splitSequential g 0 n = Some (Inr node)
    \<and> real_of_int (node_T node) / real_of_int (node_Q node) = chud_partial (unat n)
    \<and> \<bar>chud_sum - real_of_int (node_T node) / real_of_int (node_Q node)\<bar> \<le> chud_abs (unat n)"
  using assms chud_truncation [of "unat n"]
  by (auto simp: gmp_library.splitSequential_eq pqt_node_def partial_sum_eq word_gt_0)

theorem splitSequential_series_witness:
  "\<exists>node. splitSequential gmp_ref 0 3 = Some (Inr node)
    \<and> real_of_int (node_T node) / real_of_int (node_Q node) = chud_partial 3
    \<and> \<bar>chud_sum - real_of_int (node_T node) / real_of_int (node_Q node)\<bar> \<le> chud_abs 3"
  using splitSequential_series [OF gmp_ref.gmp_library_axioms, of 3] by simp

end
